(* ===== verification/Relavium_Prelude.thy ===== *)
theory Relavium_Prelude
  imports Main "HOL-Library.Multiset" "HOL-Library.List_Lexorder" "HOL-Library.Char_ord"
begin

text \<open>
  Shared vocabulary of the development: the JavaScript containers the engine keeps its state in
  (insertion-ordered \<open>Set\<close> and \<open>Map\<close>), safe integers, and the generic list lemmas that the
  component theories use.

  A JavaScript \<open>Set\<close> is a distinct list in insertion order, a \<open>Map\<close> an association list with
  distinct keys in insertion order. Their laws are stated once as the locale \<open>js_map\<close> and
  discharged for the association lists.
\<close>

section \<open>Collections of simplification rules\<close>

named_theorems container_simps \<open>look-ups after updates of the JavaScript containers\<close>

section \<open>Sets and maps in insertion order\<close>

text \<open>\<open>Set.add\<close>: an element that is already present keeps its position.\<close>

definition set_add :: "'a \<Rightarrow> 'a list \<Rightarrow> 'a list" where
  "set_add x xs = (if x \<in> set xs then xs else xs @ [x])"

lemma set_set_add [simp, container_simps]: "set (set_add x xs) = insert x (set xs)"
  by (auto simp: set_add_def)

lemma set_fold_set_add: "set (fold set_add xs acc) = set xs \<union> set acc"
  by (induction xs arbitrary: acc) auto

lemma distinct_set_add [simp]: "distinct (set_add x xs) = distinct xs"
  by (auto simp: set_add_def)

type_synonym ('k, 'v) jsmap = "('k \<times> 'v) list"

text \<open>\<open>Map.get\<close>, \<open>Map.set\<close> (a present key keeps its position) and \<open>Map.delete\<close>.\<close>

definition mget :: "('k, 'v) jsmap \<Rightarrow> 'k \<Rightarrow> 'v option" where
  "mget m k = map_of m k"

fun mset_key :: "'k \<Rightarrow> 'v \<Rightarrow> ('k, 'v) jsmap \<Rightarrow> ('k, 'v) jsmap" where
  "mset_key k v [] = [(k, v)]"
| "mset_key k v ((k', v') # m) = (if k = k' then (k, v) # m else (k', v') # mset_key k v m)"

definition mdelete :: "'k \<Rightarrow> ('k, 'v) jsmap \<Rightarrow> ('k, 'v) jsmap" where
  "mdelete k m = filter (\<lambda>(k', _). k' \<noteq> k) m"

definition mkeys :: "('k, 'v) jsmap \<Rightarrow> 'k list" where
  "mkeys m = map fst m"

definition mvalues :: "('k, 'v) jsmap \<Rightarrow> 'v list" where
  "mvalues m = map snd m"

definition map_invar :: "('k, 'v) jsmap \<Rightarrow> bool" where
  "map_invar m = distinct (map fst m)"

text \<open>The contract of a \<open>Map\<close> that its clients rely on.\<close>

locale js_map =
  fixes empty :: 'm
    and get :: "'m \<Rightarrow> 'k \<Rightarrow> 'v option"
    and put :: "'k \<Rightarrow> 'v \<Rightarrow> 'm \<Rightarrow> 'm"
    and del :: "'k \<Rightarrow> 'm \<Rightarrow> 'm"
    and invar :: "'m \<Rightarrow> bool"
  assumes get_empty: "get empty k = None"
    and get_put: "get (put k v m) k' = (if k' = k then Some v else get m k')"
    and get_del: "get (del k m) k' = (if k' = k then None else get m k')"
    and invar_empty: "invar empty"
    and invar_put: "invar m \<Longrightarrow> invar (put k v m)"
    and invar_del: "invar m \<Longrightarrow> invar (del k m)"
begin

lemma put_put_same: "get (put k w (put k v m)) = get (put k w m)"
  by (rule ext) (simp add: get_put)

lemma del_put_same: "get (del k (put k v m)) = get (del k m)"
  by (rule ext) (simp add: get_put get_del)

lemma put_commute: "k \<noteq> k' \<Longrightarrow> get (put k v (put k' v' m)) = get (put k' v' (put k v m))"
  by (rule ext) (simp add: get_put)

end

lemma mget_mset_key [simp, container_simps]:
  "mget (mset_key k v m) k' = (if k' = k then Some v else mget m k')"
  by (induction m) (auto simp: mget_def)

lemma mget_mdelete [simp, container_simps]:
  "mget (mdelete k m) k' = (if k' = k then None else mget m k')"
  by (induction m) (auto simp: mget_def mdelete_def)

lemma mget_Nil [simp, container_simps]: "mget [] k = None"
  by (simp add: mget_def)

lemma keys_mset_key: "fst ` set (mset_key k v m) = insert k (fst ` set m)"
proof (induction m)
  case (Cons p m)
  then show ?case by (cases p) (simp add: insert_commute)
qed simp

lemma map_invar_mset_key [simp]: "map_invar m \<Longrightarrow> map_invar (mset_key k v m)"
proof (induction m)
  case Nil
  then show ?case by (simp add: map_invar_def)
next
  case (Cons p m)
  then show ?case
    by (cases p) (auto simp: map_invar_def keys_mset_key image_iff)
qed

lemma map_invar_mdelete [simp]: "map_invar m \<Longrightarrow> map_invar (mdelete k m)"
  by (auto simp: map_invar_def mdelete_def distinct_map_filter)

lemma map_invar_Nil [simp]: "map_invar []"
  by (simp add: map_invar_def)

interpretation jsm: js_map "[]" mget mset_key mdelete map_invar
  by unfold_locales auto

lemma mget_in_set: "mget m k = Some v \<Longrightarrow> (k, v) \<in> set m"
  by (auto simp: mget_def dest: map_of_SomeD)

lemma in_set_mget: "map_invar m \<Longrightarrow> (k, v) \<in> set m \<Longrightarrow> mget m k = Some v"
  by (auto simp: mget_def map_invar_def)

lemma mget_None_iff: "mget m k = None \<longleftrightarrow> k \<notin> fst ` set m"
  by (simp add: mget_def map_of_eq_None_iff)

section \<open>Safe integers\<close>

text \<open>
  JavaScript numbers that hold money and counters are integers up to \<open>2\<^sup>5\<^sup>3 - 1\<close>; the code guards
  them with \<open>Number.isSafeInteger\<close>. They are modelled as \<open>int\<close>, with the guard written out.
\<close>

definition MAX_SAFE_INTEGER :: int where
  "MAX_SAFE_INTEGER = 9007199254740991"

definition isSafeInteger :: "int \<Rightarrow> bool" where
  "isSafeInteger n \<longleftrightarrow> - MAX_SAFE_INTEGER \<le> n \<and> n \<le> MAX_SAFE_INTEGER"

lemma MAX_SAFE_INTEGER_pow: "MAX_SAFE_INTEGER = 2 ^ 53 - 1"
  by (simp add: MAX_SAFE_INTEGER_def)

section \<open>Lists\<close>

lemma sum_list_map_filter_split:
  "(\<Sum>x\<leftarrow>xs. f x) = (\<Sum>x\<leftarrow>filter P xs. f x) + (\<Sum>x\<leftarrow>filter (\<lambda>x. \<not> P x) xs. (f x :: int))"
  by (induction xs) auto

lemma find_eq_Some_first:
  "find P xs = Some x \<longleftrightarrow> (\<exists>ys zs. xs = ys @ x # zs \<and> P x \<and> (\<forall>y \<in> set ys. \<not> P y))"
proof
  assume "find P xs = Some x"
  then obtain i where i: "i < length xs" "P (xs ! i)" "x = xs ! i" "\<forall>j < i. \<not> P (xs ! j)"
    by (auto simp: find_Some_iff)
  then have "xs = take i xs @ x # drop (Suc i) xs"
    by (simp add: id_take_nth_drop)
  moreover have "\<forall>y \<in> set (take i xs). \<not> P y"
    using i by (auto simp: in_set_conv_nth)
  ultimately show "\<exists>ys zs. xs = ys @ x # zs \<and> P x \<and> (\<forall>y \<in> set ys. \<not> P y)"
    using i by blast
next
  assume "\<exists>ys zs. xs = ys @ x # zs \<and> P x \<and> (\<forall>y \<in> set ys. \<not> P y)"
  then obtain ys zs where *: "xs = ys @ x # zs" "P x" "\<forall>y \<in> set ys. \<not> P y"
    by blast
  then have "find P ys = None"
    by (auto simp: find_None_iff)
  with * show "find P xs = Some x"
    by (induction ys arbitrary: xs) auto
qed

lemma distinct_card_filter: "distinct xs \<Longrightarrow> length (filter P xs) = card {x \<in> set xs. P x}"
  by (metis distinct_card distinct_filter set_filter)

lemma set_map_filter_iff: "y \<in> set (List.map_filter f xs) \<longleftrightarrow> (\<exists>x \<in> set xs. f x = Some y)"
  by (force simp: List.map_filter_def)

section \<open>Event systems\<close>

text \<open>
  A component that reacts to events is a partial step function; a run is a list of events that
  can all occur one after the other. An invariant that holds at the start and is kept by every
  event holds after every run.
\<close>

fun run_from :: "('e \<Rightarrow> 's \<Rightarrow> 's option) \<Rightarrow> 'e list \<Rightarrow> 's \<Rightarrow> 's option" where
  "run_from step [] s = Some s"
| "run_from step (e # es) s = (case step e s of None \<Rightarrow> None | Some s' \<Rightarrow> run_from step es s')"

lemma run_from_append:
  "run_from step (es @ fs) s = (case run_from step es s of None \<Rightarrow> None | Some s' \<Rightarrow> run_from step fs s')"
  by (induction es arbitrary: s) (auto split: option.splits)

locale event_system =
  fixes init :: 's
    and step :: "'e \<Rightarrow> 's \<Rightarrow> 's option"
    and inv :: "'s \<Rightarrow> bool"
  assumes inv_init: "inv init"
    and inv_step: "inv s \<Longrightarrow> step e s = Some s' \<Longrightarrow> inv s'"
begin

lemma inv_run_from: "inv s \<Longrightarrow> run_from step es s = Some s' \<Longrightarrow> inv s'"
  by (induction es arbitrary: s) (auto split: option.splits intro: inv_step)

lemma inv_run: "run_from step es init = Some s \<Longrightarrow> inv s"
  using inv_run_from[OF inv_init] .

end

end
