(* ===== verification/Ready_Heap.thy ===== *)
theory Ready_Heap
  imports Relavium_Prelude
begin

text \<open>
  The ready queue of the topological sort: the array-backed binary min-heap that \<open>kahnOrder\<close>
  (\<open>src/packages/core/src/dag.ts\<close>) keeps in its closures \<open>pushReady\<close> and \<open>popReady\<close>, ordered by
  the authored index of a node. Both routines move a hole instead of swapping; the model keeps
  that shape (a list updated by index).

  The contract of the queue is the locale \<open>ready_queue\<close>, interpreted on the heap at the end.
\<close>

section \<open>The two routines\<close>

function siftUp :: "('a \<Rightarrow> nat) \<Rightarrow> 'a list \<Rightarrow> nat \<Rightarrow> 'a \<Rightarrow> 'a list" where
  "siftUp key ready index x =
     (if index = 0 then ready[index := x]
      else let parent = (index - 1) div 2; parentId = ready ! parent
           in if key parentId \<le> key x then ready[index := x]
              else siftUp key (ready[index := parentId]) parent x)"
  by pat_completeness auto
termination
  by (relation "measure (\<lambda>(key, ready, index, x). index)") auto

declare siftUp.simps [simp del]

definition pushReady :: "('a \<Rightarrow> nat) \<Rightarrow> 'a \<Rightarrow> 'a list \<Rightarrow> 'a list" where
  "pushReady key x ready = siftUp key (ready @ [x]) (length ready) x"

text \<open>The child the hole moves to: the right one only where it is strictly smaller.\<close>

definition pickChild :: "('a \<Rightarrow> nat) \<Rightarrow> 'a list \<Rightarrow> nat \<Rightarrow> nat" where
  "pickChild key ready index =
     (let child = index * 2 + 1
      in if child + 1 < length ready \<and> key (ready ! (child + 1)) < key (ready ! child)
         then child + 1 else child)"

function siftDown :: "('a \<Rightarrow> nat) \<Rightarrow> 'a list \<Rightarrow> nat \<Rightarrow> 'a \<Rightarrow> 'a list" where
  "siftDown key ready index x =
     (if index * 2 + 1 < length ready
      then let child = pickChild key ready index; childId = ready ! child
           in if key x \<le> key childId then ready[index := x]
              else siftDown key (ready[index := childId]) child x
      else ready[index := x])"
  by pat_completeness auto
termination
  by (relation "measure (\<lambda>(key, ready, index, x). length ready - index)")
    (auto simp: pickChild_def Let_def split: if_splits)

declare siftDown.simps [simp del]

definition popReady :: "('a \<Rightarrow> nat) \<Rightarrow> 'a list \<Rightarrow> 'a option \<times> 'a list" where
  "popReady key ready =
     (case ready of
        [] \<Rightarrow> (None, [])
      | first # _ \<Rightarrow>
          let rest = butlast ready
          in if rest = [] then (Some first, [])
             else (Some first, siftDown key rest 0 (last ready)))"

section \<open>The heap order\<close>

definition parent :: "nat \<Rightarrow> nat" where
  "parent i = (i - 1) div 2"

definition heap :: "('a \<Rightarrow> nat) \<Rightarrow> 'a list \<Rightarrow> bool" where
  "heap key xs \<longleftrightarrow> (\<forall>i < length xs. 0 < i \<longrightarrow> key (xs ! parent i) \<le> key (xs ! i))"

lemma parent_less: "0 < i \<Longrightarrow> parent i < i"
  by (auto simp: parent_def)

lemma parent_eq_iff: "0 < i \<Longrightarrow> parent i = j \<longleftrightarrow> i = 2 * j + 1 \<or> i = 2 * j + 2"
  by (auto simp: parent_def)

lemma heap_root_min:
  assumes "heap key xs" and "i < length xs"
  shows "key (xs ! 0) \<le> key (xs ! i)"
  using assms(2)
proof (induction i rule: less_induct)
  case (less i)
  show ?case
  proof (cases "i = 0")
    case False
    then have "parent i < i" by (simp add: parent_less)
    with less have "key (xs ! 0) \<le> key (xs ! parent i)" by simp
    also have "\<dots> \<le> key (xs ! i)"
      using assms(1) False less.prems by (auto simp: heap_def)
    finally show ?thesis .
  qed simp
qed

text \<open>
  While \<open>siftUp\<close> runs, the list with the new element written into the hole is a heap except
  between the hole and its parent, and the parent is below the children of the hole.
\<close>

definition heap_up :: "('a \<Rightarrow> nat) \<Rightarrow> 'a list \<Rightarrow> nat \<Rightarrow> bool" where
  "heap_up key ys h \<longleftrightarrow>
     (\<forall>i < length ys. 0 < i \<and> i \<noteq> h \<longrightarrow> key (ys ! parent i) \<le> key (ys ! i)) \<and>
     (\<forall>i < length ys. 0 < i \<and> 0 < h \<and> parent i = h \<longrightarrow> key (ys ! parent h) \<le> key (ys ! i))"

lemma heap_up_step:
  assumes inv: "heap_up key ys h" and h: "0 < h" "h < length ys"
    and gt: "key (ys ! h) < key (ys ! parent h)"
  shows "heap_up key (ys[h := ys ! parent h, parent h := ys ! h]) (parent h)"
proof -
  let ?p = "parent h"
  let ?zs = "ys[h := ys ! ?p, ?p := ys ! h]"
  have p: "?p < h" "?p < length ys" using h parent_less[of h] by auto
  have nth: "?zs ! i = (if i = ?p then ys ! h else if i = h then ys ! ?p else ys ! i)"
    if "i < length ys" for i
    using that p h by (auto simp: nth_list_update)
  have ord: "key (ys ! parent i) \<le> key (ys ! i)" if "i < length ys" "0 < i" "i \<noteq> h" for i
    using inv that by (auto simp: heap_up_def)
  have sub: "key (ys ! ?p) \<le> key (ys ! i)" if "i < length ys" "0 < i" "parent i = h" for i
    using inv that h by (auto simp: heap_up_def)
  have 1: "key (?zs ! parent i) \<le> key (?zs ! i)" if i: "i < length ?zs" "0 < i" "i \<noteq> ?p" for i
  proof -
    have pi: "parent i < i" "parent i < length ys" using parent_less[of i] i by auto
    have il: "i < length ys" using i by simp
    consider "i = h" | "i \<noteq> h" "parent i = ?p" | "i \<noteq> h" "parent i = h"
      | "i \<noteq> h" "parent i \<noteq> ?p" "parent i \<noteq> h"
      by blast
    then show ?thesis
    proof cases
      case 1
      then show ?thesis using il p gt i by (simp add: nth)
    next
      case 2
      then have "key (ys ! ?p) \<le> key (ys ! i)" using ord[of i] il i by simp
      with 2 show ?thesis using il pi p gt i by (simp add: nth)
    next
      case 3
      then show ?thesis using il pi p sub[of i] i by (simp add: nth)
    next
      case 4
      then show ?thesis using il pi p ord[of i] i by (simp add: nth)
    qed
  qed
  have 2: "key (?zs ! parent ?p) \<le> key (?zs ! i)"
    if i: "i < length ?zs" "0 < i" "0 < ?p" "parent i = ?p" for i
  proof -
    have pp: "parent ?p < ?p" using i by (simp add: parent_less)
    have "key (ys ! parent ?p) \<le> key (ys ! ?p)" using ord[of ?p] p i by auto
    moreover have "key (ys ! ?p) \<le> key (ys ! i)" if "i \<noteq> h" using ord[of i] i that by auto
    moreover have "i \<noteq> ?p" using i parent_less[of i] by auto
    ultimately show ?thesis
      using pp p h i by (cases "i = h") (simp_all add: nth_list_update)
  qed
  show ?thesis using 1 2 by (auto simp: heap_up_def)
qed

lemma siftUp_correct:
  assumes "index < length ready" and "heap_up key (ready[index := x]) index"
  shows "heap key (siftUp key ready index x) \<and>
         mset (siftUp key ready index x) = mset (ready[index := x])"
  using assms
proof (induction key ready index x rule: siftUp.induct)
  case (1 key ready index x)
  let ?ys = "ready[index := x]" and ?p = "(index - 1) div 2"
  show ?case
  proof (cases "index = 0 \<or> key (ready ! ?p) \<le> key x")
    case True
    have "key (?ys ! parent i) \<le> key (?ys ! i)" if "i < length ?ys" "0 < i" for i
      using True "1.prems" that parent_less[of i]
      by (cases "i = index") (auto simp: heap_up_def parent_def nth_list_update)
    with True show ?thesis
      by (auto simp: heap_def siftUp.simps[of key ready index x] Let_def)
  next
    case False
    then have p: "parent index = ?p" "?p < index" by (auto simp: parent_def)
    have step: "ready[index := ready ! ?p, ?p := x] = ?ys[index := ?ys ! parent index, parent index := ?ys ! index]"
      using p "1.prems" by (simp add: nth_list_update)
    have "heap_up key (?ys[index := ?ys ! parent index, parent index := ?ys ! index]) (parent index)"
      using "1.prems" False p by (intro heap_up_step) (auto simp: nth_list_update)
    then have "heap_up key (ready[index := ready ! ?p, ?p := x]) ?p"
      using step p by simp
    moreover have "mset (ready[index := ready ! ?p, ?p := x]) = mset ?ys"
      unfolding step using "1.prems" p by (intro mset_swap) auto
    ultimately show ?thesis
      using "1.IH" False "1.prems" p by (auto simp: siftUp.simps[of key ready index x] Let_def)
  qed
qed

lemma pushReady_correct:
  assumes "heap key ready"
  shows "heap key (pushReady key x ready)"
    and "mset (pushReady key x ready) = add_mset x (mset ready)"
proof -
  have "heap_up key (ready @ [x]) (length ready)"
    unfolding heap_up_def
  proof (intro conjI allI impI)
    fix i assume "i < length (ready @ [x])" "0 < i \<and> i \<noteq> length ready"
    then show "key ((ready @ [x]) ! parent i) \<le> key ((ready @ [x]) ! i)"
      using assms parent_less[of i] by (auto simp: heap_def nth_append)
  next
    fix i assume "i < length (ready @ [x])" "0 < i \<and> 0 < length ready \<and> parent i = length ready"
    then show "key ((ready @ [x]) ! parent (length ready)) \<le> key ((ready @ [x]) ! i)"
      using parent_less[of i] by auto
  qed
  then have "heap key (siftUp key (ready @ [x]) (length ready) x) \<and>
      mset (siftUp key (ready @ [x]) (length ready) x) = mset (ready @ [x])"
    using siftUp_correct[of "length ready" "ready @ [x]" key x] by simp
  then show "heap key (pushReady key x ready)"
    and "mset (pushReady key x ready) = add_mset x (mset ready)"
    by (auto simp: pushReady_def)
qed

text \<open>
  While \<open>siftDown\<close> runs, the list with the moved element in the hole is a heap except between
  the hole and its children, and the parent of the hole is below those children.
\<close>

definition heap_down :: "('a \<Rightarrow> nat) \<Rightarrow> 'a list \<Rightarrow> nat \<Rightarrow> bool" where
  "heap_down key ys h \<longleftrightarrow>
     (\<forall>i < length ys. 0 < i \<and> parent i \<noteq> h \<longrightarrow> key (ys ! parent i) \<le> key (ys ! i)) \<and>
     (\<forall>i < length ys. 0 < i \<and> 0 < h \<and> parent i = h \<longrightarrow> key (ys ! parent h) \<le> key (ys ! i))"

lemma pickChild_bounds:
  assumes "index * 2 + 1 < length ready"
  shows "pickChild key ready index < length ready" and "parent (pickChild key ready index) = index"
    and "index < pickChild key ready index" and "0 < pickChild key ready index"
  using assms by (auto simp: pickChild_def Let_def parent_def)

lemma pickChild_min:
  assumes "i < length ready" and "0 < i" and "parent i = index"
  shows "key (ready ! pickChild key ready index) \<le> key (ready ! i)"
proof -
  have "i = index * 2 + 1 \<or> i = index * 2 + 2"
    using assms parent_eq_iff[of i index] by auto
  then show ?thesis
    using assms(1) by (auto simp: pickChild_def Let_def)
qed

lemma heap_down_step:
  assumes inv: "heap_down key ys h" and c: "c < length ys" "0 < c" "parent c = h"
    and min: "\<And>i. \<lbrakk>i < length ys; 0 < i; parent i = h\<rbrakk> \<Longrightarrow> key (ys ! c) \<le> key (ys ! i)"
    and gt: "key (ys ! c) < key (ys ! h)"
  shows "heap_down key (ys[h := ys ! c, c := ys ! h]) c"
proof -
  let ?zs = "ys[h := ys ! c, c := ys ! h]"
  have h: "h < c" "h < length ys" using c parent_less[of c] by auto
  have nth: "?zs ! i = (if i = c then ys ! h else if i = h then ys ! c else ys ! i)"
    if "i < length ys" for i
    using that h c by (auto simp: nth_list_update)
  have ord: "key (ys ! parent i) \<le> key (ys ! i)" if "i < length ys" "0 < i" "parent i \<noteq> h" for i
    using inv that by (auto simp: heap_down_def)
  have sub: "key (ys ! parent h) \<le> key (ys ! i)"
    if "i < length ys" "0 < i" "0 < h" "parent i = h" for i
    using inv that by (auto simp: heap_down_def)
  have 1: "key (?zs ! parent i) \<le> key (?zs ! i)"
    if i: "i < length ?zs" "0 < i" "parent i \<noteq> c" for i
  proof -
    have il: "i < length ys" using i by simp
    have pi: "parent i < i" "parent i < length ys" using parent_less[of i] i by auto
    consider "parent i = h" | "i = h" | "parent i \<noteq> h" "i \<noteq> h" by blast
    then show ?thesis
    proof cases
      case 1
      then show ?thesis
        using il pi h c gt min[of i] i by (cases "i = c") (auto simp: nth)
    next
      case 2
      then show ?thesis
        using il pi h c i sub[of c] by (simp add: nth)
    next
      case 3
      then have "i \<noteq> c" using c by auto
      with 3 show ?thesis using il pi i ord[of i] by (simp add: nth)
    qed
  qed
  have 2: "key (?zs ! parent c) \<le> key (?zs ! i)"
    if i: "i < length ?zs" "0 < i" "parent i = c" for i
  proof -
    have "c < i" using parent_less[of i] i by auto
    moreover have "parent i \<noteq> h" using i h by auto
    ultimately show ?thesis using ord[of i] i c h by (simp add: nth)
  qed
  show ?thesis using 1 2 by (auto simp: heap_down_def)
qed

lemma siftDown_correct:
  assumes "index < length ready" and "heap_down key (ready[index := x]) index"
  shows "heap key (siftDown key ready index x) \<and>
         mset (siftDown key ready index x) = mset (ready[index := x])"
  using assms
proof (induction key ready index x rule: siftDown.induct)
  case (1 key ready index x)
  let ?ys = "ready[index := x]" and ?c = "pickChild key ready index"
  show ?case
  proof (cases "index * 2 + 1 < length ready \<and> \<not> key x \<le> key (ready ! ?c)")
    case False
    have "key (?ys ! parent i) \<le> key (?ys ! i)" if i: "i < length ?ys" "0 < i" for i
    proof (cases "parent i = index")
      case True
      then have in_range: "index * 2 + 1 < length ready"
        using i parent_eq_iff[of i index] by auto
      with False have "key x \<le> key (ready ! ?c)" by simp
      also have "\<dots> \<le> key (ready ! i)" using pickChild_min[of i ready index key] True i by simp
      finally show ?thesis
        using True i "1.prems" parent_less[of i] by (auto simp: nth_list_update)
    next
      case False
      then show ?thesis using "1.prems" i by (auto simp: heap_down_def)
    qed
    with False show ?thesis
      by (auto simp: heap_def siftDown.simps[of key ready index x] Let_def)
  next
    case True
    note c = pickChild_bounds[of index ready key]
    have cs: "?c < length ready" "parent ?c = index" "index < ?c" "0 < ?c" using True c by auto
    have step: "ready[index := ready ! ?c, ?c := x] = ?ys[index := ?ys ! ?c, ?c := ?ys ! index]"
      using cs "1.prems" by (simp add: nth_list_update)
    have "heap_down key (?ys[index := ?ys ! ?c, ?c := ?ys ! index]) ?c"
    proof (rule heap_down_step)
      fix i assume i: "i < length ?ys" "0 < i" "parent i = index"
      then have "i \<noteq> index" using parent_less[of i] by auto
      then show "key (?ys ! ?c) \<le> key (?ys ! i)"
        using i cs pickChild_min[of i ready index key] by (simp add: nth_list_update)
    qed (use "1.prems" True cs in \<open>auto simp: nth_list_update\<close>)
    then have "heap_down key (ready[index := ready ! ?c, ?c := x]) ?c"
      using step by simp
    moreover have "mset (ready[index := ready ! ?c, ?c := x]) = mset ?ys"
      unfolding step using "1.prems" cs by (intro mset_swap) auto
    ultimately show ?thesis
      using "1.IH" True "1.prems" cs by (auto simp: siftDown.simps[of key ready index x] Let_def)
  qed
qed

lemma popReady_Cons:
  assumes "heap key ready" and "ready \<noteq> []"
  obtains first rest where "popReady key ready = (Some first, rest)"
    and "first = ready ! 0" and "mset ready = add_mset first (mset rest)" and "heap key rest"
proof (cases "butlast ready = []")
  case True
  with assms(2) obtain y where "ready = [y]" by (cases ready) (auto split: if_splits)
  then show thesis using that by (simp add: popReady_def heap_def)
next
  case False
  let ?bl = "butlast ready" and ?l = "last ready"
  obtain first tl' where cons: "ready = first # tl'" using assms(2) by (cases ready) auto
  have split: "ready = ?bl @ [?l]" using assms(2) by simp
  have "heap_down key (?bl[0 := ?l]) 0"
    unfolding heap_down_def
  proof (intro conjI allI impI)
    fix i assume i: "i < length (?bl[0 := ?l])" "0 < i \<and> parent i \<noteq> 0"
    then have "parent i < i" by (simp add: parent_less)
    moreover have "key (ready ! parent i) \<le> key (ready ! i)"
      using assms(1) i by (auto simp: heap_def)
    ultimately show "key (?bl[0 := ?l] ! parent i) \<le> key (?bl[0 := ?l] ! i)"
      using i by (simp add: nth_butlast)
  qed simp
  then have sd: "heap key (siftDown key ?bl 0 ?l)" "mset (siftDown key ?bl 0 ?l) = mset (?bl[0 := ?l])"
    using siftDown_correct[of 0 ?bl key ?l] False by (metis length_greater_0_conv)+
  have "mset ready = add_mset ?l (mset ?bl)" by (subst split) simp
  moreover have "mset (?bl[0 := ?l]) = add_mset ?l (mset ?bl - {#first#})"
    using False cons by (cases tl') auto
  moreover have "first \<in># mset ?bl" using False cons by (cases tl') auto
  ultimately have "mset ready = add_mset first (mset (siftDown key ?bl 0 ?l))"
    using sd(2) by simp
  moreover have "popReady key ready = (Some first, siftDown key ?bl 0 ?l)"
    using False by (simp add: popReady_def Let_def cons)
  moreover have "first = ready ! 0" by (simp add: cons)
  ultimately show thesis using that sd(1) by blast
qed

section \<open>The contract of the ready queue\<close>

text \<open>
  What the topological sort needs of its queue: the queue abstracts to a multiset, \<open>push\<close> adds,
  \<open>pop\<close> on a non-empty queue removes an element of least key.
\<close>

locale ready_queue =
  fixes key :: "'a \<Rightarrow> nat"
    and empty :: 'q
    and push :: "'a \<Rightarrow> 'q \<Rightarrow> 'q"
    and pop :: "'q \<Rightarrow> 'a option \<times> 'q"
    and elems :: "'q \<Rightarrow> 'a multiset"
    and invar :: "'q \<Rightarrow> bool"
  assumes elems_empty: "elems empty = {#}"
    and invar_empty: "invar empty"
    and elems_push: "invar q \<Longrightarrow> elems (push x q) = add_mset x (elems q)"
    and invar_push: "invar q \<Longrightarrow> invar (push x q)"
    and pop_ex: "\<lbrakk>invar q; elems q \<noteq> {#}\<rbrakk> \<Longrightarrow>
       \<exists>x q'. pop q = (Some x, q') \<and> elems q = add_mset x (elems q') \<and> invar q' \<and>
              (\<forall>y \<in># elems q. key x \<le> key y)"
    and pop_empty: "\<lbrakk>invar q; elems q = {#}\<rbrakk> \<Longrightarrow> fst (pop q) = None"

interpretation heap_queue: ready_queue key "[]" "pushReady key" "popReady key" mset "heap key"
  for key :: "'a \<Rightarrow> nat"
proof unfold_locales
  fix q :: "'a list"
  assume inv: "heap key q" and "mset q \<noteq> {#}"
  then have "q \<noteq> []" by simp
  from popReady_Cons[OF inv this] obtain x q' where
    pop: "popReady key q = (Some x, q')" "x = q ! 0" "mset q = add_mset x (mset q')" "heap key q'" .
  have "key x \<le> key y" if "y \<in># mset q" for y
    using that heap_root_min[OF inv] pop(2) by (auto simp: in_set_conv_nth)
  with pop show "\<exists>x q'. popReady key q = (Some x, q') \<and> mset q = add_mset x (mset q') \<and>
      heap key q' \<and> (\<forall>y \<in># mset q. key x \<le> key y)"
    by blast
qed (auto simp: pushReady_correct popReady_def, simp add: heap_def)

end
