(* ===== verification/Topo_Order.thy ===== *)
theory Topo_Order
  imports Ready_Heap
begin

text \<open>
  The graph algorithms of the plan builder (\<open>src/packages/core/src/dag.ts\<close>): Kahn's topological
  order over the ready heap (\<open>kahnOrder\<close>), the walk that names one dependency cycle when the order
  is incomplete (\<open>extractCycle\<close>), and the transitive dependency closure (\<open>computeAncestors\<close>).

  A graph is a pair of adjacency maps, \<open>dependents\<close> (out-edges) and \<open>dependencies\<close> (in-edges),
  from node ids to insertion-ordered sets. \<open>topoSpec\<close> is the abstract order the plan promises:
  repeatedly the first node in authored order all of whose dependencies were emitted. The heap
  implementation is proved equal to it through the queue contract of \<open>Ready_Heap\<close>.
\<close>

type_synonym node_id = string
type_synonym 'a adjacency = "'a \<rightharpoonup> 'a list"

section \<open>Operations of the source\<close>

text \<open>\<open>dependencies.get(id) ?? []\<close>\<close>

definition adj :: "'a adjacency \<Rightarrow> 'a \<Rightarrow> 'a list" where
  "adj m v = (case m v of None \<Rightarrow> [] | Some xs \<Rightarrow> xs)"

text \<open>\<open>authoredIndex.get(a) ?? 0\<close>: the key of the comparator \<open>byAuthored\<close>.\<close>

definition authoredKey :: "('a \<rightharpoonup> nat) \<Rightarrow> 'a \<Rightarrow> nat" where
  "authoredKey idx a = (case idx a of None \<Rightarrow> 0 | Some i \<Rightarrow> i)"

text \<open>\<open>remaining.get(id) ?? 0\<close>\<close>

definition remainingOf :: "('a \<rightharpoonup> int) \<Rightarrow> 'a \<Rightarrow> int" where
  "remainingOf m v = (case m v of None \<Rightarrow> 0 | Some n \<Rightarrow> n)"

text \<open>The inner loop of \<open>kahnOrder\<close>: one emitted node releases its consumers.\<close>

fun releaseConsumers ::
    "('a \<Rightarrow> 'q \<Rightarrow> 'q) \<Rightarrow> 'a list \<Rightarrow> 'q \<Rightarrow> ('a \<rightharpoonup> int) \<Rightarrow> 'q \<times> ('a \<rightharpoonup> int)" where
  "releaseConsumers push [] q rem = (q, rem)"
| "releaseConsumers push (c # cs) q rem =
     (let next = remainingOf rem c - 1;
          q' = (if next = 0 then push c q else q)
      in releaseConsumers push cs q' (rem(c \<mapsto> next)))"

text \<open>The outer loop, with fuel for the iterations: \<open>None\<close> is running out of it.\<close>

fun kahnLoop ::
    "nat \<Rightarrow> ('a \<Rightarrow> 'q \<Rightarrow> 'q) \<Rightarrow> ('q \<Rightarrow> 'a option \<times> 'q) \<Rightarrow> 'a adjacency \<Rightarrow> 'q \<Rightarrow>
     ('a \<rightharpoonup> int) \<Rightarrow> 'a list \<Rightarrow> 'a list option" where
  "kahnLoop 0 push pop dependents q rem order = None"
| "kahnLoop (Suc fuel) push pop dependents q rem order =
     (case pop q of
        (None, _) \<Rightarrow> Some order
      | (Some vid, q') \<Rightarrow>
          (case releaseConsumers push (adj dependents vid) q' rem of
             (q'', rem') \<Rightarrow> kahnLoop fuel push pop dependents q'' rem' (order @ [vid])))"

definition initialReady ::
    "('a \<Rightarrow> 'q \<Rightarrow> 'q) \<Rightarrow> ('a \<rightharpoonup> int) \<Rightarrow> 'a list \<Rightarrow> 'q \<Rightarrow> 'q" where
  "initialReady push rem ids q =
     fold (\<lambda>vid q. if remainingOf rem vid = 0 then push vid q else q) ids q"

definition kahnOrder ::
    "'a list \<Rightarrow> 'a adjacency \<Rightarrow> 'a adjacency \<Rightarrow> ('a \<rightharpoonup> nat) \<Rightarrow> 'a list option" where
  "kahnOrder ids dependents dependencies authoredIndex =
     (let key = authoredKey authoredIndex;
          rem = (\<lambda>vid. map_option (\<lambda>ins. int (length ins)) (dependencies vid))
      in kahnLoop (Suc (length ids)) (pushReady key) (popReady key) dependents
           (initialReady (pushReady key) rem ids []) rem [])"

text \<open>The predecessor walk of \<open>extractCycle\<close>; \<open>seenAt\<close> records the position of each visited node.\<close>

fun predecessorWalk ::
    "nat \<Rightarrow> ('a \<Rightarrow> nat) \<Rightarrow> 'a list \<Rightarrow> 'a adjacency \<Rightarrow> ('a \<rightharpoonup> nat) \<Rightarrow> 'a list \<Rightarrow>
     'a option \<Rightarrow> ('a \<rightharpoonup> nat) \<times> 'a list \<times> 'a option" where
  "predecessorWalk 0 key order dependencies seenAt path cur = (seenAt, path, cur)"
| "predecessorWalk (Suc fuel) key order dependencies seenAt path cur =
     (case cur of
        None \<Rightarrow> (seenAt, path, None)
      | Some c \<Rightarrow>
          if seenAt c \<noteq> None then (seenAt, path, Some c)
          else let preds = sort_key key (filter (\<lambda>p. p \<notin> set order) (adj dependencies c));
                   next = (case preds of [] \<Rightarrow> None | p # _ \<Rightarrow> Some p)
               in predecessorWalk fuel key order dependencies (seenAt(c \<mapsto> length path))
                    (path @ [c]) next)"

definition extractCycle ::
    "'a list \<Rightarrow> 'a list \<Rightarrow> 'a adjacency \<Rightarrow> ('a \<rightharpoonup> nat) \<Rightarrow> 'a list" where
  "extractCycle ids order dependencies authoredIndex =
     (case find (\<lambda>v. v \<notin> set order) ids of
        None \<Rightarrow> []
      | Some start \<Rightarrow>
          (case predecessorWalk (Suc (length ids)) (authoredKey authoredIndex) order dependencies
                  Map.empty [] (Some start) of
             (seenAt, path, None) \<Rightarrow> path
           | (seenAt, path, Some c) \<Rightarrow>
               let from_at = (case seenAt c of None \<Rightarrow> 0 | Some i \<Rightarrow> i);
                   ring = rev (drop from_at path)
               in (case ring of [] \<Rightarrow> [] | h # _ \<Rightarrow> ring @ [h])))"

text \<open>\<open>computeAncestors\<close>: the sets in topological order, then sorted by code unit.\<close>

definition foldDependency ::
    "('a \<rightharpoonup> 'a list) \<Rightarrow> 'a \<Rightarrow> 'a list \<Rightarrow> 'a list" where
  "foldDependency sets dep acc = fold set_add (adj sets dep) (set_add dep acc)"

fun ancestorSets :: "'a adjacency \<Rightarrow> 'a list \<Rightarrow> ('a \<rightharpoonup> 'a list) \<Rightarrow> ('a \<rightharpoonup> 'a list)"
  where
  "ancestorSets dependencies [] sets = sets"
| "ancestorSets dependencies (vid # order) sets =
     ancestorSets dependencies order
       (sets(vid \<mapsto> fold (foldDependency sets) (adj dependencies vid) []))"

definition computeAncestors :: "'a::linorder list \<Rightarrow> 'a adjacency \<Rightarrow> ('a \<rightharpoonup> 'a list)" where
  "computeAncestors order dependencies =
     (\<lambda>vid. map_option sort (ancestorSets dependencies order Map.empty vid))"

section \<open>Abstract specification\<close>

definition releasable :: "'a adjacency \<Rightarrow> 'a list \<Rightarrow> 'a \<Rightarrow> bool" where
  "releasable ins emitted v \<longleftrightarrow> v \<notin> set emitted \<and> set (adj ins v) \<subseteq> set emitted"

fun topoSpec :: "nat \<Rightarrow> 'a list \<Rightarrow> 'a adjacency \<Rightarrow> 'a list \<Rightarrow> 'a list" where
  "topoSpec 0 ids ins emitted = emitted"
| "topoSpec (Suc n) ids ins emitted =
     (case find (releasable ins emitted) ids of
        None \<Rightarrow> emitted
      | Some v \<Rightarrow> topoSpec n ids ins (emitted @ [v]))"

text \<open>The shape of the graphs the wiring produces: both maps cover exactly the nodes and are
  inverse to each other.\<close>

definition wf_graph :: "'a list \<Rightarrow> 'a adjacency \<Rightarrow> 'a adjacency \<Rightarrow> bool" where
  "wf_graph ids outs ins \<longleftrightarrow>
     distinct ids \<and> dom outs = set ids \<and> dom ins = set ids \<and>
     (\<forall>v \<in> set ids. distinct (adj ins v) \<and> set (adj ins v) \<subseteq> set ids \<and>
                    distinct (adj outs v) \<and> set (adj outs v) \<subseteq> set ids) \<and>
     (\<forall>u v. u \<in> set (adj ins v) \<longleftrightarrow> v \<in> set (adj outs u))"

definition authored :: "'a list \<Rightarrow> ('a \<Rightarrow> nat) \<Rightarrow> bool" where
  "authored ids key \<longleftrightarrow> (\<forall>i < length ids. key (ids ! i) = i)"

definition edges :: "'a adjacency \<Rightarrow> ('a \<times> 'a) set" where
  "edges ins = {(u, v). u \<in> set (adj ins v)}"

lemma adj_not_dom: "m v = None \<Longrightarrow> adj m v = []"
  by (simp add: adj_def)

lemma wf_graph_edges_in:
  "wf_graph ids outs ins \<Longrightarrow> (u, v) \<in> edges ins \<Longrightarrow> u \<in> set ids \<and> v \<in> set ids"
  unfolding wf_graph_def edges_def
  by (metis (no_types, lifting) adj_not_dom case_prodD domIff emptyE empty_set mem_Collect_eq subsetD)

section \<open>Facts about the specification\<close>

definition closed_under :: "'a adjacency \<Rightarrow> 'a list \<Rightarrow> bool" where
  "closed_under ins xs \<longleftrightarrow> (\<forall>i < length xs. set (adj ins (xs ! i)) \<subseteq> set (take i xs))"

lemma closed_under_snoc:
  "closed_under ins xs \<Longrightarrow> set (adj ins v) \<subseteq> set xs \<Longrightarrow> closed_under ins (xs @ [v])"
  by (auto simp: closed_under_def nth_append less_Suc_eq)

lemma topoSpec_invariant:
  assumes "distinct emitted" and "set emitted \<subseteq> set ids" and "closed_under ins emitted"
  shows "distinct (topoSpec n ids ins emitted) \<and> set (topoSpec n ids ins emitted) \<subseteq> set ids \<and>
         closed_under ins (topoSpec n ids ins emitted)"
  using assms
proof (induction n arbitrary: emitted)
  case (Suc n)
  show ?case
  proof (cases "find (releasable ins emitted) ids")
    case None
    with Suc.prems show ?thesis by simp
  next
    case (Some v)
    then have v: "v \<in> set ids" "releasable ins emitted v"
      by (auto simp: find_Some_iff)
    then have "distinct (emitted @ [v])" "set (emitted @ [v]) \<subseteq> set ids"
      "closed_under ins (emitted @ [v])"
      using Suc.prems by (auto simp: releasable_def intro: closed_under_snoc)
    with Suc.IH[of "emitted @ [v]"] Some show ?thesis by simp
  qed
qed simp

lemma topoSpec_maximal:
  assumes "distinct ids" and "distinct emitted" and "set emitted \<subseteq> set ids"
    and "length ids \<le> n + length emitted"
  shows "\<forall>v \<in> set ids. \<not> releasable ins (topoSpec n ids ins emitted) v"
  using assms(2-4)
proof (induction n arbitrary: emitted)
  case 0
  then have "set emitted = set ids"
    using assms(1) by (metis add_0 card_mono card_subset_eq distinct_card finite_set le_antisym)
  then show ?case by (auto simp: releasable_def)
next
  case (Suc n)
  show ?case
  proof (cases "find (releasable ins emitted) ids")
    case None
    then have "topoSpec (Suc n) ids ins emitted = emitted" by simp
    with None show ?thesis by (simp add: find_None_iff)
  next
    case (Some v)
    then have v: "v \<in> set ids" "releasable ins emitted v"
      by (auto simp: find_Some_iff)
    then have "distinct (emitted @ [v])" "set (emitted @ [v]) \<subseteq> set ids"
      using Suc.prems by (auto simp: releasable_def)
    with Suc.IH[of "emitted @ [v]"] Some Suc.prems show ?thesis by simp
  qed
qed

lemma closed_under_acyclic_on:
  assumes "closed_under ins xs" and "distinct xs" and "edges ins \<subseteq> set xs \<times> set xs"
  shows "acyclic (edges ins)"
proof -
  define pos where "pos v = (LEAST i. i < length xs \<and> xs ! i = v)" for v
  have pos_nth: "pos (xs ! i) = i" if "i < length xs" for i
    unfolding pos_def using that assms(2)
    by (intro Least_equality) (auto simp: nth_eq_iff_index_eq)
  have "edges ins \<subseteq> measure pos"
  proof (rule subrelI)
    fix u v assume uv: "(u, v) \<in> edges ins"
    with assms(3) have "v \<in> set xs" by blast
    then obtain i where i: "i < length xs" "v = xs ! i"
      by (auto simp: in_set_conv_nth)
    with uv assms(1) have "u \<in> set (take i xs)"
      by (auto simp: closed_under_def edges_def)
    then obtain j where "j < i" "u = xs ! j" "j < length xs"
      using i by (auto simp: in_set_conv_nth)
    with i pos_nth show "(u, v) \<in> measure pos" by simp
  qed
  then show ?thesis
    by (meson acyclic_subset wf_acyclic wf_measure)
qed

lemma stuck_has_stuck_dependency:
  assumes "wf_graph ids outs ins" and "v \<in> set ids" and "v \<notin> set order"
    and "\<forall>v \<in> set ids. \<not> releasable ins order v"
  shows "\<exists>u \<in> set (adj ins v). u \<in> set ids \<and> u \<notin> set order"
proof -
  have "\<not> set (adj ins v) \<subseteq> set order" using assms(2-4) by (auto simp: releasable_def)
  moreover have "set (adj ins v) \<subseteq> set ids" using assms(1,2) by (simp add: wf_graph_def)
  ultimately show ?thesis by blast
qed

lemma acyclic_no_stuck:
  assumes wf: "wf_graph ids outs ins" and ac: "acyclic (edges ins)"
    and max: "\<forall>v \<in> set ids. \<not> releasable ins order v"
  shows "set ids \<subseteq> set order"
proof (rule ccontr)
  assume "\<not> set ids \<subseteq> set order"
  then obtain v0 where v0: "v0 \<in> set ids - set order" by auto
  have "edges ins \<subseteq> set ids \<times> set ids"
    using wf_graph_edges_in[OF wf] by auto
  then have "finite (edges ins)" by (simp add: finite_subset)
  then have "wf (edges ins)" using ac by (rule finite_acyclic_wf)
  then obtain z where z: "z \<in> set ids - set order"
    and zmin: "\<And>y. (y, z) \<in> edges ins \<Longrightarrow> y \<notin> set ids - set order"
    using v0 by (rule wfE_min) blast
  from stuck_has_stuck_dependency[OF wf _ _ max] z
  obtain u where "u \<in> set (adj ins z)" "u \<in> set ids - set order" by blast
  with zmin show False by (auto simp: edges_def)
qed

section \<open>The loop refines the specification\<close>

context ready_queue
begin

lemma initialReady_elems:
  assumes "invar q"
  shows "invar (initialReady push rem ids q) \<and>
         elems (initialReady push rem ids q) = elems q + mset (filter (\<lambda>v. remainingOf rem v = 0) ids)"
  using assms unfolding initialReady_def
  by (induction ids arbitrary: q) (auto simp: invar_push elems_push)

lemma releaseConsumers_spec:
  assumes "invar q" and "distinct cs"
  shows "\<exists>q' rem'. releaseConsumers push cs q rem = (q', rem') \<and> invar q' \<and>
     elems q' = elems q + mset (filter (\<lambda>c. remainingOf rem c = 1) cs) \<and>
     (\<forall>v. remainingOf rem' v = remainingOf rem v - (if v \<in> set cs then 1 else 0))"
  using assms
proof (induction cs arbitrary: q rem)
  case (Cons c cs)
  let ?next = "remainingOf rem c - 1"
  let ?q = "if ?next = 0 then push c q else q" and ?rem = "rem(c \<mapsto> ?next)"
  have "invar ?q" using Cons.prems by (simp add: invar_push)
  moreover have "distinct cs" using Cons.prems by simp
  ultimately obtain q' rem' where
    r: "releaseConsumers push cs ?q ?rem = (q', rem')" "invar q'"
      "elems q' = elems ?q + mset (filter (\<lambda>d. remainingOf ?rem d = 1) cs)"
      "\<forall>v. remainingOf rem' v = remainingOf ?rem v - (if v \<in> set cs then 1 else 0)"
    using Cons.IH[of ?q ?rem] by blast
  have upd: "remainingOf ?rem v = (if v = c then ?next else remainingOf rem v)" for v
    by (simp add: remainingOf_def)
  have "filter (\<lambda>d. remainingOf ?rem d = 1) cs = filter (\<lambda>d. remainingOf rem d = 1) cs"
    using Cons.prems by (intro filter_cong) (auto simp: upd)
  then have "elems q' = elems q + mset (filter (\<lambda>d. remainingOf rem d = 1) (c # cs))"
    using r(3) Cons.prems by (simp add: elems_push)
  moreover have "remainingOf rem' v = remainingOf rem v - (if v \<in> set (c # cs) then 1 else 0)" for v
    using r(4) Cons.prems upd by auto
  ultimately show ?case using r(1,2) by (auto simp: Let_def)
qed simp

text \<open>The loop invariant: the queue holds exactly the releasable nodes and \<open>remaining\<close> counts the
  dependencies that were not emitted yet.\<close>

definition loop_inv where
  "loop_inv ids ins q rem order \<longleftrightarrow>
     invar q \<and> elems q = mset (filter (releasable ins order) ids) \<and>
     (\<forall>v \<in> set ids. remainingOf rem v = int (card (set (adj ins v) - set order))) \<and>
     distinct order \<and> set order \<subseteq> set ids \<and> closed_under ins order"

lemma loop_inv_step:
  assumes wf: "wf_graph ids outs ins" and inv: "loop_inv ids ins q rem order"
    and pop: "elems q = add_mset x (elems q')" "invar q'"
  shows "\<exists>q'' rem'. releaseConsumers push (adj outs x) q' rem = (q'', rem') \<and>
           loop_inv ids ins q'' rem' (order @ [x])"
proof -
  have d: "distinct ids" using wf by (simp add: wf_graph_def)
  have "x \<in># elems q" using pop by simp
  then have x: "x \<in> set ids" "releasable ins order x"
    using inv by (auto simp: loop_inv_def)
  have dx: "distinct (adj outs x)" and sx: "set (adj outs x) \<subseteq> set ids"
    using wf x by (auto simp: wf_graph_def)
  have rev: "u \<in> set (adj ins v) \<longleftrightarrow> v \<in> set (adj outs u)" for u v
    using wf by (simp add: wf_graph_def)
  have rem: "remainingOf rem v = int (card (set (adj ins v) - set order))" if "v \<in> set ids" for v
    using inv that by (simp add: loop_inv_def)
  have sub: "set (adj ins v) \<subseteq> set order" if "v \<in> set order" for v
    using inv that unfolding loop_inv_def closed_under_def
    by (metis in_set_conv_nth in_set_takeD subset_iff)
  from releaseConsumers_spec[OF pop(2) dx, of rem] obtain q'' rem' where
    r: "releaseConsumers push (adj outs x) q' rem = (q'', rem')" "invar q''"
      "elems q'' = elems q' + mset (filter (\<lambda>c. remainingOf rem c = 1) (adj outs x))"
      "\<And>v. remainingOf rem' v = remainingOf rem v - (if v \<in> set (adj outs x) then 1 else 0)"
    by blast
  let ?new = "{v \<in> set ids. releasable ins (order @ [x]) v}"
  let ?old = "{v \<in> set ids. releasable ins order v}"
  let ?rel = "{v \<in> set (adj outs x). remainingOf rem v = 1}"
  have single: "remainingOf rem v = 1 \<longleftrightarrow> set (adj ins v) - set order = {x}"
    if "v \<in> set (adj outs x)" for v
  proof -
    have "x \<in> set (adj ins v) - set order" using that rev x by (auto simp: releasable_def)
    then have "card (set (adj ins v) - set order) = 1 \<longleftrightarrow> set (adj ins v) - set order = {x}"
      by (metis card_1_singleton_iff One_nat_def singletonD)
    moreover have "v \<in> set ids" using that sx by blast
    ultimately show ?thesis using rem[of v] by simp
  qed
  have rel_in: "v \<in> ?new" if "v \<in> ?rel" for v
  proof -
    from that have ins: "set (adj ins v) - set order = {x}" using single by blast
    then have "v \<notin> set order" using sub by blast
    moreover have "v \<noteq> x" using ins x by (auto simp: releasable_def)
    ultimately show ?thesis using that sx ins by (auto simp: releasable_def)
  qed
  have new: "?new = (?old - {x}) \<union> ?rel"
  proof (intro set_eqI iffI)
    fix v assume v: "v \<in> ?new"
    show "v \<in> (?old - {x}) \<union> ?rel"
    proof (cases "x \<in> set (adj ins v)")
      case True
      with v x have "set (adj ins v) - set order = {x}" by (auto simp: releasable_def)
      with True rev single show ?thesis by blast
    next
      case False
      with v show ?thesis by (auto simp: releasable_def)
    qed
  next
    fix v assume "v \<in> (?old - {x}) \<union> ?rel"
    then show "v \<in> ?new" using rel_in by (auto simp: releasable_def)
  qed
  have disj: "(?old - {x}) \<inter> ?rel = {}"
    using single x by (auto simp: releasable_def)
  have fset: "mset (filter P ids) = mset_set {v \<in> set ids. P v}" for P
    using d by (metis distinct_filter mset_set_set set_filter)
  have "elems q' = elems q - {#x#}" using pop(1) by simp
  also have "\<dots> = mset_set (?old - {x})"
    using inv x fset[of "releasable ins order"] by (simp add: loop_inv_def mset_set_Diff)
  finally have q': "elems q' = mset_set (?old - {x})" .
  have "mset (filter (\<lambda>c. remainingOf rem c = 1) (adj outs x)) = mset_set ?rel"
    using mset_set_set[OF distinct_filter[OF dx]] by simp
  with r(3) q' have "elems q'' = mset_set (?old - {x}) + mset_set ?rel" by simp
  also have "\<dots> = mset_set ?new"
    unfolding new using disj by (subst mset_set_Union) auto
  finally have e: "elems q'' = mset (filter (releasable ins (order @ [x])) ids)"
    using fset[of "releasable ins (order @ [x])"] by simp
  have c: "remainingOf rem' v = int (card (set (adj ins v) - set (order @ [x])))"
    if "v \<in> set ids" for v
  proof -
    have eq: "set (adj ins v) - set (order @ [x]) = (set (adj ins v) - set order) - {x}" by auto
    show ?thesis
    proof (cases "v \<in> set (adj outs x)")
      case True
      then have "x \<in> set (adj ins v) - set order" using rev x by (auto simp: releasable_def)
      then have "card (set (adj ins v) - set order) = Suc (card ((set (adj ins v) - set order) - {x}))"
        by (metis card_Suc_Diff1 finite_Diff finite_set)
      then show ?thesis using True r(4)[of v] rem[OF that] by (simp only: eq) simp
    next
      case False
      then have "(set (adj ins v) - set order) - {x} = set (adj ins v) - set order" using rev by auto
      then show ?thesis using False r(4)[of v] rem[OF that] by (simp only: eq) simp
    qed
  qed
  have "distinct (order @ [x])" "set (order @ [x]) \<subseteq> set ids" "closed_under ins (order @ [x])"
    using inv x by (auto simp: loop_inv_def releasable_def intro: closed_under_snoc)
  with e c r(1,2) show ?thesis by (auto simp: loop_inv_def)
qed

lemma pop_is_first_authored:
  assumes inv: "loop_inv ids ins q rem order" and key: "authored ids key" and d: "distinct ids"
    and x: "x \<in># elems q" and min: "\<forall>y \<in># elems q. key x \<le> key y"
  shows "find (releasable ins order) ids = Some x"
proof -
  have xr: "x \<in> set ids" "releasable ins order x" using x inv by (auto simp: loop_inv_def)
  then obtain y where y: "find (releasable ins order) ids = Some y"
    by (metis find_None_iff not_None_eq)
  then obtain i where i: "i < length ids" "y = ids ! i" "releasable ins order y"
    and first: "\<forall>j < i. \<not> releasable ins order (ids ! j)"
    by (auto simp: find_Some_iff)
  then have "y \<in># elems q" using inv by (auto simp: loop_inv_def)
  with min have "key x \<le> key y" by blast
  moreover from xr obtain k where k: "k < length ids" "x = ids ! k" by (auto simp: in_set_conv_nth)
  ultimately have "k \<le> i" using key i by (auto simp: authored_def)
  moreover have "\<not> k < i" using first xr k by auto
  ultimately show ?thesis using y i k by simp
qed

lemma kahnLoop_refines:
  assumes wf: "wf_graph ids outs ins" and key: "authored ids key"
    and inv: "loop_inv ids ins q rem order" and fuel: "length ids < fuel + length order"
  shows "kahnLoop fuel push pop outs q rem order =
         Some (topoSpec (length ids - length order) ids ins order)"
  using inv fuel
proof (induction fuel arbitrary: q rem order)
  case 0
  then have "card (set order) \<le> card (set ids)"
    by (intro card_mono) (auto simp: loop_inv_def)
  then show ?case
    using 0 wf by (simp add: loop_inv_def wf_graph_def distinct_card)
next
  case (Suc fuel)
  have d: "distinct ids" using wf by (simp add: wf_graph_def)
  have le: "length order \<le> length ids"
    using Suc.prems(1) d
    by (metis (no_types, lifting) card_mono distinct_card finite_set loop_inv_def)
  show ?case
  proof (cases "elems q = {#}")
    case True
    then have none: "fst (pop q) = None"
      using Suc.prems by (auto simp: loop_inv_def intro: pop_empty)
    have "find (releasable ins order) ids = None"
      using True Suc.prems by (auto simp: loop_inv_def find_None_iff filter_empty_conv)
    then have "topoSpec (length ids - length order) ids ins order = order"
      by (cases "length ids - length order") auto
    with none show ?thesis by (cases "pop q") simp
  next
    case False
    obtain x q' where p: "pop q = (Some x, q')" "elems q = add_mset x (elems q')"
      "invar q'" "\<forall>y \<in># elems q. key x \<le> key y"
      using pop_ex[OF _ False] Suc.prems(1) unfolding loop_inv_def by blast
    have f: "find (releasable ins order) ids = Some x"
      using pop_is_first_authored[OF Suc.prems(1) key d _ p(4)] p(2) by simp
    then have x: "x \<in> set ids" "x \<notin> set order" by (auto simp: find_Some_iff releasable_def)
    obtain q'' rem' where r: "releaseConsumers push (adj outs x) q' rem = (q'', rem')"
      "loop_inv ids ins q'' rem' (order @ [x])"
      using loop_inv_step[OF wf Suc.prems(1) p(2,3)] by blast
    have "length (order @ [x]) \<le> length ids"
      using r(2) d by (metis (no_types, lifting) card_mono distinct_card finite_set loop_inv_def)
    then have "length ids - length order = Suc (length ids - length (order @ [x]))" by simp
    moreover have "kahnLoop fuel push pop outs q'' rem' (order @ [x]) =
        Some (topoSpec (length ids - length (order @ [x])) ids ins (order @ [x]))"
      using Suc.IH[OF r(2)] Suc.prems(2) by simp
    ultimately show ?thesis using p(1) r(1) f by simp
  qed
qed

lemma kahn_start_inv:
  assumes wf: "wf_graph ids outs ins"
  defines "rem \<equiv> \<lambda>vid. map_option (\<lambda>ins. int (length ins)) (ins vid)"
  shows "loop_inv ids ins (initialReady push rem ids empty) rem []"
proof -
  have rem: "remainingOf rem v = int (card (set (adj ins v)))" if "v \<in> set ids" for v
  proof -
    from that wf have "v \<in> dom ins" "distinct (adj ins v)" by (auto simp: wf_graph_def)
    then show ?thesis by (auto simp: remainingOf_def rem_def adj_def distinct_card)
  qed
  have "filter (\<lambda>v. remainingOf rem v = 0) ids = filter (releasable ins []) ids"
    by (intro filter_cong) (auto simp: rem releasable_def)
  then show ?thesis
    using initialReady_elems[OF invar_empty, of rem ids] rem
    by (simp add: loop_inv_def elems_empty closed_under_def)
qed

end

section \<open>The Kahn order\<close>

lemma kahnOrder_is_topoSpec:
  assumes "wf_graph ids outs ins" and "authored ids (authoredKey idx)"
  shows "kahnOrder ids outs ins idx = Some (topoSpec (length ids) ids ins [])"
  using heap_queue.kahnLoop_refines[OF assms heap_queue.kahn_start_inv[OF assms(1)], of "Suc (length ids)"]
  by (simp add: kahnOrder_def Let_def del: kahnLoop.simps)

lemma topoSpec_complete_iff:
  assumes wf: "wf_graph ids outs ins"
  shows "set (topoSpec (length ids) ids ins []) = set ids \<longleftrightarrow> acyclic (edges ins)"
proof
  let ?order = "topoSpec (length ids) ids ins []"
  have inv: "distinct ?order" "set ?order \<subseteq> set ids" "closed_under ins ?order"
    using topoSpec_invariant[of "[]" ids ins "length ids"] by (auto simp: closed_under_def)
  {
    assume "set ?order = set ids"
    then have "edges ins \<subseteq> set ?order \<times> set ?order" using wf_graph_edges_in[OF wf] by auto
    then show "acyclic (edges ins)" using closed_under_acyclic_on inv by blast
  next
    assume "acyclic (edges ins)"
    moreover have "\<forall>v \<in> set ids. \<not> releasable ins ?order v"
      using wf by (intro topoSpec_maximal) (auto simp: wf_graph_def)
    ultimately show "set ?order = set ids"
      using acyclic_no_stuck[OF wf] inv by blast
  }
qed

section \<open>The named cycle\<close>

text \<open>The walk goes backwards along edges through stuck nodes only, and \<open>seenAt\<close> indexes the path.\<close>

definition walk_inv where
  "walk_inv ids ins order seenAt path c \<longleftrightarrow>
     distinct path \<and> set path \<subseteq> set ids - set order \<and> c \<in> set ids - set order \<and>
     dom seenAt = set path \<and> (\<forall>i < length path. seenAt (path ! i) = Some i) \<and>
     successively (\<lambda>u v. (v, u) \<in> edges ins) (path @ [c])"

lemma walk_inv_step:
  assumes inv: "walk_inv ids ins order seenAt path c" and c: "c \<notin> dom seenAt"
    and p: "p \<in> set (adj ins c)" "p \<in> set ids - set order"
  shows "walk_inv ids ins order (seenAt(c \<mapsto> length path)) (path @ [c]) p"
proof -
  have "seenAt (path ! i) = Some i" if "i < length path" for i
    using inv that by (simp add: walk_inv_def)
  moreover have "c \<notin> set path" using inv c by (simp add: walk_inv_def)
  ultimately have "(seenAt(c \<mapsto> length path)) ((path @ [c]) ! i) = Some i" if "i < length (path @ [c])" for i
    using that by (auto simp: nth_append less_Suc_eq)
  moreover have "(p, c) \<in> edges ins" using p by (simp add: edges_def)
  ultimately show ?thesis
    using inv p \<open>c \<notin> set path\<close> by (auto simp: walk_inv_def successively_append_iff)
qed

lemma predecessorWalk_closes:
  assumes wf: "wf_graph ids outs ins" and max: "\<forall>v \<in> set ids. \<not> releasable ins order v"
    and "walk_inv ids ins order seenAt path c" and "length ids < fuel + length path"
  shows "\<exists>seenAt' path' c'. predecessorWalk fuel key order ins seenAt path (Some c) = (seenAt', path', Some c')
           \<and> walk_inv ids ins order seenAt' path' c' \<and> c' \<in> set path'"
  using assms(3,4)
proof (induction fuel arbitrary: seenAt path c)
  case 0
  then have "length path \<le> length ids"
    by (metis (no_types, lifting) walk_inv_def Diff_subset card_length card_mono distinct_card finite_set
        order_trans)
  with 0 show ?case by simp
next
  case (Suc fuel)
  show ?case
  proof (cases "c \<in> dom seenAt")
    case True
    then have "predecessorWalk (Suc fuel) key order ins seenAt path (Some c) = (seenAt, path, Some c)" by auto
    moreover have "c \<in> set path" using True Suc.prems by (simp add: walk_inv_def)
    ultimately show ?thesis using Suc.prems by blast
  next
    case False
    let ?preds = "sort_key key (filter (\<lambda>p. p \<notin> set order) (adj ins c))"
    have cs: "c \<in> set ids" "c \<notin> set order" using Suc.prems(1) by (auto simp: walk_inv_def)
    then have "?preds \<noteq> []"
      using stuck_has_stuck_dependency[OF wf cs max] by (auto simp: filter_empty_conv simp flip: set_empty)
    then obtain p ps where preds: "?preds = p # ps" by (cases ?preds) auto
    have "p \<in> set ?preds" by (simp only: preds list.set_intros)
    then have p: "p \<in> set (adj ins c)" "p \<notin> set order" by auto
    moreover have "set (adj ins c) \<subseteq> set ids" using wf cs by (simp add: wf_graph_def)
    ultimately have "walk_inv ids ins order (seenAt(c \<mapsto> length path)) (path @ [c]) p"
      using walk_inv_step[OF Suc.prems(1) False] by blast
    moreover have "length ids < fuel + length (path @ [c])" using Suc.prems(2) by simp
    moreover have "predecessorWalk (Suc fuel) key order ins seenAt path (Some c) =
        predecessorWalk fuel key order ins (seenAt(c \<mapsto> length path)) (path @ [c]) (Some p)"
      using False by (simp add: Let_def preds domIff)
    ultimately show ?thesis using Suc.IH by presburger
  qed
qed

lemma ring_of_walk:
  assumes inv: "walk_inv ids ins order seenAt path c" and i: "seenAt c = Some i" "c \<in> set path"
  defines "ring \<equiv> rev (drop i path)"
  shows "ring \<noteq> [] \<and> distinct ring \<and> set ring \<subseteq> set ids - set order \<and>
         successively (\<lambda>u v. (u, v) \<in> edges ins) (ring @ [hd ring])"
proof -
  from i(2) obtain j where "j < length path" "path ! j = c" by (auto simp: in_set_conv_nth)
  with inv i have il: "i < length path" "path ! i = c" by (auto simp: walk_inv_def)
  then have ne: "drop i path \<noteq> []" and hdc: "hd (drop i path) = c" by (auto simp: hd_drop_conv_nth)
  have "successively (\<lambda>u v. (v, u) \<in> edges ins) (take i path @ drop i path @ [c])"
    using inv by (simp add: walk_inv_def flip: append_assoc)
  then have "successively (\<lambda>u v. (v, u) \<in> edges ins) (drop i path @ [c])"
    using successively_append_iff[of _ "take i path" "drop i path @ [c]"] by blast
  then have chain: "successively (\<lambda>u v. (v, u) \<in> edges ins) (drop i path)"
    and close: "(c, last (drop i path)) \<in> edges ins"
    using ne by (auto simp: successively_append_iff)
  have "last ring = c" "hd ring = last (drop i path)" "ring \<noteq> []"
    using ne hdc by (auto simp: ring_def last_rev hd_rev)
  moreover have "successively (\<lambda>u v. (u, v) \<in> edges ins) ring"
    using chain by (simp add: ring_def)
  moreover have "distinct ring" "set ring \<subseteq> set ids - set order"
    using inv by (auto simp: ring_def walk_inv_def dest: in_set_dropD)
  ultimately show ?thesis using close by (simp add: successively_append_iff)
qed

lemma extractCycle_ring:
  assumes wf: "wf_graph ids outs ins" and max: "\<forall>v \<in> set ids. \<not> releasable ins order v"
    and stuck: "\<not> set ids \<subseteq> set order"
  shows "\<exists>ring. extractCycle ids order ins idx = ring @ [hd ring] \<and> ring \<noteq> [] \<and> distinct ring \<and>
           set ring \<subseteq> set ids - set order \<and>
           successively (\<lambda>u v. (u, v) \<in> edges ins) (ring @ [hd ring])"
proof -
  obtain start where start: "find (\<lambda>v. v \<notin> set order) ids = Some start"
    using stuck by (metis find_None_iff not_None_eq subsetI)
  then have "start \<in> set ids - set order" by (auto simp: find_Some_iff)
  then have "walk_inv ids ins order Map.empty [] start" by (simp add: walk_inv_def)
  from predecessorWalk_closes[OF wf max this, of "Suc (length ids)" "authoredKey idx"]
  obtain seenAt path c where
    w: "predecessorWalk (Suc (length ids)) (authoredKey idx) order ins Map.empty [] (Some start) =
        (seenAt, path, Some c)"
    "walk_inv ids ins order seenAt path c" "c \<in> set path" by auto
  then have "c \<in> dom seenAt" by (simp add: walk_inv_def)
  then obtain i where i: "seenAt c = Some i" by blast
  note ring = ring_of_walk[OF w(2) i w(3)]
  then have "extractCycle ids order ins idx = rev (drop i path) @ [hd (rev (drop i path))]"
    using start w(1) i
    by (simp add: extractCycle_def Let_def del: predecessorWalk.simps split: list.split)
  with ring show ?thesis by blast
qed

section \<open>The dependency closure\<close>

lemma distinct_fold_set_add: "distinct (fold set_add xs acc) = distinct acc"
  by (induction xs arbitrary: acc) auto

lemma fold_foldDependency:
  "set (fold (foldDependency sets) deps acc) = (\<Union>d \<in> set deps. insert d (set (adj sets d))) \<union> set acc \<and>
   distinct (fold (foldDependency sets) deps acc) = distinct acc"
  by (induction deps arbitrary: acc)
    (auto simp: foldDependency_def set_fold_set_add distinct_fold_set_add)

lemma trancl_predecessors: "{u. (u, v) \<in> R\<^sup>+} = (\<Union>d \<in> {d. (d, v) \<in> R}. insert d {u. (u, d) \<in> R\<^sup>+})"
  by (auto elim: tranclE intro: trancl_into_trancl)

lemma ancestorSets_closure:
  assumes "closed_under ins (prefix @ order)" and "distinct (prefix @ order)"
    and "\<forall>v \<in> set prefix. set (adj sets v) = {u. (u, v) \<in> (edges ins)\<^sup>+} \<and> distinct (adj sets v)"
    and "dom sets = set prefix"
  shows "dom (ancestorSets ins order sets) = set (prefix @ order) \<and>
    (\<forall>v \<in> set (prefix @ order). set (adj (ancestorSets ins order sets) v) = {u. (u, v) \<in> (edges ins)\<^sup>+} \<and>
       distinct (adj (ancestorSets ins order sets) v))"
  using assms
proof (induction order arbitrary: prefix sets)
  case Nil
  then show ?case by simp
next
  case (Cons x order)
  let ?acc = "fold (foldDependency sets) (adj ins x) []"
  have deps: "set (adj ins x) \<subseteq> set prefix"
    using Cons.prems(1) unfolding closed_under_def
    by (metis append_eq_conv_conj length_append length_Cons less_add_Suc1 nth_append_length add_Suc_right)
  have "set ?acc = (\<Union>d \<in> {d. (d, x) \<in> edges ins}. insert d {u. (u, d) \<in> (edges ins)\<^sup>+})"
    using fold_foldDependency[of sets "adj ins x" "[]"] Cons.prems(3) deps by (auto simp: edges_def)
  then have acc: "set ?acc = {u. (u, x) \<in> (edges ins)\<^sup>+}" "distinct ?acc"
    using trancl_predecessors[of x "edges ins"] fold_foldDependency[of sets "adj ins x" "[]"] by auto
  let ?sets = "sets(x \<mapsto> ?acc)"
  have "adj ?sets v = (if v = x then ?acc else adj sets v)" for v by (simp add: adj_def)
  then have sets: "\<forall>v \<in> set (prefix @ [x]). set (adj ?sets v) = {u. (u, v) \<in> (edges ins)\<^sup>+} \<and> distinct (adj ?sets v)"
    using Cons.prems(3) acc by auto
  have "closed_under ins ((prefix @ [x]) @ order)" "distinct ((prefix @ [x]) @ order)"
    "dom ?sets = set (prefix @ [x])"
    using Cons.prems by auto
  then have "dom (ancestorSets ins order ?sets) = set ((prefix @ [x]) @ order) \<and>
      (\<forall>v \<in> set ((prefix @ [x]) @ order).
         set (adj (ancestorSets ins order ?sets) v) = {u. (u, v) \<in> (edges ins)\<^sup>+} \<and>
         distinct (adj (ancestorSets ins order ?sets) v))"
    using Cons.IH[OF _ _ sets] by blast
  then show ?case by simp
qed

lemma computeAncestors_closure:
  assumes "closed_under ins order" and "distinct order" and "v \<in> set order"
  shows "\<exists>as. computeAncestors order ins v = Some as \<and> set as = {u. (u, v) \<in> (edges ins)\<^sup>+} \<and>
              sorted as \<and> distinct as"
proof -
  have a: "dom (ancestorSets ins order Map.empty) = set order"
    "set (adj (ancestorSets ins order Map.empty) v) = {u. (u, v) \<in> (edges ins)\<^sup>+}"
    "distinct (adj (ancestorSets ins order Map.empty) v)"
    using ancestorSets_closure[of ins "[]" order Map.empty] assms by auto
  with assms(3) obtain s where "ancestorSets ins order Map.empty v = Some s" by blast
  with a(2,3) show ?thesis by (simp add: computeAncestors_def adj_def)
qed

end
