(* ===== verification/Template_Refs.thy ===== *)
theory Template_Refs
  imports Relavium_Prelude
begin

text \<open>
  The interpolation lexer (\<open>src/packages/core/src/interpolation/references.ts\<close>): an authored template
  field is cut into literal text and \<open>{{ ... }}\<close> references; a reference into a head and pipe
  filters; a filter into its name and arguments. The regular expressions of the source are written
  out as the deterministic scanners they denote.

  Text is \<open>string\<close> (lists of 8-bit characters); \<open>isWs\<close> is the JavaScript white space in that range.
\<close>

section \<open>Characters\<close>

abbreviation (input) quote_d :: char where "quote_d \<equiv> CHR 0x22"
abbreviation (input) quote_s :: char where "quote_s \<equiv> CHR 0x27"
abbreviation (input) backslash :: char where "backslash \<equiv> CHR 0x5C"

definition isWs :: "char \<Rightarrow> bool" where
  "isWs c \<longleftrightarrow> (let n = (of_char c :: nat) in (9 \<le> n \<and> n \<le> 13) \<or> n = 32 \<or> n = 160)"

definition isDigit :: "char \<Rightarrow> bool" where
  "isDigit c \<longleftrightarrow> (let n = (of_char c :: nat) in 48 \<le> n \<and> n \<le> 57)"

definition isAlpha :: "char \<Rightarrow> bool" where
  "isAlpha c \<longleftrightarrow> (let n = (of_char c :: nat) in (65 \<le> n \<and> n \<le> 90) \<or> (97 \<le> n \<and> n \<le> 122))"

text \<open>The class \<open>\w\<close>, and the name characters \<open>[A-Za-z0-9_-]\<close>.\<close>

definition isWord :: "char \<Rightarrow> bool" where
  "isWord c \<longleftrightarrow> isAlpha c \<or> isDigit c \<or> c = CHR ''_''"

definition isName :: "char \<Rightarrow> bool" where
  "isName c \<longleftrightarrow> isWord c \<or> c = CHR ''-''"

definition isQuoteChar :: "char \<Rightarrow> bool" where
  "isQuoteChar c \<longleftrightarrow> c = quote_d \<or> c = quote_s"

definition trim :: "string \<Rightarrow> string" where
  "trim s = rev (dropWhile isWs (rev (dropWhile isWs s)))"

text \<open>The text after a literal prefix.\<close>

fun stripPrefix :: "string \<Rightarrow> string \<Rightarrow> string option" where
  "stripPrefix [] s = Some s"
| "stripPrefix (p # ps) [] = None"
| "stripPrefix (p # ps) (c # cs) = (if p = c then stripPrefix ps cs else None)"

section \<open>The data the lexer produces\<close>

datatype ReferenceKind = RInputs | RCtx | RNode | RRun | RSecrets | RUnknown

text \<open>A numeric argument keeps its literal: the conversion to a double is not part of the lexer.\<close>

datatype FilterArg = ArgString string | ArgNumber string | ArgBoolean bool

record PipeFilter =
  pf_name :: string
  pf_args :: "FilterArg list"

record InterpolationReference =
  ref_kind :: ReferenceKind
  ref_identifier :: string
  ref_path :: string
  ref_filters :: "PipeFilter list"
  ref_raw :: string

datatype TemplateSegment = Literal string | Reference InterpolationReference

section \<open>Splitting at top level\<close>

record SplitState =
  st_buf :: string
  st_quote :: "char option"
  st_depth :: nat
  st_escaped :: bool

definition splitStepOutsideQuote ::
    "char \<Rightarrow> char \<Rightarrow> SplitState \<times> string list \<Rightarrow> SplitState \<times> string list" where
  "splitStepOutsideQuote delim ch = (\<lambda>(st, out).
     if isQuoteChar ch then (st\<lparr>st_quote := Some ch, st_buf := st_buf st @ [ch]\<rparr>, out)
     else if ch = CHR ''['' \<or> ch = CHR ''('' then
       (st\<lparr>st_depth := st_depth st + 1, st_buf := st_buf st @ [ch]\<rparr>, out)
     else if ch = CHR '']'' \<or> ch = CHR '')'' then
       (st\<lparr>st_depth := st_depth st - 1, st_buf := st_buf st @ [ch]\<rparr>, out)
     else if ch = delim \<and> st_depth st = 0 then (st\<lparr>st_buf := []\<rparr>, out @ [st_buf st])
     else (st\<lparr>st_buf := st_buf st @ [ch]\<rparr>, out))"

definition splitStep :: "char \<Rightarrow> char \<Rightarrow> SplitState \<times> string list \<Rightarrow> SplitState \<times> string list" where
  "splitStep delim ch = (\<lambda>(st, out).
     if st_escaped st then (st\<lparr>st_buf := st_buf st @ [ch], st_escaped := False\<rparr>, out)
     else case st_quote st of
       Some q \<Rightarrow>
         if ch = backslash then (st\<lparr>st_buf := st_buf st @ [ch], st_escaped := True\<rparr>, out)
         else if ch = q then (st\<lparr>st_buf := st_buf st @ [ch], st_quote := None\<rparr>, out)
         else (st\<lparr>st_buf := st_buf st @ [ch]\<rparr>, out)
     | None \<Rightarrow> splitStepOutsideQuote delim ch (st, out))"

definition initialSplit :: SplitState where
  "initialSplit = \<lparr>st_buf = [], st_quote = None, st_depth = 0, st_escaped = False\<rparr>"

definition splitTopLevel :: "string \<Rightarrow> char \<Rightarrow> string list" where
  "splitTopLevel s delim =
     (case fold (splitStep delim) s (initialSplit, []) of (st, out) \<Rightarrow> out @ [st_buf st])"

section \<open>Arguments, filters and heads\<close>

fun decodeQuotedArg :: "char \<Rightarrow> string \<Rightarrow> string" where
  "decodeQuotedArg q (c # n # rest) =
     (if c = backslash \<and> (n = q \<or> n = backslash) then n # decodeQuotedArg q rest
      else c # decodeQuotedArg q (n # rest))"
| "decodeQuotedArg q s = s"

text \<open>\<open>/^-?\d+(?:\.\d+)?$/\<close>\<close>

definition isDecimalLiteral :: "string \<Rightarrow> bool" where
  "isDecimalLiteral s =
     (let u = (case s of c # r \<Rightarrow> if c = CHR ''-'' then r else s | [] \<Rightarrow> []);
          whole = takeWhile isDigit u;
          rest = dropWhile isDigit u
      in whole \<noteq> [] \<and>
         (case rest of
            [] \<Rightarrow> True
          | c # frac \<Rightarrow> c = CHR ''.'' \<and> frac \<noteq> [] \<and> list_all isDigit frac))"

definition parseArg :: "string \<Rightarrow> FilterArg option" where
  "parseArg piece =
     (let trimmed = trim piece
      in if trimmed = [] then None
         else if 2 \<le> length trimmed \<and> isQuoteChar (hd trimmed) \<and> last trimmed = hd trimmed then
           Some (ArgString (decodeQuotedArg (hd trimmed) (butlast (tl trimmed))))
         else if trimmed = ''true'' \<or> trimmed = ''false'' then Some (ArgBoolean (trimmed = ''true''))
         else if isDecimalLiteral trimmed then Some (ArgNumber trimmed)
         else Some (ArgString trimmed))"

text \<open>\<open>/^([A-Za-z_]\w*)\s*(?:\((.*)\))?$/s\<close>: the name and, when present, the raw arguments.\<close>

definition matchFilter :: "string \<Rightarrow> (string \<times> string option) option" where
  "matchFilter s =
     (case s of
        [] \<Rightarrow> None
      | c # _ \<Rightarrow>
          if isAlpha c \<or> c = CHR ''_'' then
            let name = takeWhile isWord s; rest = dropWhile isWs (dropWhile isWord s)
            in (case rest of
                  [] \<Rightarrow> Some (name, None)
                | p # tail \<Rightarrow>
                    if p = CHR ''('' \<and> tail \<noteq> [] \<and> last tail = CHR '')''
                    then Some (name, Some (butlast tail)) else None)
          else None)"

definition parseFilter :: "string \<Rightarrow> PipeFilter" where
  "parseFilter part =
     (let trimmed = trim part
      in case matchFilter trimmed of
           None \<Rightarrow> \<lparr>pf_name = trimmed, pf_args = []\<rparr>
         | Some (name, None) \<Rightarrow> \<lparr>pf_name = name, pf_args = []\<rparr>
         | Some (name, Some rawArgs) \<Rightarrow>
             if trim rawArgs = [] then \<lparr>pf_name = name, pf_args = []\<rparr>
             else \<lparr>pf_name = name,
                   pf_args = List.map_filter parseArg (splitTopLevel rawArgs CHR '','')\<rparr>)"

text \<open>\<open>NODE_OUTPUT\<close>: \<open>run.outputs[\<close>, a quoted id without quotes inside, \<open>]\<close>, then the path.\<close>

definition matchNodeOutput :: "string \<Rightarrow> (string \<times> string) option" where
  "matchNodeOutput head =
     (case stripPrefix ''run.outputs['' head of
        None \<Rightarrow> None
      | Some r \<Rightarrow>
          (case dropWhile isWs r of
             [] \<Rightarrow> None
           | q # body \<Rightarrow>
               if \<not> isQuoteChar q then None
               else (case dropWhile (\<lambda>c. \<not> isQuoteChar c) body of
                       [] \<Rightarrow> None
                     | q' # after \<Rightarrow>
                         if q' \<noteq> q then None
                         else (case dropWhile isWs after of
                                 [] \<Rightarrow> None
                               | b # path \<Rightarrow>
                                   if b = CHR '']'' then Some (takeWhile (\<lambda>c. \<not> isQuoteChar c) body, path)
                                   else None))))"

definition matchRunId :: "string \<Rightarrow> string option" where
  "matchRunId head =
     (case stripPrefix ''run.id'' head of
        None \<Rightarrow> None
      | Some [] \<Rightarrow> Some []
      | Some (c # r) \<Rightarrow> if isName c then None else Some (c # r))"

definition matchNamespace :: "string \<Rightarrow> string \<Rightarrow> (string \<times> string) option" where
  "matchNamespace ns head =
     (case stripPrefix (ns @ ''.'') head of
        None \<Rightarrow> None
      | Some r \<Rightarrow> if takeWhile isName r = [] then None else Some (takeWhile isName r, dropWhile isName r))"

definition parseHead :: "string \<Rightarrow> ReferenceKind \<times> string \<times> string" where
  "parseHead head =
     (case matchNodeOutput head of
        Some (vid, path) \<Rightarrow> (RNode, vid, trim path)
      | None \<Rightarrow>
     (case matchRunId head of
        Some path \<Rightarrow> (RRun, ''id'', trim path)
      | None \<Rightarrow>
     (case matchNamespace ''inputs'' head of
        Some (name, path) \<Rightarrow> (RInputs, name, trim path)
      | None \<Rightarrow>
     (case matchNamespace ''ctx'' head of
        Some (name, path) \<Rightarrow> (RCtx, name, trim path)
      | None \<Rightarrow>
     (case matchNamespace ''secrets'' head of
        Some (name, path) \<Rightarrow> (RSecrets, name, trim path)
      | None \<Rightarrow> (RUnknown, head, []))))))"

definition parseReference :: "string \<Rightarrow> string \<Rightarrow> InterpolationReference" where
  "parseReference inner raw =
     (let parts = splitTopLevel inner CHR ''|''
      in case parseHead (trim (hd parts)) of
           (kind, identifier, path) \<Rightarrow>
             \<lparr>ref_kind = kind, ref_identifier = identifier, ref_path = path,
              ref_filters = map parseFilter (tl parts), ref_raw = raw\<rparr>)"

section \<open>The template\<close>

text \<open>\<open>indexOf('{{', from)\<close> on the suffix that starts at position \<open>i\<close>.\<close>

fun indexOfOpen :: "nat \<Rightarrow> string \<Rightarrow> nat option" where
  "indexOfOpen i (a # b # rest) =
     (if a = CHR ''{'' \<and> b = CHR ''{'' then Some i else indexOfOpen (Suc i) (b # rest))"
| "indexOfOpen i s = None"

text \<open>One character of the scan of \<open>findClose\<close>: the open quote, the bracket depth, a pending escape.\<close>

type_synonym scan_state = "char option \<times> nat \<times> bool"

definition closeStep :: "scan_state \<Rightarrow> char \<Rightarrow> scan_state" where
  "closeStep = (\<lambda>(quote, depth, escaped) ch.
     if escaped then (quote, depth, False)
     else case quote of
       Some q \<Rightarrow>
         if ch = backslash then (quote, depth, True)
         else if ch = q then (None, depth, False)
         else (quote, depth, False)
     | None \<Rightarrow>
         if isQuoteChar ch then (Some ch, depth, False)
         else if ch = CHR ''['' \<or> ch = CHR ''('' then (None, depth + 1, False)
         else if ch = CHR '']'' \<or> ch = CHR '')'' then (None, depth - 1, False)
         else (None, depth, False))"

text \<open>The scan stops before the last character; a close counts only outside quotes and brackets.\<close>

fun findCloseFrom :: "scan_state \<Rightarrow> nat \<Rightarrow> string \<Rightarrow> nat option" where
  "findCloseFrom st i (ch # nxt # rest) =
     (if st = (None, 0, False) \<and> ch = CHR ''}'' \<and> nxt = CHR ''}'' then Some i
      else findCloseFrom (closeStep st ch) (Suc i) (nxt # rest))"
| "findCloseFrom st i s = None"

definition findClose :: "string \<Rightarrow> nat \<Rightarrow> nat option" where
  "findClose text from_at = findCloseFrom (None, 0, False) from_at (drop from_at text)"

definition slice :: "string \<Rightarrow> nat \<Rightarrow> nat \<Rightarrow> string" where
  "slice tpl a b = take (b - a) (drop a tpl)"

definition pushLiteral :: "TemplateSegment list \<Rightarrow> string \<Rightarrow> TemplateSegment list" where
  "pushLiteral segments tpl = (if tpl = [] then segments else segments @ [Literal tpl])"

lemma indexOfOpen_bounds:
  "indexOfOpen i s = Some j \<Longrightarrow> i \<le> j \<and> j + 1 < i + length s \<and> s ! (j - i) = CHR ''{'' \<and> s ! (j - i + 1) = CHR ''{''"
proof (induction i s rule: indexOfOpen.induct)
  case (1 i a b rest)
  show ?case
  proof (cases "a = CHR ''{'' \<and> b = CHR ''{''")
    case True
    with 1 show ?thesis by auto
  next
    case False
    with 1 have ih: "Suc i \<le> j" "j + 1 < Suc i + length (b # rest)"
      "(b # rest) ! (j - Suc i) = CHR ''{''" "(b # rest) ! (j - Suc i + 1) = CHR ''{''" by auto
    then have "j - i = Suc (j - Suc i)" by simp
    with ih show ?thesis by simp
  qed
qed auto

lemma findCloseFrom_bounds:
  "findCloseFrom st i s = Some j \<Longrightarrow>
     i \<le> j \<and> j + 1 < i + length s \<and> s ! (j - i) = CHR ''}'' \<and> s ! (j - i + 1) = CHR ''}''"
proof (induction st i s rule: findCloseFrom.induct)
  case (1 st i ch nxt rest)
  show ?case
  proof (cases "st = (None, 0, False) \<and> ch = CHR ''}'' \<and> nxt = CHR ''}''")
    case True
    with "1.prems" show ?thesis by auto
  next
    case False
    with 1 have ih: "Suc i \<le> j" "j + 1 < Suc i + length (nxt # rest)"
      "(nxt # rest) ! (j - Suc i) = CHR ''}''" "(nxt # rest) ! (j - Suc i + 1) = CHR ''}''" by auto
    then have "j - i = Suc (j - Suc i)" by simp
    with ih show ?thesis by simp
  qed
qed auto

lemma parse_progress:
  assumes "indexOfOpen pos (drop pos tpl) = Some start" and "findClose tpl (start + 2) = Some stop"
  shows "pos < stop + 2"
  using indexOfOpen_bounds[OF assms(1)] findCloseFrom_bounds[OF assms(2)[unfolded findClose_def]] by simp

function parseFrom :: "string \<Rightarrow> nat \<Rightarrow> TemplateSegment list \<Rightarrow> TemplateSegment list" where
  "parseFrom tpl pos segments =
     (if pos < length tpl then
        (case indexOfOpen pos (drop pos tpl) of
           None \<Rightarrow> pushLiteral segments (drop pos tpl)
         | Some start \<Rightarrow>
             (case findClose tpl (start + 2) of
                None \<Rightarrow> pushLiteral segments (drop pos tpl)
              | Some stop \<Rightarrow>
                  let inner = slice tpl (start + 2) stop;
                      raw = slice tpl start (stop + 2)
                  in parseFrom tpl (stop + 2)
                       (pushLiteral segments (slice tpl pos start) @ [Reference (parseReference inner raw)])))
      else segments)"
  by pat_completeness auto
termination
  by (relation "measure (\<lambda>(tpl, pos, segments). length tpl - pos)")
    (auto intro: diff_less_mono2 dest: parse_progress)

declare parseFrom.simps [simp del]

definition parseTemplate :: "string \<Rightarrow> TemplateSegment list" where
  "parseTemplate tpl = parseFrom tpl 0 []"

definition templateReferences :: "string \<Rightarrow> InterpolationReference list" where
  "templateReferences tpl =
     List.map_filter (\<lambda>s. case s of Reference r \<Rightarrow> Some r | Literal _ \<Rightarrow> None) (parseTemplate tpl)"

section \<open>The lexer loses nothing\<close>

definition segText :: "TemplateSegment \<Rightarrow> string" where
  "segText seg = (case seg of Literal t \<Rightarrow> t | Reference r \<Rightarrow> ref_raw r)"

definition unparse :: "TemplateSegment list \<Rightarrow> string" where
  "unparse segs = concat (map segText segs)"

lemma unparse_append [simp]: "unparse (xs @ ys) = unparse xs @ unparse ys"
  by (simp add: unparse_def)

lemma unparse_pushLiteral [simp]: "unparse (pushLiteral segs t) = unparse segs @ t"
  by (simp add: pushLiteral_def unparse_def segText_def)

lemma unparse_Reference [simp]: "unparse [Reference (parseReference inner raw)] = raw"
  by (simp add: unparse_def segText_def parseReference_def Let_def split: prod.split)

lemma slice_drop: "a \<le> b \<Longrightarrow> slice tpl a b @ drop b tpl = drop a tpl"
  by (metis append_take_drop_id drop_drop le_add_diff_inverse2 slice_def)

lemma open_close_bounds:
  assumes "indexOfOpen pos (drop pos tpl) = Some start" and "findClose tpl (start + 2) = Some stop"
  shows "pos \<le> start" and "start + 2 \<le> stop" and "stop + 2 \<le> length tpl"
    and "slice tpl start (start + 2) = ''{{''" and "slice tpl stop (stop + 2) = ''}}''"
proof -
  note o = indexOfOpen_bounds[OF assms(1)]
  note c = findCloseFrom_bounds[OF assms(2)[unfolded findClose_def]]
  have two: "slice tpl k (k + 2) = [tpl ! k, tpl ! (k + 1)]" if "k + 1 < length tpl" for k
    using that by (simp add: slice_def take_Suc_conv_app_nth numeral_2_eq_2 flip: Cons_nth_drop_Suc)
  show b: "pos \<le> start" "start + 2 \<le> stop" "stop + 2 \<le> length tpl" using o c by auto
  then have e: "start + 2 + (stop - (start + 2)) = stop" and le: "start + 2 \<le> length tpl" by auto
  have "drop (start + 2) tpl ! (stop - (start + 2)) = tpl ! stop"
    unfolding nth_drop[OF le] e ..
  moreover have "drop (start + 2) tpl ! (stop - (start + 2) + 1) = tpl ! (stop + 1)"
    unfolding nth_drop[OF le] add.assoc[symmetric] e ..
  ultimately
  show "slice tpl start (start + 2) = ''{{''" "slice tpl stop (stop + 2) = ''}}''"
    using b o c two[of start] two[of stop] by auto
qed

lemma unparse_parseFrom:
  "pos \<le> length tpl \<Longrightarrow> unparse (parseFrom tpl pos segs) = unparse segs @ drop pos tpl"
proof (induction tpl pos segs rule: parseFrom.induct)
  case (1 tpl pos segs)
  show ?case
  proof (cases "pos < length tpl")
    case False
    then show ?thesis by (simp add: parseFrom.simps[of tpl pos])
  next
    case True
    show ?thesis
    proof (cases "indexOfOpen pos (drop pos tpl)")
      case None
      with True show ?thesis by (simp add: parseFrom.simps[of tpl pos])
    next
      case (Some start)
      note o = this
      show ?thesis
      proof (cases "findClose tpl (start + 2)")
        case None
        with True o show ?thesis by (simp add: parseFrom.simps[of tpl pos])
      next
        case (Some stop)
        note b = open_close_bounds[OF o Some]
        have "unparse (parseFrom tpl pos segs) =
            unparse segs @ slice tpl pos start @ slice tpl start (stop + 2) @ drop (stop + 2) tpl"
          using "1.IH"[OF True o Some refl refl] b True o Some
          by (simp add: parseFrom.simps[of tpl pos])
        then show ?thesis using b by (simp add: slice_drop)
      qed
    qed
  qed
qed

lemma unparse_parseTemplate: "unparse (parseTemplate tpl) = tpl"
  using unparse_parseFrom[of 0 tpl "[]"] by (simp add: parseTemplate_def unparse_def)

section \<open>Splitting and joining\<close>

fun joinWith :: "char \<Rightarrow> string list \<Rightarrow> string" where
  "joinWith d [] = []"
| "joinWith d [p] = p"
| "joinWith d (p # ps) = p @ d # joinWith d ps"

lemma joinWith_snoc: "ps \<noteq> [] \<Longrightarrow> joinWith d (ps @ [p]) = joinWith d ps @ d # p"
  by (induction d ps rule: joinWith.induct) auto

lemma joinWith_snoc_char: "joinWith d (ps @ [p @ [c]]) = joinWith d (ps @ [p]) @ [c]"
  by (cases "ps = []") (auto simp: joinWith_snoc)

lemma joinWith_snoc_empty: "joinWith d ((ps @ [p]) @ [[]]) = joinWith d (ps @ [p]) @ [d]"
  by (subst joinWith_snoc) auto

lemma splitStep_joins:
  assumes "splitStep d ch (st, out) = (st', out')"
  shows "joinWith d (out' @ [st_buf st']) = joinWith d (out @ [st_buf st]) @ [ch]"
  using assms joinWith_snoc_char[of d out "st_buf st" ch] joinWith_snoc_empty[of d out "st_buf st"]
  by (auto simp: splitStep_def splitStepOutsideQuote_def split: if_splits option.splits)

lemma fold_splitStep_joins:
  "fold (splitStep d) s (st, out) = (st', out') \<Longrightarrow>
     joinWith d (out' @ [st_buf st']) = joinWith d (out @ [st_buf st]) @ s"
proof (induction s arbitrary: st out)
  case (Cons c s)
  obtain st1 out1 where "splitStep d c (st, out) = (st1, out1)" by (cases "splitStep d c (st, out)")
  with Cons splitStep_joins[OF this] show ?case by simp
qed simp

lemma joinWith_splitTopLevel: "joinWith d (splitTopLevel s d) = s"
  using fold_splitStep_joins[of d s initialSplit "[]"]
  by (cases "fold (splitStep d) s (initialSplit, [])") (simp add: splitTopLevel_def initialSplit_def)

section \<open>Quoted arguments\<close>

text \<open>How an author writes a string argument: the delimiter and the backslash are escaped.\<close>

definition encodeQuotedArg :: "char \<Rightarrow> string \<Rightarrow> string" where
  "encodeQuotedArg q s = concat (map (\<lambda>c. if c = q \<or> c = backslash then [backslash, c] else [c]) s)"

lemma decode_plain: "c \<noteq> backslash \<Longrightarrow> decodeQuotedArg q (c # s) = c # decodeQuotedArg q s"
  by (cases s) auto

lemma decode_encode: "decodeQuotedArg q (encodeQuotedArg q s) = s"
  by (induction s) (auto simp: encodeQuotedArg_def decode_plain)

lemma trim_id:
  assumes "s \<noteq> []" and "\<not> isWs (hd s)" and "\<not> isWs (last s)"
  shows "trim s = s"
proof -
  have "dropWhile isWs s = s" using assms by (cases s) auto
  moreover have "dropWhile isWs (rev s) = rev s"
    using assms by (cases "rev s") (auto simp: last_rev simp flip: hd_rev)
  ultimately show ?thesis by (simp add: trim_def)
qed

lemma quote_not_ws: "isQuoteChar q \<Longrightarrow> \<not> isWs q"
  by (auto simp: isQuoteChar_def isWs_def)

lemma parseArg_quoted:
  assumes "isQuoteChar q"
  shows "parseArg (q # encodeQuotedArg q s @ [q]) = Some (ArgString s)"
proof -
  have "trim (q # encodeQuotedArg q s @ [q]) = q # encodeQuotedArg q s @ [q]"
    using quote_not_ws[OF assms] by (intro trim_id) auto
  then show ?thesis using assms by (simp add: parseArg_def decode_encode)
qed

end
