(* ===== verification/Workflow_Model.thy ===== *)
theory Workflow_Model
  imports Complex_Main Template_Refs
begin

text \<open>
  The authored workflow document and the plan it is compiled to: nodes
  (\<open>src/packages/shared/src/node.ts\<close>), agents (\<open>agent.ts\<close>), edges (\<open>edge.ts\<close>), the workflow body
  and its whole-document checks (\<open>workflow.ts\<close>), the run plan
  (\<open>src/packages/core/src/run-plan.ts\<close>), the issue records (\<open>errors.ts\<close>) and the collection of
  template sites (\<open>interpolation/collect.ts\<close>).

  An optional field is an \<open>option\<close>; a locator or message that the source builds by string
  interpolation is a constructor that carries the interpolated values.
\<close>

type_synonym node_id = string

section \<open>JSON values\<close>

datatype json = JNull | JBool bool | JNum rat | JStr string | JArr "json list" | JObj "(string \<times> json) list"

text \<open>\<open>typeof v === 'object' && v !== null\<close>\<close>

fun isJsonObject :: "json \<Rightarrow> bool" where
  "isJsonObject (JArr _) = True"
| "isJsonObject (JObj _) = True"
| "isJsonObject _ = False"

section \<open>Agents\<close>

datatype BackoffStrategy = Linear | Exponential

datatype ErrorCode =
    Validation | ContextOverflow | ContentFilter | ProviderAuth | ProviderRateLimit | ProviderUnavailable | ToolDenied
  | ToolFailed | ToolUnavailable | BudgetExceeded | EffectNeedsAttention | RunTimeout | TurnLimit
  | Cancelled | SandboxError | InternalError

record Retry =
  retry_max :: nat
  retry_backoff :: BackoffStrategy
  retry_backoff_ms :: "nat option"
  retry_on :: "ErrorCode list option"

record FallbackChainEntry =
  fc_model :: string
  fc_provider :: string
  fc_max_attempts :: nat

record Agent =
  ag_id :: string
  ag_model :: string
  ag_provider :: string
  ag_system_prompt :: string
  ag_output_schema :: "json option"
  ag_tools :: "string list option"
  ag_mcp_servers :: "string list option"
  ag_retry :: "Retry option"
  ag_fallback_chain :: "FallbackChainEntry list option"

datatype WorkflowAgent = InlineAgent Agent | AgentRef string

section \<open>Nodes\<close>

datatype when_value = WhenBool bool | WhenString string | WhenNumber rat

record ConditionBranch =
  br_when :: when_value
  br_target :: node_id

datatype MergeStrategy = Concat | ObjectMerge | First | Custom

datatype GateType = Approval | InputGate | Review

datatype TimeoutAction = RejectGate | ApproveGate

record AgentNode =
  an_id :: node_id
  an_agent_ref :: string
  an_system_prompt_append :: "string option"
  an_prompt_template :: "string option"
  an_tools :: "string list option"
  an_output_schema :: "json option"
  an_timeout_ms :: "nat option"
  an_retry :: "Retry option"

record HumanGateNode =
  hg_id :: node_id
  hg_gate_type :: GateType
  hg_assignee :: "string option"
  hg_message_template :: "string option"
  hg_timeout_ms :: "nat option"
  hg_timeout_action :: "TimeoutAction option"

record ConditionNode =
  cn_id :: node_id
  cn_expression :: string
  cn_branches :: "ConditionBranch list"
  cn_default :: "node_id option"
  cn_retry :: "Retry option"

record TransformNode =
  tn_id :: node_id
  tn_transform :: string
  tn_output_schema :: "json option"
  tn_retry :: "Retry option"

record ParallelNode =
  pn_id :: node_id
  pn_parallel_of :: "node_id list"

record MergeNode =
  mn_id :: node_id
  mn_merge_strategy :: MergeStrategy
  mn_merge_fn :: "string option"
  mn_retry :: "Retry option"

datatype WorkflowNode =
    NInput node_id
  | NAgent AgentNode
  | NHumanGate HumanGateNode
  | NCondition ConditionNode
  | NTransform TransformNode
  | NParallel ParallelNode
  | NMerge MergeNode
  | NOutput node_id

fun node_id_of :: "WorkflowNode \<Rightarrow> node_id" where
  "node_id_of (NInput v) = v"
| "node_id_of (NAgent n) = an_id n"
| "node_id_of (NHumanGate n) = hg_id n"
| "node_id_of (NCondition n) = cn_id n"
| "node_id_of (NTransform n) = tn_id n"
| "node_id_of (NParallel n) = pn_id n"
| "node_id_of (NMerge n) = mn_id n"
| "node_id_of (NOutput v) = v"

text \<open>\<open>'retry' in node ? node.retry : undefined\<close>\<close>

fun node_retry :: "WorkflowNode \<Rightarrow> Retry option" where
  "node_retry (NAgent n) = an_retry n"
| "node_retry (NCondition n) = cn_retry n"
| "node_retry (NTransform n) = tn_retry n"
| "node_retry (NMerge n) = mn_retry n"
| "node_retry _ = None"

datatype NodeType =
    TInput | TAgent | THumanGate | TCondition | TTransform | TParallel | TMerge | TOutput

fun node_type :: "WorkflowNode \<Rightarrow> NodeType" where
  "node_type (NInput _) = TInput"
| "node_type (NAgent _) = TAgent"
| "node_type (NHumanGate _) = THumanGate"
| "node_type (NCondition _) = TCondition"
| "node_type (NTransform _) = TTransform"
| "node_type (NParallel _) = TParallel"
| "node_type (NMerge _) = TMerge"
| "node_type (NOutput _) = TOutput"

section \<open>The workflow body\<close>

record Edge =
  edge_from :: string
  edge_to :: node_id

datatype InputType = StringInput | NumberInput | BooleanInput | FilePathInput | CodeDiffInput | SecretInput

record WorkflowInput =
  in_name :: string
  in_type :: InputType
  in_default :: "json option"

record ContextEntry =
  ctx_key :: string
  ctx_value :: string

datatype OnExceed = FailRun | PauseForApproval | WarnOnly

record Budget =
  bud_max_cost_microcents :: int
  bud_on_exceed :: OnExceed
  bud_strict_cost_cap :: "bool option"

record WorkflowSpec =
  ws_id :: string
  ws_inputs :: "WorkflowInput list"
  ws_context :: "ContextEntry list"
  ws_agents :: "WorkflowAgent list"
  ws_budget :: "Budget option"
  ws_timeout_ms :: "nat option"
  ws_max_parallel :: "nat option"
  ws_nodes :: "WorkflowNode list"
  ws_edges :: "Edge list"

section \<open>Locators and issues\<close>

datatype locator =
    NodeField node_id string
  | NodeIndexed node_id string nat string
  | NodeOutDegree node_id
  | EdgeLocator string node_id
  | AgentCeilingField "string option" string
  | AgentChainEntryField "string option" nat
  | AgentPromptField "string option"
  | WorkflowField string
  | CycleField "node_id list"
  | ContextValueField string
  | InputDefaultField string

datatype GraphIssueKind =
    cycle | unknown_edge_target | invalid_handle | mismatched_branch_target | dangling_ref
  | ceiling_exceeded | tool_grant_widened | unordered_output_read | invalid_output_schema

datatype issue_message =
    CeilingMessage string nat nat
  | EdgeSourceNotNode string
  | EdgeTargetNotNode string
  | PlainEdgeFromCondition string
  | MemberNotNode node_id
  | BranchTargetNotNode node_id
  | DefaultTargetNotNode node_id
  | ToolNotGranted string
  | FurtherToolsNotGranted nat string nat nat
  | AgentRefUnresolved string
  | NoNamedHandle node_id NodeType nat
  | NoMatchingBranch node_id nat
  | HandleTargetMismatch node_id "string option" nat node_id node_id
  | DependencyCycle "node_id list"
  | OwnOutputRead node_id
  | UnorderedRead node_id node_id
  | SchemaOutsideSubset string

record GraphIssue =
  gi_field :: locator
  gi_message :: issue_message
  gi_kind :: GraphIssueKind

section \<open>Whole-document checks\<close>

definition dupStep :: "string \<Rightarrow> string list \<times> string list \<Rightarrow> string list \<times> string list" where
  "dupStep value = (\<lambda>(seen, duplicates).
     (set_add value seen, if value \<in> set seen then set_add value duplicates else duplicates))"

definition findDuplicates :: "string list \<Rightarrow> string list" where
  "findDuplicates vals = snd (fold dupStep vals ([], []))"

datatype document_issue =
    MergeFnRequired nat
  | DuplicateNodeIds "string list"
  | DuplicateInputNames "string list"
  | DuplicateContextKeys "string list"
  | DuplicateAgentIds "string list"
  | EdgeOutsideParallel nat string node_id

text \<open>\<open>from.split(':')[0]\<close>\<close>

definition edgeBase :: "string \<Rightarrow> string" where
  "edgeBase from_ref = takeWhile (\<lambda>c. c \<noteq> CHR '':'') from_ref"

definition reportDuplicates :: "(string list \<Rightarrow> document_issue) \<Rightarrow> string list \<Rightarrow> document_issue list" where
  "reportDuplicates issue vals =
     (let duplicates = findDuplicates vals in if duplicates = [] then [] else [issue duplicates])"

text \<open>The branch table: a later \<open>parallel\<close> node with the same id overwrites an earlier one.\<close>

definition branchesByParallelId :: "WorkflowNode list \<Rightarrow> (string, node_id list) jsmap" where
  "branchesByParallelId nodes =
     fold (\<lambda>node m. case node of NParallel p \<Rightarrow> mset_key (pn_id p) (pn_parallel_of p) m | _ \<Rightarrow> m) nodes []"

definition inlineAgents :: "WorkflowSpec \<Rightarrow> Agent list" where
  "inlineAgents spec =
     List.map_filter (\<lambda>a. case a of InlineAgent ag \<Rightarrow> Some ag | AgentRef _ \<Rightarrow> None) (ws_agents spec)"

definition mergeFnMissing :: "WorkflowNode \<Rightarrow> bool" where
  "mergeFnMissing node =
     (case node of
        NMerge n \<Rightarrow> mn_merge_strategy n = Custom \<and> (mn_merge_fn n = None \<or> mn_merge_fn n = Some [])
      | _ \<Rightarrow> False)"

definition edgeContradictsParallel :: "WorkflowNode list \<Rightarrow> Edge \<Rightarrow> bool" where
  "edgeContradictsParallel nodes edge =
     (case mget (branchesByParallelId nodes) (edgeBase (edge_from edge)) of
        None \<Rightarrow> False
      | Some branches \<Rightarrow> edge_to edge \<notin> set branches)"

definition validateWorkflow :: "WorkflowSpec \<Rightarrow> document_issue list" where
  "validateWorkflow spec =
     concat (map (\<lambda>(i, node). if mergeFnMissing node then [MergeFnRequired i] else [])
       (enumerate 0 (ws_nodes spec)))
     @ reportDuplicates DuplicateNodeIds (map node_id_of (ws_nodes spec))
     @ reportDuplicates DuplicateInputNames (map in_name (ws_inputs spec))
     @ reportDuplicates DuplicateContextKeys (map ctx_key (ws_context spec))
     @ reportDuplicates DuplicateAgentIds (map ag_id (inlineAgents spec))
     @ concat (map (\<lambda>(i, edge).
         if edgeContradictsParallel (ws_nodes spec) edge
         then [EdgeOutsideParallel i (edgeBase (edge_from edge)) (edge_to edge)] else [])
       (enumerate 0 (ws_edges spec)))"

lemma fold_dupStep:
  "fold dupStep vals (seen, dups) = (seen', dups') \<Longrightarrow>
     set seen' = set seen \<union> set vals \<and>
     (dups' = [] \<longleftrightarrow> dups = [] \<and> distinct vals \<and> set vals \<inter> set seen = {})"
proof (induction vals arbitrary: seen dups)
  case (Cons v vals)
  have ne: "set_add v ds \<noteq> []" for ds by (auto simp: set_add_def)
  obtain seen1 dups1 where step: "dupStep v (seen, dups) = (seen1, dups1)"
    by (cases "dupStep v (seen, dups)")
  have "set seen1 = insert v (set seen)" "dups1 = [] \<longleftrightarrow> dups = [] \<and> v \<notin> set seen"
    using step ne by (auto simp: dupStep_def split: if_splits)
  with Cons.IH[of seen1 dups1] Cons.prems step show ?case by auto
qed auto

lemma findDuplicates_Nil_iff: "findDuplicates vals = [] \<longleftrightarrow> distinct vals"
  using fold_dupStep[of vals "[]" "[]"]
  by (cases "fold dupStep vals ([], [])") (simp add: findDuplicates_def)

lemma reportDuplicates_Nil_iff: "reportDuplicates f vals = [] \<longleftrightarrow> distinct vals"
  by (simp add: reportDuplicates_def Let_def findDuplicates_Nil_iff)

lemma concat_enumerate_Nil_iff:
  "concat (map (\<lambda>(i, x). if P x then [f i x] else []) (enumerate n xs)) = [] \<longleftrightarrow> (\<forall>x \<in> set xs. \<not> P x)"
  by (induction xs arbitrary: n) auto

lemma validateWorkflow_Nil_iff:
  "validateWorkflow spec = [] \<longleftrightarrow>
     (\<forall>node \<in> set (ws_nodes spec). \<not> mergeFnMissing node) \<and>
     distinct (map node_id_of (ws_nodes spec)) \<and> distinct (map in_name (ws_inputs spec)) \<and>
     distinct (map ctx_key (ws_context spec)) \<and> distinct (map ag_id (inlineAgents spec)) \<and>
     (\<forall>edge \<in> set (ws_edges spec). \<not> edgeContradictsParallel (ws_nodes spec) edge)"
  using concat_enumerate_Nil_iff[of mergeFnMissing "\<lambda>i x. MergeFnRequired i" 0 "ws_nodes spec"]
    concat_enumerate_Nil_iff[of "edgeContradictsParallel (ws_nodes spec)"
      "\<lambda>i edge. EdgeOutsideParallel i (edgeBase (edge_from edge)) (edge_to edge)" 0 "ws_edges spec"]
  by (simp add: validateWorkflow_def reportDuplicates_Nil_iff del: concat_eq_Nil_conv)

section \<open>Template sites\<close>

datatype ReferenceSiteCategory = ContextValue | InputDefault | AgentText | NodeText

record ReferenceSite =
  site_location :: locator
  site_category :: ReferenceSiteCategory
  site_segments :: "TemplateSegment list"
  site_references :: "InterpolationReference list"

definition buildSite :: "locator \<Rightarrow> ReferenceSiteCategory \<Rightarrow> string \<Rightarrow> ReferenceSite option" where
  "buildSite location category tpl =
     (let segments = parseTemplate tpl;
          references = List.map_filter (\<lambda>s. case s of Reference r \<Rightarrow> Some r | Literal _ \<Rightarrow> None) segments
      in if references = [] then None
         else Some \<lparr>site_location = location, site_category = category,
                    site_segments = segments, site_references = references\<rparr>)"

definition addFieldSite :: "locator \<Rightarrow> string option \<Rightarrow> ReferenceSite list" where
  "addFieldSite label value =
     (case value of None \<Rightarrow> [] | Some v \<Rightarrow> (case buildSite label NodeText v of None \<Rightarrow> [] | Some s \<Rightarrow> [s]))"

fun nodeReferenceSites :: "WorkflowNode \<Rightarrow> ReferenceSite list" where
  "nodeReferenceSites (NAgent n) =
     addFieldSite (NodeField (an_id n) ''prompt_template'') (an_prompt_template n)
     @ addFieldSite (NodeField (an_id n) ''system_prompt_append'') (an_system_prompt_append n)"
| "nodeReferenceSites (NHumanGate n) =
     addFieldSite (NodeField (hg_id n) ''assignee'') (hg_assignee n)
     @ addFieldSite (NodeField (hg_id n) ''message_template'') (hg_message_template n)"
| "nodeReferenceSites _ = []"

definition siteList :: "locator \<Rightarrow> ReferenceSiteCategory \<Rightarrow> string \<Rightarrow> ReferenceSite list" where
  "siteList location category tpl =
     (case buildSite location category tpl of None \<Rightarrow> [] | Some s \<Rightarrow> [s])"

definition stringDefault :: "WorkflowInput \<Rightarrow> string option" where
  "stringDefault input = (case in_default input of Some (JStr s) \<Rightarrow> Some s | _ \<Rightarrow> None)"

definition collectReferences :: "WorkflowSpec \<Rightarrow> ReferenceSite list" where
  "collectReferences spec =
     concat (map (\<lambda>entry. siteList (ContextValueField (ctx_key entry)) ContextValue (ctx_value entry))
       (ws_context spec))
     @ concat (map (\<lambda>input. case stringDefault input of
           None \<Rightarrow> []
         | Some s \<Rightarrow> siteList (InputDefaultField (in_name input)) InputDefault s) (ws_inputs spec))
     @ concat (map (\<lambda>ag. siteList (AgentPromptField (Some (ag_id ag))) AgentText (ag_system_prompt ag))
       (inlineAgents spec))
     @ concat (map nodeReferenceSites (ws_nodes spec))"

text \<open>A site carries exactly the references of its text.\<close>

lemma set_siteList:
  "(\<exists>site \<in> set (siteList loc cat tpl). P (site_category site) (site_location site) \<and> r \<in> set (site_references site))
     \<longleftrightarrow> P cat loc \<and> r \<in> set (templateReferences tpl)"
  by (auto simp: siteList_def buildSite_def templateReferences_def Let_def)

section \<open>The run plan\<close>

datatype EngineNodeType =
    EInput | EOutput | ETransform | EAgent | ECondition | EFanOut | EFanIn | EHumanInTheLoop

datatype JoinStrategy = WaitAll | WaitFirst | WaitN

datatype PlanConfig =
    InputConfig node_id
  | OutputConfig node_id "node_id list"
  | TransformConfig TransformNode
  | ConditionConfig ConditionNode
  | HumanGateConfig HumanGateNode
  | FanOutConfig ParallelNode "node_id list"
  | FanInConfig MergeNode JoinStrategy MergeStrategy "node_id list" "string option"
  | AgentConfig AgentNode "Agent option" "FallbackChainEntry list option"

record PlanVertex =
  pv_id :: node_id
  pv_type :: EngineNodeType
  pv_dependencies :: "node_id list"
  pv_dependents :: "node_id list"
  pv_ancestors :: "node_id list"
  pv_inputSites :: "ReferenceSite list"
  pv_config :: PlanConfig

record RunPlan =
  rp_workflowId :: string
  rp_order :: "node_id list"
  rp_vertices :: "(node_id, PlanVertex) jsmap"
  rp_maxParallel :: "nat option"
  rp_budget :: "Budget option"
  rp_timeoutMs :: "nat option"

fun engineType :: "WorkflowNode \<Rightarrow> EngineNodeType" where
  "engineType (NParallel _) = EFanOut"
| "engineType (NMerge _) = EFanIn"
| "engineType (NHumanGate _) = EHumanInTheLoop"
| "engineType (NInput _) = EInput"
| "engineType (NAgent _) = EAgent"
| "engineType (NCondition _) = ECondition"
| "engineType (NTransform _) = ETransform"
| "engineType (NOutput _) = EOutput"

fun producesValue :: "NodeType \<Rightarrow> bool" where
  "producesValue TCondition = False"
| "producesValue TParallel = False"
| "producesValue _ = True"

end
