(* ===== verification/Secret_Taint.thy ===== *)
theory Secret_Taint
  imports Workflow_Model
begin

text \<open>
  The static secret-taint gate (\<open>src/packages/core/src/interpolation/analyze.ts\<close>): which inputs and
  context keys carry a secret, computed with one scan and a worklist, and the findings for the text
  that reaches a model or a human.

  \<open>secret_flow\<close> states what it means that a symbol carries a secret, without a worklist; the gate is
  proved to decide exactly that relation.
\<close>

section \<open>Operations of the source\<close>

record TaintGraph =
  tg_tainted :: "(string, string option) jsmap"
  tg_dependents :: "(string, string list) jsmap"
  tg_queue :: "string list"

definition seedTaint :: "string \<Rightarrow> string option \<Rightarrow> TaintGraph \<Rightarrow> TaintGraph" where
  "seedTaint sy via g =
     (if mget (tg_tainted g) sy = None
      then g\<lparr>tg_tainted := mset_key sy via (tg_tainted g), tg_queue := tg_queue g @ [sy]\<rparr>
      else g)"

definition dependentsOf :: "TaintGraph \<Rightarrow> string \<Rightarrow> string list" where
  "dependentsOf g target = (case mget (tg_dependents g) target of None \<Rightarrow> [] | Some l \<Rightarrow> l)"

definition addTaintEdge :: "string \<Rightarrow> string \<Rightarrow> TaintGraph \<Rightarrow> TaintGraph" where
  "addTaintEdge target reader g =
     g\<lparr>tg_dependents := mset_key target (dependentsOf g target @ [reader]) (tg_dependents g)\<rparr>"

definition inputSymbol :: "string \<Rightarrow> string" where "inputSymbol n = ''inputs.'' @ n"
definition ctxSymbol :: "string \<Rightarrow> string" where "ctxSymbol k = ''ctx.'' @ k"
definition secretSymbol :: "string \<Rightarrow> string" where "secretSymbol n = ''secrets.'' @ n"

definition scanRef :: "string \<Rightarrow> InterpolationReference \<Rightarrow> TaintGraph \<Rightarrow> TaintGraph" where
  "scanRef sy ref g =
     (case ref_kind ref of
        RSecrets \<Rightarrow> seedTaint sy (Some (secretSymbol (ref_identifier ref))) g
      | RInputs \<Rightarrow> addTaintEdge (inputSymbol (ref_identifier ref)) sy g
      | RCtx \<Rightarrow> addTaintEdge (ctxSymbol (ref_identifier ref)) sy g
      | _ \<Rightarrow> g)"

definition scanField :: "string \<Rightarrow> string option \<Rightarrow> TaintGraph \<Rightarrow> TaintGraph" where
  "scanField sy tpl g =
     (case tpl of None \<Rightarrow> g | Some t \<Rightarrow> fold (scanRef sy) (templateReferences t) g)"

text \<open>\<open>propagateTaint\<close>: the queue is popped at its end. \<open>None\<close> is running out of fuel.\<close>

fun propagateTaint :: "nat \<Rightarrow> TaintGraph \<Rightarrow> TaintGraph option" where
  "propagateTaint 0 g = None"
| "propagateTaint (Suc fuel) g =
     (if tg_queue g = [] then Some g
      else let target = last (tg_queue g);
               g' = g\<lparr>tg_queue := butlast (tg_queue g)\<rparr>
           in propagateTaint fuel
                (fold (\<lambda>reader. seedTaint reader (Some target)) (dependentsOf g' target) g'))"

record TaintSets =
  ts_inputs :: "(string, string option) jsmap"
  ts_ctx :: "(string, string option) jsmap"

definition withPrefix :: "string \<Rightarrow> (string, string option) jsmap \<Rightarrow> (string, string option) jsmap" where
  "withPrefix p m = List.map_filter (\<lambda>(sy, via). map_option (\<lambda>n. (n, via)) (stripPrefix p sy)) m"

definition projectTaint :: "(string, string option) jsmap \<Rightarrow> TaintSets" where
  "projectTaint m = \<lparr>ts_inputs = withPrefix ''inputs.'' m, ts_ctx = withPrefix ''ctx.'' m\<rparr>"

definition scanInput :: "WorkflowInput \<Rightarrow> TaintGraph \<Rightarrow> TaintGraph" where
  "scanInput input g =
     scanField (inputSymbol (in_name input)) (stringDefault input)
       (if in_type input = SecretInput then seedTaint (inputSymbol (in_name input)) None g else g)"

definition scanContext :: "ContextEntry \<Rightarrow> TaintGraph \<Rightarrow> TaintGraph" where
  "scanContext entry g = scanField (ctxSymbol (ctx_key entry)) (Some (ctx_value entry)) g"

definition emptyGraph :: TaintGraph where
  "emptyGraph = \<lparr>tg_tainted = [], tg_dependents = [], tg_queue = []\<rparr>"

definition scannedGraph :: "WorkflowSpec \<Rightarrow> TaintGraph" where
  "scannedGraph spec = fold scanContext (ws_context spec) (fold scanInput (ws_inputs spec) emptyGraph)"

text \<open>Fuel: one iteration per queued symbol and per recorded reader, and one for the last test.\<close>

definition taintFuel :: "TaintGraph \<Rightarrow> nat" where
  "taintFuel g = Suc (length (tg_queue g) + length (concat (map snd (tg_dependents g))))"

definition computeTaint :: "WorkflowSpec \<Rightarrow> TaintSets option" where
  "computeTaint spec =
     map_option (\<lambda>g. projectTaint (tg_tainted g))
       (propagateTaint (taintFuel (scannedGraph spec)) (scannedGraph spec))"

definition taintReason :: "InterpolationReference \<Rightarrow> TaintSets \<Rightarrow> string option" where
  "taintReason ref taint =
     (if ref_kind ref = RInputs \<and> mget (ts_inputs taint) (ref_identifier ref) \<noteq> None
      then Some (inputSymbol (ref_identifier ref))
      else if ref_kind ref = RCtx \<and> mget (ts_ctx taint) (ref_identifier ref) \<noteq> None
      then Some (ctxSymbol (ref_identifier ref))
      else if ref_kind ref = RSecrets then Some (secretSymbol (ref_identifier ref))
      else None)"

record SecretLeak =
  leak_location :: locator
  leak_secret :: string
  leak_via :: "string option"

definition viaOf :: "string \<Rightarrow> TaintSets \<Rightarrow> string option" where
  "viaOf secret taint =
     (case stripPrefix ''ctx.'' secret of
        Some k \<Rightarrow> Option.bind (mget (ts_ctx taint) k) (\<lambda>v. v)
      | None \<Rightarrow>
          (case stripPrefix ''inputs.'' secret of
             Some n \<Rightarrow> Option.bind (mget (ts_inputs taint) n) (\<lambda>v. v)
           | None \<Rightarrow> None))"

definition toLeak :: "locator \<Rightarrow> string \<Rightarrow> TaintSets \<Rightarrow> SecretLeak" where
  "toLeak location secret taint =
     \<lparr>leak_location = location, leak_secret = secret, leak_via = viaOf secret taint\<rparr>"

definition refLeaks :: "TaintSets \<Rightarrow> locator \<Rightarrow> InterpolationReference \<Rightarrow> SecretLeak list" where
  "refLeaks taint location ref =
     (case taintReason ref taint of None \<Rightarrow> [] | Some reason \<Rightarrow> [toLeak location reason taint])"

definition siteLeaks :: "TaintSets \<Rightarrow> ReferenceSite \<Rightarrow> SecretLeak list" where
  "siteLeaks taint site =
     (if site_category site = InputDefault then []
      else concat (map (\<lambda>ref.
        if site_category site = ContextValue \<and> ref_kind ref \<noteq> RSecrets then []
        else refLeaks taint (site_location site) ref) (site_references site)))"

definition analyzeSecretTaint :: "WorkflowSpec \<Rightarrow> SecretLeak list option" where
  "analyzeSecretTaint spec =
     map_option (\<lambda>taint. concat (map (siteLeaks taint) (collectReferences spec))) (computeTaint spec)"

definition analyzeResolvedAgentTaint ::
    "WorkflowSpec \<Rightarrow> (locator \<times> string) list \<Rightarrow> SecretLeak list option" where
  "analyzeResolvedAgentTaint spec texts =
     (if texts = [] then Some []
      else map_option (\<lambda>taint. concat (map (\<lambda>(location, tpl).
             concat (map (refLeaks taint location) (templateReferences tpl))) texts)) (computeTaint spec))"

text \<open>\<open>analyzePreRunReferences\<close>: at most one finding per field.\<close>

definition readsNodeOutput :: "string \<Rightarrow> bool" where
  "readsNodeOutput tpl \<longleftrightarrow> (\<exists>ref \<in> set (templateReferences tpl). ref_kind ref = RNode)"

definition analyzePreRunReferences :: "WorkflowSpec \<Rightarrow> locator list" where
  "analyzePreRunReferences spec =
     concat (map (\<lambda>entry. if readsNodeOutput (ctx_value entry) then [ContextValueField (ctx_key entry)] else [])
       (ws_context spec))
     @ concat (map (\<lambda>input. case stringDefault input of
           None \<Rightarrow> []
         | Some s \<Rightarrow> if readsNodeOutput s then [InputDefaultField (in_name input)] else [])
       (ws_inputs spec))"

section \<open>Specification\<close>

text \<open>The pre-run fields: each symbol with the template it is computed from.\<close>

definition preRunFields :: "WorkflowSpec \<Rightarrow> (string \<times> string) set" where
  "preRunFields spec =
     {(inputSymbol (in_name i), t) | i t. i \<in> set (ws_inputs spec) \<and> stringDefault i = Some t} \<union>
     {(ctxSymbol (ctx_key e), ctx_value e) | e. e \<in> set (ws_context spec)}"

text \<open>The symbol a reference reads.\<close>

definition readSymbol :: "InterpolationReference \<Rightarrow> string option" where
  "readSymbol ref =
     (case ref_kind ref of
        RInputs \<Rightarrow> Some (inputSymbol (ref_identifier ref))
      | RCtx \<Rightarrow> Some (ctxSymbol (ref_identifier ref))
      | _ \<Rightarrow> None)"

inductive secret_flow :: "WorkflowSpec \<Rightarrow> string \<Rightarrow> bool" for spec where
  secret_input: "\<lbrakk>i \<in> set (ws_inputs spec); in_type i = SecretInput\<rbrakk> \<Longrightarrow> secret_flow spec (inputSymbol (in_name i))"
| reads_store: "\<lbrakk>(sy, t) \<in> preRunFields spec; r \<in> set (templateReferences t); ref_kind r = RSecrets\<rbrakk>
    \<Longrightarrow> secret_flow spec sy"
| reads_tainted: "\<lbrakk>(sy, t) \<in> preRunFields spec; r \<in> set (templateReferences t); readSymbol r = Some s;
    secret_flow spec s\<rbrakk> \<Longrightarrow> secret_flow spec sy"

inductive_cases secret_flowE: "secret_flow spec sy"

text \<open>A reference that hands a secret to whoever reads the text.\<close>

definition carries_secret :: "WorkflowSpec \<Rightarrow> InterpolationReference \<Rightarrow> bool" where
  "carries_secret spec r \<longleftrightarrow>
     ref_kind r = RSecrets \<or> (\<exists>s. readSymbol r = Some s \<and> secret_flow spec s)"

section \<open>The scan\<close>

abbreviation isTainted :: "TaintGraph \<Rightarrow> string \<Rightarrow> bool" where
  "isTainted g sy \<equiv> mget (tg_tainted g) sy \<noteq> None"

definition seedsOf :: "TaintGraph \<Rightarrow> string set" where "seedsOf g = {s. isTainted g s}"

definition edgesOf :: "TaintGraph \<Rightarrow> (string \<times> string) set" where
  "edgesOf g = {(s, d). d \<in> set (dependentsOf g s)}"

lemma dependentsOf_addTaintEdge [simp]:
  "dependentsOf (addTaintEdge t d g) s = dependentsOf g s @ (if s = t then [d] else [])"
  by (simp add: dependentsOf_def addTaintEdge_def)

lemma dependentsOf_seedTaint [simp]: "dependentsOf (seedTaint sy via g) = dependentsOf g"
  by (rule ext) (simp add: dependentsOf_def seedTaint_def)

lemma seedsOf_seedTaint [simp]: "seedsOf (seedTaint sy via g) = insert sy (seedsOf g)"
  by (auto simp: seedTaint_def seedsOf_def)

lemma seedsOf_addTaintEdge [simp]: "seedsOf (addTaintEdge t d g) = seedsOf g"
  by (simp add: addTaintEdge_def seedsOf_def)

lemma edgesOf_seedTaint [simp]: "edgesOf (seedTaint sy via g) = edgesOf g"
  by (simp add: edgesOf_def)

lemma edgesOf_addTaintEdge [simp]: "edgesOf (addTaintEdge t d g) = insert (t, d) (edgesOf g)"
  by (auto simp: edgesOf_def)

text \<open>What one scan contributes: seeds (symbols) and edges (target, reader).\<close>

definition refSeeds :: "string \<Rightarrow> InterpolationReference \<Rightarrow> string set" where
  "refSeeds sy r = (if ref_kind r = RSecrets then {sy} else {})"

definition refEdges :: "string \<Rightarrow> InterpolationReference \<Rightarrow> (string \<times> string) set" where
  "refEdges sy r = {(s, sy) | s. readSymbol r = Some s}"

lemma scanRef_effect:
  "seedsOf (scanRef sy r g) = refSeeds sy r \<union> seedsOf g \<and> edgesOf (scanRef sy r g) = refEdges sy r \<union> edgesOf g"
  by (cases "ref_kind r")
    (auto simp: scanRef_def refSeeds_def refEdges_def readSymbol_def)

lemma fold_scanRef_effect:
  "seedsOf (fold (scanRef sy) rs g) = (\<Union>r \<in> set rs. refSeeds sy r) \<union> seedsOf g \<and>
   edgesOf (fold (scanRef sy) rs g) = (\<Union>r \<in> set rs. refEdges sy r) \<union> edgesOf g"
  by (induction rs arbitrary: g) (auto simp: scanRef_effect)

lemma scanField_effect:
  "seedsOf (scanField sy tpl g) =
     (\<Union>t \<in> set_option tpl. \<Union>r \<in> set (templateReferences t). refSeeds sy r) \<union> seedsOf g \<and>
   edgesOf (scanField sy tpl g) =
     (\<Union>t \<in> set_option tpl. \<Union>r \<in> set (templateReferences t). refEdges sy r) \<union> edgesOf g"
  by (cases tpl) (auto simp: scanField_def fold_scanRef_effect)

lemma scanInput_effect:
  "seedsOf (scanInput i g) =
     (if in_type i = SecretInput then {inputSymbol (in_name i)} else {}) \<union>
     (\<Union>t \<in> set_option (stringDefault i). \<Union>r \<in> set (templateReferences t). refSeeds (inputSymbol (in_name i)) r)
     \<union> seedsOf g \<and>
   edgesOf (scanInput i g) =
     (\<Union>t \<in> set_option (stringDefault i). \<Union>r \<in> set (templateReferences t). refEdges (inputSymbol (in_name i)) r)
     \<union> edgesOf g"
  by (auto simp: scanInput_def scanField_effect)

lemma scanContext_effect:
  "seedsOf (scanContext c g) =
     (\<Union>r \<in> set (templateReferences (ctx_value c)). refSeeds (ctxSymbol (ctx_key c)) r) \<union> seedsOf g \<and>
   edgesOf (scanContext c g) =
     (\<Union>r \<in> set (templateReferences (ctx_value c)). refEdges (ctxSymbol (ctx_key c)) r) \<union> edgesOf g"
  by (simp add: scanContext_def scanField_effect)

lemma fold_effect:
  assumes "\<And>x g. seedsOf (f x g) = A x \<union> seedsOf g \<and> edgesOf (f x g) = B x \<union> edgesOf g"
  shows "seedsOf (fold f xs g) = (\<Union>x \<in> set xs. A x) \<union> seedsOf g \<and>
         edgesOf (fold f xs g) = (\<Union>x \<in> set xs. B x) \<union> edgesOf g"
  by (induction xs arbitrary: g) (auto simp: assms)

text \<open>The seeds and the edges of the scanned graph, read off the specification.\<close>

definition flow_seeds :: "WorkflowSpec \<Rightarrow> string set" where
  "flow_seeds spec =
     {inputSymbol (in_name i) | i. i \<in> set (ws_inputs spec) \<and> in_type i = SecretInput} \<union>
     {sy. \<exists>t r. (sy, t) \<in> preRunFields spec \<and> r \<in> set (templateReferences t) \<and> ref_kind r = RSecrets}"

definition flow_edges :: "WorkflowSpec \<Rightarrow> (string \<times> string) set" where
  "flow_edges spec =
     {(s, sy). \<exists>t r. (sy, t) \<in> preRunFields spec \<and> r \<in> set (templateReferences t) \<and> readSymbol r = Some s}"

lemma scannedGraph_effect:
  "seedsOf (scannedGraph spec) = flow_seeds spec" "edgesOf (scannedGraph spec) = flow_edges spec"
proof -
  have e: "seedsOf emptyGraph = {}" "edgesOf emptyGraph = {}"
    by (auto simp: seedsOf_def edgesOf_def emptyGraph_def dependentsOf_def)
  note i = fold_effect[of scanInput, OF scanInput_effect]
  note c = fold_effect[of scanContext, OF scanContext_effect]
  show "seedsOf (scannedGraph spec) = flow_seeds spec"
    unfolding scannedGraph_def flow_seeds_def preRunFields_def
    by (auto simp: i c e refSeeds_def split: if_splits; fastforce)
  show "edgesOf (scannedGraph spec) = flow_edges spec"
    unfolding scannedGraph_def flow_edges_def preRunFields_def
    by (auto simp: i c e refEdges_def; fastforce)
qed

lemma secret_flow_iff_reachable: "secret_flow spec sy \<longleftrightarrow> sy \<in> (flow_edges spec)\<^sup>* `` flow_seeds spec"
proof
  assume "secret_flow spec sy"
  then show "sy \<in> (flow_edges spec)\<^sup>* `` flow_seeds spec"
  proof induction
    case (secret_input i)
    then show ?case by (auto simp: flow_seeds_def)
  next
    case (reads_store sy t r)
    then show ?case by (auto simp: flow_seeds_def)
  next
    case (reads_tainted sy t r s)
    then have "(s, sy) \<in> flow_edges spec" by (auto simp: flow_edges_def)
    with reads_tainted.IH show ?case by (auto intro: rtrancl_into_rtrancl)
  qed
next
  assume "sy \<in> (flow_edges spec)\<^sup>* `` flow_seeds spec"
  then obtain s0 where "s0 \<in> flow_seeds spec" "(s0, sy) \<in> (flow_edges spec)\<^sup>*" by auto
  from this(2,1) show "secret_flow spec sy"
  proof (induction rule: rtrancl_induct)
    case base
    then show ?case by (auto simp: flow_seeds_def intro: secret_flow.intros)
  next
    case (step y z)
    then show ?case by (auto simp: flow_edges_def intro: secret_flow.intros)
  qed
qed

section \<open>The worklist\<close>

lemma fold_seedTaint:
  "seedsOf (fold (\<lambda>d. seedTaint d via) ds g) = set ds \<union> seedsOf g \<and>
   dependentsOf (fold (\<lambda>d. seedTaint d via) ds g) = dependentsOf g \<and>
   set (tg_queue (fold (\<lambda>d. seedTaint d via) ds g)) = set (tg_queue g) \<union> (set ds - seedsOf g) \<and>
   length (tg_queue (fold (\<lambda>d. seedTaint d via) ds g)) = length (tg_queue g) + card (set ds - seedsOf g)"
proof (induction ds arbitrary: g)
  case Nil
  then show ?case by simp
next
  case (Cons d ds)
  let ?g = "seedTaint d via g"
  have s: "seedsOf ?g = insert d (seedsOf g)" by simp
  have q: "tg_queue ?g = (if d \<in> seedsOf g then tg_queue g else tg_queue g @ [d])"
    by (simp add: seedTaint_def seedsOf_def)
  have "card (set (d # ds) - seedsOf g) = card (set ds - seedsOf ?g) + (if d \<in> seedsOf g then 0 else 1)"
  proof (cases "d \<in> seedsOf g")
    case True
    then show ?thesis by (simp add: s insert_absorb insert_Diff_if)
  next
    case False
    then have "set (d # ds) - seedsOf g = insert d (set ds - seedsOf ?g)" by (auto simp: s)
    with False show ?thesis by (simp add: s)
  qed
  with Cons.IH[of ?g] s q show ?case by auto
qed

definition taint_inv :: "string set \<Rightarrow> (string \<times> string) set \<Rightarrow> TaintGraph \<Rightarrow> bool" where
  "taint_inv S E g \<longleftrightarrow>
     edgesOf g = E \<and> S \<subseteq> seedsOf g \<and> seedsOf g \<subseteq> E\<^sup>* `` S \<and> set (tg_queue g) \<subseteq> seedsOf g \<and>
     (\<forall>(t, d) \<in> E. t \<in> seedsOf g \<and> t \<notin> set (tg_queue g) \<longrightarrow> d \<in> seedsOf g)"

lemma taint_inv_step:
  assumes inv: "taint_inv S E g" and ne: "tg_queue g \<noteq> []"
  defines "target \<equiv> last (tg_queue g)"
  defines "g1 \<equiv> g\<lparr>tg_queue := butlast (tg_queue g)\<rparr>"
  shows "taint_inv S E (fold (\<lambda>d. seedTaint d (Some target)) (dependentsOf g1 target) g1)"
proof -
  let ?g2 = "fold (\<lambda>d. seedTaint d (Some target)) (dependentsOf g1 target) g1"
  have g1: "seedsOf g1 = seedsOf g" "dependentsOf g1 = dependentsOf g"
    by (auto simp: g1_def seedsOf_def dependentsOf_def)
  note f = fold_seedTaint[of "Some target" "dependentsOf g1 target" g1]
  have q: "tg_queue g = butlast (tg_queue g) @ [target]" using ne by (simp add: target_def)
  have tq: "set (tg_queue g) = insert target (set (tg_queue g1))"
    by (subst q) (auto simp: g1_def)
  have target: "target \<in> seedsOf g" using inv tq by (auto simp: taint_inv_def)
  have deps: "d \<in> set (dependentsOf g1 target) \<longleftrightarrow> (target, d) \<in> E" for d
    using inv g1 by (auto simp: taint_inv_def edgesOf_def)
  have "edgesOf ?g2 = E" using f g1 inv by (auto simp: taint_inv_def edgesOf_def)
  moreover have "seedsOf ?g2 \<subseteq> E\<^sup>* `` S"
  proof -
    have "d \<in> E\<^sup>* `` S" if "(target, d) \<in> E" for d
    proof -
      have "target \<in> E\<^sup>* `` S" using target inv by (auto simp: taint_inv_def)
      with that show ?thesis by (auto intro: rtrancl_into_rtrancl)
    qed
    then show ?thesis using f g1 inv deps by (auto simp: taint_inv_def)
  qed
  moreover have "d \<in> seedsOf ?g2" if "(t, d) \<in> E" "t \<in> seedsOf ?g2" "t \<notin> set (tg_queue ?g2)" for t d
  proof (cases "t = target")
    case True
    then show ?thesis using that deps f by auto
  next
    case False
    then have "t \<in> seedsOf g" "t \<notin> set (tg_queue g)" using that f g1 tq by auto
    then show ?thesis using that inv f g1 by (auto simp: taint_inv_def)
  qed
  ultimately show ?thesis using f g1 inv tq by (auto simp: taint_inv_def)
qed

definition pendingReaders :: "TaintGraph \<Rightarrow> string set" where
  "pendingReaders g = Range (edgesOf g) - seedsOf g"

lemma propagateTaint_complete:
  assumes "taint_inv S E g" and "finite (Range E)"
    and "length (tg_queue g) + card (pendingReaders g) < fuel"
  shows "\<exists>g'. propagateTaint fuel g = Some g' \<and> seedsOf g' = E\<^sup>* `` S"
  using assms(1,3)
proof (induction fuel arbitrary: g)
  case (Suc fuel)
  show ?case
  proof (cases "tg_queue g = []")
    case True
    have "sy \<in> seedsOf g" if "(s, sy) \<in> E\<^sup>*" "s \<in> S" for s sy
      using that by induction (use Suc.prems True in \<open>auto simp: taint_inv_def\<close>)
    then have "E\<^sup>* `` S \<subseteq> seedsOf g" by auto
    with Suc.prems True show ?thesis by (auto simp: taint_inv_def)
  next
    case False
    let ?t = "last (tg_queue g)" and ?g1 = "g\<lparr>tg_queue := butlast (tg_queue g)\<rparr>"
    let ?ds = "dependentsOf ?g1 ?t"
    let ?g2 = "fold (\<lambda>d. seedTaint d (Some ?t)) ?ds ?g1"
    have inv: "taint_inv S E ?g2" using taint_inv_step[OF Suc.prems(1) False] .
    have g1: "seedsOf ?g1 = seedsOf g" "edgesOf ?g1 = edgesOf g" "dependentsOf ?g1 = dependentsOf g"
      by (auto simp: seedsOf_def edgesOf_def dependentsOf_def)
    note f = fold_seedTaint[of "Some ?t" ?ds ?g1]
    have E: "edgesOf g = E" "edgesOf ?g2 = E" using Suc.prems inv by (auto simp: taint_inv_def)
    have "set ?ds \<subseteq> Range E" using E g1 by (auto simp: edgesOf_def)
    then have "pendingReaders g = pendingReaders ?g2 \<union> (set ?ds - seedsOf g)"
      "pendingReaders ?g2 \<inter> (set ?ds - seedsOf g) = {}"
      using f g1 E by (auto simp: pendingReaders_def)
    then have "card (pendingReaders g) = card (pendingReaders ?g2) + card (set ?ds - seedsOf g)"
      using assms(2) E by (simp add: card_Un_disjoint pendingReaders_def)
    moreover have "length (tg_queue g) = Suc (length (butlast (tg_queue g)))"
      using False by (cases "tg_queue g" rule: rev_cases) auto
    moreover have "length (tg_queue ?g2) = length (butlast (tg_queue g)) + card (set ?ds - seedsOf g)"
      using f g1 by simp
    ultimately have "length (tg_queue ?g2) + card (pendingReaders ?g2) < fuel"
      using Suc.prems(2) by linarith
    from Suc.IH[OF inv this] show ?thesis using False by (simp add: Let_def)
  qed
qed simp

lemma queue_seeds_scan:
  assumes "\<And>x g. set (tg_queue g) = seedsOf g \<Longrightarrow> set (tg_queue (f x g)) = seedsOf (f x g)"
    and "set (tg_queue g) = seedsOf g"
  shows "set (tg_queue (fold f xs g)) = seedsOf (fold f xs g)"
  using assms(2) by (induction xs arbitrary: g) (auto simp: assms(1))

lemma queue_seeds_seedTaint:
  "set (tg_queue g) = seedsOf g \<Longrightarrow> set (tg_queue (seedTaint s v g)) = seedsOf (seedTaint s v g)"
  unfolding seedTaint_def seedsOf_def by (auto split: if_splits)

lemma queue_addTaintEdge: "tg_queue (addTaintEdge t d g) = tg_queue g"
  by (simp add: addTaintEdge_def)

lemma queue_seeds_scanRef:
  "set (tg_queue g) = seedsOf g \<Longrightarrow> set (tg_queue (scanRef sy r g)) = seedsOf (scanRef sy r g)"
  using queue_seeds_seedTaint[of g sy] by (cases "ref_kind r") (simp_all add: scanRef_def queue_addTaintEdge)

lemma queue_seeds_scanField:
  "set (tg_queue g) = seedsOf g \<Longrightarrow> set (tg_queue (scanField sy tpl g)) = seedsOf (scanField sy tpl g)"
  by (cases tpl) (auto simp: scanField_def queue_seeds_scan[OF queue_seeds_scanRef])

lemma queue_seeds_scannedGraph: "set (tg_queue (scannedGraph spec)) = seedsOf (scannedGraph spec)"
  unfolding scannedGraph_def
  by (intro queue_seeds_scan)
    (auto simp: scanContext_def scanInput_def queue_seeds_scanField queue_seeds_seedTaint,
     auto simp: emptyGraph_def seedsOf_def)

lemma Range_edgesOf: "Range (edgesOf g) \<subseteq> set (concat (map snd (tg_dependents g)))"
proof
  fix d assume "d \<in> Range (edgesOf g)"
  then obtain s l where "mget (tg_dependents g) s = Some l" "d \<in> set l"
    unfolding edgesOf_def dependentsOf_def by (force split: option.splits)
  then show "d \<in> set (concat (map snd (tg_dependents g)))"
    using mget_in_set[of "tg_dependents g" s l] by (auto intro: rev_bexI)
qed

lemma propagateTaint_scanned:
  "\<exists>g. propagateTaint (taintFuel (scannedGraph spec)) (scannedGraph spec) = Some g \<and>
       (\<forall>sy. isTainted g sy \<longleftrightarrow> secret_flow spec sy)"
proof -
  let ?g = "scannedGraph spec"
  have fin: "finite (Range (flow_edges spec))"
    using Range_edgesOf[of ?g] by (metis finite_set finite_subset scannedGraph_effect(2))
  have "card (pendingReaders ?g) \<le> length (concat (map snd (tg_dependents ?g)))"
    using Range_edgesOf[of ?g] unfolding pendingReaders_def
    by (meson Diff_subset card_length card_mono finite_set order_trans subset_trans)
  then have "length (tg_queue ?g) + card (pendingReaders ?g) < taintFuel ?g" by (simp add: taintFuel_def)
  moreover have "taint_inv (flow_seeds spec) (flow_edges spec) ?g"
    using scannedGraph_effect[of spec] queue_seeds_scannedGraph[of spec]
    by (auto simp: taint_inv_def)
  ultimately obtain g where "propagateTaint (taintFuel ?g) ?g = Some g"
    "seedsOf g = (flow_edges spec)\<^sup>* `` flow_seeds spec"
    using propagateTaint_complete[OF _ fin] by blast
  then show ?thesis using secret_flow_iff_reachable by (auto simp: seedsOf_def)
qed

section \<open>The gate decides secret flow\<close>

lemma stripPrefix_iff: "stripPrefix p s = Some n \<longleftrightarrow> s = p @ n"
  by (induction p s rule: stripPrefix.induct) auto

lemma keys_withPrefix: "fst ` set (withPrefix p m) = {n. p @ n \<in> fst ` set m}"
proof (intro set_eqI iffI)
  fix n assume "n \<in> fst ` set (withPrefix p m)"
  then show "n \<in> {n. p @ n \<in> fst ` set m}"
    unfolding withPrefix_def by (force simp: set_map_filter_iff stripPrefix_iff)
next
  fix n assume "n \<in> {n. p @ n \<in> fst ` set m}"
  then obtain via where "(p @ n, via) \<in> set m" by auto
  moreover have "stripPrefix p (p @ n) = Some n" by (simp add: stripPrefix_iff)
  ultimately have "(n, via) \<in> set (withPrefix p m)"
    unfolding withPrefix_def set_map_filter_iff by (intro bexI[of _ "(p @ n, via)"]) auto
  then show "n \<in> fst ` set (withPrefix p m)" by (metis fst_conv image_eqI)
qed

lemma computeTaint_exact:
  "\<exists>taint. computeTaint spec = Some taint \<and>
     (\<forall>n. mget (ts_inputs taint) n \<noteq> None \<longleftrightarrow> secret_flow spec (inputSymbol n)) \<and>
     (\<forall>k. mget (ts_ctx taint) k \<noteq> None \<longleftrightarrow> secret_flow spec (ctxSymbol k))"
proof -
  obtain g where g: "propagateTaint (taintFuel (scannedGraph spec)) (scannedGraph spec) = Some g"
    "\<And>sy. isTainted g sy \<longleftrightarrow> secret_flow spec sy" using propagateTaint_scanned by blast
  have "mget (withPrefix p (tg_tainted g)) n \<noteq> None \<longleftrightarrow> secret_flow spec (p @ n)" for p n
    using g(2)[of "p @ n"] by (simp only: mget_None_iff keys_withPrefix mem_Collect_eq not_not)
  then show ?thesis using g(1)
    by (simp add: computeTaint_def projectTaint_def inputSymbol_def ctxSymbol_def)
qed

lemma taintReason_iff_carries_secret:
  assumes "\<forall>n. mget (ts_inputs taint) n \<noteq> None \<longleftrightarrow> secret_flow spec (inputSymbol n)"
    and "\<forall>k. mget (ts_ctx taint) k \<noteq> None \<longleftrightarrow> secret_flow spec (ctxSymbol k)"
  shows "refLeaks taint loc r = [] \<longleftrightarrow> \<not> carries_secret spec r"
proof -
  have "taintReason r taint = None \<longleftrightarrow> \<not> carries_secret spec r"
    using assms unfolding taintReason_def carries_secret_def readSymbol_def
    by (cases "ref_kind r") simp_all
  then show ?thesis by (cases "taintReason r taint") (simp_all add: refLeaks_def)
qed

lemma siteLeaks_siteList:
  "(\<forall>site \<in> set (siteList loc cat tpl). siteLeaks taint site = []) \<longleftrightarrow>
     cat = InputDefault \<or>
     (\<forall>r \<in> set (templateReferences tpl). cat = ContextValue \<and> ref_kind r \<noteq> RSecrets \<or> refLeaks taint loc r = [])"
  by (auto simp: siteList_def buildSite_def siteLeaks_def templateReferences_def Let_def split: if_splits)

lemma nodeReferenceSites_category: "site \<in> set (nodeReferenceSites node) \<Longrightarrow> site_category site = NodeText"
  by (cases node) (auto simp: addFieldSite_def buildSite_def Let_def split: option.splits if_splits)

text \<open>What the text fields of a node reference.\<close>

definition nodeTextRefs :: "WorkflowNode \<Rightarrow> InterpolationReference set" where
  "nodeTextRefs node = (\<Union>site \<in> set (nodeReferenceSites node). set (site_references site))"

definition text_refs :: "WorkflowSpec \<Rightarrow> InterpolationReference set" where
  "text_refs spec =
     (\<Union>ag \<in> set (inlineAgents spec). set (templateReferences (ag_system_prompt ag))) \<union>
     (\<Union>node \<in> set (ws_nodes spec). nodeTextRefs node)"

lemma analyzeSecretTaint_clean_iff:
  "analyzeSecretTaint spec = Some [] \<longleftrightarrow>
     (\<forall>r \<in> text_refs spec. \<not> carries_secret spec r) \<and>
     (\<forall>entry \<in> set (ws_context spec). \<forall>r \<in> set (templateReferences (ctx_value entry)). ref_kind r \<noteq> RSecrets)"
proof -
  obtain taint where t: "computeTaint spec = Some taint"
    "\<forall>n. mget (ts_inputs taint) n \<noteq> None \<longleftrightarrow> secret_flow spec (inputSymbol n)"
    "\<forall>k. mget (ts_ctx taint) k \<noteq> None \<longleftrightarrow> secret_flow spec (ctxSymbol k)"
    using computeTaint_exact by blast
  note leak = taintReason_iff_carries_secret[OF t(2,3)]
  have secrets: "ref_kind r = RSecrets \<Longrightarrow> carries_secret spec r" for r by (simp add: carries_secret_def)
  have ctx: "(\<forall>site \<in> set (siteList (ContextValueField k) ContextValue v). siteLeaks taint site = []) \<longleftrightarrow>
      (\<forall>r \<in> set (templateReferences v). ref_kind r \<noteq> RSecrets)" for k v
    using siteLeaks_siteList[of "ContextValueField k" ContextValue v taint] leak secrets by auto
  have inp: "\<forall>site \<in> set (siteList (InputDefaultField k) InputDefault v). siteLeaks taint site = []" for k v
    using siteLeaks_siteList[of "InputDefaultField k" InputDefault v taint] by blast
  have agent: "(\<forall>site \<in> set (siteList (AgentPromptField k) AgentText v). siteLeaks taint site = []) \<longleftrightarrow>
      (\<forall>r \<in> set (templateReferences v). \<not> carries_secret spec r)" for k v
    using siteLeaks_siteList[of "AgentPromptField k" AgentText v taint] leak by auto
  have node: "(\<forall>site \<in> set (nodeReferenceSites n). siteLeaks taint site = []) \<longleftrightarrow>
      (\<forall>r \<in> nodeTextRefs n. \<not> carries_secret spec r)" for n
    using nodeReferenceSites_category[of _ n] leak by (auto simp: siteLeaks_def nodeTextRefs_def)
  have "analyzeSecretTaint spec = Some [] \<longleftrightarrow>
      (\<forall>site \<in> set (collectReferences spec). siteLeaks taint site = [])"
    by (simp add: analyzeSecretTaint_def t(1))
  also have "\<dots> \<longleftrightarrow>
      (\<forall>e \<in> set (ws_context spec). \<forall>site \<in> set (siteList (ContextValueField (ctx_key e)) ContextValue (ctx_value e)).
         siteLeaks taint site = []) \<and>
      (\<forall>ag \<in> set (inlineAgents spec). \<forall>site \<in> set (siteList (AgentPromptField (Some (ag_id ag))) AgentText (ag_system_prompt ag)).
         siteLeaks taint site = []) \<and>
      (\<forall>n \<in> set (ws_nodes spec). \<forall>site \<in> set (nodeReferenceSites n). siteLeaks taint site = [])"
    using inp by (auto simp: collectReferences_def ball_Un split: option.splits)
  finally show ?thesis by (auto simp: ctx agent node text_refs_def)
qed

lemma analyzeResolvedAgentTaint_clean_iff:
  "analyzeResolvedAgentTaint spec texts = Some [] \<longleftrightarrow>
     (\<forall>(loc, tpl) \<in> set texts. \<forall>r \<in> set (templateReferences tpl). \<not> carries_secret spec r)"
proof -
  obtain taint where t: "computeTaint spec = Some taint"
    "\<forall>n. mget (ts_inputs taint) n \<noteq> None \<longleftrightarrow> secret_flow spec (inputSymbol n)"
    "\<forall>k. mget (ts_ctx taint) k \<noteq> None \<longleftrightarrow> secret_flow spec (ctxSymbol k)"
    using computeTaint_exact by blast
  show ?thesis
    by (auto simp: analyzeResolvedAgentTaint_def t(1) taintReason_iff_carries_secret[OF t(2,3)])
qed

end
