(* ===== verification/Admission_Limits.thy ===== *)
theory Admission_Limits
  imports Workflow_Model
begin

text \<open>
  The absolute admission ceilings (\<open>src/packages/core/src/limits.ts\<close>): the constants, the agent-scoped
  and the workflow-scoped validators. The collectors of the source append to a shared issue list; the
  model returns the list they append.
\<close>

section \<open>The constants\<close>

definition ceil_nodes :: nat where "ceil_nodes = 500"
definition ceil_edges :: nat where "ceil_edges = 2000"
definition ceil_fanOut :: nat where "ceil_fanOut = 50"
definition ceil_fallbackChainEntries :: nat where "ceil_fallbackChainEntries = 5"
definition ceil_retryMax :: nat where "ceil_retryMax = 10"
definition ceil_chainEntryMaxAttempts :: nat where "ceil_chainEntryMaxAttempts = 10"
definition ceil_maxParallel :: nat where "ceil_maxParallel = 64"
definition ceil_nodeDispatchesPerRun :: nat where "ceil_nodeDispatchesPerRun = 500"
definition DEFAULT_MAX_PARALLEL :: nat where "DEFAULT_MAX_PARALLEL = 8"

lemmas ceiling_defs = ceil_nodes_def ceil_edges_def ceil_fanOut_def ceil_fallbackChainEntries_def
  ceil_retryMax_def ceil_chainEntryMaxAttempts_def ceil_maxParallel_def ceil_nodeDispatchesPerRun_def

section \<open>Operations of the source\<close>

definition ceilingIssue :: "locator \<Rightarrow> nat \<Rightarrow> nat \<Rightarrow> string \<Rightarrow> GraphIssue" where
  "ceilingIssue field actual bound what =
     \<lparr>gi_field = field, gi_message = CeilingMessage what actual bound, gi_kind = ceiling_exceeded\<rparr>"

type_synonym agents = "(string, Agent) jsmap"

definition nodeRefIds :: "InterpolationReference list \<Rightarrow> string list" where
  "nodeRefIds refs = map ref_identifier (filter (\<lambda>r. ref_kind r = RNode) refs)"

definition agentPromptTargets :: "WorkflowNode \<Rightarrow> agents \<Rightarrow> node_id list \<Rightarrow> node_id list" where
  "agentPromptTargets node agentsById nodeIds =
     (case node of
        NAgent n \<Rightarrow>
          (case mget agentsById (an_agent_ref n) of
             None \<Rightarrow> []
           | Some agent \<Rightarrow>
               filter (\<lambda>p. p \<in> set nodeIds) (nodeRefIds (templateReferences (ag_system_prompt agent))))
      | _ \<Rightarrow> [])"

definition dataEdgeTargets :: "WorkflowNode \<Rightarrow> node_id list \<Rightarrow> node_id list" where
  "dataEdgeTargets node nodeIds =
     concat (map (\<lambda>site. filter (\<lambda>p. p \<in> set nodeIds) (nodeRefIds (site_references site)))
       (nodeReferenceSites node))"

definition collectAgentCeilingIssues :: "Agent \<Rightarrow> string option \<Rightarrow> GraphIssue list" where
  "collectAgentCeilingIssues agent at_agent =
     (case ag_retry agent of
        Some r \<Rightarrow> if ceil_retryMax < retry_max r
                  then [ceilingIssue (AgentCeilingField at_agent ''retry.max'') (retry_max r) ceil_retryMax
                          ''the node-retry budget''] else []
      | None \<Rightarrow> [])
     @ (case ag_fallback_chain agent of
          None \<Rightarrow> []
        | Some chain \<Rightarrow>
            (if ceil_fallbackChainEntries < length chain
             then [ceilingIssue (AgentCeilingField at_agent ''fallback_chain'') (length chain)
                     ceil_fallbackChainEntries ''the fallback chain length''] else [])
            @ concat (map (\<lambda>(i, entry).
                if ceil_chainEntryMaxAttempts < fc_max_attempts entry
                then [ceilingIssue (AgentChainEntryField at_agent i) (fc_max_attempts entry)
                        ceil_chainEntryMaxAttempts ''the chain entry's attempt budget''] else [])
              (enumerate 0 chain)))"

definition materialisedEdges :: "agents \<Rightarrow> node_id list \<Rightarrow> WorkflowNode \<Rightarrow> nat" where
  "materialisedEdges agentsById nodeIds node =
     (let data = length (dataEdgeTargets node nodeIds) + length (agentPromptTargets node agentsById nodeIds)
      in case node of
           NParallel p \<Rightarrow> length (pn_parallel_of p) + data
         | NCondition c \<Rightarrow> length (cn_branches c) + (if cn_default c = None then 0 else 1) + data
         | _ \<Rightarrow> data)"

definition countMaterialisedEdges :: "WorkflowSpec \<Rightarrow> agents \<Rightarrow> node_id list \<Rightarrow> nat" where
  "countMaterialisedEdges spec agentsById nodeIds =
     foldl (\<lambda>sum node. sum + materialisedEdges agentsById nodeIds node) 0 (ws_nodes spec)"

type_synonym out_targets = "(node_id, node_id list) jsmap"

definition targetsOf :: "out_targets \<Rightarrow> node_id \<Rightarrow> node_id list" where
  "targetsOf m producer = (case mget m producer of None \<Rightarrow> [] | Some s \<Rightarrow> s)"

definition addTarget :: "node_id \<times> node_id \<Rightarrow> out_targets \<Rightarrow> out_targets" where
  "addTarget = (\<lambda>(producer, target) m. mset_key producer (set_add target (targetsOf m producer)) m)"

text \<open>The (producer, target) pairs of one node, in the order the loop adds them.\<close>

definition nodeTargets :: "agents \<Rightarrow> node_id list \<Rightarrow> WorkflowNode \<Rightarrow> (node_id \<times> node_id) list" where
  "nodeTargets agentsById nodeIds node =
     (case node of NParallel p \<Rightarrow> map (\<lambda>member. (pn_id p, member)) (pn_parallel_of p) | _ \<Rightarrow> [])
     @ map (\<lambda>producer. (producer, node_id_of node)) (dataEdgeTargets node nodeIds)
     @ map (\<lambda>producer. (producer, node_id_of node)) (agentPromptTargets node agentsById nodeIds)"

definition buildOutTargets :: "WorkflowSpec \<Rightarrow> agents \<Rightarrow> node_id list \<Rightarrow> out_targets" where
  "buildOutTargets spec agentsById nodeIds =
     fold addTarget (map (\<lambda>edge. (edgeBase (edge_from edge), edge_to edge)) (ws_edges spec))
       (fold (\<lambda>node m. fold addTarget (nodeTargets agentsById nodeIds node) m) (ws_nodes spec) [])"

definition nodeRetryIssues :: "WorkflowNode \<Rightarrow> GraphIssue list" where
  "nodeRetryIssues node =
     (case node_retry node of
        Some r \<Rightarrow> if ceil_retryMax < retry_max r
                  then [ceilingIssue (NodeField (node_id_of node) ''retry.max'') (retry_max r) ceil_retryMax
                          ''the node-retry budget''] else []
      | None \<Rightarrow> [])"

definition totalEdges :: "WorkflowSpec \<Rightarrow> agents \<Rightarrow> nat" where
  "totalEdges spec agentsById =
     length (ws_edges spec) + countMaterialisedEdges spec agentsById (map node_id_of (ws_nodes spec))"

definition collectWorkflowCeilingIssues :: "WorkflowSpec \<Rightarrow> agents \<Rightarrow> GraphIssue list" where
  "collectWorkflowCeilingIssues spec agentsById =
     (let nodeIds = map node_id_of (ws_nodes spec)
      in (if ceil_nodes < length (ws_nodes spec)
          then [ceilingIssue (WorkflowField ''nodes'') (length (ws_nodes spec)) ceil_nodes ''the node count'']
          else [])
         @ (if ceil_edges < totalEdges spec agentsById
            then [ceilingIssue (WorkflowField ''edges'') (totalEdges spec agentsById) ceil_edges
                    ''the edge count'']
            else [])
         @ concat (map (\<lambda>(nodeId, targets).
             if ceil_fanOut < length targets
             then [ceilingIssue (NodeOutDegree nodeId) (length targets) ceil_fanOut
                     ''the node's fan-out width'']
             else []) (sort_key fst (buildOutTargets spec agentsById nodeIds)))
         @ concat (map nodeRetryIssues (ws_nodes spec))
         @ (case ws_max_parallel spec of
              Some m \<Rightarrow> if ceil_maxParallel < m
                        then [ceilingIssue (WorkflowField ''max_parallel'') m ceil_maxParallel
                                ''the concurrency cap''] else []
            | None \<Rightarrow> []))"

section \<open>Out-targets are the sets of distinct targets\<close>

lemma targetsOf_addTarget:
  "targetsOf (addTarget (p, t) m) q = (if q = p then set_add t (targetsOf m q) else targetsOf m q)"
  by (simp add: addTarget_def targetsOf_def)

definition targets_invar :: "out_targets \<Rightarrow> bool" where
  "targets_invar m \<longleftrightarrow> map_invar m \<and> (\<forall>(p, ts) \<in> set m. distinct ts)"

lemma set_mset_key: "set (mset_key k v m) \<subseteq> insert (k, v) (set m)"
  by (induction m) (auto split: if_splits)

lemma targets_invar_addTarget: "targets_invar m \<Longrightarrow> targets_invar (addTarget e m)"
proof (cases e)
  case (Pair p t)
  assume inv: "targets_invar m"
  then have "distinct (targetsOf m p)"
    by (auto simp: targets_invar_def targetsOf_def split: option.split dest: mget_in_set)
  with inv set_mset_key[of p "set_add t (targetsOf m p)" m] show ?thesis
    by (auto simp: Pair targets_invar_def addTarget_def)
qed

lemma fold_addTarget:
  "targets_invar m \<Longrightarrow> targets_invar (fold addTarget es m) \<and>
     set (targetsOf (fold addTarget es m) q) = {t. (q, t) \<in> set es} \<union> set (targetsOf m q)"
proof (induction es arbitrary: m)
  case (Cons e es)
  obtain p t where e: "e = (p, t)" by (cases e)
  from Cons.IH[OF targets_invar_addTarget[OF Cons.prems, of e]] show ?case
    by (auto simp: e targetsOf_addTarget)
qed simp

text \<open>The targets of a producer, read off the document.\<close>

definition documentTargets :: "WorkflowSpec \<Rightarrow> agents \<Rightarrow> node_id \<Rightarrow> node_id set" where
  "documentTargets spec agentsById producer =
     {edge_to e | e. e \<in> set (ws_edges spec) \<and> edgeBase (edge_from e) = producer} \<union>
     (\<Union>node \<in> set (ws_nodes spec).
        {t. (producer, t) \<in> set (nodeTargets agentsById (map node_id_of (ws_nodes spec)) node)})"

lemma fold_nodeTargets:
  "targets_invar m \<Longrightarrow>
     targets_invar (fold (\<lambda>node. fold addTarget (nodeTargets ags nids node)) nodes m) \<and>
     set (targetsOf (fold (\<lambda>node. fold addTarget (nodeTargets ags nids node)) nodes m) q) =
       (\<Union>node \<in> set nodes. {t. (q, t) \<in> set (nodeTargets ags nids node)}) \<union> set (targetsOf m q)"
proof (induction nodes arbitrary: m)
  case (Cons node nodes)
  note f = fold_addTarget[OF Cons.prems, of "nodeTargets ags nids node"]
  from Cons.IH[of "fold addTarget (nodeTargets ags nids node) m"] f show ?case by auto
qed simp

lemma buildOutTargets_spec:
  "targets_invar (buildOutTargets spec ags (map node_id_of (ws_nodes spec)))"
  "set (targetsOf (buildOutTargets spec ags (map node_id_of (ws_nodes spec))) q) = documentTargets spec ags q"
proof -
  let ?nids = "map node_id_of (ws_nodes spec)"
  let ?m = "fold (\<lambda>node. fold addTarget (nodeTargets ags ?nids node)) (ws_nodes spec) []"
  let ?es = "map (\<lambda>edge. (edgeBase (edge_from edge), edge_to edge)) (ws_edges spec)"
  have "targets_invar ([] :: out_targets)" by (simp add: targets_invar_def)
  note n = fold_nodeTargets[OF this, of ags ?nids "ws_nodes spec"]
  then have inv: "targets_invar ?m" by blast
  note e = fold_addTarget[OF inv, of ?es]
  show "targets_invar (buildOutTargets spec ags ?nids)" using e by (simp add: buildOutTargets_def)
  have "set (targetsOf ?m q) = (\<Union>node \<in> set (ws_nodes spec). {t. (q, t) \<in> set (nodeTargets ags ?nids node)})"
    using n by (simp add: targetsOf_def)
  moreover have "{t. (q, t) \<in> set ?es} = {edge_to e | e. e \<in> set (ws_edges spec) \<and> edgeBase (edge_from e) = q}"
    by auto
  ultimately show "set (targetsOf (buildOutTargets spec ags ?nids) q) = documentTargets spec ags q"
    using e by (simp add: buildOutTargets_def documentTargets_def)
qed

lemma fanOut_issues_Nil_iff:
  assumes "targets_invar m"
  shows "(\<forall>(p, ts) \<in> set m. length ts \<le> n) \<longleftrightarrow> (\<forall>q. card (set (targetsOf m q)) \<le> n)"
proof
  assume l: "\<forall>(p, ts) \<in> set m. length ts \<le> n"
  show "\<forall>q. card (set (targetsOf m q)) \<le> n"
  proof
    fix q
    show "card (set (targetsOf m q)) \<le> n"
    proof (cases "mget m q")
      case (Some ts)
      then have "length ts \<le> n" using l mget_in_set by fastforce
      then show ?thesis using Some card_length[of ts] by (simp add: targetsOf_def)
    qed (simp add: targetsOf_def)
  qed
next
  assume c: "\<forall>q. card (set (targetsOf m q)) \<le> n"
  show "\<forall>(p, ts) \<in> set m. length ts \<le> n"
  proof clarify
    fix p ts assume "(p, ts) \<in> set m"
    then have "mget m p = Some ts" "distinct ts" using assms by (auto simp: targets_invar_def in_set_mget)
    then show "length ts \<le> n" using c[rule_format, of p] by (simp add: targetsOf_def distinct_card)
  qed
qed

section \<open>The validators reject exactly the documents over a ceiling\<close>

lemma agentCeilings_Nil_iff:
  "collectAgentCeilingIssues agent w = [] \<longleftrightarrow>
     (\<forall>r. ag_retry agent = Some r \<longrightarrow> retry_max r \<le> ceil_retryMax) \<and>
     (\<forall>chain. ag_fallback_chain agent = Some chain \<longrightarrow>
        length chain \<le> ceil_fallbackChainEntries \<and>
        (\<forall>entry \<in> set chain. fc_max_attempts entry \<le> ceil_chainEntryMaxAttempts))"
proof -
  have chain: "concat (map (\<lambda>(i, entry). if ceil_chainEntryMaxAttempts < fc_max_attempts entry
      then [ceilingIssue (AgentChainEntryField w i) (fc_max_attempts entry) ceil_chainEntryMaxAttempts
              ''the chain entry's attempt budget''] else []) (enumerate 0 chain)) = [] \<longleftrightarrow>
      (\<forall>entry \<in> set chain. fc_max_attempts entry \<le> ceil_chainEntryMaxAttempts)" for chain
    using concat_enumerate_Nil_iff[of "\<lambda>e. ceil_chainEntryMaxAttempts < fc_max_attempts e"
        "\<lambda>i entry. ceilingIssue (AgentChainEntryField w i) (fc_max_attempts entry)
           ceil_chainEntryMaxAttempts ''the chain entry's attempt budget''" 0 chain]
    by (simp add: not_less del: concat_eq_Nil_conv)
  show ?thesis
    by (cases "ag_retry agent"; cases "ag_fallback_chain agent")
      (simp_all add: collectAgentCeilingIssues_def chain not_less del: concat_eq_Nil_conv)
qed

lemma workflowCeilings_Nil_iff:
  "collectWorkflowCeilingIssues spec ags = [] \<longleftrightarrow>
     length (ws_nodes spec) \<le> ceil_nodes \<and> totalEdges spec ags \<le> ceil_edges \<and>
     (\<forall>producer. card (documentTargets spec ags producer) \<le> ceil_fanOut) \<and>
     (\<forall>node \<in> set (ws_nodes spec). \<forall>r. node_retry node = Some r \<longrightarrow> retry_max r \<le> ceil_retryMax) \<and>
     (\<forall>m. ws_max_parallel spec = Some m \<longrightarrow> m \<le> ceil_maxParallel)"
proof -
  let ?m = "buildOutTargets spec ags (map node_id_of (ws_nodes spec))"
  have fan: "(\<forall>(p, ts) \<in> set ?m. length ts \<le> ceil_fanOut) \<longleftrightarrow>
      (\<forall>producer. card (documentTargets spec ags producer) \<le> ceil_fanOut)"
    using fanOut_issues_Nil_iff[OF buildOutTargets_spec(1)] buildOutTargets_spec(2) by simp
  have fanC: "concat (map (\<lambda>(nodeId, targets). if ceil_fanOut < length targets
      then [ceilingIssue (NodeOutDegree nodeId) (length targets) ceil_fanOut ''the node's fan-out width'']
      else []) (sort_key fst ?m)) = [] \<longleftrightarrow> (\<forall>(p, ts) \<in> set ?m. length ts \<le> ceil_fanOut)"
    by (auto simp: not_less split: if_splits)
  have retry: "concat (map nodeRetryIssues (ws_nodes spec)) = [] \<longleftrightarrow>
      (\<forall>node \<in> set (ws_nodes spec). \<forall>r. node_retry node = Some r \<longrightarrow> retry_max r \<le> ceil_retryMax)"
    by (auto simp: nodeRetryIssues_def split: option.splits if_splits) (meson not_less)
  show ?thesis
    unfolding collectWorkflowCeilingIssues_def Let_def append_is_Nil_conv fanC fan retry
    by (auto simp: not_less split: option.splits if_splits)
qed

end
