(* ===== verification/Js_Number.thy ===== *)
theory Js_Number
  imports Complex_Main Template_Refs
begin

text \<open>
  \<open>Number(text)\<close> of JavaScript on finite values: white space is trimmed, the empty string is zero, the
  radix prefixes \<open>0x\<close>, \<open>0o\<close>, \<open>0b\<close> take digits only, a decimal literal has an optional sign,
  fraction and exponent. The result is the exact rational; \<open>None\<close> stands for \<open>NaN\<close> and the
  infinities, which no authored finite number equals.
\<close>

definition digitValue :: "char \<Rightarrow> nat option" where
  "digitValue c =
     (let n = (of_char c :: nat)
      in if 48 \<le> n \<and> n \<le> 57 then Some (n - 48)
         else if 97 \<le> n \<and> n \<le> 102 then Some (n - 87)
         else if 65 \<le> n \<and> n \<le> 70 then Some (n - 55)
         else None)"

fun radixValue :: "nat \<Rightarrow> nat \<Rightarrow> string \<Rightarrow> nat option" where
  "radixValue radix acc [] = Some acc"
| "radixValue radix acc (c # cs) =
     (case digitValue c of
        None \<Rightarrow> None
      | Some d \<Rightarrow> if d < radix then radixValue radix (acc * radix + d) cs else None)"

definition digitsValue :: "nat \<Rightarrow> string \<Rightarrow> nat option" where
  "digitsValue radix s = (if s = [] then None else radixValue radix 0 s)"

definition parseSign :: "string \<Rightarrow> rat \<times> string" where
  "parseSign s =
     (case s of
        c # r \<Rightarrow> if c = CHR ''-'' then (-1, r) else if c = CHR ''+'' then (1, r) else (1, s)
      | [] \<Rightarrow> (1, []))"

text \<open>The exponent part \<open>[eE][+-]?\d+\<close>, or nothing.\<close>

definition exponentValue :: "string \<Rightarrow> int option" where
  "exponentValue s =
     (case s of
        [] \<Rightarrow> Some 0
      | c # r \<Rightarrow>
          if c = CHR ''e'' \<or> c = CHR ''E'' then
            (case parseSign r of (sg, ds) \<Rightarrow>
               map_option (\<lambda>n. if sg = 1 then int n else - int n) (digitsValue 10 ds))
          else None)"

definition scale10 :: "rat \<Rightarrow> int \<Rightarrow> rat" where
  "scale10 q e = (if 0 \<le> e then q * 10 ^ nat e else q / 10 ^ nat (- e))"

definition decimalValue :: "string \<Rightarrow> rat option" where
  "decimalValue s =
     (case parseSign s of (sg, u) \<Rightarrow>
        let whole = takeWhile isDigit u;
            rest = dropWhile isDigit u;
            hasDot = (rest \<noteq> [] \<and> hd rest = CHR ''.'');
            frac = (if hasDot then takeWhile isDigit (tl rest) else []);
            tail = (if hasDot then dropWhile isDigit (tl rest) else rest)
        in if whole = [] \<and> frac = [] then None
           else (case (radixValue 10 0 (whole @ frac), exponentValue tail) of
                   (Some n, Some e) \<Rightarrow> Some (scale10 (sg * of_nat n) (e - int (length frac)))
                 | _ \<Rightarrow> None))"

definition jsNumber :: "string \<Rightarrow> rat option" where
  "jsNumber s =
     (let t = trim s
      in if t = [] then Some 0
         else case t of
           z # x # ds \<Rightarrow>
             if z = CHR ''0'' \<and> (x = CHR ''x'' \<or> x = CHR ''X'') then map_option of_nat (digitsValue 16 ds)
             else if z = CHR ''0'' \<and> (x = CHR ''o'' \<or> x = CHR ''O'') then map_option of_nat (digitsValue 8 ds)
             else if z = CHR ''0'' \<and> (x = CHR ''b'' \<or> x = CHR ''B'') then map_option of_nat (digitsValue 2 ds)
             else decimalValue t
         | _ \<Rightarrow> decimalValue t)"

text \<open>The spellings the branch-handle rule names.\<close>

lemma jsNumber_examples:
  "jsNumber ''1.0'' = Some 1" "jsNumber ''0x10'' = Some 16" "jsNumber '' -2.5e1 '' = Some (-25)"
  "jsNumber ''abc'' = None" "jsNumber '''' = Some 0" "jsNumber ''.'' = None"
  by code_simp+

end
