(* ===== verification/Dag_Builder.thy ===== *)
theory Dag_Builder
  imports Topo_Order Secret_Taint Admission_Limits Js_Number
begin

text \<open>
  The plan builder (\<open>src/packages/core/src/dag.ts\<close>): \<open>buildRunPlan\<close> and every pass it runs. The
  closures over the two adjacency maps and the issue list are explicit state (\<open>BuildState\<close>).

  Two analyses that the builder calls are arguments of the model: \<open>reads\<close> (the literal
  \<open>run.outputs\<close> reads of an expression text, \<open>expression/literal-output-reads.ts\<close>) and \<open>compile\<close>
  (the refusal reason of an authored JSON schema, \<open>output-schema.ts\<close>). Every theorem holds for all
  such functions.
\<close>

section \<open>State of the wiring passes\<close>

record BuildState =
  bs_dependents :: "node_id adjacency"
  bs_dependencies :: "node_id adjacency"
  bs_issues :: "GraphIssue list"

definition addEdge :: "node_id \<Rightarrow> node_id \<Rightarrow> BuildState \<Rightarrow> BuildState" where
  "addEdge producer consumer st =
     (case (bs_dependents st producer, bs_dependencies st consumer) of
        (Some outs, Some ins) \<Rightarrow>
          st\<lparr>bs_dependents := (bs_dependents st)(producer \<mapsto> set_add consumer outs),
             bs_dependencies := (bs_dependencies st)(consumer \<mapsto> set_add producer ins)\<rparr>
      | _ \<Rightarrow> st)"

definition pushIssue :: "GraphIssueKind \<Rightarrow> locator \<Rightarrow> issue_message \<Rightarrow> BuildState \<Rightarrow> BuildState" where
  "pushIssue kind field msg st =
     st\<lparr>bs_issues := bs_issues st @ [\<lparr>gi_field = field, gi_message = msg, gi_kind = kind\<rparr>]\<rparr>"

type_synonym nodes_by_id = "(node_id, WorkflowNode) jsmap"

definition hasNode :: "nodes_by_id \<Rightarrow> node_id \<Rightarrow> bool" where
  "hasNode nodesById v \<longleftrightarrow> mget nodesById v \<noteq> None"

section \<open>Structural edges\<close>

definition edgeHandle :: "string \<Rightarrow> string option" where
  "edgeHandle from_ref =
     (case dropWhile (\<lambda>c. c \<noteq> CHR '':'') from_ref of [] \<Rightarrow> None | _ # handle \<Rightarrow> Some handle)"

text \<open>
  \<open>String(b.when) === handle\<close>, or for a number \<open>Number(handle) === b.when\<close>. A finite number's own
  string converts back to it, so for a number the second test subsumes the first.
\<close>

fun handleMatches :: "string \<Rightarrow> when_value \<Rightarrow> bool" where
  "handleMatches handle (WhenBool b) = (handle = (if b then ''true'' else ''false''))"
| "handleMatches handle (WhenString s) = (handle = s)"
| "handleMatches handle (WhenNumber q) = (trim handle \<noteq> [] \<and> jsNumber handle = Some q)"

definition safeHandleLabel :: "string \<Rightarrow> bool" where
  "safeHandleLabel handle \<longleftrightarrow> handle \<noteq> [] \<and> list_all isName handle \<and> length handle \<le> 24"

definition validateHandle ::
    "WorkflowNode \<Rightarrow> string \<Rightarrow> node_id \<Rightarrow> locator \<Rightarrow> nat \<Rightarrow> BuildState \<Rightarrow> BuildState" where
  "validateHandle fromNode handle edgeTo loc index st =
     (case fromNode of
        NCondition c \<Rightarrow>
          (case find (\<lambda>b. handleMatches handle (br_when b)) (cn_branches c) of
             None \<Rightarrow> pushIssue invalid_handle loc (NoMatchingBranch (cn_id c) index) st
           | Some branch \<Rightarrow>
               if br_target branch \<noteq> edgeTo then
                 pushIssue mismatched_branch_target loc
                   (HandleTargetMismatch (cn_id c) (if safeHandleLabel handle then Some handle else None) index
                      (br_target branch) edgeTo) st
               else st)
      | _ \<Rightarrow> pushIssue invalid_handle loc (NoNamedHandle (node_id_of fromNode) (node_type fromNode) index) st)"

definition validateStructuralEdge :: "nodes_by_id \<Rightarrow> Edge \<Rightarrow> nat \<Rightarrow> BuildState \<Rightarrow> BuildState" where
  "validateStructuralEdge nodesById edge index st =
     (let fromBase = edgeBase (edge_from edge);
          fromNode = mget nodesById fromBase;
          loc = EdgeLocator fromBase (edge_to edge);
          st1 = (if fromNode = None
                 then pushIssue unknown_edge_target loc (EdgeSourceNotNode fromBase) st else st);
          st2 = (if \<not> hasNode nodesById (edge_to edge)
                 then pushIssue unknown_edge_target loc (EdgeTargetNotNode (edge_to edge)) st1 else st1)
      in case edgeHandle (edge_from edge) of
           Some handle \<Rightarrow>
             (case fromNode of
                None \<Rightarrow> st2
              | Some node \<Rightarrow> validateHandle node handle (edge_to edge) loc index st2)
         | None \<Rightarrow>
             (case fromNode of
                Some (NCondition _) \<Rightarrow>
                  if hasNode nodesById (edge_to edge)
                  then pushIssue invalid_handle loc (PlainEdgeFromCondition fromBase) st2
                  else addEdge fromBase (edge_to edge) st2
              | _ \<Rightarrow> addEdge fromBase (edge_to edge) st2))"

section \<open>Routing of parallel and condition nodes\<close>

definition wireParallelNode :: "nodes_by_id \<Rightarrow> ParallelNode \<Rightarrow> BuildState \<Rightarrow> BuildState" where
  "wireParallelNode nodesById node st =
     fold (\<lambda>(j, member) st.
       addEdge (pn_id node) member
         (if \<not> hasNode nodesById member
          then pushIssue unknown_edge_target (NodeIndexed (pn_id node) ''parallel_of'' j '''')
                 (MemberNotNode member) st
          else st)) (enumerate 0 (pn_parallel_of node)) st"

definition wireConditionNode :: "nodes_by_id \<Rightarrow> ConditionNode \<Rightarrow> BuildState \<Rightarrow> BuildState" where
  "wireConditionNode nodesById node st =
     (let st1 = fold (\<lambda>(j, branch) st.
            addEdge (cn_id node) (br_target branch)
              (if \<not> hasNode nodesById (br_target branch)
               then pushIssue unknown_edge_target (NodeIndexed (cn_id node) ''branches'' j ''target_node'')
                      (BranchTargetNotNode (br_target branch)) st
               else st)) (enumerate 0 (cn_branches node)) st
      in case cn_default node of
           None \<Rightarrow> st1
         | Some d \<Rightarrow>
             addEdge (cn_id node) d
               (if \<not> hasNode nodesById d
                then pushIssue unknown_edge_target (NodeField (cn_id node) ''default'') (DefaultTargetNotNode d) st1
                else st1))"

section \<open>Agent nodes\<close>

definition MAX_REPORTED_WIDENINGS :: nat where
  "MAX_REPORTED_WIDENINGS = 10"

text \<open>
  The scan of \<open>collectToolGrantIssues\<close>: \<open>reported\<close> and \<open>widened\<close> count along the list. The granted
  set is built from the agent each time; the source memoizes it per agent object.
\<close>

fun toolGrantScan ::
    "AgentNode \<Rightarrow> string list \<Rightarrow> (nat \<times> string) list \<Rightarrow> nat \<times> nat \<times> BuildState \<Rightarrow> nat \<times> nat \<times> BuildState" where
  "toolGrantScan node granted [] acc = acc"
| "toolGrantScan node granted ((index, tool) # rest) (reported, widened, st) =
     (if tool \<in> set granted then toolGrantScan node granted rest (reported, widened, st)
      else if MAX_REPORTED_WIDENINGS \<le> reported then toolGrantScan node granted rest (reported, widened + 1, st)
      else toolGrantScan node granted rest
             (reported + 1, widened + 1,
              pushIssue tool_grant_widened (NodeIndexed (an_id node) ''tools'' index '''')
                (ToolNotGranted (an_agent_ref node)) st))"

definition collectToolGrantIssues :: "AgentNode \<Rightarrow> Agent \<Rightarrow> bool \<Rightarrow> BuildState \<Rightarrow> BuildState" where
  "collectToolGrantIssues node agent grantsFinal st =
     (case an_tools node of
        None \<Rightarrow> st
      | Some narrowed \<Rightarrow>
          if narrowed = [] then st
          else if (case ag_mcp_servers agent of None \<Rightarrow> [] | Some ms \<Rightarrow> ms) \<noteq> [] \<and> \<not> grantsFinal then st
          else
            let granted = (case ag_tools agent of None \<Rightarrow> [] | Some ts \<Rightarrow> ts)
            in (case toolGrantScan node granted (enumerate 0 narrowed) (0, 0, st) of
                  (reported, widened, st') \<Rightarrow>
                    if reported < widened
                    then pushIssue tool_grant_widened (NodeField (an_id node) ''tools'')
                           (FurtherToolsNotGranted (widened - reported) (an_agent_ref node) reported widened) st'
                    else st'))"

definition wireDataEdges :: "string \<Rightarrow> node_id \<Rightarrow> nodes_by_id \<Rightarrow> BuildState \<Rightarrow> BuildState" where
  "wireDataEdges tpl consumer nodesById st =
     fold (\<lambda>ref st.
       if ref_kind ref = RNode \<and> hasNode nodesById (ref_identifier ref)
       then addEdge (ref_identifier ref) consumer st else st) (templateReferences tpl) st"

definition wireOwnDataEdges :: "WorkflowNode \<Rightarrow> BuildState \<Rightarrow> BuildState" where
  "wireOwnDataEdges node st =
     fold (\<lambda>site st.
       fold (\<lambda>ref st. if ref_kind ref = RNode then addEdge (ref_identifier ref) (node_id_of node) st else st)
         (site_references site) st) (nodeReferenceSites node) st"

record BuildContext =
  cx_agentsById :: agents
  cx_registrySupplied :: bool
  cx_nodesById :: nodes_by_id
  cx_grantsFinal :: bool

definition validateAgentNode :: "BuildContext \<Rightarrow> AgentNode \<Rightarrow> BuildState \<Rightarrow> BuildState" where
  "validateAgentNode ctx node st =
     (let agent = mget (cx_agentsById ctx) (an_agent_ref node);
          st1 = (if cx_registrySupplied ctx \<and> agent = None
                 then pushIssue dangling_ref (NodeField (an_id node) ''agent_ref'')
                        (AgentRefUnresolved (an_agent_ref node)) st
                 else st)
      in case agent of
           None \<Rightarrow> st1
         | Some ag \<Rightarrow>
             collectToolGrantIssues node ag (cx_grantsFinal ctx)
               (wireDataEdges (ag_system_prompt ag) (an_id node) (cx_nodesById ctx) st1))"

definition wireNode :: "BuildContext \<Rightarrow> WorkflowNode \<Rightarrow> BuildState \<Rightarrow> BuildState" where
  "wireNode ctx node st =
     wireOwnDataEdges node
       (case node of
          NParallel p \<Rightarrow> wireParallelNode (cx_nodesById ctx) p st
        | NCondition c \<Rightarrow> wireConditionNode (cx_nodesById ctx) c st
        | NAgent a \<Rightarrow> validateAgentNode ctx a st
        | _ \<Rightarrow> st)"

definition validateAndWireEdges :: "BuildContext \<Rightarrow> WorkflowSpec \<Rightarrow> BuildState \<Rightarrow> BuildState" where
  "validateAndWireEdges ctx spec st =
     fold (wireNode ctx) (ws_nodes spec)
       (fold (\<lambda>(i, edge). validateStructuralEdge (cx_nodesById ctx) edge i) (enumerate 0 (ws_edges spec)) st)"

section \<open>Agents\<close>

definition resolveAgents :: "WorkflowSpec \<Rightarrow> agents option \<Rightarrow> agents \<times> string list" where
  "resolveAgents spec registry =
     (let inline = inlineAgents spec;
          inlineIds = fold (\<lambda>ag. set_add (ag_id ag)) inline [];
          own = fold (\<lambda>ag m. mset_key (ag_id ag) ag m) inline []
      in (case registry of
            None \<Rightarrow> own
          | Some reg \<Rightarrow> fold (\<lambda>(k, ag) m. if mget m k = None then mset_key k ag m else m) reg own, inlineIds))"

text \<open>\<open>SAFE_ID_LABEL\<close>: \<open>/^[a-z0-9]+(?:-[a-z0-9]+)*$/\<close>.\<close>

definition isKebabChar :: "char \<Rightarrow> bool" where
  "isKebabChar c \<longleftrightarrow> isDigit c \<or> (let n = (of_char c :: nat) in 97 \<le> n \<and> n \<le> 122)"

fun isKebabFrom :: "bool \<Rightarrow> string \<Rightarrow> bool" where
  "isKebabFrom started [] = started"
| "isKebabFrom started (c # cs) =
     (if isKebabChar c then isKebabFrom True cs else c = CHR ''-'' \<and> started \<and> isKebabFrom False cs)"

definition isKebabId :: "string \<Rightarrow> bool" where
  "isKebabId s = isKebabFrom False s"

text \<open>The loop of \<open>referencedAgentLeaks\<close>: the registry prompts to re-check, in authored node order.\<close>

fun promptsToRecheck ::
    "agents \<Rightarrow> string list \<Rightarrow> WorkflowNode list \<Rightarrow> string list \<Rightarrow> (locator \<times> string) list" where
  "promptsToRecheck registry inlineIds [] seen = []"
| "promptsToRecheck registry inlineIds (node # nodes) seen =
     (case node of
        NAgent n \<Rightarrow>
          if an_agent_ref n \<in> set seen \<or> an_agent_ref n \<in> set inlineIds
          then promptsToRecheck registry inlineIds nodes seen
          else
            (case mget registry (an_agent_ref n) of
               None \<Rightarrow> []
             | Some ag \<Rightarrow>
                 [(AgentPromptField (if isKebabId (an_agent_ref n) then Some (an_agent_ref n) else None),
                   ag_system_prompt ag)])
            @ promptsToRecheck registry inlineIds nodes (set_add (an_agent_ref n) seen)
      | _ \<Rightarrow> promptsToRecheck registry inlineIds nodes seen)"

definition referencedAgentLeaks ::
    "WorkflowSpec \<Rightarrow> agents option \<Rightarrow> string list \<Rightarrow> SecretLeak list option" where
  "referencedAgentLeaks spec registry inlineIds =
     (case registry of
        None \<Rightarrow> Some []
      | Some reg \<Rightarrow> analyzeResolvedAgentTaint spec (promptsToRecheck reg inlineIds (ws_nodes spec) []))"

definition collectCeilingIssues :: "WorkflowSpec \<Rightarrow> agents \<Rightarrow> GraphIssue list" where
  "collectCeilingIssues spec agentsById =
     (let referenced = fold (\<lambda>node s. case node of NAgent n \<Rightarrow> set_add (an_agent_ref n) s | _ \<Rightarrow> s)
            (ws_nodes spec) []
      in collectWorkflowCeilingIssues spec agentsById
         @ concat (map (\<lambda>agentId. case mget agentsById agentId of
               None \<Rightarrow> []
             | Some agent \<Rightarrow> collectAgentCeilingIssues agent (Some agentId)) (sort referenced)))"

section \<open>Orders derived from the graph\<close>

definition typeById :: "WorkflowSpec \<Rightarrow> (node_id, NodeType) jsmap" where
  "typeById spec = fold (\<lambda>n m. mset_key (node_id_of n) (node_type n) m) (ws_nodes spec) []"

definition producing :: "WorkflowSpec \<Rightarrow> node_id \<Rightarrow> bool" where
  "producing spec v = (case mget (typeById spec) v of None \<Rightarrow> True | Some t \<Rightarrow> producesValue t)"

definition parallelNodes :: "WorkflowSpec \<Rightarrow> ParallelNode list" where
  "parallelNodes spec = List.map_filter (\<lambda>n. case n of NParallel p \<Rightarrow> Some p | _ \<Rightarrow> None) (ws_nodes spec)"

text \<open>One candidate of the pairing search: the best so far is replaced on strictly more cover.\<close>

definition parallelCover :: "WorkflowSpec \<Rightarrow> node_id \<Rightarrow> ParallelNode \<Rightarrow> nat" where
  "parallelCover spec mergeId p = length (filter (\<lambda>m. m \<noteq> mergeId \<and> producing spec m) (pn_parallel_of p))"

definition parallelCandidate :: "node_id list \<Rightarrow> node_id \<Rightarrow> ParallelNode \<Rightarrow> bool" where
  "parallelCandidate preds mergeId p \<longleftrightarrow>
     pn_parallel_of p \<noteq> [] \<and> (\<forall>m \<in> set (pn_parallel_of p). m = mergeId \<or> m \<in> set preds)"

definition pairStep ::
    "WorkflowSpec \<Rightarrow> node_id list \<Rightarrow> node_id \<Rightarrow> ParallelNode option \<times> nat \<Rightarrow> ParallelNode \<Rightarrow>
     ParallelNode option \<times> nat" where
  "pairStep spec preds mergeId = (\<lambda>(paired, bestCover) p.
     if \<not> parallelCandidate preds mergeId p then (paired, bestCover)
     else if bestCover < parallelCover spec mergeId p then (Some p, parallelCover spec mergeId p)
     else (paired, bestCover))"

definition mergeBranches ::
    "WorkflowSpec \<Rightarrow> node_id adjacency \<Rightarrow> (node_id \<Rightarrow> nat) \<Rightarrow> node_id \<Rightarrow> node_id list" where
  "mergeBranches spec dependencies key mergeId =
     (let preds = adj dependencies mergeId;
          ordered = (case fst (foldl (pairStep spec preds mergeId) (None, 0) (parallelNodes spec)) of
              None \<Rightarrow> sort_key key preds
            | Some p \<Rightarrow>
                filter (\<lambda>m. m \<noteq> mergeId) (pn_parallel_of p)
                @ sort_key key (filter (\<lambda>m. m \<notin> set (pn_parallel_of p)) preds))
      in filter (producing spec) ordered)"

definition computeMergeBranchOrder ::
    "WorkflowSpec \<Rightarrow> node_id adjacency \<Rightarrow> (node_id \<Rightarrow> nat) \<Rightarrow> (node_id, node_id list) jsmap" where
  "computeMergeBranchOrder spec dependencies key =
     fold (\<lambda>node m. case node of
         NMerge n \<Rightarrow> mset_key (mn_id n) (mergeBranches spec dependencies key (mn_id n)) m
       | _ \<Rightarrow> m) (ws_nodes spec) []"

definition computeOutputFeeders :: "WorkflowSpec \<Rightarrow> node_id adjacency \<Rightarrow> (node_id, node_id list) jsmap" where
  "computeOutputFeeders spec dependencies =
     fold (\<lambda>node m. case node of
         NOutput v \<Rightarrow> mset_key v (sort (filter (producing spec) (adj dependencies v))) m
       | _ \<Rightarrow> m) (ws_nodes spec) []"

section \<open>Checks on the finished graph\<close>

fun expressionSites :: "WorkflowNode \<Rightarrow> (string \<times> string) list" where
  "expressionSites (NCondition c) = [(''expression'', cn_expression c)]"
| "expressionSites (NTransform t) = [(''transform'', tn_transform t)]"
| "expressionSites (NMerge m) =
     (if mn_merge_strategy m = Custom
      then (case mn_merge_fn m of None \<Rightarrow> [] | Some f \<Rightarrow> [(''merge_fn'', f)]) else [])"
| "expressionSites _ = []"

definition unorderedReadMessage :: "node_id \<Rightarrow> node_id \<Rightarrow> issue_message" where
  "unorderedReadMessage readerId readId =
     (if readId = readerId then OwnOutputRead readerId else UnorderedRead readId readerId)"

definition collectUnorderedReadIssues ::
    "(string \<Rightarrow> node_id list) \<Rightarrow> WorkflowSpec \<Rightarrow> (node_id \<rightharpoonup> node_id list) \<Rightarrow> node_id list \<Rightarrow> GraphIssue list" where
  "collectUnorderedReadIssues reads spec ancestors unresolved =
     (let nodeIds = map node_id_of (ws_nodes spec)
      in concat (map (\<lambda>node.
           let visible = adj ancestors (node_id_of node)
           in if list_ex (\<lambda>v. v \<in> set unresolved) visible then []
              else concat (map (\<lambda>(field, expr).
                concat (map (\<lambda>read.
                  if read \<notin> set nodeIds \<or> read \<in> set visible then []
                  else [\<lparr>gi_field = NodeField (node_id_of node) field,
                         gi_message = unorderedReadMessage (node_id_of node) read,
                         gi_kind = unordered_output_read\<rparr>]) (reads expr))) (expressionSites node)))
           (ws_nodes spec)))"

definition unresolvedAgentIds :: "WorkflowSpec \<Rightarrow> agents \<Rightarrow> node_id list" where
  "unresolvedAgentIds spec agentsById =
     List.map_filter (\<lambda>node. case node of
         NAgent n \<Rightarrow> if mget agentsById (an_agent_ref n) = None then Some (an_id n) else None
       | _ \<Rightarrow> None) (ws_nodes spec)"

definition collectClosureIssues ::
    "(string \<Rightarrow> node_id list) \<Rightarrow> WorkflowSpec \<Rightarrow> node_id list \<Rightarrow> node_id adjacency \<Rightarrow> agents \<Rightarrow>
     GraphIssue list \<Rightarrow> (node_id \<rightharpoonup> node_id list) \<times> GraphIssue list" where
  "collectClosureIssues reads spec order dependencies agentsById issues =
     (if length order = length (ws_nodes spec) \<and> \<not> list_ex (\<lambda>i. gi_kind i = ceiling_exceeded) issues
      then let ancestors = computeAncestors order dependencies
           in (ancestors, collectUnorderedReadIssues reads spec ancestors (unresolvedAgentIds spec agentsById))
      else (Map.empty, []))"

definition checkSchema :: "(json \<Rightarrow> string option) \<Rightarrow> json option \<Rightarrow> locator \<Rightarrow> GraphIssue list" where
  "checkSchema compile schema field =
     (case schema of
        None \<Rightarrow> []
      | Some s \<Rightarrow>
          if \<not> isJsonObject s then []
          else (case compile s of
                  None \<Rightarrow> []
                | Some reason \<Rightarrow>
                    [\<lparr>gi_field = field, gi_message = SchemaOutsideSubset reason, gi_kind = invalid_output_schema\<rparr>]))"

definition collectOutputSchemaIssues ::
    "(json \<Rightarrow> string option) \<Rightarrow> WorkflowSpec \<Rightarrow> agents \<Rightarrow> GraphIssue list" where
  "collectOutputSchemaIssues compile spec agentsById =
     concat (map (\<lambda>node. case node of
         NAgent n \<Rightarrow>
           checkSchema compile (an_output_schema n) (NodeField (an_id n) ''output_schema'')
           @ (if an_output_schema n = None
              then checkSchema compile (Option.bind (mget agentsById (an_agent_ref n)) ag_output_schema)
                     (NodeField (an_id n) ''agent output_schema'')
              else [])
       | NTransform t \<Rightarrow> checkSchema compile (tn_output_schema t) (NodeField (tn_id t) ''output_schema'')
       | _ \<Rightarrow> []) (ws_nodes spec))"

section \<open>The plan\<close>

fun buildConfig ::
    "agents \<Rightarrow> (node_id, node_id list) jsmap \<Rightarrow> (node_id, node_id list) jsmap \<Rightarrow> WorkflowNode \<Rightarrow> PlanConfig" where
  "buildConfig agentsById mergeOrder feeders (NInput v) = InputConfig v"
| "buildConfig agentsById mergeOrder feeders (NOutput v) =
     OutputConfig v (case mget feeders v of None \<Rightarrow> [] | Some fs \<Rightarrow> fs)"
| "buildConfig agentsById mergeOrder feeders (NTransform t) = TransformConfig t"
| "buildConfig agentsById mergeOrder feeders (NCondition c) = ConditionConfig c"
| "buildConfig agentsById mergeOrder feeders (NHumanGate g) = HumanGateConfig g"
| "buildConfig agentsById mergeOrder feeders (NParallel p) = FanOutConfig p (pn_parallel_of p)"
| "buildConfig agentsById mergeOrder feeders (NMerge m) =
     FanInConfig m (if mn_merge_strategy m = First then WaitFirst else WaitAll) (mn_merge_strategy m)
       (case mget mergeOrder (mn_id m) of None \<Rightarrow> [] | Some bs \<Rightarrow> bs) (mn_merge_fn m)"
| "buildConfig agentsById mergeOrder feeders (NAgent n) =
     (let resolved = mget agentsById (an_agent_ref n)
      in AgentConfig n resolved (Option.bind resolved ag_fallback_chain))"

datatype BuildError = GraphError "GraphIssue list" | SecretLeakError "SecretLeak list" | OutOfFuel

record BuildOptions =
  opt_agents :: "agents option"
  opt_toolGrantsFinal :: bool

definition indexNodes :: "WorkflowSpec \<Rightarrow> nodes_by_id" where
  "indexNodes spec = fold (\<lambda>n m. mset_key (node_id_of n) n m) (ws_nodes spec) []"

definition authoredIndexOf :: "WorkflowSpec \<Rightarrow> (node_id \<rightharpoonup> nat)" where
  "authoredIndexOf spec =
     fold (\<lambda>(i, n) m. m(node_id_of n \<mapsto> i)) (enumerate 0 (ws_nodes spec)) Map.empty"

definition emptyAdjacency :: "WorkflowSpec \<Rightarrow> node_id adjacency" where
  "emptyAdjacency spec = (\<lambda>v. if v \<in> set (mkeys (indexNodes spec)) then Some [] else None)"

definition wiredState :: "WorkflowSpec \<Rightarrow> BuildOptions \<Rightarrow> BuildState" where
  "wiredState spec opts =
     (let agentsById = fst (resolveAgents spec (opt_agents opts))
      in validateAndWireEdges
           \<lparr>cx_agentsById = agentsById, cx_registrySupplied = (opt_agents opts \<noteq> None),
            cx_nodesById = indexNodes spec, cx_grantsFinal = opt_toolGrantsFinal opts\<rparr> spec
           \<lparr>bs_dependents = emptyAdjacency spec, bs_dependencies = emptyAdjacency spec,
            bs_issues = collectCeilingIssues spec agentsById\<rparr>)"

definition cycleIssue :: "node_id list \<Rightarrow> GraphIssue" where
  "cycleIssue ring =
     \<lparr>gi_field = (if ring = [] then WorkflowField ''nodes'' else CycleField ring),
      gi_message = DependencyCycle ring, gi_kind = cycle\<rparr>"

definition planVertex ::
    "agents \<Rightarrow> BuildState \<Rightarrow> (node_id \<Rightarrow> nat) \<Rightarrow> (node_id \<rightharpoonup> node_id list) \<Rightarrow> (node_id, node_id list) jsmap \<Rightarrow>
     (node_id, node_id list) jsmap \<Rightarrow> WorkflowNode \<Rightarrow> PlanVertex" where
  "planVertex agentsById st key ancestors mergeOrder feeders node =
     \<lparr>pv_id = node_id_of node, pv_type = engineType node,
      pv_dependencies = sort_key key (adj (bs_dependencies st) (node_id_of node)),
      pv_dependents = sort_key key (adj (bs_dependents st) (node_id_of node)),
      pv_ancestors = adj ancestors (node_id_of node),
      pv_inputSites = nodeReferenceSites node,
      pv_config = buildConfig agentsById mergeOrder feeders node\<rparr>"

definition assemblePlan ::
    "WorkflowSpec \<Rightarrow> agents \<Rightarrow> BuildState \<Rightarrow> node_id list \<Rightarrow> (node_id \<rightharpoonup> node_id list) \<Rightarrow> RunPlan" where
  "assemblePlan spec agentsById st order ancestors =
     (let key = authoredKey (authoredIndexOf spec);
          mergeOrder = computeMergeBranchOrder spec (bs_dependencies st) key;
          feeders = computeOutputFeeders spec (bs_dependencies st)
      in \<lparr>rp_workflowId = ws_id spec, rp_order = order,
          rp_vertices = fold (\<lambda>node m.
            mset_key (node_id_of node) (planVertex agentsById st key ancestors mergeOrder feeders node) m)
            (ws_nodes spec) [],
          rp_maxParallel = ws_max_parallel spec, rp_budget = ws_budget spec, rp_timeoutMs = ws_timeout_ms spec\<rparr>)"

definition buildRunPlan ::
    "(string \<Rightarrow> node_id list) \<Rightarrow> (json \<Rightarrow> string option) \<Rightarrow> WorkflowSpec \<Rightarrow> BuildOptions \<Rightarrow>
     BuildError + RunPlan" where
  "buildRunPlan reads compile spec opts =
     (let resolved = resolveAgents spec (opt_agents opts);
          agentsById = fst resolved
      in case referencedAgentLeaks spec (opt_agents opts) (snd resolved) of
           None \<Rightarrow> Inl OutOfFuel
         | Some leaks \<Rightarrow>
             if leaks \<noteq> [] then Inl (SecretLeakError leaks)
             else
               let st = wiredState spec opts;
                   ids = map node_id_of (ws_nodes spec);
                   idx = authoredIndexOf spec
               in (case kahnOrder ids (bs_dependents st) (bs_dependencies st) idx of
                     None \<Rightarrow> Inl OutOfFuel
                   | Some order \<Rightarrow>
                       let issues1 = bs_issues st @
                             (if length order < length ids
                              then [cycleIssue (extractCycle ids order (bs_dependencies st) idx)] else []);
                           closure = collectClosureIssues reads spec order (bs_dependencies st) agentsById issues1;
                           issues = issues1 @ snd closure @ collectOutputSchemaIssues compile spec agentsById
                       in if issues \<noteq> [] then Inl (GraphError issues)
                          else Inr (assemblePlan spec agentsById st order (fst closure))))"

end
