(* ===== verification/Dag_Wiring.thy ===== *)
theory Dag_Wiring
  imports Dag_Builder
begin

text \<open>
  What the wiring passes of the builder do: every pass is a list of attempted edges and a list of
  issues, the graph keeps its two adjacency maps inverse to each other, the wired edges are exactly
  the edges the document declares between existing nodes, and the passes report no issue exactly when
  the document obeys the routing rules.
\<close>

section \<open>Passes as edges and issues\<close>

definition applyAll :: "(node_id \<times> node_id) list \<Rightarrow> GraphIssue list \<Rightarrow> BuildState \<Rightarrow> BuildState" where
  "applyAll E I st = (fold (\<lambda>(p, c). addEdge p c) E st)\<lparr>bs_issues := bs_issues st @ I\<rparr>"

text \<open>\<open>wires f E ok\<close>: the pass \<open>f\<close> attempts the edges \<open>E\<close> and reports nothing exactly if \<open>ok\<close>.\<close>

definition wires :: "(BuildState \<Rightarrow> BuildState) \<Rightarrow> (node_id \<times> node_id) list \<Rightarrow> bool \<Rightarrow> bool" where
  "wires f E ok \<longleftrightarrow> (\<exists>I. (\<forall>st. f st = applyAll E I st) \<and> (I = [] \<longleftrightarrow> ok))"

lemma addEdge_issues_update:
  "addEdge p c (st\<lparr>bs_issues := I\<rparr>) = (addEdge p c st)\<lparr>bs_issues := I\<rparr>"
  by (auto simp: addEdge_def split: option.splits)

lemma bs_issues_addEdge [simp]: "bs_issues (addEdge p c st) = bs_issues st"
  by (auto simp: addEdge_def split: option.splits)

lemma bs_issues_fold_addEdge [simp]: "bs_issues (fold (\<lambda>(p, c). addEdge p c) E st) = bs_issues st"
  by (induction E arbitrary: st) (auto split: prod.splits)

lemma fold_addEdge_issues_update:
  "fold (\<lambda>(p, c). addEdge p c) E (st\<lparr>bs_issues := I\<rparr>) = (fold (\<lambda>(p, c). addEdge p c) E st)\<lparr>bs_issues := I\<rparr>"
  by (induction E arbitrary: st) (auto simp: addEdge_issues_update)

lemma applyAll_applyAll: "applyAll E' I' (applyAll E I st) = applyAll (E @ E') (I @ I') st"
  by (simp add: applyAll_def fold_addEdge_issues_update)

lemma wires_skip: "wires (\<lambda>st. st) [] True"
  unfolding wires_def by (rule exI[of _ "[]"]) (simp add: applyAll_def)

lemma bs_issues_same: "bs_issues st = I \<Longrightarrow> st\<lparr>bs_issues := I\<rparr> = st"
  by (cases st) simp

lemma wires_add: "wires (addEdge p c) [(p, c)] True"
  unfolding wires_def by (rule exI[of _ "[]"]) (simp add: applyAll_def bs_issues_same)

lemma wires_push: "wires (pushIssue k f m) [] False"
  unfolding wires_def
  by (rule exI[of _ "[\<lparr>gi_field = f, gi_message = m, gi_kind = k\<rparr>]"]) (simp add: applyAll_def pushIssue_def)

lemma wires_comp: "\<lbrakk>wires f E C; wires g E' C'\<rbrakk> \<Longrightarrow> wires (\<lambda>st. g (f st)) (E @ E') (C \<and> C')"
  unfolding wires_def
proof (elim exE conjE)
  fix I I' assume a: "\<forall>st. f st = applyAll E I st" "I = [] \<longleftrightarrow> C" "\<forall>st. g st = applyAll E' I' st" "I' = [] \<longleftrightarrow> C'"
  then show "\<exists>I. (\<forall>st. g (f st) = applyAll (E @ E') I st) \<and> (I = [] \<longleftrightarrow> C \<and> C')"
    by (intro exI[of _ "I @ I'"]) (simp add: applyAll_applyAll)
qed

lemma wires_if:
  "\<lbrakk>b \<Longrightarrow> wires f E C; \<not> b \<Longrightarrow> wires g E' C'\<rbrakk> \<Longrightarrow>
     wires (\<lambda>st. if b then f st else g st) (if b then E else E') (if b then C else C')"
  by (cases b) auto

lemma wires_fold:
  "(\<And>x. x \<in> set xs \<Longrightarrow> wires (f x) (E x) (C x)) \<Longrightarrow> wires (fold f xs) (concat (map E xs)) (\<forall>x \<in> set xs. C x)"
proof (induction xs)
  case Nil
  then show ?case using wires_skip by (simp add: id_def)
next
  case (Cons x xs)
  then have "wires (\<lambda>st. fold f xs (f x st)) (E x @ concat (map E xs)) (C x \<and> (\<forall>x \<in> set xs. C x))"
    by (intro wires_comp) auto
  then show ?case by (simp add: comp_def)
qed

lemma wires_cong: "\<lbrakk>wires f E C; \<And>st. g st = f st; E = E'; C = C'\<rbrakk> \<Longrightarrow> wires g E' C'"
  by (simp add: wires_def)

text \<open>Reporting a missing endpoint and then wiring to it.\<close>

lemma wires_checked_add:
  "wires (\<lambda>st. addEdge p c (if \<not> b then pushIssue k f m st else st)) [(p, c)] b"
proof -
  have "wires (\<lambda>st. if \<not> b then pushIssue k f m st else st) [] b"
    using wires_push wires_skip by (cases b) (auto elim: wires_cong)
  from wires_comp[OF this wires_add] show ?thesis by simp
qed

section \<open>The edges and the rules of one pass\<close>

definition sourceIsCondition :: "nodes_by_id \<Rightarrow> string \<Rightarrow> bool" where
  "sourceIsCondition nodesById v = (case mget nodesById v of Some (NCondition _) \<Rightarrow> True | _ \<Rightarrow> False)"

definition structuralEdge :: "nodes_by_id \<Rightarrow> Edge \<Rightarrow> (node_id \<times> node_id) list" where
  "structuralEdge nodesById edge =
     (let base = edgeBase (edge_from edge)
      in if edgeHandle (edge_from edge) = None \<and>
            \<not> (sourceIsCondition nodesById base \<and> hasNode nodesById (edge_to edge))
         then [(base, edge_to edge)] else [])"

definition handleOk :: "nodes_by_id \<Rightarrow> string \<Rightarrow> string \<Rightarrow> node_id \<Rightarrow> bool" where
  "handleOk nodesById base handle target =
     (case mget nodesById base of
        Some (NCondition c) \<Rightarrow>
          (case find (\<lambda>b. handleMatches handle (br_when b)) (cn_branches c) of
             Some branch \<Rightarrow> br_target branch = target
           | None \<Rightarrow> False)
      | _ \<Rightarrow> False)"

text \<open>An edge obeys the rules: both ends exist, and it leaves a condition exactly through a handle
  that a branch with this target matches.\<close>

definition edgeOk :: "nodes_by_id \<Rightarrow> Edge \<Rightarrow> bool" where
  "edgeOk nodesById edge =
     (let base = edgeBase (edge_from edge)
      in hasNode nodesById base \<and> hasNode nodesById (edge_to edge) \<and>
         (case edgeHandle (edge_from edge) of
            None \<Rightarrow> \<not> sourceIsCondition nodesById base
          | Some handle \<Rightarrow> handleOk nodesById base handle (edge_to edge)))"

lemma wires_validateHandle:
  assumes "mget nb base = Some node"
  shows "wires (validateHandle node handle target loc i) [] (handleOk nb base handle target)"
proof (cases node)
  case (NCondition c)
  let ?find = "find (\<lambda>b. handleMatches handle (br_when b)) (cn_branches c)"
  show ?thesis
  proof (cases ?find)
    case None
    show ?thesis
      by (rule wires_cong[OF wires_push]) (simp_all add: validateHandle_def handleOk_def assms NCondition None)
  next
    case (Some b)
    show ?thesis
      by (rule wires_cong[OF wires_if[where b = "br_target b \<noteq> target", OF wires_push wires_skip]])
        (simp_all add: validateHandle_def handleOk_def assms NCondition Some)
  qed
qed (auto intro!: wires_cong[OF wires_push] simp: validateHandle_def handleOk_def assms)

lemma wires_validateStructuralEdge:
  "wires (validateStructuralEdge nb edge i) (structuralEdge nb edge) (edgeOk nb edge)"
proof -
  let ?base = "edgeBase (edge_from edge)" and ?to = "edge_to edge"
  let ?loc = "EdgeLocator ?base ?to"
  let ?src = "\<lambda>st. if mget nb ?base = None then pushIssue unknown_edge_target ?loc (EdgeSourceNotNode ?base) st else st"
  let ?tgt = "\<lambda>st. if \<not> hasNode nb ?to then pushIssue unknown_edge_target ?loc (EdgeTargetNotNode ?to) st else st"
  let ?route = "\<lambda>st. case edgeHandle (edge_from edge) of
      Some handle \<Rightarrow> (case mget nb ?base of None \<Rightarrow> st | Some node \<Rightarrow> validateHandle node handle ?to ?loc i st)
    | None \<Rightarrow> (case mget nb ?base of
          Some (NCondition _) \<Rightarrow>
            if hasNode nb ?to then pushIssue invalid_handle ?loc (PlainEdgeFromCondition ?base) st
            else addEdge ?base ?to st
        | _ \<Rightarrow> addEdge ?base ?to st)"
  have s: "wires ?src [] (hasNode nb ?base)"
    by (rule wires_cong[OF wires_if[OF wires_push wires_skip]]) (auto simp: hasNode_def)
  have t: "wires ?tgt [] (hasNode nb ?to)"
    by (rule wires_cong[OF wires_if[OF wires_push wires_skip]]) auto
  have r: "wires ?route (structuralEdge nb edge)
      (case edgeHandle (edge_from edge) of
         Some handle \<Rightarrow> mget nb ?base = None \<or> handleOk nb ?base handle ?to
       | None \<Rightarrow> \<not> (sourceIsCondition nb ?base \<and> hasNode nb ?to))"
  proof (cases "edgeHandle (edge_from edge)")
    case (Some handle)
    then show ?thesis
      using wires_skip wires_validateHandle[of nb ?base _ handle ?to ?loc i]
      by (cases "mget nb ?base") (auto simp: structuralEdge_def)
  next
    case None
    show ?thesis
    proof (cases "sourceIsCondition nb ?base \<and> hasNode nb ?to")
      case True
      then obtain c where "mget nb ?base = Some (NCondition c)"
        by (auto simp: sourceIsCondition_def split: option.splits WorkflowNode.splits)
      with True None show ?thesis
        by (auto simp: structuralEdge_def intro: wires_cong[OF wires_push])
    next
      case False
      then have "?route st = addEdge ?base ?to st" for st
        using None by (auto simp: sourceIsCondition_def split: option.splits WorkflowNode.splits)
      with False None show ?thesis
        by (auto simp: structuralEdge_def intro: wires_cong[OF wires_add])
    qed
  qed
  from wires_comp[OF wires_comp[OF s t] r] show ?thesis
    by (rule wires_cong)
      (auto simp: validateStructuralEdge_def Let_def edgeOk_def hasNode_def split: option.splits)
qed

lemma wires_wireParallelNode:
  "wires (wireParallelNode nb p) (map (Pair (pn_id p)) (pn_parallel_of p))
     (\<forall>m \<in> set (pn_parallel_of p). hasNode nb m)"
proof -
  have "wires (fold (\<lambda>(j, m) st. addEdge (pn_id p) m (if \<not> hasNode nb m
      then pushIssue unknown_edge_target (NodeIndexed (pn_id p) ''parallel_of'' j '''') (MemberNotNode m) st
      else st)) (enumerate 0 (pn_parallel_of p)))
    (concat (map (\<lambda>(j, m). [(pn_id p, m)]) (enumerate 0 (pn_parallel_of p))))
    (\<forall>x \<in> set (enumerate 0 (pn_parallel_of p)). hasNode nb (snd x))"
    by (rule wires_fold) (auto simp: wires_checked_add split: prod.split)
  moreover have "concat (map (\<lambda>(j, m). [(pn_id p, m)]) (enumerate k xs)) = map (Pair (pn_id p)) xs" for k xs
    by (induction xs arbitrary: k) auto
  moreover have "(\<forall>x \<in> set (enumerate k xs). P (snd x)) \<longleftrightarrow> (\<forall>m \<in> set xs. P m)" for k xs and P :: "node_id \<Rightarrow> bool"
    by (induction xs arbitrary: k) auto
  ultimately show ?thesis by (elim wires_cong) (auto simp: wireParallelNode_def)
qed

definition conditionTargets :: "ConditionNode \<Rightarrow> node_id list" where
  "conditionTargets c = map br_target (cn_branches c) @ (case cn_default c of None \<Rightarrow> [] | Some d \<Rightarrow> [d])"

lemma wires_wireConditionNode:
  "wires (wireConditionNode nb c) (map (Pair (cn_id c)) (conditionTargets c))
     (\<forall>t \<in> set (conditionTargets c). hasNode nb t)"
proof -
  let ?f = "\<lambda>(j, b) st. addEdge (cn_id c) (br_target b) (if \<not> hasNode nb (br_target b)
      then pushIssue unknown_edge_target (NodeIndexed (cn_id c) ''branches'' j ''target_node'')
        (BranchTargetNotNode (br_target b)) st else st)"
  have "wires (fold ?f (enumerate 0 (cn_branches c)))
    (concat (map (\<lambda>(j, b). [(cn_id c, br_target b)]) (enumerate 0 (cn_branches c))))
    (\<forall>x \<in> set (enumerate 0 (cn_branches c)). hasNode nb (br_target (snd x)))"
    by (rule wires_fold) (auto simp: wires_checked_add split: prod.split)
  moreover have "concat (map (\<lambda>(j, b). [(cn_id c, br_target b)]) (enumerate k xs)) =
      map (Pair (cn_id c)) (map br_target xs)" for k and xs :: "ConditionBranch list"
    by (induction xs arbitrary: k) auto
  moreover have "(\<forall>x \<in> set (enumerate k xs). hasNode nb (br_target (snd x))) \<longleftrightarrow>
      (\<forall>b \<in> set xs. hasNode nb (br_target b))" for k and xs :: "ConditionBranch list"
    by (induction xs arbitrary: k) auto
  ultimately have b: "wires (fold ?f (enumerate 0 (cn_branches c)))
      (map (Pair (cn_id c)) (map br_target (cn_branches c))) (\<forall>b \<in> set (cn_branches c). hasNode nb (br_target b))"
    by (elim wires_cong) auto
  show ?thesis
  proof (cases "cn_default c")
    case None
    with b show ?thesis
      by (elim wires_cong) (auto simp: wireConditionNode_def conditionTargets_def)
  next
    case (Some d)
    show ?thesis
      by (rule wires_cong[OF wires_comp[OF b wires_checked_add[of "cn_id c" d "hasNode nb d" unknown_edge_target
              "NodeField (cn_id c) ''default''" "DefaultTargetNotNode d"]]])
        (auto simp: wireConditionNode_def conditionTargets_def Some)
  qed
qed

lemma wires_fold_refs:
  "wires (fold (\<lambda>ref st. if P ref then addEdge (ref_identifier ref) consumer st else st) refs)
     (map (\<lambda>r. (ref_identifier r, consumer)) (filter P refs)) True"
proof -
  have "wires (fold (\<lambda>ref st. if P ref then addEdge (ref_identifier ref) consumer st else st) refs)
      (concat (map (\<lambda>r. if P r then [(ref_identifier r, consumer)] else []) refs))
      (\<forall>r \<in> set refs. if P r then True else True)"
    by (intro wires_fold wires_if wires_add wires_skip)
  moreover have "concat (map (\<lambda>r. if P r then [(ref_identifier r, consumer)] else []) refs) =
      map (\<lambda>r. (ref_identifier r, consumer)) (filter P refs)"
    by (induction refs) auto
  ultimately show ?thesis by (elim wires_cong) auto
qed

definition promptEdges :: "nodes_by_id \<Rightarrow> AgentNode \<Rightarrow> Agent \<Rightarrow> (node_id \<times> node_id) list" where
  "promptEdges nb n ag =
     map (\<lambda>r. (ref_identifier r, an_id n))
       (filter (\<lambda>r. ref_kind r = RNode \<and> hasNode nb (ref_identifier r)) (templateReferences (ag_system_prompt ag)))"

definition ownDataEdges :: "WorkflowNode \<Rightarrow> (node_id \<times> node_id) list" where
  "ownDataEdges node =
     concat (map (\<lambda>site. map (\<lambda>r. (ref_identifier r, node_id_of node))
       (filter (\<lambda>r. ref_kind r = RNode) (site_references site))) (nodeReferenceSites node))"

lemma wires_wireOwnDataEdges: "wires (wireOwnDataEdges node) (ownDataEdges node) True"
  unfolding wireOwnDataEdges_def ownDataEdges_def
  by (rule wires_cong[OF wires_fold[OF wires_fold_refs]]) auto

section \<open>Tool grants\<close>

text \<open>The grant of a node is checkable unless its agent waits for MCP servers.\<close>

definition grantCheckable :: "Agent \<Rightarrow> bool \<Rightarrow> bool" where
  "grantCheckable ag grantsFinal \<longleftrightarrow>
     (case ag_mcp_servers ag of None \<Rightarrow> True | Some ms \<Rightarrow> ms = []) \<or> grantsFinal"

definition grantedTools :: "Agent \<Rightarrow> string list" where
  "grantedTools ag = (case ag_tools ag of None \<Rightarrow> [] | Some ts \<Rightarrow> ts)"

definition grantNarrows :: "AgentNode \<Rightarrow> Agent \<Rightarrow> bool \<Rightarrow> bool" where
  "grantNarrows n ag grantsFinal \<longleftrightarrow>
     grantCheckable ag grantsFinal \<longrightarrow> (\<forall>tools. an_tools n = Some tools \<longrightarrow> set tools \<subseteq> set (grantedTools ag))"

lemma toolGrantScan_effect:
  "\<exists>I. (\<forall>st. toolGrantScan n granted its (r, w, st) =
           (r + length I, w + length (filter (\<lambda>(i, t). t \<notin> set granted) its), applyAll [] I st)) \<and>
       length I = min (MAX_REPORTED_WIDENINGS - r) (length (filter (\<lambda>(i, t). t \<notin> set granted) its)) \<and>
       (\<forall>i \<in> set I. gi_kind i = tool_grant_widened)"
proof (induction its arbitrary: r w)
  case Nil
  then show ?case by (intro exI[of _ "[]"]) (simp add: applyAll_def)
next
  case (Cons it its)
  obtain i t where it: "it = (i, t)" by (cases it)
  show ?case
  proof (cases "t \<in> set granted \<or> MAX_REPORTED_WIDENINGS \<le> r")
    case True
    then show ?thesis
      using Cons.IH[of r w] Cons.IH[of r "w + 1"] by (auto simp: it)
  next
    case False
    let ?new = "\<lparr>gi_field = NodeIndexed (an_id n) ''tools'' i '''',
      gi_message = ToolNotGranted (an_agent_ref n), gi_kind = tool_grant_widened\<rparr>"
    from Cons.IH[of "r + 1" "w + 1"] obtain I where I:
      "\<forall>st. toolGrantScan n granted its (r + 1, w + 1, st) =
         (r + 1 + length I, w + 1 + length (filter (\<lambda>(i, t). t \<notin> set granted) its), applyAll [] I st)"
      "length I = min (MAX_REPORTED_WIDENINGS - (r + 1)) (length (filter (\<lambda>(i, t). t \<notin> set granted) its))"
      "\<forall>i \<in> set I. gi_kind i = tool_grant_widened" by blast
    have "applyAll [] I (pushIssue tool_grant_widened (NodeIndexed (an_id n) ''tools'' i '''')
        (ToolNotGranted (an_agent_ref n)) st) = applyAll [] (?new # I) st" for st
      by (simp add: applyAll_def pushIssue_def)
    with I False show ?thesis
      by (intro exI[of _ "?new # I"]) (auto simp: it)
  qed
qed

lemma length_filter_enumerate:
  "length (filter (\<lambda>(i, t). P t) (enumerate k xs)) = length (filter P xs)"
  by (induction xs arbitrary: k) auto

text \<open>One agent node reports at most eleven widenings, none exactly if its tools narrow the grant.\<close>

lemma collectToolGrantIssues_effect:
  "\<exists>I. (\<forall>st. collectToolGrantIssues n ag final st = applyAll [] I st) \<and>
       (I = [] \<longleftrightarrow> grantNarrows n ag final) \<and> length I \<le> MAX_REPORTED_WIDENINGS + 1 \<and>
       (\<forall>i \<in> set I. gi_kind i = tool_grant_widened)"
proof (cases "an_tools n = None \<or> an_tools n = Some [] \<or> \<not> grantCheckable ag final")
  case True
  then have "collectToolGrantIssues n ag final st = st" for st
    by (auto simp: collectToolGrantIssues_def grantCheckable_def split: option.splits)
  then show ?thesis using True
    by (intro exI[of _ "[]"]) (auto simp: applyAll_def grantNarrows_def)
next
  case False
  then obtain tools where tools: "an_tools n = Some tools" "tools \<noteq> []" by (cases "an_tools n") auto
  let ?its = "enumerate 0 tools" and ?g = "grantedTools ag"
  let ?w = "length (filter (\<lambda>(i, t). t \<notin> set ?g) ?its)"
  from toolGrantScan_effect[of n ?g ?its 0 0] obtain I where
    I: "\<And>st. toolGrantScan n ?g ?its (0, 0, st) = (length I, ?w, applyAll [] I st)"
    "length I = min MAX_REPORTED_WIDENINGS ?w" "\<forall>i \<in> set I. gi_kind i = tool_grant_widened" by auto
  let ?more = "if length I < ?w
    then [\<lparr>gi_field = NodeField (an_id n) ''tools'',
           gi_message = FurtherToolsNotGranted (?w - length I) (an_agent_ref n) (length I) ?w,
           gi_kind = tool_grant_widened\<rparr>] else []"
  have nc: "\<not> ((case ag_mcp_servers ag of None \<Rightarrow> [] | Some ms \<Rightarrow> ms) \<noteq> [] \<and> \<not> final)"
    using False by (auto simp: grantCheckable_def split: option.splits)
  have "collectToolGrantIssues n ag final st = applyAll [] (I @ ?more) st" for st
    unfolding collectToolGrantIssues_def tools(1) option.case if_not_P[OF tools(2)] if_not_P[OF nc] Let_def
      I(1)[unfolded grantedTools_def] prod.case grantedTools_def
    by (simp add: pushIssue_def applyAll_def)
  moreover have "?w = 0 \<longleftrightarrow> set tools \<subseteq> set ?g"
    by (auto simp: length_filter_enumerate filter_empty_conv)
  then have "I @ ?more = [] \<longleftrightarrow> grantNarrows n ag final"
    using I(2) False tools by (auto simp: grantNarrows_def MAX_REPORTED_WIDENINGS_def)
  ultimately show ?thesis using I(2,3) by (intro exI[of _ "I @ ?more"]) auto
qed

lemma wires_collectToolGrantIssues:
  "wires (collectToolGrantIssues n ag final) [] (grantNarrows n ag final)"
  using collectToolGrantIssues_effect[of n ag final] unfolding wires_def by blast

section \<open>A whole pass over the document\<close>

definition agentOk :: "BuildContext \<Rightarrow> AgentNode \<Rightarrow> bool" where
  "agentOk ctx n =
     (case mget (cx_agentsById ctx) (an_agent_ref n) of
        None \<Rightarrow> \<not> cx_registrySupplied ctx
      | Some ag \<Rightarrow> grantNarrows n ag (cx_grantsFinal ctx))"

definition nodeOk :: "BuildContext \<Rightarrow> WorkflowNode \<Rightarrow> bool" where
  "nodeOk ctx node =
     (case node of
        NParallel p \<Rightarrow> \<forall>m \<in> set (pn_parallel_of p). hasNode (cx_nodesById ctx) m
      | NCondition c \<Rightarrow> \<forall>t \<in> set (conditionTargets c). hasNode (cx_nodesById ctx) t
      | NAgent n \<Rightarrow> agentOk ctx n
      | _ \<Rightarrow> True)"

definition routingEdges :: "BuildContext \<Rightarrow> WorkflowNode \<Rightarrow> (node_id \<times> node_id) list" where
  "routingEdges ctx node =
     (case node of
        NParallel p \<Rightarrow> map (Pair (pn_id p)) (pn_parallel_of p)
      | NCondition c \<Rightarrow> map (Pair (cn_id c)) (conditionTargets c)
      | NAgent n \<Rightarrow>
          (case mget (cx_agentsById ctx) (an_agent_ref n) of
             None \<Rightarrow> []
           | Some ag \<Rightarrow> promptEdges (cx_nodesById ctx) n ag)
      | _ \<Rightarrow> [])"

lemma wires_validateAgentNode:
  "wires (validateAgentNode ctx n) (routingEdges ctx (NAgent n)) (agentOk ctx n)"
proof (cases "mget (cx_agentsById ctx) (an_agent_ref n)")
  case None
  show ?thesis
    by (rule wires_cong[OF wires_if[where b = "cx_registrySupplied ctx", OF wires_push wires_skip]])
      (simp_all add: validateAgentNode_def routingEdges_def agentOk_def None)
next
  case (Some ag)
  have "wires (wireDataEdges (ag_system_prompt ag) (an_id n) (cx_nodesById ctx))
      (promptEdges (cx_nodesById ctx) n ag) True"
    using wires_fold_refs by (rule wires_cong) (simp_all add: wireDataEdges_def promptEdges_def)
  from wires_comp[OF this wires_collectToolGrantIssues[of n ag "cx_grantsFinal ctx"]] show ?thesis
    by (rule wires_cong) (simp_all add: validateAgentNode_def routingEdges_def agentOk_def Some)
qed

lemma wires_wireNode: "wires (wireNode ctx node) (routingEdges ctx node @ ownDataEdges node) (nodeOk ctx node)"
proof -
  have "wires (\<lambda>st. case node of
          NParallel p \<Rightarrow> wireParallelNode (cx_nodesById ctx) p st
        | NCondition c \<Rightarrow> wireConditionNode (cx_nodesById ctx) c st
        | NAgent a \<Rightarrow> validateAgentNode ctx a st
        | _ \<Rightarrow> st) (routingEdges ctx node) (nodeOk ctx node)"
    using wires_wireParallelNode wires_wireConditionNode wires_validateAgentNode wires_skip
    by (cases node) (auto simp: routingEdges_def nodeOk_def)
  from wires_comp[OF this wires_wireOwnDataEdges[of node]] show ?thesis
    by (rule wires_cong) (simp_all add: wireNode_def)
qed

text \<open>All edges the document declares, in the order the builder attempts them.\<close>

definition declaredEdges :: "BuildContext \<Rightarrow> WorkflowSpec \<Rightarrow> (node_id \<times> node_id) list" where
  "declaredEdges ctx spec =
     concat (map (structuralEdge (cx_nodesById ctx)) (ws_edges spec))
     @ concat (map (\<lambda>node. routingEdges ctx node @ ownDataEdges node) (ws_nodes spec))"

definition routingOk :: "BuildContext \<Rightarrow> WorkflowSpec \<Rightarrow> bool" where
  "routingOk ctx spec \<longleftrightarrow>
     (\<forall>edge \<in> set (ws_edges spec). edgeOk (cx_nodesById ctx) edge) \<and>
     (\<forall>node \<in> set (ws_nodes spec). nodeOk ctx node)"

lemma wires_validateAndWireEdges:
  "wires (validateAndWireEdges ctx spec) (declaredEdges ctx spec) (routingOk ctx spec)"
proof -
  have "wires (fold (\<lambda>(i, e). validateStructuralEdge (cx_nodesById ctx) e i) (enumerate 0 (ws_edges spec)))
      (concat (map (\<lambda>(i, e). structuralEdge (cx_nodesById ctx) e) (enumerate 0 (ws_edges spec))))
      (\<forall>x \<in> set (enumerate 0 (ws_edges spec)). edgeOk (cx_nodesById ctx) (snd x))"
    by (rule wires_fold) (auto simp: wires_validateStructuralEdge split: prod.split)
  moreover have "map (\<lambda>(i, e). structuralEdge nb e) (enumerate k es) = map (structuralEdge nb) es" for k es nb
    by (induction es arbitrary: k) auto
  moreover have "(\<forall>x \<in> set (enumerate k es). edgeOk nb (snd x)) \<longleftrightarrow> (\<forall>e \<in> set es. edgeOk nb e)" for k es nb
    by (induction es arbitrary: k) auto
  ultimately have "wires (fold (\<lambda>(i, e). validateStructuralEdge (cx_nodesById ctx) e i) (enumerate 0 (ws_edges spec)))
      (concat (map (structuralEdge (cx_nodesById ctx)) (ws_edges spec)))
      (\<forall>e \<in> set (ws_edges spec). edgeOk (cx_nodesById ctx) e)"
    by simp
  from wires_comp[OF this wires_fold[of "ws_nodes spec", OF wires_wireNode]] show ?thesis
    by (rule wires_cong) (simp_all add: validateAndWireEdges_def declaredEdges_def routingOk_def)
qed

section \<open>The wired graph\<close>

lemma adj_map_upd [simp]: "adj (m(v \<mapsto> xs)) w = (if w = v then xs else adj m w)"
  by (simp add: adj_def)

lemma addEdge_graph:
  assumes wf: "wf_graph ids (bs_dependents st) (bs_dependencies st)"
  shows "wf_graph ids (bs_dependents (addEdge p c st)) (bs_dependencies (addEdge p c st))"
    and "edges (bs_dependencies (addEdge p c st)) =
         edges (bs_dependencies st) \<union> (if p \<in> set ids \<and> c \<in> set ids then {(p, c)} else {})"
proof -
  have "dom (bs_dependents st) = set ids" "dom (bs_dependencies st) = set ids"
    using wf by (simp_all add: wf_graph_def)
  then have dom: "(bs_dependents st p = None) \<longleftrightarrow> p \<notin> set ids" "(bs_dependencies st c = None) \<longleftrightarrow> c \<notin> set ids"
    by (metis domIff)+
  have "wf_graph ids (bs_dependents (addEdge p c st)) (bs_dependencies (addEdge p c st)) \<and>
      edges (bs_dependencies (addEdge p c st)) =
         edges (bs_dependencies st) \<union> (if p \<in> set ids \<and> c \<in> set ids then {(p, c)} else {})"
  proof (cases "p \<in> set ids \<and> c \<in> set ids")
    case False
    then have "addEdge p c st = st" using dom by (auto simp: addEdge_def split: option.split)
    with wf False show ?thesis by auto
  next
    case True
    then obtain outs ins where oi: "bs_dependents st p = Some outs" "bs_dependencies st c = Some ins"
      using dom by auto
    then have a: "adj (bs_dependents st) p = outs" "adj (bs_dependencies st) c = ins" by (simp_all add: adj_def)
    have d: "bs_dependents (addEdge p c st) = (bs_dependents st)(p \<mapsto> set_add c outs)"
      "bs_dependencies (addEdge p c st) = (bs_dependencies st)(c \<mapsto> set_add p ins)"
      using oi by (simp_all add: addEdge_def)
    have "edges (bs_dependencies (addEdge p c st)) = insert (p, c) (edges (bs_dependencies st))"
      using a by (auto simp: d edges_def)
    moreover have "wf_graph ids (bs_dependents (addEdge p c st)) (bs_dependencies (addEdge p c st))"
      using wf True a unfolding d wf_graph_def by auto
    ultimately show ?thesis using True by auto
  qed
  then show "wf_graph ids (bs_dependents (addEdge p c st)) (bs_dependencies (addEdge p c st))"
    and "edges (bs_dependencies (addEdge p c st)) =
         edges (bs_dependencies st) \<union> (if p \<in> set ids \<and> c \<in> set ids then {(p, c)} else {})" by auto
qed

lemma fold_addEdge_graph:
  "wf_graph ids (bs_dependents st) (bs_dependencies st) \<Longrightarrow>
     wf_graph ids (bs_dependents (fold (\<lambda>(p, c). addEdge p c) E st)) (bs_dependencies (fold (\<lambda>(p, c). addEdge p c) E st)) \<and>
     edges (bs_dependencies (fold (\<lambda>(p, c). addEdge p c) E st)) =
       edges (bs_dependencies st) \<union> (set E \<inter> (set ids \<times> set ids))"
proof (induction E arbitrary: st)
  case (Cons e E)
  obtain p c where e: "e = (p, c)" by (cases e)
  note a = addEdge_graph[OF Cons.prems, of p c]
  from Cons.IH[OF a(1)] a(2) show ?case by (auto simp: e split: if_splits)
qed simp

lemma keys_indexNodes: "set (mkeys (indexNodes spec)) = node_id_of ` set (ws_nodes spec)"
proof -
  have "fst ` set (fold (\<lambda>n m. mset_key (node_id_of n) n m) ns m) = node_id_of ` set ns \<union> fst ` set m" for ns m
    by (induction ns arbitrary: m) (auto simp: keys_mset_key)
  then show ?thesis by (simp add: indexNodes_def mkeys_def)
qed

lemma hasNode_iff: "hasNode (indexNodes spec) v \<longleftrightarrow> v \<in> node_id_of ` set (ws_nodes spec)"
  using keys_indexNodes[of spec] by (simp add: hasNode_def mget_None_iff mkeys_def)

lemma emptyAdjacency_wf:
  "distinct (map node_id_of (ws_nodes spec)) \<Longrightarrow>
     wf_graph (map node_id_of (ws_nodes spec)) (emptyAdjacency spec) (emptyAdjacency spec)"
  and edges_emptyAdjacency: "edges (emptyAdjacency spec) = {}"
  by (auto simp: wf_graph_def emptyAdjacency_def adj_def keys_indexNodes edges_def dom_def split: if_splits)

abbreviation buildContext :: "WorkflowSpec \<Rightarrow> BuildOptions \<Rightarrow> BuildContext" where
  "buildContext spec opts \<equiv>
     \<lparr>cx_agentsById = fst (resolveAgents spec (opt_agents opts)),
      cx_registrySupplied = (opt_agents opts \<noteq> None),
      cx_nodesById = indexNodes spec, cx_grantsFinal = opt_toolGrantsFinal opts\<rparr>"

abbreviation nodeIds :: "WorkflowSpec \<Rightarrow> node_id list" where
  "nodeIds spec \<equiv> map node_id_of (ws_nodes spec)"

lemma wiredState_effect:
  assumes "distinct (nodeIds spec)"
  shows "wf_graph (nodeIds spec) (bs_dependents (wiredState spec opts)) (bs_dependencies (wiredState spec opts))"
    and "edges (bs_dependencies (wiredState spec opts)) =
         set (declaredEdges (buildContext spec opts) spec) \<inter> (set (nodeIds spec) \<times> set (nodeIds spec))"
    and "bs_issues (wiredState spec opts) = [] \<longleftrightarrow>
         collectCeilingIssues spec (fst (resolveAgents spec (opt_agents opts))) = [] \<and>
         routingOk (buildContext spec opts) spec"
proof -
  let ?ctx = "buildContext spec opts"
  let ?st0 = "\<lparr>bs_dependents = emptyAdjacency spec, bs_dependencies = emptyAdjacency spec,
     bs_issues = collectCeilingIssues spec (fst (resolveAgents spec (opt_agents opts)))\<rparr>"
  from wires_validateAndWireEdges[of ?ctx spec] obtain I where
    I: "validateAndWireEdges ?ctx spec ?st0 = applyAll (declaredEdges ?ctx spec) I ?st0"
    "I = [] \<longleftrightarrow> routingOk ?ctx spec" unfolding wires_def by blast
  have w: "wiredState spec opts = applyAll (declaredEdges ?ctx spec) I ?st0"
    using I(1) by (simp add: wiredState_def Let_def)
  have "wf_graph (nodeIds spec) (bs_dependents ?st0) (bs_dependencies ?st0)"
    using emptyAdjacency_wf[OF assms] by simp
  note g = fold_addEdge_graph[OF this, of "declaredEdges ?ctx spec"]
  show "wf_graph (nodeIds spec) (bs_dependents (wiredState spec opts)) (bs_dependencies (wiredState spec opts))"
    using g by (simp add: w applyAll_def)
  show "edges (bs_dependencies (wiredState spec opts)) =
      set (declaredEdges ?ctx spec) \<inter> (set (nodeIds spec) \<times> set (nodeIds spec))"
    using g edges_emptyAdjacency by (simp add: w applyAll_def)
  show "bs_issues (wiredState spec opts) = [] \<longleftrightarrow>
      collectCeilingIssues spec (fst (resolveAgents spec (opt_agents opts))) = [] \<and> routingOk ?ctx spec"
    using I(2) by (simp add: w applyAll_def)
qed

end
