(* ===== verification/Plan_Correctness.thy ===== *)
theory Plan_Correctness
  imports Dag_Wiring
begin

text \<open>
  Correctness of \<open>buildRunPlan\<close>: when it returns a plan, what the plan promises, and what it reports
  otherwise. The lemmas of the graph algorithms (\<open>Topo_Order\<close>) and of the wiring (\<open>Dag_Wiring\<close>) are
  combined here.
\<close>

section \<open>The authored index\<close>

lemma fold_index:
  "distinct (map node_id_of ns) \<Longrightarrow> i < length ns \<Longrightarrow>
     fold (\<lambda>(i, n) m. m(node_id_of n \<mapsto> i)) (enumerate k ns) m (node_id_of (ns ! i)) = Some (k + i)"
proof (induction ns arbitrary: k m i)
  case (Cons n ns)
  have keep: "fold (\<lambda>(i, n) m. m(node_id_of n \<mapsto> i)) (enumerate k' ns') m' v = m' v"
    if "v \<notin> node_id_of ` set ns'" for k' ns' m' v
    using that by (induction ns' arbitrary: k' m') auto
  show ?case
  proof (cases i)
    case 0
    have "fold (\<lambda>(i, n) m. m(node_id_of n \<mapsto> i)) (enumerate (Suc k) ns) (m(node_id_of n \<mapsto> k)) (node_id_of n) =
        (m(node_id_of n \<mapsto> k)) (node_id_of n)"
      using Cons.prems by (intro keep) simp
    with 0 show ?thesis by (simp del: fun_upd_apply) simp
  next
    case (Suc j)
    with Cons.prems Cons.IH[of j "Suc k"] show ?thesis by (simp del: fun_upd_apply)
  qed
qed simp

lemma authored_index: "distinct (nodeIds spec) \<Longrightarrow> authored (nodeIds spec) (authoredKey (authoredIndexOf spec))"
  using fold_index[of "ws_nodes spec" _ 0 Map.empty]
  by (auto simp: authored_def authoredKey_def authoredIndexOf_def)

section \<open>The order the builder computes\<close>

definition builtOrder :: "WorkflowSpec \<Rightarrow> BuildOptions \<Rightarrow> node_id list" where
  "builtOrder spec opts =
     topoSpec (length (ws_nodes spec)) (nodeIds spec) (bs_dependencies (wiredState spec opts)) []"

abbreviation depEdges :: "WorkflowSpec \<Rightarrow> BuildOptions \<Rightarrow> (node_id \<times> node_id) set" where
  "depEdges spec opts \<equiv>
     set (declaredEdges (buildContext spec opts) spec) \<inter> (set (nodeIds spec) \<times> set (nodeIds spec))"

lemma builtOrder_facts:
  assumes "distinct (nodeIds spec)"
  shows "kahnOrder (nodeIds spec) (bs_dependents (wiredState spec opts)) (bs_dependencies (wiredState spec opts))
           (authoredIndexOf spec) = Some (builtOrder spec opts)"
    and "distinct (builtOrder spec opts)" and "set (builtOrder spec opts) \<subseteq> set (nodeIds spec)"
    and "closed_under (bs_dependencies (wiredState spec opts)) (builtOrder spec opts)"
    and "\<forall>v \<in> set (nodeIds spec). \<not> releasable (bs_dependencies (wiredState spec opts)) (builtOrder spec opts) v"
    and "length (builtOrder spec opts) = length (ws_nodes spec) \<longleftrightarrow> acyclic (depEdges spec opts)"
    and "length (builtOrder spec opts) \<le> length (ws_nodes spec)"
proof -
  let ?ins = "bs_dependencies (wiredState spec opts)" and ?outs = "bs_dependents (wiredState spec opts)"
  note w = wiredState_effect[OF assms, of opts]
  show "kahnOrder (nodeIds spec) ?outs ?ins (authoredIndexOf spec) = Some (builtOrder spec opts)"
    using kahnOrder_is_topoSpec[OF w(1) authored_index[OF assms]] by (simp add: builtOrder_def)
  show i: "distinct (builtOrder spec opts)" "set (builtOrder spec opts) \<subseteq> set (nodeIds spec)"
    "closed_under ?ins (builtOrder spec opts)"
    unfolding builtOrder_def
    using topoSpec_invariant[of "[]" "nodeIds spec" ?ins "length (ws_nodes spec)"] by (auto simp: closed_under_def)
  show "\<forall>v \<in> set (nodeIds spec). \<not> releasable ?ins (builtOrder spec opts) v"
    unfolding builtOrder_def using assms by (intro topoSpec_maximal) auto
  have l: "length (builtOrder spec opts) = card (set (builtOrder spec opts))"
    "length (ws_nodes spec) = card (set (nodeIds spec))"
    using distinct_card[OF i(1)] distinct_card[OF assms] by simp_all
  then show "length (builtOrder spec opts) \<le> length (ws_nodes spec)"
    using i(2) by (simp add: card_mono)
  have "length (builtOrder spec opts) = length (ws_nodes spec) \<longleftrightarrow> set (builtOrder spec opts) = set (nodeIds spec)"
    using l i(2) card_subset_eq[of "set (nodeIds spec)" "set (builtOrder spec opts)"] by auto
  also have "\<dots> \<longleftrightarrow> acyclic (edges ?ins)"
    using topoSpec_complete_iff[OF w(1)] by (simp add: builtOrder_def)
  finally show "length (builtOrder spec opts) = length (ws_nodes spec) \<longleftrightarrow> acyclic (depEdges spec opts)"
    using w(2) by simp
qed

section \<open>When a plan is returned\<close>

text \<open>The findings on the finished graph, given the transitive closure.\<close>

definition closureMap :: "WorkflowSpec \<Rightarrow> BuildOptions \<Rightarrow> (node_id \<rightharpoonup> node_id list)" where
  "closureMap spec opts = computeAncestors (builtOrder spec opts) (bs_dependencies (wiredState spec opts))"

definition lateIssues ::
    "(string \<Rightarrow> node_id list) \<Rightarrow> (json \<Rightarrow> string option) \<Rightarrow> WorkflowSpec \<Rightarrow> BuildOptions \<Rightarrow> GraphIssue list" where
  "lateIssues reads compile spec opts =
     (let ags = fst (resolveAgents spec (opt_agents opts))
      in collectUnorderedReadIssues reads spec (closureMap spec opts) (unresolvedAgentIds spec ags)
         @ collectOutputSchemaIssues compile spec ags)"

definition agentLeaks :: "WorkflowSpec \<Rightarrow> BuildOptions \<Rightarrow> SecretLeak list option" where
  "agentLeaks spec opts =
     referencedAgentLeaks spec (opt_agents opts) (snd (resolveAgents spec (opt_agents opts)))"

lemma agentLeaks_total: "agentLeaks spec opts \<noteq> None"
  using computeTaint_exact[of spec]
  by (auto simp: agentLeaks_def referencedAgentLeaks_def analyzeResolvedAgentTaint_def split: option.splits)

lemma buildRunPlan_leak:
  "agentLeaks spec opts = Some leaks \<Longrightarrow> leaks \<noteq> [] \<Longrightarrow>
     buildRunPlan reads compile spec opts = Inl (SecretLeakError leaks)"
  by (simp add: buildRunPlan_def agentLeaks_def)

lemma buildRunPlan_cyclic:
  assumes d: "distinct (nodeIds spec)" and l: "agentLeaks spec opts = Some []"
    and cyc: "\<not> acyclic (depEdges spec opts)"
  shows "\<exists>late. buildRunPlan reads compile spec opts =
     Inl (GraphError (bs_issues (wiredState spec opts) @
       cycleIssue (extractCycle (nodeIds spec) (builtOrder spec opts) (bs_dependencies (wiredState spec opts))
         (authoredIndexOf spec)) # late))"
proof -
  note b = builtOrder_facts[OF d, of opts]
  have short: "length (builtOrder spec opts) < length (ws_nodes spec)" using b(6,7) cyc by linarith
  then show ?thesis
    using l by (simp add: buildRunPlan_def agentLeaks_def b(1) Let_def)
qed

lemma buildRunPlan_acyclic:
  assumes d: "distinct (nodeIds spec)" and l: "agentLeaks spec opts = Some []"
    and ac: "acyclic (depEdges spec opts)" and pre: "bs_issues (wiredState spec opts) = []"
  shows "buildRunPlan reads compile spec opts =
     (if lateIssues reads compile spec opts = []
      then Inr (assemblePlan spec (fst (resolveAgents spec (opt_agents opts))) (wiredState spec opts)
                  (builtOrder spec opts) (closureMap spec opts))
      else Inl (GraphError (lateIssues reads compile spec opts)))"
proof -
  note b = builtOrder_facts[OF d, of opts]
  have full: "length (builtOrder spec opts) = length (ws_nodes spec)" using b(6) ac by blast
  show ?thesis
    using l pre
    by (simp add: buildRunPlan_def agentLeaks_def b(1) Let_def full collectClosureIssues_def lateIssues_def
        closureMap_def)
qed

lemma buildRunPlan_pre_issues:
  assumes d: "distinct (nodeIds spec)" and l: "agentLeaks spec opts = Some []"
    and pre: "bs_issues (wiredState spec opts) \<noteq> []"
  shows "\<exists>issues. buildRunPlan reads compile spec opts = Inl (GraphError (bs_issues (wiredState spec opts) @ issues))"
  using l pre by (simp add: buildRunPlan_def agentLeaks_def builtOrder_facts(1)[OF d, of opts] Let_def)

text \<open>Acceptance: exactly the documents that obey every rule are compiled.\<close>

definition admissible ::
    "(string \<Rightarrow> node_id list) \<Rightarrow> (json \<Rightarrow> string option) \<Rightarrow> WorkflowSpec \<Rightarrow> BuildOptions \<Rightarrow> bool" where
  "admissible reads compile spec opts \<longleftrightarrow>
     agentLeaks spec opts = Some [] \<and>
     collectCeilingIssues spec (fst (resolveAgents spec (opt_agents opts))) = [] \<and>
     routingOk (buildContext spec opts) spec \<and> acyclic (depEdges spec opts) \<and>
     lateIssues reads compile spec opts = []"

lemma buildRunPlan_Inr_iff:
  assumes d: "distinct (nodeIds spec)"
  shows "(\<exists>plan. buildRunPlan reads compile spec opts = Inr plan) \<longleftrightarrow> admissible reads compile spec opts"
proof (cases "agentLeaks spec opts = Some []")
  case False
  then obtain leaks where "agentLeaks spec opts = Some leaks" "leaks \<noteq> []"
    using agentLeaks_total by fastforce
  then show ?thesis using buildRunPlan_leak by (simp add: admissible_def)
next
  case l: True
  note pre = wiredState_effect(3)[OF d, of opts]
  show ?thesis
  proof (cases "bs_issues (wiredState spec opts) = []")
    case False
    with buildRunPlan_pre_issues[OF d l False, of reads compile] pre show ?thesis by (auto simp: admissible_def)
  next
    case p: True
    show ?thesis
    proof (cases "acyclic (depEdges spec opts)")
      case False
      with buildRunPlan_cyclic[OF d l False, of reads compile] show ?thesis by (auto simp: admissible_def)
    next
      case True
      with buildRunPlan_acyclic[OF d l True p, of reads compile] pre l p show ?thesis
        by (auto simp: admissible_def)
    qed
  qed
qed

lemma buildRunPlan_InrD:
  assumes d: "distinct (nodeIds spec)" and plan: "buildRunPlan reads compile spec opts = Inr plan"
  shows "admissible reads compile spec opts"
    and "plan = assemblePlan spec (fst (resolveAgents spec (opt_agents opts))) (wiredState spec opts)
                  (builtOrder spec opts) (closureMap spec opts)"
proof -
  show a: "admissible reads compile spec opts" using buildRunPlan_Inr_iff[OF d] plan by blast
  then have "bs_issues (wiredState spec opts) = []"
    using wiredState_effect(3)[OF d, of opts] by (simp add: admissible_def)
  then show "plan = assemblePlan spec (fst (resolveAgents spec (opt_agents opts))) (wiredState spec opts)
                  (builtOrder spec opts) (closureMap spec opts)"
    using buildRunPlan_acyclic[OF d, of opts reads compile] a plan by (simp add: admissible_def)
qed

lemma buildRunPlan_total:
  assumes d: "distinct (nodeIds spec)"
  shows "buildRunPlan reads compile spec opts \<noteq> Inl OutOfFuel"
proof -
  obtain leaks where l: "agentLeaks spec opts = Some leaks" using agentLeaks_total by fastforce
  show ?thesis
    using l builtOrder_facts(1)[OF d, of opts] by (simp add: buildRunPlan_def agentLeaks_def Let_def)
qed

section \<open>The vertices of a plan\<close>

lemma mget_fold_vertices:
  "distinct (map node_id_of ns) \<Longrightarrow> node \<in> set ns \<Longrightarrow>
     mget (fold (\<lambda>node m. mset_key (node_id_of node) (f node) m) ns m) (node_id_of node) = Some (f node)"
proof (induction ns arbitrary: m)
  case (Cons n ns)
  have keep: "mget (fold (\<lambda>node m. mset_key (node_id_of node) (f node) m) ns' m') v = mget m' v"
    if "v \<notin> node_id_of ` set ns'" for ns' m' v
    using that by (induction ns' arbitrary: m') auto
  show ?case
  proof (cases "node \<in> set ns")
    case True
    with Cons show ?thesis by simp
  next
    case False
    with Cons.prems keep[of "node_id_of n" ns] show ?thesis by simp
  qed
qed simp

lemma assemblePlan_vertex:
  assumes "distinct (nodeIds spec)" and "node \<in> set (ws_nodes spec)"
  shows "\<exists>vtx. mget (rp_vertices (assemblePlan spec ags st order anc)) (node_id_of node) = Some vtx \<and>
     pv_id vtx = node_id_of node \<and> pv_type vtx = engineType node \<and>
     pv_dependencies vtx = sort_key (authoredKey (authoredIndexOf spec)) (adj (bs_dependencies st) (node_id_of node)) \<and>
     pv_dependents vtx = sort_key (authoredKey (authoredIndexOf spec)) (adj (bs_dependents st) (node_id_of node)) \<and>
     pv_ancestors vtx = adj anc (node_id_of node) \<and>
     pv_config vtx = buildConfig ags
       (computeMergeBranchOrder spec (bs_dependencies st) (authoredKey (authoredIndexOf spec)))
       (computeOutputFeeders spec (bs_dependencies st)) node"
proof -
  let ?f = "planVertex ags st (authoredKey (authoredIndexOf spec)) anc
    (computeMergeBranchOrder spec (bs_dependencies st) (authoredKey (authoredIndexOf spec)))
    (computeOutputFeeders spec (bs_dependencies st))"
  have "mget (rp_vertices (assemblePlan spec ags st order anc)) (node_id_of node) = Some (?f node)"
    using mget_fold_vertices[OF assms, of ?f "[]"] by (simp add: assemblePlan_def Let_def)
  then show ?thesis by (simp add: planVertex_def)
qed

lemma assemblePlan_no_other_vertex:
  "v \<notin> set (nodeIds spec) \<Longrightarrow> mget (rp_vertices (assemblePlan spec ags st order anc)) v = None"
proof -
  have "mget (fold (\<lambda>node m. mset_key (node_id_of node) (f node) m) ns m) v = mget m v"
    if "v \<notin> node_id_of ` set ns" for f :: "WorkflowNode \<Rightarrow> PlanVertex" and ns m
    using that by (induction ns arbitrary: m) auto
  then show "v \<notin> set (nodeIds spec) \<Longrightarrow> ?thesis" by (simp add: assemblePlan_def Let_def)
qed

section \<open>Branch order of a join\<close>

lemma pairStep_best:
  fixes spec preds mergeId
  defines "cand \<equiv> parallelCandidate preds mergeId" and "cover \<equiv> parallelCover spec mergeId"
  assumes "foldl (pairStep spec preds mergeId) (None, 0) ps = (paired, best)"
  shows "(paired = None \<longrightarrow> best = 0) \<and> (\<forall>p. paired = Some p \<longrightarrow> p \<in> set ps \<and> cand p \<and> cover p = best \<and> 0 < best) \<and>
         (\<forall>p \<in> set ps. cand p \<longrightarrow> cover p \<le> best)"
  using assms(3)
proof (induction ps arbitrary: paired best rule: rev_induct)
  case (snoc p ps)
  obtain pr b where fb: "foldl (pairStep spec preds mergeId) (None, 0) ps = (pr, b)"
    by (cases "foldl (pairStep spec preds mergeId) (None, 0) ps")
  have step: "(if \<not> cand p then (pr, b) else if b < cover p then (Some p, cover p) else (pr, b)) = (paired, best)"
    using snoc.prems fb by (auto simp: pairStep_def cand_def cover_def split: if_splits)
  from snoc.IH[OF fb] step show ?case by (auto split: if_splits)
qed simp

definition pairedParallel :: "WorkflowSpec \<Rightarrow> node_id list \<Rightarrow> node_id \<Rightarrow> ParallelNode option" where
  "pairedParallel spec preds mergeId = fst (foldl (pairStep spec preds mergeId) (None, 0) (parallelNodes spec))"

lemma pairedParallel_candidate:
  "pairedParallel spec preds mergeId = Some p \<Longrightarrow>
     p \<in> set (parallelNodes spec) \<and> parallelCandidate preds mergeId p \<and>
     (\<forall>q \<in> set (parallelNodes spec). parallelCandidate preds mergeId q \<longrightarrow>
        parallelCover spec mergeId q \<le> parallelCover spec mergeId p)"
  using pairStep_best[of spec preds mergeId "parallelNodes spec"]
  by (cases "foldl (pairStep spec preds mergeId) (None, 0) (parallelNodes spec)") (auto simp: pairedParallel_def)

lemma mergeBranches_exact:
  assumes preds: "distinct (adj deps v)" and self: "v \<notin> set (adj deps v)"
    and members: "\<forall>p \<in> set (parallelNodes spec). distinct (pn_parallel_of p)"
  shows "distinct (mergeBranches spec deps key v)"
    and "set (mergeBranches spec deps key v) = {b \<in> set (adj deps v). producing spec b}"
proof -
  let ?preds = "adj deps v"
  have b: "mergeBranches spec deps key v = filter (producing spec)
     (case pairedParallel spec ?preds v of
        None \<Rightarrow> sort_key key ?preds
      | Some p \<Rightarrow> filter (\<lambda>m. m \<noteq> v) (pn_parallel_of p) @
          sort_key key (filter (\<lambda>m. m \<notin> set (pn_parallel_of p)) ?preds))"
    by (simp add: mergeBranches_def Let_def pairedParallel_def)
  have "distinct (mergeBranches spec deps key v) \<and>
      set (mergeBranches spec deps key v) = {b \<in> set ?preds. producing spec b}"
  proof (cases "pairedParallel spec ?preds v")
    case None
    with preds show ?thesis by (simp add: b)
  next
    case (Some p)
    have p: "p \<in> set (parallelNodes spec)" "\<forall>m \<in> set (pn_parallel_of p). m = v \<or> m \<in> set ?preds"
      using pairedParallel_candidate[OF Some] by (auto simp: parallelCandidate_def)
    then have "distinct (pn_parallel_of p)" using members by blast
    with preds p(2) self Some show ?thesis by (auto simp: b)
  qed
  then show "distinct (mergeBranches spec deps key v)"
    and "set (mergeBranches spec deps key v) = {b \<in> set (adj deps v). producing spec b}" by auto
qed

section \<open>The edge ceiling counts every wired edge\<close>

definition inNodes :: "WorkflowSpec \<Rightarrow> node_id \<times> node_id \<Rightarrow> bool" where
  "inNodes spec = (\<lambda>(p, c). p \<in> set (nodeIds spec) \<and> c \<in> set (nodeIds spec))"

lemma length_concat_map_le:
  "(\<And>x. x \<in> set xs \<Longrightarrow> length (f x) \<le> g x) \<Longrightarrow> length (concat (map f xs)) \<le> (\<Sum>x\<leftarrow>xs. g x)"
  by (induction xs) (auto simp: add_mono)

lemma countMaterialisedEdges_sum:
  "countMaterialisedEdges spec ags nids = (\<Sum>node\<leftarrow>ws_nodes spec. materialisedEdges ags nids node)"
proof -
  have "foldl (\<lambda>s n. s + materialisedEdges ags nids n) k ns = k + (\<Sum>n\<leftarrow>ns. materialisedEdges ags nids n)" for k ns
    by (induction ns arbitrary: k) auto
  then show ?thesis by (simp add: countMaterialisedEdges_def)
qed

lemma length_filter_ownDataEdges:
  "length (filter (inNodes spec) (ownDataEdges node)) \<le> length (dataEdgeTargets node (nodeIds spec))"
proof -
  have "length (filter (inNodes spec) (map (\<lambda>r. (ref_identifier r, c)) (filter (\<lambda>r. ref_kind r = RNode) rs))) \<le>
      length (filter (\<lambda>p. p \<in> set (nodeIds spec)) (nodeRefIds rs))" for c rs
    by (induction rs) (auto simp: inNodes_def nodeRefIds_def)
  then have "length (filter (inNodes spec) (concat (map (\<lambda>s. map (\<lambda>r. (ref_identifier r, c))
      (filter (\<lambda>r. ref_kind r = RNode) (site_references s))) sites))) \<le>
      length (concat (map (\<lambda>s. filter (\<lambda>p. p \<in> set (nodeIds spec)) (nodeRefIds (site_references s))) sites))" for c sites
    by (induction sites) (auto simp: add_mono)
  then show ?thesis by (simp add: ownDataEdges_def dataEdgeTargets_def)
qed

lemma length_promptEdges:
  "length (promptEdges (indexNodes spec) n ag) =
     length (filter (\<lambda>p. p \<in> set (nodeIds spec)) (nodeRefIds (templateReferences (ag_system_prompt ag))))"
proof -
  have "length (filter (\<lambda>r. ref_kind r = RNode \<and> hasNode (indexNodes spec) (ref_identifier r)) rs) =
      length (filter (\<lambda>p. p \<in> set (nodeIds spec)) (nodeRefIds rs))" for rs
    by (induction rs) (auto simp: nodeRefIds_def hasNode_iff)
  then show ?thesis by (simp add: promptEdges_def)
qed

lemma length_node_edges:
  "length (filter (inNodes spec) (routingEdges (buildContext spec opts) node @ ownDataEdges node)) \<le>
     materialisedEdges (fst (resolveAgents spec (opt_agents opts))) (nodeIds spec) node"
proof -
  let ?ags = "fst (resolveAgents spec (opt_agents opts))" and ?ctx = "buildContext spec opts"
  have own: "length (filter (inNodes spec) (ownDataEdges node)) \<le> length (dataEdgeTargets node (nodeIds spec))"
    by (rule length_filter_ownDataEdges)
  have route: "length (routingEdges ?ctx node) \<le>
      (case node of NParallel p \<Rightarrow> length (pn_parallel_of p)
       | NCondition c \<Rightarrow> length (cn_branches c) + (if cn_default c = None then 0 else 1)
       | NAgent n \<Rightarrow> length (agentPromptTargets node ?ags (nodeIds spec))
       | _ \<Rightarrow> 0)"
    by (cases node)
      (auto simp: routingEdges_def conditionTargets_def agentPromptTargets_def length_promptEdges
        split: option.split)
  define R where "R = routingEdges ?ctx node"
  have "length (filter (inNodes spec) (R @ ownDataEdges node)) \<le>
      length R + length (dataEdgeTargets node (nodeIds spec))"
    unfolding filter_append length_append by (rule add_mono[OF length_filter_le own])
  also have "\<dots> \<le> materialisedEdges ?ags (nodeIds spec) node"
    using route unfolding R_def[symmetric] by (cases node) (simp_all add: materialisedEdges_def Let_def)
  finally show ?thesis by (simp add: R_def)
qed

lemma depEdges_le_totalEdges:
  "card (depEdges spec opts) \<le> totalEdges spec (fst (resolveAgents spec (opt_agents opts)))"
proof -
  let ?ctx = "buildContext spec opts" and ?ags = "fst (resolveAgents spec (opt_agents opts))"
  let ?E = "declaredEdges ?ctx spec"
  have "length (concat (map (structuralEdge (indexNodes spec)) (ws_edges spec))) \<le> (\<Sum>e\<leftarrow>ws_edges spec. 1)"
    by (rule length_concat_map_le) (simp add: structuralEdge_def Let_def)
  then have s: "length (filter (inNodes spec) (concat (map (structuralEdge (indexNodes spec)) (ws_edges spec)))) \<le>
      length (ws_edges spec)"
    by (simp add: sum_list_triv) (meson length_filter_le order_trans)
  have "length (filter (inNodes spec) (concat (map (\<lambda>node. routingEdges ?ctx node @ ownDataEdges node) (ws_nodes spec)))) =
      length (concat (map (\<lambda>node. filter (inNodes spec) (routingEdges ?ctx node @ ownDataEdges node)) (ws_nodes spec)))"
    by (simp add: filter_concat comp_def)
  also have "\<dots> \<le> (\<Sum>node\<leftarrow>ws_nodes spec. materialisedEdges ?ags (nodeIds spec) node)"
    by (rule length_concat_map_le) (rule length_node_edges)
  finally have n: "length (filter (inNodes spec) (concat (map (\<lambda>node. routingEdges ?ctx node @ ownDataEdges node)
      (ws_nodes spec)))) \<le> countMaterialisedEdges spec ?ags (nodeIds spec)"
    by (simp add: countMaterialisedEdges_sum)
  have "depEdges spec opts = set (filter (inNodes spec) ?E)" by (auto simp: inNodes_def)
  then have "card (depEdges spec opts) \<le> length (filter (inNodes spec) ?E)" by (metis card_length)
  also have "\<dots> \<le> totalEdges spec ?ags"
    using s n by (simp add: declaredEdges_def totalEdges_def)
  finally show ?thesis .
qed

section \<open>The rules of an admissible document, without the passes\<close>

text \<open>Registry prompts that reach a model through some agent node.\<close>

definition registryPrompts :: "WorkflowSpec \<Rightarrow> BuildOptions \<Rightarrow> string set" where
  "registryPrompts spec opts =
     {ag_system_prompt ag | ag n reg. opt_agents opts = Some reg \<and> NAgent n \<in> set (ws_nodes spec) \<and>
        an_agent_ref n \<notin> ag_id ` set (inlineAgents spec) \<and> mget reg (an_agent_ref n) = Some ag}"

definition agentRefs :: "WorkflowNode list \<Rightarrow> string set" where
  "agentRefs ns = {an_agent_ref n | n. NAgent n \<in> set ns}"

lemma agentRefs_Cons:
  "agentRefs (node # ns) = (case node of NAgent n \<Rightarrow> {an_agent_ref n} | _ \<Rightarrow> {}) \<union> agentRefs ns"
  by (auto simp: agentRefs_def split: WorkflowNode.splits)

lemma snd_promptsToRecheck:
  "snd ` set (promptsToRecheck reg inl ns seen) =
     {tpl. \<exists>r ag. tpl = ag_system_prompt ag \<and> r \<in> agentRefs ns \<and> r \<notin> set seen \<and> r \<notin> set inl \<and> mget reg r = Some ag}"
proof (induction ns arbitrary: seen)
  case Nil
  then show ?case by (simp add: agentRefs_def)
next
  case (Cons node ns)
  show ?case
  proof (cases node)
    case (NAgent n)
    let ?r = "an_agent_ref n"
    show ?thesis
    proof (cases "?r \<in> set seen \<or> ?r \<in> set inl")
      case True
      then have "snd ` set (promptsToRecheck reg inl (node # ns) seen) = snd ` set (promptsToRecheck reg inl ns seen)"
        by (simp add: NAgent)
      then show ?thesis unfolding Cons.IH agentRefs_Cons NAgent using True by auto
    next
      case False
      then have "snd ` set (promptsToRecheck reg inl (node # ns) seen) =
          (case mget reg ?r of None \<Rightarrow> {} | Some ag \<Rightarrow> {ag_system_prompt ag}) \<union>
          snd ` set (promptsToRecheck reg inl ns (set_add ?r seen))"
        by (cases "mget reg ?r") (simp_all add: NAgent)
      then show ?thesis
        unfolding Cons.IH agentRefs_Cons NAgent using False
        by (cases "mget reg ?r") (auto, (metis option.inject option.distinct(1))+)
    qed
  qed (use Cons.IH[of seen] in \<open>simp_all add: agentRefs_Cons\<close>)
qed

lemma agentLeaks_clean_iff:
  "agentLeaks spec opts = Some [] \<longleftrightarrow>
     (\<forall>tpl \<in> registryPrompts spec opts. \<forall>r \<in> set (templateReferences tpl). \<not> carries_secret spec r)"
proof (cases "opt_agents opts")
  case None
  then show ?thesis by (simp add: agentLeaks_def referencedAgentLeaks_def registryPrompts_def)
next
  case (Some reg)
  have inl: "set (fold (\<lambda>ag. set_add (ag_id ag)) ags acc) = ag_id ` set ags \<union> set acc" for ags acc
    by (induction ags arbitrary: acc) auto
  let ?texts = "promptsToRecheck reg (snd (resolveAgents spec (Some reg))) (ws_nodes spec) []"
  have "snd ` set ?texts = registryPrompts spec opts"
    unfolding snd_promptsToRecheck registryPrompts_def agentRefs_def
    by (auto simp: Some resolveAgents_def Let_def inl)
  moreover have "agentLeaks spec opts = Some [] \<longleftrightarrow>
      (\<forall>tpl \<in> snd ` set ?texts. \<forall>r \<in> set (templateReferences tpl). \<not> carries_secret spec r)"
    by (auto simp: agentLeaks_def referencedAgentLeaks_def Some analyzeResolvedAgentTaint_clean_iff)
  ultimately show ?thesis by simp
qed

text \<open>The numbers of the document are within the ceilings.\<close>

definition withinCeilings :: "WorkflowSpec \<Rightarrow> agents \<Rightarrow> bool" where
  "withinCeilings spec ags \<longleftrightarrow>
     length (ws_nodes spec) \<le> ceil_nodes \<and> totalEdges spec ags \<le> ceil_edges \<and>
     (\<forall>producer. card (documentTargets spec ags producer) \<le> ceil_fanOut) \<and>
     (\<forall>node \<in> set (ws_nodes spec). \<forall>r. node_retry node = Some r \<longrightarrow> retry_max r \<le> ceil_retryMax) \<and>
     (\<forall>m. ws_max_parallel spec = Some m \<longrightarrow> m \<le> ceil_maxParallel) \<and>
     (\<forall>n ag. NAgent n \<in> set (ws_nodes spec) \<and> mget ags (an_agent_ref n) = Some ag \<longrightarrow>
        (\<forall>r. ag_retry ag = Some r \<longrightarrow> retry_max r \<le> ceil_retryMax) \<and>
        (\<forall>chain. ag_fallback_chain ag = Some chain \<longrightarrow>
           length chain \<le> ceil_fallbackChainEntries \<and>
           (\<forall>entry \<in> set chain. fc_max_attempts entry \<le> ceil_chainEntryMaxAttempts)))"

lemma collectCeilingIssues_Nil_iff: "collectCeilingIssues spec ags = [] \<longleftrightarrow> withinCeilings spec ags"
proof -
  have ref: "set (fold (\<lambda>node s. case node of NAgent n \<Rightarrow> set_add (an_agent_ref n) s | _ \<Rightarrow> s) ns acc) =
      {an_agent_ref n | n. NAgent n \<in> set ns} \<union> set acc" for ns and acc :: "string list"
    by (induction ns arbitrary: acc) (auto split: WorkflowNode.splits)
  have "collectCeilingIssues spec ags = [] \<longleftrightarrow> collectWorkflowCeilingIssues spec ags = [] \<and>
      (\<forall>n ag. NAgent n \<in> set (ws_nodes spec) \<and> mget ags (an_agent_ref n) = Some ag \<longrightarrow>
         collectAgentCeilingIssues ag (Some (an_agent_ref n)) = [])"
    by (auto simp: collectCeilingIssues_def Let_def ref split: option.splits)
  then show ?thesis
    by (simp only: workflowCeilings_Nil_iff agentCeilings_Nil_iff withinCeilings_def conj_assoc)
qed

text \<open>An expression reads only outputs that its node is ordered after.\<close>

definition readsOrdered :: "(string \<Rightarrow> node_id list) \<Rightarrow> WorkflowSpec \<Rightarrow> BuildOptions \<Rightarrow> bool" where
  "readsOrdered reads spec opts \<longleftrightarrow>
     (\<forall>node \<in> set (ws_nodes spec). \<forall>(field, expr) \<in> set (expressionSites node). \<forall>v \<in> set (reads expr).
        v \<in> set (nodeIds spec) \<longrightarrow>
        (v, node_id_of node) \<in> (depEdges spec opts)\<^sup>+ \<or>
        (\<exists>u \<in> set (unresolvedAgentIds spec (fst (resolveAgents spec (opt_agents opts)))).
           (u, node_id_of node) \<in> (depEdges spec opts)\<^sup>+))"

definition schemasCompile :: "(json \<Rightarrow> string option) \<Rightarrow> WorkflowSpec \<Rightarrow> agents \<Rightarrow> bool" where
  "schemasCompile compile spec ags \<longleftrightarrow>
     (\<forall>node \<in> set (ws_nodes spec). \<forall>s.
        ((\<exists>n. node = NAgent n \<and> (an_output_schema n = Some s \<or>
            an_output_schema n = None \<and> (\<exists>ag. mget ags (an_agent_ref n) = Some ag \<and> ag_output_schema ag = Some s))) \<or>
         (\<exists>t. node = NTransform t \<and> tn_output_schema t = Some s)) \<longrightarrow>
        isJsonObject s \<longrightarrow> compile s = None)"

lemma closureMap_closure:
  assumes "distinct (nodeIds spec)" and "acyclic (depEdges spec opts)" and "v \<in> set (nodeIds spec)"
  shows "set (adj (closureMap spec opts) v) = {u. (u, v) \<in> (depEdges spec opts)\<^sup>+} \<and>
         sorted (adj (closureMap spec opts) v) \<and> distinct (adj (closureMap spec opts) v)"
proof -
  note b = builtOrder_facts[OF assms(1), of opts]
  have "length (builtOrder spec opts) = length (nodeIds spec)" using b(6) assms(2) by simp
  then have "card (set (builtOrder spec opts)) = card (set (nodeIds spec))"
    using distinct_card[OF b(2)] distinct_card[OF assms(1)] by simp
  then have "set (builtOrder spec opts) = set (nodeIds spec)" using b(3) by (simp add: card_subset_eq)
  then obtain as where "closureMap spec opts v = Some as" "sorted as" "distinct as"
    "set as = {u. (u, v) \<in> (edges (bs_dependencies (wiredState spec opts)))\<^sup>+}"
    using computeAncestors_closure[OF b(4,2)] assms(3) unfolding closureMap_def by blast
  then show ?thesis using wiredState_effect(2)[OF assms(1), of opts] by (simp add: adj_def)
qed

lemma concat_if_Nil_iff: "concat (map (\<lambda>x. if P x then [] else [f x]) xs) = [] \<longleftrightarrow> (\<forall>x \<in> set xs. P x)"
  by (induction xs) auto

lemma concat_map_Nil_iff: "concat (map f xs) = [] \<longleftrightarrow> (\<forall>x \<in> set xs. f x = [])"
  by auto

lemma unordered_Nil_iff:
  assumes "distinct (nodeIds spec)" and "acyclic (depEdges spec opts)"
  shows "collectUnorderedReadIssues reads spec (closureMap spec opts)
           (unresolvedAgentIds spec (fst (resolveAgents spec (opt_agents opts)))) = [] \<longleftrightarrow> readsOrdered reads spec opts"
proof -
  let ?un = "unresolvedAgentIds spec (fst (resolveAgents spec (opt_agents opts)))"
  have node: "(let visible = adj (closureMap spec opts) (node_id_of node)
      in if list_ex (\<lambda>v. v \<in> set ?un) visible then []
         else concat (map (\<lambda>(field, expr). concat (map (\<lambda>read.
            if read \<notin> set (nodeIds spec) \<or> read \<in> set visible then []
            else [\<lparr>gi_field = NodeField (node_id_of node) field,
                   gi_message = unorderedReadMessage (node_id_of node) read,
                   gi_kind = unordered_output_read\<rparr>]) (reads expr))) (expressionSites node))) = [] \<longleftrightarrow>
      (\<forall>(field, expr) \<in> set (expressionSites node). \<forall>v \<in> set (reads expr).
        v \<in> set (nodeIds spec) \<longrightarrow> (v, node_id_of node) \<in> (depEdges spec opts)\<^sup>+ \<or>
        (\<exists>u \<in> set ?un. (u, node_id_of node) \<in> (depEdges spec opts)\<^sup>+))"
    if "node \<in> set (ws_nodes spec)" for node
  proof -
    define E where "E = (depEdges spec opts)\<^sup>+"
    have v: "set (adj (closureMap spec opts) (node_id_of node)) = {u. (u, node_id_of node) \<in> E}"
      using closureMap_closure[OF assms, of "node_id_of node"] that by (simp add: E_def)
    show ?thesis
      unfolding E_def[symmetric] case_prod_beta
      by (cases "\<exists>u \<in> set ?un. (u, node_id_of node) \<in> E")
        (auto simp: Let_def list_ex_iff v concat_if_Nil_iff concat_map_Nil_iff simp del: concat_eq_Nil_conv)
  qed
  have "collectUnorderedReadIssues reads spec (closureMap spec opts) ?un = [] \<longleftrightarrow>
      (\<forall>node \<in> set (ws_nodes spec). (let visible = adj (closureMap spec opts) (node_id_of node)
        in if list_ex (\<lambda>v. v \<in> set ?un) visible then []
           else concat (map (\<lambda>(field, expr). concat (map (\<lambda>read.
              if read \<notin> set (nodeIds spec) \<or> read \<in> set visible then []
              else [\<lparr>gi_field = NodeField (node_id_of node) field,
                     gi_message = unorderedReadMessage (node_id_of node) read,
                     gi_kind = unordered_output_read\<rparr>]) (reads expr))) (expressionSites node))) = [])"
    unfolding collectUnorderedReadIssues_def Let_def[of "nodeIds spec"] by auto
  also have "\<dots> \<longleftrightarrow> readsOrdered reads spec opts"
    unfolding readsOrdered_def by (intro ball_cong refl node)
  finally show ?thesis .
qed

lemma outputSchema_Nil_iff: "collectOutputSchemaIssues compile spec ags = [] \<longleftrightarrow> schemasCompile compile spec ags"
proof -
  have chk: "checkSchema compile s loc = [] \<longleftrightarrow> (\<forall>j. s = Some j \<longrightarrow> isJsonObject j \<longrightarrow> compile j = None)" for s loc
    by (auto simp: checkSchema_def split: option.splits)
  have bind: "Option.bind a f = Some j \<longleftrightarrow> (\<exists>x. a = Some x \<and> f x = Some j)" for a and f :: "Agent \<Rightarrow> json option" and j
    by (cases a) auto
  show ?thesis
    unfolding collectOutputSchemaIssues_def schemasCompile_def
    by (auto simp: chk bind split: WorkflowNode.splits)
qed

definition wellformedDocument ::
    "(string \<Rightarrow> node_id list) \<Rightarrow> (json \<Rightarrow> string option) \<Rightarrow> WorkflowSpec \<Rightarrow> BuildOptions \<Rightarrow> bool" where
  "wellformedDocument reads compile spec opts \<longleftrightarrow>
     (\<forall>tpl \<in> registryPrompts spec opts. \<forall>r \<in> set (templateReferences tpl). \<not> carries_secret spec r) \<and>
     withinCeilings spec (fst (resolveAgents spec (opt_agents opts))) \<and>
     routingOk (buildContext spec opts) spec \<and>
     acyclic (depEdges spec opts) \<and>
     readsOrdered reads spec opts \<and>
     schemasCompile compile spec (fst (resolveAgents spec (opt_agents opts)))"

lemma admissible_iff_wellformed:
  "distinct (nodeIds spec) \<Longrightarrow> admissible reads compile spec opts \<longleftrightarrow> wellformedDocument reads compile spec opts"
  unfolding admissible_def wellformedDocument_def agentLeaks_clean_iff collectCeilingIssues_Nil_iff lateIssues_def
  using unordered_Nil_iff[of spec opts reads] by (auto simp: Let_def outputSchema_Nil_iff)

section \<open>The join configuration of a plan\<close>

lemma mget_computeMergeBranchOrder:
  assumes "distinct (nodeIds spec)" and "NMerge m \<in> set (ws_nodes spec)"
  shows "mget (computeMergeBranchOrder spec deps key) (mn_id m) = Some (mergeBranches spec deps key (mn_id m))"
proof -
  have keep: "mget (fold (\<lambda>node acc. case node of
      NMerge n \<Rightarrow> mset_key (mn_id n) (mergeBranches spec deps key (mn_id n)) acc | _ \<Rightarrow> acc) ns acc) v = mget acc v"
    if "v \<notin> node_id_of ` set ns" for ns acc v
    using that by (induction ns arbitrary: acc) (auto split: WorkflowNode.splits)
  have "mget (fold (\<lambda>node acc. case node of
      NMerge n \<Rightarrow> mset_key (mn_id n) (mergeBranches spec deps key (mn_id n)) acc | _ \<Rightarrow> acc) ns acc) (mn_id m) =
      Some (mergeBranches spec deps key (mn_id m))"
    if "distinct (map node_id_of ns)" "NMerge m \<in> set ns" for ns acc
    using that
  proof (induction ns arbitrary: acc)
    case (Cons n ns)
    show ?case
    proof (cases "NMerge m \<in> set ns")
      case False
      with Cons.prems have "n = NMerge m" "mn_id m \<notin> node_id_of ` set ns" by auto
      with keep[of "mn_id m" ns] show ?thesis by simp
    qed (use Cons in simp)
  qed simp
  then show ?thesis using assms by (simp add: computeMergeBranchOrder_def)
qed

lemma mergeBranches_prefix:
  assumes "pairedParallel spec (adj deps v) v = Some p"
  shows "\<exists>rest. mergeBranches spec deps key v =
     filter (\<lambda>m. m \<noteq> v \<and> producing spec m) (pn_parallel_of p) @ rest"
  using assms by (simp add: mergeBranches_def pairedParallel_def Let_def)

lemma acyclic_no_self: "acyclic R \<Longrightarrow> (v, v) \<notin> R"
  by (auto simp: acyclic_def)

section \<open>The order and the vertex map of a returned plan\<close>

lemma plan_order_facts:
  assumes d: "distinct (nodeIds spec)" and plan: "buildRunPlan reads compile spec opts = Inr plan"
  shows "distinct (rp_order plan) \<and> set (rp_order plan) = set (nodeIds spec) \<and>
    (\<forall>i < length (rp_order plan). \<exists>vtx. mget (rp_vertices plan) (rp_order plan ! i) = Some vtx \<and>
       set (pv_dependencies vtx) \<subseteq> set (take i (rp_order plan)))"
proof -
  note p = buildRunPlan_InrD[OF d plan]
  note b = builtOrder_facts[OF d, of opts]
  let ?st = "wiredState spec opts"
  have order: "rp_order plan = builtOrder spec opts" by (simp add: p(2) assemblePlan_def Let_def)
  have "length (builtOrder spec opts) = length (nodeIds spec)" using p(1) b(6) by (simp add: admissible_def)
  then have all: "set (builtOrder spec opts) = set (nodeIds spec)"
    using distinct_card[OF b(2)] distinct_card[OF d] b(3) by (simp add: card_subset_eq)
  have "\<exists>vtx. mget (rp_vertices plan) (rp_order plan ! i) = Some vtx \<and>
      set (pv_dependencies vtx) \<subseteq> set (take i (rp_order plan))" if i: "i < length (rp_order plan)" for i
  proof -
    have "rp_order plan ! i \<in> set (nodeIds spec)" using i all nth_mem[of i "rp_order plan"] by (simp add: order)
    then obtain node where n: "node \<in> set (ws_nodes spec)" "node_id_of node = rp_order plan ! i" by auto
    have "set (adj (bs_dependencies ?st) (rp_order plan ! i)) \<subseteq> set (take i (rp_order plan))"
      using b(4) i by (simp add: closed_under_def order)
    then show ?thesis
      using assemblePlan_vertex[OF d n(1), of "fst (resolveAgents spec (opt_agents opts))" ?st
          "builtOrder spec opts" "closureMap spec opts"] by (auto simp: p(2)[symmetric] n(2))
  qed
  then show ?thesis using b(2) all by (simp add: order)
qed

lemma map_invar_fold_vertices: "map_invar m \<Longrightarrow> map_invar (fold (\<lambda>node m. mset_key (k node) (f node) m) ns m)"
  by (induction ns arbitrary: m) simp_all

lemma keys_fold_vertices:
  "set (mkeys (fold (\<lambda>node m. mset_key (k node) (f node) m) ns m)) = k ` set ns \<union> set (mkeys m)"
  by (induction ns arbitrary: m) (auto simp: mkeys_def keys_mset_key)

lemma plan_vertex_map:
  assumes "distinct (nodeIds spec)" and "buildRunPlan reads compile spec opts = Inr plan"
  shows "map_invar (rp_vertices plan)" and "set (mkeys (rp_vertices plan)) = set (nodeIds spec)"
proof -
  have k: "set (mkeys ([] :: (node_id, PlanVertex) jsmap)) = {}" by (simp add: mkeys_def)
  show "map_invar (rp_vertices plan)" "set (mkeys (rp_vertices plan)) = set (nodeIds spec)"
    unfolding buildRunPlan_InrD(2)[OF assms]
    by (simp_all add: assemblePlan_def Let_def keys_fold_vertices map_invar_fold_vertices k)
qed

end
