(* ===== verification/Sample_Documents.thy ===== *)
theory Sample_Documents
  imports Plan_Correctness
begin

text \<open>Small concrete documents on which the theorems are applied.\<close>

definition sampleAgent :: Agent where
  "sampleAgent =
     \<lparr>ag_id = ''writer'', ag_model = ''m'', ag_provider = ''p'',
      ag_system_prompt = ''Use {{ run.outputs[\"plan\"] }}'', ag_output_schema = None,
      ag_tools = Some [''read_file''], ag_mcp_servers = None, ag_retry = None, ag_fallback_chain = None\<rparr>"

definition sampleAgentNode :: AgentNode where
  "sampleAgentNode =
     \<lparr>an_id = ''draft'', an_agent_ref = ''writer'', an_system_prompt_append = None,
      an_prompt_template = Some ''{{ run.outputs[\"plan\"].x | upper }}'', an_tools = Some [''read_file''],
      an_output_schema = None, an_timeout_ms = None, an_retry = None\<rparr>"

definition sampleTransform :: "node_id \<Rightarrow> WorkflowNode" where
  "sampleTransform v = NTransform \<lparr>tn_id = v, tn_transform = ''1'', tn_output_schema = None, tn_retry = None\<rparr>"

definition sampleSpec :: WorkflowSpec where
  "sampleSpec =
     \<lparr>ws_id = ''sample'', ws_inputs = [], ws_context = [], ws_agents = [InlineAgent sampleAgent],
      ws_budget = None, ws_timeout_ms = None, ws_max_parallel = None,
      ws_nodes = [NInput ''in'', NAgent sampleAgentNode, sampleTransform ''plan'', NOutput ''out''],
      ws_edges = [\<lparr>edge_from = ''in'', edge_to = ''plan''\<rparr>, \<lparr>edge_from = ''draft'', edge_to = ''out''\<rparr>]\<rparr>"

definition sampleOpts :: BuildOptions where
  "sampleOpts = \<lparr>opt_agents = None, opt_toolGrantsFinal = False\<rparr>"

abbreviation noReads :: "string \<Rightarrow> node_id list" where "noReads \<equiv> (\<lambda>_. [])"
abbreviation compileAll :: "json \<Rightarrow> string option" where "compileAll \<equiv> (\<lambda>_. None)"

definition samplePlan :: RunPlan where
  "samplePlan = projr (buildRunPlan noReads compileAll sampleSpec sampleOpts)"

lemma sample_distinct: "distinct (nodeIds sampleSpec)"
  by code_simp

lemma sample_builds: "buildRunPlan noReads compileAll sampleSpec sampleOpts = Inr samplePlan"
proof -
  have "\<not> isl (buildRunPlan noReads compileAll sampleSpec sampleOpts)" by code_simp
  then show ?thesis unfolding samplePlan_def by simp
qed

text \<open>A split with two branches joined by a merge, and a guard condition in front of the join.\<close>

definition joinSpec :: WorkflowSpec where
  "joinSpec = sampleSpec\<lparr>ws_agents := [],
     ws_nodes := [NParallel \<lparr>pn_id = ''split'', pn_parallel_of = [''b'', ''a'']\<rparr>,
       sampleTransform ''a'', sampleTransform ''b'',
       NCondition \<lparr>cn_id = ''gate'', cn_expression = ''x'',
         cn_branches = [\<lparr>br_when = WhenBool True, br_target = ''join''\<rparr>], cn_default = None, cn_retry = None\<rparr>,
       NMerge \<lparr>mn_id = ''join'', mn_merge_strategy = Concat, mn_merge_fn = None, mn_retry = None\<rparr>],
     ws_edges := [\<lparr>edge_from = ''a'', edge_to = ''join''\<rparr>, \<lparr>edge_from = ''b'', edge_to = ''join''\<rparr>]\<rparr>"

definition joinPlan :: RunPlan where
  "joinPlan = projr (buildRunPlan noReads compileAll joinSpec sampleOpts)"

lemma join_builds: "buildRunPlan noReads compileAll joinSpec sampleOpts = Inr joinPlan"
proof -
  have "\<not> isl (buildRunPlan noReads compileAll joinSpec sampleOpts)" by code_simp
  then show ?thesis unfolding joinPlan_def by simp
qed

text \<open>Two transforms that depend on each other.\<close>

definition loopSpec :: WorkflowSpec where
  "loopSpec = sampleSpec\<lparr>ws_agents := [], ws_nodes := [sampleTransform ''a'', sampleTransform ''b''],
     ws_edges := [\<lparr>edge_from = ''a'', edge_to = ''b''\<rparr>, \<lparr>edge_from = ''b'', edge_to = ''a''\<rparr>]\<rparr>"

text \<open>A secret laundered through a context entry into a system prompt.\<close>

definition leakySpec :: WorkflowSpec where
  "leakySpec = sampleSpec\<lparr>
     ws_inputs := [\<lparr>in_name = ''key'', in_type = SecretInput, in_default = None\<rparr>],
     ws_context := [\<lparr>ctx_key = ''creds'', ctx_value = ''{{ inputs.key }}''\<rparr>],
     ws_agents := [InlineAgent (sampleAgent\<lparr>ag_system_prompt := ''Use {{ ctx.creds }}''\<rparr>)]\<rparr>"

end
