(* ===== verification/Run_Core.thy ===== *)
theory Run_Core
  imports Admission_Limits
begin

text \<open>
  The pure part of the run loop of \<open>src/packages/core/src/engine/engine.ts\<close>: vertex states, the
  readiness predicates (\<open>#allDepsSettled\<close>, \<open>#hasLiveEdge\<close>), skip propagation (\<open>#propagateSkips\<close>),
  the claim of ready vertices (\<open>#claimReady\<close>), the retry policy (\<open>#retryConfig\<close>, \<open>#shouldRetry\<close>,
  \<open>#backoffMs\<close>), the output projections and the size bounds of \<open>size-bounds.ts\<close>.

  \<open>#states\<close> is an insertion-ordered map from vertex ids to vertex states; an in-place status write
  is \<open>setStatus\<close>, which like the code changes nothing when the vertex is unknown.
\<close>

section \<open>Vertex states\<close>

datatype VertexStatus = Pending | Running | Completed | Failed | Skipped | Paused

record VertexState =
  vs_status :: VertexStatus
  vs_output :: "json option"
  vs_selected :: "node_id list option"

type_synonym states = "(node_id, VertexState) jsmap"

fun SETTLED :: "VertexStatus \<Rightarrow> bool" where
  "SETTLED Completed = True"
| "SETTLED Failed = True"
| "SETTLED Skipped = True"
| "SETTLED _ = False"

definition statusOf :: "states \<Rightarrow> node_id \<Rightarrow> VertexStatus option" where
  "statusOf m v = map_option vs_status (mget m v)"

definition setStatus :: "node_id \<Rightarrow> VertexStatus \<Rightarrow> states \<Rightarrow> states" where
  "setStatus v x m = (case mget m v of None \<Rightarrow> m | Some s \<Rightarrow> mset_key v (s\<lparr>vs_status := x\<rparr>) m)"

definition pendingStates :: "RunPlan \<Rightarrow> states" where
  "pendingStates plan =
     map (\<lambda>v. (v, \<lparr>vs_status = Pending, vs_output = None, vs_selected = None\<rparr>)) (mkeys (rp_vertices plan))"

section \<open>Readiness\<close>

definition allDepsSettled :: "states \<Rightarrow> PlanVertex \<Rightarrow> bool" where
  "allDepsSettled m vertex =
     list_all (\<lambda>dep. case statusOf m dep of None \<Rightarrow> False | Some x \<Rightarrow> SETTLED x) (pv_dependencies vertex)"

definition liveFrom :: "RunPlan \<Rightarrow> states \<Rightarrow> node_id \<Rightarrow> node_id \<Rightarrow> bool" where
  "liveFrom plan m v dep =
     (case mget m dep of
        None \<Rightarrow> False
      | Some s \<Rightarrow>
          vs_status s = Completed \<and>
          (if map_option pv_type (mget (rp_vertices plan) dep) = Some ECondition
           then (case vs_selected s of None \<Rightarrow> False | Some sel \<Rightarrow> v \<in> set sel)
           else True))"

definition hasLiveEdge :: "RunPlan \<Rightarrow> states \<Rightarrow> PlanVertex \<Rightarrow> bool" where
  "hasLiveEdge plan m vertex =
     (pv_dependencies vertex = [] \<or> list_ex (liveFrom plan m (pv_id vertex)) (pv_dependencies vertex))"

datatype NodeSkippedReason = BranchNotTaken | UpstreamUnreachable

definition skipReason :: "RunPlan \<Rightarrow> states \<Rightarrow> PlanVertex \<Rightarrow> NodeSkippedReason" where
  "skipReason plan m vertex =
     (if list_ex (\<lambda>dep. map_option pv_type (mget (rp_vertices plan) dep) = Some ECondition \<and>
            statusOf m dep = Some Completed) (pv_dependencies vertex)
      then BranchNotTaken else UpstreamUnreachable)"

definition countRunning :: "states \<Rightarrow> nat" where
  "countRunning m = length (filter (\<lambda>s. vs_status s = Running) (mvalues m))"

definition allSettled :: "states \<Rightarrow> bool" where
  "allSettled m = list_all (\<lambda>s. SETTLED (vs_status s)) (mvalues m)"

section \<open>Skip propagation\<close>

text \<open>A pending vertex whose dependencies all settled without a live edge is dead.\<close>

definition deadVertex :: "RunPlan \<Rightarrow> states \<Rightarrow> node_id \<Rightarrow> bool" where
  "deadVertex plan m v =
     (statusOf m v = Some Pending \<and>
      (case mget (rp_vertices plan) v of
         None \<Rightarrow> False
       | Some vertex \<Rightarrow> allDepsSettled m vertex \<and> \<not> hasLiveEdge plan m vertex))"

type_synonym skip_log = "(node_id \<times> NodeSkippedReason) list"

definition skipVisit :: "RunPlan \<Rightarrow> node_id \<Rightarrow> states \<times> skip_log \<Rightarrow> states \<times> skip_log" where
  "skipVisit plan v = (\<lambda>(m, skipped).
     if deadVertex plan m v
     then (let m' = setStatus v Skipped m
           in (m', skipped @ [(v, skipReason plan m' (the (mget (rp_vertices plan) v)))]))
     else (m, skipped))"

definition skipPass :: "RunPlan \<Rightarrow> states \<Rightarrow> states \<times> skip_log" where
  "skipPass plan m = fold (skipVisit plan) (mkeys m) (m, [])"

definition pendingIds :: "states \<Rightarrow> node_id set" where
  "pendingIds m = {v. statusOf m v = Some Pending}"

lemma statusOf_setStatus [simp, container_simps]:
  "statusOf (setStatus v x m) u = (if u = v \<and> statusOf m v \<noteq> None then Some x else statusOf m u)"
  by (auto simp: statusOf_def setStatus_def split: option.splits)

lemma mget_setStatus:
  "mget (setStatus v x m) u = (if u = v then map_option (\<lambda>s. s\<lparr>vs_status := x\<rparr>) (mget m v) else mget m u)"
  by (auto simp: setStatus_def split: option.splits)

lemma mkeys_mset_key_present: "mget m k \<noteq> None \<Longrightarrow> mkeys (mset_key k v m) = mkeys m"
  by (induction m) (auto simp: mget_def mkeys_def)

lemma mkeys_setStatus [simp]: "mkeys (setStatus v x m) = mkeys m"
  by (auto simp: setStatus_def mkeys_mset_key_present split: option.splits)

lemma statusOf_key: "statusOf m v = Some x \<Longrightarrow> v \<in> set (mkeys m)"
  using mget_None_iff[of m v] by (cases "mget m v") (auto simp: statusOf_def mkeys_def)

lemma finite_pendingIds: "finite (pendingIds m)"
  by (rule finite_subset[of _ "set (mkeys m)"]) (auto simp: pendingIds_def statusOf_key)

lemma pendingIds_skip: "deadVertex plan m v \<Longrightarrow> pendingIds (setStatus v Skipped m) = pendingIds m - {v}"
  by (auto simp: pendingIds_def deadVertex_def statusOf_def mget_setStatus split: if_splits)

lemma skipVisit_dead:
  "deadVertex plan m v \<Longrightarrow> skipVisit plan v (m, entries) =
     (setStatus v Skipped m, entries @ [(v, skipReason plan (setStatus v Skipped m) (the (mget (rp_vertices plan) v)))])"
  by (simp add: skipVisit_def Let_def)

lemma skipVisit_other: "\<not> deadVertex plan m v \<Longrightarrow> skipVisit plan v (m, entries) = (m, entries)"
  by (simp add: skipVisit_def)

lemma fold_skipVisit_pending:
  "fold (skipVisit plan) vs (m, entries) = (m', entries') \<Longrightarrow>
     \<exists>new. entries' = entries @ new \<and> (new = [] \<longrightarrow> m' = m) \<and> (new \<noteq> [] \<longrightarrow> pendingIds m' \<subset> pendingIds m)"
proof (induction vs arbitrary: m entries)
  case (Cons v vs)
  show ?case
  proof (cases "deadVertex plan m v")
    case True
    let ?m = "setStatus v Skipped m" and ?e = "(v, skipReason plan (setStatus v Skipped m) (the (mget (rp_vertices plan) v)))"
    have "fold (skipVisit plan) vs (?m, entries @ [?e]) = (m', entries')"
      using Cons.prems True by (simp add: skipVisit_dead)
    from Cons.IH[OF this] obtain new where n: "entries' = (entries @ [?e]) @ new" "new = [] \<longrightarrow> m' = ?m"
      "new \<noteq> [] \<longrightarrow> pendingIds m' \<subset> pendingIds ?m" by blast
    have "v \<in> pendingIds m" using True by (simp add: pendingIds_def deadVertex_def)
    then have "pendingIds m' \<subset> pendingIds m" using n(2,3) pendingIds_skip[OF True] by (cases "new = []") auto
    with n(1) show ?thesis by (intro exI[of _ "?e # new"]) simp
  next
    case False
    then show ?thesis using Cons by (simp add: skipVisit_other)
  qed
qed simp

lemma skipPass_decreases: "skipPass plan m = (m', p # new) \<Longrightarrow> card (pendingIds m') < card (pendingIds m)"
  using fold_skipVisit_pending[of plan "mkeys m" m "[]" m' "p # new"]
  by (auto simp: skipPass_def intro!: psubset_card_mono finite_pendingIds)

text \<open>The \<open>while (changed)\<close> loop: it ends because every pass that reports a change leaves fewer
  pending vertices.\<close>

function propagateSkips :: "RunPlan \<Rightarrow> states \<Rightarrow> states \<times> skip_log" where
  "propagateSkips plan m =
     (case skipPass plan m of
        (m', []) \<Rightarrow> (m', [])
      | (m', p # new) \<Rightarrow> (case propagateSkips plan m' of (m'', rest) \<Rightarrow> (m'', (p # new) @ rest)))"
  by pat_completeness auto
termination
  by (relation "measure (\<lambda>(plan, m). card (pendingIds m))") (auto dest!: skipPass_decreases[OF sym])

declare propagateSkips.simps [simp del]

lemma propagateSkips_Nil: "skipPass plan m = (m1, []) \<Longrightarrow> propagateSkips plan m = (m1, [])"
  by (subst propagateSkips.simps) simp

lemma propagateSkips_Cons:
  "skipPass plan m = (m1, p # new) \<Longrightarrow>
     propagateSkips plan m = (fst (propagateSkips plan m1), (p # new) @ snd (propagateSkips plan m1))"
  by (subst propagateSkips.simps) (simp split: prod.split)

text \<open>The form that is evaluated: it unfolds only as far as passes report changes.\<close>

lemma propagateSkips_code [code]:
  "propagateSkips plan m =
     (if snd (skipPass plan m) = [] then skipPass plan m
      else (fst (propagateSkips plan (fst (skipPass plan m))),
            snd (skipPass plan m) @ snd (propagateSkips plan (fst (skipPass plan m)))))"
  by (cases "skipPass plan m"; cases "snd (skipPass plan m)") (simp_all add: propagateSkips_Nil propagateSkips_Cons)

section \<open>Claiming ready vertices\<close>

definition claimable :: "RunPlan \<Rightarrow> states \<Rightarrow> node_id \<Rightarrow> bool" where
  "claimable plan m v =
     (case mget (rp_vertices plan) v of
        None \<Rightarrow> False
      | Some vertex \<Rightarrow> statusOf m v = Some Pending \<and> allDepsSettled m vertex \<and> hasLiveEdge plan m vertex)"

fun claimLoop :: "RunPlan \<Rightarrow> nat \<Rightarrow> nat \<Rightarrow> node_id list \<Rightarrow> nat \<Rightarrow> node_id list \<Rightarrow> states \<Rightarrow> node_id list \<times> states" where
  "claimLoop plan cap headroom [] running claimed m = (claimed, m)"
| "claimLoop plan cap headroom (v # vs) running claimed m =
     (if cap \<le> running \<or> headroom \<le> length claimed then (claimed, m)
      else if claimable plan m v
      then claimLoop plan cap headroom vs (running + 1) (claimed @ [v]) (setStatus v Running m)
      else claimLoop plan cap headroom vs running claimed m)"

definition slots :: "RunPlan \<Rightarrow> nat" where
  "slots plan = (case rp_maxParallel plan of None \<Rightarrow> DEFAULT_MAX_PARALLEL | Some n \<Rightarrow> n)"

definition claimReady :: "RunPlan \<Rightarrow> states \<Rightarrow> nat \<Rightarrow> nat \<Rightarrow> node_id list \<times> states" where
  "claimReady plan m alreadyRunning headroom =
     claimLoop plan (slots plan) headroom (rp_order plan) alreadyRunning [] m"

section \<open>The retry policy\<close>

text \<open>The texts of the failures the run loop itself raises; \<open>Reported\<close> is a message of an executor.\<close>

datatype failure_message =
    RunStalled | DispatchLimit nat | ConsumerNotReady | StartUnpublished | CancelledBeforeDispatch
  | DispatchUnexpected | SettlingFailed | DurableWriteFailed | OutputTooLarge nat nat | OutputNotSerialisable
  | GateTimedOut | GatePayloadNotDurable | BudgetGateRejected | NodeTimedOut node_id nat | RunTimedOut nat
  | GraceAbandoned | GraceAborted | Reported string

record NodeFailure =
  nf_code :: ErrorCode
  nf_message :: failure_message
  nf_retryable :: bool

definition RETRYABLE_ERROR_CODES :: "ErrorCode list" where
  "RETRYABLE_ERROR_CODES = [ProviderRateLimit, ProviderUnavailable, ToolFailed, SandboxError]"

definition DEFAULT_NODE_RETRY_BACKOFF_MS :: nat where "DEFAULT_NODE_RETRY_BACKOFF_MS = 1000"
definition MAX_NODE_RETRY_BACKOFF_MS :: nat where "MAX_NODE_RETRY_BACKOFF_MS = 86400000"

fun retryConfig :: "PlanConfig \<Rightarrow> Retry option" where
  "retryConfig (AgentConfig node resolved _) =
     (case an_retry node of Some r \<Rightarrow> Some r | None \<Rightarrow> Option.bind resolved ag_retry)"
| "retryConfig (ConditionConfig node) = cn_retry node"
| "retryConfig (TransformConfig node) = tn_retry node"
| "retryConfig (FanInConfig node _ _ _ _) = mn_retry node"
| "retryConfig _ = None"

definition shouldRetry :: "Retry option \<Rightarrow> NodeFailure \<Rightarrow> nat \<Rightarrow> bool" where
  "shouldRetry retry error attempt =
     (case retry of
        None \<Rightarrow> False
      | Some r \<Rightarrow>
          nf_retryable error \<and> attempt < retry_max r \<and>
          nf_code error \<in> set (case retry_on r of None \<Rightarrow> RETRYABLE_ERROR_CODES | Some codes \<Rightarrow> codes))"

text \<open>Milliseconds are natural numbers: a product beyond the exact range of a double is far above the
  clamp, so rounding cannot change the minimum.\<close>

definition backoffMs :: "Retry option \<Rightarrow> nat \<Rightarrow> nat" where
  "backoffMs retry attempt =
     (let base = (case Option.bind retry retry_backoff_ms of None \<Rightarrow> DEFAULT_NODE_RETRY_BACKOFF_MS | Some b \<Rightarrow> b);
          raw = (if map_option retry_backoff retry = Some Exponential then base * 2 ^ (attempt - 1) else base * attempt)
      in min raw MAX_NODE_RETRY_BACKOFF_MS)"

section \<open>Size bounds\<close>

definition bound_nodeOutputBytes :: nat where "bound_nodeOutputBytes = 256 * 1024"
definition bound_workflowStateBytes :: nat where "bound_workflowStateBytes = 4 * 1024 * 1024"

text \<open>
  \<open>serialisedByteLength\<close> of a defined value is the parameter \<open>bytesOf\<close>: the length of the UTF-8 form of
  \<open>JSON.stringify\<close>, or nothing for a value that cannot be serialised. An undefined output is zero bytes.
\<close>

definition serialisedByteLength :: "(json \<Rightarrow> nat option) \<Rightarrow> json option \<Rightarrow> nat option" where
  "serialisedByteLength bytesOf output = (case output of None \<Rightarrow> Some 0 | Some value \<Rightarrow> bytesOf value)"

definition measureNodeOutput :: "(json \<Rightarrow> nat option) \<Rightarrow> json option \<Rightarrow> nat \<times> failure_message option" where
  "measureNodeOutput bytesOf output =
     (case serialisedByteLength bytesOf output of
        None \<Rightarrow> (0, Some OutputNotSerialisable)
      | Some bytes \<Rightarrow>
          (bytes, if bound_nodeOutputBytes < bytes then Some (OutputTooLarge bytes bound_nodeOutputBytes) else None))"

definition measureWorkflowState :: "nat \<Rightarrow> failure_message option" where
  "measureWorkflowState totalBytes =
     (if bound_workflowStateBytes < totalBytes then Some (OutputTooLarge totalBytes bound_workflowStateBytes) else None)"

section \<open>Output projections\<close>

definition completedOutputs :: "states \<Rightarrow> (node_id, json option) jsmap" where
  "completedOutputs m = map (\<lambda>(v, s). (v, vs_output s)) (filter (\<lambda>(v, s). vs_status s = Completed) m)"

definition collectOutputs :: "RunPlan \<Rightarrow> bool \<Rightarrow> states \<Rightarrow> (node_id, json) jsmap" where
  "collectOutputs plan outputsOnly m =
     map (\<lambda>(v, s). (v, case vs_output s of None \<Rightarrow> JNull | Some j \<Rightarrow> j))
       (filter (\<lambda>(v, s). vs_status s = Completed \<and>
          (outputsOnly \<longrightarrow> map_option pv_type (mget (rp_vertices plan) v) = Some EOutput)) m)"

end
