(* ===== verification/Run_Readiness.thy ===== *)
theory Run_Readiness
  imports Run_Core
begin

text \<open>
  What the readiness predicates and the two state-changing passes of the scheduler guarantee:
  readiness is stable once the dependencies settled, skip propagation ends in a state without a dead
  pending vertex, and the claim takes ready vertices only, within the two bounds.
\<close>

section \<open>Stability of settled vertices\<close>

definition extends :: "states \<Rightarrow> states \<Rightarrow> bool" where
  "extends m m' \<longleftrightarrow> (\<forall>v s. mget m v = Some s \<and> SETTLED (vs_status s) \<longrightarrow> mget m' v = Some s)"

definition vertexReady :: "RunPlan \<Rightarrow> states \<Rightarrow> node_id \<Rightarrow> bool" where
  "vertexReady plan m v \<longleftrightarrow>
     (\<exists>vertex. mget (rp_vertices plan) v = Some vertex \<and> allDepsSettled m vertex \<and> hasLiveEdge plan m vertex)"

definition vertexDead :: "RunPlan \<Rightarrow> states \<Rightarrow> node_id \<Rightarrow> bool" where
  "vertexDead plan m v \<longleftrightarrow>
     (\<exists>vertex. mget (rp_vertices plan) v = Some vertex \<and> allDepsSettled m vertex \<and> \<not> hasLiveEdge plan m vertex)"

fun active :: "VertexStatus \<Rightarrow> bool" where
  "active Pending = False"
| "active Skipped = False"
| "active _ = True"

text \<open>A vertex that was dispatched had a live edge, a vertex that was skipped had none, and in both
  cases all dependencies had settled.\<close>

definition legit :: "RunPlan \<Rightarrow> states \<Rightarrow> bool" where
  "legit plan m \<longleftrightarrow>
     (\<forall>v x. statusOf m v = Some x \<longrightarrow>
        (active x \<longrightarrow> vertexReady plan m v) \<and> (x = Skipped \<longrightarrow> vertexDead plan m v))"

lemma extends_refl [simp]: "extends m m"
  by (simp add: extends_def)

lemma extends_trans: "extends m1 m2 \<Longrightarrow> extends m2 m3 \<Longrightarrow> extends m1 m3"
  unfolding extends_def by blast

lemma extends_setStatus: "statusOf m v = Some y \<Longrightarrow> \<not> SETTLED y \<Longrightarrow> extends m (setStatus v x m)"
  by (auto simp: extends_def mget_setStatus statusOf_def)

lemma extends_statusOf: "extends m m' \<Longrightarrow> statusOf m v = Some x \<Longrightarrow> SETTLED x \<Longrightarrow> statusOf m' v = Some x"
  by (auto simp: extends_def statusOf_def)

lemma allDepsSettled_iff:
  "allDepsSettled m vertex \<longleftrightarrow> (\<forall>dep \<in> set (pv_dependencies vertex). \<exists>x. statusOf m dep = Some x \<and> SETTLED x)"
proof -
  have "(case y of None \<Rightarrow> False | Some x \<Rightarrow> SETTLED x) \<longleftrightarrow> (\<exists>x. y = Some x \<and> SETTLED x)" for y
    by (cases y) auto
  then show ?thesis by (simp add: allDepsSettled_def list_all_iff)
qed

lemma allDepsSettled_extends: "extends m m' \<Longrightarrow> allDepsSettled m vertex \<Longrightarrow> allDepsSettled m' vertex"
  unfolding allDepsSettled_iff using extends_statusOf by blast

lemma liveFrom_extends:
  assumes "extends m m'" and "statusOf m dep = Some x" and "SETTLED x"
  shows "liveFrom plan m' v dep = liveFrom plan m v dep"
proof -
  obtain s where "mget m dep = Some s" "vs_status s = x" using assms(2) by (auto simp: statusOf_def)
  moreover then have "mget m' dep = Some s" using assms(1,3) by (auto simp: extends_def)
  ultimately show ?thesis by (simp add: liveFrom_def)
qed

lemma hasLiveEdge_extends:
  assumes "extends m m'" and "allDepsSettled m vertex"
  shows "hasLiveEdge plan m' vertex = hasLiveEdge plan m vertex"
proof -
  have "liveFrom plan m' (pv_id vertex) dep = liveFrom plan m (pv_id vertex) dep"
    if "dep \<in> set (pv_dependencies vertex)" for dep
    using that assms liveFrom_extends unfolding allDepsSettled_iff by metis
  then show ?thesis by (auto simp: hasLiveEdge_def list_ex_iff)
qed

lemma vertexReady_extends: "extends m m' \<Longrightarrow> vertexReady plan m v \<Longrightarrow> vertexReady plan m' v"
  unfolding vertexReady_def using allDepsSettled_extends hasLiveEdge_extends by blast

lemma vertexDead_extends: "extends m m' \<Longrightarrow> vertexDead plan m v \<Longrightarrow> vertexDead plan m' v"
  unfolding vertexDead_def using allDepsSettled_extends hasLiveEdge_extends by blast

lemma legit_change:
  assumes "legit plan m" and e: "extends m m'" and "\<And>u. u \<noteq> v \<Longrightarrow> statusOf m' u = statusOf m u"
    and "\<And>x. statusOf m' v = Some x \<Longrightarrow> active x \<Longrightarrow> vertexReady plan m v"
    and "statusOf m' v = Some Skipped \<Longrightarrow> vertexDead plan m v"
  shows "legit plan m'"
  unfolding legit_def
proof (intro allI impI)
  fix u x assume x: "statusOf m' u = Some x"
  have "(active x \<longrightarrow> vertexReady plan m u) \<and> (x = Skipped \<longrightarrow> vertexDead plan m u)"
    using assms(1,3-5) x by (cases "u = v") (auto simp: legit_def)
  then show "(active x \<longrightarrow> vertexReady plan m' u) \<and> (x = Skipped \<longrightarrow> vertexDead plan m' u)"
    using vertexReady_extends[OF e] vertexDead_extends[OF e] by blast
qed

lemma legitD: "legit plan m \<Longrightarrow> statusOf m v = Some x \<Longrightarrow> active x \<Longrightarrow> vertexReady plan m v"
  by (auto simp: legit_def)

section \<open>Counting running vertices\<close>

definition runningIds :: "states \<Rightarrow> node_id set" where
  "runningIds m = {v. statusOf m v = Some Running}"

lemma map_invar_keys: "map_invar m \<longleftrightarrow> distinct (mkeys m)"
  by (simp add: map_invar_def mkeys_def)

lemma mget_Some_iff: "map_invar m \<Longrightarrow> mget m v = Some s \<longleftrightarrow> (v, s) \<in> set m"
  using mget_in_set in_set_mget by metis

lemma countRunning_card:
  assumes "map_invar m"
  shows "countRunning m = card (runningIds m)"
proof -
  have "inj_on fst (set m)" and "distinct m" using assms by (auto simp: map_invar_def distinct_map)
  moreover have "runningIds m = fst ` {(v, s) \<in> set m. vs_status s = Running}"
    by (auto simp: runningIds_def statusOf_def mget_Some_iff[OF assms] image_iff)
  ultimately have "card (runningIds m) = card {(v, s) \<in> set m. vs_status s = Running}"
    by (metis (no_types, lifting) card_image inj_on_subset mem_Collect_eq case_prodE subsetI)
  also have "\<dots> = length (filter (\<lambda>(v, s). vs_status s = Running) m)"
    using distinct_card_filter[OF \<open>distinct m\<close>, of "\<lambda>(v, s). vs_status s = Running"] by (simp add: split_def)
  also have "\<dots> = countRunning m" by (simp add: countRunning_def mvalues_def filter_map comp_def split_def)
  finally show ?thesis by simp
qed

lemma finite_runningIds: "finite (runningIds m)"
  by (rule finite_subset[of _ "set (mkeys m)"]) (auto simp: runningIds_def statusOf_key)

lemma allSettled_iff: "map_invar m \<Longrightarrow> allSettled m \<longleftrightarrow> (\<forall>v x. statusOf m v = Some x \<longrightarrow> SETTLED x)"
  unfolding allSettled_def mvalues_def list_all_iff statusOf_def by (auto simp: mget_Some_iff) blast

section \<open>Skip propagation\<close>

lemma deadVertex_iff: "deadVertex plan m v \<longleftrightarrow> statusOf m v = Some Pending \<and> vertexDead plan m v"
  by (auto simp: deadVertex_def vertexDead_def split: option.splits)

text \<open>What one visit, a pass and the whole loop keep.\<close>

definition skipsTo :: "RunPlan \<Rightarrow> states \<Rightarrow> states \<Rightarrow> bool" where
  "skipsTo plan m m' \<longleftrightarrow> mkeys m' = mkeys m \<and> extends m m' \<and> (legit plan m \<longrightarrow> legit plan m') \<and>
     (\<forall>v. statusOf m' v = statusOf m v \<or> statusOf m v = Some Pending \<and> statusOf m' v = Some Skipped)"

lemma skipsTo_refl: "skipsTo plan m m"
  by (simp add: skipsTo_def)

lemma skipsTo_trans: "skipsTo plan m1 m2 \<Longrightarrow> skipsTo plan m2 m3 \<Longrightarrow> skipsTo plan m1 m3"
  unfolding skipsTo_def using extends_trans by (metis VertexStatus.distinct(7) option.inject)

lemma skipsTo_dead: "deadVertex plan m v \<Longrightarrow> skipsTo plan m (setStatus v Skipped m)"
  unfolding skipsTo_def deadVertex_iff
  using extends_setStatus[of m v Pending Skipped] legit_change[of plan m "setStatus v Skipped m" v] by auto

lemma skipsTo_fold: "skipsTo plan m (fst (fold (skipVisit plan) vs (m, entries)))"
proof (induction vs arbitrary: m entries)
  case (Cons v vs)
  then show ?case
    by (cases "deadVertex plan m v") (auto simp: skipVisit_dead skipVisit_other intro: skipsTo_trans skipsTo_dead)
qed (simp add: skipsTo_refl)

lemma skipPass_Nil:
  assumes "skipPass plan m = (m', [])"
  shows "m' = m" and "\<not> deadVertex plan m v"
proof -
  have grow: "length entries \<le> length (snd (fold (skipVisit plan) vs (m, entries)))" for vs m entries
  proof (induction vs arbitrary: m entries)
    case (Cons v vs)
    show ?case
    proof (cases "deadVertex plan m v")
      case True
      let ?e = "(v, skipReason plan (setStatus v Skipped m) (the (mget (rp_vertices plan) v)))"
      show ?thesis using Cons[of "entries @ [?e]" "setStatus v Skipped m"] True by (simp add: skipVisit_dead)
    next
      case False
      then show ?thesis using Cons by (simp add: skipVisit_other)
    qed
  qed simp
  have quiet: "snd (fold (skipVisit plan) vs (m, [])) = [] \<Longrightarrow>
      fst (fold (skipVisit plan) vs (m, [])) = m \<and> (\<forall>v \<in> set vs. \<not> deadVertex plan m v)" for vs
  proof (induction vs)
    case (Cons v vs)
    show ?case
    proof (cases "deadVertex plan m v")
      case True
      then show ?thesis using Cons.prems grow[of "[(v, skipReason plan (setStatus v Skipped m) (the (mget (rp_vertices plan) v)))]" vs
            "setStatus v Skipped m"] by (simp add: skipVisit_dead)
    next
      case False
      then show ?thesis using Cons by (simp add: skipVisit_other)
    qed
  qed simp
  from this[of "mkeys m"] have q: "m' = m" "\<forall>v \<in> set (mkeys m). \<not> deadVertex plan m v"
    using assms by (simp_all add: skipPass_def)
  then show "m' = m" by blast
  show "\<not> deadVertex plan m v"
  proof (cases "v \<in> set (mkeys m)")
    case False
    then have "mget m v = None" by (simp add: mget_None_iff mkeys_def)
    then show ?thesis by (simp add: deadVertex_def statusOf_def)
  qed (use q(2) in blast)
qed

lemma propagateSkips_fixpoint:
  "propagateSkips plan m = (m', entries) \<Longrightarrow> skipsTo plan m m' \<and> (\<forall>v. \<not> deadVertex plan m' v)"
proof (induction plan m arbitrary: m' entries rule: propagateSkips.induct)
  case (1 plan m)
  obtain m1 new where pass: "skipPass plan m = (m1, new)" by (cases "skipPass plan m")
  have s: "skipsTo plan m m1" using skipsTo_fold[of plan m "mkeys m" "[]"] pass by (simp add: skipPass_def)
  show ?case
  proof (cases new)
    case Nil
    then show ?thesis using "1.prems" pass skipPass_Nil[of plan m m1] s by (simp add: propagateSkips_Nil)
  next
    case (Cons p rest)
    obtain m2 entries2 where r: "propagateSkips plan m1 = (m2, entries2)" by (cases "propagateSkips plan m1")
    have "m2 = m'" using "1.prems" pass Cons r by (simp add: propagateSkips_Cons)
    then show ?thesis using "1.IH"[OF pass[symmetric] Cons r] s skipsTo_trans by blast
  qed
qed

lemma propagateSkips_quiet:
  assumes "propagateSkips plan m = (m', [])"
  shows "m' = m"
proof -
  obtain m1 new where pass: "skipPass plan m = (m1, new)" by (cases "skipPass plan m")
  have "new = [] \<and> m1 = m'"
    using assms pass by (cases new) (simp_all add: propagateSkips_Nil propagateSkips_Cons)
  then show ?thesis using skipPass_Nil(1)[of plan m m1] pass by simp
qed

section \<open>The claim\<close>

lemma claimable_iff: "claimable plan m v \<longleftrightarrow> statusOf m v = Some Pending \<and> vertexReady plan m v"
  by (auto simp: claimable_def vertexReady_def split: option.splits)

lemma setStatus_claim:
  assumes "claimable plan m v"
  shows "extends m (setStatus v Running m)" and "legit plan m \<Longrightarrow> legit plan (setStatus v Running m)"
    and "runningIds (setStatus v Running m) = insert v (runningIds m)" and "v \<notin> runningIds m"
proof -
  have p: "statusOf m v = Some Pending" using assms by (simp add: claimable_iff)
  show e: "extends m (setStatus v Running m)" using p by (simp add: extends_setStatus)
  show "legit plan m \<Longrightarrow> legit plan (setStatus v Running m)"
    using assms legit_change[OF _ e, where v = v] by (auto simp: claimable_iff)
  show "runningIds (setStatus v Running m) = insert v (runningIds m)" "v \<notin> runningIds m"
    using p by (auto simp: runningIds_def)
qed

text \<open>The effect of the claim, for a map with distinct keys.\<close>

lemma claimLoop_effect:
  assumes "claimLoop plan cap headroom vs running claimed m = (claimed', m')"
    and "map_invar m" and "running = card (runningIds m)" and "running \<le> cap" and "length claimed \<le> headroom"
  shows "\<exists>new. claimed' = claimed @ new \<and> distinct new \<and> set new \<subseteq> set vs \<and>
     (\<forall>v \<in> set new. statusOf m v = Some Pending \<and> vertexReady plan m v) \<and>
     mkeys m' = mkeys m \<and> extends m m' \<and> (legit plan m \<longrightarrow> legit plan m') \<and>
     (\<forall>v. statusOf m' v = (if v \<in> set new then Some Running else statusOf m v)) \<and>
     card (runningIds m') \<le> cap \<and> card (runningIds m') = card (runningIds m) + length new \<and>
     length claimed + length new \<le> headroom"
  using assms
proof (induction plan cap headroom vs running claimed m rule: claimLoop.induct)
  case (1 plan cap headroom running claimed m)
  then show ?case by (intro exI[of _ "[]"]) simp
next
  case (2 plan cap headroom v vs running claimed m)
  consider "cap \<le> running \<or> headroom \<le> length claimed" | "\<not> (cap \<le> running \<or> headroom \<le> length claimed)" "claimable plan m v"
    | "\<not> (cap \<le> running \<or> headroom \<le> length claimed)" "\<not> claimable plan m v" by blast
  then show ?case
  proof cases
    case 1
    then show ?thesis using "2.prems" by (intro exI[of _ "[]"]) simp
  next
    case c: 2
    note cl = setStatus_claim[OF c(2)]
    let ?m = "setStatus v Running m"
    have inv: "map_invar ?m" using "2.prems"(2) by (simp add: map_invar_keys)
    have run: "card (runningIds ?m) = running + 1"
      using "2.prems"(3) cl(3,4) finite_runningIds[of m] by simp
    obtain new where n: "claimed' = (claimed @ [v]) @ new" "distinct new" "set new \<subseteq> set vs"
      "\<forall>u \<in> set new. statusOf ?m u = Some Pending \<and> vertexReady plan ?m u" "mkeys m' = mkeys ?m" "extends ?m m'"
      "legit plan ?m \<longrightarrow> legit plan m'" "\<forall>u. statusOf m' u = (if u \<in> set new then Some Running else statusOf ?m u)"
      "card (runningIds m') \<le> cap" "card (runningIds m') = card (runningIds ?m) + length new"
      "length (claimed @ [v]) + length new \<le> headroom"
      using "2.IH"(1)[OF c(1) c(2)] "2.prems"(1,4,5) c inv run by auto
    have "statusOf ?m v = Some Running" using c(2) by (auto simp: claimable_iff)
    then have fresh: "v \<notin> set new" using n(4) by auto
    have old: "\<forall>u \<in> set new. statusOf m u = Some Pending \<and> vertexReady plan m u"
    proof
      fix u assume u: "u \<in> set new"
      then have ne: "u \<noteq> v" using fresh by blast
      have pend: "statusOf m u = Some Pending" using n(4) u ne by auto
      obtain vertex where vx: "mget (rp_vertices plan) u = Some vertex" "allDepsSettled ?m vertex" "hasLiveEdge plan ?m vertex"
        using n(4) u by (auto simp: vertexReady_def)
      have "allDepsSettled m vertex"
        using vx(2) \<open>statusOf ?m v = Some Running\<close>
        unfolding allDepsSettled_iff by (metis SETTLED.simps(5) option.inject statusOf_setStatus)
      then show "statusOf m u = Some Pending \<and> vertexReady plan m u"
        using pend vx hasLiveEdge_extends[OF cl(1)] by (auto simp: vertexReady_def)
    qed
    show ?thesis
      using n fresh old cl c(2) "2.prems"(3) run extends_trans[OF cl(1) n(6)]
      by (intro exI[of _ "v # new"]) (auto simp: claimable_iff)
  next
    case 3
    obtain new where "claimed' = claimed @ new" "distinct new" "set new \<subseteq> set vs"
      "\<forall>u \<in> set new. statusOf m u = Some Pending \<and> vertexReady plan m u" "mkeys m' = mkeys m" "extends m m'"
      "legit plan m \<longrightarrow> legit plan m'" "\<forall>u. statusOf m' u = (if u \<in> set new then Some Running else statusOf m u)"
      "card (runningIds m') \<le> cap" "card (runningIds m') = card (runningIds m) + length new"
      "length claimed + length new \<le> headroom"
      using "2.IH"(2)[OF 3(1,2)] "2.prems" 3 by auto
    then show ?thesis by (intro exI[of _ new]) auto
  qed
qed

lemma claimLoop_nonempty:
  assumes "claimable plan m v" and "v \<in> set vs" and "running < cap" and "length claimed < headroom"
  shows "length claimed < length (fst (claimLoop plan cap headroom vs running claimed m))"
proof -
  have grow: "length claimed \<le> length (fst (claimLoop plan cap headroom vs running claimed m))" for vs running claimed m
    by (induction plan cap headroom vs running claimed m rule: claimLoop.induct) auto
  show ?thesis using assms
  proof (induction vs)
    case (Cons u vs)
    show ?case
    proof (cases "claimable plan m u")
      case True
      then show ?thesis using Cons.prems grow[of "claimed @ [u]" vs "running + 1" "setStatus u Running m"] by simp
    next
      case False
      then show ?thesis using Cons by auto
    qed
  qed simp
qed

lemma claimReady_effect:
  assumes "claimReady plan m (countRunning m) headroom = (claimed, m')"
    and inv: "map_invar m" and "countRunning m \<le> slots plan"
  shows "distinct claimed" and "set claimed \<subseteq> set (rp_order plan)"
    and "v \<in> set claimed \<Longrightarrow> statusOf m v = Some Pending \<and> vertexReady plan m v"
    and "mkeys m' = mkeys m" and "extends m m'" and "legit plan m \<Longrightarrow> legit plan m'"
    and "statusOf m' v = (if v \<in> set claimed then Some Running else statusOf m v)"
    and "countRunning m' \<le> slots plan" and "countRunning m' = countRunning m + length claimed"
    and "length claimed \<le> headroom"
proof -
  have k: "mkeys m' = mkeys m \<Longrightarrow> map_invar m'" using inv by (simp add: map_invar_keys)
  note e = claimLoop_effect[of plan "slots plan" headroom "rp_order plan" "countRunning m" "[]" m claimed m']
  have "\<exists>new. claimed = [] @ new \<and> distinct new \<and> set new \<subseteq> set (rp_order plan) \<and>
     (\<forall>v \<in> set new. statusOf m v = Some Pending \<and> vertexReady plan m v) \<and>
     mkeys m' = mkeys m \<and> extends m m' \<and> (legit plan m \<longrightarrow> legit plan m') \<and>
     (\<forall>v. statusOf m' v = (if v \<in> set new then Some Running else statusOf m v)) \<and>
     card (runningIds m') \<le> slots plan \<and> card (runningIds m') = card (runningIds m) + length new \<and>
     length ([] :: node_id list) + length new \<le> headroom"
    using assms by (intro e) (simp_all add: claimReady_def countRunning_card)
  then show "distinct claimed" "set claimed \<subseteq> set (rp_order plan)"
    "v \<in> set claimed \<Longrightarrow> statusOf m v = Some Pending \<and> vertexReady plan m v"
    "mkeys m' = mkeys m" "extends m m'" "legit plan m \<Longrightarrow> legit plan m'"
    "statusOf m' v = (if v \<in> set claimed then Some Running else statusOf m v)"
    "countRunning m' \<le> slots plan" "countRunning m' = countRunning m + length claimed" "length claimed \<le> headroom"
    using k inv by (auto simp: countRunning_card)
qed

section \<open>Backoff\<close>

lemma backoffMs_le: "backoffMs retry attempt \<le> MAX_NODE_RETRY_BACKOFF_MS"
  by (simp add: backoffMs_def Let_def)

lemma backoffMs_mono:
  assumes "a \<le> b"
  shows "backoffMs retry a \<le> backoffMs retry b"
proof -
  have "k * 2 ^ (a - 1) \<le> k * (2 :: nat) ^ (b - 1)" for k
    using assms by (intro mult_le_mono2 power_increasing) auto
  moreover have "k * a \<le> k * b" for k :: nat using assms by simp
  moreover have "x \<le> y \<Longrightarrow> min x n \<le> min y n" for x y n :: nat by simp
  ultimately show ?thesis unfolding backoffMs_def Let_def by (cases "map_option retry_backoff retry = Some Exponential") presburger+
qed

end
