(* ===== verification/Run_Loop.thy ===== *)
theory Run_Loop
  imports Run_Readiness
begin

text \<open>
  The stateful part of the run loop of \<open>src/packages/core/src/engine/engine.ts\<close> (\<open>RunExecution\<close>): one
  definition per stretch of code that runs without suspension, and \<open>apply_event\<close>, which says what
  each of them needs to run.

  JavaScript interleaves only at an \<open>await\<close>, so a handler with awaits is a sequence of such stretches.
  Where a handler is suspended is part of the state: \<open>rs_phase\<close> is the point reached by the one
  serialized \<open>#step\<close>, and \<open>rs_actors\<close> holds for each vertex the point reached by its own dispatch (or
  by the pinning of its media output). Everything else in \<open>RunState\<close> is a field of the class.
  Outcomes of executors, decisions, timers and faults are events of the environment.

  Left out are the services of the host that can take a run away from the loop: the lease and its
  loss (\<open>#ownership\<close>), the departure of a host (\<open>#retiringHost\<close>, \<open>#quiescing\<close>), and the effect journal, which
  may refuse a resume. The model is the loop of a run that is owned and kept by one host; how a run is
  restored from a checkpoint is in \<open>Run_Resume\<close>.
\<close>

section \<open>The state\<close>

datatype Terminal = RunCompleted | RunFailed | RunCancelled

datatype StepPhase =
    StepIdle
  | StepDecide
  | StepStart "node_id list"
  | StepEnter node_id "node_id list"

datatype Actor =
    Claimed
  | Entering
  | Attempting nat
  | BackingOff nat NodeFailure
  | Restarting nat
  | PinningMedia

record PendingGate =
  pg_vertex :: node_id
  pg_isBudgetGate :: bool
  pg_acknowledged :: bool

record RunState =
  rs_states :: states
  rs_phase :: StepPhase
  rs_actors :: "(node_id, Actor) jsmap"
  rs_lastAttempt :: "(node_id, nat) jsmap"
  rs_nodeDispatches :: nat
  rs_failure :: "(node_id option \<times> NodeFailure) option"
  rs_cancelling :: bool
  rs_aborted :: bool
  rs_noNewDispatch :: bool
  rs_settled :: "Terminal option"
  rs_pendingGates :: "(string, PendingGate) jsmap"
  rs_resolvedGates :: "string list"
  rs_publishingPauses :: nat
  rs_pendingMediaJobs :: "node_id list"
  rs_workflowStateBytes :: nat

definition initialRun :: "RunPlan \<Rightarrow> RunState" where
  "initialRun plan =
     \<lparr>rs_states = pendingStates plan, rs_phase = StepIdle, rs_actors = [], rs_lastAttempt = [],
      rs_nodeDispatches = 0, rs_failure = None, rs_cancelling = False, rs_aborted = False,
      rs_noNewDispatch = False, rs_settled = None, rs_pendingGates = [], rs_resolvedGates = [],
      rs_publishingPauses = 0, rs_pendingMediaJobs = [], rs_workflowStateBytes = 0\<rparr>"

abbreviation vstatus :: "RunState \<Rightarrow> node_id \<Rightarrow> VertexStatus option" where
  "vstatus st v \<equiv> statusOf (rs_states st) v"

definition putStatus :: "node_id \<Rightarrow> VertexStatus \<Rightarrow> RunState \<Rightarrow> RunState" where
  "putStatus v x st = st\<lparr>rs_states := setStatus v x (rs_states st)\<rparr>"

definition putActor :: "node_id \<Rightarrow> Actor \<Rightarrow> RunState \<Rightarrow> RunState" where
  "putActor v a st = st\<lparr>rs_actors := mset_key v a (rs_actors st)\<rparr>"

definition dropActor :: "node_id \<Rightarrow> RunState \<Rightarrow> RunState" where
  "dropActor v st = st\<lparr>rs_actors := mdelete v (rs_actors st)\<rparr>"

text \<open>The first cause is recorded once, never while cancelling, and aborts the siblings.\<close>

definition recordFailure :: "node_id option \<Rightarrow> NodeFailure \<Rightarrow> RunState \<Rightarrow> RunState" where
  "recordFailure v f st =
     (if rs_failure st = None \<and> \<not> rs_cancelling st
      then st\<lparr>rs_failure := Some (v, f), rs_aborted := True\<rparr> else st)"

definition fatal :: "ErrorCode \<Rightarrow> failure_message \<Rightarrow> NodeFailure" where
  "fatal code message = \<lparr>nf_code = code, nf_message = message, nf_retryable = False\<rparr>"

section \<open>Settling a node\<close>

datatype NodeOutcome =
    OutCompleted "json option"
  | OutBranch "json option" "node_id list"
  | OutFailed NodeFailure
  | OutPaused string bool
  | OutMediaJob

definition settledStatus :: "RunState \<Rightarrow> node_id \<Rightarrow> bool" where
  "settledStatus st v = (case vstatus st v of None \<Rightarrow> False | Some x \<Rightarrow> SETTLED x)"

definition settleFailed :: "node_id \<Rightarrow> NodeFailure \<Rightarrow> RunState \<Rightarrow> RunState" where
  "settleFailed v error st = recordFailure (Some v) error (putStatus v Failed st)"

definition settleFailedOrBackstop :: "node_id \<Rightarrow> NodeFailure \<Rightarrow> RunState \<Rightarrow> RunState" where
  "settleFailedOrBackstop v error st = (if settledStatus st v then st else settleFailed v error st)"

definition failNodeInternal :: "node_id \<Rightarrow> failure_message \<Rightarrow> RunState \<Rightarrow> RunState" where
  "failNodeInternal v message st =
     (let st' = (if vstatus st v = Some Running \<or> vstatus st v = Some Paused then putStatus v Failed st else st)
      in if rs_settled st' = None then recordFailure (Some v) (fatal InternalError message) st' else st')"

definition putOutput :: "node_id \<Rightarrow> json option \<Rightarrow> node_id list option \<Rightarrow> RunState \<Rightarrow> RunState" where
  "putOutput v output selected st =
     (case mget (rs_states st) v of
        None \<Rightarrow> st
      | Some s \<Rightarrow> st\<lparr>rs_states := mset_key v
          (s\<lparr>vs_status := Completed, vs_output := output,
             vs_selected := (case selected of None \<Rightarrow> vs_selected s | Some sel \<Rightarrow> Some sel)\<rparr>) (rs_states st)\<rparr>)"

definition settleCompleted ::
    "(json \<Rightarrow> nat option) \<Rightarrow> node_id \<Rightarrow> json option \<Rightarrow> node_id list option \<Rightarrow> RunState \<Rightarrow> RunState" where
  "settleCompleted bytesOf v output selected st =
     (let (bytes, nodeBreach) = measureNodeOutput bytesOf output;
          breach = (case nodeBreach of
                      None \<Rightarrow> measureWorkflowState (rs_workflowStateBytes st + bytes)
                    | Some b \<Rightarrow> Some b)
      in case breach of
           Some message \<Rightarrow> settleFailed v (fatal Validation message) st
         | None \<Rightarrow> putOutput v output selected
             (st\<lparr>rs_workflowStateBytes := rs_workflowStateBytes st + bytes\<rparr>))"

definition publishPause :: "node_id \<Rightarrow> string \<Rightarrow> bool \<Rightarrow> RunState \<Rightarrow> RunState" where
  "publishPause v gateId isBudgetGate st =
     (putStatus v Paused st)\<lparr>
       rs_publishingPauses := rs_publishingPauses st + 1,
       rs_pendingGates := mset_key gateId
         \<lparr>pg_vertex = v, pg_isBudgetGate = isBudgetGate, pg_acknowledged = \<not> isBudgetGate\<rparr> (rs_pendingGates st)\<rparr>"

definition settleMediaJobParked :: "node_id \<Rightarrow> RunState \<Rightarrow> RunState" where
  "settleMediaJobParked v st =
     (let st' = putStatus v Paused st
      in if rs_settled st' \<noteq> None then st'
         else st'\<lparr>rs_pendingMediaJobs := set_add v (rs_pendingMediaJobs st')\<rparr>)"

definition onOutcome :: "(json \<Rightarrow> nat option) \<Rightarrow> node_id \<Rightarrow> NodeOutcome \<Rightarrow> RunState \<Rightarrow> RunState" where
  "onOutcome bytesOf v outcome st =
     (if rs_settled st \<noteq> None \<or> settledStatus st v then st
      else case outcome of
        OutCompleted output \<Rightarrow> settleCompleted bytesOf v output None st
      | OutBranch output selected \<Rightarrow> settleCompleted bytesOf v output (Some selected) st
      | OutFailed error \<Rightarrow> settleFailed v error st
      | OutPaused gateId isBudgetGate \<Rightarrow> publishPause v gateId isBudgetGate st
      | OutMediaJob \<Rightarrow> settleMediaJobParked v st)"

section \<open>The serialized step\<close>

definition settleRun :: "Terminal \<Rightarrow> RunState \<Rightarrow> RunState" where
  "settleRun t st =
     (if rs_settled st \<noteq> None then st
      else st\<lparr>rs_settled := Some t, rs_aborted := True, rs_pendingMediaJobs := []\<rparr>)"

text \<open>\<open>#step\<close> up to its first suspension: a step on a settled run, or during a passive checkpoint
  approval, does nothing.\<close>

definition stepSkips :: "RunPlan \<Rightarrow> bool \<Rightarrow> RunState \<Rightarrow> RunState" where
  "stepSkips plan checkpointOpen st =
     (if rs_settled st \<noteq> None then st
      else if checkpointOpen \<and> rs_failure st = None \<and> \<not> rs_cancelling st then st
      else st\<lparr>rs_states := fst (propagateSkips plan (rs_states st)), rs_phase := StepDecide\<rparr>)"

definition handleIdle :: "nat \<Rightarrow> RunState \<Rightarrow> RunState" where
  "handleIdle running st =
     (if 0 < running \<or> 0 < rs_publishingPauses st then st
      else if list_ex (\<lambda>gateId. gateId \<in> set (rs_resolvedGates st)) (mkeys (rs_pendingGates st)) then st
      else if rs_pendingGates st \<noteq> [] \<or> rs_pendingMediaJobs st \<noteq> [] then st
      else st\<lparr>rs_failure := Some (None, fatal InternalError RunStalled)\<rparr>)"

definition claimedActors :: "node_id list \<Rightarrow> RunState \<Rightarrow> RunState" where
  "claimedActors vs st = fold (\<lambda>v. putActor v Claimed) vs st"

definition stepDecide :: "RunPlan \<Rightarrow> RunState \<Rightarrow> RunState" where
  "stepDecide plan st0 =
     (let st = st0\<lparr>rs_phase := StepIdle\<rparr>; running = countRunning (rs_states st)
      in if rs_cancelling st then (if running = 0 then settleRun RunCancelled st else st)
         else if rs_failure st \<noteq> None then (if running = 0 then settleRun RunFailed st else st)
         else if allSettled (rs_states st) then settleRun RunCompleted st
         else if ceil_nodeDispatchesPerRun \<le> rs_nodeDispatches st \<and> rs_settled st = None
         then st\<lparr>rs_failure := Some (None, fatal TurnLimit (DispatchLimit ceil_nodeDispatchesPerRun)), rs_aborted := True\<rparr>
         else (let headroom = ceil_nodeDispatchesPerRun - rs_nodeDispatches st;
                   (ready, m) = claimReady plan (rs_states st) running headroom
               in if ready = [] then handleIdle running st
                  else (claimedActors ready st)\<lparr>rs_states := m, rs_phase := StepStart ready\<rparr>))"

text \<open>The \<open>finally\<close> of the start loop: claims without a start become pending again.\<close>

definition releaseOne :: "node_id \<Rightarrow> RunState \<Rightarrow> RunState" where
  "releaseOne v st =
     (let st' = dropActor v st in if vstatus st' v = Some Running then putStatus v Pending st' else st')"

definition releaseClaims :: "node_id list \<Rightarrow> RunState \<Rightarrow> RunState" where
  "releaseClaims unstarted st = (fold releaseOne unstarted st)\<lparr>rs_phase := StepIdle\<rparr>"

definition startNext :: "node_id \<Rightarrow> node_id list \<Rightarrow> RunState \<Rightarrow> RunState" where
  "startNext v vs st =
     (if rs_noNewDispatch st \<or> rs_settled st \<noteq> None \<or> rs_aborted st then releaseClaims (v # vs) st
      else (putActor v Entering st)\<lparr>
        rs_nodeDispatches := rs_nodeDispatches st + 1,
        rs_lastAttempt := mset_key v 1 (rs_lastAttempt st),
        rs_phase := StepEnter v vs\<rparr>)"

definition consumerFault :: "node_id \<Rightarrow> node_id list \<Rightarrow> RunState \<Rightarrow> RunState" where
  "consumerFault v vs st =
     (if rs_settled st \<noteq> None \<or> rs_aborted st then releaseClaims (v # vs) st
      else releaseClaims (v # vs) (settleFailedOrBackstop v (fatal InternalError ConsumerNotReady) st))"

definition enterDispatch :: "node_id \<Rightarrow> node_id list \<Rightarrow> RunState \<Rightarrow> RunState" where
  "enterDispatch v vs st =
     (if rs_noNewDispatch st \<or> rs_settled st \<noteq> None then releaseClaims vs (dropActor v st)
      else if rs_aborted st
      then releaseClaims vs (settleFailedOrBackstop v (fatal Cancelled CancelledBeforeDispatch) (dropActor v st))
      else (putActor v (Attempting 1) st)\<lparr>rs_phase := (if vs = [] then StepIdle else StepStart vs)\<rparr>)"

definition startFault :: "node_id \<Rightarrow> node_id list \<Rightarrow> RunState \<Rightarrow> RunState" where
  "startFault v vs st =
     releaseClaims vs (settleFailedOrBackstop v (fatal InternalError StartUnpublished) (dropActor v st))"

section \<open>The dispatch loop of a vertex\<close>

definition vertexRetry :: "RunPlan \<Rightarrow> node_id \<Rightarrow> Retry option" where
  "vertexRetry plan v = Option.bind (mget (rp_vertices plan) v) (\<lambda>vertex. retryConfig (pv_config vertex))"

definition willRetry :: "RunPlan \<Rightarrow> node_id \<Rightarrow> nat \<Rightarrow> NodeFailure \<Rightarrow> RunState \<Rightarrow> bool" where
  "willRetry plan v attempt error st =
     (rs_settled st = None \<and> \<not> rs_cancelling st \<and> rs_failure st = None \<and> \<not> rs_aborted st \<and>
      shouldRetry (vertexRetry plan v) error attempt)"

definition attemptSettles ::
    "RunPlan \<Rightarrow> (json \<Rightarrow> nat option) \<Rightarrow> node_id \<Rightarrow> nat \<Rightarrow> NodeOutcome \<Rightarrow> RunState \<Rightarrow> RunState" where
  "attemptSettles plan bytesOf v attempt outcome st =
     (case outcome of
        OutFailed error \<Rightarrow>
          (if \<not> willRetry plan v attempt error st then onOutcome bytesOf v outcome (dropActor v st)
           else if ceil_nodeDispatchesPerRun \<le> rs_nodeDispatches st
           then onOutcome bytesOf v (OutFailed (fatal TurnLimit (DispatchLimit (rs_nodeDispatches st)))) (dropActor v st)
           else putActor v (BackingOff attempt error) st)
      | _ \<Rightarrow> onOutcome bytesOf v outcome (dropActor v st))"

definition retryWakes ::
    "(json \<Rightarrow> nat option) \<Rightarrow> node_id \<Rightarrow> nat \<Rightarrow> NodeFailure \<Rightarrow> bool \<Rightarrow> RunState \<Rightarrow> RunState" where
  "retryWakes bytesOf v attempt error sleptFully st =
     (if rs_settled st \<noteq> None then dropActor v st
      else if rs_cancelling st \<or> rs_aborted st \<or> \<not> sleptFully then onOutcome bytesOf v (OutFailed error) (dropActor v st)
      else (putActor v (Restarting (attempt + 1)) st)\<lparr>
        rs_lastAttempt := mset_key v (attempt + 1) (rs_lastAttempt st),
        rs_nodeDispatches := rs_nodeDispatches st + 1\<rparr>)"

definition retryEnters :: "node_id \<Rightarrow> nat \<Rightarrow> RunState \<Rightarrow> RunState" where
  "retryEnters v attempt st =
     (if rs_noNewDispatch st \<or> rs_settled st \<noteq> None then dropActor v st
      else if rs_aborted st
      then settleFailedOrBackstop v (fatal Cancelled CancelledBeforeDispatch) (dropActor v st)
      else putActor v (Attempting attempt) st)"

text \<open>A dispatch that throws is failed by the detached continuation in \<open>#step\<close>.\<close>

definition dispatchFault :: "node_id \<Rightarrow> RunState \<Rightarrow> RunState" where
  "dispatchFault v st = settleFailedOrBackstop v (fatal InternalError DispatchUnexpected) (dropActor v st)"

section \<open>Cancellation, timers and faults\<close>

datatype EngineStateError = RunAlreadyTerminal | RunNotPaused | UnknownGate | InvalidDecision

definition requestCancel :: "RunState \<Rightarrow> EngineStateError + RunState" where
  "requestCancel st =
     (if rs_settled st \<noteq> None then Inl RunAlreadyTerminal
      else if rs_cancelling st then Inr st
      else Inr (st\<lparr>rs_cancelling := True, rs_aborted := True\<rparr>))"

definition onRunTimeout :: "nat \<Rightarrow> RunState \<Rightarrow> RunState" where
  "onRunTimeout timeoutMs st =
     (if rs_settled st \<noteq> None then st
      else st\<lparr>rs_failure := Some (None, fatal RunTimeout (RunTimedOut timeoutMs)), rs_aborted := True\<rparr>)"

definition onNodeDeadline :: "(json \<Rightarrow> nat option) \<Rightarrow> node_id \<Rightarrow> nat \<Rightarrow> RunState \<Rightarrow> RunState" where
  "onNodeDeadline bytesOf v timeoutMs st =
     (if rs_settled st \<noteq> None \<or> settledStatus st v then st
      else onOutcome bytesOf v (OutFailed (fatal RunTimeout (NodeTimedOut v timeoutMs))) st)"

text \<open>\<open>#onGraceElapsed\<close>: the latch, one abandoned vertex of the loop, and the closing default cause.\<close>

definition graceLatch :: "RunState \<Rightarrow> RunState" where
  "graceLatch st = (if rs_settled st \<noteq> None then st else st\<lparr>rs_noNewDispatch := True\<rparr>)"

definition graceAbandon :: "node_id \<Rightarrow> RunState \<Rightarrow> RunState" where
  "graceAbandon v st =
     (if vstatus st v \<noteq> Some Running \<or> mget (rs_actors st) v = Some Claimed then st
      else settleFailed v (fatal Cancelled GraceAbandoned) st)"

definition graceClose :: "RunState \<Rightarrow> RunState" where
  "graceClose st = recordFailure None (fatal RunTimeout GraceAborted) st"

definition durableFault :: "node_id option \<Rightarrow> RunState \<Rightarrow> RunState" where
  "durableFault v st = recordFailure v (fatal InternalError DurableWriteFailed) st"

section \<open>Gates\<close>

datatype Decision = Approved | Rejected | InputProvided

fun DECISIONS_BY_GATE_TYPE :: "GateType \<Rightarrow> Decision list" where
  "DECISIONS_BY_GATE_TYPE Approval = [Approved, Rejected]"
| "DECISIONS_BY_GATE_TYPE Review = [Approved, Rejected]"
| "DECISIONS_BY_GATE_TYPE InputGate = [InputProvided, Rejected]"

definition gateAcceptsDecision :: "GateType \<Rightarrow> Decision \<Rightarrow> bool" where
  "gateAcceptsDecision gateType decision = (decision \<in> set (DECISIONS_BY_GATE_TYPE gateType))"

definition assertGatePending :: "string \<Rightarrow> RunState \<Rightarrow> EngineStateError + PendingGate" where
  "assertGatePending gateId st =
     (if rs_pendingGates st = [] then Inl RunNotPaused
      else case mget (rs_pendingGates st) gateId of None \<Rightarrow> Inl UnknownGate | Some gate \<Rightarrow> Inr gate)"

definition decisionFits :: "RunPlan \<Rightarrow> PendingGate \<Rightarrow> Decision \<Rightarrow> bool" where
  "decisionFits plan gate decision =
     (pg_isBudgetGate gate \<or>
      (case map_option pv_config (mget (rp_vertices plan) (pg_vertex gate)) of
         Some (HumanGateConfig node) \<Rightarrow> gateAcceptsDecision (hg_gate_type node) decision
       | _ \<Rightarrow> True))"

definition resolveGate :: "string \<Rightarrow> RunState \<Rightarrow> RunState" where
  "resolveGate gateId st = st\<lparr>rs_resolvedGates := set_add gateId (rs_resolvedGates st)\<rparr>"

definition dropGate :: "string \<Rightarrow> RunState \<Rightarrow> RunState" where
  "dropGate gateId st = st\<lparr>rs_pendingGates := mdelete gateId (rs_pendingGates st)\<rparr>"

text \<open>\<open>resume\<close> up to the claim of the gate. A budget gate is claimed only when its authorization is
  durable and the run may still authorize spending.\<close>

definition resumeGate :: "RunPlan \<Rightarrow> string \<Rightarrow> Decision \<Rightarrow> RunState \<Rightarrow> EngineStateError + RunState" where
  "resumeGate plan gateId decision st =
     (if gateId \<in> set (rs_resolvedGates st) then Inr st
      else if rs_settled st \<noteq> None then Inl RunAlreadyTerminal
      else case assertGatePending gateId st of
        Inl e \<Rightarrow> Inl e
      | Inr gate \<Rightarrow>
          if pg_isBudgetGate gate
          then (if \<not> pg_acknowledged gate then Inl InvalidDecision
                else if rs_cancelling st \<or> rs_failure st \<noteq> None \<or> rs_aborted st \<or> rs_noNewDispatch st then Inr st
                else Inr (resolveGate gateId st))
          else if \<not> decisionFits plan gate decision then Inl InvalidDecision
          else Inr (resolveGate gateId st))"

definition failGateResume :: "node_id \<Rightarrow> NodeFailure \<Rightarrow> RunState \<Rightarrow> RunState" where
  "failGateResume v error st =
     recordFailure (Some v) error
       (if vstatus st v = Some Paused \<or> vstatus st v = Some Running then putStatus v Failed st else st)"

text \<open>A human gate after the media pin of its payload: the second of the two suspended stretches.\<close>

definition gateApplies :: "(json \<Rightarrow> nat option) \<Rightarrow> string \<Rightarrow> node_id \<Rightarrow> json \<Rightarrow> RunState \<Rightarrow> RunState" where
  "gateApplies bytesOf gateId v gateOutput st =
     (if rs_settled st \<noteq> None \<or> rs_cancelling st \<or> rs_aborted st \<or> vstatus st v \<noteq> Some Paused then st
      else (let st' = putOutput v (Some gateOutput) None (dropGate gateId st)
            in st'\<lparr>rs_workflowStateBytes :=
                 rs_workflowStateBytes st' + fst (measureNodeOutput bytesOf (Some gateOutput))\<rparr>))"

text \<open>A claimed budget gate once its two companions were acknowledged, or were not.\<close>

definition canAuthorizeBudget :: "RunState \<Rightarrow> bool" where
  "canAuthorizeBudget st \<longleftrightarrow>
     rs_settled st = None \<and> \<not> rs_cancelling st \<and> rs_failure st = None \<and> \<not> rs_noNewDispatch st \<and> \<not> rs_aborted st"

definition budgetGateDecided :: "string \<Rightarrow> node_id \<Rightarrow> Decision \<Rightarrow> RunState \<Rightarrow> RunState" where
  "budgetGateDecided gateId v decision st =
     dropGate gateId
       (if \<not> canAuthorizeBudget st then st
        else if decision = Rejected then failGateResume v (fatal BudgetExceeded BudgetGateRejected) st
        else putStatus v Pending st)"

definition acknowledgeGate :: "string \<Rightarrow> PendingGate \<Rightarrow> RunState \<Rightarrow> RunState" where
  "acknowledgeGate gateId gate st =
     st\<lparr>rs_pendingGates := mset_key gateId (gate\<lparr>pg_acknowledged := True\<rparr>) (rs_pendingGates st)\<rparr>"

definition pauseSettles :: "RunState \<Rightarrow> RunState" where
  "pauseSettles st = st\<lparr>rs_publishingPauses := rs_publishingPauses st - 1\<rparr>"

definition pauseFault :: "node_id \<Rightarrow> RunState \<Rightarrow> RunState" where
  "pauseFault v st = failNodeInternal v SettlingFailed (pauseSettles st)"

definition failGateOnTimeout :: "string \<Rightarrow> node_id \<Rightarrow> RunState \<Rightarrow> RunState" where
  "failGateOnTimeout gateId v st =
     (if rs_settled st \<noteq> None \<or> gateId \<in> set (rs_resolvedGates st) \<or> mget (rs_pendingGates st) gateId = None then st
      else settleFailed v (fatal RunTimeout GateTimedOut) (resolveGate gateId (dropGate gateId st)))"

section \<open>Parked media jobs\<close>

definition clearMediaJob :: "node_id \<Rightarrow> RunState \<Rightarrow> RunState" where
  "clearMediaJob v st = st\<lparr>rs_pendingMediaJobs := removeAll v (rs_pendingMediaJobs st)\<rparr>"

text \<open>\<open>#settleMediaJobDone\<close> clears the job, then suspends while the output is pinned.\<close>

definition mediaJobDone :: "node_id \<Rightarrow> RunState \<Rightarrow> RunState" where
  "mediaJobDone v st = putActor v PinningMedia (clearMediaJob v st)"

definition mediaPinned :: "(json \<Rightarrow> nat option) \<Rightarrow> node_id \<Rightarrow> NodeOutcome \<Rightarrow> RunState \<Rightarrow> RunState" where
  "mediaPinned bytesOf v outcome st = onOutcome bytesOf v outcome (dropActor v st)"

definition mediaJobFailed :: "(json \<Rightarrow> nat option) \<Rightarrow> node_id \<Rightarrow> NodeFailure \<Rightarrow> RunState \<Rightarrow> RunState" where
  "mediaJobFailed bytesOf v error st = onOutcome bytesOf v (OutFailed error) (clearMediaJob v st)"

definition mediaPollFault :: "node_id \<Rightarrow> RunState \<Rightarrow> RunState" where
  "mediaPollFault v st =
     (if rs_settled st \<noteq> None then st else failNodeInternal v SettlingFailed (clearMediaJob v st))"

section \<open>Events\<close>

datatype RunEvent =
    Tick bool
  | Decide
  | StartNext
  | ConsumerFault
  | EnterDispatch
  | StartFault
  | AttemptSettles node_id NodeOutcome
  | RetryWakes node_id bool
  | RetryEnters node_id
  | DispatchFault node_id
  | CancelRequested
  | RunTimesOut nat
  | NodeTimesOut node_id nat
  | GraceElapses
  | GraceAbandons node_id
  | GraceCloses
  | DurableFault "node_id option"
  | GateDecided string Decision
  | GateApplies string json
  | GatePinFails string NodeFailure
  | GateEmitFails node_id
  | BudgetGateDecided string Decision
  | GateAcknowledged string
  | PauseSettles
  | PauseFault node_id
  | GateTimesOut string
  | MediaJobDone node_id
  | MediaPinned node_id "json option"
  | MediaPinFails node_id NodeFailure
  | MediaJobFails node_id NodeFailure
  | MediaPollFault node_id

text \<open>A gate id handed out for a new pause is new: the host's ids are unique.\<close>

definition freshGate :: "NodeOutcome \<Rightarrow> RunState \<Rightarrow> bool" where
  "freshGate outcome st =
     (case outcome of
        OutPaused gateId _ \<Rightarrow> mget (rs_pendingGates st) gateId = None \<and> gateId \<notin> set (rs_resolvedGates st)
      | _ \<Rightarrow> True)"

definition onlyIf :: "bool \<Rightarrow> 'a \<Rightarrow> 'a option" where
  "onlyIf b x = (if b then Some x else None)"

definition okState :: "EngineStateError + RunState \<Rightarrow> RunState option" where
  "okState r = (case r of Inl _ \<Rightarrow> None | Inr st \<Rightarrow> Some st)"

text \<open>\<open>apply_event plan bytesOf e st\<close> is the state after \<open>e\<close>, or nothing when \<open>e\<close> cannot occur in \<open>st\<close>.\<close>

fun apply_event :: "RunPlan \<Rightarrow> (json \<Rightarrow> nat option) \<Rightarrow> RunEvent \<Rightarrow> RunState \<Rightarrow> RunState option" where
  "apply_event plan bytesOf (Tick checkpointOpen) st = onlyIf (rs_phase st = StepIdle) (stepSkips plan checkpointOpen st)"
| "apply_event plan bytesOf Decide st = onlyIf (rs_phase st = StepDecide) (stepDecide plan st)"
| "apply_event plan bytesOf StartNext st =
     (case rs_phase st of StepStart (v # vs) \<Rightarrow> Some (startNext v vs st) | _ \<Rightarrow> None)"
| "apply_event plan bytesOf ConsumerFault st =
     (case rs_phase st of StepStart (v # vs) \<Rightarrow> Some (consumerFault v vs st) | _ \<Rightarrow> None)"
| "apply_event plan bytesOf EnterDispatch st =
     (case rs_phase st of StepEnter v vs \<Rightarrow> Some (enterDispatch v vs st) | _ \<Rightarrow> None)"
| "apply_event plan bytesOf StartFault st =
     (case rs_phase st of StepEnter v vs \<Rightarrow> Some (startFault v vs st) | _ \<Rightarrow> None)"
| "apply_event plan bytesOf (AttemptSettles v outcome) st =
     (case mget (rs_actors st) v of
        Some (Attempting attempt) \<Rightarrow> onlyIf (freshGate outcome st) (attemptSettles plan bytesOf v attempt outcome st)
      | _ \<Rightarrow> None)"
| "apply_event plan bytesOf (RetryWakes v sleptFully) st =
     (case mget (rs_actors st) v of
        Some (BackingOff attempt error) \<Rightarrow>
          onlyIf (sleptFully \<or> rs_aborted st) (retryWakes bytesOf v attempt error sleptFully st)
      | _ \<Rightarrow> None)"
| "apply_event plan bytesOf (RetryEnters v) st =
     (case mget (rs_actors st) v of Some (Restarting attempt) \<Rightarrow> Some (retryEnters v attempt st) | _ \<Rightarrow> None)"
| "apply_event plan bytesOf (DispatchFault v) st =
     (case mget (rs_actors st) v of
        Some (Attempting _) \<Rightarrow> Some (dispatchFault v st)
      | Some (BackingOff _ _) \<Rightarrow> Some (dispatchFault v st)
      | Some (Restarting _) \<Rightarrow> Some (dispatchFault v st)
      | _ \<Rightarrow> None)"
| "apply_event plan bytesOf CancelRequested st = okState (requestCancel st)"
| "apply_event plan bytesOf (RunTimesOut timeoutMs) st = Some (onRunTimeout timeoutMs st)"
| "apply_event plan bytesOf (NodeTimesOut v timeoutMs) st =
     onlyIf (mget (rs_lastAttempt st) v \<noteq> None) (onNodeDeadline bytesOf v timeoutMs st)"
| "apply_event plan bytesOf GraceElapses st = onlyIf (rs_aborted st) (graceLatch st)"
| "apply_event plan bytesOf (GraceAbandons v) st = onlyIf (rs_noNewDispatch st) (graceAbandon v st)"
| "apply_event plan bytesOf GraceCloses st = onlyIf (rs_noNewDispatch st) (graceClose st)"
| "apply_event plan bytesOf (DurableFault v) st = onlyIf (rs_settled st = None) (durableFault v st)"
| "apply_event plan bytesOf (GateDecided gateId decision) st = okState (resumeGate plan gateId decision st)"
| "apply_event plan bytesOf (GateApplies gateId gateOutput) st =
     (case mget (rs_pendingGates st) gateId of
        Some gate \<Rightarrow> onlyIf (\<not> pg_isBudgetGate gate \<and> gateId \<in> set (rs_resolvedGates st))
          (gateApplies bytesOf gateId (pg_vertex gate) gateOutput st)
      | None \<Rightarrow> None)"
| "apply_event plan bytesOf (GatePinFails gateId error) st =
     (case mget (rs_pendingGates st) gateId of
        Some gate \<Rightarrow> onlyIf (\<not> pg_isBudgetGate gate \<and> gateId \<in> set (rs_resolvedGates st))
          (failGateResume (pg_vertex gate) error st)
      | None \<Rightarrow> None)"
| "apply_event plan bytesOf (GateEmitFails v) st =
     onlyIf (rs_settled st = None \<and> vstatus st v = Some Completed)
       (failGateResume v (fatal InternalError GatePayloadNotDurable) st)"
| "apply_event plan bytesOf (BudgetGateDecided gateId decision) st =
     (case mget (rs_pendingGates st) gateId of
        Some gate \<Rightarrow> onlyIf (pg_isBudgetGate gate \<and> gateId \<in> set (rs_resolvedGates st))
          (budgetGateDecided gateId (pg_vertex gate) decision st)
      | None \<Rightarrow> None)"
| "apply_event plan bytesOf (GateAcknowledged gateId) st =
     (case mget (rs_pendingGates st) gateId of
        Some gate \<Rightarrow> onlyIf (pg_isBudgetGate gate) (acknowledgeGate gateId gate st)
      | None \<Rightarrow> None)"
| "apply_event plan bytesOf PauseSettles st = onlyIf (0 < rs_publishingPauses st) (pauseSettles st)"
| "apply_event plan bytesOf (PauseFault v) st =
     onlyIf (0 < rs_publishingPauses st \<and> mget (rs_lastAttempt st) v \<noteq> None) (pauseFault v st)"
| "apply_event plan bytesOf (GateTimesOut gateId) st =
     (case mget (rs_pendingGates st) gateId of
        Some gate \<Rightarrow> Some (failGateOnTimeout gateId (pg_vertex gate) st)
      | None \<Rightarrow> None)"
| "apply_event plan bytesOf (MediaJobDone v) st =
     onlyIf (v \<in> set (rs_pendingMediaJobs st) \<and> rs_settled st = None \<and> \<not> rs_aborted st) (mediaJobDone v st)"
| "apply_event plan bytesOf (MediaPinned v output) st =
     (case mget (rs_actors st) v of
        Some PinningMedia \<Rightarrow> Some (mediaPinned bytesOf v (OutCompleted output) st)
      | _ \<Rightarrow> None)"
| "apply_event plan bytesOf (MediaPinFails v error) st =
     (case mget (rs_actors st) v of
        Some PinningMedia \<Rightarrow> Some (mediaPinned bytesOf v (OutFailed error) st)
      | _ \<Rightarrow> None)"
| "apply_event plan bytesOf (MediaJobFails v error) st =
     onlyIf (v \<in> set (rs_pendingMediaJobs st) \<and> rs_settled st = None) (mediaJobFailed bytesOf v error st)"
| "apply_event plan bytesOf (MediaPollFault v) st =
     onlyIf (v \<in> set (rs_pendingMediaJobs st)) (mediaPollFault v st)"

inductive reachable :: "RunPlan \<Rightarrow> (json \<Rightarrow> nat option) \<Rightarrow> RunState \<Rightarrow> bool"
  for plan bytesOf where
  reach_init: "reachable plan bytesOf (initialRun plan)"
| reach_step: "reachable plan bytesOf st \<Longrightarrow> apply_event plan bytesOf e st = Some st' \<Longrightarrow> reachable plan bytesOf st'"

abbreviation run_events :: "RunPlan \<Rightarrow> (json \<Rightarrow> nat option) \<Rightarrow> RunEvent list \<Rightarrow> RunState \<Rightarrow> RunState option" where
  "run_events plan bytesOf \<equiv> run_from (apply_event plan bytesOf)"

lemma reachable_run_events:
  "reachable plan bytesOf st \<Longrightarrow> run_events plan bytesOf es st = Some st' \<Longrightarrow> reachable plan bytesOf st'"
  by (induction es arbitrary: st) (auto split: option.splits intro: reach_step)

lemma reachable_iff_run:
  "reachable plan bytesOf st \<longleftrightarrow> (\<exists>es. run_events plan bytesOf es (initialRun plan) = Some st)"
proof
  assume "reachable plan bytesOf st"
  then show "\<exists>es. run_events plan bytesOf es (initialRun plan) = Some st"
  proof induction
    case reach_init
    show ?case by (rule exI[of _ "[]"]) simp
  next
    case (reach_step st e st')
    then obtain es where "run_events plan bytesOf es (initialRun plan) = Some st" by blast
    then have "run_events plan bytesOf (es @ [e]) (initialRun plan) = Some st'"
      using reach_step.hyps(2) by (simp add: run_from_append)
    then show ?case by blast
  qed
qed (auto intro: reachable_run_events reach_init)

end
