(* ===== verification/Run_Invariant.thy ===== *)
theory Run_Invariant
  imports Run_Loop
begin

text \<open>
  The invariant of the run loop: who may touch a vertex. A vertex is held by at most one of its own
  suspended dispatch, a pending gate or a parked media job; its status says which of them; and a
  vertex that ever left \<open>pending\<close> did so with all dependencies settled. Every event keeps it.
\<close>

section \<open>The invariant\<close>

definition doomed :: "RunState \<Rightarrow> bool" where
  "doomed st \<longleftrightarrow> rs_failure st \<noteq> None \<or> rs_cancelling st \<or> rs_settled st \<noteq> None"

definition gatesAt :: "(string, PendingGate) jsmap \<Rightarrow> node_id \<Rightarrow> string set" where
  "gatesAt gates v = {g. \<exists>gate. mget gates g = Some gate \<and> pg_vertex gate = v}"

definition parkedStatus :: "VertexStatus option \<Rightarrow> bool" where
  "parkedStatus x \<longleftrightarrow> x = Some Paused \<or> x = Some Failed"

definition heldStatus :: "VertexStatus option \<Rightarrow> bool" where
  "heldStatus x \<longleftrightarrow> x = Some Running \<or> x = Some Failed"

text \<open>The view of one vertex: status, suspended dispatch, gates, parked job.\<close>

definition holder_ok :: "VertexStatus option \<Rightarrow> Actor option \<Rightarrow> string set \<Rightarrow> bool \<Rightarrow> bool \<Rightarrow> bool" where
  "holder_ok x actor gates parked doom \<longleftrightarrow>
     (actor \<noteq> None \<longrightarrow> gates = {} \<and> \<not> parked) \<and>
     (actor = Some PinningMedia \<longrightarrow> parkedStatus x) \<and>
     (actor \<noteq> None \<and> actor \<noteq> Some PinningMedia \<longrightarrow> heldStatus x) \<and>
     (parked \<longrightarrow> gates = {} \<and> parkedStatus x) \<and>
     (gates \<noteq> {} \<longrightarrow> parkedStatus x) \<and> (\<forall>g \<in> gates. \<forall>h \<in> gates. g = h) \<and>
     (x = Some Paused \<longrightarrow> gates \<noteq> {} \<or> parked \<or> actor = Some PinningMedia \<or> doom)"

abbreviation view_ok :: "RunState \<Rightarrow> node_id \<Rightarrow> bool" where
  "view_ok st v \<equiv> holder_ok (vstatus st v) (mget (rs_actors st) v) (gatesAt (rs_pendingGates st) v)
     (v \<in> set (rs_pendingMediaJobs st)) (doomed st)"

fun phase_ok :: "(node_id, Actor) jsmap \<Rightarrow> StepPhase \<Rightarrow> bool" where
  "phase_ok actors (StepStart vs) \<longleftrightarrow> distinct vs \<and> (\<forall>v \<in> set vs. mget actors v = Some Claimed)"
| "phase_ok actors (StepEnter v vs) \<longleftrightarrow>
     distinct (v # vs) \<and> mget actors v = Some Entering \<and> (\<forall>u \<in> set vs. mget actors u = Some Claimed)"
| "phase_ok actors _ \<longleftrightarrow> True"

definition run_inv :: "RunPlan \<Rightarrow> RunState \<Rightarrow> bool" where
  "run_inv plan st \<longleftrightarrow>
     mkeys (rs_states st) = mkeys (rp_vertices plan) \<and> map_invar (rs_states st) \<and> legit plan (rs_states st) \<and>
     (\<forall>v. mget (rs_lastAttempt st) v \<noteq> None \<longrightarrow> vertexReady plan (rs_states st) v) \<and>
     (\<forall>v. view_ok st v) \<and> phase_ok (rs_actors st) (rs_phase st) \<and>
     countRunning (rs_states st) \<le> slots plan"

section \<open>Steps that touch one vertex\<close>

text \<open>A step that changes what is known about one vertex only.\<close>

definition same_view :: "RunState \<Rightarrow> RunState \<Rightarrow> node_id \<Rightarrow> bool" where
  "same_view st st' u \<longleftrightarrow>
     vstatus st' u = vstatus st u \<and> mget (rs_actors st') u = mget (rs_actors st) u \<and>
     gatesAt (rs_pendingGates st') u = gatesAt (rs_pendingGates st) u \<and>
     (u \<in> set (rs_pendingMediaJobs st') \<longleftrightarrow> u \<in> set (rs_pendingMediaJobs st)) \<and>
     mget (rs_lastAttempt st') u = mget (rs_lastAttempt st) u"

definition touches :: "RunPlan \<Rightarrow> node_id \<Rightarrow> RunState \<Rightarrow> RunState \<Rightarrow> bool" where
  "touches plan v st st' \<longleftrightarrow>
     mkeys (rs_states st') = mkeys (rs_states st) \<and> extends (rs_states st) (rs_states st') \<and>
     (\<forall>u. u \<noteq> v \<longrightarrow> same_view st st' u) \<and> (doomed st \<longrightarrow> doomed st') \<and> view_ok st' v \<and>
     (\<forall>x. vstatus st' v = Some x \<longrightarrow> active x \<longrightarrow> vertexReady plan (rs_states st) v) \<and>
     (vstatus st' v = Some Skipped \<longrightarrow> vstatus st v = Some Skipped) \<and>
     (vstatus st' v = Some Running \<longrightarrow> vstatus st v = Some Running) \<and>
     (mget (rs_lastAttempt st') v \<noteq> None \<longrightarrow> vertexReady plan (rs_states st) v)"

lemma holder_ok_doom: "holder_ok x a gs p d \<Longrightarrow> (d \<longrightarrow> d') \<Longrightarrow> holder_ok x a gs p d'"
  unfolding holder_ok_def by blast

lemma touches_inv:
  assumes inv: "run_inv plan st" and t: "touches plan v st st'" and ph: "phase_ok (rs_actors st') (rs_phase st')"
  shows "run_inv plan st'"
proof -
  have e: "extends (rs_states st) (rs_states st')" and k: "mkeys (rs_states st') = mkeys (rs_states st)"
    using t by (simp_all add: touches_def)
  have mi: "map_invar (rs_states st')" using inv k by (metis run_inv_def map_invar_keys)
  have "legit plan (rs_states st')"
  proof (rule legit_change[OF _ e])
    show "legit plan (rs_states st)" using inv by (simp add: run_inv_def)
    show "u \<noteq> v \<Longrightarrow> vstatus st' u = vstatus st u" for u using t by (simp add: touches_def same_view_def)
    show "vstatus st' v = Some x \<Longrightarrow> active x \<Longrightarrow> vertexReady plan (rs_states st) v" for x
      using t by (simp add: touches_def)
    show "vstatus st' v = Some Skipped \<Longrightarrow> vertexDead plan (rs_states st) v"
      using t inv by (auto simp: touches_def run_inv_def legit_def)
  qed
  moreover have "vertexReady plan (rs_states st') u" if "mget (rs_lastAttempt st') u \<noteq> None" for u
    using that t inv vertexReady_extends[OF e] by (cases "u = v") (auto simp: touches_def same_view_def run_inv_def)
  moreover have "view_ok st' u" for u
  proof (cases "u = v")
    case True
    then show ?thesis using t by (simp add: touches_def)
  next
    case False
    then have "same_view st st' u" "doomed st \<longrightarrow> doomed st'" "view_ok st u"
      using t inv by (simp_all add: touches_def run_inv_def)
    then show ?thesis by (auto simp: same_view_def elim: holder_ok_doom)
  qed
  moreover have "countRunning (rs_states st') \<le> slots plan"
  proof -
    have "runningIds (rs_states st') \<subseteq> runningIds (rs_states st)"
      using t by (auto simp: runningIds_def touches_def same_view_def)
    then have "card (runningIds (rs_states st')) \<le> card (runningIds (rs_states st))"
      by (simp add: card_mono finite_runningIds)
    moreover have "map_invar (rs_states st)" "countRunning (rs_states st) \<le> slots plan" using inv by (simp_all add: run_inv_def)
    ultimately show ?thesis using mi by (simp add: countRunning_card)
  qed
  ultimately show ?thesis using inv mi k ph by (simp add: run_inv_def)
qed

lemma run_invD:
  assumes "run_inv plan st"
  shows "map_invar (rs_states st)" and "legit plan (rs_states st)" and "view_ok st v"
    and "phase_ok (rs_actors st) (rs_phase st)" and "countRunning (rs_states st) \<le> slots plan"
    and "mkeys (rs_states st) = mkeys (rp_vertices plan)"
    and "mget (rs_lastAttempt st) v \<noteq> None \<Longrightarrow> vertexReady plan (rs_states st) v"
    and "vstatus st v = Some x \<Longrightarrow> active x \<Longrightarrow> vertexReady plan (rs_states st) v"
  using assms by (auto simp: run_inv_def intro: legitD)

text \<open>A step that changes no vertex.\<close>

lemma quiet_inv:
  assumes "run_inv plan st" and "rs_states st' = rs_states st" and "rs_actors st' = rs_actors st"
    and "rs_pendingGates st' = rs_pendingGates st" and "rs_pendingMediaJobs st' = rs_pendingMediaJobs st"
    and "rs_lastAttempt st' = rs_lastAttempt st" and "doomed st \<longrightarrow> doomed st'"
    and "phase_ok (rs_actors st) (rs_phase st')"
  shows "run_inv plan st'"
  using assms holder_ok_doom unfolding run_inv_def by metis

section \<open>Primitive updates\<close>

lemma fields_recordFailure [simp]:
  "rs_states (recordFailure c f st) = rs_states st" "rs_actors (recordFailure c f st) = rs_actors st"
  "rs_pendingGates (recordFailure c f st) = rs_pendingGates st" "rs_phase (recordFailure c f st) = rs_phase st"
  "rs_pendingMediaJobs (recordFailure c f st) = rs_pendingMediaJobs st"
  "rs_lastAttempt (recordFailure c f st) = rs_lastAttempt st" "rs_settled (recordFailure c f st) = rs_settled st"
  "rs_cancelling (recordFailure c f st) = rs_cancelling st"
  "rs_nodeDispatches (recordFailure c f st) = rs_nodeDispatches st"
  "rs_resolvedGates (recordFailure c f st) = rs_resolvedGates st"
  "rs_noNewDispatch (recordFailure c f st) = rs_noNewDispatch st"
  by (simp_all add: recordFailure_def)

lemma doomed_recordFailure [simp]: "doomed (recordFailure c f st)"
  by (auto simp: doomed_def recordFailure_def)

lemma fields_putStatus [simp]:
  "rs_states (putStatus v x st) = setStatus v x (rs_states st)" "rs_actors (putStatus v x st) = rs_actors st"
  "rs_pendingGates (putStatus v x st) = rs_pendingGates st" "rs_phase (putStatus v x st) = rs_phase st"
  "rs_pendingMediaJobs (putStatus v x st) = rs_pendingMediaJobs st" "doomed (putStatus v x st) = doomed st"
  "rs_lastAttempt (putStatus v x st) = rs_lastAttempt st" "rs_settled (putStatus v x st) = rs_settled st"
  "rs_failure (putStatus v x st) = rs_failure st" "rs_cancelling (putStatus v x st) = rs_cancelling st"
  "rs_aborted (putStatus v x st) = rs_aborted st" "rs_nodeDispatches (putStatus v x st) = rs_nodeDispatches st"
  "rs_resolvedGates (putStatus v x st) = rs_resolvedGates st"
  "rs_noNewDispatch (putStatus v x st) = rs_noNewDispatch st"
  by (simp_all add: putStatus_def doomed_def)

lemma fields_dropActor [simp]:
  "rs_states (dropActor v st) = rs_states st" "rs_actors (dropActor v st) = mdelete v (rs_actors st)"
  "rs_pendingGates (dropActor v st) = rs_pendingGates st" "rs_phase (dropActor v st) = rs_phase st"
  "rs_pendingMediaJobs (dropActor v st) = rs_pendingMediaJobs st" "doomed (dropActor v st) = doomed st"
  "rs_lastAttempt (dropActor v st) = rs_lastAttempt st" "rs_settled (dropActor v st) = rs_settled st"
  "rs_failure (dropActor v st) = rs_failure st" "rs_cancelling (dropActor v st) = rs_cancelling st"
  "rs_aborted (dropActor v st) = rs_aborted st" "rs_nodeDispatches (dropActor v st) = rs_nodeDispatches st"
  "rs_resolvedGates (dropActor v st) = rs_resolvedGates st"
  "rs_noNewDispatch (dropActor v st) = rs_noNewDispatch st"
  by (simp_all add: dropActor_def doomed_def)

lemma fields_putActor [simp]:
  "rs_states (putActor v a st) = rs_states st" "rs_actors (putActor v a st) = mset_key v a (rs_actors st)"
  "rs_pendingGates (putActor v a st) = rs_pendingGates st" "rs_phase (putActor v a st) = rs_phase st"
  "rs_pendingMediaJobs (putActor v a st) = rs_pendingMediaJobs st" "doomed (putActor v a st) = doomed st"
  "rs_lastAttempt (putActor v a st) = rs_lastAttempt st" "rs_settled (putActor v a st) = rs_settled st"
  "rs_failure (putActor v a st) = rs_failure st" "rs_cancelling (putActor v a st) = rs_cancelling st"
  "rs_aborted (putActor v a st) = rs_aborted st" "rs_nodeDispatches (putActor v a st) = rs_nodeDispatches st"
  "rs_resolvedGates (putActor v a st) = rs_resolvedGates st"
  "rs_noNewDispatch (putActor v a st) = rs_noNewDispatch st"
  by (simp_all add: putActor_def doomed_def)

lemma doomed_update [simp]:
  "doomed (st\<lparr>rs_states := m\<rparr>) = doomed st" "doomed (st\<lparr>rs_phase := p\<rparr>) = doomed st"
  "doomed (st\<lparr>rs_actors := a\<rparr>) = doomed st" "doomed (st\<lparr>rs_lastAttempt := l\<rparr>) = doomed st"
  "doomed (st\<lparr>rs_nodeDispatches := n\<rparr>) = doomed st" "doomed (st\<lparr>rs_pendingGates := g\<rparr>) = doomed st"
  "doomed (st\<lparr>rs_resolvedGates := r\<rparr>) = doomed st" "doomed (st\<lparr>rs_publishingPauses := n\<rparr>) = doomed st"
  "doomed (st\<lparr>rs_pendingMediaJobs := j\<rparr>) = doomed st" "doomed (st\<lparr>rs_workflowStateBytes := n\<rparr>) = doomed st"
  "doomed (st\<lparr>rs_aborted := b\<rparr>) = doomed st" "doomed (st\<lparr>rs_noNewDispatch := b\<rparr>) = doomed st"
  "doomed (st\<lparr>rs_failure := Some f\<rparr>)" "doomed (st\<lparr>rs_cancelling := True\<rparr>)"
  by (simp_all add: doomed_def)

lemma gatesAt_put:
  "mget gates g = None \<Longrightarrow>
     gatesAt (mset_key g gate gates) v = (if pg_vertex gate = v then insert g (gatesAt gates v) else gatesAt gates v)"
  by (auto simp: gatesAt_def)

lemma gatesAt_delete: "gatesAt (mdelete g gates) v = gatesAt gates v - {g}"
  by (auto simp: gatesAt_def)

lemma gatesAt_I: "mget gates g = Some gate \<Longrightarrow> g \<in> gatesAt gates (pg_vertex gate)"
  by (auto simp: gatesAt_def)

lemma settledStatus_iff: "settledStatus st v \<longleftrightarrow> (\<exists>x. vstatus st v = Some x \<and> SETTLED x)"
  by (cases "vstatus st v") (auto simp: settledStatus_def)

section \<open>Settling one vertex\<close>

text \<open>\<open>st1\<close> is \<open>st\<close> after its holder let go of the vertex \<open>v\<close>, wholly or in part.\<close>

definition sheds :: "node_id \<Rightarrow> RunState \<Rightarrow> RunState \<Rightarrow> bool" where
  "sheds v st st1 \<longleftrightarrow>
     rs_states st1 = rs_states st \<and> rs_lastAttempt st1 = rs_lastAttempt st \<and> rs_phase st1 = rs_phase st \<and>
     (\<forall>u. u \<noteq> v \<longrightarrow> same_view st st1 u) \<and> (doomed st \<longrightarrow> doomed st1) \<and>
     (mget (rs_actors st1) v = mget (rs_actors st) v \<or> mget (rs_actors st1) v = None) \<and>
     gatesAt (rs_pendingGates st1) v \<subseteq> gatesAt (rs_pendingGates st) v \<and>
     (v \<in> set (rs_pendingMediaJobs st1) \<longrightarrow> v \<in> set (rs_pendingMediaJobs st))"

definition unheld :: "RunState \<Rightarrow> node_id \<Rightarrow> bool" where
  "unheld st v \<longleftrightarrow> mget (rs_actors st) v = None \<and> gatesAt (rs_pendingGates st) v = {} \<and> v \<notin> set (rs_pendingMediaJobs st)"

lemma sheds_refl [simp]: "sheds v st st"
  by (simp add: sheds_def same_view_def)

lemma sheds_dropActor [simp]: "sheds v st (dropActor v st)"
  by (simp add: sheds_def same_view_def)

lemma sheds_clearMediaJob [simp]: "sheds v st (clearMediaJob v st)"
  by (simp add: sheds_def same_view_def clearMediaJob_def)

lemma sheds_dropGate:
  "mget (rs_pendingGates st) g = Some gate \<Longrightarrow> pg_vertex gate = v \<Longrightarrow> sheds v st (dropGate g st)"
  by (auto simp: sheds_def same_view_def dropGate_def gatesAt_def)

lemma sheds_resolveGate: "sheds v st st1 \<Longrightarrow> sheds v st (resolveGate g st1)"
  by (simp add: sheds_def same_view_def resolveGate_def)

lemma sheds_pauseSettles: "sheds v st st1 \<Longrightarrow> sheds v st (pauseSettles st1)"
  by (simp add: sheds_def same_view_def pauseSettles_def)

text \<open>Everything a settling step has to show: the other vertices are untouched and the new holder of
  \<open>v\<close> fits its new status.\<close>

lemma touchesI:
  assumes s: "sheds v st st1" and x: "vstatus st v = Some x" "\<not> SETTLED x" and r: "vertexReady plan (rs_states st) v"
    and keys: "mkeys (rs_states st') = mkeys (rs_states st1)"
    and rest: "\<And>u. u \<noteq> v \<Longrightarrow> mget (rs_states st') u = mget (rs_states st1) u \<and> mget (rs_actors st') u = mget (rs_actors st1) u \<and>
       gatesAt (rs_pendingGates st') u = gatesAt (rs_pendingGates st1) u \<and>
       (u \<in> set (rs_pendingMediaJobs st') \<longleftrightarrow> u \<in> set (rs_pendingMediaJobs st1)) \<and>
       mget (rs_lastAttempt st') u = mget (rs_lastAttempt st1) u"
    and doom: "doomed st1 \<Longrightarrow> doomed st'" and ok: "view_ok st' v" and new: "vstatus st' v = Some y"
    and y: "y \<noteq> Skipped" "y = Running \<Longrightarrow> x = Running"
  shows "touches plan v st st'"
proof -
  have e: "extends (rs_states st) (rs_states st')"
    unfolding extends_def
  proof (intro allI impI)
    fix u z assume z: "mget (rs_states st) u = Some z \<and> SETTLED (vs_status z)"
    then have "u \<noteq> v" using x by (auto simp: statusOf_def)
    then show "mget (rs_states st') u = Some z" using rest s z by (simp add: sheds_def)
  qed
  have "same_view st st' u" if "u \<noteq> v" for u
    using rest[OF that] s that by (simp add: sheds_def same_view_def statusOf_def)
  moreover have "mkeys (rs_states st') = mkeys (rs_states st)" "doomed st \<longrightarrow> doomed st'"
    using keys doom s by (simp_all add: sheds_def)
  moreover have "vstatus st' v \<noteq> Some Skipped" "vstatus st' v = Some Running \<Longrightarrow> vstatus st v = Some Running"
    unfolding new using y x by auto
  ultimately show ?thesis unfolding touches_def using e ok r by blast
qed

lemma holder_ok_Failed:
  assumes "holder_ok x a gs p d" and "a' = a \<or> a' = None" and "gs' \<subseteq> gs" and "p' \<longrightarrow> p"
  shows "holder_ok (Some Failed) a' gs' p' d'"
  using assms unfolding holder_ok_def parkedStatus_def heldStatus_def by (intro conjI) blast+

lemma settleFailed_touches:
  assumes inv: "run_inv plan st" and s: "sheds v st st1" and x: "vstatus st v = Some x" "\<not> SETTLED x"
    and r: "vertexReady plan (rs_states st) v"
  shows "touches plan v st (settleFailed v f st1)"
proof (rule touchesI[OF s x r])
  have "vstatus st1 v = Some x" using s x by (simp add: sheds_def)
  then show st: "vstatus (settleFailed v f st1) v = Some Failed" by (simp add: settleFailed_def)
  show "view_ok (settleFailed v f st1) v"
    unfolding st using s by (intro holder_ok_Failed[OF run_invD(3)[OF inv, of v]]) (auto simp: settleFailed_def sheds_def)
qed (auto simp: settleFailed_def mget_setStatus)

lemma holder_ok_free: "x \<noteq> Some Paused \<Longrightarrow> holder_ok x None {} False d"
  by (simp add: holder_ok_def)

lemma fields_putOutput [simp]:
  "rs_actors (putOutput v o' sel st) = rs_actors st" "rs_pendingGates (putOutput v o' sel st) = rs_pendingGates st"
  "rs_phase (putOutput v o' sel st) = rs_phase st" "rs_pendingMediaJobs (putOutput v o' sel st) = rs_pendingMediaJobs st"
  "doomed (putOutput v o' sel st) = doomed st" "rs_lastAttempt (putOutput v o' sel st) = rs_lastAttempt st"
  "rs_settled (putOutput v o' sel st) = rs_settled st" "rs_failure (putOutput v o' sel st) = rs_failure st"
  "rs_cancelling (putOutput v o' sel st) = rs_cancelling st" "rs_aborted (putOutput v o' sel st) = rs_aborted st"
  "rs_nodeDispatches (putOutput v o' sel st) = rs_nodeDispatches st"
  "rs_resolvedGates (putOutput v o' sel st) = rs_resolvedGates st"
  "rs_noNewDispatch (putOutput v o' sel st) = rs_noNewDispatch st"
  by (simp_all add: putOutput_def split: option.split)

lemma states_putOutput:
  "mkeys (rs_states (putOutput v o' sel st)) = mkeys (rs_states st)"
  "u \<noteq> v \<Longrightarrow> mget (rs_states (putOutput v o' sel st)) u = mget (rs_states st) u"
  "vstatus st v \<noteq> None \<Longrightarrow> vstatus (putOutput v o' sel st) v = Some Completed"
  by (auto simp: putOutput_def mkeys_mset_key_present statusOf_def split: option.split)

lemma putOutput_touches:
  assumes s: "sheds v st st1" and x: "vstatus st v = Some x" "\<not> SETTLED x"
    and r: "vertexReady plan (rs_states st) v" and free: "unheld st1 v"
  shows "touches plan v st (putOutput v o' sel st1)"
proof (rule touchesI[OF s x r])
  have "vstatus st1 v \<noteq> None" using s x by (simp add: sheds_def)
  then show st: "vstatus (putOutput v o' sel st1) v = Some Completed" by (rule states_putOutput)
  show "view_ok (putOutput v o' sel st1) v"
    unfolding st using free by (simp add: unheld_def holder_ok_free)
qed (simp_all add: states_putOutput)

lemma settleCompleted_cases:
  "(\<exists>f. settleCompleted bytesOf v output sel st = settleFailed v f st) \<or>
   (\<exists>n. settleCompleted bytesOf v output sel st = putOutput v output sel (st\<lparr>rs_workflowStateBytes := n\<rparr>))"
  by (auto simp: settleCompleted_def Let_def split: prod.splits option.splits)

lemma sheds_bytes: "sheds v st st1 \<Longrightarrow> sheds v st (st1\<lparr>rs_workflowStateBytes := n\<rparr>)"
  by (simp add: sheds_def same_view_def)

lemma unheld_bytes [simp]: "unheld (st\<lparr>rs_workflowStateBytes := n\<rparr>) v = unheld st v"
  by (simp add: unheld_def)

lemma settleCompleted_touches:
  assumes "run_inv plan st" and "sheds v st st1" and "vstatus st v = Some x" "\<not> SETTLED x"
    and "vertexReady plan (rs_states st) v" and "unheld st1 v"
  shows "touches plan v st (settleCompleted bytesOf v output sel st1)"
  using settleCompleted_cases[of bytesOf v "output" sel st1] settleFailed_touches[OF assms(1-5)]
    putOutput_touches[OF sheds_bytes[OF assms(2)] assms(3-5)] assms(6) by fastforce

lemma publishPause_touches:
  assumes s: "sheds v st st1" and x: "vstatus st v = Some x" "\<not> SETTLED x"
    and r: "vertexReady plan (rs_states st) v" and free: "unheld st1 v" and g: "mget (rs_pendingGates st1) g = None"
  shows "touches plan v st (publishPause v g b st1)"
proof (rule touchesI[OF s x r])
  have "vstatus st1 v = Some x" using s x by (simp add: sheds_def)
  then show st: "vstatus (publishPause v g b st1) v = Some Paused" by (simp add: publishPause_def)
  show "view_ok (publishPause v g b st1) v"
    unfolding st using free g by (simp add: unheld_def publishPause_def gatesAt_put holder_ok_def parkedStatus_def)
qed (auto simp: publishPause_def mget_setStatus gatesAt_put g)

lemma settleMediaJobParked_touches:
  assumes s: "sheds v st st1" and x: "vstatus st v = Some x" "\<not> SETTLED x"
    and r: "vertexReady plan (rs_states st) v" and free: "unheld st1 v"
  shows "touches plan v st (settleMediaJobParked v st1)"
proof (rule touchesI[OF s x r])
  have "vstatus st1 v = Some x" using s x by (simp add: sheds_def)
  then show st: "vstatus (settleMediaJobParked v st1) v = Some Paused" by (simp add: settleMediaJobParked_def Let_def)
  show "view_ok (settleMediaJobParked v st1) v"
    unfolding st using free
    by (auto simp: unheld_def settleMediaJobParked_def Let_def holder_ok_def parkedStatus_def doomed_def)
qed (auto simp: settleMediaJobParked_def Let_def mget_setStatus)

text \<open>An outcome that reaches a vertex which nothing else holds.\<close>

lemma onOutcome_touches:
  assumes "run_inv plan st" and "sheds v st st1" and "vstatus st v = Some x" "\<not> SETTLED x"
    and "vertexReady plan (rs_states st) v" and "unheld st1 v" and "freshGate outcome st1" and "rs_settled st1 = None"
  shows "touches plan v st (onOutcome bytesOf v outcome st1)"
proof -
  have "\<not> settledStatus st1 v" using assms(2-4) by (simp add: settledStatus_iff sheds_def)
  then show ?thesis
    using assms settleCompleted_touches[OF assms(1-6)] settleFailed_touches[OF assms(1-5)]
      publishPause_touches[OF assms(2-6)] settleMediaJobParked_touches[OF assms(2-6)]
    by (cases outcome) (auto simp: onOutcome_def freshGate_def)
qed

end
