(* ===== verification/Run_Safety.thy ===== *)
theory Run_Safety
  imports Run_Invariant
begin

text \<open>
  Every event of the run loop keeps the invariant, so it holds in every reachable state.
\<close>

section \<open>Phases\<close>

lemma phase_ok_frame:
  "phase_ok A p \<Longrightarrow> mget A v \<noteq> Some Claimed \<and> mget A v \<noteq> Some Entering \<or> mget A' v = mget A v \<Longrightarrow>
     (\<And>u. u \<noteq> v \<Longrightarrow> mget A' u = mget A u) \<Longrightarrow> phase_ok A' p"
  by (cases p) (auto, (metis option.inject)+)

lemma touches_phase: "touches plan v st st' \<Longrightarrow> touches plan v st (st'\<lparr>rs_phase := p\<rparr>)"
  by (simp add: touches_def same_view_def)

lemma one_vertex_inv:
  assumes inv: "run_inv plan st" and t: "touches plan v st st'" and p: "rs_phase st' = rs_phase st"
    and a: "mget (rs_actors st) v \<noteq> Some Claimed \<and> mget (rs_actors st) v \<noteq> Some Entering \<or>
      mget (rs_actors st') v = mget (rs_actors st) v"
  shows "run_inv plan st'"
proof (rule touches_inv[OF inv t])
  show "phase_ok (rs_actors st') (rs_phase st')"
    unfolding p using run_invD(4)[OF inv] a t by (auto intro: phase_ok_frame simp: touches_def same_view_def)
qed

lemma idle_phase_inv: "run_inv plan st \<Longrightarrow> run_inv plan (st\<lparr>rs_phase := StepIdle\<rparr>)"
  by (rule quiet_inv[of plan st]) simp_all

section \<open>Settling a held vertex\<close>

lemma held_facts:
  assumes inv: "run_inv plan st" and a: "mget (rs_actors st) v = Some a"
  shows "unheld (dropActor v st) v" and "vertexReady plan (rs_states st) v"
    and "a \<noteq> PinningMedia \<Longrightarrow> heldStatus (vstatus st v)" and "a = PinningMedia \<Longrightarrow> parkedStatus (vstatus st v)"
proof -
  have ok: "view_ok st v" using inv by (rule run_invD)
  then show "unheld (dropActor v st) v" using a by (simp add: unheld_def holder_ok_def)
  show h: "a \<noteq> PinningMedia \<Longrightarrow> heldStatus (vstatus st v)" and p: "a = PinningMedia \<Longrightarrow> parkedStatus (vstatus st v)"
    using ok a by (simp_all add: holder_ok_def)
  then obtain x where "vstatus st v = Some x" "active x"
    by (cases "a = PinningMedia") (auto simp: heldStatus_def parkedStatus_def)
  then show "vertexReady plan (rs_states st) v" using run_invD(8)[OF inv] by blast
qed

lemma dropActor_touches:
  assumes inv: "run_inv plan st" and a: "mget (rs_actors st) v = Some a"
    and d: "a \<noteq> PinningMedia \<or> doomed st \<or> vstatus st v = Some Failed"
  shows "touches plan v st (dropActor v st)"
proof -
  have x: "vstatus st v \<noteq> Some Paused \<or> doomed st" "vstatus st v \<noteq> Some Skipped"
    using d held_facts(3,4)[OF inv a] by (cases "a = PinningMedia"; auto simp: heldStatus_def parkedStatus_def)+
  have "view_ok (dropActor v st) v"
    using held_facts(1)[OF inv a] x(1) by (auto simp: unheld_def holder_ok_def)
  then show ?thesis using held_facts(2)[OF inv a] x(2) by (auto simp: touches_def same_view_def)
qed

text \<open>A held vertex whose holder lets go and reports a failure through the backstop.\<close>

lemma backstop_touches:
  assumes inv: "run_inv plan st" and a: "mget (rs_actors st) v = Some a" "a \<noteq> PinningMedia"
    and s: "sheds v st st1" "st1 = st \<or> st1 = dropActor v st"
  shows "touches plan v st (settleFailedOrBackstop v f st1)"
proof -
  note h = held_facts[OF inv a(1)]
  have x: "vstatus st v = Some Running \<or> vstatus st v = Some Failed" using h(3) a(2) by (simp add: heldStatus_def)
  have st: "settledStatus st1 v \<longleftrightarrow> vstatus st v = Some Failed" using x s by (auto simp: settledStatus_iff sheds_def)
  show ?thesis
  proof (cases "vstatus st v = Some Failed")
    case True
    have "touches plan v st st" using run_invD(3)[OF inv, of v] h(2) True by (auto simp: touches_def same_view_def)
    then show ?thesis using True st s(2) dropActor_touches[OF inv a(1)] by (auto simp: settleFailedOrBackstop_def)
  next
    case False
    then have "vstatus st v = Some Running" using x by blast
    then show ?thesis using settleFailed_touches[OF inv s(1) _ _ h(2)] st by (simp add: settleFailedOrBackstop_def)
  qed
qed

lemma fields_backstop [simp]:
  "rs_actors (settleFailedOrBackstop v f st) = rs_actors st" "rs_phase (settleFailedOrBackstop v f st) = rs_phase st"
  "rs_settled (settleFailedOrBackstop v f st) = rs_settled st"
  "rs_nodeDispatches (settleFailedOrBackstop v f st) = rs_nodeDispatches st"
  by (simp_all add: settleFailedOrBackstop_def settleFailed_def)

lemma fields_settleCompleted [simp]:
  "rs_actors (settleCompleted b v out sel st) = rs_actors st" "rs_phase (settleCompleted b v out sel st) = rs_phase st"
  "rs_nodeDispatches (settleCompleted b v out sel st) = rs_nodeDispatches st"
  using settleCompleted_cases[of b v out sel st] by (auto simp: settleFailed_def)

lemma fields_onOutcome [simp]:
  "rs_actors (onOutcome b v out st) = rs_actors st" "rs_phase (onOutcome b v out st) = rs_phase st"
  "rs_nodeDispatches (onOutcome b v out st) = rs_nodeDispatches st"
  by (auto simp: onOutcome_def settleFailed_def publishPause_def settleMediaJobParked_def Let_def split: NodeOutcome.split)

lemma drop_outcome_touches:
  assumes inv: "run_inv plan st" and a: "mget (rs_actors st) v = Some a" and g: "freshGate out st"
  shows "touches plan v st (onOutcome b v out (dropActor v st))"
proof (cases "rs_settled st \<noteq> None \<or> settledStatus st v")
  case True
  then have "onOutcome b v out (dropActor v st) = dropActor v st"
    by (simp add: onOutcome_def settledStatus_def)
  moreover have "a \<noteq> PinningMedia \<or> doomed st \<or> vstatus st v = Some Failed"
    using True held_facts(4)[OF inv a] by (auto simp: doomed_def settledStatus_iff parkedStatus_def)
  ultimately show ?thesis using dropActor_touches[OF inv a] by simp
next
  case False
  then obtain x where x: "vstatus st v = Some x" "\<not> SETTLED x"
    using held_facts(3,4)[OF inv a] by (cases "a = PinningMedia") (auto simp: settledStatus_iff heldStatus_def parkedStatus_def)
  have "freshGate out (dropActor v st)" using g by (simp add: freshGate_def split: NodeOutcome.splits)
  then show ?thesis
    using onOutcome_touches[OF inv sheds_dropActor x held_facts(2,1)[OF inv a]] False by simp
qed

lemma drop_outcome_inv:
  assumes "run_inv plan st" and "mget (rs_actors st) v = Some a" and "a \<noteq> Claimed" and "a \<noteq> Entering" and "freshGate out st"
  shows "run_inv plan (onOutcome b v out (dropActor v st))"
  using assms by (intro one_vertex_inv[OF assms(1) drop_outcome_touches[OF assms(1,2,5)]]) simp_all

lemma putActor_inv:
  assumes inv: "run_inv plan st" and a: "mget (rs_actors st) v = Some a" "a \<notin> {Claimed, Entering, PinningMedia}"
    and a': "a' \<noteq> PinningMedia"
  shows "run_inv plan (putActor v a' st)"
proof (rule one_vertex_inv[OF inv, of v])
  have "view_ok (putActor v a' st) v" using run_invD(3)[OF inv, of v] a a' by (auto simp: holder_ok_def heldStatus_def)
  then show "touches plan v st (putActor v a' st)"
    using held_facts(2)[OF inv a(1)] held_facts(3)[OF inv a(1)] a(2)
    by (auto simp: touches_def same_view_def heldStatus_def)
qed (use a in auto)

section \<open>Releasing claims\<close>

lemma holder_ok_unheld: "holder_ok (Some x) a gs p d \<Longrightarrow> x = Pending \<or> x = Skipped \<or> x = Completed \<Longrightarrow> a = None \<and> gs = {} \<and> \<not> p"
  by (cases "a = Some PinningMedia") (auto simp: holder_ok_def heldStatus_def parkedStatus_def)

lemma holder_ok_running: "holder_ok (Some Running) a gs p d \<Longrightarrow> gs = {} \<and> \<not> p \<and> a \<noteq> Some PinningMedia"
  by (auto simp: holder_ok_def parkedStatus_def)

lemma releaseOne_touches:
  assumes inv: "run_inv plan st" and a: "mget (rs_actors st) v = Some Claimed"
  shows "touches plan v st (releaseOne v st)"
proof (cases "vstatus st v = Some Running")
  case True
  have free: "unheld (dropActor v st) v" using held_facts(1)[OF inv a] .
  have e: "extends (rs_states st) (setStatus v Pending (rs_states st))" using True by (simp add: extends_setStatus)
  have "releaseOne v st = putStatus v Pending (dropActor v st)" using True by (simp add: releaseOne_def Let_def)
  then show ?thesis
    using True free e held_facts(2)[OF inv a]
    by (auto simp: touches_def same_view_def unheld_def intro: holder_ok_free)
next
  case False
  then show ?thesis using dropActor_touches[OF inv a] by (simp add: releaseOne_def Let_def)
qed

lemma releaseOne_phase [simp]:
  "releaseOne v (st\<lparr>rs_phase := p\<rparr>) = (releaseOne v st)\<lparr>rs_phase := p\<rparr>" "rs_phase (releaseOne v st) = rs_phase st"
  by (simp_all add: releaseOne_def dropActor_def putStatus_def Let_def)

lemma actors_releaseOne [simp]: "rs_actors (releaseOne v st) = mdelete v (rs_actors st)"
  by (simp add: releaseOne_def Let_def)

lemma fold_releaseOne_inv:
  "run_inv plan st \<Longrightarrow> rs_phase st = StepIdle \<Longrightarrow> distinct vs \<Longrightarrow> (\<forall>v \<in> set vs. mget (rs_actors st) v = Some Claimed) \<Longrightarrow>
     run_inv plan (fold releaseOne vs st)"
proof (induction vs arbitrary: st)
  case (Cons v vs)
  have "run_inv plan (releaseOne v st)"
    using touches_inv[OF Cons.prems(1) releaseOne_touches[OF Cons.prems(1), of v]] Cons.prems(2,4) by simp
  moreover have "\<forall>u \<in> set vs. mget (rs_actors (releaseOne v st)) u = Some Claimed" using Cons.prems(3,4) by auto
  ultimately show ?case using Cons.IH[of "releaseOne v st"] Cons.prems(2,3) by simp
qed simp

lemma fold_releaseOne_phase: "fold releaseOne vs (st\<lparr>rs_phase := p\<rparr>) = (fold releaseOne vs st)\<lparr>rs_phase := p\<rparr>"
  by (induction vs arbitrary: st) simp_all

lemma releaseClaims_inv:
  assumes "run_inv plan (st\<lparr>rs_phase := StepIdle\<rparr>)" and "distinct vs" and "\<forall>v \<in> set vs. mget (rs_actors st) v = Some Claimed"
  shows "run_inv plan (releaseClaims vs st)"
  using fold_releaseOne_inv[of plan "st\<lparr>rs_phase := StepIdle\<rparr>" vs] assms
  by (simp add: releaseClaims_def fold_releaseOne_phase)

section \<open>The serialized step\<close>

lemma stepSkips_inv:
  assumes inv: "run_inv plan st"
  shows "run_inv plan (stepSkips plan ckpt st)"
proof -
  obtain m' entries where p: "propagateSkips plan (rs_states st) = (m', entries)"
    by (cases "propagateSkips plan (rs_states st)")
  have s: "skipsTo plan (rs_states st) m'" using propagateSkips_fixpoint[OF p] by blast
  have st: "statusOf m' v = vstatus st v \<or> vstatus st v = Some Pending \<and> statusOf m' v = Some Skipped" for v
    using s by (simp add: skipsTo_def)
  have run: "runningIds m' = runningIds (rs_states st)" 
  proof (rule set_eqI)
    show "v \<in> runningIds m' \<longleftrightarrow> v \<in> runningIds (rs_states st)" for v using st[of v] by (auto simp: runningIds_def)
  qed
  have mi: "map_invar m'" using s run_invD(1)[OF inv] by (simp add: skipsTo_def map_invar_keys)
  have "holder_ok (statusOf m' v) (mget (rs_actors st) v) (gatesAt (rs_pendingGates st) v)
     (v \<in> set (rs_pendingMediaJobs st)) (doomed st)" for v
  proof (cases "statusOf m' v = vstatus st v")
    case False
    then have x: "vstatus st v = Some Pending" "statusOf m' v = Some Skipped" using st[of v] by auto
    have "mget (rs_actors st) v = None \<and> gatesAt (rs_pendingGates st) v = {} \<and> v \<notin> set (rs_pendingMediaJobs st)"
      using run_invD(3)[OF inv, of v] x(1) by (intro holder_ok_unheld[of Pending]) simp_all
    then show ?thesis by (simp add: x(2) holder_ok_free)
  qed (use run_invD(3)[OF inv, of v] in simp)
  moreover have "countRunning m' \<le> slots plan"
    using run run_invD(1,5)[OF inv] mi by (simp add: countRunning_card)
  moreover have "mget (rs_lastAttempt st) v \<noteq> None \<Longrightarrow> vertexReady plan m' v" for v
    using run_invD(7)[OF inv] vertexReady_extends s by (auto simp: skipsTo_def)
  ultimately have "run_inv plan (st\<lparr>rs_states := m', rs_phase := StepDecide\<rparr>)"
    using s mi inv by (simp add: run_inv_def skipsTo_def)
  then show ?thesis using inv p by (simp add: stepSkips_def)
qed

lemma settleRun_inv:
  assumes inv: "run_inv plan st"
  shows "run_inv plan (settleRun t st)"
proof -
  have "holder_ok x a gs p d \<Longrightarrow> holder_ok x a gs False True" for x a gs p d by (auto simp: holder_ok_def)
  from this[OF run_invD(3)[OF inv]] show ?thesis
    using inv by (auto simp: settleRun_def run_inv_def doomed_def)
qed

lemma mget_claimedActors: "mget (rs_actors (claimedActors vs st)) v = (if v \<in> set vs then Some Claimed else mget (rs_actors st) v)"
  unfolding claimedActors_def by (induction vs arbitrary: st) auto

lemma fields_claimedActors [simp]:
  "rs_states (claimedActors vs st) = rs_states st" "rs_pendingGates (claimedActors vs st) = rs_pendingGates st"
  "rs_pendingMediaJobs (claimedActors vs st) = rs_pendingMediaJobs st" "doomed (claimedActors vs st) = doomed st"
  "rs_lastAttempt (claimedActors vs st) = rs_lastAttempt st" "rs_nodeDispatches (claimedActors vs st) = rs_nodeDispatches st"
  "rs_failure (claimedActors vs st) = rs_failure st" "rs_cancelling (claimedActors vs st) = rs_cancelling st"
  "rs_settled (claimedActors vs st) = rs_settled st" "rs_aborted (claimedActors vs st) = rs_aborted st"
  "rs_noNewDispatch (claimedActors vs st) = rs_noNewDispatch st"
  unfolding claimedActors_def by (induction vs arbitrary: st) simp_all

lemma claim_inv:
  assumes inv: "run_inv plan st" and c: "claimReady plan (rs_states st) (countRunning (rs_states st)) headroom = (ready, m)"
  shows "run_inv plan ((claimedActors ready st)\<lparr>rs_states := m, rs_phase := StepStart ready\<rparr>)"
proof -
  note e = claimReady_effect[OF c run_invD(1,5)[OF inv]]
  have mi: "map_invar m" using e(4) run_invD(1)[OF inv] by (simp add: map_invar_keys)
  have "holder_ok (statusOf m v) (mget (rs_actors (claimedActors ready st)) v) (gatesAt (rs_pendingGates st) v)
     (v \<in> set (rs_pendingMediaJobs st)) (doomed st)" for v
  proof (cases "v \<in> set ready")
    case True
    then have "mget (rs_actors st) v = None \<and> gatesAt (rs_pendingGates st) v = {} \<and> v \<notin> set (rs_pendingMediaJobs st)"
      using run_invD(3)[OF inv, of v] e(3)[of v] by (intro holder_ok_unheld[of Pending]) simp_all
    then show ?thesis using True e(7)[of v] by (simp add: mget_claimedActors holder_ok_def heldStatus_def)
  next
    case False
    then show ?thesis using run_invD(3)[OF inv, of v] e(7)[of v] by (simp add: mget_claimedActors)
  qed
  moreover have "mget (rs_lastAttempt st) v \<noteq> None \<Longrightarrow> vertexReady plan m v" for v
    using run_invD(7)[OF inv] vertexReady_extends[OF e(5)] by auto
  ultimately show ?thesis
    using mi inv e(1,4,6,8) by (simp add: run_inv_def mget_claimedActors)
qed

lemma handleIdle_inv: "run_inv plan st \<Longrightarrow> run_inv plan (handleIdle n st)"
  by (auto simp: handleIdle_def run_invD intro!: quiet_inv[of plan st])

lemma stepDecide_inv:
  assumes inv: "run_inv plan st"
  shows "run_inv plan (stepDecide plan st)"
proof -
  note i = idle_phase_inv[OF inv]
  let ?st = "st\<lparr>rs_phase := StepIdle\<rparr>"
  have cap: "run_inv plan (?st\<lparr>rs_failure := Some f, rs_aborted := True\<rparr>)" for f
    by (rule quiet_inv[OF i]) (simp_all add: doomed_def)
  obtain ready m where c: "claimReady plan (rs_states ?st) (countRunning (rs_states ?st))
      (ceil_nodeDispatchesPerRun - rs_nodeDispatches ?st) = (ready, m)"
    by (cases "claimReady plan (rs_states ?st) (countRunning (rs_states ?st)) (ceil_nodeDispatchesPerRun - rs_nodeDispatches ?st)")
  show ?thesis
    unfolding stepDecide_def Let_def c prod.case
    using i cap settleRun_inv[OF i] handleIdle_inv[OF i] claim_inv[OF i c] by (simp split: if_split)
qed

lemma startNext_inv:
  assumes inv: "run_inv plan st" and p: "rs_phase st = StepStart (v # vs)"
  shows "run_inv plan (startNext v vs st)"
proof -
  have ph: "distinct (v # vs)" "\<forall>u \<in> set (v # vs). mget (rs_actors st) u = Some Claimed"
    using run_invD(4)[OF inv] p by auto
  then have a: "mget (rs_actors st) v = Some Claimed" by simp
  note h = held_facts[OF inv a]
  let ?st = "(putActor v Entering st)\<lparr>rs_nodeDispatches := rs_nodeDispatches st + 1,
     rs_lastAttempt := mset_key v 1 (rs_lastAttempt st), rs_phase := StepEnter v vs\<rparr>"
  have "view_ok ?st v" using run_invD(3)[OF inv, of v] a by (auto simp: holder_ok_def heldStatus_def)
  then have "touches plan v st ?st" using h(2,3) by (auto simp: touches_def same_view_def heldStatus_def)
  then have "run_inv plan ?st" using ph by (intro touches_inv[OF inv]) auto
  then show ?thesis using releaseClaims_inv[OF idle_phase_inv[OF inv] ph] by (simp add: startNext_def)
qed

lemma release_after_backstop_inv:
  assumes inv: "run_inv plan st" and a: "mget (rs_actors st) v = Some a" "a \<noteq> PinningMedia"
    and s: "sheds v st st1" "st1 = st \<or> st1 = dropActor v st"
    and vs: "distinct vs" "\<forall>u \<in> set vs. mget (rs_actors st1) u = Some Claimed"
  shows "run_inv plan (releaseClaims vs (settleFailedOrBackstop v f st1))"
proof (rule releaseClaims_inv)
  show "run_inv plan ((settleFailedOrBackstop v f st1)\<lparr>rs_phase := StepIdle\<rparr>)"
    by (rule touches_inv[OF inv touches_phase[OF backstop_touches[OF inv a s]]]) simp
qed (use vs in simp_all)

lemma consumerFault_inv:
  assumes inv: "run_inv plan st" and p: "rs_phase st = StepStart (v # vs)"
  shows "run_inv plan (consumerFault v vs st)"
proof -
  have ph: "distinct (v # vs)" "\<forall>u \<in> set (v # vs). mget (rs_actors st) u = Some Claimed"
    using run_invD(4)[OF inv] p by auto
  then show ?thesis
    using release_after_backstop_inv[OF inv _ _ sheds_refl _ ph, of v Claimed] releaseClaims_inv[OF idle_phase_inv[OF inv] ph]
    by (simp add: consumerFault_def)
qed

lemma entering_facts:
  assumes "run_inv plan st" and "rs_phase st = StepEnter v vs"
  shows "distinct vs" and "\<forall>u \<in> set vs. mget (rs_actors (dropActor v st)) u = Some Claimed"
    and "mget (rs_actors st) v = Some Entering" and "v \<notin> set vs" and "\<forall>u \<in> set vs. mget (rs_actors st) u = Some Claimed"
  using run_invD(4)[OF assms(1)] assms(2) by auto

lemma startFault_inv: "run_inv plan st \<Longrightarrow> rs_phase st = StepEnter v vs \<Longrightarrow> run_inv plan (startFault v vs st)"
  using entering_facts[of plan st v vs] release_after_backstop_inv[of plan st v Entering "dropActor v st" vs]
  by (simp add: startFault_def)

lemma enterDispatch_inv:
  assumes inv: "run_inv plan st" and p: "rs_phase st = StepEnter v vs"
  shows "run_inv plan (enterDispatch v vs st)"
proof -
  note e = entering_facts[OF inv p]
  let ?st = "(putActor v (Attempting 1) st)\<lparr>rs_phase := (if vs = [] then StepIdle else StepStart vs)\<rparr>"
  have "view_ok ?st v" using run_invD(3)[OF inv, of v] e(3) by (auto simp: holder_ok_def heldStatus_def)
  then have "touches plan v st ?st"
    using held_facts(2,3)[OF inv e(3)] by (auto simp: touches_def same_view_def heldStatus_def)
  then have go: "run_inv plan ?st" using e by (intro touches_inv[OF inv]) (auto simp: mdelete_def)
  have "run_inv plan ((dropActor v st)\<lparr>rs_phase := StepIdle\<rparr>)"
    using touches_inv[OF inv touches_phase[OF dropActor_touches[OF inv e(3)]]] by simp
  then show ?thesis
    using go e(1,2) releaseClaims_inv[of plan "dropActor v st" vs]
      release_after_backstop_inv[OF inv e(3) _ sheds_dropActor _ e(1,2)] by (simp add: enterDispatch_def)
qed

section \<open>The dispatch loop\<close>

lemma attemptSettles_inv:
  assumes inv: "run_inv plan st" and a: "mget (rs_actors st) v = Some (Attempting n)" and g: "freshGate out st"
  shows "run_inv plan (attemptSettles plan b v n out st)"
proof -
  have "freshGate (OutFailed f) st" for f by (simp add: freshGate_def)
  then show ?thesis
    using drop_outcome_inv[OF inv a] g putActor_inv[OF inv a]
    by (auto simp: attemptSettles_def split: NodeOutcome.split)
qed

lemma dropActor_inv:
  assumes inv: "run_inv plan st" and a: "mget (rs_actors st) v = Some a" "a \<notin> {Claimed, Entering, PinningMedia}"
  shows "run_inv plan (dropActor v st)"
  using a by (intro one_vertex_inv[OF inv dropActor_touches[OF inv a(1)]]) simp_all

lemma drop_backstop_inv:
  assumes inv: "run_inv plan st" and a: "mget (rs_actors st) v = Some a" "a \<notin> {Claimed, Entering, PinningMedia}"
  shows "run_inv plan (settleFailedOrBackstop v f (dropActor v st))"
  using a by (intro one_vertex_inv[OF inv backstop_touches[OF inv a(1) _ sheds_dropActor]]) simp_all

lemma lastAttempt_inv:
  "run_inv plan st \<Longrightarrow> vertexReady plan (rs_states st) v \<Longrightarrow>
     run_inv plan (st\<lparr>rs_lastAttempt := mset_key v n (rs_lastAttempt st), rs_nodeDispatches := k\<rparr>)"
  by (simp add: run_inv_def)

lemma retryWakes_inv:
  assumes inv: "run_inv plan st" and a: "mget (rs_actors st) v = Some (BackingOff n f)"
  shows "run_inv plan (retryWakes b v n f slept st)"
proof -
  have "run_inv plan (putActor v (Restarting (n + 1)) st)" using putActor_inv[OF inv a] by simp
  moreover have "vertexReady plan (rs_states (putActor v (Restarting (n + 1)) st)) v" using held_facts(2)[OF inv a] by simp
  ultimately have "run_inv plan ((putActor v (Restarting (n + 1)) st)\<lparr>
      rs_lastAttempt := mset_key v (n + 1) (rs_lastAttempt (putActor v (Restarting (n + 1)) st)),
      rs_nodeDispatches := rs_nodeDispatches st + 1\<rparr>)" by (rule lastAttempt_inv)
  then show ?thesis
    using dropActor_inv[OF inv a] drop_outcome_inv[OF inv a] by (simp add: retryWakes_def freshGate_def)
qed

lemma retryEnters_inv:
  assumes "run_inv plan st" and "mget (rs_actors st) v = Some (Restarting n)"
  shows "run_inv plan (retryEnters v n st)"
  using dropActor_inv[OF assms] drop_backstop_inv[OF assms] putActor_inv[OF assms] by (simp add: retryEnters_def)

lemma dispatchFault_inv:
  assumes "run_inv plan st" and "mget (rs_actors st) v = Some a" and "a \<notin> {Claimed, Entering, PinningMedia}"
  shows "run_inv plan (dispatchFault v st)"
  using drop_backstop_inv[OF assms] by (simp add: dispatchFault_def)

section \<open>Cancellation, timers and faults\<close>

lemma recordFailure_inv: "run_inv plan st \<Longrightarrow> run_inv plan (recordFailure c f st)"
  by (rule quiet_inv[of plan st]) (simp_all add: run_invD)

lemma requestCancel_inv: "run_inv plan st \<Longrightarrow> requestCancel st = Inr st' \<Longrightarrow> run_inv plan st'"
  by (auto simp: requestCancel_def run_invD doomed_def split: if_splits intro!: quiet_inv[of plan st])

lemma onRunTimeout_inv: "run_inv plan st \<Longrightarrow> run_inv plan (onRunTimeout n st)"
  by (auto simp: onRunTimeout_def run_invD doomed_def intro!: quiet_inv[of plan st])

lemma graceLatch_inv: "run_inv plan st \<Longrightarrow> run_inv plan (graceLatch st)"
  by (auto simp: graceLatch_def run_invD intro!: quiet_inv[of plan st])

lemma settleFailed_inv:
  assumes "run_inv plan st" and "vstatus st v = Some x" and "\<not> SETTLED x" and "vertexReady plan (rs_states st) v"
  shows "run_inv plan (settleFailed v f st)"
  by (rule one_vertex_inv[OF assms(1) settleFailed_touches[OF assms(1) sheds_refl assms(2-4)]])
    (simp_all add: settleFailed_def)

lemma onNodeDeadline_inv:
  assumes inv: "run_inv plan st" and "mget (rs_lastAttempt st) v \<noteq> None"
  shows "run_inv plan (onNodeDeadline b v n st)"
proof -
  have r: "vertexReady plan (rs_states st) v" using run_invD(7)[OF inv] assms(2) .
  then have "mget (rp_vertices plan) v \<noteq> None" by (auto simp: vertexReady_def)
  then have "v \<in> set (mkeys (rs_states st))" using run_invD(6)[OF inv] by (simp add: mget_None_iff mkeys_def)
  then have "mget (rs_states st) v \<noteq> None" by (simp add: mget_None_iff mkeys_def)
  then obtain x where "vstatus st v = Some x" by (auto simp: statusOf_def)
  then show ?thesis
    using settleFailed_inv[OF inv _ _ r] inv by (auto simp: onNodeDeadline_def onOutcome_def settledStatus_def)
qed

lemma graceAbandon_inv: "run_inv plan st \<Longrightarrow> run_inv plan (graceAbandon v st)"
  using settleFailed_inv[of plan st v Running] run_invD(8)[of plan st v Running] by (simp add: graceAbandon_def)

section \<open>Gates\<close>

lemma gate_facts:
  assumes inv: "run_inv plan st" and g: "mget (rs_pendingGates st) g = Some gate" and v: "v = pg_vertex gate"
  shows "parkedStatus (vstatus st v)" and "mget (rs_actors st) v = None" and "v \<notin> set (rs_pendingMediaJobs st)"
    and "gatesAt (rs_pendingGates st) v = {g}" and "vertexReady plan (rs_states st) v" and "unheld (dropGate g st) v"
proof -
  have ok: "view_ok st v" using inv by (rule run_invD)
  have mem: "g \<in> gatesAt (rs_pendingGates st) v" using gatesAt_I[OF g] v by simp
  then have ne: "gatesAt (rs_pendingGates st) v \<noteq> {}" by blast
  show p: "parkedStatus (vstatus st v)" and a: "mget (rs_actors st) v = None" and m: "v \<notin> set (rs_pendingMediaJobs st)"
    using ok ne unfolding holder_ok_def by blast+
  have "\<forall>h \<in> gatesAt (rs_pendingGates st) v. h = g" using ok mem unfolding holder_ok_def by blast
  then show gs: "gatesAt (rs_pendingGates st) v = {g}" using mem by blast
  show "vertexReady plan (rs_states st) v"
    using p run_invD(8)[OF inv, of v Paused] run_invD(8)[OF inv, of v Failed] by (auto simp: parkedStatus_def)
  show "unheld (dropGate g st) v" using a m gs by (simp add: unheld_def dropGate_def gatesAt_delete)
qed

lemma resolveGate_inv: "run_inv plan st \<Longrightarrow> run_inv plan (resolveGate g st)"
  by (rule quiet_inv[of plan st]) (simp_all add: resolveGate_def run_invD)

lemma resumeGate_inv: "run_inv plan st \<Longrightarrow> resumeGate plan g d st = Inr st' \<Longrightarrow> run_inv plan st'"
  by (auto simp: resumeGate_def resolveGate_inv split: if_splits sum.splits)

lemma failGateResume_inv:
  assumes inv: "run_inv plan st"
  shows "run_inv plan (failGateResume v f st)"
proof (cases "vstatus st v = Some Paused \<or> vstatus st v = Some Running")
  case True
  then obtain x where x: "vstatus st v = Some x" "\<not> SETTLED x" "active x" by auto
  then show ?thesis
    using settleFailed_inv[OF inv x(1,2)] run_invD(8)[OF inv x(1,3)] True by (simp add: failGateResume_def settleFailed_def)
next
  case False
  then show ?thesis using recordFailure_inv[OF inv] by (auto simp: failGateResume_def)
qed

lemma failNodeInternal_inv:
  assumes inv: "run_inv plan st"
  shows "run_inv plan (failNodeInternal v m st)"
proof -
  have same: "run_inv plan (failGateResume v f st)" for f using failGateResume_inv[OF inv] .
  have "touches plan v st (putStatus v Failed st)" if x: "vstatus st v = Some x" "x = Running \<or> x = Paused" for x
  proof (rule touchesI[OF sheds_refl x(1), where y = Failed])
    show "view_ok (putStatus v Failed st) v"
      using holder_ok_Failed[OF run_invD(3)[OF inv, of v]] x by auto
    show "vertexReady plan (rs_states st) v" using run_invD(8)[OF inv x(1)] x(2) by auto
  qed (use x in \<open>auto simp: mget_setStatus\<close>)
  then have "vstatus st v = Some Running \<or> vstatus st v = Some Paused \<Longrightarrow> run_inv plan (putStatus v Failed st)"
    using one_vertex_inv[OF inv] by fastforce
  then show ?thesis using inv recordFailure_inv by (auto simp: failNodeInternal_def Let_def)
qed

lemma pauseSettles_inv: "run_inv plan st \<Longrightarrow> run_inv plan (pauseSettles st)"
  by (rule quiet_inv[of plan st]) (simp_all add: pauseSettles_def run_invD)

lemma gateApplies_inv:
  assumes inv: "run_inv plan st" and g: "mget (rs_pendingGates st) g = Some gate"
  shows "run_inv plan (gateApplies b g (pg_vertex gate) out st)"
proof (cases "vstatus st (pg_vertex gate) = Some Paused")
  case True
  let ?v = "pg_vertex gate"
  let ?st = "putOutput ?v (Some out) None (dropGate g st)"
  note f = gate_facts[OF inv g refl]
  have "touches plan ?v st ?st"
    using putOutput_touches[OF sheds_dropGate[OF g refl] True _ f(5,6)] by simp
  then have "run_inv plan ?st" by (rule one_vertex_inv[OF inv]) (simp_all add: dropGate_def)
  then have "run_inv plan (?st\<lparr>rs_workflowStateBytes := n\<rparr>)" for n
    by (rule quiet_inv) (simp_all add: dropGate_def run_invD(4)[OF inv])
  then show ?thesis using inv by (simp add: gateApplies_def Let_def)
qed (use inv in \<open>simp add: gateApplies_def\<close>)

lemma gatesAt_other: "mget gates g = Some gate \<Longrightarrow> u \<noteq> pg_vertex gate \<Longrightarrow> gatesAt gates u - {g} = gatesAt gates u"
  by (auto simp: gatesAt_def)

lemma dropGate_inv:
  assumes inv: "run_inv plan st" and g: "mget (rs_pendingGates st) g = Some gate"
    and d: "doomed st \<or> vstatus st (pg_vertex gate) \<noteq> Some Paused"
  shows "run_inv plan (dropGate g st)"
proof (rule one_vertex_inv[OF inv, of "pg_vertex gate"])
  let ?v = "pg_vertex gate"
  note f = gate_facts[OF inv g refl]
  have ok: "view_ok (dropGate g st) ?v" using f(6) d by (auto simp: unheld_def holder_ok_def dropGate_def)
  have "vstatus st ?v \<noteq> Some Skipped" using f(1) by (auto simp: parkedStatus_def)
  then show "touches plan ?v st (dropGate g st)"
    using ok f(5) gatesAt_other[OF g] by (simp add: touches_def same_view_def dropGate_def gatesAt_delete)
qed (simp_all add: dropGate_def)

lemma approve_inv:
  assumes inv: "run_inv plan st" and g: "mget (rs_pendingGates st) g = Some gate"
    and p: "vstatus st (pg_vertex gate) = Some Paused"
  shows "run_inv plan (dropGate g (putStatus (pg_vertex gate) Pending st))"
proof (rule one_vertex_inv[OF inv])
  let ?v = "pg_vertex gate" and ?st = "dropGate g (putStatus (pg_vertex gate) Pending st)"
  note f = gate_facts[OF inv g refl]
  show "touches plan ?v st ?st"
  proof (rule touchesI[OF sheds_dropGate[OF g refl] p _ f(5), where y = Pending])
    show x: "vstatus ?st ?v = Some Pending" using p by (simp add: dropGate_def)
    show "view_ok ?st ?v" unfolding x using f(6) by (simp add: unheld_def dropGate_def holder_ok_free)
  qed (simp_all add: dropGate_def mget_setStatus)
qed (simp_all add: dropGate_def)

lemma budgetGateDecided_inv:
  assumes inv: "run_inv plan st" and ab: "rs_aborted st \<or> rs_noNewDispatch st \<longrightarrow> doomed st"
    and g: "mget (rs_pendingGates st) g = Some gate" and fail: "vstatus st (pg_vertex gate) = Some Failed \<longrightarrow> doomed st"
  shows "run_inv plan (budgetGateDecided g (pg_vertex gate) d st)"
proof -
  let ?v = "pg_vertex gate"
  note f = gate_facts[OF inv g refl]
  have pf: "vstatus st ?v = Some Paused \<or> vstatus st ?v = Some Failed" using f(1) by (simp add: parkedStatus_def)
  consider (no) "\<not> canAuthorizeBudget st" | (rej) "canAuthorizeBudget st" "d = Rejected"
    | (app) "canAuthorizeBudget st" "d \<noteq> Rejected" by blast
  then show ?thesis
  proof cases
    case no
    then have "doomed st" using ab by (auto simp: canAuthorizeBudget_def doomed_def)
    then show ?thesis using no dropGate_inv[OF inv g] by (simp add: budgetGateDecided_def)
  next
    case rej
    have "vstatus (failGateResume ?v e st) ?v = Some Failed" for e using pf by (auto simp: failGateResume_def)
    moreover have "rs_pendingGates (failGateResume ?v e st) = rs_pendingGates st" for e by (simp add: failGateResume_def)
    ultimately show ?thesis
      using rej dropGate_inv[OF failGateResume_inv[OF inv]] g by (simp add: budgetGateDecided_def)
  next
    case app
    then have "\<not> doomed st" by (auto simp: canAuthorizeBudget_def doomed_def)
    then show ?thesis using app pf fail approve_inv[OF inv g] by (auto simp: budgetGateDecided_def)
  qed
qed

lemma acknowledgeGate_inv:
  assumes inv: "run_inv plan st" and g: "mget (rs_pendingGates st) g = Some gate"
  shows "run_inv plan (acknowledgeGate g gate st)"
proof -
  have "gatesAt (mset_key g (gate\<lparr>pg_acknowledged := True\<rparr>) (rs_pendingGates st)) v = gatesAt (rs_pendingGates st) v" for v
    using g by (auto simp: gatesAt_def)
  then show ?thesis using inv by (simp add: run_inv_def acknowledgeGate_def)
qed

lemma failGateOnTimeout_inv:
  assumes inv: "run_inv plan st" and g: "mget (rs_pendingGates st) g = Some gate"
  shows "run_inv plan (failGateOnTimeout g (pg_vertex gate) st)"
proof (cases "vstatus st (pg_vertex gate) = Some Paused")
  case True
  let ?v = "pg_vertex gate" and ?st1 = "resolveGate g (dropGate g st)"
  note f = gate_facts[OF inv g refl]
  have "run_inv plan (settleFailed ?v e ?st1)" for e
    using settleFailed_touches[OF inv sheds_resolveGate[OF sheds_dropGate[OF g refl]] True _ f(5)]
    by (intro one_vertex_inv[OF inv]) (simp_all add: settleFailed_def resolveGate_def dropGate_def)
  then show ?thesis using inv by (simp add: failGateOnTimeout_def)
next
  case False
  let ?v = "pg_vertex gate" and ?st1 = "resolveGate g (dropGate g st)"
  have x: "vstatus st ?v = Some Failed" using False gate_facts(1)[OF inv g refl] by (simp add: parkedStatus_def)
  have i: "run_inv plan ?st1" using resolveGate_inv[OF dropGate_inv[OF inv g]] False by blast
  have "touches plan ?v ?st1 (settleFailed ?v e ?st1)" for e
  proof -
    have y: "vstatus ?st1 ?v = Some Failed" using x by (simp add: resolveGate_def dropGate_def)
    have ext: "extends (rs_states st) (setStatus ?v Failed (rs_states st))"
      using x by (auto simp: extends_def mget_setStatus statusOf_def)
    have "view_ok (settleFailed ?v e ?st1) ?v"
      using holder_ok_Failed[OF run_invD(3)[OF i, of ?v]] y by (simp add: settleFailed_def)
    then show ?thesis using y ext run_invD(8)[OF i y] run_invD(7)[OF i, of ?v]
      by (auto simp: touches_def same_view_def settleFailed_def resolveGate_def dropGate_def)
  qed
  then have "run_inv plan (settleFailed ?v e ?st1)" for e
    by (intro one_vertex_inv[OF i]) (simp_all add: settleFailed_def)
  then show ?thesis using inv by (simp add: failGateOnTimeout_def)
qed

section \<open>Parked media jobs\<close>

lemma parked_facts:
  assumes inv: "run_inv plan st" and v: "v \<in> set (rs_pendingMediaJobs st)"
  shows "parkedStatus (vstatus st v)" and "mget (rs_actors st) v = None" and "unheld (clearMediaJob v st) v"
    and "vertexReady plan (rs_states st) v"
proof -
  have ok: "view_ok st v" using inv by (rule run_invD)
  show p: "parkedStatus (vstatus st v)" and a: "mget (rs_actors st) v = None"
    using ok v unfolding holder_ok_def by blast+
  have "gatesAt (rs_pendingGates st) v = {}" using ok v unfolding holder_ok_def by blast
  then show "unheld (clearMediaJob v st) v" using a by (simp add: unheld_def clearMediaJob_def)
  show "vertexReady plan (rs_states st) v"
    using p run_invD(8)[OF inv, of v Paused] run_invD(8)[OF inv, of v Failed] by (auto simp: parkedStatus_def)
qed

lemma clearMediaJob_touches:
  assumes inv: "run_inv plan st" and v: "v \<in> set (rs_pendingMediaJobs st)" and d: "vstatus st v = Some Failed"
  shows "touches plan v st (clearMediaJob v st)"
proof -
  have "view_ok (clearMediaJob v st) v"
    using parked_facts(3)[OF inv v] d by (auto simp: unheld_def holder_ok_def clearMediaJob_def)
  then show ?thesis
    using parked_facts(4)[OF inv v] d by (auto simp: touches_def same_view_def clearMediaJob_def)
qed

lemma mediaJobDone_inv:
  assumes inv: "run_inv plan st" and v: "v \<in> set (rs_pendingMediaJobs st)"
  shows "run_inv plan (mediaJobDone v st)"
proof (rule one_vertex_inv[OF inv])
  note f = parked_facts[OF inv v]
  have "view_ok (mediaJobDone v st) v"
    using f(1,3) by (simp add: mediaJobDone_def clearMediaJob_def unheld_def holder_ok_def)
  then show "touches plan v st (mediaJobDone v st)"
    using f(1,4) by (auto simp: touches_def same_view_def mediaJobDone_def clearMediaJob_def parkedStatus_def)
qed (use parked_facts(2)[OF inv v] in \<open>simp_all add: mediaJobDone_def clearMediaJob_def\<close>)

lemma mediaPinned_inv:
  assumes "run_inv plan st" and "mget (rs_actors st) v = Some PinningMedia" and "freshGate out st"
  shows "run_inv plan (mediaPinned b v out st)"
  using drop_outcome_inv[OF assms(1,2) _ _ assms(3)] by (simp add: mediaPinned_def)

lemma mediaJobFailed_touches:
  assumes inv: "run_inv plan st" and v: "v \<in> set (rs_pendingMediaJobs st)" and s: "rs_settled st = None"
  shows "touches plan v st (mediaJobFailed b v f st)"
proof (cases "vstatus st v = Some Failed")
  case True
  then have "settledStatus (clearMediaJob v st) v" by (simp add: settledStatus_iff clearMediaJob_def)
  then show ?thesis using clearMediaJob_touches[OF inv v True] by (simp add: mediaJobFailed_def onOutcome_def)
next
  case False
  then have p: "vstatus st v = Some Paused" using parked_facts(1)[OF inv v] by (simp add: parkedStatus_def)
  have "freshGate (OutFailed f) (clearMediaJob v st)" "rs_settled (clearMediaJob v st) = None"
    using s by (simp_all add: freshGate_def clearMediaJob_def)
  then show ?thesis
    using onOutcome_touches[OF inv sheds_clearMediaJob p _ parked_facts(4,3)[OF inv v]] by (simp add: mediaJobFailed_def)
qed

lemma mediaJobFailed_inv:
  assumes "run_inv plan st" and "v \<in> set (rs_pendingMediaJobs st)" and "rs_settled st = None"
  shows "run_inv plan (mediaJobFailed b v f st)"
  by (rule one_vertex_inv[OF assms(1) mediaJobFailed_touches[OF assms]]) (simp_all add: mediaJobFailed_def clearMediaJob_def)

lemma mediaPollFault_inv:
  assumes inv: "run_inv plan st" and v: "v \<in> set (rs_pendingMediaJobs st)"
  shows "run_inv plan (mediaPollFault v st)"
proof (cases "rs_settled st = None")
  case s: True
  have "failNodeInternal v SettlingFailed (clearMediaJob v st) = mediaJobFailed b v (fatal InternalError SettlingFailed) st
    \<or> vstatus st v = Some Failed" for b
    using parked_facts(1)[OF inv v] s
    by (auto simp: failNodeInternal_def mediaJobFailed_def onOutcome_def settleFailed_def settledStatus_iff
        clearMediaJob_def parkedStatus_def Let_def)
  moreover have "run_inv plan (failNodeInternal v SettlingFailed (clearMediaJob v st))" if x: "vstatus st v = Some Failed"
  proof -
    have "run_inv plan (clearMediaJob v st)"
      using one_vertex_inv[OF inv clearMediaJob_touches[OF inv v x]] by (simp add: clearMediaJob_def)
    then show ?thesis by (rule failNodeInternal_inv)
  qed
  ultimately show ?thesis using mediaJobFailed_inv[OF inv v s] s unfolding mediaPollFault_def by metis
qed (use inv in \<open>simp add: mediaPollFault_def\<close>)

end
