(* ===== verification/Run_Verdict.thy ===== *)
theory Run_Verdict
  imports Run_Safety
begin

text \<open>
  The verdict of a run: which terminal it may reach, and that a failed vertex, an abort or the grace
  latch always has a recorded cause. Together with the holder invariant it holds in every reachable
  state.
\<close>

section \<open>Causes and verdicts\<close>

definition caused :: "RunState \<Rightarrow> bool" where
  "caused st \<longleftrightarrow> rs_failure st \<noteq> None \<or> rs_cancelling st"

fun verdict_ok :: "Terminal option \<Rightarrow> RunState \<Rightarrow> bool" where
  "verdict_ok None st \<longleftrightarrow> True"
| "verdict_ok (Some RunCancelled) st \<longleftrightarrow> rs_cancelling st"
| "verdict_ok (Some RunFailed) st \<longleftrightarrow> rs_failure st \<noteq> None \<and> \<not> rs_cancelling st"
| "verdict_ok (Some RunCompleted) st \<longleftrightarrow>
     \<not> caused st \<and> (\<forall>v x. vstatus st v = Some x \<longrightarrow> x = Completed \<or> x = Skipped)"

definition verdict_inv :: "RunState \<Rightarrow> bool" where
  "verdict_inv st \<longleftrightarrow>
     (rs_aborted st \<longrightarrow> doomed st) \<and> (rs_noNewDispatch st \<longrightarrow> caused st) \<and>
     (\<forall>v. vstatus st v = Some Failed \<longrightarrow> caused st) \<and> verdict_ok (rs_settled st) st \<and>
     (rs_settled st \<noteq> None \<longrightarrow> rs_phase st = StepIdle \<and> runningIds (rs_states st) = {})"

text \<open>Steps that may fail vertices and record a cause, but neither settle nor cancel the run.\<close>

definition gentle :: "RunState \<Rightarrow> RunState \<Rightarrow> bool" where
  "gentle st st' \<longleftrightarrow>
     mkeys (rs_states st') = mkeys (rs_states st) \<and> extends (rs_states st) (rs_states st') \<and>
     rs_settled st' = rs_settled st \<and> rs_cancelling st' = rs_cancelling st \<and> rs_noNewDispatch st' = rs_noNewDispatch st \<and>
     (rs_failure st' = rs_failure st \<or> rs_settled st = None \<and> rs_failure st' \<noteq> None) \<and>
     (rs_aborted st' \<longrightarrow> rs_aborted st \<or> caused st') \<and>
     (\<forall>v. vstatus st' v = Some Failed \<longrightarrow> vstatus st v = Some Failed \<or> caused st') \<and>
     runningIds (rs_states st') \<subseteq> runningIds (rs_states st) \<and>
     (rs_settled st \<noteq> None \<longrightarrow> rs_phase st' = rs_phase st \<or> rs_phase st' = StepIdle)"

lemma gentle_refl: "gentle st st"
  by (simp add: gentle_def)

lemma gentle_trans:
  assumes "gentle a b" and "gentle b c"
  shows "gentle a c"
proof -
  have ca: "caused b \<Longrightarrow> caused c" using assms(2) by (auto simp: gentle_def caused_def)
  have "rs_aborted c \<longrightarrow> rs_aborted a \<or> caused c" using assms ca unfolding gentle_def by blast
  moreover have "vstatus a v = Some Failed \<or> caused c" if "vstatus c v = Some Failed" for v
  proof -
    have "vstatus b v = Some Failed \<or> caused c" using that assms(2) unfolding gentle_def by blast
    then show ?thesis using assms(1) ca unfolding gentle_def by blast
  qed
  moreover have "rs_failure c = rs_failure a \<or> rs_settled a = None \<and> rs_failure c \<noteq> None"
  proof -
    have "rs_failure b = rs_failure a \<or> rs_settled a = None \<and> rs_failure b \<noteq> None" "rs_settled b = rs_settled a"
      "rs_failure c = rs_failure b \<or> rs_settled b = None \<and> rs_failure c \<noteq> None"
      using assms unfolding gentle_def by blast+
    then show ?thesis by argo
  qed
  moreover have "rs_settled a \<noteq> None \<longrightarrow> rs_phase c = rs_phase a \<or> rs_phase c = StepIdle"
  proof -
    have "rs_settled a \<noteq> None \<longrightarrow> rs_phase b = rs_phase a \<or> rs_phase b = StepIdle" "rs_settled b = rs_settled a"
      "rs_settled b \<noteq> None \<longrightarrow> rs_phase c = rs_phase b \<or> rs_phase c = StepIdle"
      using assms unfolding gentle_def by blast+
    then show ?thesis by metis
  qed
  moreover have "extends (rs_states a) (rs_states c)"
    by (rule extends_trans[of _ "rs_states b"]) (use assms in \<open>simp_all add: gentle_def\<close>)
  moreover have "runningIds (rs_states c) \<subseteq> runningIds (rs_states a)" using assms unfolding gentle_def by blast
  ultimately show ?thesis using assms unfolding gentle_def by simp
qed

lemma key_statusOf: "mkeys m' = mkeys m \<Longrightarrow> statusOf m' v = Some x \<Longrightarrow> \<exists>y. statusOf m v = Some y"
  using statusOf_key[of m' v x] mget_None_iff[of m v] by (cases "mget m v") (auto simp: statusOf_def mkeys_def)

lemma gentle_verdict:
  assumes v: "verdict_inv st" and g: "gentle st st'"
  shows "verdict_inv st'"
proof -
  have c: "caused st \<longrightarrow> caused st'" "doomed st \<longrightarrow> doomed st'" "caused st' \<longrightarrow> doomed st'"
    using g by (auto simp: gentle_def caused_def doomed_def)
  have e: "extends (rs_states st) (rs_states st')" and k: "mkeys (rs_states st') = mkeys (rs_states st)"
    using g by (simp_all add: gentle_def)
  have ok: "verdict_ok (rs_settled st') st'"
  proof (cases "rs_settled st")
    case (Some t)
    have f: "rs_failure st' = rs_failure st" "rs_cancelling st' = rs_cancelling st" "rs_settled st' = Some t"
      using g Some by (auto simp: gentle_def)
    have vo: "verdict_ok (Some t) st" using v Some by (simp add: verdict_inv_def)
    show ?thesis
    proof (cases t)
      case RunCompleted
      have "x = Completed \<or> x = Skipped" if x: "vstatus st' u = Some x" for u x
      proof -
        obtain y where y: "vstatus st u = Some y" using key_statusOf[OF k x] by blast
        then have yc: "y = Completed \<or> y = Skipped" using vo RunCompleted by simp
        then have "SETTLED y" by auto
        then show ?thesis using extends_statusOf[OF e y] yc x by simp
      qed
      then show ?thesis using f vo RunCompleted by (simp add: caused_def)
    qed (use f vo in simp_all)
  qed (use g in \<open>simp add: gentle_def\<close>)
  have "rs_aborted st' \<longrightarrow> doomed st'" "rs_noNewDispatch st' \<longrightarrow> caused st'"
    using v g c unfolding verdict_inv_def gentle_def by blast+
  moreover have "vstatus st' u = Some Failed \<longrightarrow> caused st'" for u
    using v g c(1) unfolding verdict_inv_def gentle_def by blast
  moreover have "rs_settled st' \<noteq> None \<longrightarrow> rs_phase st' = StepIdle \<and> runningIds (rs_states st') = {}"
  proof
    assume "rs_settled st' \<noteq> None"
    then have s: "rs_settled st \<noteq> None" using g by (simp add: gentle_def)
    then have "rs_phase st = StepIdle" "runningIds (rs_states st) = {}" using v by (simp_all add: verdict_inv_def)
    moreover have "rs_phase st' = rs_phase st \<or> rs_phase st' = StepIdle" "runningIds (rs_states st') \<subseteq> runningIds (rs_states st)"
      using g s unfolding gentle_def by blast+
    ultimately show "rs_phase st' = StepIdle \<and> runningIds (rs_states st') = {}" by auto
  qed
  ultimately show ?thesis using ok by (simp add: verdict_inv_def)
qed

section \<open>The steps are gentle\<close>

lemma caused_recordFailure [simp]: "caused (recordFailure c f st)"
  by (auto simp: caused_def recordFailure_def)

lemma failure_recordFailure: "rs_failure (recordFailure c f st) = (if caused st then rs_failure st else Some (c, f))"
  by (auto simp: caused_def recordFailure_def)

lemma aborted_recordFailure: "rs_aborted (recordFailure c f st) \<longleftrightarrow> rs_aborted st \<or> \<not> caused st"
  by (auto simp: caused_def recordFailure_def)

lemma caused_putStatus [simp]: "caused (putStatus v x st) = caused st"
  by (simp add: caused_def)

lemma touches_gentle:
  assumes t: "touches plan v st st'" and "rs_settled st' = rs_settled st" and "rs_cancelling st' = rs_cancelling st"
    and "rs_noNewDispatch st' = rs_noNewDispatch st"
    and "rs_failure st' = rs_failure st \<or> rs_settled st = None \<and> rs_failure st' \<noteq> None"
    and "rs_aborted st' \<longrightarrow> rs_aborted st \<or> caused st'" and "vstatus st' v = Some Failed \<longrightarrow> vstatus st v = Some Failed \<or> caused st'"
    and "rs_phase st' = rs_phase st \<or> rs_phase st' = StepIdle \<or> rs_settled st = None"
  shows "gentle st st'"
proof -
  have "vstatus st u = Some Failed \<or> caused st'" if "vstatus st' u = Some Failed" for u
    using that t assms(7) by (cases "u = v") (auto simp: touches_def same_view_def)
  moreover have "runningIds (rs_states st') \<subseteq> runningIds (rs_states st)"
    using t by (auto simp: runningIds_def touches_def same_view_def)
  moreover have "extends (rs_states st) (rs_states st')" "mkeys (rs_states st') = mkeys (rs_states st)"
    using t by (simp_all add: touches_def)
  ultimately show ?thesis using assms(2-6,8) by (auto simp: gentle_def)
qed

text \<open>What a settling operation does to the fields that decide the verdict.\<close>

definition mild :: "RunState \<Rightarrow> RunState \<Rightarrow> node_id \<Rightarrow> bool" where
  "mild st st' v \<longleftrightarrow>
     rs_settled st' = rs_settled st \<and> rs_cancelling st' = rs_cancelling st \<and> rs_noNewDispatch st' = rs_noNewDispatch st \<and>
     (rs_failure st' = rs_failure st \<or> \<not> caused st \<and> rs_failure st' \<noteq> None) \<and>
     (rs_aborted st' \<longrightarrow> rs_aborted st \<or> caused st') \<and>
     (vstatus st' v = Some Failed \<longrightarrow> vstatus st v = Some Failed \<or> caused st')"

lemma touches_mild_gentle:
  assumes "touches plan v st st'" and "mild st st' v" and "rs_settled st = None \<or> caused st"
    and "rs_phase st' = rs_phase st \<or> rs_phase st' = StepIdle \<or> rs_settled st = None"
  shows "gentle st st'"
  using assms by (intro touches_gentle[of plan v]) (auto simp: mild_def)

lemma mild_recordFailure: "mild st st1 v \<Longrightarrow> rs_failure st1 = rs_failure st \<Longrightarrow> mild st (recordFailure c f st1) v"
  by (auto simp: mild_def failure_recordFailure aborted_recordFailure caused_def)

lemma mild_same:
  "rs_settled st' = rs_settled st \<Longrightarrow> rs_cancelling st' = rs_cancelling st \<Longrightarrow> rs_noNewDispatch st' = rs_noNewDispatch st \<Longrightarrow>
   rs_failure st' = rs_failure st \<Longrightarrow> rs_aborted st' = rs_aborted st \<Longrightarrow>
   (vstatus st' v = Some Failed \<Longrightarrow> vstatus st v = Some Failed \<or> caused st) \<Longrightarrow> mild st st' v"
  by (auto simp: mild_def caused_def)

lemma mild_settleFailed:
  assumes "rs_settled st1 = rs_settled st" "rs_cancelling st1 = rs_cancelling st" "rs_noNewDispatch st1 = rs_noNewDispatch st"
    "rs_failure st1 = rs_failure st" "rs_aborted st1 = rs_aborted st"
  shows "mild st (settleFailed v f st1) v"
  using assms by (auto simp: settleFailed_def mild_def failure_recordFailure aborted_recordFailure caused_def)

definition calm :: "RunState \<Rightarrow> RunState \<Rightarrow> bool" where
  "calm st st1 \<longleftrightarrow>
     rs_settled st1 = rs_settled st \<and> rs_cancelling st1 = rs_cancelling st \<and> rs_noNewDispatch st1 = rs_noNewDispatch st \<and>
     rs_failure st1 = rs_failure st \<and> rs_aborted st1 = rs_aborted st \<and> rs_states st1 = rs_states st"

lemma calm_simps [simp]:
  "calm st st" "calm st (dropActor v st)" "calm st (putActor v a st)" "calm st (clearMediaJob v st)"
  "calm st (dropGate g st)" "calm st (resolveGate g st1) = calm st st1" "calm st (pauseSettles st)"
  "calm st (st\<lparr>rs_phase := p\<rparr>)" "calm st (st1\<lparr>rs_workflowStateBytes := n\<rparr>) = calm st st1"
  "calm st (acknowledgeGate g gate st)" "calm st (mediaJobDone v st)"
  by (simp_all add: calm_def dropActor_def putActor_def clearMediaJob_def dropGate_def resolveGate_def pauseSettles_def
      acknowledgeGate_def mediaJobDone_def)

lemma phase_gates [simp]:
  "rs_phase (dropGate g st) = rs_phase st" "rs_phase (resolveGate g st) = rs_phase st" "rs_phase (pauseSettles st) = rs_phase st"
  "rs_phase (clearMediaJob v st) = rs_phase st" "rs_phase (mediaJobDone v st) = rs_phase st"
  "rs_phase (acknowledgeGate g gate st) = rs_phase st"
  by (simp_all add: dropGate_def resolveGate_def pauseSettles_def clearMediaJob_def mediaJobDone_def acknowledgeGate_def)

lemma calm_gentle: "calm st st1 \<Longrightarrow> rs_phase st1 = rs_phase st \<or> rs_phase st1 = StepIdle \<or> rs_settled st = None \<Longrightarrow> gentle st st1"
  by (auto simp: calm_def gentle_def)

lemma calm_mild_failed: "calm st st1 \<Longrightarrow> mild st (settleFailed v f st1) v"
  by (rule mild_settleFailed) (simp_all add: calm_def)

lemma calm_mild: "calm st st1 \<Longrightarrow> mild st st1 v"
  by (rule mild_same) (simp_all add: calm_def)

lemma mild_backstop: "calm st st1 \<Longrightarrow> mild st (settleFailedOrBackstop v f st1) v"
  by (simp add: settleFailedOrBackstop_def calm_mild calm_mild_failed)

lemma mild_putOutput: "calm st st1 \<Longrightarrow> mild st (putOutput v out sel st1) v"
  by (rule mild_same) (auto simp: calm_def putOutput_def statusOf_def split: option.splits)

lemma mild_outcome:
  assumes "calm st st1"
  shows "mild st (onOutcome b v out st1) v"
proof -
  have "mild st (settleCompleted b v outp sel st1) v" for outp sel
    using settleCompleted_cases[of b v outp sel st1] calm_mild_failed[OF assms] mild_putOutput assms by fastforce
  moreover have "mild st (publishPause v g bud st1) v" for g bud
    by (rule mild_same) (use assms in \<open>simp_all add: calm_def publishPause_def split: if_splits\<close>)
  moreover have "mild st (settleMediaJobParked v st1) v"
    by (rule mild_same) (use assms in \<open>simp_all add: calm_def settleMediaJobParked_def Let_def split: if_splits\<close>)
  ultimately show ?thesis
    using calm_mild[OF assms] calm_mild_failed[OF assms] by (auto simp: onOutcome_def split: NodeOutcome.split)
qed

lemma open_or_caused:
  assumes "verdict_inv st" and "vstatus st v = Some x" and "x \<noteq> Completed" and "x \<noteq> Skipped"
  shows "rs_settled st = None \<or> caused st"
proof (cases "rs_settled st")
  case (Some t)
  then have "verdict_ok (Some t) st" using assms(1) by (simp add: verdict_inv_def)
  then show ?thesis using assms(2-4) by (cases t) (auto simp: caused_def)
qed simp

lemma held_open:
  assumes "run_inv plan st" and "verdict_inv st" and "mget (rs_actors st) v = Some a"
  shows "rs_settled st = None \<or> caused st"
proof -
  have "vstatus st v = Some Running \<or> vstatus st v = Some Failed \<or> vstatus st v = Some Paused"
    using held_facts(3,4)[OF assms(1,3)] by (cases "a = PinningMedia") (auto simp: heldStatus_def parkedStatus_def)
  then show ?thesis using open_or_caused[OF assms(2)] by blast
qed

lemma parked_open:
  "verdict_inv st \<Longrightarrow> parkedStatus (vstatus st v) \<Longrightarrow> rs_settled st = None \<or> caused st"
  using open_or_caused[of st v] by (auto simp: parkedStatus_def)

lemma drop_outcome_gentle:
  assumes "run_inv plan st" and "verdict_inv st" and "mget (rs_actors st) v = Some a" and "freshGate out st"
  shows "gentle st (onOutcome b v out (dropActor v st))"
  by (rule touches_mild_gentle[OF drop_outcome_touches[OF assms(1,3,4)] mild_outcome held_open[OF assms(1-3)]]) simp_all

lemma backstop_gentle:
  assumes "run_inv plan st" and "verdict_inv st" and "mget (rs_actors st) v = Some a" "a \<noteq> PinningMedia"
    and "st1 = st \<or> st1 = dropActor v st"
  shows "gentle st (settleFailedOrBackstop v f st1)"
proof -
  have "sheds v st st1" "calm st st1" "rs_phase st1 = rs_phase st" using assms(5) by auto
  then show ?thesis
    using touches_mild_gentle[OF backstop_touches[OF assms(1,3,4) _ assms(5)] mild_backstop held_open[OF assms(1-3)]] by simp
qed

section \<open>Releasing\<close>

lemma releaseOne_gentle:
  assumes "vstatus st v \<noteq> Some Completed"
  shows "gentle st (releaseOne v st)"
proof (cases "vstatus st v = Some Running")
  case True
  then have "extends (rs_states st) (setStatus v Pending (rs_states st))" by (simp add: extends_setStatus)
  then show ?thesis using True by (auto simp: releaseOne_def Let_def gentle_def runningIds_def)
next
  case False
  then show ?thesis by (simp add: releaseOne_def Let_def calm_gentle)
qed

lemma status_releaseOne: "vstatus (releaseOne v st) u = (if u = v \<and> vstatus st v = Some Running then Some Pending else vstatus st u)"
  by (auto simp: releaseOne_def Let_def)

lemma fold_release_gentle: "(\<forall>v \<in> set vs. vstatus st v \<noteq> Some Completed) \<Longrightarrow> gentle st (fold releaseOne vs st)"
proof (induction vs arbitrary: st)
  case (Cons v vs)
  have "\<forall>u \<in> set vs. vstatus (releaseOne v st) u \<noteq> Some Completed" using Cons.prems by (simp add: status_releaseOne)
  then show ?case using Cons gentle_trans[OF releaseOne_gentle[of st v]] by simp
qed (simp add: gentle_refl)

lemma releaseClaims_gentle:
  assumes "\<forall>v \<in> set vs. vstatus st v \<noteq> Some Completed"
  shows "gentle st (releaseClaims vs st)"
  unfolding releaseClaims_def
  by (rule gentle_trans[OF fold_release_gentle[OF assms]]) (simp add: calm_gentle)

lemma claimed_not_completed:
  "run_inv plan st \<Longrightarrow> mget (rs_actors st) v = Some Claimed \<Longrightarrow> vstatus st v \<noteq> Some Completed"
  using held_facts(3)[of plan st v Claimed] by (auto simp: heldStatus_def)

lemma backstop_keeps:
  "vstatus st u \<noteq> Some Completed \<Longrightarrow> vstatus (settleFailedOrBackstop v f st) u \<noteq> Some Completed"
  by (auto simp: settleFailedOrBackstop_def settleFailed_def)

section \<open>The verdict invariant of every event\<close>

lemma stepSkips_verdict:
  assumes "verdict_inv st"
  shows "verdict_inv (stepSkips plan ckpt st)"
proof -
  obtain m' entries where p: "propagateSkips plan (rs_states st) = (m', entries)"
    by (cases "propagateSkips plan (rs_states st)")
  have sk: "statusOf m' v = vstatus st v \<or> statusOf m' v = Some Skipped" for v
    using propagateSkips_fixpoint[OF p] by (auto simp: skipsTo_def)
  have "vstatus st v = Some Failed" if "statusOf m' v = Some Failed" for v using sk[of v] that by simp
  then show ?thesis using assms p by (auto simp: stepSkips_def verdict_inv_def caused_def)
qed

lemma settleRun_verdict:
  assumes v: "verdict_inv st" and "rs_phase st = StepIdle" and r: "runningIds (rs_states st) = {}"
    and ok: "verdict_ok (Some t) st"
  shows "verdict_inv (settleRun t st)"
proof (cases "rs_settled st = None")
  case True
  then have "settleRun t st = st\<lparr>rs_settled := Some t, rs_aborted := True, rs_pendingMediaJobs := []\<rparr>"
    by (simp add: settleRun_def)
  moreover have "verdict_ok (Some t) (st\<lparr>rs_settled := Some t, rs_aborted := True, rs_pendingMediaJobs := []\<rparr>)"
    using ok by (cases t) (simp_all add: caused_def)
  ultimately show ?thesis using v assms(2) r by (simp add: verdict_inv_def doomed_def caused_def)
qed (use v in \<open>simp add: settleRun_def\<close>)

lemma running_none: "map_invar m \<Longrightarrow> countRunning m = 0 \<Longrightarrow> runningIds m = {}"
  using countRunning_card[of m] finite_runningIds[of m] by simp

lemma allSettled_verdict:
  assumes "map_invar (rs_states st)" and "allSettled (rs_states st)" and "verdict_inv st" and "\<not> caused st"
  shows "verdict_ok (Some RunCompleted) st" and "runningIds (rs_states st) = {}"
proof -
  have a: "\<And>v x. vstatus st v = Some x \<Longrightarrow> SETTLED x" using assms(1,2) by (simp add: allSettled_iff)
  have "x = Completed \<or> x = Skipped" if "vstatus st v = Some x" for v x
    using a[OF that] that assms(3,4) by (cases x) (auto simp: verdict_inv_def)
  then show "verdict_ok (Some RunCompleted) st" using assms(4) by simp
  show "runningIds (rs_states st) = {}" using a by (force simp: runningIds_def)
qed

lemma handleIdle_verdict: "verdict_inv st \<Longrightarrow> rs_settled st = None \<Longrightarrow> verdict_inv (handleIdle n st)"
  by (auto simp: handleIdle_def verdict_inv_def doomed_def caused_def)

lemma stepDecide_verdict:
  assumes inv: "run_inv plan st" and v: "verdict_inv st" and p: "rs_phase st = StepDecide"
  shows "verdict_inv (stepDecide plan st)"
proof -
  let ?st = "st\<lparr>rs_phase := StepIdle\<rparr>"
  have s: "rs_settled st = None" using v p by (auto simp: verdict_inv_def)
  have v': "verdict_inv ?st" using gentle_verdict[OF v calm_gentle[of st ?st]] by simp
  have i: "run_inv plan ?st" using idle_phase_inv[OF inv] .
  note mi = run_invD(1)[OF i]
  obtain ready m where c: "claimReady plan (rs_states ?st) (countRunning (rs_states ?st))
      (ceil_nodeDispatchesPerRun - rs_nodeDispatches ?st) = (ready, m)"
    by (cases "claimReady plan (rs_states ?st) (countRunning (rs_states ?st)) (ceil_nodeDispatchesPerRun - rs_nodeDispatches ?st)")
  note e = claimReady_effect[OF c mi run_invD(5)[OF i]]
  have claim: "verdict_inv ((claimedActors ready ?st)\<lparr>rs_states := m, rs_phase := StepStart ready\<rparr>)"
    using v' s e(7) by (auto simp: verdict_inv_def caused_def)
  have cap: "verdict_inv (?st\<lparr>rs_failure := Some f, rs_aborted := True\<rparr>)" for f
    using v' s by (auto simp: verdict_inv_def doomed_def caused_def)
  have cancel: "verdict_inv (settleRun RunCancelled ?st)" if "rs_cancelling ?st" "countRunning (rs_states ?st) = 0"
    using settleRun_verdict[OF v' _ running_none[OF mi that(2)]] that(1) by simp
  have fail: "verdict_inv (settleRun RunFailed ?st)"
    if "\<not> rs_cancelling ?st" "rs_failure ?st \<noteq> None" "countRunning (rs_states ?st) = 0"
    using settleRun_verdict[OF v' _ running_none[OF mi that(3)]] that(1,2) by simp
  have done': "verdict_inv (settleRun RunCompleted ?st)"
    if "\<not> rs_cancelling ?st" "\<not> rs_failure ?st \<noteq> None" "allSettled (rs_states ?st)"
  proof -
    have "\<not> caused ?st" using that by (simp add: caused_def)
    from allSettled_verdict[OF mi that(3) v' this] show ?thesis using settleRun_verdict[OF v'] by simp
  qed
  show ?thesis
    unfolding stepDecide_def Let_def c prod.case
    using cancel fail done' cap claim v' handleIdle_verdict[OF v'] s by (simp split: if_split)
qed

lemma startNext_verdict:
  assumes inv: "run_inv plan st" and v: "verdict_inv st" and p: "rs_phase st = StepStart (u # us)"
  shows "verdict_inv (startNext u us st)"
proof -
  have "\<forall>w \<in> set (u # us). mget (rs_actors st) w = Some Claimed" using run_invD(4)[OF inv] p by auto
  then have "gentle st (releaseClaims (u # us) st)" using claimed_not_completed[OF inv] by (intro releaseClaims_gentle) blast
  moreover have "verdict_inv ((putActor u Entering st)\<lparr>rs_nodeDispatches := n, rs_lastAttempt := l, rs_phase := StepEnter u us\<rparr>)" for n l
    using v p by (auto simp: verdict_inv_def caused_def)
  ultimately show ?thesis using gentle_verdict[OF v] by (simp add: startNext_def)
qed

lemma release_after_backstop_gentle:
  assumes inv: "run_inv plan st" and v: "verdict_inv st" and a: "mget (rs_actors st) u = Some a" "a \<noteq> PinningMedia"
    and st1: "st1 = st \<or> st1 = dropActor u st" and vs: "\<forall>w \<in> set vs. mget (rs_actors st) w = Some Claimed"
  shows "gentle st (releaseClaims vs (settleFailedOrBackstop u f st1))"
proof (rule gentle_trans[OF backstop_gentle[OF inv v a st1] releaseClaims_gentle])
  show "\<forall>w \<in> set vs. vstatus (settleFailedOrBackstop u f st1) w \<noteq> Some Completed"
  proof
    fix w assume "w \<in> set vs"
    then have "vstatus st w \<noteq> Some Completed" using claimed_not_completed[OF inv] vs by blast
    then have "vstatus st1 w \<noteq> Some Completed" using st1 by auto
    then show "vstatus (settleFailedOrBackstop u f st1) w \<noteq> Some Completed" by (rule backstop_keeps)
  qed
qed

lemma consumerFault_verdict:
  assumes inv: "run_inv plan st" and v: "verdict_inv st" and p: "rs_phase st = StepStart (u # us)"
  shows "verdict_inv (consumerFault u us st)"
proof -
  have cl: "\<forall>w \<in> set (u # us). mget (rs_actors st) w = Some Claimed" using run_invD(4)[OF inv] p by auto
  have "gentle st (releaseClaims (u # us) st)" using cl claimed_not_completed[OF inv] by (intro releaseClaims_gentle) blast
  then show ?thesis
    using gentle_verdict[OF v] release_after_backstop_gentle[OF inv v _ _ _ cl, of u Claimed st] cl by (simp add: consumerFault_def)
qed

lemma enter_verdict:
  assumes inv: "run_inv plan st" and v: "verdict_inv st" and p: "rs_phase st = StepEnter u us"
  shows "verdict_inv (enterDispatch u us st)" and "verdict_inv (startFault u us st)"
proof -
  note e = entering_facts[OF inv p]
  have s: "rs_settled st = None" using v p by (auto simp: verdict_inv_def)
  have r: "gentle st (releaseClaims us (settleFailedOrBackstop u f (dropActor u st)))" for f
    by (rule release_after_backstop_gentle[OF inv v e(3) _ _ e(5)]) simp_all
  have "\<forall>w \<in> set us. vstatus (dropActor u st) w \<noteq> Some Completed" using claimed_not_completed[OF inv] e(5) by auto
  then have d: "gentle st (releaseClaims us (dropActor u st))"
    by (intro gentle_trans[OF calm_gentle[of st "dropActor u st"] releaseClaims_gentle]) simp_all
  have g: "gentle st ((putActor u (Attempting 1) st)\<lparr>rs_phase := q\<rparr>)" for q
    by (rule calm_gentle) (simp_all add: calm_def s)
  show "verdict_inv (enterDispatch u us st)" using gentle_verdict[OF v] r d g by (simp add: enterDispatch_def)
  show "verdict_inv (startFault u us st)" using gentle_verdict[OF v r] by (simp add: startFault_def)
qed

lemma actor_gentle: "gentle st (putActor v a st)" "gentle st (dropActor v st)"
  by (simp_all add: calm_gentle)

lemma attemptSettles_verdict:
  assumes inv: "run_inv plan st" and v: "verdict_inv st" and a: "mget (rs_actors st) u = Some (Attempting n)" and g: "freshGate out st"
  shows "verdict_inv (attemptSettles plan b u n out st)"
proof -
  have "freshGate (OutFailed f) st" for f by (simp add: freshGate_def)
  then show ?thesis
    using gentle_verdict[OF v] drop_outcome_gentle[OF inv v a] g actor_gentle
    by (auto simp: attemptSettles_def split: NodeOutcome.split)
qed

lemma retryWakes_verdict:
  assumes inv: "run_inv plan st" and v: "verdict_inv st" and a: "mget (rs_actors st) u = Some (BackingOff n f)"
  shows "verdict_inv (retryWakes b u n f slept st)"
proof -
  have "gentle st ((putActor u x st)\<lparr>rs_lastAttempt := l, rs_nodeDispatches := k\<rparr>)" for x l k
    by (rule calm_gentle) (simp_all add: calm_def)
  then show ?thesis
    using gentle_verdict[OF v] drop_outcome_gentle[OF inv v a, of "OutFailed f"] actor_gentle
    by (simp add: retryWakes_def freshGate_def)
qed

lemma backstop_verdict:
  assumes "run_inv plan st" and "verdict_inv st" and "mget (rs_actors st) u = Some a" "a \<noteq> PinningMedia"
  shows "verdict_inv (settleFailedOrBackstop u f (dropActor u st))"
  using gentle_verdict[OF assms(2) backstop_gentle[OF assms]] by simp

lemma settleFailed_gentle:
  assumes "run_inv plan st" and "verdict_inv st" and "vstatus st u = Some x" and "\<not> SETTLED x"
    and "vertexReady plan (rs_states st) u" and "rs_settled st = None \<or> caused st"
  shows "gentle st (settleFailed u f st)"
  using touches_mild_gentle[OF settleFailed_touches[OF assms(1) sheds_refl assms(3-5)] calm_mild_failed assms(6)]
  by (simp add: settleFailed_def)

lemma recordFailure_gentle: "rs_settled st = None \<or> caused st \<Longrightarrow> gentle st (recordFailure c f st)"
  by (auto simp: gentle_def failure_recordFailure aborted_recordFailure)

lemma failGateResume_gentle:
  assumes inv: "run_inv plan st" and v: "verdict_inv st" and o: "rs_settled st = None \<or> caused st"
  shows "gentle st (failGateResume u f st)"
proof (cases "vstatus st u = Some Paused \<or> vstatus st u = Some Running")
  case True
  then obtain x where x: "vstatus st u = Some x" "\<not> SETTLED x" "active x" by auto
  then show ?thesis
    using settleFailed_gentle[OF inv v x(1,2) run_invD(8)[OF inv x(1,3)] o] True by (simp add: failGateResume_def settleFailed_def)
qed (use recordFailure_gentle[OF o] in \<open>simp add: failGateResume_def\<close>)

lemma requestCancel_verdict: "verdict_inv st \<Longrightarrow> requestCancel st = Inr st' \<Longrightarrow> verdict_inv st'"
  by (auto simp: requestCancel_def verdict_inv_def caused_def split: if_splits)

lemma onRunTimeout_verdict: "verdict_inv st \<Longrightarrow> verdict_inv (onRunTimeout n st)"
  by (auto simp: onRunTimeout_def verdict_inv_def caused_def)

lemma graceLatch_verdict: "verdict_inv st \<Longrightarrow> rs_aborted st \<Longrightarrow> verdict_inv (graceLatch st)"
  by (auto simp: graceLatch_def verdict_inv_def caused_def doomed_def)

lemma onNodeDeadline_verdict:
  assumes inv: "run_inv plan st" and v: "verdict_inv st" and a: "mget (rs_lastAttempt st) u \<noteq> None"
  shows "verdict_inv (onNodeDeadline b u n st)"
proof (cases "rs_settled st \<noteq> None \<or> settledStatus st u \<or> vstatus st u = None")
  case True
  then have "onNodeDeadline b u n st = st \<or> vstatus st u = None" by (auto simp: onNodeDeadline_def)
  moreover have "gentle st (settleFailed u f st)" if "vstatus st u = None" "rs_settled st = None" for f
  proof -
    have "setStatus u Failed (rs_states st) = rs_states st" using that(1) by (simp add: setStatus_def statusOf_def)
    then have "settleFailed u f st = recordFailure (Some u) f st" by (simp add: settleFailed_def putStatus_def)
    then show ?thesis using recordFailure_gentle that(2) by simp
  qed
  ultimately show ?thesis using v gentle_verdict[OF v] by (auto simp: onNodeDeadline_def onOutcome_def)
next
  case False
  then obtain x where x: "vstatus st u = Some x" "\<not> SETTLED x" by (auto simp: settledStatus_iff)
  then show ?thesis
    using False gentle_verdict[OF v settleFailed_gentle[OF inv v x run_invD(7)[OF inv a]]]
    by (simp add: onNodeDeadline_def onOutcome_def)
qed

lemma graceAbandon_verdict:
  assumes inv: "run_inv plan st" and v: "verdict_inv st"
  shows "verdict_inv (graceAbandon u st)"
proof (cases "vstatus st u = Some Running")
  case True
  have "rs_settled st = None \<or> caused st" using open_or_caused[OF v True] by simp
  then have "gentle st (settleFailed u f st)" for f
    using settleFailed_gentle[OF inv v True] run_invD(8)[OF inv True] by simp
  then show ?thesis using gentle_verdict[OF v] v by (simp add: graceAbandon_def)
qed (use v in \<open>simp add: graceAbandon_def\<close>)

lemma graceClose_verdict: "verdict_inv st \<Longrightarrow> rs_noNewDispatch st \<Longrightarrow> verdict_inv (graceClose st)"
  using gentle_verdict[of st "graceClose st"] recordFailure_gentle[of st] by (simp add: graceClose_def verdict_inv_def)

lemma resumeGate_verdict: "verdict_inv st \<Longrightarrow> resumeGate plan g d st = Inr st' \<Longrightarrow> verdict_inv st'"
  using gentle_verdict[OF _ calm_gentle[of st "resolveGate g st"]] by (auto simp: resumeGate_def split: if_splits sum.splits)

lemma gate_open:
  assumes "run_inv plan st" and "verdict_inv st" and "mget (rs_pendingGates st) g = Some gate"
  shows "rs_settled st = None \<or> caused st"
  using parked_open[OF assms(2) gate_facts(1)[OF assms(1,3) refl]] .

lemma gateApplies_verdict:
  assumes inv: "run_inv plan st" and v: "verdict_inv st" and g: "mget (rs_pendingGates st) g = Some gate"
  shows "verdict_inv (gateApplies b g (pg_vertex gate) out st)"
proof (cases "rs_settled st \<noteq> None \<or> rs_cancelling st \<or> rs_aborted st \<or> vstatus st (pg_vertex gate) \<noteq> Some Paused")
  case False
  let ?v = "pg_vertex gate"
  let ?st = "putOutput ?v (Some out) None (dropGate g st)"
  note f = gate_facts[OF inv g refl]
  have "touches plan ?v st ?st" using False putOutput_touches[OF sheds_dropGate[OF g refl] _ _ f(5,6)] by simp
  then have "gentle st ?st"
    using touches_mild_gentle[OF _ mild_putOutput[of st "dropGate g st"]] False by simp
  then have "gentle st (?st\<lparr>rs_workflowStateBytes := n\<rparr>)" for n
    by (rule gentle_trans) (simp add: calm_gentle)
  then show ?thesis using gentle_verdict[OF v] False by (simp add: gateApplies_def Let_def)
qed (use v in \<open>auto simp: gateApplies_def\<close>)

lemma budgetGateDecided_verdict:
  assumes inv: "run_inv plan st" and v: "verdict_inv st" and g: "mget (rs_pendingGates st) g = Some gate"
  shows "verdict_inv (budgetGateDecided g (pg_vertex gate) d st)"
proof -
  let ?v = "pg_vertex gate"
  have drop: "gentle x (dropGate g x)" for x by (rule calm_gentle) simp_all
  have "gentle st (failGateResume ?v f st)" for f using failGateResume_gentle[OF inv v gate_open[OF inv v g]] .
  then have r: "gentle st (dropGate g (failGateResume ?v f st))" for f using gentle_trans drop by blast
  have "gentle st (putStatus ?v Pending st)" if "canAuthorizeBudget st"
  proof -
    have "vstatus st ?v = Some Paused"
      using that v gate_facts(1)[OF inv g refl] by (auto simp: canAuthorizeBudget_def verdict_inv_def caused_def parkedStatus_def)
    then show ?thesis
      using extends_setStatus[of "rs_states st" ?v Paused Pending] by (auto simp: gentle_def runningIds_def)
  qed
  then have "canAuthorizeBudget st \<Longrightarrow> gentle st (dropGate g (putStatus ?v Pending st))" using gentle_trans drop by blast
  then show ?thesis using gentle_verdict[OF v] r drop[of st] by (simp add: budgetGateDecided_def)
qed

lemma failNodeInternal_gentle:
  assumes inv: "run_inv plan st" and v: "verdict_inv st"
  shows "gentle st (failNodeInternal u m st)"
proof (cases "rs_settled st = None")
  case True
  then have "gentle st (failGateResume u f st)" for f using failGateResume_gentle[OF inv v] by blast
  then show ?thesis using True by (auto simp: failNodeInternal_def failGateResume_def Let_def)
next
  case False
  have "gentle st (putStatus u Failed st)" if x: "vstatus st u = Some x" "x = Running \<or> x = Paused" for x
  proof -
    have "caused st" using open_or_caused[OF v x(1)] x(2) False by auto
    then show ?thesis
      using extends_setStatus[OF x(1), of Failed] x by (auto simp: gentle_def runningIds_def)
  qed
  then show ?thesis using False gentle_refl by (auto simp: failNodeInternal_def Let_def)
qed

lemma failGateOnTimeout_verdict:
  assumes inv: "run_inv plan st" and v: "verdict_inv st" and g: "mget (rs_pendingGates st) g = Some gate"
  shows "verdict_inv (failGateOnTimeout g (pg_vertex gate) st)"
proof (cases "rs_settled st \<noteq> None \<or> g \<in> set (rs_resolvedGates st)")
  case False
  let ?v = "pg_vertex gate" and ?st1 = "resolveGate g (dropGate g st)"
  note f = gate_facts[OF inv g refl]
  have c: "calm st ?st1" by simp
  have "gentle st (settleFailed ?v e ?st1)" for e
  proof (cases "vstatus st ?v = Some Paused")
    case True
    have t: "touches plan ?v st (settleFailed ?v e ?st1)"
      using settleFailed_touches[OF inv sheds_resolveGate[OF sheds_dropGate[OF g refl]] True _ f(5)] by simp
    show ?thesis using touches_mild_gentle[OF t calm_mild_failed[OF c]] False by (simp add: settleFailed_def)
  next
    case p: False
    then have x: "vstatus st ?v = Some Failed" using f(1) by (simp add: parkedStatus_def)
    then have "caused st" using v unfolding verdict_inv_def by blast
    moreover have "extends (rs_states st) (setStatus ?v Failed (rs_states st))"
      using x by (auto simp: extends_def mget_setStatus statusOf_def)
    ultimately show ?thesis
      using c x by (auto simp: gentle_def settleFailed_def recordFailure_def caused_def calm_def runningIds_def)
  qed
  then show ?thesis using False g gentle_verdict[OF v] by (simp add: failGateOnTimeout_def)
qed (use v in \<open>auto simp: failGateOnTimeout_def\<close>)

lemma mediaPinned_verdict:
  assumes "run_inv plan st" and "verdict_inv st" and "mget (rs_actors st) u = Some PinningMedia" and "freshGate out st"
  shows "verdict_inv (mediaPinned b u out st)"
  using gentle_verdict[OF assms(2) drop_outcome_gentle[OF assms]] by (simp add: mediaPinned_def)

lemma mediaJobFailed_verdict:
  assumes "run_inv plan st" and "verdict_inv st" and "u \<in> set (rs_pendingMediaJobs st)" and "rs_settled st = None"
  shows "verdict_inv (mediaJobFailed b u f st)"
proof -
  have "mild st (mediaJobFailed b u f st) u" by (simp add: mediaJobFailed_def mild_outcome)
  then have "gentle st (mediaJobFailed b u f st)"
    using touches_mild_gentle[OF mediaJobFailed_touches[OF assms(1,3,4)]] assms(4) by simp
  then show ?thesis using gentle_verdict[OF assms(2)] by blast
qed

lemma mediaPollFault_verdict:
  assumes inv: "run_inv plan st" and v: "verdict_inv st" and u: "u \<in> set (rs_pendingMediaJobs st)"
  shows "verdict_inv (mediaPollFault u st)"
proof (cases "rs_settled st = None")
  case s: True
  have p: "vstatus st u = Some Paused \<or> vstatus st u = Some Failed" using parked_facts(1)[OF inv u] by (simp add: parkedStatus_def)
  let ?st1 = "clearMediaJob u st"
  have st1: "rs_states ?st1 = rs_states st" "rs_settled ?st1 = rs_settled st" by (simp_all add: clearMediaJob_def)
  show ?thesis
  proof (cases "vstatus st u = Some Paused")
    case True
    then have "failNodeInternal u SettlingFailed ?st1 = mediaJobFailed (\<lambda>_. None) u (fatal InternalError SettlingFailed) st"
      using s by (simp add: failNodeInternal_def mediaJobFailed_def onOutcome_def settleFailed_def settledStatus_iff Let_def st1)
    then show ?thesis using mediaJobFailed_verdict[OF inv v u s] s by (simp add: mediaPollFault_def)
  next
    case False
    then have x: "vstatus st u = Some Failed" using p by blast
    have i: "run_inv plan ?st1" using one_vertex_inv[OF inv clearMediaJob_touches[OF inv u x]] by (simp add: clearMediaJob_def)
    have "verdict_inv ?st1" using gentle_verdict[OF v calm_gentle[of st ?st1]] by simp
    then show ?thesis using gentle_verdict failNodeInternal_gentle[OF i] s by (auto simp: mediaPollFault_def)
  qed
qed (use v in \<open>simp add: mediaPollFault_def\<close>)

section \<open>Every reachable state\<close>

definition loop_inv :: "RunPlan \<Rightarrow> RunState \<Rightarrow> bool" where
  "loop_inv plan st \<longleftrightarrow> run_inv plan st \<and> verdict_inv st"

lemma initialRun_inv:
  assumes "map_invar (rp_vertices plan)"
  shows "loop_inv plan (initialRun plan)"
proof -
  have k: "mkeys (pendingStates plan) = mkeys (rp_vertices plan)" by (simp add: pendingStates_def mkeys_def comp_def)
  then have mi: "map_invar (pendingStates plan)" using assms by (simp add: map_invar_keys)
  have p: "x = Pending" if "statusOf (pendingStates plan) v = Some x" for v x
    using that by (auto simp: statusOf_def pendingStates_def dest!: mget_in_set)
  have st: "statusOf (pendingStates plan) v = None \<or> statusOf (pendingStates plan) v = Some Pending" for v
    using p[of v] by (cases "statusOf (pendingStates plan) v") auto
  have "view_ok (initialRun plan) v" for v
    using st[of v] by (auto simp: initialRun_def gatesAt_def holder_ok_def)
  moreover have "legit plan (pendingStates plan)" using p unfolding legit_def by fastforce
  moreover have "runningIds (pendingStates plan) = {}" using p by (force simp: runningIds_def)
  ultimately show ?thesis
    using k mi p by (auto simp: loop_inv_def run_inv_def verdict_inv_def initialRun_def countRunning_card)
qed

lemma apply_event_run_inv:
  assumes inv: "run_inv plan st" and v: "verdict_inv st" and e: "apply_event plan b e st = Some st'"
  shows "run_inv plan st'"
proof -
  have ab: "rs_aborted st \<or> rs_noNewDispatch st \<longrightarrow> doomed st" using v by (auto simp: verdict_inv_def doomed_def caused_def)
  have fl: "vstatus st u = Some Failed \<longrightarrow> doomed st" for u using v by (auto simp: verdict_inv_def doomed_def caused_def)
  have fr: "freshGate (OutFailed f) st" "freshGate (OutCompleted out) st" for f out by (simp_all add: freshGate_def)
  show ?thesis
    using e inv fr
    by (cases e)
      (auto simp: onlyIf_def okState_def stepSkips_inv stepDecide_inv startNext_inv consumerFault_inv enterDispatch_inv
        startFault_inv attemptSettles_inv retryWakes_inv retryEnters_inv dispatchFault_inv onRunTimeout_inv
        onNodeDeadline_inv graceLatch_inv graceAbandon_inv graceClose_def durableFault_def recordFailure_inv
        gateApplies_inv failGateResume_inv budgetGateDecided_inv[OF inv ab _ fl] acknowledgeGate_inv pauseSettles_inv
        pauseFault_def failNodeInternal_inv failGateOnTimeout_inv mediaJobDone_inv mediaPinned_inv mediaJobFailed_inv
        mediaPollFault_inv
        split: if_splits StepPhase.splits list.splits option.splits Actor.splits sum.splits
        intro: requestCancel_inv resumeGate_inv)
qed

lemma apply_event_verdict_inv:
  assumes inv: "run_inv plan st" and v: "verdict_inv st" and e: "apply_event plan b e st = Some st'"
  shows "verdict_inv st'"
proof -
  have fr: "freshGate (OutFailed f) st" "freshGate (OutCompleted out) st" for f out by (simp_all add: freshGate_def)
  have ret: "verdict_inv (retryEnters u n st)" if "mget (rs_actors st) u = Some (Restarting n)" for u n
    using gentle_verdict[OF v] backstop_verdict[OF inv v that] actor_gentle by (simp add: retryEnters_def)
  have flt: "verdict_inv (dispatchFault u st)" if "mget (rs_actors st) u = Some a" "a \<noteq> PinningMedia" for u a
    using backstop_verdict[OF inv v that] by (simp add: dispatchFault_def)
  have rec: "verdict_inv (recordFailure c f st)" if "rs_settled st = None" for c f
    using gentle_verdict[OF v recordFailure_gentle] that by blast
  have pin: "verdict_inv (failGateResume (pg_vertex gate) f st)" if "mget (rs_pendingGates st) g = Some gate" for g gate f
    using gentle_verdict[OF v failGateResume_gentle[OF inv v gate_open[OF inv v that]]] .
  have emit: "verdict_inv (failGateResume u f st)" if "rs_settled st = None" for u f
    using gentle_verdict[OF v failGateResume_gentle[OF inv v]] that by blast
  have calms: "verdict_inv (acknowledgeGate g gate st)" "verdict_inv (pauseSettles st)" "verdict_inv (mediaJobDone u st)" for g gate u
    by (rule gentle_verdict[OF v calm_gentle]; simp)+
  have pf: "verdict_inv (pauseFault u st)" for u
    using gentle_verdict[OF calms(2) failNodeInternal_gentle[OF pauseSettles_inv[OF inv] calms(2)]] by (simp add: pauseFault_def)
  show ?thesis
    using e v inv fr
    by (cases e)
      (auto simp: onlyIf_def okState_def stepSkips_verdict stepDecide_verdict startNext_verdict consumerFault_verdict
        enter_verdict attemptSettles_verdict retryWakes_verdict ret flt onRunTimeout_verdict onNodeDeadline_verdict
        graceLatch_verdict graceAbandon_verdict graceClose_verdict durableFault_def rec gateApplies_verdict pin emit
        budgetGateDecided_verdict calms pf failGateOnTimeout_verdict mediaPinned_verdict mediaJobFailed_verdict
        mediaPollFault_verdict
        split: if_splits StepPhase.splits list.splits option.splits Actor.splits sum.splits
        intro: requestCancel_verdict resumeGate_verdict)
qed

text \<open>The run loop of a plan with distinct vertex ids is an event system with this invariant.\<close>

interpretation run_loop: event_system "initialRun plan" "apply_event plan bytesOf"
    "\<lambda>st. map_invar (rp_vertices plan) \<longrightarrow> loop_inv plan st" for plan bytesOf
proof
  show "map_invar (rp_vertices plan) \<longrightarrow> loop_inv plan (initialRun plan)" using initialRun_inv by blast
  show "map_invar (rp_vertices plan) \<longrightarrow> loop_inv plan st'"
    if "map_invar (rp_vertices plan) \<longrightarrow> loop_inv plan st" "apply_event plan bytesOf e st = Some st'" for st e st'
    using that apply_event_run_inv apply_event_verdict_inv unfolding loop_inv_def by blast
qed

lemma reachable_inv:
  assumes "map_invar (rp_vertices plan)" and "reachable plan bytesOf st"
  shows "run_inv plan st" and "verdict_inv st"
  using assms run_loop.inv_run unfolding reachable_iff_run loop_inv_def by blast+

end
