(* ===== verification/Run_Progress.thy ===== *)
theory Run_Progress
  imports Run_Verdict Plan_Correctness
begin

text \<open>
  Progress of the run loop on the plans the builder returns. The scheduler relies on three laws of a
  plan, stated as the locale \<open>plan_source\<close> and discharged for \<open>buildRunPlan\<close>: the vertex map has
  distinct keys, the order mentions every vertex, and dependencies come first in it. From these, a
  step whose two halves are not separated by another event never declares the run stalled.
\<close>

section \<open>What the scheduler needs of a plan\<close>

text \<open>Work whose end schedules another step.\<close>

definition in_flight :: "RunState \<Rightarrow> bool" where
  "in_flight st \<longleftrightarrow> 0 < countRunning (rs_states st) \<or> 0 < rs_publishingPauses st \<or> rs_pendingGates st \<noteq> [] \<or>
     rs_pendingMediaJobs st \<noteq> []"

locale plan_source =
  fixes accepted :: "RunPlan \<Rightarrow> bool"
  assumes vertices_distinct: "accepted plan \<Longrightarrow> map_invar (rp_vertices plan)"
    and order_complete: "accepted plan \<Longrightarrow> set (rp_order plan) = set (mkeys (rp_vertices plan))"
    and order_topological: "accepted plan \<Longrightarrow> i < length (rp_order plan) \<Longrightarrow>
      mget (rp_vertices plan) (rp_order plan ! i) = Some vertex \<Longrightarrow> set (pv_dependencies vertex) \<subseteq> set (take i (rp_order plan))"
begin

text \<open>The first vertex of the order that has not settled has only settled dependencies.\<close>

lemma first_unsettled:
  assumes a: "accepted plan" and k: "mkeys m = mkeys (rp_vertices plan)" and u: "\<exists>v x. statusOf m v = Some x \<and> \<not> SETTLED x"
  shows "\<exists>v x vertex. v \<in> set (rp_order plan) \<and> statusOf m v = Some x \<and> \<not> SETTLED x \<and>
     mget (rp_vertices plan) v = Some vertex \<and> allDepsSettled m vertex"
proof -
  let ?open = "\<lambda>i. i < length (rp_order plan) \<and> (\<exists>x. statusOf m (rp_order plan ! i) = Some x \<and> \<not> SETTLED x)"
  obtain v x where "statusOf m v = Some x" "\<not> SETTLED x" using u by blast
  moreover then have "v \<in> set (rp_order plan)" using statusOf_key[of m v x] k order_complete[OF a] by simp
  ultimately have "\<exists>i. ?open i" by (auto simp: in_set_conv_nth)
  then have least: "?open (LEAST i. ?open i)" by (rule LeastI_ex)
  define i where "i = (LEAST i. ?open i)"
  obtain x where i: "i < length (rp_order plan)" "statusOf m (rp_order plan ! i) = Some x" "\<not> SETTLED x"
    using least i_def by auto
  have "rp_order plan ! i \<in> set (mkeys (rp_vertices plan))" using statusOf_key[OF i(2)] k by simp
  then obtain vertex where vx: "mget (rp_vertices plan) (rp_order plan ! i) = Some vertex"
    by (cases "mget (rp_vertices plan) (rp_order plan ! i)") (auto simp: mget_None_iff mkeys_def)
  have "\<exists>y. statusOf m dep = Some y \<and> SETTLED y" if d: "dep \<in> set (pv_dependencies vertex)" for dep
  proof -
    have "dep \<in> set (take i (rp_order plan))" using order_topological[OF a i(1) vx] d by blast
    then obtain j where j: "j < i" "rp_order plan ! j = dep" "j < length (rp_order plan)"
      using i(1) by (auto simp: in_set_conv_nth)
    then have "\<not> ?open j" using not_less_Least[of j ?open] unfolding i_def by blast
    moreover obtain y where "statusOf m dep = Some y"
    proof -
      have "dep \<in> set (mkeys m)" using order_complete[OF a] k j by (metis nth_mem)
      then have "mget m dep \<noteq> None" by (simp add: mget_None_iff mkeys_def)
      then show ?thesis using that by (auto simp: statusOf_def)
    qed
    ultimately show ?thesis using j by blast
  qed
  then have "allDepsSettled m vertex" by (simp add: allDepsSettled_iff)
  moreover have "rp_order plan ! i \<in> set (rp_order plan)" using i(1) by simp
  ultimately show ?thesis using i(2,3) vx by blast
qed

text \<open>Unless something is in flight, some vertex can be claimed.\<close>

lemma claimable_exists:
  assumes a: "accepted plan" and inv: "run_inv plan st" and dead: "\<And>v. \<not> deadVertex plan (rs_states st) v"
    and un: "\<not> allSettled (rs_states st)" and run: "countRunning (rs_states st) = 0" and d: "\<not> doomed st"
    and g: "rs_pendingGates st = []" and j: "rs_pendingMediaJobs st = []"
    and pin: "\<And>v. mget (rs_actors st) v \<noteq> Some PinningMedia"
  shows "\<exists>v \<in> set (rp_order plan). claimable plan (rs_states st) v"
proof -
  have "\<exists>v x. vstatus st v = Some x \<and> \<not> SETTLED x"
    using un run_invD(1)[OF inv] by (auto simp: allSettled_iff)
  then obtain v x vertex where v: "v \<in> set (rp_order plan)" "vstatus st v = Some x" "\<not> SETTLED x"
    "mget (rp_vertices plan) v = Some vertex" "allDepsSettled (rs_states st) vertex"
    using first_unsettled[OF a run_invD(6)[OF inv]] by blast
  have "x \<noteq> Running" using running_none[OF run_invD(1)[OF inv] run] v(2) by (auto simp: runningIds_def)
  moreover have "x \<noteq> Paused"
    using run_invD(3)[OF inv, of v] v(2) g j d pin[of v] by (auto simp: holder_ok_def gatesAt_def)
  ultimately have "vstatus st v = Some Pending" using v(2,3) by (cases x) auto
  moreover have "hasLiveEdge plan (rs_states st) vertex"
    using dead[of v] calculation v(4,5) by (auto simp: deadVertex_iff vertexDead_def)
  ultimately have "claimable plan (rs_states st) v" using v(4,5) by (auto simp: claimable_iff vertexReady_def)
  then show ?thesis using v(1) by blast
qed

text \<open>What a decision does: it settles the run, refuses it at the dispatch limit, starts at least one
  vertex, or leaves it because something in flight will schedule the next step.\<close>

lemma decide_progress:
  assumes a: "accepted plan" and cap: "0 < slots plan" and inv: "run_inv plan st" and dead: "\<And>v. \<not> deadVertex plan (rs_states st) v"
    and s: "rs_settled st = None" and pin: "\<And>v. mget (rs_actors st) v \<noteq> Some PinningMedia"
  shows "(in_flight st \<and> rs_failure (stepDecide plan st) = rs_failure st) \<or> rs_settled (stepDecide plan st) \<noteq> None \<or>
     (\<exists>v vs. rs_phase (stepDecide plan st) = StepStart (v # vs)) \<or>
     rs_failure (stepDecide plan st) = Some (None, fatal TurnLimit (DispatchLimit ceil_nodeDispatchesPerRun))"
proof (cases "rs_cancelling st \<or> rs_failure st \<noteq> None \<or> allSettled (rs_states st) \<or> ceil_nodeDispatchesPerRun \<le> rs_nodeDispatches st")
  case True
  then show ?thesis using s by (auto simp: stepDecide_def Let_def settleRun_def in_flight_def)
next
  case False
  let ?st = "st\<lparr>rs_phase := StepIdle\<rparr>"
  let ?headroom = "ceil_nodeDispatchesPerRun - rs_nodeDispatches st"
  obtain ready m where c: "claimReady plan (rs_states st) (countRunning (rs_states st)) ?headroom = (ready, m)"
    by (cases "claimReady plan (rs_states st) (countRunning (rs_states st)) ?headroom")
  have e: "stepDecide plan st = (if ready = [] then handleIdle (countRunning (rs_states st)) ?st
      else (claimedActors ready ?st)\<lparr>rs_states := m, rs_phase := StepStart ready\<rparr>)"
    using False s c by (simp add: stepDecide_def Let_def)
  show ?thesis
  proof (cases "ready = []")
    case ready: True
    have "in_flight st"
    proof (rule ccontr)
      assume n: "\<not> in_flight st"
      have "\<not> doomed st" using False s by (simp add: doomed_def)
      then obtain v where v: "v \<in> set (rp_order plan)" "claimable plan (rs_states st) v"
        using claimable_exists[OF a inv dead _ _ _ _ _ pin] False n by (auto simp: in_flight_def)
      have "countRunning (rs_states st) < slots plan" using n cap by (simp add: in_flight_def)
      then have "ready \<noteq> []"
        using claimLoop_nonempty[OF v(2,1), of "countRunning (rs_states st)" "slots plan" "[]" ?headroom] c False
        by (auto simp: claimReady_def)
      then show False using ready by blast
    qed
    moreover then have "rs_failure (handleIdle (countRunning (rs_states st)) ?st) = rs_failure st"
      by (auto simp: handleIdle_def in_flight_def)
    ultimately show ?thesis using e ready by simp
  next
    case False
    then show ?thesis using e by (cases ready) auto
  qed
qed

end

definition builtPlan :: "RunPlan \<Rightarrow> bool" where
  "builtPlan plan \<longleftrightarrow> (\<exists>reads compile spec opts. distinct (nodeIds spec) \<and> buildRunPlan reads compile spec opts = Inr plan)"


interpretation built: plan_source builtPlan
proof
  fix plan assume "builtPlan plan"
  then obtain reads compile spec opts where d: "distinct (nodeIds spec)" and b: "buildRunPlan reads compile spec opts = Inr plan"
    by (auto simp: builtPlan_def)
  note o = plan_order_facts[OF d b] and m = plan_vertex_map[OF d b]
  show "map_invar (rp_vertices plan)" by (rule m)
  show "set (rp_order plan) = set (mkeys (rp_vertices plan))" using o m(2) by simp
  show "set (pv_dependencies vertex) \<subseteq> set (take i (rp_order plan))"
    if "i < length (rp_order plan)" "mget (rp_vertices plan) (rp_order plan ! i) = Some vertex" for i vertex
    using o that by (metis option.inject)
qed

section \<open>An uninterrupted step\<close>

lemma stepSkips_facts:
  assumes s: "rs_settled st = None"
  shows "\<not> deadVertex plan (rs_states (stepSkips plan False st)) v"
    and "rs_actors (stepSkips plan False st) = rs_actors st" and "rs_settled (stepSkips plan False st) = None"
    and "rs_failure (stepSkips plan False st) = rs_failure st"
proof -
  obtain m' entries where p: "propagateSkips plan (rs_states st) = (m', entries)"
    by (cases "propagateSkips plan (rs_states st)")
  show "\<not> deadVertex plan (rs_states (stepSkips plan False st)) v" "rs_actors (stepSkips plan False st) = rs_actors st"
    "rs_settled (stepSkips plan False st) = None" "rs_failure (stepSkips plan False st) = rs_failure st"
    using propagateSkips_fixpoint[OF p] p s by (simp_all add: stepSkips_def)
qed

lemma uninterrupted_step:
  assumes b: "builtPlan plan" and "0 < slots plan" and r: "reachable plan bytesOf st" and s: "rs_settled st = None"
    and pin: "\<And>v. mget (rs_actors st) v \<noteq> Some PinningMedia"
  defines "st1 \<equiv> stepSkips plan False st"
  shows "(in_flight st1 \<and> rs_failure (stepDecide plan st1) = rs_failure st) \<or> rs_settled (stepDecide plan st1) \<noteq> None \<or>
     (\<exists>v vs. rs_phase (stepDecide plan st1) = StepStart (v # vs)) \<or>
     rs_failure (stepDecide plan st1) = Some (None, fatal TurnLimit (DispatchLimit ceil_nodeDispatchesPerRun))"
proof -
  note f = stepSkips_facts[OF s, of plan, folded st1_def]
  have "run_inv plan st1" using stepSkips_inv[OF reachable_inv(1)[OF built.vertices_distinct[OF b] r]] st1_def by simp
  from built.decide_progress[OF b assms(2) this f(1) f(3)] show ?thesis using f(2,4) pin by simp
qed

section \<open>Bounds on attempts\<close>

definition attempt_ok :: "RunPlan \<Rightarrow> node_id \<Rightarrow> nat \<Rightarrow> bool" where
  "attempt_ok plan v n \<longleftrightarrow> n = 1 \<or> (\<exists>r. vertexRetry plan v = Some r \<and> n \<le> retry_max r)"

fun actor_ok :: "RunPlan \<Rightarrow> node_id \<Rightarrow> Actor \<Rightarrow> bool" where
  "actor_ok plan v (Attempting n) = attempt_ok plan v n"
| "actor_ok plan v (Restarting n) = attempt_ok plan v n"
| "actor_ok plan v (BackingOff n f) = shouldRetry (vertexRetry plan v) f n"
| "actor_ok plan v _ = True"

definition retry_inv :: "RunPlan \<Rightarrow> RunState \<Rightarrow> bool" where
  "retry_inv plan st \<longleftrightarrow>
     (\<forall>v a. mget (rs_actors st) v = Some a \<longrightarrow> actor_ok plan v a) \<and>
     (\<forall>v n. mget (rs_lastAttempt st) v = Some n \<longrightarrow> attempt_ok plan v n)"

lemma shouldRetry_next: "shouldRetry (vertexRetry plan v) f n \<Longrightarrow> attempt_ok plan v (n + 1)"
  by (auto simp: shouldRetry_def attempt_ok_def split: option.splits)

lemma retry_frame:
  assumes "retry_inv plan st" and "\<And>v a. mget (rs_actors st') v = Some a \<Longrightarrow> mget (rs_actors st) v = Some a \<or> actor_ok plan v a"
    and "\<And>v n. mget (rs_lastAttempt st') v = Some n \<Longrightarrow> mget (rs_lastAttempt st) v = Some n \<or> attempt_ok plan v n"
  shows "retry_inv plan st'"
  using assms unfolding retry_inv_def by blast

lemma retry_same:
  "retry_inv plan st \<Longrightarrow> rs_actors st' = rs_actors st \<Longrightarrow> rs_lastAttempt st' = rs_lastAttempt st \<Longrightarrow> retry_inv plan st'"
  by (simp add: retry_inv_def)

lemma retry_drop:
  "retry_inv plan st \<Longrightarrow> rs_actors st' = mdelete v (rs_actors st) \<Longrightarrow> rs_lastAttempt st' = rs_lastAttempt st \<Longrightarrow> retry_inv plan st'"
  by (rule retry_frame[of plan st]) (auto split: if_splits)

lemma fold_release_actors:
  "rs_lastAttempt (fold releaseOne vs st) = rs_lastAttempt st \<and>
   (mget (rs_actors (fold releaseOne vs st)) u = Some a \<longrightarrow> mget (rs_actors st) u = Some a)"
proof (induction vs arbitrary: st)
  case (Cons v vs)
  have "rs_lastAttempt (releaseOne v st) = rs_lastAttempt st" by (simp add: releaseOne_def Let_def)
  then show ?case using Cons[of "releaseOne v st"] by (auto split: if_splits)
qed simp

lemma release_retry: "retry_inv plan st \<Longrightarrow> retry_inv plan (releaseClaims vs st)"
  using fold_release_actors[of vs st] by (auto intro: retry_frame[of plan st] simp: releaseClaims_def)

lemma lastAttempt_settle [simp]:
  "rs_lastAttempt (settleFailed v f st) = rs_lastAttempt st" "rs_actors (settleFailed v f st) = rs_actors st"
  "rs_lastAttempt (settleFailedOrBackstop v f st) = rs_lastAttempt st"
  "rs_lastAttempt (failNodeInternal v m st) = rs_lastAttempt st" "rs_actors (failNodeInternal v m st) = rs_actors st"
  "rs_lastAttempt (failGateResume v f st) = rs_lastAttempt st" "rs_actors (failGateResume v f st) = rs_actors st"
  by (simp_all add: settleFailed_def settleFailedOrBackstop_def failNodeInternal_def failGateResume_def Let_def)

lemma lastAttempt_onOutcome [simp]: "rs_lastAttempt (onOutcome b v out st) = rs_lastAttempt st"
proof -
  have "rs_lastAttempt (settleCompleted b v outp sel st) = rs_lastAttempt st" for outp sel
    using settleCompleted_cases[of b v outp sel st] by auto
  then show ?thesis
    by (simp add: onOutcome_def publishPause_def settleMediaJobParked_def Let_def split: NodeOutcome.split)
qed

lemma stepDecide_retry: "retry_inv plan st \<Longrightarrow> retry_inv plan (stepDecide plan st)"
  by (rule retry_frame[of plan st])
    (auto simp: stepDecide_def Let_def settleRun_def handleIdle_def mget_claimedActors split: if_splits prod.splits)

text \<open>The operations that only drop the dispatch of a vertex, or leave all dispatches alone.\<close>

lemma retry_dispatch:
  assumes i: "retry_inv plan st"
  shows "mget (rs_actors st) v = Some (Attempting n) \<Longrightarrow> retry_inv plan (attemptSettles plan b v n out st)"
    and "mget (rs_actors st) v = Some (BackingOff n f) \<Longrightarrow> retry_inv plan (retryWakes b v n f slept st)"
    and "mget (rs_actors st) v = Some (Restarting n) \<Longrightarrow> retry_inv plan (retryEnters v n st)"
    and "retry_inv plan (dispatchFault v st)"
proof -
  have o: "retry_inv plan (onOutcome b v out' (dropActor v st))" for out' by (rule retry_drop[OF i]) simp_all
  have d: "retry_inv plan (dropActor v st)" by (rule retry_drop[OF i]) simp_all
  have k: "retry_inv plan (settleFailedOrBackstop v e (dropActor v st))" for e by (rule retry_drop[OF i]) simp_all
  have p: "actor_ok plan v a \<Longrightarrow> retry_inv plan (putActor v a st)" for a
    by (rule retry_frame[OF i]) (auto split: if_splits)
  show "retry_inv plan (attemptSettles plan b v n out st)"
    using o p by (auto simp: attemptSettles_def willRetry_def split: NodeOutcome.split)
  show "retry_inv plan (retryWakes b v n f slept st)" if "mget (rs_actors st) v = Some (BackingOff n f)"
  proof -
    have "actor_ok plan v (BackingOff n f)" using i that unfolding retry_inv_def by blast
    then have "attempt_ok plan v (n + 1)" using shouldRetry_next by simp
    then have "retry_inv plan ((putActor v (Restarting (n + 1)) st)\<lparr>
        rs_lastAttempt := mset_key v (n + 1) (rs_lastAttempt st), rs_nodeDispatches := rs_nodeDispatches st + 1\<rparr>)"
      by (intro retry_frame[OF i]) (auto split: if_splits)
    then show ?thesis using o d by (simp add: retryWakes_def)
  qed
  show "retry_inv plan (retryEnters v n st)" if "mget (rs_actors st) v = Some (Restarting n)"
  proof -
    have "actor_ok plan v (Restarting n)" using i that unfolding retry_inv_def by blast
    then show ?thesis using d k p by (simp add: retryEnters_def)
  qed
  show "retry_inv plan (dispatchFault v st)" using k by (simp add: dispatchFault_def)
qed

lemma retry_start:
  assumes i: "retry_inv plan st"
  shows "retry_inv plan (startNext v vs st)" and "retry_inv plan (consumerFault v vs st)"
    and "retry_inv plan (enterDispatch v vs st)" and "retry_inv plan (startFault v vs st)"
proof -
  have k: "retry_inv plan (settleFailedOrBackstop v e st)" for e by (rule retry_same[OF i]) simp_all
  have d: "retry_inv plan (dropActor v st)" "retry_inv plan (settleFailedOrBackstop v e (dropActor v st))" for e
    by (rule retry_drop[OF i]; simp)+
  have one: "attempt_ok plan v 1" "attempt_ok plan v (Suc 0)" by (simp_all add: attempt_ok_def)
  have "retry_inv plan ((putActor v Entering st)\<lparr>rs_nodeDispatches := k, rs_lastAttempt := mset_key v 1 (rs_lastAttempt st), rs_phase := q\<rparr>)" for k q
    by (rule retry_frame[OF i]) (auto simp: one split: if_splits)
  then show "retry_inv plan (startNext v vs st)" using release_retry[OF i] by (simp add: startNext_def)
  show "retry_inv plan (consumerFault v vs st)" using release_retry i k by (simp add: consumerFault_def)
  have "retry_inv plan ((putActor v (Attempting 1) st)\<lparr>rs_phase := q\<rparr>)" for q
    by (rule retry_frame[OF i]) (auto simp: one split: if_splits)
  then show "retry_inv plan (enterDispatch v vs st)" using release_retry d by (simp add: enterDispatch_def)
  show "retry_inv plan (startFault v vs st)" using release_retry d by (simp add: startFault_def)
qed

lemma retry_rest:
  assumes i: "retry_inv plan st"
  shows "requestCancel st = Inr st' \<Longrightarrow> retry_inv plan st'" and "resumeGate plan g d st = Inr st' \<Longrightarrow> retry_inv plan st'"
    and "retry_inv plan (gateApplies b g v out st)" and "retry_inv plan (budgetGateDecided g v d st)"
    and "retry_inv plan (failGateOnTimeout g v st)" and "retry_inv plan (mediaJobDone v st)"
    and "retry_inv plan (mediaPinned b v out' st)" and "retry_inv plan (mediaJobFailed b v f st)"
    and "retry_inv plan (mediaPollFault v st)" and "retry_inv plan (pauseFault v st)"
    and "retry_inv plan (stepSkips plan ckpt st)" and "retry_inv plan (onNodeDeadline b v n st)"
    and "retry_inv plan (graceAbandon v st)" and "retry_inv plan (onRunTimeout n st)" and "retry_inv plan (graceLatch st)"
    and "retry_inv plan (acknowledgeGate g gate st)"
proof -
  note same = retry_same[OF i]
  show "requestCancel st = Inr st' \<Longrightarrow> retry_inv plan st'" by (rule same) (auto simp: requestCancel_def split: if_splits)
  show "resumeGate plan g d st = Inr st' \<Longrightarrow> retry_inv plan st'"
    by (rule same) (auto simp: resumeGate_def resolveGate_def split: if_splits sum.splits)
  show "retry_inv plan (gateApplies b g v out st)" by (rule same) (simp_all add: gateApplies_def dropGate_def Let_def)
  show "retry_inv plan (budgetGateDecided g v d st)" by (rule same) (simp_all add: budgetGateDecided_def dropGate_def)
  show "retry_inv plan (failGateOnTimeout g v st)"
    by (rule same) (simp_all add: failGateOnTimeout_def dropGate_def resolveGate_def)
  show "retry_inv plan (mediaJobDone v st)"
    by (rule retry_frame[OF i]) (auto simp: mediaJobDone_def clearMediaJob_def split: if_splits)
  show "retry_inv plan (mediaPinned b v out' st)" by (rule retry_drop[OF i]) (simp_all add: mediaPinned_def)
  show "retry_inv plan (mediaJobFailed b v f st)" by (rule same) (simp_all add: mediaJobFailed_def clearMediaJob_def)
  show "retry_inv plan (mediaPollFault v st)" by (rule same) (simp_all add: mediaPollFault_def clearMediaJob_def)
  show "retry_inv plan (pauseFault v st)" by (rule same) (simp_all add: pauseFault_def pauseSettles_def)
  show "retry_inv plan (stepSkips plan ckpt st)" by (rule same) (simp_all add: stepSkips_def)
  show "retry_inv plan (onNodeDeadline b v n st)" by (rule same) (simp_all add: onNodeDeadline_def)
  show "retry_inv plan (graceAbandon v st)" by (rule same) (simp_all add: graceAbandon_def)
  show "retry_inv plan (onRunTimeout n st)" by (rule same) (simp_all add: onRunTimeout_def)
  show "retry_inv plan (graceLatch st)" by (rule same) (simp_all add: graceLatch_def)
  show "retry_inv plan (acknowledgeGate g gate st)" by (rule same) (simp_all add: acknowledgeGate_def)
qed

lemma apply_event_retry:
  assumes i: "retry_inv plan st" and e: "apply_event plan b e st = Some st'"
  shows "retry_inv plan st'"
proof -
  have r: "retry_inv plan (recordFailure c f st)" "retry_inv plan (failGateResume v f st)" "retry_inv plan (pauseSettles st)" for c f v
    by (rule retry_same[OF i]; simp add: pauseSettles_def)+
  show ?thesis
    using e by (cases e)
      (auto simp: onlyIf_def okState_def retry_dispatch[OF i] retry_start[OF i] retry_rest(3-)[OF i] stepDecide_retry[OF i]
        graceClose_def durableFault_def r
        split: if_splits StepPhase.splits list.splits option.splits Actor.splits sum.splits intro: retry_rest(1,2)[OF i])
qed

interpretation retries: event_system "initialRun plan" "apply_event plan bytesOf" "retry_inv plan" for plan bytesOf
proof
  show "retry_inv plan (initialRun plan)" by (simp add: retry_inv_def initialRun_def)
qed (rule apply_event_retry)

end
