(* ===== verification/Run_Dispatches.thy ===== *)
theory Run_Dispatches
  imports Run_Progress
begin

text \<open>
  The number of node dispatches of a run. A dispatch is promised before it is counted: by a claim
  that has not started and by a retry that waits out its backoff. Both promises are made only below
  the limit, each by a vertex that occupies one of the parallel slots, so the count can pass the
  limit, but by less than the number of slots.
\<close>

section \<open>Promised dispatches\<close>

fun ticket :: "Actor \<Rightarrow> bool" where
  "ticket Claimed = True"
| "ticket (BackingOff _ _) = True"
| "ticket _ = False"

definition tickets :: "RunState \<Rightarrow> node_id set" where
  "tickets st = {v. \<exists>a. mget (rs_actors st) v = Some a \<and> ticket a}"

definition bound_inv :: "RunPlan \<Rightarrow> RunState \<Rightarrow> bool" where
  "bound_inv plan st \<longleftrightarrow>
     (rs_cancelling st \<longrightarrow> rs_aborted st) \<and> (rs_failure st \<noteq> None \<longrightarrow> rs_aborted st \<or> runningIds (rs_states st) = {}) \<and>
     (\<not> rs_aborted st \<longrightarrow> (\<forall>v a. mget (rs_actors st) v = Some a \<and> a \<noteq> PinningMedia \<longrightarrow> vstatus st v = Some Running)) \<and>
     rs_nodeDispatches st < ceil_nodeDispatchesPerRun + slots plan \<and>
     (\<not> rs_aborted st \<longrightarrow> rs_nodeDispatches st < ceil_nodeDispatchesPerRun \<or>
        rs_nodeDispatches st + card (tickets st) < ceil_nodeDispatchesPerRun + slots plan)"

lemma finite_tickets: "finite (tickets st)"
proof -
  have "v \<in> set (mkeys (rs_actors st))" if "mget (rs_actors st) v = Some a" for v a
    using that mget_None_iff[of "rs_actors st" v] by (cases "v \<in> set (mkeys (rs_actors st))") (auto simp: mkeys_def)
  then have "tickets st \<subseteq> set (mkeys (rs_actors st))" by (auto simp: tickets_def)
  then show ?thesis by (rule finite_subset) simp
qed

text \<open>Steps that promise and count nothing.\<close>

definition tame :: "RunState \<Rightarrow> RunState \<Rightarrow> bool" where
  "tame st st' \<longleftrightarrow>
     (rs_aborted st \<longrightarrow> rs_aborted st') \<and> (rs_cancelling st' \<longrightarrow> rs_cancelling st \<or> rs_aborted st') \<and>
     (rs_failure st' \<noteq> None \<longrightarrow> rs_failure st \<noteq> None \<or> rs_aborted st') \<and>
     runningIds (rs_states st') \<subseteq> runningIds (rs_states st) \<and> rs_nodeDispatches st' = rs_nodeDispatches st \<and>
     (\<forall>u a. mget (rs_actors st') u = Some a \<longrightarrow> a \<noteq> PinningMedia \<longrightarrow>
        (\<exists>a0. mget (rs_actors st) u = Some a0 \<and> a0 \<noteq> PinningMedia \<and> (ticket a \<longrightarrow> ticket a0))) \<and>
     (\<not> rs_aborted st' \<longrightarrow> (\<forall>u a. mget (rs_actors st') u = Some a \<longrightarrow> a \<noteq> PinningMedia \<longrightarrow>
        vstatus st u = Some Running \<longrightarrow> vstatus st' u = Some Running))"

lemma tame_refl: "tame st st"
  by (auto simp: tame_def)

lemma tame_trans:
  assumes ab: "tame a b" and bc: "tame b c"
  shows "tame a c"
proof -
  have 1: "rs_aborted b \<longrightarrow> rs_aborted c" using bc by (simp add: tame_def)
  have 2: "\<exists>a0. mget (rs_actors a) u = Some a0 \<and> a0 \<noteq> PinningMedia \<and> (ticket x \<longrightarrow> ticket a0)"
    if x: "mget (rs_actors c) u = Some x" "x \<noteq> PinningMedia" for u x
  proof -
    obtain y where "mget (rs_actors b) u = Some y" "y \<noteq> PinningMedia" "ticket x \<longrightarrow> ticket y"
      using bc x unfolding tame_def by blast
    then show ?thesis using ab unfolding tame_def by blast
  qed
  have 3: "vstatus c u = Some Running"
    if n: "\<not> rs_aborted c" and x: "mget (rs_actors c) u = Some x" "x \<noteq> PinningMedia" and r: "vstatus a u = Some Running" for u x
  proof -
    obtain y where y: "mget (rs_actors b) u = Some y" "y \<noteq> PinningMedia" using bc x unfolding tame_def by blast
    then have "vstatus b u = Some Running" using ab n 1 r unfolding tame_def by blast
    then show ?thesis using bc n x unfolding tame_def by blast
  qed
  define base where "base = (\<lambda>(s :: RunState) (t :: RunState). (rs_aborted s \<longrightarrow> rs_aborted t) \<and> (rs_cancelling t \<longrightarrow> rs_cancelling s \<or> rs_aborted t) \<and>
     (rs_failure t \<noteq> None \<longrightarrow> rs_failure s \<noteq> None \<or> rs_aborted t) \<and>
     runningIds (rs_states t) \<subseteq> runningIds (rs_states s) \<and> rs_nodeDispatches t = rs_nodeDispatches s)"
  have "base a b" "base b c" using ab bc unfolding tame_def base_def by simp_all
  then have "base a c" unfolding base_def by auto
  then show ?thesis using 2 3 unfolding tame_def base_def by blast
qed

lemma tame_bound:
  assumes i: "bound_inv plan st" and t: "tame st st'"
  shows "bound_inv plan st'"
proof -
  have ab: "rs_aborted st \<longrightarrow> rs_aborted st'" and d: "rs_nodeDispatches st' = rs_nodeDispatches st"
    and run: "runningIds (rs_states st') \<subseteq> runningIds (rs_states st)" using t by (simp_all add: tame_def)
  have "tickets st' \<subseteq> tickets st"
  proof
    fix v assume "v \<in> tickets st'"
    then obtain a where a: "mget (rs_actors st') v = Some a" "ticket a" by (auto simp: tickets_def)
    then have "a \<noteq> PinningMedia" by auto
    then show "v \<in> tickets st" using t a unfolding tame_def tickets_def by blast
  qed
  then have "card (tickets st') \<le> card (tickets st)" by (simp add: card_mono finite_tickets)
  moreover have "vstatus st' v = Some Running"
    if n: "\<not> rs_aborted st'" and a: "mget (rs_actors st') v = Some a" "a \<noteq> PinningMedia" for v a
  proof -
    obtain a0 where "mget (rs_actors st) v = Some a0" "a0 \<noteq> PinningMedia" using t a unfolding tame_def by blast
    then have "vstatus st v = Some Running" using i n ab unfolding bound_inv_def by blast
    then show ?thesis using t n a unfolding tame_def by blast
  qed
  moreover have "rs_cancelling st' \<longrightarrow> rs_aborted st'" using t i ab unfolding tame_def bound_inv_def by blast
  moreover have "rs_failure st' \<noteq> None \<longrightarrow> rs_aborted st' \<or> runningIds (rs_states st') = {}"
    using t i ab run unfolding tame_def bound_inv_def by blast
  moreover have "rs_nodeDispatches st' < ceil_nodeDispatchesPerRun + slots plan" using i d by (simp add: bound_inv_def)
  moreover have "\<not> rs_aborted st' \<longrightarrow> rs_nodeDispatches st' < ceil_nodeDispatchesPerRun \<or>
      rs_nodeDispatches st' + card (tickets st') < ceil_nodeDispatchesPerRun + slots plan"
    using i ab d calculation(1) unfolding bound_inv_def by fastforce
  ultimately show ?thesis unfolding bound_inv_def by blast
qed

section \<open>Tame operations\<close>

definition actors_from :: "RunState \<Rightarrow> RunState \<Rightarrow> bool" where
  "actors_from st st1 \<longleftrightarrow>
     (\<forall>u a. mget (rs_actors st1) u = Some a \<longrightarrow> a = PinningMedia \<or> mget (rs_actors st) u = Some a)"

lemma actors_from_simps [simp]: "actors_from st (dropActor v st)"
  by (auto simp: actors_from_def split: if_splits)

lemma gate_fields [simp]:
  "rs_nodeDispatches (dropGate g st) = rs_nodeDispatches st" "rs_actors (dropGate g st) = rs_actors st"
  "rs_nodeDispatches (resolveGate g st) = rs_nodeDispatches st" "rs_actors (resolveGate g st) = rs_actors st"
  "rs_nodeDispatches (pauseSettles st) = rs_nodeDispatches st" "rs_actors (pauseSettles st) = rs_actors st"
  "rs_nodeDispatches (clearMediaJob v st) = rs_nodeDispatches st" "rs_actors (clearMediaJob v st) = rs_actors st"
  "rs_nodeDispatches (acknowledgeGate g gate st) = rs_nodeDispatches st" "rs_actors (acknowledgeGate g gate st) = rs_actors st"
  by (simp_all add: dropGate_def resolveGate_def pauseSettles_def clearMediaJob_def acknowledgeGate_def)

lemma actors_from_same [simp]: "rs_actors st1 = rs_actors st \<Longrightarrow> actors_from st st1"
  by (simp add: actors_from_def)

lemma tame_quiet:
  assumes "calm st st1" and "rs_nodeDispatches st1 = rs_nodeDispatches st"
    and "actors_from st st1"
  shows "tame st st1"
proof -
  have "\<exists>a0. mget (rs_actors st) u = Some a0 \<and> a0 \<noteq> PinningMedia \<and> (ticket a \<longrightarrow> ticket a0)"
    if "mget (rs_actors st1) u = Some a" "a \<noteq> PinningMedia" for u a using assms(3) that unfolding actors_from_def by blast
  then show ?thesis using assms(1,2) by (simp add: tame_def calm_def)
qed

lemma tame_recordFailure: "tame st st1 \<Longrightarrow> tame st (recordFailure c f st1)"
proof (cases "caused st1")
  case True
  then show "tame st st1 \<Longrightarrow> tame st (recordFailure c f st1)" by (auto simp: recordFailure_def caused_def)
next
  case False
  then have "recordFailure c f st1 = st1\<lparr>rs_failure := Some (c, f), rs_aborted := True\<rparr>"
    by (simp add: recordFailure_def caused_def)
  then show "tame st st1 \<Longrightarrow> tame st (recordFailure c f st1)" by (simp add: tame_def)
qed

text \<open>A status change of a vertex that no dispatch holds any more.\<close>

lemma tame_status:
  assumes t: "tame st st1" and other: "\<And>u. u \<noteq> v \<Longrightarrow> mget (rs_states st') u = mget (rs_states st1) u"
    and v: "vstatus st' v \<noteq> Some Running" "mget (rs_actors st') v = None \<or> mget (rs_actors st') v = Some PinningMedia"
    and f: "rs_actors st' = rs_actors st1" "rs_aborted st' = rs_aborted st1" "rs_failure st' = rs_failure st1"
      "rs_cancelling st' = rs_cancelling st1" "rs_nodeDispatches st' = rs_nodeDispatches st1"
  shows "tame st st'"
proof -
  have st: "vstatus st' u = vstatus st1 u" if "u \<noteq> v" for u using other[OF that] by (simp add: statusOf_def)
  then have "runningIds (rs_states st') \<subseteq> runningIds (rs_states st1)" using v(1) by (force simp: runningIds_def)
  then have run: "runningIds (rs_states st') \<subseteq> runningIds (rs_states st)" using t unfolding tame_def by blast
  have "vstatus st' u = Some Running"
    if "\<not> rs_aborted st'" "mget (rs_actors st') u = Some a" "a \<noteq> PinningMedia" "vstatus st u = Some Running" for u a
  proof -
    have "u \<noteq> v" using that v(2) by auto
    moreover have "vstatus st1 u = Some Running" using t that f unfolding tame_def by metis
    ultimately show ?thesis using st by simp
  qed
  then show ?thesis using t run f unfolding tame_def by simp
qed

text \<open>A failure of a running vertex aborts the run, so what its dispatch still holds is never counted.\<close>

lemma tame_settleFailed:
  assumes i: "bound_inv plan st" and c: "calm st st1" and d: "rs_nodeDispatches st1 = rs_nodeDispatches st"
    and a: "actors_from st st1"
  shows "tame st (settleFailed v f st1)"
proof -
  let ?st' = "settleFailed v f st1"
  have ab: "rs_aborted ?st' \<longleftrightarrow> rs_aborted st \<or> \<not> caused st"
    using c by (simp add: settleFailed_def aborted_recordFailure calm_def caused_def)
  have fl: "rs_failure ?st' = (if caused st then rs_failure st else Some (Some v, f))"
    using c by (simp add: settleFailed_def failure_recordFailure calm_def caused_def)
  have none: "runningIds (rs_states st) = {}" if "\<not> rs_aborted ?st'"
    using that i ab unfolding bound_inv_def caused_def by blast
  have "runningIds (rs_states ?st') \<subseteq> runningIds (rs_states st)"
    using c by (auto simp: settleFailed_def runningIds_def calm_def split: if_splits)
  moreover have "rs_cancelling ?st' = rs_cancelling st" "rs_nodeDispatches ?st' = rs_nodeDispatches st" "rs_actors ?st' = rs_actors st1"
    using c d by (simp_all add: settleFailed_def calm_def)
  moreover have "\<forall>u a. mget (rs_actors st1) u = Some a \<longrightarrow> a \<noteq> PinningMedia \<longrightarrow>
     (\<exists>a0. mget (rs_actors st) u = Some a0 \<and> a0 \<noteq> PinningMedia \<and> (ticket a \<longrightarrow> ticket a0))"
    using a unfolding actors_from_def by blast
  moreover have "vstatus st u \<noteq> Some Running" if "\<not> rs_aborted ?st'" for u using none[OF that] by (auto simp: runningIds_def)
  ultimately show ?thesis using ab fl unfolding tame_def by (simp add: caused_def)
qed

lemma tame_backstop:
  assumes "bound_inv plan st" and "calm st st1" and "rs_nodeDispatches st1 = rs_nodeDispatches st"
    and "actors_from st st1"
  shows "tame st (settleFailedOrBackstop v f st1)"
  using tame_settleFailed[OF assms] tame_quiet[OF assms(2-4)] by (simp add: settleFailedOrBackstop_def)

lemma tame_outcome:
  assumes i: "bound_inv plan st" and c: "calm st st1" and d: "rs_nodeDispatches st1 = rs_nodeDispatches st"
    and a: "actors_from st st1"
    and v: "mget (rs_actors st1) v = None"
  shows "tame st (onOutcome b v out st1)"
proof -
  note q = tame_quiet[OF c d a] and f = tame_settleFailed[OF i c d a, of v]
  have p: "tame st (putOutput v o' sel (st1\<lparr>rs_workflowStateBytes := n\<rparr>))" for o' sel n
  proof (rule tame_status[OF q, where v = v])
    show "vstatus (putOutput v o' sel (st1\<lparr>rs_workflowStateBytes := n\<rparr>)) v \<noteq> Some Running"
      using states_putOutput(3)[of "st1\<lparr>rs_workflowStateBytes := n\<rparr>" v]
      by (cases "vstatus st1 v") (auto simp: putOutput_def statusOf_def split: option.splits)
  qed (use v in \<open>simp_all add: states_putOutput(2)\<close>)
  have "tame st (settleCompleted b v o' sel st1)" for o' sel
    using settleCompleted_cases[of b v o' sel st1] f p by fastforce
  moreover have "tame st (publishPause v g bud st1)" for g bud
    by (rule tame_status[OF q, where v = v]) (use v in \<open>auto simp: publishPause_def mget_setStatus statusOf_def\<close>)
  moreover have "tame st (settleMediaJobParked v st1)"
    by (rule tame_status[OF q, where v = v]) (use v in \<open>auto simp: settleMediaJobParked_def Let_def mget_setStatus statusOf_def\<close>)
  ultimately show ?thesis using q f by (auto simp: onOutcome_def split: NodeOutcome.split)
qed

lemma tame_release: "tame st (releaseClaims vs st)"
proof -
  have one: "tame st (releaseOne v st)" for v st
  proof -
    have q: "tame st (dropActor v st)" by (rule tame_quiet) simp_all
    have "tame st (putStatus v Pending (dropActor v st))"
      by (rule tame_status[OF q, where v = v]) (auto simp: mget_setStatus statusOf_def)
    then show ?thesis using q by (simp add: releaseOne_def Let_def)
  qed
  have "tame st (fold releaseOne vs st)" for vs st
  proof (induction vs arbitrary: st)
    case (Cons v vs)
    then show ?case using tame_trans[OF one[of st v]] by simp
  qed (simp add: tame_refl)
  moreover have "tame st2 (st2\<lparr>rs_phase := StepIdle\<rparr>)" for st2 by (rule tame_quiet) simp_all
  ultimately show ?thesis unfolding releaseClaims_def using tame_trans by blast
qed

section \<open>Every event keeps the bound\<close>

text \<open>A claim promises dispatches only below the limit.\<close>

lemma stepDecide_bound:
  assumes i: "bound_inv plan st" and inv: "run_inv plan st" and s: "rs_settled st = None"
  shows "bound_inv plan (stepDecide plan st)"
proof -
  let ?st = "st\<lparr>rs_phase := StepIdle\<rparr>"
  have i': "bound_inv plan ?st" by (rule tame_bound[OF i tame_quiet]) simp_all
  have settle: "bound_inv plan (settleRun t ?st)" for t
    by (rule tame_bound[OF i']) (auto simp: tame_def settleRun_def)
  have cap: "bound_inv plan (?st\<lparr>rs_failure := Some f, rs_aborted := True\<rparr>)" for f
    by (rule tame_bound[OF i']) (auto simp: tame_def)
  have mi: "map_invar (rs_states ?st)" using run_invD(1)[OF inv] by simp
  have idle: "bound_inv plan (handleIdle (countRunning (rs_states ?st)) ?st)"
    using i' running_none[OF mi] by (auto simp: handleIdle_def bound_inv_def tickets_def)
  then have idle0: "countRunning (rs_states st) = 0 \<Longrightarrow> bound_inv plan (handleIdle 0 ?st)" by simp
  obtain ready m where c: "claimReady plan (rs_states ?st) (countRunning (rs_states ?st))
      (ceil_nodeDispatchesPerRun - rs_nodeDispatches ?st) = (ready, m)"
    by (cases "claimReady plan (rs_states ?st) (countRunning (rs_states ?st)) (ceil_nodeDispatchesPerRun - rs_nodeDispatches ?st)")
  note e = claimReady_effect[OF c mi]
  have claim: "bound_inv plan ((claimedActors ready ?st)\<lparr>rs_states := m, rs_phase := StepStart ready\<rparr>)"
    if "rs_failure ?st = None" "\<not> ceil_nodeDispatchesPerRun \<le> rs_nodeDispatches ?st"
  proof -
    have "statusOf m v = Some Running" if "\<not> rs_aborted st" "mget (rs_actors (claimedActors ready ?st)) v = Some a" "a \<noteq> PinningMedia" for v a
      using that i' e(7)[of v] run_invD(5)[OF inv] by (auto simp: mget_claimedActors bound_inv_def split: if_splits)
    then show ?thesis using i' that by (auto simp: bound_inv_def)
  qed
  have claim': "bound_inv plan ((claimedActors ready ?st)\<lparr>rs_states := m, rs_phase := StepStart ready\<rparr>)"
    if "\<forall>a b. rs_failure st \<noteq> Some (a, b)" "\<not> ceil_nodeDispatchesPerRun \<le> rs_nodeDispatches st"
    using claim that by (cases "rs_failure st") auto
  show ?thesis
    unfolding stepDecide_def Let_def c prod.case
    using settle cap idle idle0 claim' i' s by (simp split: if_split)
qed

text \<open>Counting a promised dispatch: its vertex holds a slot, and the promise is redeemed.\<close>

lemma redeem_bound:
  assumes i: "bound_inv plan st" and inv: "run_inv plan st" and ab: "\<not> rs_aborted st"
    and a: "mget (rs_actors st) v = Some a" "ticket a" and a': "\<not> ticket a'" "a' \<noteq> PinningMedia"
  shows "bound_inv plan ((putActor v a' st)\<lparr>rs_nodeDispatches := rs_nodeDispatches st + 1, rs_lastAttempt := l, rs_phase := p\<rparr>)"
proof -
  let ?st' = "(putActor v a' st)\<lparr>rs_nodeDispatches := rs_nodeDispatches st + 1, rs_lastAttempt := l, rs_phase := p\<rparr>"
  have run: "vstatus st u = Some Running" if "mget (rs_actors st) u = Some x" "x \<noteq> PinningMedia" for u x
    using i ab that unfolding bound_inv_def by blast
  have v: "v \<in> tickets st" using a by (auto simp: tickets_def)
  have sub: "tickets st \<subseteq> runningIds (rs_states st)"
  proof
    fix u assume "u \<in> tickets st"
    then obtain x where "mget (rs_actors st) u = Some x" "ticket x" by (auto simp: tickets_def)
    then show "u \<in> runningIds (rs_states st)" using run[of u x] by (cases x) (auto simp: runningIds_def)
  qed
  have "card (tickets st) \<le> slots plan"
    using card_mono[OF finite_runningIds sub] run_invD(1,5)[OF inv] by (simp add: countRunning_card)
  moreover have "tickets ?st' = tickets st - {v}" using a'(1) by (auto simp: tickets_def)
  moreover have "card (tickets st - {v}) = card (tickets st) - 1" "0 < card (tickets st)"
    using v finite_tickets[of st] by (auto simp: card_gt_0_iff)
  moreover have "vstatus ?st' u = Some Running" if "mget (rs_actors ?st') u = Some x" "x \<noteq> PinningMedia" for u x
    using that run[of u x] run[of v a] a by (cases "u = v"; cases a) auto
  ultimately show ?thesis using i ab unfolding bound_inv_def by auto
qed

lemma bound_dispatch:
  assumes i: "bound_inv plan st" and inv: "run_inv plan st"
  shows "mget (rs_actors st) v = Some (Attempting n) \<Longrightarrow> bound_inv plan (attemptSettles plan b v n out st)"
    and "mget (rs_actors st) v = Some (BackingOff n f) \<Longrightarrow> bound_inv plan (retryWakes b v n f slept st)"
    and "mget (rs_actors st) v = Some (Restarting n) \<Longrightarrow> bound_inv plan (retryEnters v n st)"
    and "bound_inv plan (dispatchFault v st)"
proof -
  have o: "bound_inv plan (onOutcome b v out' (dropActor v st))" for out'
    using tame_bound[OF i tame_outcome[OF i]] by simp
  have d: "bound_inv plan (dropActor v st)" using tame_bound[OF i tame_quiet] by simp
  have k: "bound_inv plan (settleFailedOrBackstop v e (dropActor v st))" for e
    using tame_bound[OF i tame_backstop[OF i]] by simp
  show "bound_inv plan (attemptSettles plan b v n out st)" if h: "mget (rs_actors st) v = Some (Attempting n)"
  proof -
    have "bound_inv plan (putActor v (BackingOff n f) st)" if "rs_nodeDispatches st < ceil_nodeDispatchesPerRun" for f
    proof -
      have "vstatus st u = Some Running" if "\<not> rs_aborted st" "mget (rs_actors (putActor v (BackingOff n f) st)) u = Some x" "x \<noteq> PinningMedia" for u x
        using that i h unfolding bound_inv_def by (cases "u = v") auto
      then show ?thesis using i that unfolding bound_inv_def by auto
    qed
    then show ?thesis using o by (auto simp: attemptSettles_def split: NodeOutcome.split)
  qed
  show "bound_inv plan (retryWakes b v n f slept st)" if h: "mget (rs_actors st) v = Some (BackingOff n f)"
  proof -
    have "bound_inv plan ((putActor v (Restarting (n + 1)) st)\<lparr>rs_lastAttempt := l, rs_nodeDispatches := rs_nodeDispatches st + 1\<rparr>)"
      if "\<not> rs_aborted st" for l
      using redeem_bound[OF i inv that h, where a' = "Restarting (n + 1)" and l = l and p = "rs_phase st"]
      by (simp add: bound_inv_def tickets_def)
    then show ?thesis using o d by (simp add: retryWakes_def)
  qed
  show "bound_inv plan (retryEnters v n st)" if h: "mget (rs_actors st) v = Some (Restarting n)"
  proof -
    have "tame st (putActor v (Attempting n) st)" using h by (auto simp: tame_def)
    then show ?thesis using tame_bound[OF i] d k by (simp add: retryEnters_def)
  qed
  show "bound_inv plan (dispatchFault v st)" using k by (simp add: dispatchFault_def)
qed

lemma bound_start:
  assumes i: "bound_inv plan st" and inv: "run_inv plan st"
  shows "rs_phase st = StepStart (v # vs) \<Longrightarrow> bound_inv plan (startNext v vs st)"
    and "bound_inv plan (consumerFault v vs st)"
    and "rs_phase st = StepEnter v vs \<Longrightarrow> bound_inv plan (enterDispatch v vs st)" and "bound_inv plan (startFault v vs st)"
proof -
  have rel: "bound_inv plan (releaseClaims us st')" if "tame st st'" for us st'
    using tame_bound[OF i tame_trans[OF that tame_release]] .
  have d: "tame st (dropActor v st)" "tame st (settleFailedOrBackstop v e (dropActor v st))" "tame st (settleFailedOrBackstop v e st)" for e
    using tame_quiet tame_backstop[OF i] by simp_all
  show "bound_inv plan (startNext v vs st)" if p: "rs_phase st = StepStart (v # vs)"
  proof -
    have "mget (rs_actors st) v = Some Claimed" using run_invD(4)[OF inv] p by simp
    from redeem_bound[OF i inv _ this, where a' = Entering and l = "mset_key v 1 (rs_lastAttempt st)" and p = "StepEnter v vs"]
    show ?thesis using rel[OF tame_refl] by (simp add: startNext_def)
  qed
  show "bound_inv plan (consumerFault v vs st)" using rel tame_refl d by (simp add: consumerFault_def)
  show "bound_inv plan (enterDispatch v vs st)" if p: "rs_phase st = StepEnter v vs"
  proof -
    have "tame st ((putActor v (Attempting 1) st)\<lparr>rs_phase := q\<rparr>)" for q
      using entering_facts(3)[OF inv p] by (auto simp: tame_def)
    then show ?thesis using rel d tame_bound[OF i] by (simp add: enterDispatch_def)
  qed
  show "bound_inv plan (startFault v vs st)" using rel d by (simp add: startFault_def)
qed

lemma tame_failNodeInternal:
  assumes i: "bound_inv plan st" and c: "calm st st1" and d: "rs_nodeDispatches st1 = rs_nodeDispatches st"
    and a: "actors_from st st1" and r: "rs_settled st \<noteq> None \<Longrightarrow> runningIds (rs_states st) = {}"
  shows "tame st (failNodeInternal v m st1)"
proof (cases "rs_settled st = None")
  case True
  then show ?thesis
    using c tame_settleFailed[OF i c d a, of v] tame_recordFailure[OF tame_quiet[OF c d a]]
    by (simp add: failNodeInternal_def settleFailed_def calm_def Let_def)
next
  case False
  have "tame st (putStatus v Failed st1)"
  proof -
    have "\<forall>u. vstatus st u \<noteq> Some Running" using r[OF False] by (auto simp: runningIds_def)
    moreover have "runningIds (setStatus v Failed (rs_states st)) \<subseteq> runningIds (rs_states st)"
      by (auto simp: runningIds_def split: if_splits)
    ultimately show ?thesis using c d tame_quiet[OF c d a] by (simp add: tame_def calm_def)
  qed
  then show ?thesis using c False tame_quiet[OF c d a] by (auto simp: failNodeInternal_def calm_def Let_def)
qed

lemma bound_rest:
  assumes i: "bound_inv plan st"
  shows "requestCancel st = Inr st' \<Longrightarrow> bound_inv plan st'" and "resumeGate plan g d st = Inr st' \<Longrightarrow> bound_inv plan st'"
    and "bound_inv plan (recordFailure c f st)" and "bound_inv plan (onRunTimeout n st)"
    and "bound_inv plan (onNodeDeadline b v n st)" and "bound_inv plan (graceLatch st)" and "bound_inv plan (graceAbandon v st)"
    and "bound_inv plan (failGateResume v f st)" and "bound_inv plan (acknowledgeGate g gate st)"
    and "bound_inv plan (pauseSettles st)" and "bound_inv plan (mediaJobDone v st)" and "bound_inv plan (stepSkips plan ckpt st)"
    and "bound_inv plan (failGateOnTimeout g v st)"
proof -
  note t = tame_bound[OF i]
  have sf: "tame st (settleFailed v e st)" for e v by (rule tame_settleFailed[OF i]) simp_all
  show "requestCancel st = Inr st' \<Longrightarrow> bound_inv plan st'"
    by (rule t) (auto simp: requestCancel_def tame_def split: if_splits)
  have "bound_inv plan (resolveGate g st)" by (rule t[OF tame_quiet]) simp_all
  then show "resumeGate plan g d st = Inr st' \<Longrightarrow> bound_inv plan st'"
    using i by (auto simp: resumeGate_def split: if_splits sum.splits)
  show "bound_inv plan (recordFailure c f st)" by (rule t[OF tame_recordFailure[OF tame_refl]])
  show "bound_inv plan (onRunTimeout n st)" by (rule t) (auto simp: onRunTimeout_def tame_def)
  show "bound_inv plan (onNodeDeadline b v n st)" using i t[OF sf] by (simp add: onNodeDeadline_def onOutcome_def)
  show "bound_inv plan (graceLatch st)" by (rule t) (auto simp: graceLatch_def tame_def)
  show "bound_inv plan (graceAbandon v st)" using i t[OF sf] by (simp add: graceAbandon_def)
  show "bound_inv plan (failGateResume v f st)"
    using t[OF sf] t[OF tame_recordFailure[OF tame_refl]] by (simp add: failGateResume_def settleFailed_def)
  show "bound_inv plan (acknowledgeGate g gate st)" by (rule t[OF tame_quiet]) simp_all
  show "bound_inv plan (pauseSettles st)" by (rule t[OF tame_quiet]) simp_all
  have "actors_from st (mediaJobDone v st)" by (auto simp: actors_from_def mediaJobDone_def split: if_splits)
  then show "bound_inv plan (mediaJobDone v st)" by (intro t[OF tame_quiet]) (simp_all add: mediaJobDone_def clearMediaJob_def calm_def)
  have "tame st (settleFailed v e (resolveGate g (dropGate g st)))" for e by (rule tame_settleFailed[OF i]) simp_all
  then show "bound_inv plan (failGateOnTimeout g v st)" using i t by (simp add: failGateOnTimeout_def)
  obtain m' entries where p: "propagateSkips plan (rs_states st) = (m', entries)"
    by (cases "propagateSkips plan (rs_states st)")
  have "statusOf m' u = vstatus st u \<or> vstatus st u = Some Pending \<and> statusOf m' u = Some Skipped" for u
    using propagateSkips_fixpoint[OF p] by (simp add: skipsTo_def)
  then have "statusOf m' u = Some Running \<longleftrightarrow> vstatus st u = Some Running" for u by (metis VertexStatus.distinct(1,15) option.inject)
  then show "bound_inv plan (stepSkips plan ckpt st)"
    using p by (intro t) (auto simp: stepSkips_def tame_def runningIds_def)
qed

lemma bound_parked:
  assumes i: "bound_inv plan st" and inv: "run_inv plan st" and v: "verdict_inv st"
  shows "mget (rs_pendingGates st) g = Some gate \<Longrightarrow> bound_inv plan (gateApplies b g (pg_vertex gate) out st)"
    and "mget (rs_pendingGates st) g = Some gate \<Longrightarrow> bound_inv plan (budgetGateDecided g (pg_vertex gate) d st)"
    and "u \<in> set (rs_pendingMediaJobs st) \<Longrightarrow> bound_inv plan (mediaJobFailed b u f st)"
    and "bound_inv plan (mediaPollFault u st)" and "bound_inv plan (pauseFault u st)"
    and "mget (rs_actors st) u = Some PinningMedia \<Longrightarrow> bound_inv plan (mediaPinned b u out' st)"
proof -
  note t = tame_bound[OF i]
  have r: "rs_settled st \<noteq> None \<Longrightarrow> runningIds (rs_states st) = {}" using v by (simp add: verdict_inv_def)
  have dg: "tame st (dropGate g st)" by (rule tame_quiet) simp_all
  show "bound_inv plan (gateApplies b g (pg_vertex gate) out st)" if gt: "mget (rs_pendingGates st) g = Some gate"
  proof -
    let ?st = "putOutput (pg_vertex gate) (Some out) None (dropGate g st)"
    have "vstatus ?st (pg_vertex gate) \<noteq> Some Running"
      using gate_facts(1)[OF inv gt refl] states_putOutput(3)[of "dropGate g st" "pg_vertex gate"]
      by (auto simp: parkedStatus_def dropGate_def)
    then have "tame st ?st"
      using gate_facts(2)[OF inv gt refl] by (intro tame_status[OF dg, where v = "pg_vertex gate"]) (simp_all add: states_putOutput(2))
    moreover have "tame ?st (?st\<lparr>rs_workflowStateBytes := n\<rparr>)" for n by (rule tame_quiet) simp_all
    ultimately have "tame st (?st\<lparr>rs_workflowStateBytes := n\<rparr>)" for n using tame_trans by blast
    then show ?thesis using i t by (simp add: gateApplies_def Let_def)
  qed
  show "bound_inv plan (budgetGateDecided g (pg_vertex gate) d st)" if gt: "mget (rs_pendingGates st) g = Some gate"
  proof -
    have drop: "tame x (dropGate g x)" for x by (rule tame_quiet) simp_all
    have "tame st (putStatus (pg_vertex gate) Pending st)"
      using gate_facts(2)[OF inv gt refl]
      by (intro tame_status[OF tame_refl, where v = "pg_vertex gate"]) (auto simp: mget_setStatus statusOf_def)
    moreover have "tame st (failGateResume (pg_vertex gate) e st)" for e
      using tame_settleFailed[OF i, of st "pg_vertex gate"] tame_recordFailure[OF tame_refl]
      by (simp add: failGateResume_def settleFailed_def)
    ultimately have "tame st (if \<not> canAuthorizeBudget st then st
        else if d = Rejected then failGateResume (pg_vertex gate) (fatal BudgetExceeded BudgetGateRejected) st
        else putStatus (pg_vertex gate) Pending st)" by (simp add: tame_refl)
    from t[OF tame_trans[OF this drop]] show ?thesis unfolding budgetGateDecided_def .
  qed
  show "bound_inv plan (mediaJobFailed b u f st)" if "u \<in> set (rs_pendingMediaJobs st)"
    using t[OF tame_outcome[OF i, of "clearMediaJob u st" u]] parked_facts(2)[OF inv that] by (simp add: mediaJobFailed_def)
  show "bound_inv plan (mediaPollFault u st)"
    using i t[OF tame_failNodeInternal[OF i _ _ _ r]] by (simp add: mediaPollFault_def)
  show "bound_inv plan (pauseFault u st)" using t[OF tame_failNodeInternal[OF i _ _ _ r]] by (simp add: pauseFault_def)
  show "bound_inv plan (mediaPinned b u out' st)"
    using t[OF tame_outcome[OF i, of "dropActor u st" u]] by (simp add: mediaPinned_def)
qed

lemma apply_event_bound:
  assumes i: "bound_inv plan st" and inv: "run_inv plan st" and v: "verdict_inv st" and e: "apply_event plan b e st = Some st'"
  shows "bound_inv plan st'"
proof -
  have s: "rs_phase st = StepDecide \<Longrightarrow> rs_settled st = None" using v by (auto simp: verdict_inv_def)
  show ?thesis
    using e by (cases e)
      (auto simp: onlyIf_def okState_def bound_dispatch[OF i inv] bound_start[OF i inv] bound_rest(3-)[OF i] bound_parked[OF i inv v]
        stepDecide_bound[OF i inv s] graceClose_def durableFault_def
        split: if_splits StepPhase.splits list.splits option.splits Actor.splits sum.splits intro: bound_rest(1,2)[OF i])
qed

interpretation dispatch_limit: event_system "initialRun plan" "apply_event plan bytesOf"
    "\<lambda>st. map_invar (rp_vertices plan) \<longrightarrow> loop_inv plan st \<and> bound_inv plan st" for plan bytesOf
proof
  show "map_invar (rp_vertices plan) \<longrightarrow> loop_inv plan (initialRun plan) \<and> bound_inv plan (initialRun plan)"
    using initialRun_inv[of plan] by (simp add: bound_inv_def initialRun_def ceil_nodeDispatchesPerRun_def)
  show "map_invar (rp_vertices plan) \<longrightarrow> loop_inv plan st' \<and> bound_inv plan st'"
    if "map_invar (rp_vertices plan) \<longrightarrow> loop_inv plan st \<and> bound_inv plan st" "apply_event plan bytesOf e st = Some st'" for st e st'
    using that apply_event_run_inv apply_event_verdict_inv apply_event_bound unfolding loop_inv_def by blast
qed

end
