(* ===== verification/Run_Finality.thy ===== *)
theory Run_Finality
  imports Run_Verdict
begin

text \<open>
  What never changes again: the terminal of a settled run, and the status, output and selected
  branches of a settled vertex. Every event keeps both, so later readers of an output (templates,
  joins, the run result) all see the same value.
\<close>

section \<open>Settled vertices\<close>

lemma settledStatus_False: "\<not> settledStatus st v \<longleftrightarrow> (\<forall>s. mget (rs_states st) v = Some s \<longrightarrow> \<not> SETTLED (vs_status s))"
  by (auto simp: settledStatus_def statusOf_def split: option.splits)

lemma extends_putStatus:
  "\<not> settledStatus st v \<or> vstatus st v = Some x \<Longrightarrow> extends (rs_states st) (rs_states (putStatus v x st))"
  by (auto simp: extends_def putStatus_def mget_setStatus settledStatus_False statusOf_def)

lemma states_unchanged [simp]:
  "rs_states (recordFailure c f st) = rs_states st" "rs_states (settleRun t st) = rs_states st"
  "rs_states (handleIdle n st) = rs_states st" "rs_states (resolveGate g st) = rs_states st"
  "rs_states (dropGate g st) = rs_states st" "rs_states (clearMediaJob v st) = rs_states st"
  "rs_states (pauseSettles st) = rs_states st" "rs_states (onRunTimeout n st) = rs_states st"
  "rs_states (graceLatch st) = rs_states st" "rs_states (acknowledgeGate g gate st) = rs_states st"
  "rs_states (mediaJobDone v st) = rs_states st"
  by (auto simp: recordFailure_def settleRun_def handleIdle_def resolveGate_def dropGate_def clearMediaJob_def
      pauseSettles_def onRunTimeout_def graceLatch_def acknowledgeGate_def mediaJobDone_def)

lemma states_requests:
  "requestCancel st = Inr st' \<Longrightarrow> rs_states st' = rs_states st"
  "resumeGate plan g d st = Inr st' \<Longrightarrow> rs_states st' = rs_states st"
  by (auto simp: requestCancel_def resumeGate_def split: if_splits sum.splits)

lemma extends_settleFailed:
  "\<not> settledStatus st v \<or> vstatus st v = Some Failed \<Longrightarrow> extends (rs_states st) (rs_states (settleFailed v f st))"
  using extends_putStatus[of st v Failed] by (simp add: settleFailed_def)

lemma extends_backstop: "extends (rs_states st) (rs_states (settleFailedOrBackstop v f st))"
  using extends_settleFailed by (simp add: settleFailedOrBackstop_def)

lemma extends_putOutput: "\<not> settledStatus st v \<Longrightarrow> extends (rs_states st) (rs_states (putOutput v out sel st))"
  by (auto simp: extends_def putOutput_def settledStatus_False split: option.splits)

lemma extends_onOutcome: "extends (rs_states st) (rs_states (onOutcome b v out st))"
proof (cases "settledStatus st v")
  case False
  have "settledStatus (st\<lparr>rs_workflowStateBytes := n\<rparr>) v = settledStatus st v" for n by (simp add: settledStatus_def)
  then have "extends (rs_states st) (rs_states (settleCompleted b v o' sel st))" for o' sel
    using settleCompleted_cases[of b v o' sel st] extends_settleFailed[of st v] False
      extends_putOutput[of "st\<lparr>rs_workflowStateBytes := n\<rparr>" v for n] by fastforce
  moreover have "extends (rs_states st) (rs_states (publishPause v g bud st))" for g bud
    using extends_putStatus[of st v Paused] False by (simp add: publishPause_def)
  moreover have "extends (rs_states st) (rs_states (settleMediaJobParked v st))"
    using extends_putStatus[of st v Paused] False by (simp add: settleMediaJobParked_def Let_def)
  ultimately show ?thesis using extends_settleFailed False by (simp add: onOutcome_def split: NodeOutcome.split)
qed (simp add: onOutcome_def)

lemma extends_failGateResume: "extends (rs_states st) (rs_states (failGateResume v f st))"
  using extends_putStatus[of st v Failed] by (auto simp: failGateResume_def settledStatus_def)

lemma extends_failNodeInternal: "extends (rs_states st) (rs_states (failNodeInternal v m st))"
  using extends_putStatus[of st v Failed] by (auto simp: failNodeInternal_def settledStatus_def Let_def)

lemma extends_release: "extends (rs_states st) (rs_states (releaseClaims vs st))"
proof -
  have one: "extends (rs_states st) (rs_states (releaseOne v st))" for v st
    using extends_putStatus[of "dropActor v st" v Pending] by (auto simp: releaseOne_def settledStatus_def Let_def)
  have "extends (rs_states st) (rs_states (fold releaseOne vs st))" for st
    by (induction vs arbitrary: st) (auto intro: extends_trans[OF one])
  then show ?thesis by (simp add: releaseClaims_def)
qed

lemma extends_release_after: "extends (rs_states st) (rs_states st1) \<Longrightarrow> extends (rs_states st) (rs_states (releaseClaims vs st1))"
  using extends_trans extends_release by blast

lemma extends_stepSkips: "extends (rs_states st) (rs_states (stepSkips plan c st))"
proof -
  obtain m' entries where p: "propagateSkips plan (rs_states st) = (m', entries)"
    by (cases "propagateSkips plan (rs_states st)")
  then show ?thesis using propagateSkips_fixpoint[OF p] by (simp add: stepSkips_def skipsTo_def)
qed

lemma extends_stepDecide:
  assumes "run_inv plan st"
  shows "extends (rs_states st) (rs_states (stepDecide plan st))"
proof -
  define running where "running = countRunning (rs_states st)"
  have "extends (rs_states st) m" if "claimReady plan (rs_states st) running headroom = (ready, m)" for headroom ready m
    using claimReady_effect(5)[of plan "rs_states st" headroom] that run_invD(1,5)[OF assms] by (simp add: running_def)
  moreover have "countRunning (rs_states (st\<lparr>rs_phase := StepIdle\<rparr>)) = running" by (simp add: running_def)
  ultimately show ?thesis unfolding stepDecide_def Let_def by (auto split: prod.split)
qed

lemma extends_start:
  "extends (rs_states st) (rs_states (startNext v vs st))" "extends (rs_states st) (rs_states (consumerFault v vs st))"
  "extends (rs_states st) (rs_states (enterDispatch v vs st))" "extends (rs_states st) (rs_states (startFault v vs st))"
proof -
  have d: "extends (rs_states st) (rs_states (settleFailedOrBackstop v f (dropActor v st)))" for f
    using extends_backstop[of "dropActor v st"] by simp
  show "extends (rs_states st) (rs_states (startNext v vs st))"
    using extends_release by (simp add: startNext_def)
  show "extends (rs_states st) (rs_states (consumerFault v vs st))"
    using extends_release extends_release_after[OF extends_backstop] by (simp add: consumerFault_def)
  show "extends (rs_states st) (rs_states (enterDispatch v vs st))"
    using extends_release[of "dropActor v st"] extends_release_after[OF d] by (simp add: enterDispatch_def)
  show "extends (rs_states st) (rs_states (startFault v vs st))"
    using extends_release_after[OF d] by (simp add: startFault_def)
qed

lemma extends_dispatch:
  "extends (rs_states st) (rs_states (attemptSettles plan b v n out st))"
  "extends (rs_states st) (rs_states (retryWakes b v n f slept st))"
  "extends (rs_states st) (rs_states (retryEnters v n st))" "extends (rs_states st) (rs_states (dispatchFault v st))"
  "extends (rs_states st) (rs_states (mediaPinned b v out st))" "extends (rs_states st) (rs_states (mediaJobFailed b v f st))"
  "extends (rs_states st) (rs_states (onNodeDeadline b v n st))" "extends (rs_states st) (rs_states (graceAbandon v st))"
  "extends (rs_states st) (rs_states (mediaPollFault v st))" "extends (rs_states st) (rs_states (pauseFault v st))"
  using extends_onOutcome[of "dropActor v st"] extends_backstop[of "dropActor v st"] extends_onOutcome[of "clearMediaJob v st"]
    extends_onOutcome[of st] extends_settleFailed[of st v] extends_failNodeInternal[of "clearMediaJob v st"]
    extends_failNodeInternal[of "pauseSettles st"]
  by (auto simp: attemptSettles_def retryWakes_def retryEnters_def dispatchFault_def mediaPinned_def mediaJobFailed_def
      onNodeDeadline_def graceAbandon_def mediaPollFault_def pauseFault_def settledStatus_def split: NodeOutcome.split)

lemma extends_gates:
  assumes inv: "run_inv plan st" and v: "verdict_inv st" and g: "mget (rs_pendingGates st) g = Some gate"
  shows "extends (rs_states st) (rs_states (gateApplies b g (pg_vertex gate) out st))"
    and "extends (rs_states st) (rs_states (budgetGateDecided g (pg_vertex gate) d st))"
    and "extends (rs_states st) (rs_states (failGateOnTimeout g (pg_vertex gate) st))"
proof -
  have p: "vstatus st (pg_vertex gate) = Some Paused \<or> vstatus st (pg_vertex gate) = Some Failed"
    using gate_facts(1)[OF inv g refl] by (simp add: parkedStatus_def)
  then have f: "\<not> settledStatus st (pg_vertex gate) \<or> vstatus st (pg_vertex gate) = Some Failed" by (auto simp: settledStatus_def)
  have k: "settledStatus (dropGate g st) v = settledStatus st v" "settledStatus (resolveGate g st) v = settledStatus st v" for v st
    by (simp_all add: settledStatus_def)
  show "extends (rs_states st) (rs_states (gateApplies b g (pg_vertex gate) out st))"
    using extends_putOutput[of "dropGate g st" "pg_vertex gate"] by (auto simp: gateApplies_def Let_def settledStatus_def)
  have "extends (rs_states st) (rs_states (putStatus (pg_vertex gate) Pending st))" if "canAuthorizeBudget st"
    using that p v extends_putStatus[of st "pg_vertex gate" Pending]
    by (auto simp: canAuthorizeBudget_def verdict_inv_def caused_def settledStatus_def)
  then show "extends (rs_states st) (rs_states (budgetGateDecided g (pg_vertex gate) d st))"
    using extends_failGateResume[of st] by (simp add: budgetGateDecided_def)
  show "extends (rs_states st) (rs_states (failGateOnTimeout g (pg_vertex gate) st))"
    using extends_settleFailed[of "resolveGate g (dropGate g st)" "pg_vertex gate"] f k by (simp add: failGateOnTimeout_def)
qed

lemma apply_event_extends:
  assumes inv: "run_inv plan st" and v: "verdict_inv st" and e: "apply_event plan b e st = Some st'"
  shows "extends (rs_states st) (rs_states st')"
proof -
  note gates = extends_gates[OF inv v]
  have "rs_states (graceClose st) = rs_states st" "rs_states (durableFault u st) = rs_states st" for u
    by (simp_all add: graceClose_def durableFault_def)
  then show ?thesis
    using e
    by (cases e)
      (auto simp: onlyIf_def okState_def extends_stepSkips extends_stepDecide[OF inv] extends_start extends_dispatch gates
        extends_failGateResume
        split: if_splits StepPhase.splits list.splits option.splits Actor.splits sum.splits
        dest: states_requests)
qed

section \<open>The terminal\<close>

lemma settled_unchanged [simp]:
  "rs_settled (settleFailed v f st) = rs_settled st" "rs_settled (onOutcome b v out st) = rs_settled st"
  "rs_settled (failGateResume v f st) = rs_settled st" "rs_settled (failNodeInternal v m st) = rs_settled st"
  "rs_settled (resolveGate g st) = rs_settled st" "rs_settled (dropGate g st) = rs_settled st"
  "rs_settled (clearMediaJob v st) = rs_settled st" "rs_settled (pauseSettles st) = rs_settled st"
proof -
  show f: "rs_settled (settleFailed v f st) = rs_settled st" for v f st by (simp add: settleFailed_def)
  have "rs_settled (settleCompleted b v o' sel st) = rs_settled st" for o' sel
    using settleCompleted_cases[of b v o' sel st] f by fastforce
  then show "rs_settled (onOutcome b v out st) = rs_settled st"
    using f by (simp add: onOutcome_def publishPause_def settleMediaJobParked_def Let_def split: NodeOutcome.split)
qed (simp_all add: failGateResume_def failNodeInternal_def resolveGate_def dropGate_def clearMediaJob_def pauseSettles_def Let_def)

lemma settled_operations:
  "rs_settled (attemptSettles plan b v n out st) = rs_settled st" "rs_settled (retryWakes b v n f slept st) = rs_settled st"
  "rs_settled (retryEnters v n st) = rs_settled st" "rs_settled (dispatchFault v st) = rs_settled st"
  "rs_settled (onRunTimeout n st) = rs_settled st" "rs_settled (onNodeDeadline b v n st) = rs_settled st"
  "rs_settled (graceLatch st) = rs_settled st" "rs_settled (graceAbandon v st) = rs_settled st"
  "rs_settled (graceClose st) = rs_settled st" "rs_settled (durableFault w st) = rs_settled st"
  "rs_settled (gateApplies b g v j st) = rs_settled st" "rs_settled (budgetGateDecided g v d st) = rs_settled st"
  "rs_settled (acknowledgeGate g gate st) = rs_settled st" "rs_settled (pauseFault v st) = rs_settled st"
  "rs_settled (failGateOnTimeout g v st) = rs_settled st" "rs_settled (mediaJobDone v st) = rs_settled st"
  "rs_settled (mediaPinned b v out st) = rs_settled st" "rs_settled (mediaJobFailed b v f st) = rs_settled st"
  "rs_settled (mediaPollFault v st) = rs_settled st"
  by (simp_all add: attemptSettles_def retryWakes_def retryEnters_def dispatchFault_def onRunTimeout_def onNodeDeadline_def
      graceLatch_def graceAbandon_def graceClose_def durableFault_def gateApplies_def budgetGateDecided_def
      acknowledgeGate_def pauseFault_def failGateOnTimeout_def mediaJobDone_def mediaPinned_def mediaJobFailed_def
      mediaPollFault_def Let_def split: NodeOutcome.split)

lemma terminal_kept:
  assumes v: "verdict_inv st" and s: "rs_settled st = Some t" and e: "apply_event plan b e st = Some st'"
  shows "rs_settled st' = Some t"
proof -
  have ph: "rs_phase st = StepIdle" using v s by (simp add: verdict_inv_def)
  have rc: "requestCancel st = Inr x \<Longrightarrow> rs_settled x = Some t" "resumeGate plan g d st = Inr x \<Longrightarrow> rs_settled x = Some t" for x g d
    using s by (simp_all add: requestCancel_def resumeGate_def split: if_splits)
  have "rs_settled st' = rs_settled st"
    using e s ph
    by (cases e)
      (auto simp: onlyIf_def okState_def stepSkips_def settled_operations
        split: if_splits option.splits Actor.splits sum.splits dest: rc)
  then show ?thesis using s by simp
qed

text \<open>Both facts along any continuation of a run.\<close>

lemma run_final:
  assumes "map_invar (rp_vertices plan)" and "run_events plan b es st = Some st'" and "reachable plan b st"
  shows "extends (rs_states st) (rs_states st') \<and> (\<forall>t. rs_settled st = Some t \<longrightarrow> rs_settled st' = Some t)"
  using assms(2,3)
proof (induction es arbitrary: st)
  case (Cons e es)
  obtain st1 where s1: "apply_event plan b e st = Some st1" "run_events plan b es st1 = Some st'"
    using Cons.prems(1) by (auto split: option.splits)
  note inv = reachable_inv[OF assms(1) Cons.prems(2)]
  have "reachable plan b st1" using Cons.prems(2) s1(1) by (rule reach_step)
  then show ?case
    using Cons.IH[OF s1(2)] apply_event_extends[OF inv s1(1)] terminal_kept[OF inv(2) _ s1(1)] extends_trans by blast
qed simp

end
