(* ===== verification/Sample_Runs.thy ===== *)
theory Sample_Runs
  imports Sample_Documents Run_Dispatches Run_Finality "HOL-Library.Code_Target_Nat"
begin

text \<open>Concrete plans and event sequences on which the theorems about the run loop are applied.\<close>

definition conditionNode :: "node_id \<Rightarrow> node_id \<Rightarrow> node_id \<Rightarrow> ConditionNode" where
  "conditionNode v yes no = \<lparr>cn_id = v, cn_expression = ''x'',
     cn_branches = [\<lparr>br_when = WhenBool True, br_target = yes\<rparr>], cn_default = Some no, cn_retry = None\<rparr>"

definition transformVertex :: "node_id \<Rightarrow> node_id list \<Rightarrow> node_id list \<Rightarrow> node_id list \<Rightarrow> node_id \<times> PlanVertex" where
  "transformVertex v deps outs ancs =
     (v, \<lparr>pv_id = v, pv_type = ETransform, pv_dependencies = deps, pv_dependents = outs, pv_ancestors = ancs,
          pv_inputSites = [],
          pv_config = TransformConfig \<lparr>tn_id = v, tn_transform = ''1'', tn_output_schema = None, tn_retry = None\<rparr>\<rparr>)"

definition conditionVertex :: "node_id \<Rightarrow> node_id \<Rightarrow> node_id \<Rightarrow> node_id \<times> PlanVertex" where
  "conditionVertex v yes no =
     (v, \<lparr>pv_id = v, pv_type = ECondition, pv_dependencies = [], pv_dependents = [yes, no], pv_ancestors = [],
          pv_inputSites = [], pv_config = ConditionConfig (conditionNode v yes no)\<rparr>)"

text \<open>Two conditions over two chains that wait for each other's branches: \<open>a\<close> needs \<open>d\<close>, \<open>d\<close> needs \<open>e\<close>.\<close>

definition raceSpec :: WorkflowSpec where
  "raceSpec = sampleSpec\<lparr>ws_agents := [],
     ws_nodes := [NCondition (conditionNode ''c1'' ''a'' ''b''), NCondition (conditionNode ''c2'' ''d'' ''e''),
       sampleTransform ''a'', sampleTransform ''b'', sampleTransform ''d'', sampleTransform ''e''],
     ws_edges := [\<lparr>edge_from = ''d'', edge_to = ''a''\<rparr>, \<lparr>edge_from = ''e'', edge_to = ''d''\<rparr>]\<rparr>"

definition racePlan :: RunPlan where
  "racePlan =
     \<lparr>rp_workflowId = ''sample'', rp_order = [''c1'', ''c2'', ''b'', ''e'', ''d'', ''a''],
      rp_vertices = [conditionVertex ''c1'' ''a'' ''b'', conditionVertex ''c2'' ''d'' ''e'',
        transformVertex ''a'' [''c1'', ''d''] [] [''c1'', ''c2'', ''d'', ''e''], transformVertex ''b'' [''c1''] [] [''c1''],
        transformVertex ''d'' [''c2'', ''e''] [''a''] [''c2'', ''e''], transformVertex ''e'' [''c2''] [''d''] [''c2'']],
      rp_maxParallel = None, rp_budget = None, rp_timeoutMs = None\<rparr>"

lemma race_builds: "buildRunPlan noReads compileAll raceSpec sampleOpts = Inr racePlan"
  by code_simp

lemma race_built: "builtPlan racePlan" and race_invar: "map_invar (rp_vertices racePlan)"
proof -
  have "distinct (nodeIds raceSpec)" by code_simp
  then show b: "builtPlan racePlan" unfolding builtPlan_def using race_builds by blast
  show "map_invar (rp_vertices racePlan)" by (rule built.vertices_distinct[OF b])
qed

abbreviation oneByte :: "json \<Rightarrow> nat option" where "oneByte \<equiv> (\<lambda>_. Some 1)"

text \<open>Both conditions are dispatched; the first completes.\<close>

definition openingEvents :: "RunEvent list" where
  "openingEvents = [Tick False, Decide, StartNext, EnterDispatch, StartNext, EnterDispatch,
     AttemptSettles ''c1'' (OutBranch None [''a''])]"

definition openedRun :: RunState where
  "openedRun = the (run_events racePlan oneByte openingEvents (initialRun racePlan))"

lemma opened_run: "run_events racePlan oneByte openingEvents (initialRun racePlan) = Some openedRun"
proof -
  have "run_events racePlan oneByte openingEvents (initialRun racePlan) \<noteq> None" by code_simp
  then show ?thesis by (auto simp: openedRun_def)
qed

lemma opened_reachable: "reachable racePlan oneByte openedRun"
  using reachable_run_events[OF reach_init opened_run] .

definition stallingEvents :: "RunEvent list" where
  "stallingEvents = openingEvents @ [Tick False, AttemptSettles ''c2'' (OutBranch None [''d'']), Decide]"

lemma stalling_run:
  "map_option rs_failure (run_events racePlan oneByte stallingEvents (initialRun racePlan)) =
     Some (Some (None, fatal InternalError RunStalled))"
  by code_simp

text \<open>The same events when the second outcome arrives before the step or after it.\<close>

definition orderlyEvents :: "RunEvent list" where
  "orderlyEvents = openingEvents @ [AttemptSettles ''c2'' (OutBranch None [''d'']), Tick False, Decide]"

lemma orderly_run:
  "map_option (\<lambda>st. (rs_failure st, rs_phase st)) (run_events racePlan oneByte orderlyEvents (initialRun racePlan)) =
     Some (None, StepStart [''d''])"
  by code_simp

text \<open>An agent that parks a media job beside an independent transform.\<close>

definition mediaAgent :: Agent where "mediaAgent = sampleAgent\<lparr>ag_system_prompt := ''Draw''\<rparr>"
definition mediaNode :: AgentNode where "mediaNode = sampleAgentNode\<lparr>an_prompt_template := None\<rparr>"

definition mediaSpec :: WorkflowSpec where
  "mediaSpec = sampleSpec\<lparr>ws_agents := [InlineAgent mediaAgent],
     ws_nodes := [NAgent mediaNode, sampleTransform ''plan''], ws_edges := []\<rparr>"

definition mediaPlan :: RunPlan where
  "mediaPlan =
     \<lparr>rp_workflowId = ''sample'', rp_order = [''draft'', ''plan''],
      rp_vertices = [(''draft'', \<lparr>pv_id = ''draft'', pv_type = EAgent, pv_dependencies = [], pv_dependents = [],
          pv_ancestors = [], pv_inputSites = [], pv_config = AgentConfig mediaNode (Some mediaAgent) None\<rparr>),
        transformVertex ''plan'' [] [] []],
      rp_maxParallel = None, rp_budget = None, rp_timeoutMs = None\<rparr>"

lemma media_builds: "buildRunPlan noReads compileAll mediaSpec sampleOpts = Inr mediaPlan"
  by code_simp

lemma media_built: "builtPlan mediaPlan"
proof -
  have "distinct (nodeIds mediaSpec)" by code_simp
  then show ?thesis unfolding builtPlan_def using media_builds by blast
qed

definition pinningEvents :: "RunEvent list" where
  "pinningEvents = [Tick False, Decide, StartNext, EnterDispatch, StartNext, EnterDispatch,
     AttemptSettles ''draft'' OutMediaJob, MediaJobDone ''draft'', AttemptSettles ''plan'' (OutCompleted None),
     Tick False, Decide]"

lemma pinning_run:
  "map_option (\<lambda>st. (rs_failure st, mget (rs_actors st) ''draft''))
     (run_events mediaPlan oneByte pinningEvents (initialRun mediaPlan)) =
     Some (Some (None, fatal InternalError RunStalled), Some PinningMedia)"
  by code_simp

end
