(* ===== verification/Run_Results.thy ===== *)
theory Run_Results
  imports Sample_Runs
begin

text \<open>
  The properties of the run loop, each about every state a run of a plan can reach: who runs, in which
  order, what the terminal says, what is final, how much is dispatched, and when a step makes
  progress. The last two show schedules on which the loop gives up a run that could go on.
\<close>

section \<open>Scheduling\<close>

lemma claimable_other:
  assumes "statusOf m v = Some Pending" and "u \<noteq> v"
  shows "claimable plan (setStatus v Running m) u = claimable plan m u"
proof -
  have "(case statusOf (setStatus v Running m) dep of None \<Rightarrow> False | Some x \<Rightarrow> SETTLED x) =
      (case statusOf m dep of None \<Rightarrow> False | Some x \<Rightarrow> SETTLED x)" for dep
    using assms(1) by (cases "dep = v") auto
  then have "allDepsSettled (setStatus v Running m) = allDepsSettled m" by (simp add: allDepsSettled_def fun_eq_iff)
  moreover have "liveFrom plan (setStatus v Running m) w dep = liveFrom plan m w dep" for w dep
    using assms(1) by (cases "dep = v") (auto simp: liveFrom_def mget_setStatus statusOf_def)
  then have "liveFrom plan (setStatus v Running m) w = liveFrom plan m w" for w by (rule ext)
  then have "hasLiveEdge plan (setStatus v Running m) = hasLiveEdge plan m"
    by (intro ext) (simp add: hasLiveEdge_def)
  ultimately show ?thesis using assms(2) by (simp add: claimable_def split: option.split)
qed

lemma claimLoop_takes:
  "distinct vs \<Longrightarrow> claimLoop plan cap headroom vs running claimed m =
     (let new = take (min (cap - running) (headroom - length claimed)) (filter (claimable plan m) vs)
      in (claimed @ new, fold (\<lambda>v. setStatus v Running) new m))"
proof (induction plan cap headroom vs running claimed m rule: claimLoop.induct)
  case (2 plan cap headroom v vs running claimed m)
  show ?case
  proof (cases "cap \<le> running \<or> headroom \<le> length claimed")
    case True
    then show ?thesis by auto
  next
    case room: False
    then have k: "min (cap - running) (headroom - length claimed) =
        Suc (min (cap - (running + 1)) (headroom - length (claimed @ [v])))" by auto
    show ?thesis
    proof (cases "claimable plan m v")
      case True
      then have "statusOf m v = Some Pending" by (simp add: claimable_iff)
      then have "filter (claimable plan (setStatus v Running m)) vs = filter (claimable plan m) vs"
        using "2.prems" by (intro filter_cong refl claimable_other) auto
      then show ?thesis using room True k "2.IH"(1)[OF _ True] "2.prems" by (simp add: Let_def)
    qed (use room "2.IH"(2) "2.prems" in \<open>auto simp: Let_def\<close>)
  qed
qed simp

text \<open>The claim of ready vertices, which updates the states while it scans the order, takes
  exactly the first ready vertices of the order as they were before the scan, as many as there are
  free slots and dispatches left.\<close>

theorem claimReady_takes_first_ready:
  assumes "distinct (rp_order plan)"
  shows "claimReady plan m running headroom =
     (let new = take (min (slots plan - running) headroom) (filter (claimable plan m) (rp_order plan))
      in (new, fold (\<lambda>v. setStatus v Running) new m))"
  using claimLoop_takes[OF assms] by (simp add: claimReady_def)

theorem claimReady_takes_first_ready_witness:
  "fst (claimReady racePlan (pendingStates racePlan) 0 500) = [''c1'', ''c2'']"
proof -
  have "distinct (rp_order racePlan)" by code_simp
  moreover have "take (min (slots racePlan - 0) 500) (filter (claimable racePlan (pendingStates racePlan)) (rp_order racePlan)) =
      [''c1'', ''c2'']" by code_simp
  ultimately show ?thesis using claimReady_takes_first_ready[of racePlan] by (simp add: Let_def)
qed

text \<open>What a report of skipped vertices says about the states before and after.\<close>

definition skipLog :: "RunPlan \<Rightarrow> states \<Rightarrow> states \<Rightarrow> skip_log \<Rightarrow> bool" where
  "skipLog plan m m' new \<longleftrightarrow>
     distinct (map fst new) \<and> fst ` set new = pendingIds m - pendingIds m' \<and> pendingIds m' \<subseteq> pendingIds m \<and>
     (\<forall>v. v \<notin> fst ` set new \<longrightarrow> mget m' v = mget m v) \<and> (\<forall>v. v \<in> fst ` set new \<longrightarrow> vertexDead plan m' v) \<and> skipsTo plan m m'"

lemma skipLog_refl: "skipLog plan m m []"
  by (simp add: skipLog_def skipsTo_refl)

lemma skipLogD:
  assumes "skipLog plan m m' new"
  shows "distinct (map fst new)" and "fst ` set new = pendingIds m - pendingIds m'" and "pendingIds m' \<subseteq> pendingIds m"
    and "v \<notin> fst ` set new \<Longrightarrow> mget m' v = mget m v" and "v \<in> fst ` set new \<Longrightarrow> vertexDead plan m' v"
    and "skipsTo plan m m'"
  using assms by (simp_all add: skipLog_def)

lemma skipLog_trans:
  assumes a: "skipLog plan m m1 new" and b: "skipLog plan m1 m2 new'"
  shows "skipLog plan m m2 (new @ new')"
proof -
  note x = skipLogD[OF a] and y = skipLogD[OF b]
  have e: "extends m1 m2" using y(6) by (simp add: skipsTo_def)
  have "vertexDead plan m2 v" if "v \<in> fst ` set (new @ new')" for v
    using that vertexDead_extends[OF e x(5)] y(5) by auto
  moreover have "mget m2 v = mget m v" if "v \<notin> fst ` set (new @ new')" for v
    using that x(4) y(4) by (simp add: image_Un)
  moreover have "fst ` set new \<inter> fst ` set new' = {}" using x(2) y(2) by blast
  then have "distinct (map fst (new @ new'))" using x(1) y(1) by simp
  moreover have "fst ` set (new @ new') = pendingIds m - pendingIds m2" "pendingIds m2 \<subseteq> pendingIds m"
    using x(2,3) y(2,3) unfolding set_append image_Un by blast+
  moreover have "skipsTo plan m m2" using skipsTo_trans[OF x(6) y(6)] .
  ultimately show ?thesis unfolding skipLog_def by blast
qed

lemma skipLog_dead:
  assumes d: "deadVertex plan m v"
  shows "skipLog plan m (setStatus v Skipped m) [(v, r)]"
proof -
  have "vertexDead plan (setStatus v Skipped m) v"
    using d vertexDead_extends[of m "setStatus v Skipped m"] skipsTo_dead[OF d] by (simp add: deadVertex_iff skipsTo_def)
  moreover have "v \<in> pendingIds m" using d by (simp add: pendingIds_def deadVertex_def)
  ultimately show ?thesis using pendingIds_skip[OF d] skipsTo_dead[OF d] by (auto simp: skipLog_def mget_setStatus)
qed

lemma fold_skipVisit_log:
  "fold (skipVisit plan) vs (m, es) = (m', es') \<Longrightarrow> \<exists>new. es' = es @ new \<and> skipLog plan m m' new"
proof (induction vs arbitrary: m es)
  case (Cons v vs)
  show ?case
  proof (cases "deadVertex plan m v")
    case True
    let ?m = "setStatus v Skipped m" and ?e = "(v, skipReason plan (setStatus v Skipped m) (the (mget (rp_vertices plan) v)))"
    obtain new where "es' = (es @ [?e]) @ new" "skipLog plan ?m m' new"
      using Cons.IH[of ?m "es @ [?e]"] Cons.prems True by (auto simp: skipVisit_dead)
    then show ?thesis using skipLog_trans[OF skipLog_dead[OF True]] by fastforce
  qed (use Cons in \<open>simp add: skipVisit_other\<close>)
qed (auto simp: skipLog_refl)

lemma propagateSkips_log: "propagateSkips plan m = (m', es) \<Longrightarrow> skipLog plan m m' es"
proof (induction plan m arbitrary: m' es rule: propagateSkips.induct)
  case (1 plan m)
  obtain m1 new where pass: "skipPass plan m = (m1, new)" by (cases "skipPass plan m")
  then have l: "skipLog plan m m1 new"
    using fold_skipVisit_log[of plan "mkeys m" m "[]" m1 new] by (auto simp: skipPass_def)
  show ?case
  proof (cases new)
    case Nil
    then show ?thesis using "1.prems" pass l by (simp add: propagateSkips_Nil)
  next
    case (Cons p rest)
    obtain m2 es2 where r: "propagateSkips plan m1 = (m2, es2)" by (cases "propagateSkips plan m1")
    have "m2 = m'" "es = new @ es2" using "1.prems" pass Cons r by (simp_all add: propagateSkips_Cons)
    then show ?thesis using skipLog_trans[OF l "1.IH"[OF pass[symmetric] Cons r]] by simp
  qed
qed

text \<open>C15. Skip propagation ends, in a state in which no pending vertex is dead; it skips vertices
  that were pending and dead only, leaves every other vertex alone, and reports each skipped vertex
  once.\<close>

theorem propagateSkips_exact:
  "\<exists>m' entries. propagateSkips plan m = (m', entries) \<and> (\<forall>v. \<not> deadVertex plan m' v) \<and>
     distinct (map fst entries) \<and>
     fst ` set entries = {v. statusOf m v = Some Pending \<and> statusOf m' v = Some Skipped \<and> vertexDead plan m' v} \<and>
     {v. mget m' v \<noteq> mget m v} \<subseteq> fst ` set entries"
proof -
  obtain m' entries where p: "propagateSkips plan m = (m', entries)" by (cases "propagateSkips plan m")
  note f = propagateSkips_fixpoint[OF p] and l = propagateSkips_log[OF p]
  have s: "statusOf m' v = statusOf m v \<or> statusOf m v = Some Pending \<and> statusOf m' v = Some Skipped" for v
    using f by (simp add: skipsTo_def)
  have e: "v \<in> fst ` set entries \<longleftrightarrow> statusOf m v = Some Pending \<and> statusOf m' v = Some Skipped" for v
    using skipLogD(2)[OF l] s[of v] by (auto simp: pendingIds_def)
  then have "fst ` set entries = {v. statusOf m v = Some Pending \<and> statusOf m' v = Some Skipped \<and> vertexDead plan m' v}"
    using skipLogD(5)[OF l] by auto
  moreover have "{v. mget m' v \<noteq> mget m v} \<subseteq> fst ` set entries" using skipLogD(4)[OF l] by blast
  ultimately show ?thesis using p f skipLogD(1)[OF l] by blast
qed

section \<open>Every reachable state\<close>

text \<open>C16. Order of execution: in every state a run can reach, a vertex that was ever started has all
  its dependencies settled and an edge that was taken, and a vertex that was skipped has all its
  dependencies settled and no such edge. The vertices are those of the plan.\<close>

theorem started_after_dependencies:
  assumes "map_invar (rp_vertices plan)" and "reachable plan bytesOf st"
  shows "mkeys (rs_states st) = mkeys (rp_vertices plan) \<and>
    (\<forall>v x. vstatus st v = Some x \<longrightarrow> x \<noteq> Pending \<longrightarrow>
       (\<exists>vertex. mget (rp_vertices plan) v = Some vertex \<and> allDepsSettled (rs_states st) vertex \<and>
          (x = Skipped \<longleftrightarrow> \<not> hasLiveEdge plan (rs_states st) vertex)))"
proof -
  note inv = reachable_inv(1)[OF assms]
  have l: "legit plan (rs_states st)" by (rule run_invD(2)[OF inv])
  have "\<exists>vertex. mget (rp_vertices plan) v = Some vertex \<and> allDepsSettled (rs_states st) vertex \<and>
      (x = Skipped \<longleftrightarrow> \<not> hasLiveEdge plan (rs_states st) vertex)" if x: "vstatus st v = Some x" "x \<noteq> Pending" for v x
  proof (cases "x = Skipped")
    case True
    then show ?thesis using l x(1) unfolding legit_def vertexDead_def by blast
  next
    case False
    then have "active x" using x(2) by (cases x) auto
    then show ?thesis using l x(1) False unfolding legit_def vertexReady_def by blast
  qed
  then show ?thesis using run_invD(6)[OF inv] by blast
qed

theorem started_after_dependencies_witness:
  "mkeys (rs_states openedRun) = [''c1'', ''c2'', ''a'', ''b'', ''d'', ''e''] \<and> vstatus openedRun ''c1'' = Some Completed"
proof -
  have "vstatus openedRun ''c1'' = Some Completed" by code_simp
  moreover have "mkeys (rp_vertices racePlan) = [''c1'', ''c2'', ''a'', ''b'', ''d'', ''e'']" by code_simp
  ultimately show ?thesis using started_after_dependencies[OF race_invar opened_reachable] by simp
qed

text \<open>Parallelism: no reachable state has more running vertices than the plan's \<open>max_parallel\<close>, or the
  default of eight where the plan sets none.\<close>

theorem running_within_slots:
  assumes "map_invar (rp_vertices plan)" and "reachable plan bytesOf st"
  shows "card {v. vstatus st v = Some Running} \<le> (case rp_maxParallel plan of None \<Rightarrow> DEFAULT_MAX_PARALLEL | Some n \<Rightarrow> n)"
  using run_invD(1,5)[OF reachable_inv(1)[OF assms]] by (simp add: countRunning_card runningIds_def slots_def)

theorem running_within_slots_witness:
  "card {v. vstatus openedRun v = Some Running} \<le> DEFAULT_MAX_PARALLEL"
  using running_within_slots[OF race_invar opened_reachable] by (simp add: racePlan_def)



text \<open>C19. Finality: whatever happens after a reachable state, a run that settled keeps its terminal, and
  a vertex that completed, failed or was skipped keeps its status, its output and its selected branches.\<close>

theorem settled_is_final:
  assumes "map_invar (rp_vertices plan)" and "reachable plan bytesOf st" and "run_events plan bytesOf es st = Some st'"
  shows "(\<forall>t. rs_settled st = Some t \<longrightarrow> rs_settled st' = Some t) \<and>
    (\<forall>v s. mget (rs_states st) v = Some s \<longrightarrow> SETTLED (vs_status s) \<longrightarrow> mget (rs_states st') v = Some s)"
  using run_final[OF assms(1,3,2)] unfolding extends_def by blast

theorem settled_is_final_witness:
  "\<exists>st'. run_events racePlan oneByte [Tick False, RunTimesOut 5, Decide] openedRun = Some st' \<and>
     mget (rs_states st') ''c1'' = Some \<lparr>vs_status = Completed, vs_output = None, vs_selected = Some [''a'']\<rparr>"
proof -
  have "run_events racePlan oneByte [Tick False, RunTimesOut 5, Decide] openedRun \<noteq> None"
    "mget (rs_states openedRun) ''c1'' = Some \<lparr>vs_status = Completed, vs_output = None, vs_selected = Some [''a'']\<rparr>"
    by code_simp+
  then show ?thesis using settled_is_final[OF race_invar opened_reachable] by fastforce
qed

text \<open>C20. Retries: an attempt of a vertex beyond the first is made only under a retry policy and at most
  \<open>max\<close> times in all, and a vertex waits for another attempt only after a failure its policy covers.\<close>

theorem attempts_bounded:
  assumes "reachable plan bytesOf st"
  shows "(\<forall>v n. mget (rs_lastAttempt st) v = Some n \<longrightarrow> n = 1 \<or> (\<exists>r. vertexRetry plan v = Some r \<and> n \<le> retry_max r)) \<and>
    (\<forall>v n f. mget (rs_actors st) v = Some (BackingOff n f) \<longrightarrow>
       (\<exists>r. vertexRetry plan v = Some r \<and> n < retry_max r \<and> nf_retryable f \<and>
          nf_code f \<in> set (case retry_on r of None \<Rightarrow> RETRYABLE_ERROR_CODES | Some codes \<Rightarrow> codes)))"
proof -
  have inv: "retry_inv plan st" using assms retries.inv_run unfolding reachable_iff_run by blast
  have "\<exists>r. vertexRetry plan v = Some r \<and> n < retry_max r \<and> nf_retryable f \<and>
          nf_code f \<in> set (case retry_on r of None \<Rightarrow> RETRYABLE_ERROR_CODES | Some codes \<Rightarrow> codes)"
    if "mget (rs_actors st) v = Some (BackingOff n f)" for v n f
  proof -
    have "actor_ok plan v (BackingOff n f)" using inv that unfolding retry_inv_def by blast
    then show ?thesis by (auto simp: shouldRetry_def split: option.splits)
  qed
  moreover have "n = 1 \<or> (\<exists>r. vertexRetry plan v = Some r \<and> n \<le> retry_max r)" if "mget (rs_lastAttempt st) v = Some n" for v n
    using inv that unfolding retry_inv_def attempt_ok_def by blast
  ultimately show ?thesis by blast
qed

theorem attempts_bounded_witness:
  "mget (rs_lastAttempt openedRun) ''c1'' = Some 1 \<and> ((1::nat) = 1 \<or> (\<exists>r. vertexRetry racePlan ''c1'' = Some r))"
proof -
  have "mget (rs_lastAttempt openedRun) ''c1'' = Some 1" by code_simp
  then show ?thesis using attempts_bounded[OF opened_reachable] by blast
qed

text \<open>Backoff: the wait before the next attempt never exceeds one day and never shrinks from one
  attempt to a later one.\<close>

theorem backoff_bounded_monotone:
  "backoffMs retry attempt \<le> backoffMs retry (attempt + k) \<and> backoffMs retry attempt \<le> 24 * 60 * 60 * 1000"
  using backoffMs_mono[of attempt "attempt + k" retry] backoffMs_le[of retry attempt] by (simp add: MAX_NODE_RETRY_BACKOFF_MS_def)

text \<open>C22. The dispatch limit: a run counts fewer dispatches than the limit of 500 plus the number of
  parallel slots; the excess comes from dispatches that were promised below the limit and counted later.\<close>

theorem dispatches_bounded:
  assumes "map_invar (rp_vertices plan)" and "reachable plan bytesOf st"
  shows "rs_nodeDispatches st < 500 + slots plan"
proof -
  have "bound_inv plan st" using assms dispatch_limit.inv_run[of plan bytesOf] unfolding reachable_iff_run by blast
  then show ?thesis by (simp add: bound_inv_def ceil_nodeDispatchesPerRun_def)
qed

theorem dispatches_bounded_witness: "rs_nodeDispatches openedRun < 500 + slots racePlan"
  by (rule dispatches_bounded[OF race_invar opened_reachable])

section \<open>Progress\<close>

text \<open>C23. No stall: on a plan of the builder with at least one slot, a step that is not interrupted
  between skip propagation and its decision settles the run, starts a vertex, refuses the run at the
  dispatch limit, or leaves it to something in flight that will schedule the next step, with no new
  failure. It never declares the run stalled. (No media output is being pinned.)\<close>

theorem uninterrupted_step_progresses:
  assumes "builtPlan plan" and "0 < slots plan" and "reachable plan bytesOf st" and "rs_settled st = None"
    and "\<forall>v. mget (rs_actors st) v \<noteq> Some PinningMedia"
  shows "let st1 = stepSkips plan False st; st2 = stepDecide plan st1 in
     (in_flight st1 \<and> rs_failure st2 = rs_failure st) \<or> rs_settled st2 \<noteq> None \<or>
     (\<exists>v vs. rs_phase st2 = StepStart (v # vs)) \<or>
     rs_failure st2 = Some (None, fatal TurnLimit (DispatchLimit 500))"
  using uninterrupted_step[OF assms(1-4)] assms(5) by (simp add: Let_def ceil_nodeDispatchesPerRun_def)

theorem uninterrupted_step_progresses_witness:
  "let st1 = stepSkips racePlan False (initialRun racePlan); st2 = stepDecide racePlan st1 in
     (in_flight st1 \<and> rs_failure st2 = rs_failure (initialRun racePlan)) \<or> rs_settled st2 \<noteq> None \<or>
     (\<exists>v vs. rs_phase st2 = StepStart (v # vs)) \<or>
     rs_failure st2 = Some (None, fatal TurnLimit (DispatchLimit 500))"
proof -
  have "0 < slots racePlan" by code_simp
  moreover have "rs_settled (initialRun racePlan) = None" "\<forall>v. mget (rs_actors (initialRun racePlan)) v \<noteq> Some PinningMedia"
    by (simp_all add: initialRun_def)
  ultimately show ?thesis using uninterrupted_step_progresses[OF race_built _ reach_init] by blast
qed

text \<open>C24. The hypothesis of C23 is needed. On a plan of the builder, an outcome that arrives while a step
  waits for its skip reports makes that step declare the run stalled; the same outcome one moment
  earlier lets the run continue.\<close>

theorem interrupted_step_stalls:
  "builtPlan racePlan \<and>
   (\<exists>st. reachable racePlan oneByte st \<and>
      map_option rs_failure (run_events racePlan oneByte
        [Tick False, AttemptSettles ''c2'' (OutBranch None [''d'']), Decide] st) = Some (Some (None, fatal InternalError RunStalled)) \<and>
      map_option (\<lambda>st'. (rs_failure st', rs_phase st')) (run_events racePlan oneByte
        [AttemptSettles ''c2'' (OutBranch None [''d'']), Tick False, Decide] st) = Some (None, StepStart [''d'']))"
proof -
  have "map_option rs_failure (run_events racePlan oneByte
        [Tick False, AttemptSettles ''c2'' (OutBranch None [''d'']), Decide] openedRun) = Some (Some (None, fatal InternalError RunStalled))"
    using stalling_run unfolding stallingEvents_def run_from_append opened_run option.case .
  moreover have "map_option (\<lambda>st'. (rs_failure st', rs_phase st')) (run_events racePlan oneByte
        [AttemptSettles ''c2'' (OutBranch None [''d'']), Tick False, Decide] openedRun) = Some (None, StepStart [''d''])"
    using orderly_run unfolding orderlyEvents_def run_from_append opened_run option.case .
  ultimately show ?thesis using race_built opened_reachable by blast
qed

text \<open>C25. A finished media job is cleared before its output is pinned: on a plan of the builder, a sibling
  that completes meanwhile makes the run fail as stalled while the output is still on its way.\<close>

theorem pinning_media_stalls:
  "builtPlan mediaPlan \<and>
   (\<exists>st. reachable mediaPlan oneByte st \<and> rs_failure st = Some (None, fatal InternalError RunStalled) \<and>
      mget (rs_actors st) ''draft'' = Some PinningMedia)"
proof -
  obtain st where st: "run_events mediaPlan oneByte pinningEvents (initialRun mediaPlan) = Some st"
    "rs_failure st = Some (None, fatal InternalError RunStalled)" "mget (rs_actors st) ''draft'' = Some PinningMedia"
    using pinning_run by auto
  then have "reachable mediaPlan oneByte st" using reachable_run_events[OF reach_init] by blast
  then show ?thesis using st media_built by blast
qed

end
