(* ===== verification/Dispatch_Allowance.thy ===== *)
theory Dispatch_Allowance
  imports Relavium_Prelude
begin

text \<open>
  The allowance book of \<open>src/packages/core/src/engine/dispatch-allowance.ts\<close>: the money a human approved for
  one dispatch of a node. An owner admits one provider call at a time, debits its estimate, and
  reconciles the debit with the actual charge.

  A token is an index into the owners ever installed, a debit an index into the debits ever issued.
  The host predicate \<open>isLive\<close> is an argument of the operations that call it: it answers and may re-enter
  the book, so it is a function from the book to an answer and a book; a predicate that throws answers
  \<open>False\<close>. Amounts are the integers the code admits with \<open>Number.isSafeInteger\<close>. The field \<open>ow_charged\<close> is
  an auxiliary variable: the charges reconciled so far; no operation reads it.
\<close>

section \<open>The book\<close>

datatype AllowanceRefusal = OwnerInvalid | InFlight | Exhausted

datatype InvalidDispatchAllowanceError =
    InvalidIdentity | InvalidAmount | InactiveOwner | StaleDispatch | InvalidDebit | InvalidSettlement

record Owner =
  ow_nodeId :: string
  ow_dispatchId :: int
  ow_initial :: int
  ow_remaining :: int
  ow_inFlight :: bool
  ow_closed :: bool
  ow_exhausted :: bool
  ow_charged :: int

record AllowanceDebit =
  db_token :: nat
  db_estimate :: "int option"
  db_settled :: bool

record Book =
  bk_tokens :: "Owner list"
  bk_owners :: "(string, nat) jsmap"
  bk_lastDispatch :: "(string, int) jsmap"
  bk_debits :: "AllowanceDebit list"

type_synonym host = "Book \<Rightarrow> bool \<times> Book"

definition emptyBook :: Book where
  "emptyBook = \<lparr>bk_tokens = [], bk_owners = [], bk_lastDispatch = [], bk_debits = []\<rparr>"

definition updOwner :: "nat \<Rightarrow> (Owner \<Rightarrow> Owner) \<Rightarrow> Book \<Rightarrow> Book" where
  "updOwner t f bk =
     (if t < length (bk_tokens bk) then bk\<lparr>bk_tokens := (bk_tokens bk)[t := f (bk_tokens bk ! t)]\<rparr> else bk)"

definition current :: "Book \<Rightarrow> nat \<Rightarrow> bool" where
  "current bk t \<longleftrightarrow>
     t < length (bk_tokens bk) \<and> \<not> ow_closed (bk_tokens bk ! t) \<and>
     mget (bk_owners bk) (ow_nodeId (bk_tokens bk ! t)) = Some t"

section \<open>Operations\<close>

definition staleDispatch :: "Book \<Rightarrow> string \<Rightarrow> int \<Rightarrow> bool" where
  "staleDispatch bk nodeId dispatchId =
     (case mget (bk_lastDispatch bk) nodeId of None \<Rightarrow> False | Some n \<Rightarrow> dispatchId \<le> n)"

definition install :: "string \<Rightarrow> int \<Rightarrow> int \<Rightarrow> Book \<Rightarrow> nat \<times> Book" where
  "install nodeId dispatchId amount bk =
     (let token = length (bk_tokens bk);
          bk1 = (case mget (bk_owners bk) nodeId of
                   None \<Rightarrow> bk | Some prior \<Rightarrow> updOwner prior (\<lambda>w. w\<lparr>ow_closed := True\<rparr>) bk)
      in (token, bk1\<lparr>
        bk_tokens := bk_tokens bk1 @ [\<lparr>ow_nodeId = nodeId, ow_dispatchId = dispatchId, ow_initial = amount,
          ow_remaining = amount, ow_inFlight = False, ow_closed = False, ow_exhausted = False, ow_charged = 0\<rparr>],
        bk_owners := mset_key nodeId token (bk_owners bk1),
        bk_lastDispatch := mset_key nodeId dispatchId (bk_lastDispatch bk1)\<rparr>))"

definition activate ::
    "string \<Rightarrow> int \<Rightarrow> int \<Rightarrow> host \<Rightarrow> Book \<Rightarrow> (InvalidDispatchAllowanceError + nat) \<times> Book" where
  "activate nodeId dispatchId amount isLive bk =
     (if nodeId = [] \<or> \<not> isSafeInteger dispatchId \<or> dispatchId < 0 then (Inl InvalidIdentity, bk)
      else if \<not> isSafeInteger amount \<or> amount < 0 then (Inl InvalidAmount, bk)
      else if staleDispatch bk nodeId dispatchId then (Inl StaleDispatch, bk)
      else case isLive bk of (live, bk1) \<Rightarrow>
        if \<not> live then (Inl InactiveOwner, bk1)
        else if staleDispatch bk1 nodeId dispatchId then (Inl StaleDispatch, bk1)
        else case install nodeId dispatchId amount bk1 of (token, bk2) \<Rightarrow> (Inr token, bk2))"

definition closeAllowance :: "nat \<Rightarrow> Book \<Rightarrow> Book" where
  "closeAllowance token bk = updOwner token (\<lambda>w. w\<lparr>ow_closed := True\<rparr>) bk"

definition exhaust :: "nat \<Rightarrow> Book \<Rightarrow> Book" where
  "exhaust token bk = (if current bk token then updOwner token (\<lambda>w. w\<lparr>ow_exhausted := True\<rparr>) bk else bk)"

definition validateLive :: "nat \<Rightarrow> bool \<Rightarrow> host \<Rightarrow> Book \<Rightarrow> AllowanceRefusal option \<times> Book" where
  "validateLive token alreadyAdmitted isLive bk =
     (if \<not> current bk token then (Some OwnerInvalid, bk)
      else case isLive bk of (live, bk1) \<Rightarrow>
        if \<not> live \<or> \<not> current bk1 token then (Some OwnerInvalid, closeAllowance token bk1)
        else let o1 = bk_tokens bk1 ! token
             in (if ow_exhausted o1 then Some Exhausted
                 else if ow_inFlight o1 \<and> \<not> alreadyAdmitted then Some InFlight else None, bk1))"

datatype AllowanceAcquisition = Admitted nat | Refused AllowanceRefusal

definition acquire ::
    "nat \<Rightarrow> int option \<Rightarrow> Book \<Rightarrow> (InvalidDispatchAllowanceError + AllowanceAcquisition) \<times> Book" where
  "acquire token estimate bk =
     (if \<not> current bk token then (Inr (Refused OwnerInvalid), bk)
      else let owner = bk_tokens bk ! token in
        if ow_exhausted owner then (Inr (Refused Exhausted), bk)
        else if ow_inFlight owner then (Inr (Refused InFlight), bk)
        else if (case estimate of None \<Rightarrow> False | Some e \<Rightarrow> \<not> isSafeInteger e \<or> e < 0) then (Inl InvalidDebit, bk)
        else if (case estimate of None \<Rightarrow> False | Some e \<Rightarrow> ow_remaining owner < e)
        then (Inr (Refused Exhausted), updOwner token (\<lambda>w. w\<lparr>ow_exhausted := True\<rparr>) bk)
        else (Inr (Admitted (length (bk_debits bk))),
          (updOwner token (\<lambda>w. w\<lparr>ow_inFlight := True,
             ow_remaining := ow_remaining w - (case estimate of None \<Rightarrow> 0 | Some e \<Rightarrow> e)\<rparr>) bk)\<lparr>
             bk_debits := bk_debits bk @ [\<lparr>db_token = token, db_estimate = estimate, db_settled = False\<rparr>]\<rparr>))"

text \<open>The reconciliation of one debit with an actual charge, on the owner that issued it.\<close>

definition reconcile :: "int \<Rightarrow> int option \<Rightarrow> bool \<Rightarrow> Owner \<Rightarrow> Owner" where
  "reconcile estimatedDebit actual released owner =
     (let charge = (if released then 0 else case actual of None \<Rightarrow> estimatedDebit | Some a \<Rightarrow> a);
          delta = charge - estimatedDebit;
          o1 = (if delta < 0 then owner\<lparr>ow_remaining := ow_remaining owner + (- delta)\<rparr>
                else if 0 < delta
                then (if ow_remaining owner \<le> delta then owner\<lparr>ow_remaining := 0, ow_exhausted := True\<rparr>
                      else owner\<lparr>ow_remaining := ow_remaining owner - delta\<rparr>)
                else owner);
          o2 = (if 0 < ow_initial o1 \<and> ow_remaining o1 = 0 then o1\<lparr>ow_exhausted := True\<rparr> else o1)
      in o2\<lparr>ow_charged := ow_charged o2 + charge\<rparr>)"

definition markSettled :: "nat \<Rightarrow> Book \<Rightarrow> Book" where
  "markSettled i bk = bk\<lparr>bk_debits := (bk_debits bk)[i := (bk_debits bk ! i)\<lparr>db_settled := True\<rparr>]\<rparr>"

definition freeSlot :: "nat \<Rightarrow> Book \<Rightarrow> Book" where
  "freeSlot token bk = updOwner token (\<lambda>w. w\<lparr>ow_inFlight := False\<rparr>) bk"

text \<open>\<open>finish\<close>: the slot stays held through the predicate and the reconciliation.\<close>

definition finishDebit ::
    "nat \<Rightarrow> int option \<Rightarrow> bool \<Rightarrow> host \<Rightarrow> Book \<Rightarrow> InvalidDispatchAllowanceError option \<times> Book" where
  "finishDebit i actual released isLive bk =
     (let debit = bk_debits bk ! i; token = db_token debit in
      if db_settled debit then (None, bk)
      else if (case actual of None \<Rightarrow> False | Some a \<Rightarrow> \<not> isSafeInteger a \<or> a < 0) then (Some InvalidSettlement, bk)
      else let bk1 = markSettled i bk in
        if \<not> current bk1 token then (None, freeSlot token bk1)
        else case isLive bk1 of (live, bk2) \<Rightarrow>
          if \<not> live \<or> \<not> current bk2 token then (None, freeSlot token (closeAllowance token bk2))
          else (None, freeSlot token
            (updOwner token (reconcile (case db_estimate debit of None \<Rightarrow> 0 | Some e \<Rightarrow> e) actual released) bk2)))"

section \<open>Calls\<close>

text \<open>A call of an operation with the answer of the predicate and the calls the predicate makes.\<close>

datatype BookOp =
    Activate string int int
  | Close nat
  | Exhaust nat
  | ValidateLive nat bool
  | Acquire nat "int option"
  | Settle nat int
  | Release nat
  | Retain nat

datatype Call = Call BookOp bool "Call list"

fun bookStep :: "BookOp \<Rightarrow> host \<Rightarrow> Book \<Rightarrow> Book" where
  "bookStep (Activate nodeId dispatchId amount) isLive bk = snd (activate nodeId dispatchId amount isLive bk)"
| "bookStep (Close token) isLive bk = closeAllowance token bk"
| "bookStep (Exhaust token) isLive bk = exhaust token bk"
| "bookStep (ValidateLive token admitted) isLive bk = snd (validateLive token admitted isLive bk)"
| "bookStep (Acquire token estimate) isLive bk = snd (acquire token estimate bk)"
| "bookStep (Settle i actual) isLive bk =
     (if i < length (bk_debits bk) then snd (finishDebit i (Some actual) False isLive bk) else bk)"
| "bookStep (Release i) isLive bk = (if i < length (bk_debits bk) then snd (finishDebit i None True isLive bk) else bk)"
| "bookStep (Retain i) isLive bk = (if i < length (bk_debits bk) then snd (finishDebit i None False isLive bk) else bk)"

fun perform :: "Call \<Rightarrow> Book \<Rightarrow> Book" and performAll :: "Call list \<Rightarrow> Book \<Rightarrow> Book" where
  "perform (Call oper answer nested) bk = bookStep oper (\<lambda>b. (answer, performAll nested b)) bk"
| "performAll [] bk = bk"
| "performAll (c # cs) bk = performAll cs (perform c bk)"

section \<open>The invariant\<close>

text \<open>The debits of a token that were not settled, and what they hold of its allowance.\<close>

definition openDebits :: "Book \<Rightarrow> nat \<Rightarrow> AllowanceDebit list" where
  "openDebits bk t = filter (\<lambda>d. db_token d = t \<and> \<not> db_settled d) (bk_debits bk)"

definition debitAmount :: "AllowanceDebit \<Rightarrow> int" where
  "debitAmount d = (case db_estimate d of None \<Rightarrow> 0 | Some e \<Rightarrow> e)"

definition held :: "Book \<Rightarrow> nat \<Rightarrow> int" where
  "held bk t = sum_list (map debitAmount (openDebits bk t))"

abbreviation owner :: "Book \<Rightarrow> nat \<Rightarrow> Owner" where "owner bk t \<equiv> bk_tokens bk ! t"

text \<open>A settling owner holds its slot for a debit that is already marked settled.\<close>

definition settling :: "Book \<Rightarrow> nat \<Rightarrow> bool" where
  "settling bk t \<longleftrightarrow> ow_inFlight (owner bk t) \<and> openDebits bk t = []"

definition account_ok :: "Owner \<Rightarrow> AllowanceDebit list \<Rightarrow> bool" where
  "account_ok w ds \<longleftrightarrow>
     0 \<le> ow_initial w \<and> 0 \<le> ow_remaining w \<and> length ds \<le> 1 \<and> (ds \<noteq> [] \<longrightarrow> ow_inFlight w) \<and>
     (ow_closed w \<or> ow_exhausted w \<or> (ow_inFlight w \<and> ds = []) \<or>
      ow_remaining w + sum_list (map debitAmount ds) + ow_charged w = ow_initial w)"

text \<open>An owner that is not closed is the current owner of its node.\<close>

definition linked :: "(string, nat) jsmap \<Rightarrow> Owner \<Rightarrow> nat \<Rightarrow> bool" where
  "linked owners w t \<longleftrightarrow> ow_closed w \<or> mget owners (ow_nodeId w) = Some t"

definition book_inv :: "Book \<Rightarrow> bool" where
  "book_inv bk \<longleftrightarrow>
     (\<forall>t < length (bk_tokens bk). account_ok (owner bk t) (openDebits bk t) \<and> linked (bk_owners bk) (owner bk t) t) \<and>
     (\<forall>d \<in> set (bk_debits bk). db_token d < length (bk_tokens bk) \<and> 0 \<le> debitAmount d)"

text \<open>What any sequence of calls leaves alone: identities, settled debits, and the money of an owner that
  is settling.\<close>

definition keeps :: "Book \<Rightarrow> Book \<Rightarrow> nat \<Rightarrow> bool" where
  "keeps bk bk' t \<longleftrightarrow>
     ow_initial (owner bk' t) = ow_initial (owner bk t) \<and> (settling bk' t \<longleftrightarrow> settling bk t) \<and>
     (settling bk t \<longrightarrow> ow_remaining (owner bk' t) = ow_remaining (owner bk t) \<and>
        ow_charged (owner bk' t) = ow_charged (owner bk t)) \<and>
     (ow_closed (owner bk t) \<longrightarrow> ow_closed (owner bk' t)) \<and> (ow_exhausted (owner bk t) \<longrightarrow> ow_exhausted (owner bk' t))"

definition evolves :: "Book \<Rightarrow> Book \<Rightarrow> bool" where
  "evolves bk bk' \<longleftrightarrow>
     length (bk_tokens bk) \<le> length (bk_tokens bk') \<and> (\<forall>t < length (bk_tokens bk). keeps bk bk' t) \<and>
     (\<forall>t. length (bk_tokens bk) \<le> t \<longrightarrow> t < length (bk_tokens bk') \<longrightarrow> \<not> settling bk' t)"

lemma evolves_refl: "evolves bk bk"
  by (simp add: evolves_def keeps_def)

lemma keeps_trans: "keeps a b t \<Longrightarrow> keeps b c t \<Longrightarrow> keeps a c t"
  by (simp add: keeps_def)

lemma evolves_trans:
  assumes ab: "evolves a b" and bc: "evolves b c"
  shows "evolves a c"
proof -
  have l: "length (bk_tokens a) \<le> length (bk_tokens b)" "length (bk_tokens b) \<le> length (bk_tokens c)"
    using ab bc by (simp_all add: evolves_def)
  have "keeps a c t" if "t < length (bk_tokens a)" for t
    using ab bc that l keeps_trans[of a b t c] by (simp add: evolves_def)
  moreover have "\<not> settling c t" if t: "length (bk_tokens a) \<le> t" "t < length (bk_tokens c)" for t
  proof (cases "t < length (bk_tokens b)")
    case True
    then have "\<not> settling b t" "keeps b c t" using ab bc t by (simp_all add: evolves_def)
    then show ?thesis by (simp add: keeps_def)
  next
    case False
    then show ?thesis using bc t by (simp add: evolves_def)
  qed
  ultimately show ?thesis using l by (simp add: evolves_def)
qed

section \<open>Steps on one owner\<close>

lemma openDebits_updOwner [simp]: "openDebits (updOwner t f bk) u = openDebits bk u"
  by (simp add: openDebits_def updOwner_def)

lemma updOwner_fields [simp]:
  "bk_debits (updOwner t f bk) = bk_debits bk" "length (bk_tokens (updOwner t f bk)) = length (bk_tokens bk)"
  "bk_owners (updOwner t f bk) = bk_owners bk" "bk_lastDispatch (updOwner t f bk) = bk_lastDispatch bk"
  by (simp_all add: updOwner_def)

lemma owner_updOwner:
  "u < length (bk_tokens bk) \<Longrightarrow> owner (updOwner t f bk) u = (if u = t then f (owner bk t) else owner bk u)"
  by (auto simp: updOwner_def)

text \<open>A change of one owner that keeps its account in order.\<close>

lemma updOwner_inv:
  assumes "book_inv bk" and "ow_nodeId (f (owner bk t)) = ow_nodeId (owner bk t)" and "ow_closed (owner bk t) \<longrightarrow> ow_closed (f (owner bk t))"
    and "t < length (bk_tokens bk) \<Longrightarrow> account_ok (owner bk t) (openDebits bk t) \<Longrightarrow> account_ok (f (owner bk t)) (openDebits bk t)"
  shows "book_inv (updOwner t f bk)"
  using assms by (auto simp: book_inv_def owner_updOwner linked_def)

definition flags_only :: "(Owner \<Rightarrow> Owner) \<Rightarrow> bool" where
  "flags_only f \<longleftrightarrow>
     (\<forall>w. ow_nodeId (f w) = ow_nodeId w \<and> ow_initial (f w) = ow_initial w \<and> ow_remaining (f w) = ow_remaining w \<and> ow_charged (f w) = ow_charged w \<and>
          ow_inFlight (f w) = ow_inFlight w \<and> (ow_closed w \<longrightarrow> ow_closed (f w)) \<and> (ow_exhausted w \<longrightarrow> ow_exhausted (f w)))"

lemma flags_only_intros [simp]:
  "flags_only (\<lambda>w. w\<lparr>ow_closed := True\<rparr>)" "flags_only (\<lambda>w. w\<lparr>ow_exhausted := True\<rparr>)"
  by (simp_all add: flags_only_def)

lemma flags_inv:
  assumes "book_inv bk" and f: "flags_only f"
  shows "book_inv (updOwner t f bk)" and "evolves bk (updOwner t f bk)"
proof -
  show "book_inv (updOwner t f bk)"
    using f by (intro updOwner_inv[OF assms(1)]) (auto simp: account_ok_def flags_only_def)
  show "evolves bk (updOwner t f bk)"
    using f by (auto simp: evolves_def keeps_def settling_def owner_updOwner flags_only_def)
qed

lemma install_inv:
  assumes inv: "book_inv bk" and a: "0 \<le> amount"
  shows "book_inv (snd (install nodeId dispatchId amount bk))" and "evolves bk (snd (install nodeId dispatchId amount bk))"
proof -
  define bk1 where "bk1 = (case mget (bk_owners bk) nodeId of
                   None \<Rightarrow> bk | Some prior \<Rightarrow> updOwner prior (\<lambda>w. w\<lparr>ow_closed := True\<rparr>) bk)"
  define new where "new = \<lparr>ow_nodeId = nodeId, ow_dispatchId = dispatchId, ow_initial = amount,
          ow_remaining = amount, ow_inFlight = False, ow_closed = False, ow_exhausted = False, ow_charged = 0\<rparr>"
  let ?bk2 = "snd (install nodeId dispatchId amount bk)"
  have b1: "book_inv bk1" "evolves bk bk1"
    using flags_inv[OF inv, of "\<lambda>w. w\<lparr>ow_closed := True\<rparr>"] inv evolves_refl by (auto simp: bk1_def split: option.split)
  have b2: "bk_tokens ?bk2 = bk_tokens bk1 @ [new]" "bk_debits ?bk2 = bk_debits bk1"
    by (simp_all add: install_def Let_def bk1_def new_def)
  then have od: "openDebits ?bk2 t = openDebits bk1 t" for t by (simp add: openDebits_def)
  have "db_token d < length (bk_tokens bk1)" if "d \<in> set (bk_debits bk1)" for d using b1(1) that by (simp add: book_inv_def)
  then have none: "openDebits bk1 (length (bk_tokens bk1)) = []" by (force simp: openDebits_def filter_empty_conv)
  have ok: "account_ok (owner ?bk2 t) (openDebits ?bk2 t)" if "t < length (bk_tokens ?bk2)" for t
  proof (cases "t < length (bk_tokens bk1)")
    case True
    then show ?thesis using b1(1) by (simp add: b2 od nth_append book_inv_def)
  next
    case False
    then have "t = length (bk_tokens bk1)" using that by (simp add: b2)
    then show ?thesis using a none by (simp add: b2 od account_ok_def new_def)
  qed
  have prior: "ow_closed (owner bk1 t)" if "t < length (bk_tokens bk1)" "ow_nodeId (owner bk1 t) = nodeId" for t
  proof (rule ccontr)
    assume o: "\<not> ow_closed (owner bk1 t)"
    then have "mget (bk_owners bk1) nodeId = Some t" using b1(1) that by (auto simp: book_inv_def linked_def)
    then have "mget (bk_owners bk) nodeId = Some t" by (simp add: bk1_def split: option.splits)
    then have "ow_closed (owner bk1 t)" using that(1) by (simp add: bk1_def owner_updOwner)
    then show False using o by blast
  qed
  have bo: "bk_owners ?bk2 = mset_key nodeId (length (bk_tokens bk)) (bk_owners bk1)"
    by (simp add: install_def Let_def bk1_def split: option.split)
  have len1: "length (bk_tokens bk1) = length (bk_tokens bk)" by (simp add: bk1_def split: option.split)
  have "linked (bk_owners ?bk2) (owner ?bk2 t) t" if "t < length (bk_tokens ?bk2)" for t
  proof (cases "t < length (bk_tokens bk1)")
    case True
    then show ?thesis using b1(1) prior[OF True] by (auto simp: b2 bo nth_append book_inv_def linked_def)
  next
    case False
    then have "t = length (bk_tokens bk1)" using that by (simp add: b2)
    then show ?thesis by (simp add: b2 bo linked_def new_def len1[symmetric])
  qed
  with ok show "book_inv ?bk2" using b1(1) unfolding book_inv_def b2 by fastforce
  have "evolves bk1 ?bk2"
    unfolding evolves_def keeps_def settling_def od using none by (auto simp: b2(1) nth_append new_def less_Suc_eq)
  then show "evolves bk ?bk2" using b1(2) evolves_trans by blast
qed

text \<open>Admitting a call moves its estimate from the remaining allowance to the slot.\<close>

lemma acquire_inv:
  assumes inv: "book_inv bk"
  shows "book_inv (snd (acquire t estimate bk))" and "evolves bk (snd (acquire t estimate bk))"
proof -
  let ?e = "case estimate of None \<Rightarrow> 0 | Some e \<Rightarrow> e"
  let ?d = "\<lparr>db_token = t, db_estimate = estimate, db_settled = False\<rparr>"
  let ?bk' = "(updOwner t (\<lambda>w. w\<lparr>ow_inFlight := True, ow_remaining := ow_remaining w - ?e\<rparr>) bk)\<lparr>bk_debits := bk_debits bk @ [?d]\<rparr>"
  have admitted: "book_inv ?bk' \<and> evolves bk ?bk'"
    if c: "current bk t" "\<not> ow_exhausted (owner bk t)" "\<not> ow_inFlight (owner bk t)" "0 \<le> ?e" "?e \<le> ow_remaining (owner bk t)"
  proof -
    have t: "t < length (bk_tokens bk)" "\<not> ow_closed (owner bk t)" using c(1) by (simp_all add: current_def)
    then have "account_ok (owner bk t) (openDebits bk t)" using inv by (simp add: book_inv_def)
    then have none: "openDebits bk t = []" and eq: "ow_remaining (owner bk t) + ow_charged (owner bk t) = ow_initial (owner bk t)"
      using c(2,3) t(2) by (auto simp: account_ok_def)
    have od: "openDebits ?bk' u = (if u = t then [?d] else openDebits bk u)" for u
      using none by (auto simp: openDebits_def)
    have d: "debitAmount ?d = ?e" by (simp add: debitAmount_def split: option.split)
    have own: "owner ?bk' u = (if u = t then (owner bk t)\<lparr>ow_inFlight := True, ow_remaining := ow_remaining (owner bk t) - ?e\<rparr> else owner bk u)"
      if "u < length (bk_tokens bk)" for u using that by (simp add: owner_updOwner)
    have "account_ok (owner ?bk' t) (openDebits ?bk' t)"
      using eq c(4,5) inv t(1) d unfolding od own[OF t(1)] by (simp add: account_ok_def book_inv_def)
    moreover have "account_ok (owner ?bk' u) (openDebits ?bk' u)" if "u < length (bk_tokens bk)" "u \<noteq> t" for u
      using inv that unfolding od own[OF that(1)] by (simp add: book_inv_def)
    moreover have "linked (bk_owners ?bk') (owner ?bk' u) u" if "u < length (bk_tokens bk)" for u
      using inv that unfolding own[OF that] by (simp add: book_inv_def linked_def)
    moreover have "db_token x < length (bk_tokens bk) \<and> 0 \<le> debitAmount x" if "x \<in> set (bk_debits ?bk')" for x
      using that inv d c(4) t(1) by (auto simp: book_inv_def)
    moreover have len: "length (bk_tokens ?bk') = length (bk_tokens bk)" by simp
    ultimately have "book_inv ?bk'" unfolding book_inv_def len by blast
    moreover have "evolves bk ?bk'"
      using none c(3) by (auto simp: evolves_def keeps_def settling_def od owner_updOwner)
    ultimately show ?thesis by blast
  qed
  have refused: "book_inv (updOwner t (\<lambda>w. w\<lparr>ow_exhausted := True\<rparr>) bk)" "evolves bk (updOwner t (\<lambda>w. w\<lparr>ow_exhausted := True\<rparr>) bk)"
    using flags_inv[OF inv] by simp_all
  have "0 \<le> ow_remaining (owner bk t)" if "current bk t"
    using that inv by (simp add: current_def book_inv_def account_ok_def)
  then show "book_inv (snd (acquire t estimate bk))" "evolves bk (snd (acquire t estimate bk))"
    using admitted refused inv evolves_refl by (auto simp: acquire_def Let_def split: option.splits)
qed

text \<open>What the host predicate may do: anything that keeps the books in order.\<close>

definition host_ok :: "host \<Rightarrow> bool" where
  "host_ok isLive \<longleftrightarrow> (\<forall>bk. book_inv bk \<longrightarrow> book_inv (snd (isLive bk)) \<and> evolves bk (snd (isLive bk)))"

lemma host_okD:
  assumes "host_ok isLive" and "book_inv bk" and "isLive bk = (live, bk1)"
  shows "book_inv bk1" and "evolves bk bk1"
  using assms unfolding host_ok_def by (metis snd_conv)+

lemma activate_inv:
  assumes "book_inv bk" and h: "host_ok isLive"
  shows "book_inv (snd (activate nodeId dispatchId amount isLive bk)) \<and> evolves bk (snd (activate nodeId dispatchId amount isLive bk))"
proof -
  obtain live bk1 where l: "isLive bk = (live, bk1)" by (cases "isLive bk")
  note b1 = host_okD[OF h assms(1) l]
  obtain token bk2 where n: "install nodeId dispatchId amount bk1 = (token, bk2)" by (cases "install nodeId dispatchId amount bk1")
  have "book_inv bk2" "evolves bk bk2" if "0 \<le> amount"
    using install_inv[OF b1(1) that, of nodeId dispatchId] evolves_trans[OF b1(2)] n by simp_all
  then show ?thesis using assms(1) b1 evolves_refl l n by (simp add: activate_def)
qed

lemma validateLive_inv:
  assumes "book_inv bk" and h: "host_ok isLive"
  shows "book_inv (snd (validateLive t adm isLive bk)) \<and> evolves bk (snd (validateLive t adm isLive bk))"
proof -
  obtain live bk1 where l: "isLive bk = (live, bk1)" by (cases "isLive bk")
  note b1 = host_okD[OF h assms(1) l]
  have "book_inv (closeAllowance t bk1)" "evolves bk (closeAllowance t bk1)"
    using flags_inv[OF b1(1), of "\<lambda>w. w\<lparr>ow_closed := True\<rparr>" t] evolves_trans[OF b1(2)] by (simp_all add: closeAllowance_def)
  then show ?thesis using assms(1) b1 evolves_refl l by (simp add: validateLive_def Let_def)
qed

lemma reconcile_account:
  assumes "0 \<le> ow_remaining w" and "0 \<le> ow_initial w" and "0 \<le> e" and "case actual of None \<Rightarrow> True | Some a \<Rightarrow> 0 \<le> a"
    and "ow_closed w \<or> ow_exhausted w \<or> ow_remaining w + e + ow_charged w = ow_initial w"
  shows "account_ok ((reconcile e actual released w)\<lparr>ow_inFlight := False\<rparr>) []" and "ow_initial (reconcile e actual released w) = ow_initial w"
    and "ow_nodeId (reconcile e actual released w) = ow_nodeId w"
    and "ow_closed w \<longrightarrow> ow_closed (reconcile e actual released w)" and "ow_exhausted w \<longrightarrow> ow_exhausted (reconcile e actual released w)"
  using assms by (auto simp: reconcile_def account_ok_def Let_def split: option.splits)

lemma openDebits_markSettled:
  assumes "i < length (bk_debits bk)" and "\<not> db_settled (bk_debits bk ! i)" and "account_ok (owner bk (db_token (bk_debits bk ! i))) (openDebits bk (db_token (bk_debits bk ! i)))"
  shows "openDebits bk (db_token (bk_debits bk ! i)) = [bk_debits bk ! i]"
    and "openDebits (markSettled i bk) u = (if u = db_token (bk_debits bk ! i) then [] else openDebits bk u)"
proof -
  let ?d = "bk_debits bk ! i"
  let ?P = "\<lambda>u d. db_token d = u \<and> \<not> db_settled d"
  have split: "bk_debits bk = take i (bk_debits bk) @ ?d # drop (Suc i) (bk_debits bk)" using assms(1) by (simp add: id_take_nth_drop)
  have up: "(bk_debits bk)[i := x] = take i (bk_debits bk) @ x # drop (Suc i) (bk_debits bk)" for x
    using assms(1) by (simp add: upd_conv_take_nth_drop)
  have "openDebits bk (db_token ?d) = filter (?P (db_token ?d)) (take i (bk_debits bk)) @ ?d # filter (?P (db_token ?d)) (drop (Suc i) (bk_debits bk))"
    unfolding openDebits_def by (subst split) (use assms(2) in simp)
  moreover have "length (openDebits bk (db_token ?d)) \<le> 1" using assms(3) by (simp add: account_ok_def)
  ultimately have e: "filter (?P (db_token ?d)) (take i (bk_debits bk)) = []" "filter (?P (db_token ?d)) (drop (Suc i) (bk_debits bk)) = []"
    and "openDebits bk (db_token ?d) = [?d]" by auto
  then show "openDebits bk (db_token ?d) = [?d]" by blast
  show "openDebits (markSettled i bk) u = (if u = db_token ?d then [] else openDebits bk u)"
  proof (cases "u = db_token ?d")
    case True
    then show ?thesis using e by (simp add: openDebits_def markSettled_def up)
  next
    case False
    then have "openDebits bk u = filter (?P u) (take i (bk_debits bk)) @ filter (?P u) (drop (Suc i) (bk_debits bk))"
      unfolding openDebits_def by (subst split) simp
    then show ?thesis using False by (simp add: openDebits_def markSettled_def up)
  qed
qed

lemma markSettled_inv:
  assumes inv: "book_inv bk" and i: "i < length (bk_debits bk)" and n: "\<not> db_settled (bk_debits bk ! i)"
  defines "t \<equiv> db_token (bk_debits bk ! i)"
  shows "book_inv (markSettled i bk)" and "settling (markSettled i bk) t" and "t < length (bk_tokens bk)" and "\<not> settling bk t"
    and "openDebits bk t = [bk_debits bk ! i]" and "0 \<le> debitAmount (bk_debits bk ! i)"
    and "u \<noteq> t \<Longrightarrow> settling (markSettled i bk) u = settling bk u"
proof -
  have t: "t < length (bk_tokens bk)" "0 \<le> debitAmount (bk_debits bk ! i)" using inv i by (simp_all add: book_inv_def t_def)
  then have a: "account_ok (owner bk t) (openDebits bk t)" using inv by (simp add: book_inv_def)
  note od = openDebits_markSettled[OF i n a[unfolded t_def], folded t_def]
  have tk: "bk_tokens (markSettled i bk) = bk_tokens bk" by (simp add: markSettled_def)
  have "account_ok (owner bk t) []" using a od(1) by (auto simp: account_ok_def)
  then have "\<forall>u < length (bk_tokens bk). account_ok (owner (markSettled i bk) u) (openDebits (markSettled i bk) u) \<and>
      linked (bk_owners (markSettled i bk)) (owner (markSettled i bk) u) u"
    using inv od(2) tk by (auto simp: book_inv_def) (simp_all add: markSettled_def)
  moreover have "db_token d < length (bk_tokens bk) \<and> 0 \<le> debitAmount d" if "d \<in> set (bk_debits (markSettled i bk))" for d
  proof -
    have "d \<in> set (bk_debits bk) \<or> d = (bk_debits bk ! i)\<lparr>db_settled := True\<rparr>"
      using that set_update_subset_insert by (fastforce simp: markSettled_def)
    then show ?thesis using inv t by (auto simp: book_inv_def debitAmount_def t_def)
  qed
  ultimately show "book_inv (markSettled i bk)" unfolding book_inv_def tk by blast
  show "settling (markSettled i bk) t" "\<not> settling bk t" using a od by (auto simp: settling_def tk account_ok_def)
  show "t < length (bk_tokens bk)" "openDebits bk t = [bk_debits bk ! i]" "0 \<le> debitAmount (bk_debits bk ! i)" using t od by simp_all
  show "u \<noteq> t \<Longrightarrow> settling (markSettled i bk) u = settling bk u" by (simp add: settling_def tk od(2))
qed

text \<open>The last part of \<open>finish\<close>: the slot of a settling owner is freed after its money was reconciled.\<close>

lemma free_after:
  assumes inv: "book_inv bk2" and s: "settling bk2 t" and t: "t < length (bk_tokens bk2)"
    and f: "account_ok ((f (owner bk2 t))\<lparr>ow_inFlight := False\<rparr>) []"
    and id: "ow_nodeId (f (owner bk2 t)) = ow_nodeId (owner bk2 t)" "ow_closed (owner bk2 t) \<longrightarrow> ow_closed (f (owner bk2 t))"
  shows "book_inv (freeSlot t (updOwner t f bk2))" and "\<not> settling (freeSlot t (updOwner t f bk2)) t"
    and "u < length (bk_tokens bk2) \<Longrightarrow> u \<noteq> t \<Longrightarrow> owner (freeSlot t (updOwner t f bk2)) u = owner bk2 u"
    and "owner (freeSlot t (updOwner t f bk2)) t = (f (owner bk2 t))\<lparr>ow_inFlight := False\<rparr>"
    and "openDebits (freeSlot t (updOwner t f bk2)) u = openDebits bk2 u"
    and "length (bk_tokens (freeSlot t (updOwner t f bk2))) = length (bk_tokens bk2)"
proof -
  have od: "openDebits bk2 t = []" using s by (simp add: settling_def)
  have own: "owner (freeSlot t (updOwner t f bk2)) u = (if u = t then (f (owner bk2 t))\<lparr>ow_inFlight := False\<rparr> else owner bk2 u)"
    if "u < length (bk_tokens bk2)" for u using that by (simp add: freeSlot_def owner_updOwner)
  have "account_ok (owner (freeSlot t (updOwner t f bk2)) u) (openDebits (freeSlot t (updOwner t f bk2)) u)"
    if "u < length (bk_tokens bk2)" for u
    using inv f od that own[OF that] by (simp add: freeSlot_def book_inv_def)
  moreover have "linked (bk_owners bk2) (owner (freeSlot t (updOwner t f bk2)) u) u" if "u < length (bk_tokens bk2)" for u
    using inv id that own[OF that] by (auto simp: book_inv_def linked_def)
  ultimately show "book_inv (freeSlot t (updOwner t f bk2))" using inv by (simp add: book_inv_def freeSlot_def)
  show "owner (freeSlot t (updOwner t f bk2)) t = (f (owner bk2 t))\<lparr>ow_inFlight := False\<rparr>" using own[OF t] by simp
  then show "\<not> settling (freeSlot t (updOwner t f bk2)) t" by (simp add: settling_def)
  show "u < length (bk_tokens bk2) \<Longrightarrow> u \<noteq> t \<Longrightarrow> owner (freeSlot t (updOwner t f bk2)) u = owner bk2 u" using own by simp
qed (simp_all add: freeSlot_def)

lemma finishDebit_inv:
  assumes inv: "book_inv bk" and h: "host_ok isLive" and i: "i < length (bk_debits bk)"
  shows "book_inv (snd (finishDebit i actual released isLive bk)) \<and> evolves bk (snd (finishDebit i actual released isLive bk))"
proof (cases "db_settled (bk_debits bk ! i) \<or> (case actual of None \<Rightarrow> False | Some a \<Rightarrow> \<not> isSafeInteger a \<or> a < 0)")
  case True
  then show ?thesis using inv evolves_refl by (auto simp: finishDebit_def Let_def)
next
  case False
  define t where "t = db_token (bk_debits bk ! i)"
  define bk1 where "bk1 = markSettled i bk"
  let ?e = "debitAmount (bk_debits bk ! i)"
  have n: "\<not> db_settled (bk_debits bk ! i)" and act: "case actual of None \<Rightarrow> True | Some a \<Rightarrow> 0 \<le> a"
    using False by (auto split: option.splits)
  note m = markSettled_inv[OF inv i n, folded t_def bk1_def]
  have tk1: "bk_tokens bk1 = bk_tokens bk" by (simp add: bk1_def markSettled_def)
  have a0: "account_ok (owner bk t) [bk_debits bk ! i]" using inv m(3,5) by (auto simp: book_inv_def)
  have shut: "account_ok (w\<lparr>ow_closed := True, ow_inFlight := False\<rparr>) []" if "0 \<le> ow_remaining w" "0 \<le> ow_initial w" for w
    using that by (simp add: account_ok_def)
  have "\<exists>bk2 f. snd (finishDebit i actual released isLive bk) = freeSlot t (updOwner t f bk2) \<and> book_inv bk2 \<and> evolves bk1 bk2 \<and>
      account_ok ((f (owner bk2 t))\<lparr>ow_inFlight := False\<rparr>) [] \<and> ow_nodeId (f (owner bk2 t)) = ow_nodeId (owner bk2 t) \<and>
      ow_initial (f (owner bk2 t)) = ow_initial (owner bk2 t) \<and>
      (ow_closed (owner bk2 t) \<longrightarrow> ow_closed (f (owner bk2 t))) \<and> (ow_exhausted (owner bk2 t) \<longrightarrow> ow_exhausted (f (owner bk2 t)))"
  proof (cases "current bk1 t")
    case c: False
    have "ow_closed (owner bk1 t)" using c m(1,3) tk1 by (auto simp: current_def book_inv_def linked_def)
    then have "account_ok ((owner bk1 t)\<lparr>ow_inFlight := False\<rparr>) []" using a0 tk1 by (simp add: account_ok_def)
    moreover have "updOwner t (\<lambda>w. w) bk1 = bk1" by (simp add: updOwner_def)
    then have "snd (finishDebit i actual released isLive bk) = freeSlot t (updOwner t (\<lambda>w. w) bk1)"
      using False c by (simp add: finishDebit_def Let_def t_def[symmetric] bk1_def[symmetric])
    ultimately show ?thesis using m(1) evolves_refl by (intro exI[of _ bk1] exI[of _ "\<lambda>w. w"]) simp
  next
    case c: True
    obtain live bk2 where l: "isLive bk1 = (live, bk2)" by (cases "isLive bk1")
    note b2 = host_okD[OF h m(1) l]
    have k: "keeps bk1 bk2 t" using b2(2) m(3) tk1 by (simp add: evolves_def)
    have ok2: "0 \<le> ow_remaining (owner bk2 t)" "0 \<le> ow_initial (owner bk2 t)"
      and eq2: "ow_closed (owner bk2 t) \<or> ow_exhausted (owner bk2 t) \<or> ow_remaining (owner bk2 t) + ?e + ow_charged (owner bk2 t) = ow_initial (owner bk2 t)"
      using k m(2) a0 by (auto simp: keeps_def tk1 account_ok_def)
    have amt: "?e = (case db_estimate (bk_debits bk ! i) of None \<Rightarrow> 0 | Some e \<Rightarrow> e)" by (simp add: debitAmount_def)
    note r = reconcile_account[OF ok2 m(6) act eq2, of released]
    show ?thesis
    proof (cases "\<not> live \<or> \<not> current bk2 t")
      case True
      have "snd (finishDebit i actual released isLive bk) = freeSlot t (updOwner t (\<lambda>w. w\<lparr>ow_closed := True\<rparr>) bk2)"
        using False c l True by (simp add: finishDebit_def Let_def t_def[symmetric] bk1_def[symmetric] closeAllowance_def)
      then show ?thesis using shut[OF ok2] b2 by (intro exI[of _ bk2] exI[of _ "\<lambda>w. w\<lparr>ow_closed := True\<rparr>"]) simp
    next
      case live: False
      have "snd (finishDebit i actual released isLive bk) = freeSlot t (updOwner t (reconcile ?e actual released) bk2)"
        using False c l live by (simp add: finishDebit_def Let_def t_def[symmetric] bk1_def[symmetric] amt)
      then show ?thesis using r b2 by (intro exI[of _ bk2] exI[of _ "reconcile ?e actual released"]) simp
    qed
  qed
  then obtain bk2 f where e: "snd (finishDebit i actual released isLive bk) = freeSlot t (updOwner t f bk2)" and b2: "book_inv bk2" "evolves bk1 bk2"
    and f: "account_ok ((f (owner bk2 t))\<lparr>ow_inFlight := False\<rparr>) []" "ow_nodeId (f (owner bk2 t)) = ow_nodeId (owner bk2 t)"
      "ow_initial (f (owner bk2 t)) = ow_initial (owner bk2 t)" "ow_closed (owner bk2 t) \<longrightarrow> ow_closed (f (owner bk2 t))"
      "ow_exhausted (owner bk2 t) \<longrightarrow> ow_exhausted (f (owner bk2 t))" by blast
  let ?bk3 = "freeSlot t (updOwner t f bk2)"
  have len: "length (bk_tokens bk) \<le> length (bk_tokens bk2)" and k: "u < length (bk_tokens bk) \<Longrightarrow> keeps bk1 bk2 u" for u
    using b2(2) tk1 by (simp_all add: evolves_def)
  have s2: "settling bk2 t" using k[OF m(3)] m(2) by (simp add: keeps_def)
  have t2: "t < length (bk_tokens bk2)" using m(3) len by simp
  note a = free_after[where f = f, OF b2(1) s2 t2 f(1,2,4)]
  have "keeps bk ?bk3 u" if u: "u < length (bk_tokens bk)" for u
  proof (cases "u = t")
    case True
    then show ?thesis using k[OF m(3)] a(2,4) m(4) f tk1 by (auto simp: keeps_def)
  next
    case False
    have "settling ?bk3 u = settling bk2 u" using a(3)[of u] a(5)[of u] u len False by (simp add: settling_def)
    then show ?thesis using k[OF u] a(3)[of u] m(7)[of u] u len False tk1 by (auto simp: keeps_def)
  qed
  moreover have "\<not> settling ?bk3 u" if "length (bk_tokens bk) \<le> u" "u < length (bk_tokens ?bk3)" for u
  proof -
    have "u \<noteq> t" "\<not> settling bk2 u" using that m(3) b2(2) tk1 a(6) by (auto simp: evolves_def)
    then show ?thesis using a(3)[of u] a(5)[of u] a(6) that by (simp add: settling_def)
  qed
  ultimately show ?thesis using a(1,6) e len by (simp add: evolves_def)
qed

text \<open>Every call keeps the invariant, whatever its predicate answers and calls.\<close>

lemma bookStep_inv: "book_inv bk \<Longrightarrow> host_ok isLive \<Longrightarrow> book_inv (bookStep oper isLive bk) \<and> evolves bk (bookStep oper isLive bk)"
  using activate_inv validateLive_inv acquire_inv finishDebit_inv flags_inv evolves_refl
  by (cases oper) (simp_all add: closeAllowance_def exhaust_def)

lemma perform_inv:
  "book_inv bk \<Longrightarrow> book_inv (perform c bk) \<and> evolves bk (perform c bk)"
  "book_inv bk \<Longrightarrow> book_inv (performAll cs bk) \<and> evolves bk (performAll cs bk)"
proof (induction c bk and cs bk rule: perform_performAll.induct)
  case (1 oper answer nested bk)
  then show ?case using bookStep_inv[of bk "\<lambda>b. (answer, performAll nested b)" oper] by (simp add: host_ok_def)
next
  case (3 c cs bk)
  then show ?case using evolves_trans by (metis performAll.simps(2))
qed (simp add: evolves_refl)

lemma empty_inv: "book_inv emptyBook" "\<not> (t < length (bk_tokens emptyBook))"
  by (simp_all add: emptyBook_def book_inv_def)

section \<open>Allowances are not overspent\<close>

text \<open>C26. After any calls, with any answers of the host predicate and any calls it makes in turn, an
  owner has at most one provider call in flight. While it is open and not exhausted, the approved
  amount is exactly what remains plus what the call in flight holds plus what was charged; a further
  call is admitted only if its estimate fits into what was not charged yet.\<close>

theorem allowance_never_overspent:
  assumes "t < length (bk_tokens (performAll calls emptyBook))"
  shows "let bk = performAll calls emptyBook; w = bk_tokens bk ! t in
    length (openDebits bk t) \<le> 1 \<and> (ow_inFlight w \<longleftrightarrow> openDebits bk t \<noteq> []) \<and> 0 \<le> ow_remaining w \<and>
    (\<not> ow_closed w \<longrightarrow> \<not> ow_exhausted w \<longrightarrow> ow_remaining w + held bk t + ow_charged w = ow_initial w) \<and>
    (\<forall>e i bk'. acquire t (Some e) bk = (Inr (Admitted i), bk') \<longrightarrow> 0 \<le> e \<and> ow_charged w + e \<le> ow_initial w)"
proof -
  define bk where "bk = performAll calls emptyBook"
  have p: "book_inv bk" "evolves emptyBook bk" using perform_inv(2)[OF empty_inv(1)] by (simp_all add: bk_def)
  have a: "account_ok (owner bk t) (openDebits bk t)" using p(1) assms by (simp add: book_inv_def bk_def)
  have n: "\<not> settling bk t" using p(2) assms by (simp add: evolves_def emptyBook_def bk_def)
  have slot: "ow_inFlight (owner bk t) \<longleftrightarrow> openDebits bk t \<noteq> []" using a n by (auto simp: account_ok_def settling_def)
  have eq: "ow_remaining (owner bk t) + held bk t + ow_charged (owner bk t) = ow_initial (owner bk t)"
    if "\<not> ow_closed (owner bk t)" "\<not> ow_exhausted (owner bk t)"
    using a slot that by (auto simp: account_ok_def held_def)
  have adm: "0 \<le> e \<and> ow_charged (owner bk t) + e \<le> ow_initial (owner bk t)"
    if "acquire t (Some e) bk = (Inr (Admitted i), bk')" for e i bk'
    using that eq slot by (auto simp: acquire_def Let_def current_def held_def split: if_splits)
  have "length (openDebits bk t) \<le> 1" "0 \<le> ow_remaining (owner bk t)" using a by (simp_all add: account_ok_def)
  then show ?thesis unfolding Let_def bk_def[symmetric] using slot eq adm by blast
qed

theorem allowance_never_overspent_witness:
  "let bk = performAll [Call (Activate ''n'' 1 100) True [], Call (Acquire 0 (Some 40)) True [],
       Call (Settle 0 30) True [Call (Acquire 0 (Some 5)) True []]] emptyBook
   in ow_remaining (bk_tokens bk ! 0) + held bk 0 + ow_charged (bk_tokens bk ! 0) = 100 \<and> ow_remaining (bk_tokens bk ! 0) = 70"
proof -
  let ?calls = "[Call (Activate ''n'' 1 100) True [], Call (Acquire 0 (Some 40)) True [],
       Call (Settle 0 30) True [Call (Acquire 0 (Some 5)) True []]]"
  have "0 < length (bk_tokens (performAll ?calls emptyBook))"
    "\<not> ow_closed (bk_tokens (performAll ?calls emptyBook) ! 0)" "\<not> ow_exhausted (bk_tokens (performAll ?calls emptyBook) ! 0)"
    "ow_initial (bk_tokens (performAll ?calls emptyBook) ! 0) = 100" "ow_remaining (bk_tokens (performAll ?calls emptyBook) ! 0) = 70"
    by code_simp+
  then show ?thesis using allowance_never_overspent[of 0 ?calls] by (simp add: Let_def)
qed

end
