(* ===== verification/Budget_Governor.thy ===== *)
theory Budget_Governor
  imports Dispatch_Allowance Workflow_Model
begin

text \<open>
  The pre-egress budget governor of \<open>src/packages/core/src/engine/budget-governor.ts\<close>. Every provider call is
  priced and admitted against the realized, the conservatively committed and the reserved money of the
  run; an admission is closed by a known charge, by its own estimate or by a release.

  The state is in two records. \<open>Ledger\<close> has the money: totals, reservations, the leases handed out, the
  commitments to be written, the allowance book and the debits whose owner is being asked for its
  lifetime. \<open>Governor\<close> adds the suspended checks, the holds of legacy media jobs and the warning being
  written. A lease is the closure \<open>#admit\<close> returns: an index into the leases ever issued.

  \<open>checkPreEgress\<close> awaits and calls the host at many points, and other calls run in between. Each stretch
  between two such points is one event, so every interleaving and every re-entrant call of the host is
  a sequence of events. The price of a call and the answers of the host are arguments of the events.
  Money is of type \<open>int\<close>. The code adds doubles: sums of safe non-negative integers are exact up to the
  largest safe integer, and rounding is monotone, so a sum is below a cap in the code exactly if it is
  so here. Texts of errors and the frozen quote of a pause are left out.
\<close>

section \<open>Verdicts\<close>

datatype BudgetExceededReason =
    ProjectedOverCap | UnpricedModel | UnpricedModality | AllowanceExhausted | AllowanceOwnerInvalid
  | AllowanceInFlight | UnrepresentableEstimate

record BudgetExceededError =
  bx_spentMicrocents :: int
  bx_limitMicrocents :: int
  bx_projectedMicrocents :: "int option"
  bx_reason :: BudgetExceededReason

record BudgetPauseError =
  bp_spentMicrocents :: int
  bp_limitMicrocents :: int
  bp_thresholdPct :: int

datatype BudgetCheckResult =
    Allow
  | Warn int int int
  | Unpriced string
  | Fail BudgetExceededError
  | PauseForGate BudgetPauseError

datatype EstimateResult =
    PricedAt int "string list"
  | Unrepresentable "string list"
  | NoPrice

datatype GovernorFault =
    BudgetExceeded BudgetExceededError
  | BudgetPaused BudgetPauseError
  | InvalidTokenEstimate
  | InvalidAllowance InvalidDispatchAllowanceError
  | CommitmentNotDurable "string option"
  | PricingFault
  | WarningFault

section \<open>The ledger\<close>

record Commitment =
  cm_nodeId :: "string option"
  cm_attemptNumber :: "nat option"
  cm_model :: string
  cm_estimateMicrocents :: int
  cm_cumulativeConservativeMicrocents :: int
  cm_written :: "bool option"

record Lease =
  ls_model :: string
  ls_id :: "nat option"
  ls_estimate :: "int option"
  ls_debit :: "nat option"
  ls_settled :: bool

type_synonym finishing = "nat \<times> int option \<times> bool"

record Ledger =
  ld_cumulative :: int
  ld_conservative :: int
  ld_reserved :: int
  ld_admissions :: "(nat, int) jsmap"
  ld_nextAdmissionId :: nat
  ld_leases :: "Lease list"
  ld_warningArmed :: bool
  ld_commitments :: "Commitment list"
  ld_pending :: nat
  ld_failure :: "string option option"
  ld_broken :: bool
  ld_book :: Book
  ld_finishing :: "finishing list"

definition emptyLedger :: Ledger where
  "emptyLedger = \<lparr>ld_cumulative = 0, ld_conservative = 0, ld_reserved = 0, ld_admissions = [],
     ld_nextAdmissionId = 0, ld_leases = [], ld_warningArmed = True, ld_commitments = [], ld_pending = 0,
     ld_failure = None, ld_broken = False, ld_book = emptyBook, ld_finishing = []\<rparr>"

definition updateCost :: "int \<Rightarrow> Ledger \<Rightarrow> Ledger" where
  "updateCost reported ld =
     (if \<not> isSafeInteger reported \<or> reported < 0 then ld
      else if ld_cumulative ld < reported then ld\<lparr>ld_warningArmed := True, ld_cumulative := reported\<rparr> else ld)"

definition restoreConservativeCost :: "int \<Rightarrow> Ledger \<Rightarrow> Ledger" where
  "restoreConservativeCost m ld =
     (if \<not> isSafeInteger m \<or> m \<le> 0 then ld
      else if ld_conservative ld < m then ld\<lparr>ld_conservative := m\<rparr> else ld)"

definition releaseConservativeCommitments :: "Ledger \<Rightarrow> int \<times> Ledger" where
  "releaseConservativeCommitments ld =
     (ld_conservative ld, ld\<lparr>ld_conservative := 0, ld_warningArmed := True\<rparr>)"

subsection \<open>Admission\<close>

definition admit ::
    "string \<Rightarrow> int option \<Rightarrow> nat option \<Rightarrow> Ledger \<Rightarrow> (GovernorFault + nat option) \<times> Ledger" where
  "admit model estimate debit ld =
     (if debit = None \<and> (case estimate of None \<Rightarrow> True | Some e \<Rightarrow> e \<le> 0) then (Inr None, ld)
      else if (case estimate of None \<Rightarrow> False
               | Some e \<Rightarrow> \<not> isSafeInteger e \<or> e < 0 \<or> \<not> isSafeInteger (ld_reserved ld + e))
      then (Inl InvalidTokenEstimate, ld)
      else let i = length (ld_leases ld) in
        case estimate of
          None \<Rightarrow> (Inr (Some i), ld\<lparr>ld_leases := ld_leases ld @
             [\<lparr>ls_model = model, ls_id = None, ls_estimate = None, ls_debit = debit, ls_settled = False\<rparr>]\<rparr>)
        | Some e \<Rightarrow> (Inr (Some i), ld\<lparr>
             ld_nextAdmissionId := Suc (ld_nextAdmissionId ld),
             ld_admissions := mset_key (ld_nextAdmissionId ld) e (ld_admissions ld),
             ld_reserved := ld_reserved ld + e,
             ld_leases := ld_leases ld @
               [\<lparr>ls_model = model, ls_id = Some (ld_nextAdmissionId ld), ls_estimate = Some e, ls_debit = debit,
                 ls_settled = False\<rparr>]\<rparr>))"

definition takeReservation :: "nat option \<Rightarrow> Ledger \<Rightarrow> int option \<times> Ledger" where
  "takeReservation key ld =
     (case key of None \<Rightarrow> (None, ld)
      | Some k \<Rightarrow> (case mget (ld_admissions ld) k of
          None \<Rightarrow> (None, ld)
        | Some r \<Rightarrow> (Some r, ld\<lparr>ld_admissions := mdelete k (ld_admissions ld), ld_reserved := ld_reserved ld - r\<rparr>)))"

text \<open>A debit is finished at once if its owner is no longer current; otherwise the host is asked first.\<close>

definition startFinish :: "nat option \<Rightarrow> int option \<Rightarrow> bool \<Rightarrow> Ledger \<Rightarrow> Ledger" where
  "startFinish debit actual released ld =
     (case debit of None \<Rightarrow> ld
      | Some d \<Rightarrow>
          if current (ld_book ld) (db_token (bk_debits (ld_book ld) ! d))
          then ld\<lparr>ld_finishing := ld_finishing ld @ [(d, actual, released)]\<rparr>
          else ld\<lparr>ld_book := snd (finishDebit d actual released (\<lambda>b. (False, b)) (ld_book ld))\<rparr>)"

definition answerFinish :: "nat \<Rightarrow> bool \<Rightarrow> Ledger \<Rightarrow> Ledger" where
  "answerFinish k live ld =
     (if k < length (ld_finishing ld) then
        case ld_finishing ld ! k of (d, actual, released) \<Rightarrow>
          ld\<lparr>ld_finishing := take k (ld_finishing ld) @ drop (Suc k) (ld_finishing ld),
             ld_book := snd (finishDebit d actual released (\<lambda>b. (live, b)) (ld_book ld))\<rparr>
      else ld)"

definition markLease :: "nat \<Rightarrow> Ledger \<Rightarrow> Ledger" where
  "markLease i ld = ld\<lparr>ld_leases := (ld_leases ld)[i := (ld_leases ld ! i)\<lparr>ls_settled := True\<rparr>]\<rparr>"

subsection \<open>The three ways to close a lease\<close>

definition settle :: "nat \<Rightarrow> int \<Rightarrow> Ledger \<Rightarrow> GovernorFault option \<times> Ledger" where
  "settle i realized ld =
     (let l = ld_leases ld ! i in
      if ls_settled l then (None, ld)
      else if \<not> isSafeInteger realized \<or> realized < 0 then (Some InvalidTokenEstimate, ld)
      else let ld1 = snd (takeReservation (ls_id l) (markLease i ld));
               ld2 = (if 0 < realized
                      then ld1\<lparr>ld_cumulative := ld_cumulative ld1 + realized, ld_warningArmed := True\<rparr> else ld1)
           in (None, startFinish (ls_debit l) (Some realized) False ld2))"

definition persistCommitment :: "Commitment \<Rightarrow> Ledger \<Rightarrow> Ledger" where
  "persistCommitment draft ld =
     ld\<lparr>ld_pending := Suc (ld_pending ld), ld_commitments := ld_commitments ld @ [draft]\<rparr>"

definition settleAtReservedEstimate :: "nat \<Rightarrow> string option \<Rightarrow> nat option \<Rightarrow> Ledger \<Rightarrow> Ledger" where
  "settleAtReservedEstimate i nodeId attemptNumber ld =
     (let l = ld_leases ld ! i in
      if ls_settled l then ld
      else case takeReservation (ls_id l) (markLease i ld) of (reserved, ld1) \<Rightarrow>
        let ld2 = (case reserved of None \<Rightarrow> ld1
                   | Some r \<Rightarrow> if 0 < r then
                       persistCommitment \<lparr>cm_nodeId = nodeId, cm_attemptNumber = attemptNumber, cm_model = ls_model l,
                         cm_estimateMicrocents = r, cm_cumulativeConservativeMicrocents = ld_conservative ld1 + r,
                         cm_written = None\<rparr>
                         (ld1\<lparr>ld_conservative := ld_conservative ld1 + r, ld_warningArmed := True\<rparr>)
                     else ld1)
        in startFinish (ls_debit l) None False ld2)"

definition releaseLease :: "nat \<Rightarrow> Ledger \<Rightarrow> Ledger" where
  "releaseLease i ld =
     (let l = ld_leases ld ! i in
      if ls_settled l then ld
      else startFinish (ls_debit l) None True (snd (takeReservation (ls_id l) (markLease i ld))))"

text \<open>The writes of commitments are chained: the oldest one that is not written yet ends next.\<close>

fun writeFirst :: "bool \<Rightarrow> Commitment list \<Rightarrow> (Commitment \<times> Commitment list) option" where
  "writeFirst ok [] = None"
| "writeFirst ok (c # cs) =
     (if cm_written c = None then Some (c, c\<lparr>cm_written := Some ok\<rparr> # cs)
      else map_option (\<lambda>(d, ds). (d, c # ds)) (writeFirst ok cs))"

definition commitmentWritten :: "bool \<Rightarrow> Ledger \<Rightarrow> Ledger" where
  "commitmentWritten ok ld =
     (case writeFirst ok (ld_commitments ld) of None \<Rightarrow> ld
      | Some (c, cs) \<Rightarrow> ld\<lparr>ld_commitments := cs, ld_pending := ld_pending ld - 1,
          ld_failure := (if ok then ld_failure ld
                         else case ld_failure ld of None \<Rightarrow> Some (cm_nodeId c) | Some f \<Rightarrow> Some f),
          ld_broken := (ld_broken ld \<or> \<not> ok)\<rparr>)"

text \<open>\<open>reserveAcceptedCost\<close> and \<open>reserveCommittedEgress\<close> restore a reservation without asking the cap.\<close>

definition reserveAcceptedCost :: "string \<Rightarrow> int \<Rightarrow> Ledger \<Rightarrow> (GovernorFault + nat option) \<times> Ledger" where
  "reserveAcceptedCost model accepted ld =
     (if \<not> isSafeInteger accepted \<or> accepted \<le> 0 then (Inr None, ld) else admit model (Some accepted) None ld)"

definition reserveCommittedEgress :: "string \<Rightarrow> EstimateResult \<Rightarrow> Ledger \<Rightarrow> (GovernorFault + nat option) \<times> Ledger" where
  "reserveCommittedEgress model estimate ld =
     (case estimate of PricedAt e gaps \<Rightarrow> admit model (Some e) None ld | _ \<Rightarrow> (Inr None, ld))"

section \<open>The verdict on a call\<close>

definition clampPct :: "int \<Rightarrow> int" where
  "clampPct value = max 0 (min 100 value)"

definition thresholdPct :: "int \<Rightarrow> int \<Rightarrow> int" where
  "thresholdPct projected cap = clampPct ((200 * projected + cap) div (2 * cap))"

definition overCapVerdict :: "Budget \<Rightarrow> int \<Rightarrow> Ledger \<Rightarrow> BudgetCheckResult" where
  "overCapVerdict b projected ld =
     (let spent = ld_cumulative ld; limit = bud_max_cost_microcents b; pct = thresholdPct projected limit in
      case bud_on_exceed b of
        WarnOnly \<Rightarrow> Warn spent limit pct
      | FailRun \<Rightarrow> Fail \<lparr>bx_spentMicrocents = spent, bx_limitMicrocents = limit,
          bx_projectedMicrocents = Some projected, bx_reason = ProjectedOverCap\<rparr>
      | PauseForApproval \<Rightarrow> PauseForGate \<lparr>bp_spentMicrocents = spent, bp_limitMicrocents = limit, bp_thresholdPct = pct\<rparr>)"

definition refusal :: "Budget \<Rightarrow> BudgetExceededReason \<Rightarrow> Ledger \<Rightarrow> BudgetExceededError" where
  "refusal b reason ld = \<lparr>bx_spentMicrocents = ld_cumulative ld, bx_limitMicrocents = bud_max_cost_microcents b,
     bx_projectedMicrocents = None, bx_reason = reason\<rparr>"

definition strict :: "Budget \<Rightarrow> bool" where
  "strict b \<longleftrightarrow> bud_strict_cost_cap b = Some True"

text \<open>What a call would leave spent, committed and reserved.\<close>

definition exposure :: "Ledger \<Rightarrow> int" where
  "exposure ld = ld_cumulative ld + ld_conservative ld + ld_reserved ld"

record BudgetEvaluation =
  be_result :: BudgetCheckResult
  be_estimateMicrocents :: "int option"
  be_unpricedModalities :: "string list"

text \<open>\<open>#evaluate\<close> after pricing and the lifetime check. An unrepresentable price exhausts the allowance.\<close>

definition evaluate ::
    "Budget \<Rightarrow> string \<Rightarrow> nat option \<Rightarrow> EstimateResult \<Rightarrow> Ledger \<Rightarrow> BudgetEvaluation \<times> Ledger" where
  "evaluate b model token estimate ld =
     (let cap = bud_max_cost_microcents b;
          verdict = (\<lambda>r e gaps. \<lparr>be_result = r, be_estimateMicrocents = e, be_unpricedModalities = gaps\<rparr>) in
      case estimate of
        NoPrice \<Rightarrow> (if strict b then (verdict (Fail (refusal b UnpricedModel ld)) None [], ld)
                    else (verdict (Unpriced model) None [], ld))
      | Unrepresentable gaps \<Rightarrow>
          if gaps \<noteq> [] \<and> strict b then (verdict (Fail (refusal b UnpricedModality ld)) None [], ld)
          else (verdict (if token = None \<and> bud_on_exceed b = PauseForApproval
                         then PauseForGate \<lparr>bp_spentMicrocents = ld_cumulative ld, bp_limitMicrocents = cap, bp_thresholdPct = 100\<rparr>
                         else Fail (refusal b UnrepresentableEstimate ld)) None gaps,
                case token of None \<Rightarrow> ld | Some t \<Rightarrow> ld\<lparr>ld_book := exhaust t (ld_book ld)\<rparr>)
      | PricedAt e gaps \<Rightarrow>
          if gaps \<noteq> [] \<and> strict b then (verdict (Fail (refusal b UnpricedModality ld)) None [], ld)
          else if cap \<le> 0 \<or> exposure ld + e \<le> cap then (verdict Allow (Some e) gaps, ld)
          else (verdict (overCapVerdict b (exposure ld + e) ld) (Some e) gaps, ld))"

definition overridesCap :: "nat option \<Rightarrow> BudgetCheckResult \<Rightarrow> bool" where
  "overridesCap token result \<longleftrightarrow> token \<noteq> None \<and>
     (case result of PauseForGate _ \<Rightarrow> True | Fail e \<Rightarrow> bx_reason e = ProjectedOverCap | _ \<Rightarrow> False)"

definition permits :: "nat option \<Rightarrow> BudgetCheckResult \<Rightarrow> bool" where
  "permits token result \<longleftrightarrow>
     (case result of Allow \<Rightarrow> True | Warn _ _ _ \<Rightarrow> True | Unpriced _ \<Rightarrow> True | _ \<Rightarrow> overridesCap token result)"

definition allowanceError :: "Budget \<Rightarrow> AllowanceRefusal \<Rightarrow> Ledger \<Rightarrow> GovernorFault" where
  "allowanceError b reason ld = BudgetExceeded (refusal b
     (case reason of Exhausted \<Rightarrow> AllowanceExhausted | InFlight \<Rightarrow> AllowanceInFlight | OwnerInvalid \<Rightarrow> AllowanceOwnerInvalid) ld)"

text \<open>The debit of the owner, then the global reservation, in one stretch: a refused owner throws, a
  reservation that is not representable gives its debit back.\<close>

definition admitPermitted ::
    "Budget \<Rightarrow> string \<Rightarrow> nat option \<Rightarrow> int option \<Rightarrow> Ledger \<Rightarrow> (GovernorFault + nat option) \<times> Ledger" where
  "admitPermitted b model token estimate ld =
     (case token of
        None \<Rightarrow> admit model estimate None ld
      | Some t \<Rightarrow> (case acquire t estimate (ld_book ld) of
          (Inl err, bk) \<Rightarrow> (Inl (InvalidAllowance err), ld\<lparr>ld_book := bk\<rparr>)
        | (Inr (Refused r), bk) \<Rightarrow> (Inl (allowanceError b r ld), ld\<lparr>ld_book := bk\<rparr>)
        | (Inr (Admitted d), bk) \<Rightarrow> (case admit model estimate (Some d) (ld\<lparr>ld_book := bk\<rparr>) of
            (Inl err, ld1) \<Rightarrow> (Inl err, startFinish (Some d) None True ld1)
          | (Inr lease, ld1) \<Rightarrow> (Inr lease, ld1))))"

section \<open>Checks in flight\<close>

text \<open>Where a suspended \<open>checkPreEgress\<close> continues once its owner answered that it is live.\<close>

datatype Stage =
    ToBarrier
  | ToLegacy
  | ToWait
  | ToDecide EstimateResult
  | ToVerdict BudgetCheckResult "nat option"
  | ToReturn "nat option"

datatype Phase =
    Asking Stage
  | Flushing
  | HoldNotice
  | Holding "nat list"
  | Pricing
  | GapNotice "string list" BudgetCheckResult "nat option"
  | UnpricedNotice "nat option"
  | Warning "nat option" "nat option"
  | Done "GovernorFault + nat option"

record Check =
  ck_model :: string
  ck_token :: "nat option"
  ck_phase :: Phase

record Governor =
  gv_ledger :: Ledger
  gv_checks :: "Check list"
  gv_legacy :: "(string, nat) jsmap"
  gv_nextHold :: nat
  gv_warnings :: "bool option list"
  gv_warningInFlight :: "nat option"
  gv_unpricedNotified :: "string list"
  gv_modalityNotified :: "(string \<times> string) list"

definition emptyGovernor :: Governor where
  "emptyGovernor = \<lparr>gv_ledger = emptyLedger, gv_checks = [], gv_legacy = [], gv_nextHold = 0, gv_warnings = [],
     gv_warningInFlight = None, gv_unpricedNotified = [], gv_modalityNotified = []\<rparr>"

definition setPhase :: "nat \<Rightarrow> Phase \<Rightarrow> Governor \<Rightarrow> Governor" where
  "setPhase c p gv = gv\<lparr>gv_checks := (gv_checks gv)[c := (gv_checks gv ! c)\<lparr>ck_phase := p\<rparr>]\<rparr>"

definition tokenOf :: "Governor \<Rightarrow> nat \<Rightarrow> nat option" where
  "tokenOf gv c = ck_token (gv_checks gv ! c)"

definition modelOf :: "Governor \<Rightarrow> nat \<Rightarrow> string" where
  "modelOf gv c = ck_model (gv_checks gv ! c)"

definition onLedger :: "(Ledger \<Rightarrow> Ledger) \<Rightarrow> Governor \<Rightarrow> Governor" where
  "onLedger f gv = gv\<lparr>gv_ledger := f (gv_ledger gv)\<rparr>"

text \<open>The catch clause: an admission that does not reach its caller is released.\<close>

definition throwReleasing :: "nat \<Rightarrow> GovernorFault \<Rightarrow> nat option \<Rightarrow> Governor \<Rightarrow> Governor" where
  "throwReleasing c err admission gv =
     setPhase c (Done (Inl err)) (case admission of None \<Rightarrow> gv | Some i \<Rightarrow> onLedger (releaseLease i) gv)"

text \<open>\<open>#emitWarning\<close>: join the write in flight, write nothing while the condition is not armed, or write.\<close>

definition emitWarning :: "Governor \<Rightarrow> nat option \<times> Governor" where
  "emitWarning gv =
     (case gv_warningInFlight gv of
        Some w \<Rightarrow> (Some w, gv)
      | None \<Rightarrow>
          if \<not> ld_warningArmed (gv_ledger gv) then (None, gv)
          else let w = length (gv_warnings gv) in
            (Some w, (onLedger (\<lambda>ld. ld\<lparr>ld_warningArmed := False\<rparr>) gv)\<lparr>gv_warnings := gv_warnings gv @ [None], gv_warningInFlight := Some w\<rparr>))"

definition warningWritten :: "bool \<Rightarrow> Governor \<Rightarrow> Governor" where
  "warningWritten ok gv =
     (case gv_warningInFlight gv of None \<Rightarrow> gv
      | Some w \<Rightarrow> (if ok then gv else onLedger (\<lambda>ld. ld\<lparr>ld_warningArmed := True\<rparr>) gv)
          \<lparr>gv_warnings := (gv_warnings gv)[w := Some ok], gv_warningInFlight := None\<rparr>)"

text \<open>\<open>#assertAllowanceLive\<close>: a check with an owner suspends in the predicate of the owner.\<close>

definition askThen :: "nat \<Rightarrow> Stage \<Rightarrow> (Governor \<Rightarrow> Governor) \<Rightarrow> Governor \<Rightarrow> Governor" where
  "askThen c stage go gv = (if tokenOf gv c = None then go gv else setPhase c (Asking stage) gv)"

definition returnStage :: "nat \<Rightarrow> nat option \<Rightarrow> Governor \<Rightarrow> Governor" where
  "returnStage c admission gv = setPhase c (Done (Inr admission)) gv"

definition verdictStage :: "nat \<Rightarrow> BudgetCheckResult \<Rightarrow> nat option \<Rightarrow> Governor \<Rightarrow> Governor" where
  "verdictStage c result admission gv =
     (if result = Allow \<or> overridesCap (tokenOf gv c) result then returnStage c admission gv
      else case result of
        Unpriced model \<Rightarrow>
          if model \<in> set (gv_unpricedNotified gv) then askThen c (ToReturn admission) (returnStage c admission) gv
          else setPhase c (UnpricedNotice admission) (gv\<lparr>gv_unpricedNotified := set_add model (gv_unpricedNotified gv)\<rparr>)
      | Warn _ _ _ \<Rightarrow> (case emitWarning gv of (w, gv1) \<Rightarrow> setPhase c (Warning w admission) gv1)
      | PauseForGate e \<Rightarrow> throwReleasing c (BudgetPaused e) admission gv
      | Fail e \<Rightarrow> throwReleasing c (BudgetExceeded e) admission gv
      | Allow \<Rightarrow> returnStage c admission gv)"

definition gapStage :: "nat \<Rightarrow> string list \<Rightarrow> BudgetCheckResult \<Rightarrow> nat option \<Rightarrow> Governor \<Rightarrow> Governor" where
  "gapStage c gaps result admission gv =
     (case dropWhile (\<lambda>m. (modelOf gv c, m) \<in> set (gv_modalityNotified gv)) gaps of
        [] \<Rightarrow> (if permits (tokenOf gv c) result
               then askThen c (ToVerdict result admission) (verdictStage c result admission) gv
               else verdictStage c result admission gv)
      | m # rest \<Rightarrow> setPhase c (GapNotice rest result admission)
                      (gv\<lparr>gv_modalityNotified := set_add (modelOf gv c, m) (gv_modalityNotified gv)\<rparr>))"

definition afterAdmission :: "nat \<Rightarrow> BudgetEvaluation \<Rightarrow> nat option \<Rightarrow> Governor \<Rightarrow> Governor" where
  "afterAdmission c ev admission gv =
     (if be_unpricedModalities ev = [] then verdictStage c (be_result ev) admission gv
      else gapStage c (be_unpricedModalities ev) (be_result ev) admission gv)"

definition decideStage :: "Budget \<Rightarrow> nat \<Rightarrow> EstimateResult \<Rightarrow> Governor \<Rightarrow> Governor" where
  "decideStage b c estimate gv =
     (case evaluate b (modelOf gv c) (tokenOf gv c) estimate (gv_ledger gv) of (ev, ld) \<Rightarrow>
        let gv1 = gv\<lparr>gv_ledger := ld\<rparr> in
        if permits (tokenOf gv c) (be_result ev) then
          case admitPermitted b (modelOf gv c) (tokenOf gv c) (be_estimateMicrocents ev) ld of
            (Inl err, ld2) \<Rightarrow> setPhase c (Done (Inl err)) (gv\<lparr>gv_ledger := ld2\<rparr>)
          | (Inr admission, ld2) \<Rightarrow> afterAdmission c ev admission (gv\<lparr>gv_ledger := ld2\<rparr>)
        else afterAdmission c ev None gv1)"

definition evaluateStage :: "Budget \<Rightarrow> nat \<Rightarrow> Governor \<Rightarrow> Governor" where
  "evaluateStage b c gv =
     (if bud_max_cost_microcents b \<le> 0 \<and> tokenOf gv c = None then returnStage c None gv
      else setPhase c Pricing gv)"

definition waitStage :: "Budget \<Rightarrow> nat \<Rightarrow> Governor \<Rightarrow> Governor" where
  "waitStage b c gv =
     (if gv_legacy gv = [] then evaluateStage b c gv else setPhase c (Holding (mvalues (gv_legacy gv))) gv)"

definition legacyStage :: "Budget \<Rightarrow> nat \<Rightarrow> Governor \<Rightarrow> Governor" where
  "legacyStage b c gv = (if gv_legacy gv = [] then waitStage b c gv else setPhase c HoldNotice gv)"

definition barrierStage :: "Budget \<Rightarrow> nat \<Rightarrow> Governor \<Rightarrow> Governor" where
  "barrierStage b c gv =
     (if 0 < ld_pending (gv_ledger gv) \<or> ld_failure (gv_ledger gv) \<noteq> None then setPhase c Flushing gv
      else legacyStage b c gv)"

fun enter :: "Budget \<Rightarrow> nat \<Rightarrow> Stage \<Rightarrow> Governor \<Rightarrow> Governor" where
  "enter b c ToBarrier gv = barrierStage b c gv"
| "enter b c ToLegacy gv = legacyStage b c gv"
| "enter b c ToWait gv = waitStage b c gv"
| "enter b c (ToDecide estimate) gv = decideStage b c estimate gv"
| "enter b c (ToVerdict result admission) gv = verdictStage c result admission gv"
| "enter b c (ToReturn admission) gv = returnStage c admission gv"

fun stageAdmission :: "Stage \<Rightarrow> nat option" where
  "stageAdmission (ToVerdict result admission) = admission"
| "stageAdmission (ToReturn admission) = admission"
| "stageAdmission _ = None"

definition checkPreEgress :: "Budget \<Rightarrow> string \<Rightarrow> nat option \<Rightarrow> Governor \<Rightarrow> Governor" where
  "checkPreEgress b model token gv =
     (let c = length (gv_checks gv);
          gv1 = gv\<lparr>gv_checks := gv_checks gv @ [\<lparr>ck_model = model, ck_token = token, ck_phase = Asking ToBarrier\<rparr>]\<rparr>
      in askThen c ToBarrier (barrierStage b c) gv1)"

section \<open>Events\<close>

text \<open>The owner of check \<open>c\<close> answers: \<open>validateLive\<close> decides, an admission that lost its owner is released.\<close>

definition answerCheck :: "Budget \<Rightarrow> nat \<Rightarrow> bool \<Rightarrow> Governor \<Rightarrow> Governor option" where
  "answerCheck b c live gv =
     (case (ck_phase (gv_checks gv ! c), tokenOf gv c) of
        (Asking stage, Some t) \<Rightarrow>
          (case validateLive t (stageAdmission stage \<noteq> None) (\<lambda>bk. (live, bk)) (ld_book (gv_ledger gv)) of
             (refused, bk) \<Rightarrow>
               let gv1 = onLedger (\<lambda>ld. ld\<lparr>ld_book := bk\<rparr>) gv in
               Some (case refused of
                       None \<Rightarrow> enter b c stage gv1
                     | Some r \<Rightarrow> throwReleasing c (allowanceError b r (gv_ledger gv)) (stageAdmission stage) gv1))
      | _ \<Rightarrow> None)"

text \<open>\<open>flushCommitments\<close> ends when no write is outstanding, and throws a retained failure once.\<close>

definition flushCommitments :: "Ledger \<Rightarrow> (GovernorFault option \<times> Ledger) option" where
  "flushCommitments ld =
     (if 0 < ld_pending ld then None
      else Some (case ld_failure ld of
        None \<Rightarrow> (None, ld) | Some f \<Rightarrow> (Some (CommitmentNotDurable f), ld\<lparr>ld_failure := None\<rparr>)))"

definition resumeCheck :: "Budget \<Rightarrow> nat \<Rightarrow> Governor \<Rightarrow> Governor option" where
  "resumeCheck b c gv =
     (case ck_phase (gv_checks gv ! c) of
        Flushing \<Rightarrow> (case flushCommitments (gv_ledger gv) of
            None \<Rightarrow> None
          | Some (Some err, ld) \<Rightarrow> Some (setPhase c (Done (Inl err)) (gv\<lparr>gv_ledger := ld\<rparr>))
          | Some (None, ld) \<Rightarrow> Some (askThen c ToLegacy (legacyStage b c) gv))
      | HoldNotice \<Rightarrow> Some (askThen c ToWait (waitStage b c) gv)
      | Holding entries \<Rightarrow>
          if list_all (\<lambda>h. h \<notin> set (mvalues (gv_legacy gv))) entries then Some (askThen c ToWait (waitStage b c) gv) else None
      | GapNotice rest result admission \<Rightarrow> Some (gapStage c rest result admission gv)
      | UnpricedNotice admission \<Rightarrow> Some (askThen c (ToReturn admission) (returnStage c admission) gv)
      | Warning None admission \<Rightarrow> Some (askThen c (ToReturn admission) (returnStage c admission) gv)
      | Warning (Some w) admission \<Rightarrow> (case gv_warnings gv ! w of
            None \<Rightarrow> None
          | Some True \<Rightarrow> Some (askThen c (ToReturn admission) (returnStage c admission) gv)
          | Some False \<Rightarrow> Some (throwReleasing c WarningFault admission gv))
      | _ \<Rightarrow> None)"

definition priceReturned :: "Budget \<Rightarrow> nat \<Rightarrow> EstimateResult option \<Rightarrow> Governor \<Rightarrow> Governor option" where
  "priceReturned b c priced gv =
     (if ck_phase (gv_checks gv ! c) = Pricing then
        Some (case priced of
                None \<Rightarrow> setPhase c (Done (Inl PricingFault)) gv
              | Some estimate \<Rightarrow> askThen c (ToDecide estimate) (decideStage b c estimate) gv)
      else None)"

definition registerLegacyMediaJob :: "string \<Rightarrow> Governor \<Rightarrow> Governor" where
  "registerLegacyMediaJob nodeId gv =
     (if mget (gv_legacy gv) nodeId \<noteq> None then gv
      else gv\<lparr>gv_legacy := mset_key nodeId (gv_nextHold gv) (gv_legacy gv), gv_nextHold := Suc (gv_nextHold gv)\<rparr>)"

definition clearLegacyMediaJob :: "string \<Rightarrow> Governor \<Rightarrow> Governor" where
  "clearLegacyMediaJob nodeId gv = gv\<lparr>gv_legacy := mdelete nodeId (gv_legacy gv)\<rparr>"

definition releaseAllLegacyMediaJobHolds :: "Governor \<Rightarrow> Governor" where
  "releaseAllLegacyMediaJobHolds gv = foldl (\<lambda>g nodeId. clearLegacyMediaJob nodeId g) gv (mkeys (gv_legacy gv))"

definition activateDispatchAllowance :: "string \<Rightarrow> int \<Rightarrow> int \<Rightarrow> bool \<Rightarrow> Ledger \<Rightarrow> Ledger" where
  "activateDispatchAllowance nodeId dispatchId amount live ld =
     ld\<lparr>ld_book := snd (activate nodeId dispatchId amount (\<lambda>bk. (live, bk)) (ld_book ld))\<rparr>"

definition closeDispatchAllowance :: "nat \<Rightarrow> Ledger \<Rightarrow> Ledger" where
  "closeDispatchAllowance token ld = ld\<lparr>ld_book := closeAllowance token (ld_book ld)\<rparr>"

datatype GovEvent =
    CheckStarted string "nat option"
  | OwnerAnswered nat bool
  | CheckResumed nat
  | PriceReturned nat "EstimateResult option"
  | LeaseSettled nat int
  | LeaseCommitted nat "string option" "nat option"
  | LeaseReleased nat
  | DebitAnswered nat bool
  | CostReported int
  | ConservativeRestored int
  | ConservativeReleased
  | CommitmentEnded bool
  | WarningEnded bool
  | OwnerFlushed
  | LegacyRegistered string
  | LegacyCleared string
  | LegacyAllCleared
  | AllowanceActivated string int int bool
  | AllowanceClosed nat
  | AcceptedReserved string int
  | CommittedReserved string EstimateResult

definition onLease :: "nat \<Rightarrow> (Ledger \<Rightarrow> Ledger) \<Rightarrow> Governor \<Rightarrow> Governor option" where
  "onLease i f gv = (if i < length (ld_leases (gv_ledger gv)) then Some (onLedger f gv) else None)"

fun govStep :: "Budget \<Rightarrow> GovEvent \<Rightarrow> Governor \<Rightarrow> Governor option" where
  "govStep b (CheckStarted model token) gv = Some (checkPreEgress b model token gv)"
| "govStep b (OwnerAnswered c live) gv = (if c < length (gv_checks gv) then answerCheck b c live gv else None)"
| "govStep b (CheckResumed c) gv = (if c < length (gv_checks gv) then resumeCheck b c gv else None)"
| "govStep b (PriceReturned c priced) gv = (if c < length (gv_checks gv) then priceReturned b c priced gv else None)"
| "govStep b (LeaseSettled i realized) gv = onLease i (\<lambda>ld. snd (settle i realized ld)) gv"
| "govStep b (LeaseCommitted i nodeId attempt) gv = onLease i (settleAtReservedEstimate i nodeId attempt) gv"
| "govStep b (LeaseReleased i) gv = onLease i (releaseLease i) gv"
| "govStep b (DebitAnswered k live) gv = Some (onLedger (answerFinish k live) gv)"
| "govStep b (CostReported reported) gv = Some (onLedger (updateCost reported) gv)"
| "govStep b (ConservativeRestored m) gv = Some (onLedger (restoreConservativeCost m) gv)"
| "govStep b ConservativeReleased gv = Some (onLedger (\<lambda>ld. snd (releaseConservativeCommitments ld)) gv)"
| "govStep b (CommitmentEnded ok) gv = Some (onLedger (commitmentWritten ok) gv)"
| "govStep b (WarningEnded ok) gv = Some (warningWritten ok gv)"
| "govStep b OwnerFlushed gv = map_option (\<lambda>(_, ld). gv\<lparr>gv_ledger := ld\<rparr>) (flushCommitments (gv_ledger gv))"
| "govStep b (LegacyRegistered nodeId) gv = Some (registerLegacyMediaJob nodeId gv)"
| "govStep b (LegacyCleared nodeId) gv = Some (clearLegacyMediaJob nodeId gv)"
| "govStep b LegacyAllCleared gv = Some (releaseAllLegacyMediaJobHolds gv)"
| "govStep b (AllowanceActivated nodeId dispatchId amount live) gv =
     Some (onLedger (activateDispatchAllowance nodeId dispatchId amount live) gv)"
| "govStep b (AllowanceClosed token) gv = Some (onLedger (closeDispatchAllowance token) gv)"
| "govStep b (AcceptedReserved model accepted) gv = Some (onLedger (\<lambda>ld. snd (reserveAcceptedCost model accepted ld)) gv)"
| "govStep b (CommittedReserved model estimate) gv =
     Some (onLedger (\<lambda>ld. snd (reserveCommittedEgress model estimate ld)) gv)"

end
