(* ===== verification/Budget_Safety.thy ===== *)
theory Budget_Safety
  imports Budget_Governor
begin

text \<open>
  The books of the governor balance: what is reserved is the sum of the open leases and of the
  reservations, the money of an owner is remaining, held, or on its way back. From this the main result
  of the component: whatever the interleaving, the exposure of a run stays within its cap and what was
  granted around the cap.
\<close>

section \<open>Sums over lists\<close>

lemma sum_list_upd:
  fixes f :: "'a \<Rightarrow> int"
  shows "k < length xs \<Longrightarrow> sum_list (map f (xs[k := x])) = sum_list (map f xs) + f x - f (xs ! k)"
  by (induction xs arbitrary: k) (auto split: nat.split)

lemma sum_list_drop_nth:
  fixes f :: "'a \<Rightarrow> int"
  shows "k < length xs \<Longrightarrow> sum_list (map f (take k xs @ drop (Suc k) xs)) = sum_list (map f xs) - f (xs ! k)"
proof -
  assume "k < length xs"
  then have "sum_list (map f xs) = sum_list (map f (take k xs @ xs ! k # drop (Suc k) xs))"
    by (simp only: id_take_nth_drop[symmetric])
  then show ?thesis by simp
qed

lemma sum_mset_key:
  fixes v :: int
  shows "mget m k = None \<Longrightarrow> sum_list (mvalues (mset_key k v m)) = sum_list (mvalues m) + v"
  by (induction m) (auto simp: mvalues_def mget_def split: if_splits)

lemma sum_mdelete:
  fixes v :: int
  shows "map_invar m \<Longrightarrow> mget m k = Some v \<Longrightarrow> sum_list (mvalues (mdelete k m)) = sum_list (mvalues m) - v"
proof (induction m)
  case (Cons p m)
  obtain k' v' where p: "p = (k', v')" by (cases p)
  show ?case
  proof (cases "k' = k")
    case True
    then have "mdelete k m = m" using Cons.prems(1) by (auto simp: p mdelete_def map_invar_def filter_id_conv image_iff)
    then show ?thesis using Cons.prems True by (simp add: p mvalues_def mget_def mdelete_def)
  next
    case False
    then show ?thesis using Cons by (simp add: p mvalues_def mget_def mdelete_def map_invar_def)
  qed
qed simp

section \<open>Money in the allowance book\<close>

definition unspent :: "Book \<Rightarrow> int" where
  "unspent bk = sum_list (map ow_remaining (bk_tokens bk))"

definition approved :: "Book \<Rightarrow> int" where
  "approved bk = sum_list (map ow_initial (bk_tokens bk))"

text \<open>What a debit that is being finished gives back to its owner.\<close>

fun refund :: "Book \<Rightarrow> finishing \<Rightarrow> int" where
  "refund bk (d, actual, released) =
     debitAmount (bk_debits bk ! d) -
     (if released then 0 else case actual of None \<Rightarrow> debitAmount (bk_debits bk ! d) | Some a \<Rightarrow> a)"

definition debits_kept :: "Book \<Rightarrow> Book \<Rightarrow> bool" where
  "debits_kept bk bk' \<longleftrightarrow> length (bk_debits bk) \<le> length (bk_debits bk') \<and>
     (\<forall>d < length (bk_debits bk). debitAmount (bk_debits bk' ! d) = debitAmount (bk_debits bk ! d))"

lemma updOwner_money:
  assumes "\<And>w. ow_initial (f w) = ow_initial w"
  shows "approved (updOwner t f bk) = approved bk"
    and "unspent (updOwner t f bk) =
      (if t < length (bk_tokens bk) then unspent bk + ow_remaining (f (owner bk t)) - ow_remaining (owner bk t) else unspent bk)"
  using assms by (auto simp: approved_def unspent_def updOwner_def sum_list_upd)

lemma flags_money:
  assumes "flags_only f"
  shows "approved (updOwner t f bk) = approved bk" "unspent (updOwner t f bk) = unspent bk" "debits_kept bk (updOwner t f bk)"
  using assms by (auto simp: flags_only_def updOwner_money debits_kept_def)

lemma freeSlot_money [simp]: "approved (freeSlot t bk) = approved bk" "unspent (freeSlot t bk) = unspent bk" "bk_debits (freeSlot t bk) = bk_debits bk"
  by (simp_all add: freeSlot_def updOwner_money)

lemma markSettled_money [simp]: "approved (markSettled i bk) = approved bk" "unspent (markSettled i bk) = unspent bk"
  by (simp_all add: markSettled_def approved_def unspent_def)

lemma debitAmount_settled [simp]: "debitAmount (d\<lparr>db_settled := True\<rparr>) = debitAmount d"
  by (simp add: debitAmount_def)

lemma markSettled_debits: "debits_kept bk (markSettled i bk)"
proof -
  have "debitAmount ((bk_debits bk)[i := (bk_debits bk ! i)\<lparr>db_settled := True\<rparr>] ! d) = debitAmount (bk_debits bk ! d)"
    if "d < length (bk_debits bk)" for d
    using that by (cases "i = d") simp_all
  then show ?thesis by (simp add: debits_kept_def markSettled_def)
qed

lemma reconcile_initial [simp]: "ow_initial (reconcile e actual released w) = ow_initial w"
  by (simp add: reconcile_def Let_def)

lemma reconcile_refund:
  assumes "0 \<le> e - (if released then 0 else case actual of None \<Rightarrow> e | Some a \<Rightarrow> a)"
  shows "ow_remaining (reconcile e actual released w) = ow_remaining w + (e - (if released then 0 else case actual of None \<Rightarrow> e | Some a \<Rightarrow> a))"
  using assms by (auto simp: reconcile_def Let_def split: option.splits)

text \<open>Finishing a debit gives back at most its refund.\<close>

lemma finishDebit_money:
  fixes live :: bool
  assumes r: "0 \<le> refund bk (d, actual, released)"
    and bk': "bk' = snd (finishDebit d actual released (\<lambda>b. (live, b)) bk)"
  shows "unspent bk' \<le> unspent bk + refund bk (d, actual, released)" and "approved bk' = approved bk" and "debits_kept bk bk'"
proof -
  let ?e = "debitAmount (bk_debits bk ! d)" and ?t = "db_token (bk_debits bk ! d)"
  let ?m = "markSettled d bk"
  have "bk' = bk \<or> bk' = freeSlot ?t ?m \<or> bk' = freeSlot ?t (closeAllowance ?t ?m) \<or>
      bk' = freeSlot ?t (updOwner ?t (reconcile ?e actual released) ?m)"
    unfolding bk' finishDebit_def Let_def debitAmount_def by simp
  then consider "bk' = bk" | "bk' = freeSlot ?t ?m" | "bk' = freeSlot ?t (closeAllowance ?t ?m)"
    | "bk' = freeSlot ?t (updOwner ?t (reconcile ?e actual released) ?m)" by blast
  then have "unspent bk' \<le> unspent bk + refund bk (d, actual, released) \<and> approved bk' = approved bk \<and>
      (bk' = bk \<or> bk_debits bk' = bk_debits ?m)"
  proof cases
    case 4
    then show ?thesis using r by (simp add: updOwner_money reconcile_refund)
  qed (use r in \<open>simp_all add: closeAllowance_def flags_money\<close>)
  then show "unspent bk' \<le> unspent bk + refund bk (d, actual, released)" "approved bk' = approved bk" "debits_kept bk bk'"
    using markSettled_debits[of bk d] by (auto simp: debits_kept_def)
qed

lemma acquire_money:
  assumes "acquire t estimate bk = (r, bk')"
  shows "approved bk' = approved bk \<and> debits_kept bk bk' \<and>
    (case r of Inr (Admitted d) \<Rightarrow> d < length (bk_debits bk') \<and>
           debitAmount (bk_debits bk' ! d) = (case estimate of None \<Rightarrow> 0 | Some e \<Rightarrow> e) \<and>
           (case estimate of None \<Rightarrow> True | Some e \<Rightarrow> 0 \<le> e) \<and>
           unspent bk' = unspent bk - (case estimate of None \<Rightarrow> 0 | Some e \<Rightarrow> e)
     | _ \<Rightarrow> unspent bk' = unspent bk)"
  using assms
  by (auto simp: acquire_def Let_def updOwner_def approved_def unspent_def sum_list_upd debits_kept_def debitAmount_def nth_append current_def
      split: if_splits option.splits)

lemma validateLive_money:
  assumes "bk' = snd (validateLive t admitted (\<lambda>b. (live, b)) bk)"
  shows "approved bk' = approved bk" "unspent bk' = unspent bk" "debits_kept bk bk'"
  using assms flags_money[of "\<lambda>w. w\<lparr>ow_closed := True\<rparr>"]
  by (auto simp: validateLive_def Let_def closeAllowance_def debits_kept_def)

lemma install_money:
  "approved (snd (install n i a bk)) = approved bk + a" "unspent (snd (install n i a bk)) = unspent bk + a" "bk_debits (snd (install n i a bk)) = bk_debits bk"
  using flags_money(1,2)[of "\<lambda>w. w\<lparr>ow_closed := True\<rparr>"]
  by (auto simp: install_def Let_def approved_def unspent_def split: option.split)

lemma activate_money:
  assumes "bk' = snd (activate n i a (\<lambda>b. (live, b)) bk)"
  shows "approved bk' - approved bk = unspent bk' - unspent bk" "debits_kept bk bk'"
proof -
  have "bk' = bk \<or> bk' = snd (install n i a bk)" using assms by (auto simp: activate_def split: prod.split)
  then show "approved bk' - approved bk = unspent bk' - unspent bk" "debits_kept bk bk'"
    using install_money[of n i a bk] by (auto simp: debits_kept_def)
qed

section \<open>The ledger balances\<close>

definition amount :: "int option \<Rightarrow> int" where
  "amount x = (case x of None \<Rightarrow> 0 | Some e \<Rightarrow> e)"

lemma amount_simps [simp]: "amount None = 0" "amount (Some e) = e"
  by (simp_all add: amount_def)

definition leaseHeld :: "Lease \<Rightarrow> int" where
  "leaseHeld l = (if ls_settled l then 0 else amount (ls_estimate l))"

definition debitHeld :: "Lease \<Rightarrow> int" where
  "debitHeld l = (if ls_settled l \<or> ls_debit l = None then 0 else amount (ls_estimate l))"

text \<open>A lease holds its reservation under an identifier of its own until it is closed.\<close>

definition lease_ok :: "(nat, int) jsmap \<Rightarrow> Book \<Rightarrow> Lease \<Rightarrow> bool" where
  "lease_ok adm bk l \<longleftrightarrow>
     0 \<le> amount (ls_estimate l) \<and> (ls_id l = None \<longleftrightarrow> ls_estimate l = None) \<and>
     (\<not> ls_settled l \<longrightarrow> (\<forall>k. ls_id l = Some k \<longrightarrow> mget adm k = ls_estimate l)) \<and>
     (\<forall>d. ls_debit l = Some d \<longrightarrow> d < length (bk_debits bk) \<and> debitAmount (bk_debits bk ! d) = amount (ls_estimate l))"

definition entry_ok :: "Book \<Rightarrow> finishing \<Rightarrow> bool" where
  "entry_ok bk entry \<longleftrightarrow> fst entry < length (bk_debits bk) \<and> 0 \<le> refund bk entry"

definition bal :: "Ledger \<Rightarrow> bool" where
  "bal ld \<longleftrightarrow>
     map_invar (ld_admissions ld) \<and>
     ld_reserved ld = sum_list (map leaseHeld (ld_leases ld)) \<and> ld_reserved ld = sum_list (mvalues (ld_admissions ld)) \<and>
     (\<forall>l \<in> set (ld_leases ld). lease_ok (ld_admissions ld) (ld_book ld) l) \<and>
     (\<forall>i < length (ld_leases ld). \<forall>j < length (ld_leases ld). i \<noteq> j \<longrightarrow> ls_id (ld_leases ld ! i) \<noteq> None \<longrightarrow>
        ls_id (ld_leases ld ! i) \<noteq> ls_id (ld_leases ld ! j)) \<and>
     (\<forall>l \<in> set (ld_leases ld). \<forall>k. ls_id l = Some k \<longrightarrow> k < ld_nextAdmissionId ld) \<and>
     (\<forall>k. mget (ld_admissions ld) k \<noteq> None \<longrightarrow> k < ld_nextAdmissionId ld)"

definition ledger_ok :: "Ledger \<Rightarrow> bool" where
  "ledger_ok ld \<longleftrightarrow>
     bal ld \<and> 0 \<le> ld_conservative ld \<and> book_inv (ld_book ld) \<and> (\<forall>x \<in> set (ld_finishing ld). entry_ok (ld_book ld) x)"

definition refunds :: "Ledger \<Rightarrow> int" where
  "refunds ld = sum_list (map (refund (ld_book ld)) (ld_finishing ld))"

definition onDebit :: "Ledger \<Rightarrow> int" where
  "onDebit ld = sum_list (map debitHeld (ld_leases ld))"

text \<open>The two quantities that no step without a fresh admission increases.\<close>

definition risk :: "Ledger \<Rightarrow> int" where
  "risk ld = exposure ld + unspent (ld_book ld) + refunds ld - approved (ld_book ld)"

definition claims :: "Ledger \<Rightarrow> int" where
  "claims ld = unspent (ld_book ld) + refunds ld + onDebit ld - approved (ld_book ld)"

lemma ledger_bal: "ledger_ok ld \<Longrightarrow> bal ld"
  by (simp add: ledger_ok_def)

definition prudent :: "Ledger \<Rightarrow> Ledger \<Rightarrow> bool" where
  "prudent ld ld' \<longleftrightarrow> ledger_ok ld' \<and> risk ld' \<le> risk ld \<and> claims ld' \<le> claims ld"

lemma prudent_refl: "ledger_ok ld \<Longrightarrow> prudent ld ld"
  by (simp add: prudent_def)

lemma prudent_trans: "prudent a b \<Longrightarrow> prudent b c \<Longrightarrow> prudent a c"
  by (simp add: prudent_def)

text \<open>A change of the book that keeps the debits.\<close>

lemma book_change:
  assumes ok: "ledger_ok ld" and kept: "debits_kept (ld_book ld) bk" and inv: "book_inv bk"
  shows "ledger_ok (ld\<lparr>ld_book := bk\<rparr>)" and "refunds (ld\<lparr>ld_book := bk\<rparr>) = refunds ld"
    and "onDebit (ld\<lparr>ld_book := bk\<rparr>) = onDebit ld" and "exposure (ld\<lparr>ld_book := bk\<rparr>) = exposure ld"
proof -
  have r: "refund bk x = refund (ld_book ld) x" if "fst x < length (bk_debits (ld_book ld))" for x
    using kept that by (cases x) (simp add: debits_kept_def split: option.split)
  have e: "entry_ok (ld_book ld) x" if "x \<in> set (ld_finishing ld)" for x using ok that by (simp add: ledger_ok_def bal_def)
  then have "entry_ok bk x" if "x \<in> set (ld_finishing ld)" for x
    using e[OF that] r[of x] kept by (simp add: entry_ok_def debits_kept_def)
  moreover have "lease_ok (ld_admissions ld) bk l" if "l \<in> set (ld_leases ld)" for l
    using ok kept that by (fastforce simp: ledger_ok_def bal_def lease_ok_def debits_kept_def)
  ultimately show "ledger_ok (ld\<lparr>ld_book := bk\<rparr>)" using ok inv by (simp add: ledger_ok_def bal_def)
  have "map (refund bk) (ld_finishing ld) = map (refund (ld_book ld)) (ld_finishing ld)"
    using e r by (intro map_cong) (auto simp only: entry_ok_def)
  then show "refunds (ld\<lparr>ld_book := bk\<rparr>) = refunds ld" by (simp add: refunds_def del: map_eq_conv)
qed (simp_all add: onDebit_def exposure_def)

lemma book_prudent:
  assumes "ledger_ok ld" and "debits_kept (ld_book ld) bk" and "book_inv bk"
    and "unspent bk - approved bk \<le> unspent (ld_book ld) - approved (ld_book ld)"
  shows "prudent ld (ld\<lparr>ld_book := bk\<rparr>)"
  using assms book_change[OF assms(1-3)] by (simp add: prudent_def risk_def claims_def)

text \<open>Finishing a debit moves at most its refund.\<close>

lemma host_const: "host_ok (\<lambda>b. (live, b))"
  by (simp add: host_ok_def evolves_refl)

lemma finish_book:
  assumes "ledger_ok ld" and e: "entry_ok (ld_book ld) (d, actual, released)"
    and bk: "bk = snd (finishDebit d actual released (\<lambda>b. (live, b)) (ld_book ld))"
  shows "book_inv bk" and "debits_kept (ld_book ld) bk" and "approved bk = approved (ld_book ld)"
    and "unspent bk \<le> unspent (ld_book ld) + refund (ld_book ld) (d, actual, released)"
proof -
  show "book_inv bk"
    using assms finishDebit_inv[OF _ host_const] by (simp add: ledger_ok_def bal_def entry_ok_def)
  show "debits_kept (ld_book ld) bk" "approved bk = approved (ld_book ld)"
    "unspent bk \<le> unspent (ld_book ld) + refund (ld_book ld) (d, actual, released)"
    using finishDebit_money[OF _ bk] e by (simp_all add: entry_ok_def)
qed

lemma answerFinish_prudent:
  assumes ok: "ledger_ok ld"
  shows "prudent ld (answerFinish k live ld)"
proof (cases "k < length (ld_finishing ld)")
  case k: True
  obtain d actual released where x: "ld_finishing ld ! k = (d, actual, released)" by (cases "ld_finishing ld ! k")
  define fs where "fs = take k (ld_finishing ld) @ drop (Suc k) (ld_finishing ld)"
  define bk where "bk = snd (finishDebit d actual released (\<lambda>b. (live, b)) (ld_book ld))"
  let ?ld1 = "ld\<lparr>ld_finishing := fs\<rparr>"
  have "set fs \<subseteq> set (ld_finishing ld)" by (auto simp: fs_def dest: in_set_takeD in_set_dropD)
  then have ok1: "ledger_ok ?ld1" using ok by (auto simp: ledger_ok_def bal_def)
  have r1: "refunds ?ld1 = refunds ld - refund (ld_book ld) (d, actual, released)"
    using k x by (simp add: refunds_def fs_def sum_list_drop_nth del: refund.simps map_append)
  have "(d, actual, released) \<in> set (ld_finishing ld)" using k x by (metis nth_mem)
  then have "entry_ok (ld_book ?ld1) (d, actual, released)" using ok by (simp add: ledger_ok_def bal_def)
  note b = finish_book[OF ok1 this, of bk live]
  have "answerFinish k live ld = ?ld1\<lparr>ld_book := bk\<rparr>" using k x by (simp add: answerFinish_def fs_def bk_def)
  then show ?thesis
    using b book_change[OF ok1, of bk] r1 by (simp add: prudent_def risk_def claims_def bk_def exposure_def onDebit_def)
qed (simp add: answerFinish_def prudent_refl[OF ok])

lemma startFinish_money:
  assumes ok: "ledger_ok ld" and e: "\<And>d. debit = Some d \<Longrightarrow> entry_ok (ld_book ld) (d, actual, released)"
  defines "given \<equiv> (case debit of None \<Rightarrow> 0 | Some d \<Rightarrow> refund (ld_book ld) (d, actual, released))"
  shows "ledger_ok (startFinish debit actual released ld)"
    and "risk (startFinish debit actual released ld) \<le> risk ld + given"
    and "claims (startFinish debit actual released ld) \<le> claims ld + given"
proof -
  have "ledger_ok (startFinish debit actual released ld) \<and> risk (startFinish debit actual released ld) \<le> risk ld + given \<and>
    claims (startFinish debit actual released ld) \<le> claims ld + given"
  proof (cases debit)
    case None
    then show ?thesis using ok by (simp add: startFinish_def given_def)
  next
    case (Some d)
    note entry = e[OF Some]
    show ?thesis
    proof (cases "current (ld_book ld) (db_token (bk_debits (ld_book ld) ! d))")
      case True
      then show ?thesis using ok entry
        by (simp add: Some startFinish_def given_def risk_def claims_def ledger_ok_def bal_def refunds_def exposure_def onDebit_def del: refund.simps)
    next
      case False
      define bk where "bk = snd (finishDebit d actual released (\<lambda>b. (False, b)) (ld_book ld))"
      note b = finish_book[OF ok entry, of bk False]
      show ?thesis
        using b book_change[OF ok, of bk] False
        by (simp add: Some startFinish_def given_def bk_def[symmetric] risk_def claims_def del: refund.simps)
    qed
  qed
  then show "ledger_ok (startFinish debit actual released ld)"
    "risk (startFinish debit actual released ld) \<le> risk ld + given"
    "claims (startFinish debit actual released ld) \<le> claims ld + given" by blast+
qed

section \<open>Closing a lease\<close>

lemma lease_okD: "bal ld \<Longrightarrow> i < length (ld_leases ld) \<Longrightarrow> lease_ok (ld_admissions ld) (ld_book ld) (ld_leases ld ! i)"
  by (simp add: bal_def)

lemma lease_ids: "bal ld \<Longrightarrow> i < length (ld_leases ld) \<Longrightarrow> j < length (ld_leases ld) \<Longrightarrow> i \<noteq> j \<Longrightarrow>
    ls_id (ld_leases ld ! i) = Some k \<Longrightarrow> ls_id (ld_leases ld ! j) \<noteq> Some k"
  unfolding bal_def by (metis option.distinct(1))

lemma settled_lease_ok: "lease_ok adm bk l \<Longrightarrow> lease_ok adm' bk (l\<lparr>ls_settled := True\<rparr>)"
  by (simp add: lease_ok_def)

text \<open>An open lease gives up exactly its estimate, and the ledger still balances.\<close>

lemma taken_bal:
  assumes ok: "bal ld" and i: "i < length (ld_leases ld)" and l: "\<not> ls_settled (ld_leases ld ! i)"
    and t: "takeReservation (ls_id (ld_leases ld ! i)) (markLease i ld) = (r, ld1)"
  defines "e \<equiv> ls_estimate (ld_leases ld ! i)"
  shows "r = e" and "bal ld1" and "ld_reserved ld1 = ld_reserved ld - amount e"
    and "onDebit ld1 = onDebit ld - debitHeld (ld_leases ld ! i)"
    and "ld_book ld1 = ld_book ld" "ld_finishing ld1 = ld_finishing ld" "ld_cumulative ld1 = ld_cumulative ld"
      "ld_conservative ld1 = ld_conservative ld" "ld_commitments ld1 = ld_commitments ld" "ld_pending ld1 = ld_pending ld"
      "ld_leases ld1 = (ld_leases ld)[i := (ld_leases ld ! i)\<lparr>ls_settled := True\<rparr>]"
proof -
  let ?l = "ld_leases ld ! i" and ?ls = "(ld_leases ld)[i := (ld_leases ld ! i)\<lparr>ls_settled := True\<rparr>]"
  have lok: "lease_ok (ld_admissions ld) (ld_book ld) ?l" using lease_okD[OF ok i] .
  define adm where "adm = (case ls_id ?l of None \<Rightarrow> ld_admissions ld | Some k \<Rightarrow> mdelete k (ld_admissions ld))"
  have eq: "r = e \<and> ld1 = ld\<lparr>ld_leases := ?ls, ld_admissions := adm, ld_reserved := ld_reserved ld - amount e\<rparr>"
  proof (cases "ls_id ?l")
    case None
    then show ?thesis using t lok by (cases ld) (auto simp: takeReservation_def markLease_def lease_ok_def e_def adm_def)
  next
    case (Some k)
    then obtain x where "e = Some x" "mget (ld_admissions ld) k = Some x"
      using lok l by (cases e) (auto simp: lease_ok_def e_def)
    then have "takeReservation (ls_id ?l) (markLease i ld) = (e, ld\<lparr>ld_leases := ?ls, ld_admissions := adm, ld_reserved := ld_reserved ld - amount e\<rparr>)"
      using Some by (simp add: takeReservation_def markLease_def adm_def)
    then show ?thesis using t by simp
  qed
  then show "r = e" "ld_reserved ld1 = ld_reserved ld - amount e"
    "ld_book ld1 = ld_book ld" "ld_finishing ld1 = ld_finishing ld" "ld_cumulative ld1 = ld_cumulative ld"
    "ld_conservative ld1 = ld_conservative ld" "ld_commitments ld1 = ld_commitments ld" "ld_pending ld1 = ld_pending ld"
    "ld_leases ld1 = ?ls" by simp_all
  show "onDebit ld1 = onDebit ld - debitHeld ?l" using eq i by (simp add: onDebit_def sum_list_upd debitHeld_def)
  have held: "sum_list (map leaseHeld ?ls) = ld_reserved ld - amount e"
    using ok i l by (simp add: sum_list_upd leaseHeld_def e_def bal_def)
  have vals: "sum_list (mvalues adm) = ld_reserved ld - amount e"
  proof (cases "ls_id ?l")
    case None
    then show ?thesis using ok lok by (simp add: adm_def bal_def lease_ok_def e_def)
  next
    case (Some k)
    then obtain x where "e = Some x" "mget (ld_admissions ld) k = Some x"
      using lok l by (cases e) (auto simp: lease_ok_def e_def)
    then show ?thesis using ok Some by (simp add: adm_def bal_def sum_mdelete)
  qed
  have leases: "lease_ok adm (ld_book ld) (?ls ! j)" if "j < length (ld_leases ld)" for j
  proof (cases "j = i")
    case True
    then show ?thesis using settled_lease_ok[OF lok] i by simp
  next
    case False
    have "lease_ok (ld_admissions ld) (ld_book ld) (ld_leases ld ! j)" using lease_okD[OF ok that] .
    then show ?thesis using False lease_ids[OF ok i that, of "the (ls_id ?l)"]
      by (auto simp: lease_ok_def adm_def split: option.split)
  qed
  have ids: "ls_id (?ls ! j) = ls_id (ld_leases ld ! j)" for j using i by (cases "j = i") simp_all
  have "\<forall>l' \<in> set ?ls. \<exists>j < length (ld_leases ld). l' = ?ls ! j" by (metis in_set_conv_nth length_list_update)
  moreover have "k < ld_nextAdmissionId ld" if "ls_id (?ls ! j) = Some k" "j < length (ld_leases ld)" for j k
    using ok that(1,2) ids nth_mem[OF that(2)] unfolding bal_def by metis
  moreover have "map_invar adm" "\<And>k. mget adm k \<noteq> None \<Longrightarrow> k < ld_nextAdmissionId ld"
    using ok by (auto simp: adm_def bal_def split: option.splits if_splits)
  moreover have "ls_id (?ls ! j) \<noteq> ls_id (?ls ! j')"
    if "j < length (ld_leases ld)" "j' < length (ld_leases ld)" "j \<noteq> j'" "ls_id (?ls ! j) \<noteq> None" for j j'
    using ok that ids unfolding bal_def by metis
  ultimately show "bal ld1"
    using ok eq held vals leases ids unfolding bal_def by (auto simp del: list_update_id)
qed

lemma taken:
  assumes ok: "ledger_ok ld" and i: "i < length (ld_leases ld)" and l: "\<not> ls_settled (ld_leases ld ! i)"
    and t: "takeReservation (ls_id (ld_leases ld ! i)) (markLease i ld) = (r, ld1)"
  shows "ledger_ok ld1"
proof -
  have "bal ld" using ok by (simp add: ledger_ok_def)
  note tk = taken_bal[OF this i l t]
  show ?thesis using ok by (simp add: ledger_ok_def tk)
qed

definition chargeOf :: "int \<Rightarrow> int option \<Rightarrow> bool \<Rightarrow> int" where
  "chargeOf e actual released = (if released then 0 else case actual of None \<Rightarrow> e | Some a \<Rightarrow> a)"

lemma close_prudent:
  assumes ok: "ledger_ok ld" and i: "i < length (ld_leases ld)" and l: "\<not> ls_settled (ld_leases ld ! i)"
    and t: "takeReservation (ls_id (ld_leases ld ! i)) (markLease i ld) = (r, ld1)"
    and ok2: "ledger_ok ld2" and book: "ld_book ld2 = ld_book ld1" "ld_finishing ld2 = ld_finishing ld1" "ld_leases ld2 = ld_leases ld1"
    and x: "exposure ld2 = exposure ld1 + x" "x = chargeOf (amount (ls_estimate (ld_leases ld ! i))) actual released"
      "x \<le> amount (ls_estimate (ld_leases ld ! i))" "0 \<le> x"
  shows "prudent ld (startFinish (ls_debit (ld_leases ld ! i)) actual released ld2)"
proof -
  let ?e = "amount (ls_estimate (ld_leases ld ! i))" and ?debit = "ls_debit (ld_leases ld ! i)"
  note tk = taken_bal[OF ledger_bal[OF ok] i l t]
  have lok: "lease_ok (ld_admissions ld) (ld_book ld) (ld_leases ld ! i)" using lease_okD[OF ledger_bal[OF ok] i] .
  have r: "refund (ld_book ld2) (d, actual, released) = ?e - x" "d < length (bk_debits (ld_book ld2))" if "?debit = Some d" for d
    using lok that x(2) by (simp_all add: lease_ok_def book tk chargeOf_def split: option.split)
  then have e: "entry_ok (ld_book ld2) (d, actual, released)" if "?debit = Some d" for d
    using that x(3) by (simp add: entry_ok_def del: refund.simps)
  have gives: "(case ?debit of None \<Rightarrow> 0 | Some d \<Rightarrow> refund (ld_book ld2) (d, actual, released)) = (if ?debit = None then 0 else ?e - x)"
    using r(1) by (auto split: option.split)
  have "risk ld2 = risk ld - ?e + x"
    using x(1) by (simp add: risk_def book tk refunds_def exposure_def)
  moreover have "claims ld2 = claims ld - debitHeld (ld_leases ld ! i)"
    using tk(4) by (simp add: claims_def book tk(5,6) refunds_def onDebit_def)
  moreover have "debitHeld (ld_leases ld ! i) = (if ?debit = None then 0 else ?e)" using l by (simp add: debitHeld_def)
  moreover have "ledger_ok (startFinish ?debit actual released ld2)"
    "risk (startFinish ?debit actual released ld2) \<le> risk ld2 + (if ?debit = None then 0 else ?e - x)"
    "claims (startFinish ?debit actual released ld2) \<le> claims ld2 + (if ?debit = None then 0 else ?e - x)"
    using startFinish_money[OF ok2, of ?debit actual released] e unfolding gives by blast+
  ultimately show ?thesis using x(3,4) by (simp add: prudent_def split: if_splits)
qed

lemma settle_prudent:
  assumes ok: "ledger_ok ld" and i: "i < length (ld_leases ld)" and x: "realized \<le> amount (ls_estimate (ld_leases ld ! i))"
  shows "prudent ld (snd (settle i realized ld))"
proof (cases "ls_settled (ld_leases ld ! i) \<or> \<not> isSafeInteger realized \<or> realized < 0")
  case True
  then show ?thesis using prudent_refl[OF ok] by (auto simp: settle_def Let_def)
next
  case False
  then have l: "\<not> ls_settled (ld_leases ld ! i)" by blast
  obtain r ld1 where t: "takeReservation (ls_id (ld_leases ld ! i)) (markLease i ld) = (r, ld1)" by fastforce
  define ld2 where "ld2 = (if 0 < realized then ld1\<lparr>ld_cumulative := ld_cumulative ld1 + realized, ld_warningArmed := True\<rparr> else ld1)"
  have s: "snd (settle i realized ld) = startFinish (ls_debit (ld_leases ld ! i)) (Some realized) False ld2"
    using False t by (simp add: settle_def Let_def ld2_def)
  have "ledger_ok ld2" using taken[OF ok i l t] by (simp add: ld2_def ledger_ok_def bal_def)
  then show ?thesis unfolding s
    by (rule close_prudent[OF ok i l t, where x = realized]) (use False x in \<open>auto simp: ld2_def exposure_def chargeOf_def\<close>)
qed

lemma commit_prudent:
  assumes ok: "ledger_ok ld" and i: "i < length (ld_leases ld)"
  shows "prudent ld (settleAtReservedEstimate i nodeId attempt ld)"
proof (cases "ls_settled (ld_leases ld ! i)")
  case True
  then show ?thesis using prudent_refl[OF ok] by (simp add: settleAtReservedEstimate_def Let_def)
next
  case l: False
  obtain r ld1 where t: "takeReservation (ls_id (ld_leases ld ! i)) (markLease i ld) = (r, ld1)" by fastforce
  note tk = taken_bal[OF ledger_bal[OF ok] i l t]
  define ld2 where "ld2 = (case r of None \<Rightarrow> ld1
                   | Some r \<Rightarrow> if 0 < r then
                       persistCommitment \<lparr>cm_nodeId = nodeId, cm_attemptNumber = attempt, cm_model = ls_model (ld_leases ld ! i),
                         cm_estimateMicrocents = r, cm_cumulativeConservativeMicrocents = ld_conservative ld1 + r,
                         cm_written = None\<rparr>
                         (ld1\<lparr>ld_conservative := ld_conservative ld1 + r, ld_warningArmed := True\<rparr>)
                     else ld1)"
  have s: "settleAtReservedEstimate i nodeId attempt ld = startFinish (ls_debit (ld_leases ld ! i)) None False ld2"
    using l t by (simp add: settleAtReservedEstimate_def Let_def ld2_def)
  have "0 \<le> amount r" using lease_okD[OF ledger_bal[OF ok] i] by (simp add: tk(1) lease_ok_def)
  then have "ledger_ok ld2" "exposure ld2 = exposure ld1 + amount r" "ld_book ld2 = ld_book ld1" "ld_finishing ld2 = ld_finishing ld1" "ld_leases ld2 = ld_leases ld1"
    using taken[OF ok i l t] by (auto simp: ld2_def ledger_ok_def bal_def persistCommitment_def exposure_def split: option.split)
  then show ?thesis unfolding s
    by (intro close_prudent[OF ok i l t, where x = "amount r"]) (use tk(1) \<open>0 \<le> amount r\<close> in \<open>simp_all add: chargeOf_def\<close>)
qed

lemma release_prudent:
  assumes ok: "ledger_ok ld" and i: "i < length (ld_leases ld)"
  shows "prudent ld (releaseLease i ld)"
proof (cases "ls_settled (ld_leases ld ! i)")
  case True
  then show ?thesis using prudent_refl[OF ok] by (simp add: releaseLease_def Let_def)
next
  case l: False
  obtain r ld1 where t: "takeReservation (ls_id (ld_leases ld ! i)) (markLease i ld) = (r, ld1)" by fastforce
  have "0 \<le> amount (ls_estimate (ld_leases ld ! i))" using lease_okD[OF ledger_bal[OF ok] i] by (simp add: lease_ok_def)
  then show ?thesis
    using close_prudent[OF ok i l t taken[OF ok i l t], of 0 None True] l t by (simp add: releaseLease_def Let_def chargeOf_def)
qed

section \<open>Admission\<close>

lemma fresh_admission: "bal ld \<Longrightarrow> mget (ld_admissions ld) (ld_nextAdmissionId ld) = None"
  unfolding bal_def by (metis less_irrefl)

lemma admitted_bal:
  assumes ok: "bal ld" and a: "admit model estimate debit ld = (Inr (Some i), ld')"
    and d: "\<And>d. debit = Some d \<Longrightarrow> d < length (bk_debits (ld_book ld)) \<and> debitAmount (bk_debits (ld_book ld) ! d) = amount estimate"
  shows "bal ld'" and "exposure ld' = exposure ld + amount estimate"
    and "onDebit ld' = onDebit ld + (if debit = None then 0 else amount estimate)"
    and "ld_book ld' = ld_book ld" "ld_finishing ld' = ld_finishing ld" "i < length (ld_leases ld')"
proof -
  let ?k = "ld_nextAdmissionId ld"
  define l where "l = \<lparr>ls_model = model, ls_id = map_option (\<lambda>_. ?k) estimate, ls_estimate = estimate, ls_debit = debit, ls_settled = False\<rparr>"
  define adm where "adm = (case estimate of None \<Rightarrow> ld_admissions ld | Some e \<Rightarrow> mset_key ?k e (ld_admissions ld))"
  have e0: "0 \<le> amount estimate" using a by (auto simp: admit_def split: if_splits option.splits)
  have f: "ld_leases ld' = ld_leases ld @ [l]" "ld_admissions ld' = adm" "ld_reserved ld' = ld_reserved ld + amount estimate"
    "ld_book ld' = ld_book ld" "ld_finishing ld' = ld_finishing ld" "ld_cumulative ld' = ld_cumulative ld" "ld_conservative ld' = ld_conservative ld"
    "i = length (ld_leases ld)" "ld_nextAdmissionId ld' = (if estimate = None then ?k else Suc ?k)"
    using a by (auto simp: admit_def Let_def l_def adm_def split: if_splits option.splits)
  then show "exposure ld' = exposure ld + amount estimate" "onDebit ld' = onDebit ld + (if debit = None then 0 else amount estimate)"
    "ld_book ld' = ld_book ld" "ld_finishing ld' = ld_finishing ld" "i < length (ld_leases ld')"
    by (simp_all add: exposure_def onDebit_def l_def debitHeld_def)
  have new: "lease_ok adm (ld_book ld) l" using e0 d by (auto simp: lease_ok_def l_def adm_def split: option.split)
  have old: "lease_ok adm (ld_book ld) x" if "x \<in> set (ld_leases ld)" for x
  proof -
    have "lease_ok (ld_admissions ld) (ld_book ld) x" "ls_id x \<noteq> Some ?k" using ok that unfolding bal_def by blast+
    then show ?thesis by (auto simp: lease_ok_def adm_def split: option.split)
  qed
  have vals: "sum_list (mvalues adm) = ld_reserved ld + amount estimate"
    using ok sum_mset_key[OF fresh_admission[OF ok]] by (auto simp: adm_def bal_def split: option.split)
  have ids: "ls_id (ld_leases ld ! j) \<noteq> Some ?k" if "j < length (ld_leases ld)" for j
    using ok nth_mem[OF that] unfolding bal_def by blast
  have apart: "ls_id ((ld_leases ld @ [l]) ! m) \<noteq> ls_id ((ld_leases ld @ [l]) ! n)"
    if mn: "m < Suc (length (ld_leases ld))" "n < Suc (length (ld_leases ld))" "m \<noteq> n" "ls_id ((ld_leases ld @ [l]) ! m) \<noteq> None" for m n
  proof (cases "m < length (ld_leases ld) \<and> n < length (ld_leases ld)")
    case True
    then show ?thesis using ok mn unfolding bal_def by (simp add: nth_append)
  next
    case False
    then consider "m = length (ld_leases ld)" "n < length (ld_leases ld)" | "n = length (ld_leases ld)" "m < length (ld_leases ld)" using mn by linarith
    then show ?thesis using ids[of m] ids[of n] mn(4) by cases (auto simp: nth_append l_def)
  qed
  have below: "\<forall>x \<in> set (ld_leases ld @ [l]). \<forall>k. ls_id x = Some k \<longrightarrow> k < (if estimate = None then ?k else Suc ?k)"
    using ok by (fastforce simp: bal_def l_def)
  have dom: "k < (if estimate = None then ?k else Suc ?k)" "map_invar adm" if "mget adm k \<noteq> None" for k
    using ok that by (auto simp: bal_def adm_def less_Suc_eq split: option.splits if_splits)
  have "map_invar adm" using ok by (auto simp: bal_def adm_def split: option.split)
  moreover have "ld_reserved ld + amount estimate = sum_list (map leaseHeld (ld_leases ld @ [l]))"
    using ok by (simp add: bal_def leaseHeld_def l_def)
  ultimately show "bal ld'"
    using ok new old vals apart below dom(1) unfolding bal_def f by simp
qed

lemma admitted:
  assumes ok: "ledger_ok ld" and a: "admit model estimate debit ld = (Inr (Some i), ld')"
    and d: "\<And>d. debit = Some d \<Longrightarrow> d < length (bk_debits (ld_book ld)) \<and> debitAmount (bk_debits (ld_book ld) ! d) = amount estimate"
  shows "ledger_ok ld'" and "exposure ld' = exposure ld + amount estimate"
    and "onDebit ld' = onDebit ld + (if debit = None then 0 else amount estimate)"
    and "ld_book ld' = ld_book ld" "ld_finishing ld' = ld_finishing ld" "i < length (ld_leases ld')"
proof -
  note ad = admitted_bal[OF ledger_bal[OF ok] a d]
  have "ld_conservative ld' = ld_conservative ld" using a by (auto simp: admit_def Let_def split: if_splits option.splits)
  then show "ledger_ok ld'" using ok ad by (simp add: ledger_ok_def)
qed (use admitted_bal[OF ledger_bal[OF ok] a d] in simp_all)

lemma admit_cases:
  assumes "admit model estimate debit ld = (r, ld')"
  obtains i where "r = Inr (Some i)" | "ld' = ld" "\<And>i. r \<noteq> Inr (Some i)"
  using assms by (auto simp: admit_def Let_def split: if_splits option.splits)

text \<open>An admission that an owner pays for keeps the balance; a free one moves the exposure by its estimate.\<close>

lemma admit_free:
  assumes ok: "ledger_ok ld" and a: "admit model estimate None ld = (r, ld')"
  shows "ledger_ok ld'" "claims ld' = claims ld" "prudent ld ld' \<or> risk ld' \<le> risk ld + amount estimate"
  using admitted[OF ok, of model estimate None] ok a prudent_refl[OF ok]
  by (auto elim!: admit_cases simp: risk_def claims_def refunds_def)

lemma admitPermitted_owned:
  assumes ok: "ledger_ok ld" and a: "admitPermitted b model (Some t) estimate ld = (r, ld')"
  shows "prudent ld ld'"
proof -
  obtain q bk where ac: "acquire t estimate (ld_book ld) = (q, bk)" by fastforce
  have inv: "book_inv bk" using acquire_inv[of "ld_book ld" t estimate] ac ok by (simp add: ledger_ok_def bal_def)
  note m = acquire_money[OF ac]
  let ?ld1 = "ld\<lparr>ld_book := bk\<rparr>"
  have ch: "ledger_ok ?ld1" "refunds ?ld1 = refunds ld" "onDebit ?ld1 = onDebit ld" "exposure ?ld1 = exposure ld"
    using book_change[OF ok _ inv] m by blast+
  show ?thesis
  proof (cases "\<exists>d. q = Inr (Admitted d)")
    case False
    then have "ld' = ?ld1" "unspent bk = unspent (ld_book ld)"
      using a ac m by (auto simp: admitPermitted_def split: sum.splits AllowanceAcquisition.splits)
    then show ?thesis using m book_prudent[OF ok _ inv] by simp
  next
    case True
    then obtain d where q: "q = Inr (Admitted d)" by blast
    have d: "d < length (bk_debits bk)" "debitAmount (bk_debits bk ! d) = amount estimate" "0 \<le> amount estimate"
      "unspent bk = unspent (ld_book ld) - amount estimate" "approved bk = approved (ld_book ld)"
      using m by (auto simp: q amount_def split: option.splits)
    have paid: "risk ?ld1 = risk ld - amount estimate" "claims ?ld1 = claims ld - amount estimate"
      using d ch by (simp_all add: risk_def claims_def)
    obtain r1 ld1 where ad: "admit model estimate (Some d) ?ld1 = (r1, ld1)" by fastforce
    show ?thesis
    proof (cases "\<exists>i. r1 = Inr (Some i)")
      case True
      then obtain i where r1: "r1 = Inr (Some i)" by blast
      have "ld' = ld1" using a ac ad by (simp add: admitPermitted_def q r1)
      then show ?thesis using admitted[OF ch(1) ad[unfolded r1]] d paid by (simp add: prudent_def risk_def claims_def refunds_def)
    next
      case False
      then have e: "ld1 = ?ld1" using ad by (auto elim: admit_cases)
      have "entry_ok bk (d, None, True)" "refund bk (d, None, True) = amount estimate" using d by (simp_all add: entry_ok_def)
      then have "prudent ld (startFinish (Some d) None True ?ld1)"
        using startFinish_money[OF ch(1), of "Some d" None True] paid by (simp add: prudent_def del: refund.simps)
      moreover have "ld' = ?ld1 \<or> ld' = startFinish (Some d) None True ?ld1"
        using a ac ad e by (auto simp: admitPermitted_def q split: sum.splits)
      moreover have "prudent ld ?ld1" using paid ch(1) d(3) by (simp add: prudent_def)
      ultimately show ?thesis by auto
    qed
  qed
qed

lemma leases_kept [simp]:
  "ld_leases (startFinish debit actual released ld) = ld_leases ld"
  "ld_leases (answerFinish k live ld) = ld_leases ld"
  "length (ld_leases (snd (takeReservation key ld))) = length (ld_leases ld)"
  "length (ld_leases (markLease i ld)) = length (ld_leases ld)"
  by (auto simp: startFinish_def answerFinish_def takeReservation_def markLease_def split: option.split prod.split)

lemma closing_keeps_leases [simp]:
  "length (ld_leases (snd (settle i x ld))) = length (ld_leases ld)"
  "length (ld_leases (settleAtReservedEstimate i nodeId attempt ld)) = length (ld_leases ld)"
  "length (ld_leases (releaseLease i ld)) = length (ld_leases ld)"
proof -
  obtain r ld1 where t: "takeReservation (ls_id (ld_leases ld ! i)) (markLease i ld) = (r, ld1)" by fastforce
  then have l: "length (ld_leases ld1) = length (ld_leases ld)"
    using leases_kept(3)[of "ls_id (ld_leases ld ! i)" "markLease i ld"] by simp
  then show "length (ld_leases (snd (settle i x ld))) = length (ld_leases ld)"
    "length (ld_leases (settleAtReservedEstimate i nodeId attempt ld)) = length (ld_leases ld)"
    "length (ld_leases (releaseLease i ld)) = length (ld_leases ld)"
    using t by (auto simp: settle_def settleAtReservedEstimate_def releaseLease_def Let_def persistCommitment_def split: option.split)
qed

lemma admitPermitted_leases:
  assumes "admitPermitted b model token estimate ld = (r, ld')"
  shows "length (ld_leases ld) \<le> length (ld_leases ld')" and "r = Inr (Some i) \<Longrightarrow> i < length (ld_leases ld')"
  using assms by (auto simp: admitPermitted_def admit_def Let_def
      split: option.splits prod.splits sum.splits if_splits AllowanceAcquisition.splits)

lemma prudent_neutral:
  "ledger_ok ld \<Longrightarrow> prudent ld (ld\<lparr>ld_warningArmed := a\<rparr>)" "ledger_ok ld \<Longrightarrow> prudent ld (ld\<lparr>ld_failure := f\<rparr>)"
  by (simp_all add: prudent_def ledger_ok_def bal_def risk_def claims_def exposure_def refunds_def onDebit_def)

lemma onDebit_nonneg: "ledger_ok ld \<Longrightarrow> 0 \<le> onDebit ld"
  unfolding onDebit_def by (rule sum_list_nonneg) (auto simp: debitHeld_def ledger_ok_def bal_def lease_ok_def)

lemma exhaust_prudent: "ledger_ok ld \<Longrightarrow> prudent ld (ld\<lparr>ld_book := exhaust t (ld_book ld)\<rparr>)"
  using flags_inv(1)[of "ld_book ld" "\<lambda>w. w\<lparr>ow_exhausted := True\<rparr>" t] flags_money[where f = "\<lambda>w. w\<lparr>ow_exhausted := True\<rparr>" and bk = "ld_book ld" and t = t]
  by (intro book_prudent) (auto simp: exhaust_def ledger_ok_def bal_def debits_kept_def)

lemma evaluate_leases: "evaluate b model token estimate ld = (ev, ld1) \<Longrightarrow> ld_leases ld1 = ld_leases ld"
  by (auto simp: evaluate_def Let_def split: EstimateResult.splits option.splits if_splits)

lemma evaluate_ledger:
  assumes "evaluate b model token estimate ld = (ev, ld1)" and "ledger_ok ld"
  shows "prudent ld ld1"
  using assms exhaust_prudent[OF assms(2)] prudent_refl[OF assms(2)]
  by (auto simp: evaluate_def Let_def split: EstimateResult.splits option.splits if_splits)

text \<open>Without an owner, and unless the cap only warns, a permitted call is unpriced or fits under the cap.\<close>

lemma evaluate_permits:
  assumes "evaluate b model None estimate ld = (ev, ld1)" and "permits None (be_result ev)"
    and "bud_on_exceed b \<noteq> WarnOnly" and "0 < bud_max_cost_microcents b"
  shows "ld1 = ld" and "be_estimateMicrocents ev = Some e \<Longrightarrow> exposure ld + e \<le> bud_max_cost_microcents b"
proof -
  have "\<not> permits None (overCapVerdict b x ld)" for x
    using assms(3) by (cases "bud_on_exceed b") (simp_all add: overCapVerdict_def permits_def overridesCap_def Let_def)
  then have "ld1 = ld \<and> (be_estimateMicrocents ev = Some e \<longrightarrow> exposure ld + e \<le> bud_max_cost_microcents b)"
    using assms by (auto simp: evaluate_def Let_def split: EstimateResult.splits if_splits)
  then show "ld1 = ld" "be_estimateMicrocents ev = Some e \<Longrightarrow> exposure ld + e \<le> bud_max_cost_microcents b" by blast+
qed

lemma events_keep_leases:
  "length (ld_leases ld) \<le> length (ld_leases (snd (admit model estimate debit ld)))"
  "ld_leases (commitmentWritten ok ld) = ld_leases ld" "ld_leases (updateCost c ld) = ld_leases ld"
  "ld_leases (restoreConservativeCost m ld) = ld_leases ld" "ld_leases (snd (releaseConservativeCommitments ld)) = ld_leases ld"
  "ld_leases (activateDispatchAllowance n i a live ld) = ld_leases ld" "ld_leases (closeDispatchAllowance t ld) = ld_leases ld"
  "length (ld_leases ld) \<le> length (ld_leases (snd (reserveAcceptedCost model m ld)))"
  "length (ld_leases ld) \<le> length (ld_leases (snd (reserveCommittedEgress model e ld)))"
  by (auto simp: admit_def Let_def commitmentWritten_def updateCost_def restoreConservativeCost_def releaseConservativeCommitments_def
      activateDispatchAllowance_def closeDispatchAllowance_def reserveAcceptedCost_def reserveCommittedEgress_def
      split: option.split prod.split EstimateResult.split)

section \<open>Laws of the ledger under checks\<close>

text \<open>A property of the ledger that the operations of \<open>checkPreEgress\<close> keep is kept by every event of every
  check, in any interleaving.\<close>

fun phaseAdmission :: "Phase \<Rightarrow> nat option" where
  "phaseAdmission (Asking stage) = stageAdmission stage"
| "phaseAdmission (GapNotice rest result admission) = admission"
| "phaseAdmission (UnpricedNotice admission) = admission"
| "phaseAdmission (Warning w admission) = admission"
| "phaseAdmission _ = None"

definition issued :: "Governor \<Rightarrow> nat option \<Rightarrow> bool" where
  "issued gv admission \<longleftrightarrow> (\<forall>i. admission = Some i \<longrightarrow> i < length (ld_leases (gv_ledger gv)))"

definition checks_ok :: "Governor \<Rightarrow> bool" where
  "checks_ok gv \<longleftrightarrow> (\<forall>ck \<in> set (gv_checks gv). issued gv (phaseAdmission (ck_phase ck)))"

fun checkEvent :: "GovEvent \<Rightarrow> bool" where
  "checkEvent (CheckStarted _ _) = True"
| "checkEvent (OwnerAnswered _ _) = True"
| "checkEvent (CheckResumed _) = True"
| "checkEvent (PriceReturned _ _) = True"
| "checkEvent (WarningEnded _) = True"
| "checkEvent OwnerFlushed = True"
| "checkEvent (LegacyRegistered _) = True"
| "checkEvent (LegacyCleared _) = True"
| "checkEvent LegacyAllCleared = True"
| "checkEvent _ = False"

locale governor_law =
  fixes b :: Budget
    and P :: "Ledger \<Rightarrow> bool"
  assumes law_release: "P ld \<Longrightarrow> i < length (ld_leases ld) \<Longrightarrow> P (releaseLease i ld)"
    and law_armed: "P ld \<Longrightarrow> P (ld\<lparr>ld_warningArmed := a\<rparr>)"
    and law_failure: "P ld \<Longrightarrow> P (ld\<lparr>ld_failure := f\<rparr>)"
    and law_validated: "P ld \<Longrightarrow> validateLive t admitted (\<lambda>bk. (live, bk)) (ld_book ld) = (refused, bk) \<Longrightarrow> P (ld\<lparr>ld_book := bk\<rparr>)"
    and law_evaluated: "P ld \<Longrightarrow> evaluate b model token estimate ld = (ev, ld1) \<Longrightarrow> P ld1"
    and law_admitted: "P ld \<Longrightarrow> evaluate b model token estimate ld = (ev, ld1) \<Longrightarrow> permits token (be_result ev) \<Longrightarrow>
      admitPermitted b model token (be_estimateMicrocents ev) ld1 = (r, ld2) \<Longrightarrow> P ld2"
begin

definition holds :: "Governor \<Rightarrow> bool" where
  "holds gv \<longleftrightarrow> P (gv_ledger gv) \<and> checks_ok gv"

lemma holds_ledger: "holds gv \<Longrightarrow> P ld \<Longrightarrow> length (ld_leases (gv_ledger gv)) \<le> length (ld_leases ld) \<Longrightarrow> holds (gv\<lparr>gv_ledger := ld\<rparr>)"
  by (fastforce simp: holds_def checks_ok_def issued_def)

lemma holds_onLedger:
  "holds gv \<Longrightarrow> P (f (gv_ledger gv)) \<Longrightarrow> length (ld_leases (gv_ledger gv)) \<le> length (ld_leases (f (gv_ledger gv))) \<Longrightarrow> holds (onLedger f gv)"
  by (simp add: onLedger_def holds_ledger)

lemma holds_fields [simp]:
  "holds (gv\<lparr>gv_unpricedNotified := x\<rparr>) = holds gv" "holds (gv\<lparr>gv_modalityNotified := y\<rparr>) = holds gv"
  "holds (gv\<lparr>gv_legacy := z\<rparr>) = holds gv" "holds (gv\<lparr>gv_nextHold := n\<rparr>) = holds gv"
  "holds (gv\<lparr>gv_warnings := ws\<rparr>) = holds gv" "holds (gv\<lparr>gv_warningInFlight := w\<rparr>) = holds gv"
  by (simp_all add: holds_def checks_ok_def issued_def)

lemma setPhase_holds: "holds gv \<Longrightarrow> issued gv (phaseAdmission p) \<Longrightarrow> holds (setPhase c p gv)"
  by (auto simp: holds_def checks_ok_def setPhase_def issued_def dest!: subsetD[OF set_update_subset_insert])

lemma setPhase_plain: "holds gv \<Longrightarrow> phaseAdmission p = None \<Longrightarrow> holds (setPhase c p gv)"
  by (simp add: setPhase_holds issued_def)

lemma askThen_holds: "holds gv \<Longrightarrow> issued gv (stageAdmission stage) \<Longrightarrow> holds (go gv) \<Longrightarrow> holds (askThen c stage go gv)"
  by (simp add: askThen_def setPhase_holds)

lemma returnStage_holds: "holds gv \<Longrightarrow> holds (returnStage c admission gv)"
  by (simp add: returnStage_def setPhase_plain)

lemma throwReleasing_holds:
  assumes "holds gv" and "issued gv admission"
  shows "holds (throwReleasing c err admission gv)"
proof -
  have "holds (case admission of None \<Rightarrow> gv | Some i \<Rightarrow> onLedger (releaseLease i) gv)"
    using assms by (auto split: option.split intro!: holds_onLedger law_release simp: issued_def) (simp add: holds_def)
  then show ?thesis by (simp add: throwReleasing_def setPhase_plain)
qed

lemma emitWarning_holds:
  assumes "holds gv" and "emitWarning gv = (w, gv')"
  shows "holds gv'" and "issued gv' x = issued gv x"
proof -
  have "holds (onLedger (\<lambda>ld. ld\<lparr>ld_warningArmed := False\<rparr>) gv)"
    using assms(1) by (intro holds_onLedger) (simp_all add: law_armed holds_def)
  then show "holds gv'" "issued gv' x = issued gv x"
    using assms by (auto simp: emitWarning_def Let_def issued_def onLedger_def split: option.splits if_splits)
qed

lemma warningWritten_holds:
  assumes "holds gv"
  shows "holds (warningWritten ok gv)"
proof -
  have "holds (onLedger (\<lambda>ld. ld\<lparr>ld_warningArmed := True\<rparr>) gv)"
    using assms by (intro holds_onLedger) (simp_all add: law_armed holds_def)
  then show ?thesis using assms by (auto simp: warningWritten_def split: option.split)
qed

lemma verdictStage_holds:
  assumes "holds gv" and "issued gv admission"
  shows "holds (verdictStage c result admission gv)"
proof -
  obtain w gv1 where w: "emitWarning gv = (w, gv1)" by fastforce
  show ?thesis
    using assms emitWarning_holds[OF assms(1) w]
    by (cases result) (simp_all add: verdictStage_def w returnStage_holds throwReleasing_holds setPhase_holds askThen_holds, simp add: issued_def setPhase_holds)
qed

lemma gapStage_holds: "holds gv \<Longrightarrow> issued gv admission \<Longrightarrow> holds (gapStage c gaps result admission gv)"
  by (auto simp: gapStage_def issued_def intro!: askThen_holds verdictStage_holds setPhase_holds split: list.split)

lemma afterAdmission_holds: "holds gv \<Longrightarrow> issued gv admission \<Longrightarrow> holds (afterAdmission c ev admission gv)"
  by (simp add: afterAdmission_def verdictStage_holds gapStage_holds)

lemma decideStage_holds:
  assumes h: "holds gv"
  shows "holds (decideStage b c estimate gv)"
proof -
  let ?model = "modelOf gv c" and ?token = "tokenOf gv c"
  obtain ev ld where e: "evaluate b ?model ?token estimate (gv_ledger gv) = (ev, ld)" by fastforce
  obtain r ld2 where a: "admitPermitted b ?model ?token (be_estimateMicrocents ev) ld = (r, ld2)" by fastforce
  have p: "P (gv_ledger gv)" using h by (simp add: holds_def)
  have l: "ld_leases ld = ld_leases (gv_ledger gv)" using evaluate_leases[OF e] .
  have h1: "holds (gv\<lparr>gv_ledger := ld\<rparr>)" using holds_ledger[OF h] law_evaluated[OF p e] l by simp
  have h2: "holds (gv\<lparr>gv_ledger := ld2\<rparr>)" if "permits ?token (be_result ev)"
    using holds_ledger[OF h law_admitted[OF p e that a]] admitPermitted_leases(1)[OF a] l by simp
  have "issued (gv\<lparr>gv_ledger := ld2\<rparr>) x" if "r = Inr x" for x using admitPermitted_leases(2)[OF a] that by (auto simp: issued_def)
  then show ?thesis
    using h1 h2 by (cases r) (auto simp: decideStage_def e a Let_def issued_def intro: afterAdmission_holds setPhase_plain)
qed

lemma entry_stages_hold:
  assumes "holds gv"
  shows "holds (evaluateStage b c gv)" "holds (waitStage b c gv)" "holds (legacyStage b c gv)" "holds (barrierStage b c gv)"
  using assms by (simp_all add: evaluateStage_def waitStage_def legacyStage_def barrierStage_def returnStage_holds setPhase_plain)

lemma enter_holds: "holds gv \<Longrightarrow> issued gv (stageAdmission stage) \<Longrightarrow> holds (enter b c stage gv)"
  using entry_stages_hold by (cases stage) (simp_all add: decideStage_holds verdictStage_holds returnStage_holds)

lemma checkPreEgress_holds:
  assumes "holds gv"
  shows "holds (checkPreEgress b model token gv)"
proof -
  have "holds (gv\<lparr>gv_checks := gv_checks gv @ [\<lparr>ck_model = model, ck_token = token, ck_phase = Asking ToBarrier\<rparr>]\<rparr>)"
    using assms by (auto simp: holds_def checks_ok_def issued_def)
  then show ?thesis by (simp add: checkPreEgress_def Let_def askThen_holds entry_stages_hold issued_def)
qed

lemma phase_issued: "holds gv \<Longrightarrow> c < length (gv_checks gv) \<Longrightarrow> issued gv (phaseAdmission (ck_phase (gv_checks gv ! c)))"
  by (simp add: holds_def checks_ok_def)

lemma answerCheck_holds:
  assumes h: "holds gv" and c: "c < length (gv_checks gv)" and s: "answerCheck b c live gv = Some gv'"
  shows "holds gv'"
proof -
  obtain stage t where ph: "ck_phase (gv_checks gv ! c) = Asking stage" "tokenOf gv c = Some t"
    using s by (auto simp: answerCheck_def split: Phase.splits option.splits)
  obtain r bk where v: "validateLive t (stageAdmission stage \<noteq> None) (\<lambda>bk. (live, bk)) (ld_book (gv_ledger gv)) = (r, bk)" by fastforce
  let ?gv1 = "onLedger (\<lambda>ld. ld\<lparr>ld_book := bk\<rparr>) gv"
  have h1: "holds ?gv1" using h law_validated[OF _ v] by (intro holds_onLedger) (simp_all add: holds_def)
  have "issued ?gv1 (stageAdmission stage)" using phase_issued[OF h c] by (simp add: ph issued_def onLedger_def)
  then show ?thesis
    using s h1 v by (auto simp: answerCheck_def ph Let_def intro: enter_holds throwReleasing_holds split: option.splits)
qed

lemma resumeCheck_holds:
  assumes h: "holds gv" and c: "c < length (gv_checks gv)" and s: "resumeCheck b c gv = Some gv'"
  shows "holds gv'"
proof -
  note i = phase_issued[OF h c]
  have f: "holds (gv\<lparr>gv_ledger := (gv_ledger gv)\<lparr>ld_failure := None\<rparr>\<rparr>)"
    using h by (intro holds_ledger) (simp_all add: holds_def law_failure)
  show ?thesis
  proof (cases "ck_phase (gv_checks gv ! c)")
    case Flushing
    then show ?thesis using s h f
      by (auto simp: resumeCheck_def flushCommitments_def issued_def intro!: askThen_holds entry_stages_hold setPhase_plain split: option.splits if_splits)
  next
    case (Warning w admission)
    then show ?thesis using s h i
      by (auto simp: resumeCheck_def intro!: askThen_holds returnStage_holds throwReleasing_holds split: option.splits bool.splits)
  qed (use s h i in \<open>auto simp: resumeCheck_def issued_def intro!: askThen_holds entry_stages_hold returnStage_holds gapStage_holds split: if_splits\<close>)
qed

lemma priceReturned_holds:
  assumes "holds gv" and "priceReturned b c priced gv = Some gv'"
  shows "holds gv'"
  using assms by (auto simp: priceReturned_def issued_def intro!: askThen_holds decideStage_holds setPhase_plain split: if_splits option.splits)

lemma legacy_holds: "holds gv \<Longrightarrow> holds (releaseAllLegacyMediaJobHolds gv)" "holds gv \<Longrightarrow> holds (registerLegacyMediaJob nodeId gv)"
proof -
  have "holds (foldl (\<lambda>g nodeId. clearLegacyMediaJob nodeId g) g ns) = holds g" for g ns
    by (induction ns arbitrary: g) (simp_all add: clearLegacyMediaJob_def)
  then show "holds gv \<Longrightarrow> holds (releaseAllLegacyMediaJobHolds gv)" by (simp add: releaseAllLegacyMediaJobHolds_def)
qed (simp add: registerLegacyMediaJob_def)

theorem checkEvent_holds:
  assumes h: "holds gv" and e: "checkEvent ev" and s: "govStep b ev gv = Some gv'"
  shows "holds gv'"
proof (cases ev)
  case OwnerFlushed
  have "holds (gv\<lparr>gv_ledger := (gv_ledger gv)\<lparr>ld_failure := None\<rparr>\<rparr>)"
    using h by (intro holds_ledger) (simp_all add: holds_def law_failure)
  then show ?thesis using s h by (auto simp: OwnerFlushed flushCommitments_def split: if_splits option.splits)
qed (use assms in \<open>auto simp: checkPreEgress_holds legacy_holds warningWritten_holds clearLegacyMediaJob_def
    intro: answerCheck_holds resumeCheck_holds priceReturned_holds split: if_splits\<close>)

end

end
