(* ===== verification/Budget_Results.thy ===== *)
theory Budget_Results
  imports Budget_Safety
begin

text \<open>
  The two laws of the ledger, kept by all events: the exposure stays within the cap and the grants, and
  the totals are the sums of what they stand for. The events that are not part of a check are handled
  here; those of a check by \<open>governor_law\<close>.
\<close>

section \<open>The cap\<close>

definition enforcing :: "Budget \<Rightarrow> bool" where
  "enforcing b \<longleftrightarrow> 0 < bud_max_cost_microcents b \<and> bud_on_exceed b \<noteq> WarnOnly"

definition capped :: "Budget \<Rightarrow> int \<Rightarrow> Ledger \<Rightarrow> bool" where
  "capped b g ld \<longleftrightarrow> ledger_ok ld \<and> risk ld \<le> bud_max_cost_microcents b + g \<and> claims ld \<le> 0"

lemma capped_prudent: "capped b g ld \<Longrightarrow> prudent ld ld' \<Longrightarrow> capped b g ld'"
  by (simp add: capped_def prudent_def)

lemma capped_ledger: "capped b g ld \<Longrightarrow> ledger_ok ld"
  by (simp add: capped_def)

lemma admit_capped:
  assumes w: "capped b g ld" and a: "admit model estimate None ld = (r, ld')"
    and fits: "\<And>e. estimate = Some e \<Longrightarrow> exposure ld + e \<le> bud_max_cost_microcents b" and g: "0 \<le> g"
  shows "capped b g ld'"
proof (rule admit_cases[OF a])
  fix i assume r: "r = Inr (Some i)"
  have ok: "ledger_ok ld" and c: "claims ld \<le> 0" using w by (simp_all add: capped_def)
  note ad = admitted[OF ok a[unfolded r]]
  obtain e where e: "estimate = Some e" using a r by (cases estimate) (auto simp: admit_def)
  show ?thesis
    using c ad fits[OF e] onDebit_nonneg[OF ok] g by (simp add: capped_def risk_def claims_def refunds_def e)
qed (use w in simp)

text \<open>A reservation around the cap is a grant.\<close>

lemma admit_granted:
  assumes w: "capped b g ld"
  shows "capped b (g + max 0 e) (snd (admit model (Some e) None ld))"
  using w admit_free[OF capped_ledger[OF w] surjective_pairing, of model "Some e"] by (auto simp: capped_def prudent_def)

lemma validated_prudent:
  assumes ok: "ledger_ok ld" and v: "validateLive t admitted (\<lambda>bk. (live, bk)) (ld_book ld) = (r, bk)"
  shows "prudent ld (ld\<lparr>ld_book := bk\<rparr>)"
  using validateLive_money[of bk t admitted live "ld_book ld"] validateLive_inv[OF _ host_const, of "ld_book ld" t admitted live] ok v
  by (intro book_prudent[OF ok]) (simp_all add: ledger_ok_def)

interpretation cap: governor_law b "\<lambda>ld. enforcing b \<longrightarrow> 0 \<le> g \<longrightarrow> capped b g ld"
proof unfold_locales
  fix ld i assume "enforcing b \<longrightarrow> 0 \<le> g \<longrightarrow> capped b g ld" and "i < length (ld_leases ld)"
  then show "enforcing b \<longrightarrow> 0 \<le> g \<longrightarrow> capped b g (releaseLease i ld)"
    using capped_prudent[OF _ release_prudent] by (auto simp: capped_def)
next
  fix ld t admitted live r bk
  assume "enforcing b \<longrightarrow> 0 \<le> g \<longrightarrow> capped b g ld" and "validateLive t admitted (\<lambda>bk. (live, bk)) (ld_book ld) = (r, bk)"
  then show "enforcing b \<longrightarrow> 0 \<le> g \<longrightarrow> capped b g (ld\<lparr>ld_book := bk\<rparr>)"
    using capped_prudent[OF _ validated_prudent] by (auto simp: capped_def)
next
  fix ld model token estimate ev ld1
  assume w: "enforcing b \<longrightarrow> 0 \<le> g \<longrightarrow> capped b g ld" and e: "evaluate b model token estimate ld = (ev, ld1)"
  show "enforcing b \<longrightarrow> 0 \<le> g \<longrightarrow> capped b g ld1" using w capped_prudent[OF _ evaluate_ledger[OF e]] by (auto simp: capped_def)
next
  fix ld model token estimate ev ld1 r ld2
  assume w: "enforcing b \<longrightarrow> 0 \<le> g \<longrightarrow> capped b g ld" and e: "evaluate b model token estimate ld = (ev, ld1)"
    and p: "permits token (be_result ev)" and a: "admitPermitted b model token (be_estimateMicrocents ev) ld1 = (r, ld2)"
  show "enforcing b \<longrightarrow> 0 \<le> g \<longrightarrow> capped b g ld2"
  proof (intro impI)
    assume b: "enforcing b" and g: "0 \<le> g"
    then have w1: "capped b g ld1" using w capped_prudent[OF _ evaluate_ledger[OF e]] by (auto simp: capped_def)
    show "capped b g ld2"
    proof (cases token)
      case None
      then show ?thesis
        using admit_capped[OF w1 _ _ g] a e p b evaluate_permits[of b model estimate ld ev ld1]
        by (simp add: admitPermitted_def enforcing_def)
    next
      case (Some t)
      then have "prudent ld1 ld2" using admitPermitted_owned[of ld1 b model t] a w1 by (simp add: capped_def)
      then show ?thesis using capped_prudent[OF w1] by blast
    qed
  qed
qed (blast intro: capped_prudent prudent_neutral capped_ledger)+

text \<open>An honest event reports no more than the governor already knows: a charge within the estimate of its
  lease, a total within the total of the governor.\<close>

fun honest :: "GovEvent \<Rightarrow> Governor \<Rightarrow> bool" where
  "honest (LeaseSettled i realized) gv = (realized \<le> amount (ls_estimate (ld_leases (gv_ledger gv) ! i)))"
| "honest (CostReported reported) gv = (reported \<le> ld_cumulative (gv_ledger gv))"
| "honest _ gv = True"

definition honestStep :: "Budget \<Rightarrow> GovEvent \<Rightarrow> Governor \<Rightarrow> Governor option" where
  "honestStep b ev gv = (if honest ev gv then govStep b ev gv else None)"

text \<open>What an event adds around the cap: restored commitments and reservations of accepted work.\<close>

fun granted :: "GovEvent \<Rightarrow> int" where
  "granted (ConservativeRestored m) = max 0 m"
| "granted (AcceptedReserved model accepted) = max 0 accepted"
| "granted (CommittedReserved model (PricedAt e gaps)) = max 0 e"
| "granted _ = 0"

lemma capped_mono: "capped b g ld \<Longrightarrow> g \<le> g' \<Longrightarrow> capped b g' ld"
  by (simp add: capped_def)

lemma granted_nonneg: "0 \<le> granted ev"
  by (cases ev rule: granted.cases) simp_all

lemma activate_prudent: "ledger_ok ld \<Longrightarrow> prudent ld (activateDispatchAllowance n i a live ld)"
  using activate_inv[OF _ host_const, of "ld_book ld" n i a live] activate_money[where n = n and i = i and a = a and live = live and bk = "ld_book ld", OF refl]
  unfolding activateDispatchAllowance_def by (intro book_prudent) (simp_all add: ledger_ok_def)

lemma close_owner_prudent: "ledger_ok ld \<Longrightarrow> prudent ld (closeDispatchAllowance t ld)"
  using flags_inv(1)[of "ld_book ld" "\<lambda>w. w\<lparr>ow_closed := True\<rparr>" t]
    flags_money[where f = "\<lambda>w. w\<lparr>ow_closed := True\<rparr>" and bk = "ld_book ld" and t = t]
  unfolding closeDispatchAllowance_def closeAllowance_def by (intro book_prudent) (auto simp: ledger_ok_def)

lemma restored_capped: "capped b g ld \<Longrightarrow> capped b (g + max 0 m) (restoreConservativeCost m ld)"
  by (auto simp: capped_def restoreConservativeCost_def ledger_ok_def bal_def risk_def claims_def exposure_def refunds_def onDebit_def)

lemma neutral_prudent:
  "ledger_ok ld \<Longrightarrow> prudent ld (snd (releaseConservativeCommitments ld))" "ledger_ok ld \<Longrightarrow> prudent ld (commitmentWritten ok ld)"
  by (auto simp: releaseConservativeCommitments_def commitmentWritten_def prudent_def ledger_ok_def bal_def risk_def claims_def exposure_def
      refunds_def onDebit_def split: option.split prod.split)

lemma reserve_capped:
  assumes "capped b g ld"
  shows "capped b (g + max 0 m) (snd (reserveAcceptedCost model m ld))"
    and "capped b (g + granted (CommittedReserved model estimate)) (snd (reserveCommittedEgress model estimate ld))"
proof -
  show "capped b (g + max 0 m) (snd (reserveAcceptedCost model m ld))"
    using admit_granted[OF assms, of m model] capped_mono[OF assms, of "g + max 0 m"] by (auto simp: reserveAcceptedCost_def max_def)
  show "capped b (g + granted (CommittedReserved model estimate)) (snd (reserveCommittedEgress model estimate ld))"
    using admit_granted[OF assms, of _ model] assms by (simp add: reserveCommittedEgress_def split: EstimateResult.split)
qed

section \<open>Runs that are charged for their events\<close>

text \<open>An invariant with a budget that every event may raise by what it is granted.\<close>

locale metered_system =
  fixes step :: "'e \<Rightarrow> 's \<Rightarrow> 's option"
    and cost :: "'e \<Rightarrow> int"
    and inv :: "int \<Rightarrow> 's \<Rightarrow> bool"
  assumes cost_nonneg: "0 \<le> cost e"
    and metered_step: "0 \<le> g \<Longrightarrow> inv g s \<Longrightarrow> step e s = Some s' \<Longrightarrow> inv (g + cost e) s'"
begin

lemma metered_run: "0 \<le> g \<Longrightarrow> inv g s \<Longrightarrow> run_from step es s = Some s' \<Longrightarrow> inv (g + sum_list (map cost es)) s'"
proof (induction es arbitrary: g s)
  case (Cons e es)
  then obtain s1 where "step e s = Some s1" "run_from step es s1 = Some s'" by (auto split: option.splits)
  then show ?case using Cons.IH[of "g + cost e" s1] Cons.prems metered_step cost_nonneg[of e] by (simp add: add.assoc)
qed simp

end

definition governed :: "Budget \<Rightarrow> int \<Rightarrow> Governor \<Rightarrow> bool" where
  "governed b g gv \<longleftrightarrow> (enforcing b \<longrightarrow> capped b g (gv_ledger gv)) \<and> checks_ok gv"

lemma governed_ledger:
  assumes "governed b g gv" and "enforcing b \<Longrightarrow> capped b g' ld" and "length (ld_leases (gv_ledger gv)) \<le> length (ld_leases ld)"
  shows "governed b g' (gv\<lparr>gv_ledger := ld\<rparr>)"
  using assms by (fastforce simp: governed_def checks_ok_def issued_def)

lemma updateCost_honest: "reported \<le> ld_cumulative ld \<Longrightarrow> updateCost reported ld = ld"
  by (simp add: updateCost_def)

lemma honestStep_governed:
  assumes g: "0 \<le> g" and h: "governed b g gv" and s: "honestStep b ev gv = Some gv'"
  shows "governed b (g + granted ev) gv'"
proof (cases "checkEvent ev")
  case True
  then have "granted ev = 0" by (cases ev) simp_all
  moreover have "cap.holds b g gv" using h unfolding cap.holds_def governed_def by blast
  then have "cap.holds b g gv'" by (rule cap.checkEvent_holds[OF _ True]) (use s in \<open>simp add: honestStep_def split: if_splits\<close>)
  ultimately show ?thesis using g unfolding cap.holds_def governed_def by simp
next
  case False
  have hon: "honest ev gv" and s: "govStep b ev gv = Some gv'" using s by (simp_all add: honestStep_def split: if_splits)
  let ?ld = "gv_ledger gv"
  have t: "capped b g ld'" if "enforcing b" "prudent ?ld ld'" for ld' using h that capped_prudent by (auto simp: governed_def)
  have ok: "ledger_ok ?ld" "capped b g ?ld" if "enforcing b" using h that by (auto simp: governed_def capped_def)
  note keep = events_keep_leases
  show ?thesis
  proof (cases ev)
    case (LeaseSettled i a)
    then show ?thesis using s hon h by (auto simp: onLease_def onLedger_def intro!: governed_ledger t settle_prudent ok split: if_splits)
  next
    case (LeaseCommitted i n k)
    then show ?thesis using s h by (auto simp: onLease_def onLedger_def intro!: governed_ledger t commit_prudent ok split: if_splits)
  next
    case (LeaseReleased i)
    then show ?thesis using s h by (auto simp: onLease_def onLedger_def intro!: governed_ledger t release_prudent ok split: if_splits)
  next
    case (CostReported c)
    then show ?thesis using s h hon by (auto simp: onLedger_def updateCost_honest)
  next
    case (ConservativeRestored m)
    then show ?thesis using s h restored_capped[OF ok(2)] by (auto simp: onLedger_def keep intro!: governed_ledger)
  next
    case (AcceptedReserved model m)
    then show ?thesis using s h reserve_capped(1)[OF ok(2)] by (auto simp: onLedger_def keep intro!: governed_ledger)
  next
    case (CommittedReserved model e)
    then show ?thesis using s h reserve_capped(2)[OF ok(2), of model e] by (auto simp: onLedger_def keep intro!: governed_ledger)
  qed (use False s h ok in \<open>auto simp: onLedger_def keep intro!: governed_ledger t answerFinish_prudent activate_prudent close_owner_prudent neutral_prudent\<close>)
qed

interpretation gov: metered_system "honestStep b" granted "governed b"
  by unfold_locales (simp_all add: granted_nonneg honestStep_governed)

lemma empty_governed: "governed b 0 emptyGovernor"
  by (simp add: governed_def emptyGovernor_def checks_ok_def capped_def ledger_ok_def bal_def emptyLedger_def book_inv_def risk_def claims_def
      exposure_def refunds_def onDebit_def map_invar_def mvalues_def enforcing_def unspent_def approved_def emptyBook_def)

lemma unspent_nonneg: "book_inv bk \<Longrightarrow> 0 \<le> unspent bk"
  unfolding unspent_def by (rule sum_list_nonneg) (auto simp: book_inv_def account_ok_def in_set_conv_nth)

lemma refunds_nonneg: "ledger_ok ld \<Longrightarrow> 0 \<le> refunds ld"
  unfolding refunds_def by (rule sum_list_nonneg) (auto simp: ledger_ok_def entry_ok_def simp del: refund.simps)

section \<open>The exposure of a run\<close>

text \<open>C27. With a cap that fails or pauses the run, and charges that stay within their estimates, what is
  spent, conservatively committed and reserved never exceeds the cap plus what was granted around it:
  the allowances a human approved, the commitments restored from a checkpoint and the reservations of
  work a provider had already accepted. This holds for every interleaving of the checks, for every
  answer of the host and every failure of a write.\<close>

theorem exposure_within_cap_and_grants:
  assumes "0 < bud_max_cost_microcents b" and "bud_on_exceed b \<noteq> WarnOnly"
    and "run_from (honestStep b) evs emptyGovernor = Some gv"
  shows "exposure (gv_ledger gv) \<le> bud_max_cost_microcents b + approved (ld_book (gv_ledger gv)) + sum_list (map granted evs)"
proof -
  have "governed b (0 + sum_list (map granted evs)) gv"
    using gov.metered_run[OF _ empty_governed assms(3)] by simp
  then have c: "capped b (sum_list (map granted evs)) (gv_ledger gv)" using assms(1,2) by (simp add: governed_def enforcing_def)
  have "ledger_ok (gv_ledger gv)" using c by (rule capped_ledger)
  then show ?thesis
    using c refunds_nonneg unspent_nonneg by (fastforce simp: capped_def risk_def ledger_ok_def)
qed

definition smallCap :: Budget where
  "smallCap = \<lparr>bud_max_cost_microcents = 100, bud_on_exceed = PauseForApproval, bud_strict_cost_cap = None\<rparr>"

definition twoCalls :: "GovEvent list" where
  "twoCalls = [CheckStarted ''m'' None, CheckStarted ''n'' None, PriceReturned 0 (Some (PricedAt 70 [])),
     PriceReturned 1 (Some (PricedAt 40 [])), LeaseSettled 0 60,
     AllowanceActivated ''node'' 1 50 True, CheckStarted ''n'' (Some 0), OwnerAnswered 2 True,
     PriceReturned 2 (Some (PricedAt 45 [])), OwnerAnswered 2 True]"

theorem exposure_within_cap_and_grants_witness:
  "\<exists>gv. run_from (honestStep smallCap) twoCalls emptyGovernor = Some gv \<and>
     ck_phase (gv_checks gv ! 1) = Done (Inl (BudgetPaused \<lparr>bp_spentMicrocents = 0, bp_limitMicrocents = 100, bp_thresholdPct = 100\<rparr>)) \<and>
     ck_phase (gv_checks gv ! 2) = Done (Inr (Some 1)) \<and>
     exposure (gv_ledger gv) = 105 \<and> exposure (gv_ledger gv) \<le> 100 + 50"
proof -
  let ?r = "run_from (honestStep smallCap) twoCalls emptyGovernor"
  have e: "?r \<noteq> None \<and> ck_phase (gv_checks (the ?r) ! 1) =
        Done (Inl (BudgetPaused \<lparr>bp_spentMicrocents = 0, bp_limitMicrocents = 100, bp_thresholdPct = 100\<rparr>)) \<and>
      ck_phase (gv_checks (the ?r) ! 2) = Done (Inr (Some 1)) \<and>
      exposure (gv_ledger (the ?r)) = 105 \<and> approved (ld_book (gv_ledger (the ?r))) = 50 \<and> sum_list (map granted twoCalls) = 0"
    by code_simp
  then obtain gv where r: "?r = Some gv" by blast
  have "exposure (gv_ledger gv) \<le> bud_max_cost_microcents smallCap + approved (ld_book (gv_ledger gv)) + sum_list (map granted twoCalls)"
    by (rule exposure_within_cap_and_grants[OF _ _ r]) (simp_all add: smallCap_def)
  then show ?thesis using e r by (simp add: smallCap_def)
qed

end
