(* ===== verification/Deep_Equal.thy ===== *)
theory Deep_Equal
  imports Workflow_Model "HOL-Library.Char_ord" "HOL-Library.List_Lexorder" "HOL-Library.Multiset"
begin

text \<open>
  Structural equality of parsed data, \<open>src/packages/shared/src/deep-equal.ts\<close>: arrays element by element,
  objects by their own keys in any order, everything nested deeper than \<open>MAX_DEPTH\<close> containers unequal.
  The two values come from different parses, so no container of one is a container of the other, and
  neither is cyclic; the identity test and the table of pairs in progress then decide nothing.
\<close>

definition MAX_DEPTH :: nat where
  "MAX_DEPTH = 64"

fun equals :: "nat \<Rightarrow> json \<Rightarrow> json \<Rightarrow> bool"
  and arraysEqual :: "nat \<Rightarrow> json list \<Rightarrow> json list \<Rightarrow> bool"
  and objectsEqual :: "nat \<Rightarrow> (string \<times> json) list \<Rightarrow> (string \<times> json) list \<Rightarrow> bool" where
  "equals depth a b =
     (case (a, b) of
        (JArr xs, JArr ys) \<Rightarrow> depth \<le> MAX_DEPTH \<and> length xs = length ys \<and> arraysEqual depth xs ys
      | (JObj xs, JObj ys) \<Rightarrow> depth \<le> MAX_DEPTH \<and> length xs = length ys \<and> objectsEqual depth xs ys
      | _ \<Rightarrow> \<not> isJsonObject a \<and> a = b)"
| "arraysEqual depth [] ys = True"
| "arraysEqual depth (x # xs) ys = (case ys of [] \<Rightarrow> False | y # ys' \<Rightarrow> equals (Suc depth) x y \<and> arraysEqual depth xs ys')"
| "objectsEqual depth [] ys = True"
| "objectsEqual depth ((k, v) # xs) ys =
     (case map_of ys k of None \<Rightarrow> False | Some w \<Rightarrow> equals (Suc depth) v w \<and> objectsEqual depth xs ys)"

declare equals.simps [simp del]

definition deepStructuralEquals :: "json \<Rightarrow> json \<Rightarrow> bool" where
  "deepStructuralEquals a b = equals 0 a b"

section \<open>Reference\<close>

text \<open>Objects have distinct keys; the nesting of a value counts its containers; the canonical form sorts
  the keys of every object.\<close>

fun wellKeyed :: "json \<Rightarrow> bool" where
  "wellKeyed (JArr xs) = (\<forall>x \<in> set xs. wellKeyed x)"
| "wellKeyed (JObj kvs) = (distinct (map fst kvs) \<and> (\<forall>p \<in> set kvs. wellKeyed (snd p)))"
| "wellKeyed _ = True"

fun nesting :: "json \<Rightarrow> nat" where
  "nesting (JArr xs) = Suc (foldr (\<lambda>x n. max (nesting x) n) xs 0)"
| "nesting (JObj kvs) = Suc (foldr (\<lambda>p n. max (nesting (snd p)) n) kvs 0)"
| "nesting _ = 0"

fun canonical :: "json \<Rightarrow> json" where
  "canonical (JArr xs) = JArr (map canonical xs)"
| "canonical (JObj kvs) = JObj (sort_key fst (map (\<lambda>p. (fst p, canonical (snd p))) kvs))"
| "canonical v = v"

lemma nesting_arr: "nesting (JArr xs) \<le> Suc n \<longleftrightarrow> (\<forall>x \<in> set xs. nesting x \<le> n)"
  by (induction xs) auto

lemma nesting_obj: "nesting (JObj kvs) \<le> Suc n \<longleftrightarrow> (\<forall>p \<in> set kvs. nesting (snd p) \<le> n)"
  by (induction kvs) auto

text \<open>How much nesting is left at a depth. A value without containers fits anywhere.\<close>

definition fits :: "nat \<Rightarrow> json \<Rightarrow> bool" where
  "fits depth a \<longleftrightarrow> nesting a \<le> Suc MAX_DEPTH - depth"

lemma fits_container:
  "fits depth (JArr xs) \<longleftrightarrow> depth \<le> MAX_DEPTH \<and> (\<forall>x \<in> set xs. fits (Suc depth) x)"
  "fits depth (JObj kvs) \<longleftrightarrow> depth \<le> MAX_DEPTH \<and> (\<forall>p \<in> set kvs. fits (Suc depth) (snd p))"
  using nesting_arr[of xs "MAX_DEPTH - depth"] nesting_obj[of kvs "MAX_DEPTH - depth"]
  by (auto simp: fits_def Suc_diff_le simp del: nesting.simps) (auto simp: fits_def not_le)

text \<open>Association lists with distinct keys sort to the same list if they have the same entries.\<close>

lemma sort_entries_eq:
  fixes xs ys :: "('k :: linorder \<times> 'v) list"
  assumes "distinct (map fst xs)" and "distinct (map fst ys)"
  shows "sort_key fst xs = sort_key fst ys \<longleftrightarrow> set xs = set ys"
proof
  assume eq: "set xs = set ys"
  have "inj_on fst (set xs)" "distinct xs" "inj_on fst (set ys)" "distinct ys" using assms by (simp_all add: distinct_map)
  then show "sort_key fst xs = sort_key fst ys"
    using eq by (intro map_sorted_distinct_set_unique[where f = fst]) (simp_all add: distinct_map)
qed (metis set_sort)

section \<open>Equality up to the order of keys\<close>

lemma arraysEqual_iff: "length xs = length ys \<Longrightarrow> arraysEqual depth xs ys \<longleftrightarrow> (\<forall>i < length xs. equals (Suc depth) (xs ! i) (ys ! i))"
  by (induction xs ys rule: list_induct2) (auto simp: less_Suc_eq_0_disj)

lemma objectsEqual_iff:
  "objectsEqual depth xs ys \<longleftrightarrow> (\<forall>p \<in> set xs. \<exists>w. map_of ys (fst p) = Some w \<and> equals (Suc depth) (snd p) w)"
  by (induction xs) (auto split: option.splits)

lemma canonical_obj_eq:
  assumes dx: "distinct (map fst xs)" and dy: "distinct (map fst ys)" and len: "length xs = length ys"
  shows "canonical (JObj xs) = canonical (JObj ys) \<longleftrightarrow>
    (\<forall>p \<in> set xs. \<exists>w. map_of ys (fst p) = Some w \<and> canonical (snd p) = canonical w)"
proof -
  let ?c = "\<lambda>p. (fst p, canonical (snd p))"
  have m: "map fst (map ?c zs) = map fst zs" for zs :: "(string \<times> json) list" by simp
  have "canonical (JObj xs) = canonical (JObj ys) \<longleftrightarrow> set (map ?c xs) = set (map ?c ys)"
    using sort_entries_eq[of "map ?c xs" "map ?c ys"] dx dy by (simp add: comp_def)
  also have "\<dots> \<longleftrightarrow> set (map ?c xs) \<subseteq> set (map ?c ys)"
  proof
    have card: "card (set (map ?c zs)) = length zs" if "distinct (map fst zs)" for zs :: "(string \<times> json) list"
      using that distinct_card[of "map ?c zs"] m[of zs] by (metis distinct_map length_map)
    assume "set (map ?c xs) \<subseteq> set (map ?c ys)"
    then show "set (map ?c xs) = set (map ?c ys)" using card[OF dx] card[OF dy] len by (intro card_subset_eq) simp_all
  qed simp
  also have "\<dots> \<longleftrightarrow> (\<forall>p \<in> set xs. \<exists>w. map_of ys (fst p) = Some w \<and> canonical (snd p) = canonical w)"
  proof -
    have "?c p \<in> set (map ?c ys) \<longleftrightarrow> (\<exists>w. (fst p, w) \<in> set ys \<and> canonical (snd p) = canonical w)" for p
      by (cases p) (auto simp: image_iff split: prod.splits; force)
    then show ?thesis unfolding map_of_eq_Some_iff[OF dy] by (simp add: image_subset_iff)
  qed
  finally show ?thesis .
qed

lemma canonical_obj_length: "canonical (JObj xs) = canonical (JObj ys) \<Longrightarrow> length xs = length ys"
  by (drule arg_cong[of _ _ "\<lambda>j. case j of JObj kvs \<Rightarrow> length kvs | _ \<Rightarrow> 0"]) simp

text \<open>The comparison decides equality of canonical forms for what fits at the depth, and refuses the rest.\<close>

lemma equals_exact:
  "wellKeyed a \<Longrightarrow> wellKeyed b \<Longrightarrow> equals depth a b \<longleftrightarrow> canonical a = canonical b \<and> fits depth a"
proof (induction a arbitrary: b depth)
  case (JArr xs)
  show ?case
  proof (cases b)
    case (JArr ys)
    have "equals (Suc depth) (xs ! i) (ys ! i) \<longleftrightarrow> canonical (xs ! i) = canonical (ys ! i) \<and> fits (Suc depth) (xs ! i)"
      if "i < length xs" "length xs = length ys" for i
      using JArr.IH[of "xs ! i" "ys ! i" "Suc depth"] JArr.prems JArr that by simp
    then show ?thesis
      using JArr.prems JArr by (auto simp: equals.simps arraysEqual_iff list_eq_iff_nth_eq fits_container all_set_conv_all_nth)
  qed (simp_all add: equals.simps)
next
  case (JObj xs)
  show ?case
  proof (cases b)
    case (JObj ys)
    have e: "equals (Suc depth) (snd p) w \<longleftrightarrow> canonical (snd p) = canonical w \<and> fits (Suc depth) (snd p)"
      if "p \<in> set xs" "map_of ys (fst p) = Some w" for p w
    proof -
      have "wellKeyed w" using JObj.prems(2) JObj that(2) map_of_SomeD[of ys "fst p" w] by fastforce
      then show ?thesis using JObj.IH[of p "snd p" w "Suc depth"] JObj.prems that by (cases p) auto
    qed
    have d: "distinct (map fst xs)" "distinct (map fst ys)" using JObj.prems JObj by simp_all
    have "objectsEqual depth xs ys \<longleftrightarrow>
        (\<forall>p \<in> set xs. \<exists>w. map_of ys (fst p) = Some w \<and> canonical (snd p) = canonical w) \<and> (\<forall>p \<in> set xs. fits (Suc depth) (snd p))"
      unfolding objectsEqual_iff using e by blast
    then have "length xs = length ys \<and> objectsEqual depth xs ys \<longleftrightarrow>
        canonical (JObj xs) = canonical (JObj ys) \<and> (\<forall>p \<in> set xs. fits (Suc depth) (snd p))"
      using canonical_obj_eq[OF d] canonical_obj_length[of xs ys] by blast
    then show ?thesis using JObj by (auto simp: equals.simps fits_container simp del: canonical.simps)
  qed (simp_all add: equals.simps)
qed (case_tac b; simp add: equals.simps fits_def)+

text \<open>Structural equality decides exactly whether two values are equal up to the order of the keys
  of their objects, for values of at most 65 nested containers, and refuses deeper ones; so it is an
  equivalence on the values it accepts.\<close>

theorem deepStructuralEquals_exact:
  assumes "wellKeyed a" and "wellKeyed b"
  shows "deepStructuralEquals a b \<longleftrightarrow> canonical a = canonical b \<and> nesting a \<le> 65"
  using equals_exact[OF assms, of 0] by (simp add: deepStructuralEquals_def fits_def MAX_DEPTH_def)

theorem deepStructuralEquals_exact_witness:
  "let a = JObj [(''x'', JNum 1), (''y'', JArr [JNull, JObj []])]; b = JObj [(''y'', JArr [JNull, JObj []]), (''x'', JNum 1)]
   in a \<noteq> b \<and> deepStructuralEquals a b \<and> \<not> deepStructuralEquals a (JObj [(''x'', JNum 1)])"
proof -
  let ?a = "JObj [(''x'', JNum 1), (''y'', JArr [JNull, JObj []])]" and ?b = "JObj [(''y'', JArr [JNull, JObj []]), (''x'', JNum 1)]"
  have w: "wellKeyed ?a" "wellKeyed ?b" "wellKeyed (JObj [(''x'', JNum 1)])" by simp_all
  have "canonical ?a = canonical ?b \<and> canonical ?a \<noteq> canonical (JObj [(''x'', JNum 1)]) \<and> nesting ?a \<le> 65" by simp
  then show ?thesis
    using deepStructuralEquals_exact[OF w(1,2)] deepStructuralEquals_exact[OF w(1,3)] by (simp add: Let_def)
qed

lemma deepStructuralEquals_refl: "wellKeyed a \<Longrightarrow> nesting a \<le> 65 \<Longrightarrow> deepStructuralEquals a a"
  using equals_exact[of a a 0] by (simp add: deepStructuralEquals_def fits_def MAX_DEPTH_def)

end
