(* ===== verification/Run_Suspension.thy ===== *)
theory Run_Suspension
  imports Deep_Equal Run_Loop
begin

text \<open>
  The ordered history of gates and media jobs, \<open>src/packages/shared/src/run-suspension.ts\<close>, with the events of
  the durable log it reads (\<open>run-event.ts\<close>, \<open>budget-authorization.ts\<close>). The reducer is shared by the checkpoint
  and by the discovery of interrupted runs.

  A log event is a record with the envelope and a body; the fields no fold reads are left out. A thrown
  \<open>RunSuspensionCorruptionError\<close> is \<open>Inl\<close> with its code; the caller gives up the whole history then. Quotes
  and payloads are parsed JSON, compared by \<open>deepStructuralEquals\<close>.
\<close>

section \<open>Events of the durable log\<close>

record Deadline =
  dl_timeoutMs :: "nat option"
  dl_timeoutAction :: "TimeoutAction option"
  dl_expiresAt :: "string option"

datatype BudgetAllowanceState = Frozen json | LegacyNoAllowance

record PausedAuthority =
  pa_allowance :: BudgetAllowanceState
  pa_spentMicrocents :: nat
  pa_limitMicrocents :: nat
  pa_deadline :: Deadline

record DecidedAuthority =
  da_allowance :: BudgetAllowanceState
  da_decision :: Decision
  da_decidedBy :: string
  da_approvedAmountMicrocents :: "nat option"
  da_deadline :: Deadline

datatype BudgetAuthorizationState = AuthPaused PausedAuthority | AuthDecided DecidedAuthority

record HumanGateResumedEvent =
  gr_nodeId :: string
  gr_gateId :: "string option"
  gr_decision :: Decision
  gr_decidedBy :: string
  gr_payload :: "json option"
  gr_allowanceQuote :: "json option"
  gr_approvedAmountMicrocents :: "nat option"

record MediaJobSubmittedEvent =
  mj_nodeId :: string
  mj_jobId :: string
  mj_provider :: string
  mj_model :: string
  mj_modality :: string
  mj_startedAt :: string
  mj_deadlineAt :: string
  mj_units :: "rat option"
  mj_acceptedCostMicrocents :: "nat option"

record UsageInvocation =
  ui_producerId :: string
  ui_ordinal :: nat
  ui_dispatchId :: string
  ui_round :: nat
  ui_chainAttempt :: nat

datatype UsageCoverageBasis = CompleteBasis | LegacyUnverified

datatype UsageDisposition = Incomplete | NotInvoked | OfficialRefusal

record EventError =
  er_code :: ErrorCode
  er_message :: string
  er_retryable :: bool

datatype EventBody =
    EvRunStarted string json string
  | EvRunPaused
  | EvRunCompleted
  | EvRunFailed
  | EvRunCancelled
  | EvNodeStarted string bool "nat option"
  | EvNodeRetrying string nat
  | EvNodeCompleted string json nat nat "nat option" "string list option"
  | EvNodeFailed string EventError "nat option"
  | EvNodeSkipped string
  | EvMediaJobSubmitted MediaJobSubmittedEvent
  | EvHumanGatePaused string string Deadline "json option"
  | EvBudgetPaused string string nat nat "json option"
  | EvBudgetAuthorization string string BudgetAuthorizationState
  | EvHumanGateResumed HumanGateResumedEvent
  | EvCostUpdated string nat "UsageInvocation option"
  | EvCostAttemptSettled string nat "bool option" "UsageInvocation option"
  | EvEstimateCommitted nat
  | EvCoverageStarted UsageCoverageBasis
  | EvUsagePending string UsageInvocation
  | EvUsageDisposition string UsageInvocation UsageDisposition bool
  | EvOther

record LogEvent =
  ev_runId :: string
  ev_sequenceNumber :: int
  ev_timestamp :: "int option"
  ev_cumulativeUnpricedCalls :: "nat option"
  ev_body :: EventBody

section \<open>Gate histories\<close>

datatype RunSuspensionCorruption =
    GateIdentityConflict | GateStateConflict | LegacyGateJoinMissing | LegacyGateJoinAmbiguous

type_synonym 'a folded = "RunSuspensionCorruption + 'a"

record PendingGateProjection =
  pg_runId :: string
  pg_nodeId :: string
  pg_gateId :: string
  pg_isBudgetGate :: bool
  pg_deadline :: Deadline
  pg_allowance :: "BudgetAllowanceState option"

datatype GateTransition =
    GatePaused PendingGateProjection
  | BudgetDecided PendingGateProjection Decision
  | HumanDecided PendingGateProjection HumanGateResumedEvent

record GateHistory =
  gh_runId :: string
  gh_nodeId :: string
  gh_gateId :: string
  gh_active :: bool
  gh_budget :: bool
  gh_deadline :: Deadline
  gh_allowance :: "BudgetAllowanceState option"
  gh_authorityPause :: "PausedAuthority option"
  gh_authorityDecision :: "DecidedAuthority option"
  gh_budgetPause :: "(nat \<times> nat) option"
  gh_humanDecision :: "HumanGateResumedEvent option"

definition andThen :: "'e + 'a \<Rightarrow> ('a \<Rightarrow> 'e + 'b) \<Rightarrow> 'e + 'b" where
  "andThen x f = (case x of Inl e \<Rightarrow> Inl e | Inr a \<Rightarrow> f a)"

text \<open>\<open>corrupt()\<close> unless the condition holds.\<close>

definition require :: "bool \<Rightarrow> 'a \<Rightarrow> 'a folded" where
  "require c x = (if c then Inr x else Inl GateStateConflict)"

lemma andThen_Inr_iff [simp]: "andThen x f = Inr y \<longleftrightarrow> (\<exists>a. x = Inr a \<and> f a = Inr y)"
  by (cases x) (simp_all add: andThen_def)

lemma require_Inr_iff [simp]: "require c x = Inr y \<longleftrightarrow> c \<and> y = x"
  by (auto simp: require_def)

definition noDeadline :: Deadline where
  "noDeadline = \<lparr>dl_timeoutMs = None, dl_timeoutAction = None, dl_expiresAt = None\<rparr>"

definition clash :: "'a option \<Rightarrow> 'a option \<Rightarrow> bool" where
  "clash a b \<longleftrightarrow> a \<noteq> None \<and> b \<noteq> None \<and> a \<noteq> b"

definition orElse :: "'a option \<Rightarrow> 'a option \<Rightarrow> 'a option" where
  "orElse a b = (case a of None \<Rightarrow> b | Some _ \<Rightarrow> a)"

definition mergeDeadline :: "Deadline \<Rightarrow> Deadline \<Rightarrow> Deadline folded" where
  "mergeDeadline prior nxt =
     require (\<not> clash (dl_timeoutMs prior) (dl_timeoutMs nxt) \<and> \<not> clash (dl_timeoutAction prior) (dl_timeoutAction nxt) \<and>
              \<not> clash (dl_expiresAt prior) (dl_expiresAt nxt))
       \<lparr>dl_timeoutMs = orElse (dl_timeoutMs nxt) (dl_timeoutMs prior),
        dl_timeoutAction = orElse (dl_timeoutAction nxt) (dl_timeoutAction prior),
        dl_expiresAt = orElse (dl_expiresAt nxt) (dl_expiresAt prior)\<rparr>"

definition deadlineFits :: "Deadline \<Rightarrow> Deadline \<Rightarrow> bool" where
  "deadlineFits authority companion \<longleftrightarrow>
     (dl_timeoutMs companion = None \<or> dl_timeoutMs companion = dl_timeoutMs authority) \<and>
     (dl_timeoutAction companion = None \<or> dl_timeoutAction companion = dl_timeoutAction authority) \<and>
     (dl_expiresAt companion = None \<or> dl_expiresAt companion = dl_expiresAt authority)"

definition sameAllowance :: "BudgetAllowanceState \<Rightarrow> BudgetAllowanceState \<Rightarrow> bool" where
  "sameAllowance a b =
     (case (a, b) of (Frozen p, Frozen q) \<Rightarrow> deepStructuralEquals p q | (LegacyNoAllowance, LegacyNoAllowance) \<Rightarrow> True | _ \<Rightarrow> False)"

definition mergeAllowance :: "GateHistory \<Rightarrow> BudgetAllowanceState \<Rightarrow> GateHistory folded" where
  "mergeAllowance h allowance =
     require (case gh_allowance h of None \<Rightarrow> True | Some a \<Rightarrow> sameAllowance a allowance) (h\<lparr>gh_allowance := Some allowance\<rparr>)"

definition mergeQuote :: "GateHistory \<Rightarrow> json option \<Rightarrow> GateHistory folded" where
  "mergeQuote h quote = (case quote of None \<Rightarrow> Inr h | Some q \<Rightarrow> mergeAllowance h (Frozen q))"

definition snapshotGate :: "GateHistory \<Rightarrow> PendingGateProjection" where
  "snapshotGate h = \<lparr>pg_runId = gh_runId h, pg_nodeId = gh_nodeId h, pg_gateId = gh_gateId h, pg_isBudgetGate = gh_budget h,
     pg_deadline = gh_deadline h, pg_allowance = gh_allowance h\<rparr>"

definition isResolved :: "GateHistory \<Rightarrow> bool" where
  "isResolved h \<longleftrightarrow> gh_authorityDecision h \<noteq> None \<or> gh_humanDecision h \<noteq> None"

definition companionFits :: "DecidedAuthority \<Rightarrow> HumanGateResumedEvent \<Rightarrow> bool" where
  "companionFits authority event \<longleftrightarrow>
     da_decision authority = gr_decision event \<and> da_decidedBy authority = gr_decidedBy event \<and>
     (gr_approvedAmountMicrocents event = None \<or> gr_approvedAmountMicrocents event = da_approvedAmountMicrocents authority) \<and>
     gr_payload event = None"

section \<open>The reducer\<close>

record Reducer =
  rd_gates :: "(string, (string, GateHistory) jsmap) jsmap"
  rd_media :: "(string, (string, MediaJobSubmittedEvent) jsmap) jsmap"
  rd_terminalRuns :: "string list"
  rd_terminalNodes :: "(string, string list) jsmap"

definition emptyReducer :: Reducer where
  "emptyReducer = \<lparr>rd_gates = [], rd_media = [], rd_terminalRuns = [], rd_terminalNodes = []\<rparr>"

definition gatesOf :: "Reducer \<Rightarrow> string \<Rightarrow> (string, GateHistory) jsmap" where
  "gatesOf r run = (case mget (rd_gates r) run of None \<Rightarrow> [] | Some m \<Rightarrow> m)"

definition terminalOf :: "Reducer \<Rightarrow> string \<Rightarrow> string list" where
  "terminalOf r run = (case mget (rd_terminalNodes r) run of None \<Rightarrow> [] | Some ns \<Rightarrow> ns)"

definition mediaOf :: "Reducer \<Rightarrow> string \<Rightarrow> (string, MediaJobSubmittedEvent) jsmap" where
  "mediaOf r run = (case mget (rd_media r) run of None \<Rightarrow> [] | Some m \<Rightarrow> m)"

definition gateAt :: "Reducer \<Rightarrow> string \<Rightarrow> string \<Rightarrow> GateHistory option" where
  "gateAt r run gate = mget (gatesOf r run) gate"

definition putGate :: "GateHistory \<Rightarrow> Reducer \<Rightarrow> Reducer" where
  "putGate h r = r\<lparr>rd_gates := mset_key (gh_runId h) (mset_key (gh_gateId h) h (gatesOf r (gh_runId h))) (rd_gates r)\<rparr>"

definition findGate :: "Reducer \<Rightarrow> string \<Rightarrow> string \<Rightarrow> string \<Rightarrow> GateHistory option folded" where
  "findGate r run node gate =
     (case gateAt r run gate of None \<Rightarrow> Inr None
      | Some h \<Rightarrow> if gh_nodeId h \<noteq> node then Inl GateIdentityConflict else Inr (Some h))"

definition createGate :: "Reducer \<Rightarrow> string \<Rightarrow> string \<Rightarrow> string \<Rightarrow> GateHistory folded" where
  "createGate r run node gate =
     require (node \<notin> set (terminalOf r run))
       \<lparr>gh_runId = run, gh_nodeId = node, gh_gateId = gate, gh_active = True, gh_budget = False, gh_deadline = noDeadline,
        gh_allowance = None, gh_authorityPause = None, gh_authorityDecision = None, gh_budgetPause = None, gh_humanDecision = None\<rparr>"

definition findOrCreate :: "Reducer \<Rightarrow> string \<Rightarrow> string \<Rightarrow> string \<Rightarrow> GateHistory folded" where
  "findOrCreate r run node gate =
     andThen (findGate r run node gate) (\<lambda>found. case found of Some h \<Rightarrow> Inr h | None \<Rightarrow> createGate r run node gate)"

definition asBudget :: "GateHistory \<Rightarrow> GateHistory folded" where
  "asBudget h = require (gh_budget h \<or> gh_humanDecision h = None) (h\<lparr>gh_budget := True\<rparr>)"

definition retireNode :: "string \<Rightarrow> string \<Rightarrow> Reducer \<Rightarrow> Reducer" where
  "retireNode run node r =
     r\<lparr>rd_terminalNodes := mset_key run (set_add node (terminalOf r run)) (rd_terminalNodes r),
       rd_media := (case mget (rd_media r) run of None \<Rightarrow> rd_media r | Some m \<Rightarrow> mset_key run (mdelete node m) (rd_media r)),
       rd_gates := (case mget (rd_gates r) run of None \<Rightarrow> rd_gates r
          | Some gs \<Rightarrow> mset_key run (map (\<lambda>(g, h). (g, if gh_nodeId h = node then h\<lparr>gh_active := False\<rparr> else h)) gs) (rd_gates r))\<rparr>"

definition pausedTransition :: "GateHistory \<Rightarrow> GateTransition option" where
  "pausedTransition h = (if isResolved h \<or> \<not> gh_active h then None else Some (GatePaused (snapshotGate h)))"

section \<open>Authorizations\<close>

definition authAllowance :: "BudgetAuthorizationState \<Rightarrow> BudgetAllowanceState" where
  "authAllowance st = (case st of AuthPaused p \<Rightarrow> pa_allowance p | AuthDecided d \<Rightarrow> da_allowance d)"

definition authDeadline :: "BudgetAuthorizationState \<Rightarrow> Deadline" where
  "authDeadline st = (case st of AuthPaused p \<Rightarrow> pa_deadline p | AuthDecided d \<Rightarrow> da_deadline d)"

definition priorAuthority :: "GateHistory \<Rightarrow> Deadline option" where
  "priorAuthority h = orElse (map_option pa_deadline (gh_authorityPause h)) (map_option da_deadline (gh_authorityDecision h))"

definition samePaused :: "PausedAuthority \<Rightarrow> PausedAuthority \<Rightarrow> bool" where
  "samePaused p q \<longleftrightarrow> sameAllowance (pa_allowance p) (pa_allowance q) \<and> pa_spentMicrocents p = pa_spentMicrocents q \<and>
     pa_limitMicrocents p = pa_limitMicrocents q \<and> pa_deadline p = pa_deadline q"

definition sameDecided :: "DecidedAuthority \<Rightarrow> DecidedAuthority \<Rightarrow> bool" where
  "sameDecided p q \<longleftrightarrow> sameAllowance (da_allowance p) (da_allowance q) \<and> da_decision p = da_decision q \<and>
     da_decidedBy p = da_decidedBy q \<and> da_approvedAmountMicrocents p = da_approvedAmountMicrocents q \<and> da_deadline p = da_deadline q"

definition sameMoney :: "(nat \<times> nat) option \<Rightarrow> nat \<Rightarrow> nat \<Rightarrow> bool" where
  "sameMoney seen spent limit = (case seen of None \<Rightarrow> True | Some (s, l) \<Rightarrow> s = spent \<and> l = limit)"

definition authorityPaused :: "GateHistory \<Rightarrow> PausedAuthority \<Rightarrow> Reducer \<Rightarrow> (GateTransition option \<times> Reducer) folded" where
  "authorityPaused h state r =
     (case gh_authorityPause h of
        Some prior \<Rightarrow> require (samePaused prior state) (None, putGate h r)
      | None \<Rightarrow> andThen (require (sameMoney (gh_budgetPause h) (pa_spentMicrocents state) (pa_limitMicrocents state))
                   (h\<lparr>gh_authorityPause := Some state\<rparr>))
                 (\<lambda>h1. Inr (pausedTransition h1, putGate h1 r)))"

definition authorityDecided :: "GateHistory \<Rightarrow> DecidedAuthority \<Rightarrow> Reducer \<Rightarrow> (GateTransition option \<times> Reducer) folded" where
  "authorityDecided h state r =
     (case gh_authorityDecision h of
        Some prior \<Rightarrow> require (sameDecided prior state) (None, putGate h r)
      | None \<Rightarrow>
          andThen (require ((case gh_humanDecision h of None \<Rightarrow> True | Some e \<Rightarrow> companionFits state e) \<and> (isResolved h \<or> gh_active h))
                     (h\<lparr>gh_authorityDecision := Some state, gh_active := False\<rparr>))
            (\<lambda>h1. let r1 = putGate h1 r;
                      r2 = (if da_decision state = Rejected then retireNode (gh_runId h) (gh_nodeId h) r1 else r1)
                  in Inr (if isResolved h then None else Some (BudgetDecided (snapshotGate h1) (da_decision state)), r2)))"

definition authority :: "string \<Rightarrow> string \<Rightarrow> string \<Rightarrow> BudgetAuthorizationState \<Rightarrow> Reducer \<Rightarrow> (GateTransition option \<times> Reducer) folded" where
  "authority run node gate state r =
     andThen (findOrCreate r run node gate) (\<lambda>h.
     andThen (asBudget h) (\<lambda>h1.
     andThen (mergeAllowance h1 (authAllowance state)) (\<lambda>h2.
     andThen (require ((case priorAuthority h2 of None \<Rightarrow> True | Some d \<Rightarrow> d = authDeadline state) \<and> deadlineFits (authDeadline state) (gh_deadline h2)) ()) (\<lambda>_.
     andThen (mergeDeadline (gh_deadline h2) (authDeadline state)) (\<lambda>d.
       let h3 = h2\<lparr>gh_deadline := d\<rparr> in
       case state of AuthPaused p \<Rightarrow> authorityPaused h3 p r | AuthDecided x \<Rightarrow> authorityDecided h3 x r)))))"

section \<open>Pauses and decisions\<close>

definition humanPause :: "string \<Rightarrow> string \<Rightarrow> string \<Rightarrow> Deadline \<Rightarrow> json option \<Rightarrow> Reducer \<Rightarrow> (GateTransition option \<times> Reducer) folded" where
  "humanPause run node gate deadline quote r =
     andThen (findOrCreate r run node gate) (\<lambda>h.
     andThen (mergeQuote h quote) (\<lambda>h1.
     andThen (require (case priorAuthority h1 of None \<Rightarrow> True | Some a \<Rightarrow> deadlineFits a deadline) ()) (\<lambda>_.
     andThen (mergeDeadline (gh_deadline h1) deadline) (\<lambda>d.
       let h2 = h1\<lparr>gh_deadline := d\<rparr> in Inr (pausedTransition h2, putGate h2 r)))))"

definition budgetPause :: "string \<Rightarrow> string \<Rightarrow> string \<Rightarrow> nat \<Rightarrow> nat \<Rightarrow> json option \<Rightarrow> Reducer \<Rightarrow> (GateTransition option \<times> Reducer) folded" where
  "budgetPause run node gate spent limit quote r =
     andThen (findOrCreate r run node gate) (\<lambda>h.
     andThen (mergeQuote h quote) (\<lambda>h1.
     andThen (asBudget h1) (\<lambda>h2.
     andThen (require (sameMoney (gh_budgetPause h2) spent limit \<and>
        sameMoney (map_option (\<lambda>p. (pa_spentMicrocents p, pa_limitMicrocents p)) (gh_authorityPause h2)) spent limit) ()) (\<lambda>_.
       let h3 = h2\<lparr>gh_allowance := orElse (gh_allowance h2) (Some LegacyNoAllowance), gh_budgetPause := Some (spent, limit)\<rparr>
       in Inr (pausedTransition h3, putGate h3 r)))))"

text \<open>A decision without a gate id belongs to the one gate of its node that is outstanding.\<close>

definition joinGate :: "string \<Rightarrow> HumanGateResumedEvent \<Rightarrow> Reducer \<Rightarrow> GateHistory folded" where
  "joinGate run event r =
     (case gr_gateId event of
        Some gate \<Rightarrow> andThen (findGate r run (gr_nodeId event) gate)
          (\<lambda>found. case found of Some h \<Rightarrow> Inr h | None \<Rightarrow> Inl LegacyGateJoinMissing)
      | None \<Rightarrow> (case filter (\<lambda>h. gh_nodeId h = gr_nodeId event \<and> gh_active h \<and> \<not> isResolved h) (mvalues (gatesOf r run)) of
          [] \<Rightarrow> Inl LegacyGateJoinMissing | [h] \<Rightarrow> Inr h | _ \<Rightarrow> Inl LegacyGateJoinAmbiguous))"

text \<open>Input recorded on an unquoted budget gate of the old producer is a rejection.\<close>

definition normalizeDecision :: "GateHistory \<Rightarrow> HumanGateResumedEvent \<Rightarrow> HumanGateResumedEvent" where
  "normalizeDecision h event =
     (if gh_budget h \<and> gr_decision event = InputProvided \<and> gr_approvedAmountMicrocents event = None \<and>
         gh_authorityPause h = None \<and> gh_authorityDecision h = None \<and> (\<forall>q \<in> set_option (gh_allowance h). q = LegacyNoAllowance)
      then event\<lparr>gr_decision := Rejected, gr_payload := None\<rparr> else event)"

definition samePayload :: "json option \<Rightarrow> json option \<Rightarrow> bool" where
  "samePayload a b = (case (a, b) of (None, None) \<Rightarrow> True | (Some x, Some y) \<Rightarrow> deepStructuralEquals x y | _ \<Rightarrow> False)"

definition sameDecision :: "GateHistory \<Rightarrow> HumanGateResumedEvent \<Rightarrow> HumanGateResumedEvent \<Rightarrow> bool" where
  "sameDecision h prior event \<longleftrightarrow> gr_decision prior = gr_decision event \<and> gr_decidedBy prior = gr_decidedBy event \<and>
     samePayload (gr_payload prior) (gr_payload event) \<and>
     (gh_authorityDecision h = None \<longrightarrow> gr_approvedAmountMicrocents prior = gr_approvedAmountMicrocents event)"

definition decideGate :: "GateHistory \<Rightarrow> HumanGateResumedEvent \<Rightarrow> Reducer \<Rightarrow> (GateTransition option \<times> Reducer) folded" where
  "decideGate h event r =
     (let h1 = h\<lparr>gh_humanDecision := Some event, gh_active := False\<rparr>; r1 = putGate h1 r in
      if gh_budget h1 then
        andThen (require (gr_decision event \<noteq> InputProvided) ())
          (\<lambda>_. Inr (Some (BudgetDecided (snapshotGate h1) (gr_decision event)),
                  if gr_decision event = Rejected then retireNode (gh_runId h1) (gh_nodeId h1) r1 else r1))
      else Inr (Some (HumanDecided (snapshotGate h1) event), r1))"

definition resume :: "string \<Rightarrow> HumanGateResumedEvent \<Rightarrow> Reducer \<Rightarrow> (GateTransition option \<times> Reducer) folded" where
  "resume run event r =
     andThen (joinGate run event r) (\<lambda>h0.
     andThen (mergeQuote h0 (gr_allowanceQuote event)) (\<lambda>h.
       let e = normalizeDecision h event in
       andThen (require (\<not> (gh_budget h \<and> (gr_decision e = InputProvided \<or> gr_payload e \<noteq> None)) \<and>
                  (case gh_authorityDecision h of None \<Rightarrow> True | Some a \<Rightarrow> companionFits a e)) ()) (\<lambda>_.
         case gh_humanDecision h of
           Some prior \<Rightarrow> require (sameDecision h prior e) (None, putGate h r)
         | None \<Rightarrow>
             if gh_authorityDecision h \<noteq> None then Inr (None, putGate (h\<lparr>gh_humanDecision := Some e\<rparr>) r)
             else andThen (require (gh_active h) ()) (\<lambda>_. decideGate h e r))))"

definition submitMedia :: "string \<Rightarrow> MediaJobSubmittedEvent \<Rightarrow> Reducer \<Rightarrow> Reducer" where
  "submitMedia run job r =
     (if mj_nodeId job \<in> set (terminalOf r run) then r
      else r\<lparr>rd_media := mset_key run (mset_key (mj_nodeId job) job (mediaOf r run)) (rd_media r)\<rparr>)"

fun terminalNode :: "EventBody \<Rightarrow> string option" where
  "terminalNode (EvNodeCompleted node _ _ _ _ _) = Some node"
| "terminalNode (EvNodeFailed node _ _) = Some node"
| "terminalNode (EvNodeSkipped node) = Some node"
| "terminalNode _ = None"

fun terminalRun :: "EventBody \<Rightarrow> bool" where
  "terminalRun EvRunCompleted = True"
| "terminalRun EvRunFailed = True"
| "terminalRun EvRunCancelled = True"
| "terminalRun _ = False"

definition applySuspension :: "LogEvent \<Rightarrow> Reducer \<Rightarrow> (GateTransition option \<times> Reducer) folded" where
  "applySuspension ev r =
     (let run = ev_runId ev in
      case ev_body ev of
        EvBudgetAuthorization node gate state \<Rightarrow> authority run node gate state r
      | EvBudgetPaused node gate spent limit quote \<Rightarrow> budgetPause run node gate spent limit quote r
      | EvHumanGatePaused node gate deadline quote \<Rightarrow> humanPause run node gate deadline quote r
      | EvHumanGateResumed event \<Rightarrow> resume run event r
      | EvMediaJobSubmitted job \<Rightarrow> Inr (None, submitMedia run job r)
      | body \<Rightarrow>
          let r1 = (case terminalNode body of None \<Rightarrow> r | Some node \<Rightarrow> retireNode run node r)
          in Inr (None, if terminalRun body then r1\<lparr>rd_terminalRuns := set_add run (rd_terminalRuns r1)\<rparr> else r1))"

section \<open>Projections\<close>

definition pendingGates :: "Reducer \<Rightarrow> string \<Rightarrow> PendingGateProjection list" where
  "pendingGates r run = map snapshotGate (filter (\<lambda>h. gh_active h \<and> \<not> isResolved h) (mvalues (gatesOf r run)))"

definition resolvedGateIds :: "Reducer \<Rightarrow> string \<Rightarrow> bool \<Rightarrow> string list" where
  "resolvedGateIds r run budgetOnly =
     map gh_gateId (filter (\<lambda>h. isResolved h \<and> (budgetOnly \<longrightarrow> gh_budget h)) (mvalues (gatesOf r run)))"

definition pendingMediaJobs :: "Reducer \<Rightarrow> string \<Rightarrow> MediaJobSubmittedEvent list" where
  "pendingMediaJobs r run = mvalues (mediaOf r run)"

definition rejectedGate :: "GateHistory \<Rightarrow> bool" where
  "rejectedGate h \<longleftrightarrow> gh_budget h \<and>
     orElse (map_option da_decision (gh_authorityDecision h)) (map_option gr_decision (gh_humanDecision h)) = Some Rejected"

definition budgetRejections :: "Reducer \<Rightarrow> string \<Rightarrow> (string \<times> string) list" where
  "budgetRejections r run = map (\<lambda>h. (gh_nodeId h, gh_gateId h)) (filter rejectedGate (mvalues (gatesOf r run)))"

definition isResumable :: "Reducer \<Rightarrow> string \<Rightarrow> bool" where
  "isResumable r run \<longleftrightarrow> run \<notin> set (rd_terminalRuns r) \<and> (pendingGates r run \<noteq> [] \<or> pendingMediaJobs r run \<noteq> [])"

end
