(* ===== verification/Suspension_Laws.thy ===== *)
theory Suspension_Laws
  imports Run_Suspension
begin

text \<open>
  What the reducer knows of a history: the gates that were opened, the gates that were decided and the
  nodes that were retired. Every event adds to these sets exactly what it mentions and what its
  transition says; the projections are functions of them.
\<close>

section \<open>Look-ups\<close>

lemma mget_map_values: "mget (map (\<lambda>(k, v). (k, f v)) m) k = map_option f (mget m k)"
  by (induction m) (auto simp: mget_def)

lemma gatesOf_putGate: "gatesOf (putGate h r) run = (if run = gh_runId h then mset_key (gh_gateId h) h (gatesOf r run) else gatesOf r run)"
  by (simp add: gatesOf_def putGate_def)

lemma gateAt_putGate [simp]:
  "gateAt (putGate h r) run gate = (if run = gh_runId h \<and> gate = gh_gateId h then Some h else gateAt r run gate)"
  by (simp add: gateAt_def gatesOf_putGate)

lemma terminalOf_putGate [simp]: "terminalOf (putGate h r) run = terminalOf r run"
  by (simp add: terminalOf_def putGate_def)

definition retired :: "string \<Rightarrow> GateHistory \<Rightarrow> GateHistory" where
  "retired node h = (if gh_nodeId h = node then h\<lparr>gh_active := False\<rparr> else h)"

lemma gatesOf_retireNode:
  "gatesOf (retireNode run node r) run' = (if run' = run then map (\<lambda>(g, h). (g, retired node h)) (gatesOf r run) else gatesOf r run')"
  by (simp add: gatesOf_def retireNode_def retired_def split: option.split)

lemma gateAt_retireNode [simp]:
  "gateAt (retireNode run node r) run' gate = (if run' = run then map_option (retired node) (gateAt r run gate) else gateAt r run' gate)"
  by (simp add: gateAt_def gatesOf_retireNode mget_map_values)

lemma terminalOf_retireNode [simp]:
  "terminalOf (retireNode run node r) run' = (if run' = run then set_add node (terminalOf r run) else terminalOf r run')"
  by (simp add: terminalOf_def retireNode_def)

section \<open>What a history says\<close>

definition opened :: "Reducer \<Rightarrow> (string \<times> string \<times> string) set" where
  "opened r = {(run, gate, node). \<exists>h. gateAt r run gate = Some h \<and> gh_nodeId h = node}"

definition decided :: "Reducer \<Rightarrow> (string \<times> string) set" where
  "decided r = {(run, gate). \<exists>h. gateAt r run gate = Some h \<and> isResolved h}"

definition retiredNodes :: "Reducer \<Rightarrow> (string \<times> string) set" where
  "retiredNodes r = {(run, node). node \<in> set (terminalOf r run)}"

fun opens :: "string \<Rightarrow> EventBody \<Rightarrow> (string \<times> string \<times> string) set" where
  "opens run (EvHumanGatePaused node gate _ _) = {(run, gate, node)}"
| "opens run (EvBudgetPaused node gate _ _ _) = {(run, gate, node)}"
| "opens run (EvBudgetAuthorization node gate _) = {(run, gate, node)}"
| "opens run _ = {}"

fun decides :: "GateTransition option \<Rightarrow> (string \<times> string) set" where
  "decides (Some (BudgetDecided p _)) = {(pg_runId p, pg_gateId p)}"
| "decides (Some (HumanDecided p _)) = {(pg_runId p, pg_gateId p)}"
| "decides _ = {}"

fun rejects :: "GateTransition option \<Rightarrow> (string \<times> string) set" where
  "rejects (Some (BudgetDecided p Rejected)) = {(pg_runId p, pg_nodeId p)}"
| "rejects _ = {}"

definition retires :: "string \<Rightarrow> EventBody \<Rightarrow> GateTransition option \<Rightarrow> (string \<times> string) set" where
  "retires run body t = (case terminalNode body of None \<Rightarrow> {} | Some node \<Rightarrow> {(run, node)}) \<union> rejects t"

section \<open>Invariant\<close>

definition rejection :: "GateHistory \<Rightarrow> bool" where
  "rejection h \<longleftrightarrow> (\<exists>a. gh_authorityDecision h = Some a \<and> da_decision a = Rejected) \<or>
     gh_budget h \<and> (\<exists>e. gh_humanDecision h = Some e \<and> gr_decision e = Rejected)"

text \<open>A gate is active exactly as long as it is not decided and its node is not retired; a rejection
  retires the node. The set \<open>A\<close> has nodes that are about to be retired.\<close>

definition gate_ok :: "(string \<times> string) set \<Rightarrow> Reducer \<Rightarrow> string \<Rightarrow> string \<Rightarrow> GateHistory \<Rightarrow> bool" where
  "gate_ok A r run gate h \<longleftrightarrow>
     gh_runId h = run \<and> gh_gateId h = gate \<and>
     (gh_active h \<longleftrightarrow> \<not> isResolved h \<and> (run, gh_nodeId h) \<notin> retiredNodes r) \<and>
     (rejection h \<longrightarrow> (run, gh_nodeId h) \<in> retiredNodes r \<union> A)"

definition reducer_ok :: "(string \<times> string) set \<Rightarrow> Reducer \<Rightarrow> bool" where
  "reducer_ok A r \<longleftrightarrow> (\<forall>run. map_invar (gatesOf r run)) \<and> (\<forall>run gate h. gateAt r run gate = Some h \<longrightarrow> gate_ok A r run gate h)"

lemma reducer_okD: "reducer_ok A r \<Longrightarrow> gateAt r run gate = Some h \<Longrightarrow> gate_ok A r run gate h"
  by (simp add: reducer_ok_def)

text \<open>Changes of a history that touch neither its decisions nor its activity.\<close>

definition alike :: "GateHistory \<Rightarrow> GateHistory \<Rightarrow> bool" where
  "alike h h' \<longleftrightarrow> gh_runId h' = gh_runId h \<and> gh_nodeId h' = gh_nodeId h \<and> gh_gateId h' = gh_gateId h \<and> gh_active h' = gh_active h \<and>
     gh_authorityDecision h' = gh_authorityDecision h \<and> gh_humanDecision h' = gh_humanDecision h \<and> (gh_budget h \<longrightarrow> gh_budget h') \<and>
     (gh_humanDecision h \<noteq> None \<longrightarrow> gh_budget h' = gh_budget h)"

lemma alike_refl [simp]: "alike h h"
  by (simp add: alike_def)

lemma alike_trans: "alike a b \<Longrightarrow> alike b c \<Longrightarrow> alike a c"
  by (auto simp: alike_def)

lemma alike_ok: "gate_ok A r run gate h \<Longrightarrow> alike h h' \<Longrightarrow> gate_ok A r run gate h'"
  by (auto simp: gate_ok_def alike_def isResolved_def rejection_def)

lemma merges_alike:
  "mergeAllowance h a = Inr h' \<Longrightarrow> alike h h'" "mergeQuote h q = Inr h' \<Longrightarrow> alike h h'" "asBudget h = Inr h' \<Longrightarrow> alike h h'"
  "alike h (h\<lparr>gh_deadline := d\<rparr>)" "alike h (h\<lparr>gh_authorityPause := p\<rparr>)" "alike h (h\<lparr>gh_allowance := al, gh_budgetPause := bp\<rparr>)"
  by (auto simp: mergeAllowance_def mergeQuote_def asBudget_def alike_def split: option.splits)

lemma findOrCreate_ok:
  assumes ok: "reducer_ok {} r" and f: "findOrCreate r run node gate = Inr h"
  shows "gate_ok {} r run gate h" and "gh_nodeId h = node"
    and "gateAt r run gate = Some h \<or> gateAt r run gate = None \<and> \<not> isResolved h"
proof -
  have "gate_ok {} r run gate h \<and> gh_nodeId h = node \<and> (gateAt r run gate = Some h \<or> gateAt r run gate = None \<and> \<not> isResolved h)"
  proof (cases "gateAt r run gate")
    case None
    then show ?thesis
      using f by (auto simp: findOrCreate_def findGate_def createGate_def gate_ok_def isResolved_def rejection_def retiredNodes_def)
  next
    case (Some g)
    then show ?thesis using f reducer_okD[OF ok Some] by (auto simp: findOrCreate_def findGate_def split: if_splits)
  qed
  then show "gate_ok {} r run gate h" "gh_nodeId h = node"
    "gateAt r run gate = Some h \<or> gateAt r run gate = None \<and> \<not> isResolved h" by blast+
qed

section \<open>Storing a history\<close>

text \<open>The gate that is stored is known already, or new and not decided.\<close>

definition replaces :: "Reducer \<Rightarrow> GateHistory \<Rightarrow> bool" where
  "replaces r h \<longleftrightarrow> (case gateAt r (gh_runId h) (gh_gateId h) of None \<Rightarrow> True | Some g \<Rightarrow> gh_nodeId g = gh_nodeId h \<and> (isResolved g \<longrightarrow> isResolved h))"

lemma retiredNodes_putGate [simp]: "retiredNodes (putGate h r) = retiredNodes r"
  by (simp add: retiredNodes_def)

lemma put_sets:
  assumes "replaces r h"
  shows "opened (putGate h r) = insert (gh_runId h, gh_gateId h, gh_nodeId h) (opened r)"
    and "decided (putGate h r) = (if isResolved h then insert (gh_runId h, gh_gateId h) (decided r) else decided r)"
  using assms by (auto simp: opened_def decided_def replaces_def split: option.splits if_splits)

lemma put_ok:
  assumes "reducer_ok A r" and "gate_ok B r (gh_runId h) (gh_gateId h) h" and "A \<subseteq> B"
  shows "reducer_ok B (putGate h r)"
proof -
  have "gate_ok B (putGate h r) run gate g" if "gateAt (putGate h r) run gate = Some g" for run gate g
  proof (cases "run = gh_runId h \<and> gate = gh_gateId h")
    case True
    then show ?thesis using that assms(2) by (simp add: gate_ok_def)
  next
    case False
    then have "gateAt r run gate = Some g" using that by (simp split: if_splits)
    then show ?thesis using reducer_okD[OF assms(1)] assms(3) by (auto simp: gate_ok_def)
  qed
  moreover have "map_invar (gatesOf (putGate h r) run)" for run
    using assms(1) by (simp add: gatesOf_putGate reducer_ok_def)
  ultimately show ?thesis by (simp add: reducer_ok_def)
qed

lemma retired_fields [simp]:
  "gh_nodeId (retired node h) = gh_nodeId h" "gh_runId (retired node h) = gh_runId h" "gh_gateId (retired node h) = gh_gateId h"
  "isResolved (retired node h) = isResolved h" "rejection (retired node h) = rejection h"
  "gh_active (retired node h) \<longleftrightarrow> gh_active h \<and> gh_nodeId h \<noteq> node"
  by (auto simp: retired_def isResolved_def rejection_def)

lemma retire_sets:
  "opened (retireNode run node r) = opened r" "decided (retireNode run node r) = decided r"
  "retiredNodes (retireNode run node r) = insert (run, node) (retiredNodes r)"
  by (auto simp: opened_def decided_def retiredNodes_def split: if_splits)

lemma retire_ok:
  assumes ok: "reducer_ok A r" and A: "A \<subseteq> {(run, node)}"
  shows "reducer_ok {} (retireNode run node r)"
proof -
  have "gate_ok {} (retireNode run node r) run' gate g" if g: "gateAt (retireNode run node r) run' gate = Some g" for run' gate g
  proof -
    obtain h where h: "gateAt r run' gate = Some h" "g = (if run' = run then retired node h else h)"
      using g by (auto split: if_splits)
    have "gate_ok A r run' gate h" using reducer_okD[OF ok h(1)] .
    then show ?thesis using A by (auto simp: gate_ok_def retire_sets h(2))
  qed
  moreover have "map_invar (gatesOf (retireNode run node r) run')" for run'
    using ok by (auto simp: gatesOf_retireNode reducer_ok_def map_invar_def comp_def case_prod_unfold)
  ultimately show ?thesis by (simp add: reducer_ok_def)
qed

section \<open>Every event adds what it says\<close>

definition accounted :: "Reducer \<Rightarrow> (string \<times> string \<times> string) set \<Rightarrow> (string \<times> string) set \<Rightarrow> GateTransition option \<Rightarrow> Reducer \<Rightarrow> bool" where
  "accounted r new gone t r' \<longleftrightarrow>
     reducer_ok {} r' \<and> opened r' = opened r \<union> new \<and> decided r' = decided r \<union> decides t \<and> decides t \<inter> decided r = {} \<and>
     retiredNodes r' = retiredNodes r \<union> gone \<union> rejects t"

lemma stored:
  assumes ok: "reducer_ok {} r" and h: "gate_ok {} r run gate h" and k: "gateAt r run gate = Some h \<or> gateAt r run gate = None \<and> \<not> isResolved h"
    and a: "alike h h'"
  shows "accounted r {(run, gate, gh_nodeId h)} {} None (putGate h' r)"
    and "accounted r {(run, gate, gh_nodeId h)} {} (pausedTransition h') (putGate h' r)"
proof -
  have ids: "gh_runId h' = run" "gh_gateId h' = gate" "gh_nodeId h' = gh_nodeId h" "isResolved h' = isResolved h"
    using a h by (simp_all add: alike_def gate_ok_def isResolved_def)
  have rep: "replaces r h'" using k ids by (auto simp: replaces_def)
  have "decided (putGate h' r) = decided r" using put_sets(2)[OF rep] k ids by (auto simp: decided_def)
  moreover have "reducer_ok {} (putGate h' r)" using put_ok[OF ok, of "{}" h'] alike_ok[OF h a] ids by simp
  ultimately show "accounted r {(run, gate, gh_nodeId h)} {} None (putGate h' r)"
    using put_sets(1)[OF rep] ids by (simp add: accounted_def)
  then show "accounted r {(run, gate, gh_nodeId h)} {} (pausedTransition h') (putGate h' r)"
    by (simp add: accounted_def pausedTransition_def)
qed

text \<open>A decision: the gate becomes inactive, a rejection retires its node. It is reported unless the gate
  was decided before.\<close>

lemma decision_stored:
  assumes ok: "reducer_ok {} r" and h: "gate_ok {} r run gate h" and k: "gateAt r run gate = Some h \<or> gateAt r run gate = None \<and> \<not> isResolved h"
    and h': "gh_runId h' = run" "gh_gateId h' = gate" "gh_nodeId h' = gh_nodeId h" "isResolved h'" "\<not> gh_active h'" "rejection h' \<longrightarrow> rej"
    and r': "r' = (if rej then retireNode run (gh_nodeId h) (putGate h' r) else putGate h' r)"
    and t: "isResolved h \<and> t = None \<and> (rej \<longrightarrow> (run, gh_nodeId h) \<in> retiredNodes r) \<or>
      \<not> isResolved h \<and> decides t = {(run, gate)} \<and> rejects t = (if rej then {(run, gh_nodeId h)} else {})"
  shows "accounted r {(run, gate, gh_nodeId h)} {} t r'"
proof -
  have rep: "replaces r h'" using k h' by (auto simp: replaces_def)
  note sets = put_sets[OF rep]
  let ?B = "if rej then {(run, gh_nodeId h)} else {}"
  have "gate_ok ?B r run gate h'" using h' by (auto simp: gate_ok_def)
  then have "reducer_ok ?B (putGate h' r)" using put_ok[OF ok, of ?B h'] h' by simp
  then have okr: "reducer_ok {} r'" using retire_ok[of ?B "putGate h' r" run "gh_nodeId h"] r' by (simp split: if_splits)
  have dec: "(run, gate) \<in> decided r \<longleftrightarrow> isResolved h" using k by (auto simp: decided_def)
  have "decided r' = insert (run, gate) (decided r)" "opened r' = insert (run, gate, gh_nodeId h) (opened r)"
    "retiredNodes r' = retiredNodes r \<union> ?B"
    using sets h' by (simp_all add: r' retire_sets)
  then show ?thesis using okr dec t by (auto simp: accounted_def split: if_splits)
qed

lemma authority_accounted:
  assumes ok: "reducer_ok {} r" and a: "authority run node gate state r = Inr (t, r')"
  shows "accounted r {(run, gate, node)} {} t r'"
proof -
  obtain h h1 h2 d where f: "findOrCreate r run node gate = Inr h" and m: "asBudget h = Inr h1" "mergeAllowance h1 (authAllowance state) = Inr h2"
    and s: "(case state of AuthPaused p \<Rightarrow> authorityPaused (h2\<lparr>gh_deadline := d\<rparr>) p r | AuthDecided x \<Rightarrow> authorityDecided (h2\<lparr>gh_deadline := d\<rparr>) x r) = Inr (t, r')"
    using a by (auto simp: authority_def Let_def)
  let ?h = "h2\<lparr>gh_deadline := d\<rparr>"
  note fc = findOrCreate_ok[OF ok f]
  have al: "alike h ?h" using merges_alike(3)[OF m(1)] merges_alike(1)[OF m(2)] merges_alike(4) alike_trans by blast
  have b: "gh_budget ?h" using m by (auto simp: asBudget_def mergeAllowance_def)
  note st = stored[OF ok fc(1,3)]
  show ?thesis
  proof (cases state)
    case (AuthPaused p)
    have "alike h (?h\<lparr>gh_authorityPause := Some p\<rparr>)" using alike_trans[OF al merges_alike(5)] .
    then show ?thesis using s st[OF al] st[of "?h\<lparr>gh_authorityPause := Some p\<rparr>"] AuthPaused fc(2)
      by (auto simp: authorityPaused_def split: option.splits)
  next
    case (AuthDecided x)
    show ?thesis
    proof (cases "gh_authorityDecision ?h")
      case (Some y)
      then show ?thesis using s st(1)[OF al] AuthDecided fc(2) by (auto simp: authorityDecided_def)
    next
      case None
      let ?h1 = "?h\<lparr>gh_authorityDecision := Some x, gh_active := False\<rparr>"
      have e: "\<And>e. gh_humanDecision ?h = Some e \<Longrightarrow> companionFits x e"
        and r': "r' = (if da_decision x = Rejected then retireNode run node (putGate ?h1 r) else putGate ?h1 r)"
        and t: "t = (if isResolved ?h then None else Some (BudgetDecided (snapshotGate ?h1) (da_decision x)))"
        using s None AuthDecided al fc(1,2) by (auto simp: authorityDecided_def Let_def alike_def gate_ok_def split: option.splits)
      have ids: "gh_runId ?h1 = run" "gh_gateId ?h1 = gate" "gh_nodeId ?h1 = gh_nodeId h" "isResolved ?h1" "\<not> gh_active ?h1"
        "isResolved ?h = isResolved h"
        using al fc(1) by (auto simp: alike_def gate_ok_def isResolved_def)
      have rej: "rejection ?h1 \<longrightarrow> da_decision x = Rejected" using e by (auto simp: rejection_def companionFits_def)
      have "(run, gh_nodeId h) \<in> retiredNodes r" if res: "isResolved h" "da_decision x = Rejected"
      proof -
        obtain y where y: "gh_humanDecision ?h = Some y" using res(1) None al by (auto simp: isResolved_def alike_def)
        then have "gh_humanDecision h = Some y" "gh_budget h" using al b by (auto simp: alike_def)
        moreover have "gr_decision y = Rejected" using e[OF y] res(2) by (simp add: companionFits_def)
        ultimately have "rejection h" by (simp add: rejection_def)
        then show ?thesis using fc(1) by (simp add: gate_ok_def)
      qed
      then have t': "isResolved h \<and> t = None \<and> (da_decision x = Rejected \<longrightarrow> (run, gh_nodeId h) \<in> retiredNodes r) \<or>
        \<not> isResolved h \<and> decides t = {(run, gate)} \<and> rejects t = (if da_decision x = Rejected then {(run, gh_nodeId h)} else {})"
        using ids t by (cases "da_decision x") (auto simp: snapshotGate_def)
      show ?thesis using decision_stored[OF ok fc(1,3) ids(1-5) rej r'[folded fc(2)] t'] by (simp only: fc(2))
    qed
  qed
qed

lemma pause_accounted:
  assumes ok: "reducer_ok {} r"
  shows "humanPause run node gate deadline quote r = Inr (t, r') \<Longrightarrow> accounted r {(run, gate, node)} {} t r'"
    and "budgetPause run node gate spent limit quote r = Inr (t, r') \<Longrightarrow> accounted r {(run, gate, node)} {} t r'"
proof -
  assume "humanPause run node gate deadline quote r = Inr (t, r')"
  then obtain h h1 d where f: "findOrCreate r run node gate = Inr h" and m: "mergeQuote h quote = Inr h1"
    and t: "t = pausedTransition (h1\<lparr>gh_deadline := d\<rparr>)" "r' = putGate (h1\<lparr>gh_deadline := d\<rparr>) r"
    by (auto simp: humanPause_def Let_def)
  have "alike h (h1\<lparr>gh_deadline := d\<rparr>)" using alike_trans[OF merges_alike(2)[OF m] merges_alike(4)] .
  then show "accounted r {(run, gate, node)} {} t r'" using stored(2)[OF ok] findOrCreate_ok[OF ok f] t by blast
next
  assume "budgetPause run node gate spent limit quote r = Inr (t, r')"
  then obtain h h1 h2 where f: "findOrCreate r run node gate = Inr h" and m: "mergeQuote h quote = Inr h1" "asBudget h1 = Inr h2"
    and t: "t = pausedTransition (h2\<lparr>gh_allowance := orElse (gh_allowance h2) (Some LegacyNoAllowance), gh_budgetPause := Some (spent, limit)\<rparr>)"
      "r' = putGate (h2\<lparr>gh_allowance := orElse (gh_allowance h2) (Some LegacyNoAllowance), gh_budgetPause := Some (spent, limit)\<rparr>) r"
    by (auto simp: budgetPause_def Let_def)
  have "alike h (h2\<lparr>gh_allowance := orElse (gh_allowance h2) (Some LegacyNoAllowance), gh_budgetPause := Some (spent, limit)\<rparr>)"
    using alike_trans[OF alike_trans[OF merges_alike(2)[OF m(1)] merges_alike(3)[OF m(2)]] merges_alike(6)] .
  then show "accounted r {(run, gate, node)} {} t r'" using stored(2)[OF ok] findOrCreate_ok[OF ok f] t by blast
qed

lemma joinGate_known:
  assumes ok: "reducer_ok {} r" and j: "joinGate run event r = Inr h"
  shows "gateAt r run (gh_gateId h) = Some h" and "gate_ok {} r run (gh_gateId h) h"
proof -
  have "\<exists>gate. gateAt r run gate = Some h"
  proof (cases "gr_gateId event")
    case (Some gate)
    then show ?thesis using j by (auto simp: joinGate_def findGate_def split: option.splits if_splits)
  next
    case None
    then have "h \<in> set (mvalues (gatesOf r run))"
      using j by (auto simp: joinGate_def filter_eq_Cons_iff split: list.splits dest: arg_cong[where f = set])
    then obtain gate where "(gate, h) \<in> set (gatesOf r run)" by (auto simp: mvalues_def)
    then show ?thesis using in_set_mget[of "gatesOf r run"] ok by (auto simp: gateAt_def reducer_ok_def)
  qed
  then obtain gate where g: "gateAt r run gate = Some h" by blast
  moreover have "gate_ok {} r run gate h" using reducer_okD[OF ok g] .
  ultimately show "gateAt r run (gh_gateId h) = Some h" "gate_ok {} r run (gh_gateId h) h" by (simp_all add: gate_ok_def)
qed

lemma resume_accounted:
  assumes ok: "reducer_ok {} r" and a: "resume run event r = Inr (t, r')"
  shows "accounted r {} {} t r'"
proof -
  obtain h0 h where j: "joinGate run event r = Inr h0" and m: "mergeQuote h0 (gr_allowanceQuote event) = Inr h"
    using a by (auto simp: resume_def)
  define e where "e = normalizeDecision h event"
  note kn = joinGate_known[OF ok j]
  have al: "alike h0 h" using merges_alike(2)[OF m] .
  let ?gate = "gh_gateId h0" and ?node = "gh_nodeId h0"
  have k: "gateAt r run ?gate = Some h0 \<or> gateAt r run ?gate = None \<and> \<not> isResolved h0" using kn(1) by blast
  have "accounted r {(run, ?gate, ?node)} {} t r'"
  proof (cases "gh_humanDecision h = None")
    case False
    then show ?thesis using a j m stored(1)[OF ok kn(2) k al] by (auto simp: resume_def Let_def)
  next
    case None: True
    show ?thesis
    proof (cases "gh_authorityDecision h")
      case (Some x)
      then have fit: "companionFits x e" and r': "r' = putGate (h\<lparr>gh_humanDecision := Some e\<rparr>) r" and t: "t = None"
        using a j m None by (auto simp: resume_def Let_def e_def)
      let ?h1 = "h\<lparr>gh_humanDecision := Some e\<rparr>"
      have x: "gh_authorityDecision h0 = Some x" using Some al by (simp add: alike_def)
      then have res: "isResolved h0" "\<not> gh_active h" using kn(2) al by (auto simp: isResolved_def gate_ok_def alike_def)
      have "(run, ?node) \<in> retiredNodes r" if "rejection ?h1"
      proof -
        have "da_decision x = Rejected" using that Some fit by (auto simp: rejection_def companionFits_def)
        then have "rejection h0" using x by (simp add: rejection_def)
        then show ?thesis using kn(2) by (simp add: gate_ok_def)
      qed
      then have g: "gate_ok {} r run ?gate ?h1" using kn(2) al Some res by (auto simp: gate_ok_def alike_def isResolved_def)
      have rep: "replaces r ?h1" using kn al by (auto simp: replaces_def alike_def gate_ok_def isResolved_def)
      show ?thesis
        using put_ok[OF ok, of "{}" ?h1] g put_sets[OF rep] kn res al
        by (auto simp: accounted_def r' t alike_def gate_ok_def isResolved_def decided_def)
    next
      case auth: None
      then have act: "gh_active h" and d: "decideGate h e r = Inr (t, r')"
        using a j m None by (auto simp: resume_def Let_def e_def)
      let ?h1 = "h\<lparr>gh_humanDecision := Some e, gh_active := False\<rparr>"
      have un: "\<not> isResolved h0" using None auth al by (simp add: isResolved_def alike_def)
      have ids: "gh_runId ?h1 = run" "gh_gateId ?h1 = ?gate" "gh_nodeId ?h1 = ?node" "isResolved ?h1" "\<not> gh_active ?h1"
        "rejection ?h1 \<longrightarrow> gh_budget h \<and> gr_decision e = Rejected"
        using al kn(2) auth by (auto simp: alike_def gate_ok_def isResolved_def rejection_def)
      have hs: "gh_runId h = run" "gh_nodeId h = ?node" using ids by simp_all
      have "r' = (if gh_budget h \<and> gr_decision e = Rejected then retireNode run ?node (putGate ?h1 r) else putGate ?h1 r)"
        using d hs by (cases "gh_budget h") (auto simp: decideGate_def Let_def)
      moreover have "decides t = {(run, ?gate)} \<and> rejects t = (if gh_budget h \<and> gr_decision e = Rejected then {(run, ?node)} else {})"
        using d ids hs by (cases "gh_budget h"; cases "gr_decision e") (auto simp: decideGate_def Let_def snapshotGate_def)
      ultimately show ?thesis using decision_stored[OF ok kn(2) k ids] un by blast
    qed
  qed
  moreover have "(run, ?gate, ?node) \<in> opened r" using kn(1) by (auto simp: opened_def)
  ultimately show ?thesis by (auto simp: accounted_def)
qed

lemma other_ok:
  "reducer_ok {} r \<Longrightarrow> reducer_ok {} (r\<lparr>rd_media := m\<rparr>)" "reducer_ok {} r \<Longrightarrow> reducer_ok {} (r\<lparr>rd_terminalRuns := ns\<rparr>)"
  by (simp_all add: reducer_ok_def gateAt_def gatesOf_def gate_ok_def retiredNodes_def terminalOf_def)

lemma other_sets [simp]:
  "opened (r\<lparr>rd_media := m\<rparr>) = opened r" "decided (r\<lparr>rd_media := m\<rparr>) = decided r" "retiredNodes (r\<lparr>rd_media := m\<rparr>) = retiredNodes r"
  "opened (r\<lparr>rd_terminalRuns := ns\<rparr>) = opened r" "decided (r\<lparr>rd_terminalRuns := ns\<rparr>) = decided r"
  "retiredNodes (r\<lparr>rd_terminalRuns := ns\<rparr>) = retiredNodes r"
  by (simp_all add: opened_def decided_def retiredNodes_def gateAt_def gatesOf_def terminalOf_def)

lemma applySuspension_accounted:
  assumes ok: "reducer_ok {} r" and a: "applySuspension ev r = Inr (t, r')"
  shows "accounted r (opens (ev_runId ev) (ev_body ev)) (retires (ev_runId ev) (ev_body ev) None) t r'"
proof (cases "ev_body ev")
  case (EvHumanGateResumed e)
  then show ?thesis using a resume_accounted[OF ok] by (simp add: applySuspension_def retires_def Let_def)
next
  case (EvMediaJobSubmitted j)
  then have "t = None" "r' = submitMedia (ev_runId ev) j r" using a by (simp_all add: applySuspension_def Let_def)
  then show ?thesis using EvMediaJobSubmitted ok other_ok by (simp add: retires_def accounted_def submitMedia_def)
qed (use a ok authority_accounted[OF ok] pause_accounted[OF ok] retire_ok[OF ok] in
    \<open>auto simp: applySuspension_def retires_def accounted_def other_ok retire_sets Let_def\<close>)

section \<open>Whole histories\<close>

text \<open>The events of a log in their order, with what each of them reported.\<close>

fun applyAll :: "LogEvent list \<Rightarrow> Reducer \<Rightarrow> (GateTransition option list \<times> Reducer) folded" where
  "applyAll [] r = Inr ([], r)"
| "applyAll (ev # evs) r =
     andThen (applySuspension ev r) (\<lambda>(t, r1). andThen (applyAll evs r1) (\<lambda>(ts, r2). Inr (t # ts, r2)))"

fun decision :: "GateTransition option \<Rightarrow> (string \<times> string) list" where
  "decision (Some (BudgetDecided p _)) = [(pg_runId p, pg_gateId p)]"
| "decision (Some (HumanDecided p _)) = [(pg_runId p, pg_gateId p)]"
| "decision _ = []"

definition decisions :: "GateTransition option list \<Rightarrow> (string \<times> string) list" where
  "decisions ts = concat (map decision ts)"

definition openings :: "LogEvent list \<Rightarrow> (string \<times> string \<times> string) set" where
  "openings evs = (\<Union>ev \<in> set evs. opens (ev_runId ev) (ev_body ev))"

definition retirements :: "LogEvent list \<Rightarrow> GateTransition option list \<Rightarrow> (string \<times> string) set" where
  "retirements evs ts = {(ev_runId ev, node) |ev node. ev \<in> set evs \<and> terminalNode (ev_body ev) = Some node} \<union> \<Union> (rejects ` set ts)"

lemma decision_decides [simp]: "set (decision t) = decides t" "distinct (decision t)"
  by (cases t rule: decision.cases; simp)+

lemma empty_ok: "reducer_ok {} emptyReducer" "opened emptyReducer = {}" "decided emptyReducer = {}" "retiredNodes emptyReducer = {}"
  by (simp_all add: emptyReducer_def reducer_ok_def gatesOf_def gateAt_def map_invar_def opened_def decided_def retiredNodes_def terminalOf_def mget_def)

lemma applyAll_accounts:
  assumes "reducer_ok {} r" and "applyAll evs r = Inr (ts, r')"
  shows "reducer_ok {} r' \<and> opened r' = opened r \<union> openings evs \<and> decided r' = decided r \<union> set (decisions ts) \<and>
    retiredNodes r' = retiredNodes r \<union> retirements evs ts \<and> distinct (decisions ts) \<and> set (decisions ts) \<inter> decided r = {}"
  using assms
proof (induction evs arbitrary: r ts)
  case Nil
  then show ?case by (simp add: openings_def decisions_def retirements_def)
next
  case (Cons ev evs)
  obtain t r1 us where step: "applySuspension ev r = Inr (t, r1)" "applyAll evs r1 = Inr (us, r')" "ts = t # us"
    using Cons.prems(2) by auto
  note acc = applySuspension_accounted[OF Cons.prems(1) step(1), unfolded accounted_def]
  note rest = Cons.IH[OF conjunct1[OF acc] step(2)]
  have sets: "openings (ev # evs) = opens (ev_runId ev) (ev_body ev) \<union> openings evs" "decisions (t # us) = decision t @ decisions us"
    "retirements (ev # evs) (t # us) = retires (ev_runId ev) (ev_body ev) None \<union> rejects t \<union> retirements evs us"
    by (auto simp: openings_def decisions_def retirements_def retires_def split: option.splits)
  show ?case unfolding step(3) sets using acc rest by auto
qed

lemma in_gatesOf_iff: "reducer_ok A r \<Longrightarrow> h \<in> set (mvalues (gatesOf r run)) \<longleftrightarrow> gateAt r run (gh_gateId h) = Some h"
proof
  assume ok: "reducer_ok A r" and "h \<in> set (mvalues (gatesOf r run))"
  then obtain gate where "(gate, h) \<in> set (gatesOf r run)" by (auto simp: mvalues_def)
  then have "gateAt r run gate = Some h" using in_set_mget[of "gatesOf r run"] ok by (auto simp: gateAt_def reducer_ok_def)
  then show "gateAt r run (gh_gateId h) = Some h" using reducer_okD[OF ok] by (auto simp: gate_ok_def)
next
  assume "gateAt r run (gh_gateId h) = Some h"
  then show "h \<in> set (mvalues (gatesOf r run))" by (auto simp: gateAt_def mvalues_def dest!: mget_in_set intro: rev_image_eqI)
qed

lemma in_gatesOf: "reducer_ok A r \<Longrightarrow> (gate, h) \<in> set (gatesOf r run) \<Longrightarrow> gh_gateId h = gate"
proof -
  assume ok: "reducer_ok A r" and "(gate, h) \<in> set (gatesOf r run)"
  then have "gateAt r run gate = Some h" using in_set_mget[of "gatesOf r run"] by (auto simp: gateAt_def reducer_ok_def)
  then show ?thesis using reducer_okD[OF ok] by (auto simp: gate_ok_def)
qed

lemma gateIds_distinct: "reducer_ok A r \<Longrightarrow> distinct (map gh_gateId (filter P (mvalues (gatesOf r run))))"
proof -
  assume ok: "reducer_ok A r"
  have "map gh_gateId (mvalues (gatesOf r run)) = map fst (gatesOf r run)" using in_gatesOf[OF ok] by (auto simp: mvalues_def)
  then have "distinct (map gh_gateId (mvalues (gatesOf r run)))" using ok by (simp add: reducer_ok_def map_invar_def)
  then show ?thesis using distinct_map_filter by blast
qed

lemma gateIds_filter:
  assumes ok: "reducer_ok A r"
  shows "gh_gateId ` set (filter P (mvalues (gatesOf r run))) = {gate. \<exists>h. gateAt r run gate = Some h \<and> P h}"
proof -
  have "gh_gateId h = gate" if "gateAt r run gate = Some h" for gate h
    using reducer_okD[OF ok that] by (simp add: gate_ok_def)
  then show ?thesis by (auto simp: in_gatesOf_iff[OF ok] image_iff)
qed

lemma resolvedGateIds_decided: "reducer_ok A r \<Longrightarrow> set (resolvedGateIds r run False) = {gate. (run, gate) \<in> decided r}"
  by (simp add: resolvedGateIds_def gateIds_filter decided_def del: set_filter)

lemma pendingGates_ids: "map pg_gateId (pendingGates r run) = map gh_gateId (filter (\<lambda>h. gh_active h \<and> \<not> isResolved h) (mvalues (gatesOf r run)))"
  by (simp add: pendingGates_def snapshotGate_def)

lemma pendingGates_outstanding:
  assumes ok: "reducer_ok A r"
  shows "set (map pg_gateId (pendingGates r run)) =
    {gate. \<exists>node. (run, gate, node) \<in> opened r \<and> (run, gate) \<notin> decided r \<and> (run, node) \<notin> retiredNodes r}"
proof -
  have "set (map pg_gateId (pendingGates r run)) = {gate. \<exists>h. gateAt r run gate = Some h \<and> gh_active h \<and> \<not> isResolved h}"
    unfolding pendingGates_ids by (simp add: gateIds_filter[OF ok] del: set_filter)
  moreover have "gh_active h \<longleftrightarrow> \<not> isResolved h \<and> (run, gh_nodeId h) \<notin> retiredNodes r" if "gateAt r run gate = Some h" for gate h
    using reducer_okD[OF ok that] by (simp add: gate_ok_def)
  ultimately show ?thesis by (auto simp: opened_def decided_def)
qed

section \<open>A sample history\<close>

definition logEntry :: "string \<Rightarrow> EventBody \<Rightarrow> LogEvent" where
  "logEntry run body = \<lparr>ev_runId = run, ev_sequenceNumber = 0, ev_timestamp = Some 0, ev_cumulativeUnpricedCalls = None, ev_body = body\<rparr>"

text \<open>Node \<open>b\<close> is rejected by an authorization and again by its companion; \<open>a\<close> and \<open>d\<close> wait for a human;
  \<open>c\<close> ends with its gate still open.\<close>

definition sampleHistory :: "LogEvent list" where
  "sampleHistory = map (logEntry ''r'')
     [EvHumanGatePaused ''a'' ''g1'' noDeadline None,
      EvBudgetPaused ''b'' ''g2'' 5 4 None,
      EvBudgetAuthorization ''b'' ''g2'' (AuthDecided \<lparr>da_allowance = LegacyNoAllowance, da_decision = Rejected, da_decidedBy = ''u'',
        da_approvedAmountMicrocents = None, da_deadline = noDeadline\<rparr>),
      EvHumanGateResumed \<lparr>gr_nodeId = ''b'', gr_gateId = Some ''g2'', gr_decision = Rejected, gr_decidedBy = ''u'', gr_payload = None,
        gr_allowanceQuote = None, gr_approvedAmountMicrocents = None\<rparr>,
      EvHumanGatePaused ''c'' ''g3'' noDeadline None,
      EvNodeSkipped ''c'',
      EvHumanGatePaused ''d'' ''g4'' noDeadline None]"

definition sampleOutcome :: "GateTransition option list \<times> Reducer" where
  "sampleOutcome = (case applyAll sampleHistory emptyReducer of Inr x \<Rightarrow> x | Inl _ \<Rightarrow> ([], emptyReducer))"

lemma sample_accepted: "applyAll sampleHistory emptyReducer = Inr (fst sampleOutcome, snd sampleOutcome)"
  by code_simp

section \<open>Results\<close>

text \<open>C31: over any history the reducer accepts, every gate is decided at most once: the decisions it
  reports, whether they came from an authorization, from its companion resume event or from both, name
  each gate once, and they are exactly the gates the run lists as resolved, each listed once.\<close>

theorem gates_decided_once:
  assumes "applyAll evs emptyReducer = Inr (ts, r)"
  shows "distinct (decisions ts) \<and> distinct (resolvedGateIds r run False) \<and>
    set (resolvedGateIds r run False) = {gate. (run, gate) \<in> set (decisions ts)}"
proof -
  note acc = applyAll_accounts[OF empty_ok(1) assms]
  have "distinct (resolvedGateIds r run False)" unfolding resolvedGateIds_def using acc gateIds_distinct by blast
  then show ?thesis using acc resolvedGateIds_decided[OF conjunct1[OF acc]] by (simp add: empty_ok)
qed

theorem gates_decided_once_witness:
  "distinct (decisions (fst sampleOutcome)) \<and> distinct (resolvedGateIds (snd sampleOutcome) ''r'' False) \<and>
    set (resolvedGateIds (snd sampleOutcome) ''r'' False) = {gate. (''r'', gate) \<in> set (decisions (fst sampleOutcome))} \<and>
    decisions (fst sampleOutcome) = [(''r'', ''g2'')]"
proof -
  have "decisions (fst sampleOutcome) = [(''r'', ''g2'')]" by code_simp
  then show ?thesis using gates_decided_once[OF sample_accepted, of "''r''"] by simp
qed

text \<open>C32: the gates a run is waiting for are exactly those an event of that run opened, that were not decided
  and whose node has neither ended nor been rejected; each is listed once.\<close>

theorem pending_gates_exact:
  assumes "applyAll evs emptyReducer = Inr (ts, r)"
  shows "distinct (map pg_gateId (pendingGates r run)) \<and> set (map pg_gateId (pendingGates r run)) =
    {gate. \<exists>node. (run, gate, node) \<in> openings evs \<and> (run, gate) \<notin> set (decisions ts) \<and> (run, node) \<notin> retirements evs ts}"
proof -
  note acc = applyAll_accounts[OF empty_ok(1) assms]
  have "distinct (map pg_gateId (pendingGates r run))" unfolding pendingGates_ids using acc gateIds_distinct by blast
  moreover have "opened r = openings evs" "decided r = set (decisions ts)" "retiredNodes r = retirements evs ts"
    using acc by (simp_all add: empty_ok)
  ultimately show ?thesis using pendingGates_outstanding[OF conjunct1[OF acc]] by simp
qed

theorem pending_gates_exact_witness:
  "map pg_gateId (pendingGates (snd sampleOutcome) ''r'') = [''g1'', ''g4''] \<and>
    {''g1'', ''g4''} = {gate. \<exists>node. (''r'', gate, node) \<in> openings sampleHistory \<and>
      (''r'', gate) \<notin> set (decisions (fst sampleOutcome)) \<and> (''r'', node) \<notin> retirements sampleHistory (fst sampleOutcome)}"
proof -
  have "map pg_gateId (pendingGates (snd sampleOutcome) ''r'') = [''g1'', ''g4'']" by code_simp
  then show ?thesis using pending_gates_exact[OF sample_accepted, of "''r''"] by simp
qed

end
