(* ===== verification/Usage_Coverage.thy ===== *)
theory Usage_Coverage
  imports Run_Suspension
begin

text \<open>
  The fold of usage coverage, \<open>src/packages/shared/src/usage-coverage-fold.ts\<close>: how many invocations of a
  provider are still in flight and how many ended without a known usage, in all and per model. The fold
  forgets an invocation as soon as nothing more can be said about it; the reference of the last sections
  follows every invocation for ever.

  Counters are integers that may go below zero, as numbers do; that they do not is proved. The key of an
  entry is the pair the code serialises. A thrown \<open>UsageCoverageInvariantError\<close> is \<open>Inl\<close>.
\<close>

section \<open>State\<close>

record MutableCoverage =
  mc_unverified :: bool
  mc_pendingInvocations :: int
  mc_unknownCalls :: int

datatype EntryState = EntryPending | EntryUnknown

record PendingEntry =
  pe_model :: string
  pe_invocation :: UsageInvocation
  pe_state :: EntryState

record UsageCoverageSnapshot =
  us_coverage :: MutableCoverage
  us_models :: "(string \<times> MutableCoverage) list"
  us_started :: bool
  us_highWater :: nat

datatype UsageCoverageInvariant = BasisAlreadyEstablished | OrdinalNotIncreasing

record UsageCoverageFold =
  uf_total :: MutableCoverage
  uf_models :: "(string, MutableCoverage) jsmap"
  uf_pending :: "(string \<times> nat, PendingEntry) jsmap"
  uf_started :: bool
  uf_highWater :: nat

definition emptyCoverage :: "bool \<Rightarrow> MutableCoverage" where
  "emptyCoverage unverified = \<lparr>mc_unverified = unverified, mc_pendingInvocations = 0, mc_unknownCalls = 0\<rparr>"

definition keyOf :: "UsageInvocation \<Rightarrow> string \<times> nat" where
  "keyOf invocation = (ui_producerId invocation, ui_ordinal invocation)"

definition matches :: "UsageInvocation \<Rightarrow> UsageInvocation \<Rightarrow> bool" where
  "matches a b \<longleftrightarrow> ui_producerId a = ui_producerId b \<and> ui_ordinal a = ui_ordinal b \<and> ui_dispatchId a = ui_dispatchId b \<and>
     ui_round a = ui_round b \<and> ui_chainAttempt a = ui_chainAttempt b"

definition freshCoverage :: UsageCoverageFold where
  "freshCoverage = \<lparr>uf_total = emptyCoverage True, uf_models = [], uf_pending = [], uf_started = False, uf_highWater = 0\<rparr>"

definition restoreCoverage :: "UsageCoverageSnapshot \<Rightarrow> UsageCoverageFold" where
  "restoreCoverage s =
     \<lparr>uf_total = us_coverage s, uf_models = fold (\<lambda>(m, c). mset_key m c) (us_models s) [], uf_pending = [],
      uf_started = us_started s, uf_highWater = us_highWater s\<rparr>"

section \<open>Operations\<close>

definition startCoverage :: "UsageCoverageBasis \<Rightarrow> UsageCoverageFold \<Rightarrow> UsageCoverageInvariant + UsageCoverageFold" where
  "startCoverage basis f =
     (if uf_started f then Inl BasisAlreadyEstablished
      else Inr (f\<lparr>uf_started := True, uf_total := (uf_total f)\<lparr>mc_unverified := (basis = LegacyUnverified)\<rparr>\<rparr>))"

definition modelCoverage :: "string \<Rightarrow> UsageCoverageFold \<Rightarrow> MutableCoverage" where
  "modelCoverage model f = (case mget (uf_models f) model of Some c \<Rightarrow> c | None \<Rightarrow> emptyCoverage (mc_unverified (uf_total f)))"

text \<open>Both the total and the entry of the model move by the same amounts.\<close>

definition shift :: "int \<Rightarrow> int \<Rightarrow> MutableCoverage \<Rightarrow> MutableCoverage" where
  "shift p u c = c\<lparr>mc_pendingInvocations := mc_pendingInvocations c + p, mc_unknownCalls := mc_unknownCalls c + u\<rparr>"

definition moveCounts :: "string \<Rightarrow> int \<Rightarrow> int \<Rightarrow> UsageCoverageFold \<Rightarrow> UsageCoverageFold" where
  "moveCounts model p u f =
     f\<lparr>uf_total := shift p u (uf_total f), uf_models := mset_key model (shift p u (modelCoverage model f)) (uf_models f)\<rparr>"

definition pendingUsage :: "string \<Rightarrow> UsageInvocation \<Rightarrow> UsageCoverageFold \<Rightarrow> UsageCoverageInvariant + UsageCoverageFold" where
  "pendingUsage model invocation f =
     (if ui_ordinal invocation \<le> uf_highWater f then Inl OrdinalNotIncreasing
      else Inr (moveCounts model 1 0
        (f\<lparr>uf_highWater := ui_ordinal invocation,
           uf_pending := mset_key (keyOf invocation) \<lparr>pe_model = model, pe_invocation = invocation, pe_state = EntryPending\<rparr> (uf_pending f)\<rparr>)))"

definition entryFor :: "string \<Rightarrow> UsageInvocation \<Rightarrow> UsageCoverageFold \<Rightarrow> PendingEntry option" where
  "entryFor model invocation f =
     (case mget (uf_pending f) (keyOf invocation) of None \<Rightarrow> None
      | Some e \<Rightarrow> if pe_model e \<noteq> model \<or> \<not> matches (pe_invocation e) invocation then None else Some e)"

definition dropEntry :: "UsageInvocation \<Rightarrow> UsageCoverageFold \<Rightarrow> UsageCoverageFold" where
  "dropEntry invocation f = f\<lparr>uf_pending := mdelete (keyOf invocation) (uf_pending f)\<rparr>"

definition dispositionUsage :: "string \<Rightarrow> UsageInvocation \<Rightarrow> UsageDisposition \<Rightarrow> bool \<Rightarrow> UsageCoverageFold \<Rightarrow> bool \<times> UsageCoverageFold" where
  "dispositionUsage model invocation disposition receiptPending f =
     (case entryFor model invocation f of
        None \<Rightarrow> (False, f)
      | Some e \<Rightarrow>
          if pe_state e = EntryUnknown then
            (if disposition \<noteq> Incomplete \<or> receiptPending then (False, f) else (True, dropEntry invocation f))
          else if disposition = Incomplete then
            (let f1 = moveCounts model (-1) 1 f;
                 f2 = f1\<lparr>uf_pending := mset_key (keyOf invocation) (e\<lparr>pe_state := EntryUnknown\<rparr>) (uf_pending f1)\<rparr>
             in (True, if receiptPending then f2 else dropEntry invocation f2))
          else (True, dropEntry invocation (moveCounts model (-1) 0 f)))"

definition completeUsage :: "string \<Rightarrow> UsageInvocation \<Rightarrow> UsageCoverageFold \<Rightarrow> bool \<times> UsageCoverageFold" where
  "completeUsage model invocation f =
     (case entryFor model invocation f of
        None \<Rightarrow> (False, f)
      | Some e \<Rightarrow> (True, dropEntry invocation (case pe_state e of EntryPending \<Rightarrow> moveCounts model (-1) 0 f | EntryUnknown \<Rightarrow> moveCounts model 0 (-1) f)))"

definition retireUsage :: "UsageCoverageFold \<Rightarrow> UsageCoverageFold" where
  "retireUsage f = f\<lparr>uf_pending := []\<rparr>"

fun applyCoverage :: "EventBody \<Rightarrow> UsageCoverageFold \<Rightarrow> UsageCoverageInvariant + UsageCoverageFold" where
  "applyCoverage (EvCoverageStarted basis) f = startCoverage basis f"
| "applyCoverage (EvUsagePending model invocation) f = pendingUsage model invocation f"
| "applyCoverage (EvUsageDisposition model invocation disposition receiptPending) f =
     Inr (snd (dispositionUsage model invocation disposition receiptPending f))"
| "applyCoverage (EvCostUpdated model _ (Some invocation)) f = Inr (snd (completeUsage model invocation f))"
| "applyCoverage (EvCostAttemptSettled model _ _ (Some invocation)) f = Inr (snd (completeUsage model invocation f))"
| "applyCoverage _ f = Inr f"

definition snapshotCoverage :: "UsageCoverageFold \<Rightarrow> UsageCoverageSnapshot" where
  "snapshotCoverage f = \<lparr>us_coverage = uf_total f, us_models = uf_models f, us_started = uf_started f, us_highWater = uf_highWater f\<rparr>"

fun foldCoverage :: "EventBody list \<Rightarrow> UsageCoverageFold \<Rightarrow> UsageCoverageInvariant + UsageCoverageFold" where
  "foldCoverage [] f = Inr f"
| "foldCoverage (e # es) f = andThen (applyCoverage e f) (foldCoverage es)"

section \<open>Reference: every invocation on its own\<close>

text \<open>An invocation is in flight, ended unknown with a receipt that may still come, ended unknown for good, or settled.\<close>

datatype Fate = InFlight | UnknownOpen | UnknownClosed | Settled

fun fateOn :: "string \<Rightarrow> UsageInvocation \<Rightarrow> EventBody \<Rightarrow> Fate \<Rightarrow> Fate" where
  "fateOn m i (EvUsageDisposition model invocation disposition receiptPending) ft =
     (if model = m \<and> matches i invocation then
        (case ft of
           InFlight \<Rightarrow> if disposition \<noteq> Incomplete then Settled else if receiptPending then UnknownOpen else UnknownClosed
         | UnknownOpen \<Rightarrow> if disposition = Incomplete \<and> \<not> receiptPending then UnknownClosed else UnknownOpen
         | _ \<Rightarrow> ft)
      else ft)"
| "fateOn m i (EvCostUpdated model _ (Some invocation)) ft =
     (if model = m \<and> matches i invocation \<and> (ft = InFlight \<or> ft = UnknownOpen) then Settled else ft)"
| "fateOn m i (EvCostAttemptSettled model _ _ (Some invocation)) ft =
     (if model = m \<and> matches i invocation \<and> (ft = InFlight \<or> ft = UnknownOpen) then Settled else ft)"
| "fateOn m i _ ft = ft"

type_synonym tracked = "string \<times> UsageInvocation \<times> Fate"

fun begun :: "EventBody \<Rightarrow> tracked list" where
  "begun (EvUsagePending model invocation) = [(model, invocation, InFlight)]"
| "begun _ = []"

definition trackOn :: "EventBody \<Rightarrow> tracked list \<Rightarrow> tracked list" where
  "trackOn e tr = map (\<lambda>(m, i, ft). (m, i, fateOn m i e ft)) tr @ begun e"

definition track :: "EventBody list \<Rightarrow> tracked list" where
  "track es = fold trackOn es []"

definition inFlight :: "tracked \<Rightarrow> bool" where
  "inFlight t \<longleftrightarrow> snd (snd t) = InFlight"

definition endedUnknown :: "tracked \<Rightarrow> bool" where
  "endedUnknown t \<longleftrightarrow> snd (snd t) = UnknownOpen \<or> snd (snd t) = UnknownClosed"

definition ofModel :: "string \<Rightarrow> tracked \<Rightarrow> bool" where
  "ofModel m t \<longleftrightarrow> fst t = m"

definition tally :: "(tracked \<Rightarrow> bool) \<Rightarrow> tracked list \<Rightarrow> int" where
  "tally P tr = int (length (filter P tr))"

section \<open>The fold follows the reference\<close>

definition live :: "tracked \<Rightarrow> bool" where
  "live t \<longleftrightarrow> snd (snd t) = InFlight \<or> snd (snd t) = UnknownOpen"

definition entryOf :: "tracked \<Rightarrow> (string \<times> nat) \<times> PendingEntry" where
  "entryOf t = (keyOf (fst (snd t)), \<lparr>pe_model = fst t, pe_invocation = fst (snd t),
     pe_state = (if snd (snd t) = InFlight then EntryPending else EntryUnknown)\<rparr>)"

definition keyed :: "tracked list \<Rightarrow> nat \<Rightarrow> bool" where
  "keyed tr high \<longleftrightarrow> distinct (map (\<lambda>t. keyOf (fst (snd t))) tr) \<and> (\<forall>t \<in> set tr. ui_ordinal (fst (snd t)) \<le> high)"

definition counted :: "MutableCoverage \<Rightarrow> (tracked \<Rightarrow> bool) \<Rightarrow> tracked list \<Rightarrow> bool" where
  "counted c P tr \<longleftrightarrow> mc_pendingInvocations c = tally (\<lambda>t. P t \<and> inFlight t) tr \<and> mc_unknownCalls c = tally (\<lambda>t. P t \<and> endedUnknown t) tr"

definition covers :: "UsageCoverageFold \<Rightarrow> tracked list \<Rightarrow> bool" where
  "covers f tr \<longleftrightarrow> keyed tr (uf_highWater f) \<and> uf_pending f = map entryOf (filter live tr) \<and>
     counted (uf_total f) (\<lambda>_. True) tr \<and> (\<forall>m. counted (modelCoverage m f) (ofModel m) tr)"

lemma matches_iff [simp]: "matches a b \<longleftrightarrow> a = b"
  by (cases a; cases b) (auto simp: matches_def)

lemma modelCoverage_moveCounts [simp]:
  "modelCoverage m' (moveCounts m p u f) = (if m' = m then shift p u (modelCoverage m f) else modelCoverage m' f)"
  by (simp add: modelCoverage_def moveCounts_def shift_def split: option.split)

lemma moveCounts_fields [simp]:
  "uf_pending (moveCounts m p u f) = uf_pending f" "uf_highWater (moveCounts m p u f) = uf_highWater f"
  "uf_total (moveCounts m p u f) = shift p u (uf_total f)" "uf_started (moveCounts m p u f) = uf_started f"
  by (simp_all add: moveCounts_def)

lemma modelCoverage_pending [simp]:
  "modelCoverage m (f\<lparr>uf_pending := q\<rparr>) = modelCoverage m f" "modelCoverage m (f\<lparr>uf_highWater := n\<rparr>) = modelCoverage m f"
  by (simp_all add: modelCoverage_def split: option.split)

lemma tally_simps [simp]: "tally P (xs @ ys) = tally P xs + tally P ys" "tally P [] = 0" "tally P (t # ts) = (if P t then 1 else 0) + tally P ts"
  by (simp_all add: tally_def)

lemma mdelete_mid: "k \<notin> fst ` set A \<Longrightarrow> k \<notin> fst ` set B \<Longrightarrow> mdelete k (A @ (k, e) # B) = A @ B"
  by (force simp: mdelete_def intro!: arg_cong2[where f = append] filter_True)

lemma mset_key_mid: "k \<notin> fst ` set A \<Longrightarrow> mset_key k e' (A @ (k, e) # B) = A @ (k, e') # B"
  by (induction A) auto

lemma mset_key_new: "k \<notin> fst ` set A \<Longrightarrow> mset_key k e A = A @ [(k, e)]"
  by (induction A) auto

lemma fresh_key: "(\<And>t. t \<in> set zs \<Longrightarrow> keyOf (fst (snd t)) \<noteq> k) \<Longrightarrow> k \<notin> fst ` set (map entryOf zs)"
  by (auto simp: entryOf_def image_iff simp del: split_paired_All)

lemma keyed_mid:
  assumes "keyed (xs @ (m, i, ft) # ys) high"
  shows "keyed (xs @ (m, i, ft') # ys) high"
    and "keyOf i \<notin> fst ` set (map entryOf (filter P xs))" and "keyOf i \<notin> fst ` set (map entryOf (filter P ys))"
    and "t \<in> set xs \<union> set ys \<Longrightarrow> fst (snd t) \<noteq> i"
proof -
  have k: "keyOf (fst (snd t)) \<noteq> keyOf i" if "t \<in> set xs \<union> set ys" for t
    using assms that by (auto simp: keyed_def image_iff)
  show "keyOf i \<notin> fst ` set (map entryOf (filter P xs))" "keyOf i \<notin> fst ` set (map entryOf (filter P ys))"
    by (rule fresh_key, use k in simp)+
  show "keyed (xs @ (m, i, ft') # ys) high" using assms by (simp add: keyed_def)
  show "t \<in> set xs \<union> set ys \<Longrightarrow> fst (snd t) \<noteq> i" using k by blast
qed

text \<open>One tracked invocation changes its fate; the counters move by the difference.\<close>

definition weight :: "Fate \<Rightarrow> int \<times> int" where
  "weight ft = (if ft = InFlight then 1 else 0, if ft = UnknownOpen \<or> ft = UnknownClosed then 1 else 0)"

lemma covers_mid:
  assumes c: "covers f (xs @ (m, i, ft) # ys)" and pd: "uf_pending g = map entryOf (filter live (xs @ (m, i, ft') # ys))"
    and hw: "uf_highWater g = uf_highWater f" and tt: "uf_total g = shift p u (uf_total f)"
    and md: "\<And>m'. modelCoverage m' g = (if m' = m then shift p u (modelCoverage m f) else modelCoverage m' f)"
    and w: "weight ft' = (fst (weight ft) + p, snd (weight ft) + u)"
  shows "covers g (xs @ (m, i, ft') # ys)"
proof -
  have "counted (shift p u cc) P (xs @ (m, i, ft') # ys)" if "counted cc P (xs @ (m, i, ft) # ys)" "P (m, i, ft)" "P (m, i, ft')" for cc P
    using that w by (auto simp: counted_def shift_def weight_def inFlight_def endedUnknown_def split: if_splits)
  moreover have "counted cc P (xs @ (m, i, ft') # ys)" if "counted cc P (xs @ (m, i, ft) # ys)" "\<not> P (m, i, ft)" "\<not> P (m, i, ft')" for cc P
    using that by (simp add: counted_def)
  ultimately have "counted (modelCoverage m' g) (ofModel m') (xs @ (m, i, ft') # ys)" for m'
    using c by (auto simp: covers_def md ofModel_def)
  moreover have "counted (uf_total g) (\<lambda>_. True) (xs @ (m, i, ft') # ys)"
    using c w by (auto simp: covers_def tt counted_def shift_def weight_def inFlight_def endedUnknown_def split: if_splits)
  ultimately show ?thesis using c pd hw keyed_mid(1) by (auto simp: covers_def)
qed

lemma entryFor_None:
  assumes c: "covers f tr" and n: "entryFor m i f = None" and t: "(m, i, ft) \<in> set tr"
  shows "\<not> live (m, i, ft)"
proof
  assume l: "live (m, i, ft)"
  then have "(keyOf i, snd (entryOf (m, i, ft))) \<in> set (uf_pending f)" using c t by (force simp: covers_def entryOf_def)
  moreover have "distinct (map (\<lambda>t. keyOf (fst (snd t))) (filter live tr))"
    using c unfolding covers_def keyed_def by (blast intro: distinct_map_filter)
  then have "map_invar (uf_pending f)" using c by (simp add: covers_def map_invar_def comp_def entryOf_def)
  ultimately have "mget (uf_pending f) (keyOf i) = Some (snd (entryOf (m, i, ft)))" by (simp add: in_set_mget)
  then show False using n by (simp add: entryFor_def entryOf_def)
qed

lemma entryFor_Some:
  assumes c: "covers f tr" and e: "entryFor m i f = Some e"
  obtains xs ft ys where "tr = xs @ (m, i, ft) # ys" "live (m, i, ft)" "pe_state e = (if ft = InFlight then EntryPending else EntryUnknown)"
    "e = \<lparr>pe_model = m, pe_invocation = i, pe_state = pe_state e\<rparr>"
proof -
  have "(keyOf i, e) \<in> set (uf_pending f)" "pe_model e = m" "pe_invocation e = i"
    using e mget_in_set by (auto simp: entryFor_def split: option.splits if_splits)
  then obtain t where t: "t \<in> set tr" "live t" "entryOf t = (keyOf i, e)" using c by (auto simp: covers_def)
  then have "t = (m, i, snd (snd t))" using \<open>pe_model e = m\<close> \<open>pe_invocation e = i\<close> by (auto simp: entryOf_def prod_eq_iff)
  then obtain ft where "t = (m, i, ft)" by blast
  moreover obtain xs ys where "tr = xs @ t # ys" using split_list[OF t(1)] by blast
  ultimately show thesis using t that by (auto simp: entryOf_def)
qed

text \<open>An event about one invocation leaves all the others alone.\<close>

definition concerns :: "string \<Rightarrow> UsageInvocation \<Rightarrow> EventBody \<Rightarrow> bool" where
  "concerns m i e \<longleftrightarrow> begun e = [] \<and> (\<forall>m' i' ft. fateOn m' i' e ft \<noteq> ft \<longrightarrow> m' = m \<and> i' = i \<and> live (m', i', ft))"

lemma trackOn_None:
  assumes "covers f tr" and "entryFor m i f = None" and "concerns m i e"
  shows "trackOn e tr = tr"
  using assms entryFor_None[OF assms(1,2)] by (force simp: trackOn_def concerns_def intro!: map_idI)

lemma trackOn_mid:
  assumes k: "keyed (xs @ (m, i, ft) # ys) high" and e: "concerns m i e"
  shows "trackOn e (xs @ (m, i, ft) # ys) = xs @ (m, i, fateOn m i e ft) # ys"
proof -
  have "map (\<lambda>(m, i, ft). (m, i, fateOn m i e ft)) zs = zs" if "set zs \<subseteq> set xs \<union> set ys" for zs
    using that keyed_mid(4)[OF k] e by (force simp: concerns_def intro!: map_idI)
  then show ?thesis using e by (simp add: trackOn_def concerns_def)
qed

lemma disposition_follows:
  assumes c: "covers f tr"
  shows "covers (snd (dispositionUsage m i d rp f)) (trackOn (EvUsageDisposition m i d rp) tr)"
proof (cases "entryFor m i f")
  have con: "concerns m i (EvUsageDisposition m i d rp)" by (auto simp: concerns_def live_def split: Fate.splits if_splits)
  case None
  then show ?thesis using c trackOn_None[OF c None con] by (simp add: dispositionUsage_def)
next
  have con: "concerns m i (EvUsageDisposition m i d rp)" by (auto simp: concerns_def live_def split: Fate.splits if_splits)
  case (Some e)
  obtain xs ft ys where tr: "tr = xs @ (m, i, ft) # ys" and l: "live (m, i, ft)"
    and st: "pe_state e = (if ft = InFlight then EntryPending else EntryUnknown)" and ee: "e = \<lparr>pe_model = m, pe_invocation = i, pe_state = pe_state e\<rparr>"
    using entryFor_Some[OF c Some] .
  have k: "keyed (xs @ (m, i, ft) # ys) (uf_highWater f)" and pd: "uf_pending f = map entryOf (filter live xs) @ entryOf (m, i, ft) # map entryOf (filter live ys)"
    using c l by (simp_all add: covers_def tr)
  note del = mdelete_mid[OF keyed_mid(2,3)[OF k, of live]] and upd = mset_key_mid[OF keyed_mid(2)[OF k, of live]]
  have "covers (snd (dispositionUsage m i d rp f)) (xs @ (m, i, fateOn m i (EvUsageDisposition m i d rp) ft) # ys)"
  proof (rule covers_mid[OF c[unfolded tr], where p = "fst (weight (fateOn m i (EvUsageDisposition m i d rp) ft)) - fst (weight ft)"
        and u = "snd (weight (fateOn m i (EvUsageDisposition m i d rp) ft)) - snd (weight ft)"])
  qed (use l st pd ee del upd in \<open>auto simp: dispositionUsage_def Some live_def weight_def entryOf_def dropEntry_def shift_def Let_def\<close>)
  then show ?thesis by (simp only: tr trackOn_mid[OF k con])
qed

lemma complete_follows:
  assumes c: "covers f tr" and con: "concerns m i e" and fe: "\<And>ft. live (m, i, ft) \<Longrightarrow> fateOn m i e ft = Settled"
  shows "covers (snd (completeUsage m i f)) (trackOn e tr)"
proof (cases "entryFor m i f")
  case None
  then show ?thesis using c trackOn_None[OF c None con] by (simp add: completeUsage_def)
next
  case (Some en)
  obtain xs ft ys where tr: "tr = xs @ (m, i, ft) # ys" and l: "live (m, i, ft)"
    and st: "pe_state en = (if ft = InFlight then EntryPending else EntryUnknown)" and ee: "en = \<lparr>pe_model = m, pe_invocation = i, pe_state = pe_state en\<rparr>"
    using entryFor_Some[OF c Some] .
  have k: "keyed (xs @ (m, i, ft) # ys) (uf_highWater f)" and pd: "uf_pending f = map entryOf (filter live xs) @ entryOf (m, i, ft) # map entryOf (filter live ys)"
    using c l by (simp_all add: covers_def tr)
  note del = mdelete_mid[OF keyed_mid(2,3)[OF k, of live]]
  have "covers (snd (completeUsage m i f)) (xs @ (m, i, Settled) # ys)"
  proof (rule covers_mid[OF c[unfolded tr], where p = "- fst (weight ft)" and u = "- snd (weight ft)"])
  qed (use l st pd del in \<open>auto simp: completeUsage_def Some live_def weight_def entryOf_def dropEntry_def shift_def\<close>)
  then show ?thesis by (simp only: tr trackOn_mid[OF k con] fe[OF l])
qed

lemma pending_follows:
  assumes c: "covers f tr" and a: "pendingUsage m i f = Inr g"
  shows "covers g (tr @ [(m, i, InFlight)])"
proof -
  have o: "uf_highWater f < ui_ordinal i" using a by (simp add: pendingUsage_def split: if_splits)
  have new: "keyOf (fst (snd t)) \<noteq> keyOf i" "ui_ordinal (fst (snd t)) \<le> ui_ordinal i" if "t \<in> set tr" for t
    using c o that by (auto simp: covers_def keyed_def keyOf_def)
  have "keyOf i \<notin> fst ` set (map entryOf (filter live tr))" by (rule fresh_key, use new in simp)
  then have "mset_key (keyOf i) e (uf_pending f) = map entryOf (filter live tr) @ [(keyOf i, e)]" for e
    using c mset_key_new[of "keyOf i" "map entryOf (filter live tr)"] by (simp add: covers_def)
  moreover have "keyOf i \<notin> (\<lambda>t. keyOf (fst (snd t))) ` set tr"
  proof
    assume "keyOf i \<in> (\<lambda>t. keyOf (fst (snd t))) ` set tr"
    then obtain t where "t \<in> set tr" "keyOf i = keyOf (fst (snd t))" by (rule imageE)
    then show False using new(1)[of t] by simp
  qed
  then have "keyed (tr @ [(m, i, InFlight)]) (ui_ordinal i)"
    using c new(2) by (auto simp: covers_def keyed_def)
  ultimately show ?thesis using c a
    by (auto simp: pendingUsage_def covers_def counted_def shift_def live_def entryOf_def inFlight_def endedUnknown_def ofModel_def split: if_splits)
qed

lemma start_follows:
  assumes "covers f tr" and "startCoverage b f = Inr g"
  shows "covers g tr"
proof -
  have g: "g = f\<lparr>uf_started := True, uf_total := (uf_total f)\<lparr>mc_unverified := (b = LegacyUnverified)\<rparr>\<rparr>"
    using assms(2) by (simp add: startCoverage_def split: if_splits)
  have "counted (modelCoverage m g) P tr = counted (modelCoverage m f) P tr" for m P
    by (simp add: g modelCoverage_def counted_def emptyCoverage_def split: option.split)
  then show ?thesis using assms(1) by (simp add: covers_def) (simp add: g counted_def)
qed

lemma trackOn_other: "begun e = [] \<Longrightarrow> (\<And>m i ft. fateOn m i e ft = ft) \<Longrightarrow> trackOn e tr = tr"
  by (simp add: trackOn_def case_prod_unfold)

lemma apply_follows:
  assumes c: "covers f tr" and a: "applyCoverage e f = Inr g"
  shows "covers g (trackOn e tr)"
proof (cases "(e, f)" rule: applyCoverage.cases)
  case (1 b)
  then show ?thesis using a start_follows[OF c] by (simp add: trackOn_other)
next
  case (2 m i)
  then show ?thesis using a pending_follows[OF c] by (simp add: trackOn_def case_prod_unfold)
next
  case (3 m i d rp)
  then show ?thesis using a disposition_follows[OF c, of m i d rp] by auto
next
  case (4 m n i)
  then have "covers (snd (completeUsage m i f)) (trackOn e tr)" by (intro complete_follows[OF c]) (auto simp: concerns_def live_def)
  then show ?thesis using a 4 by simp
next
  case (5 m n q i)
  then have "covers (snd (completeUsage m i f)) (trackOn e tr)" by (intro complete_follows[OF c]) (auto simp: concerns_def live_def)
  then show ?thesis using a 5 by simp
qed (use a c in \<open>simp_all add: trackOn_other\<close>)

lemma foldCoverage_follows: "covers f tr \<Longrightarrow> foldCoverage es f = Inr g \<Longrightarrow> covers g (fold trackOn es tr)"
  by (induction es arbitrary: f tr) (auto intro: apply_follows)

lemma fresh_covers: "covers freshCoverage []"
  by (simp add: covers_def freshCoverage_def keyed_def counted_def modelCoverage_def emptyCoverage_def)

section \<open>Which logs are accepted\<close>

fun basisEvent :: "EventBody \<Rightarrow> bool" where
  "basisEvent (EvCoverageStarted _) = True"
| "basisEvent _ = False"

definition ordinals :: "EventBody list \<Rightarrow> nat list" where
  "ordinals es = map (\<lambda>t. ui_ordinal (fst (snd t))) (concat (map begun es))"

definition acceptable :: "bool \<Rightarrow> nat \<Rightarrow> EventBody list \<Rightarrow> bool" where
  "acceptable started high es \<longleftrightarrow> length (filter basisEvent es) \<le> (if started then 0 else 1) \<and> sorted_wrt (<) (high # ordinals es)"

lemma counts_kept [simp]:
  "uf_started (snd (dispositionUsage m i d rp f)) = uf_started f" "uf_highWater (snd (dispositionUsage m i d rp f)) = uf_highWater f"
  "uf_started (snd (completeUsage m i f)) = uf_started f" "uf_highWater (snd (completeUsage m i f)) = uf_highWater f"
  by (auto simp: dispositionUsage_def completeUsage_def dropEntry_def Let_def split: option.split EntryState.split)

lemma ordinals_Cons: "ordinals (e # es) = map (\<lambda>t. ui_ordinal (fst (snd t))) (begun e) @ ordinals es"
  by (simp add: ordinals_def)

lemma increasing_from: "sorted_wrt (<) (h # x # xs) \<longleftrightarrow> h < x \<and> sorted_wrt (<) (x # xs)" for h :: nat
  by auto

lemma acceptable_step:
  "acceptable (uf_started f) (uf_highWater f) (e # es) \<longleftrightarrow>
    (\<exists>g. applyCoverage e f = Inr g \<and> acceptable (uf_started g) (uf_highWater g) es)"
proof (cases "(e, f)" rule: applyCoverage.cases)
  case (2 m i)
  then show ?thesis
    by (auto simp: acceptable_def ordinals_Cons increasing_from pendingUsage_def not_le simp del: sorted_wrt.simps)
qed (auto simp: acceptable_def ordinals_Cons startCoverage_def)

lemma foldCoverage_accepts: "(\<exists>g. foldCoverage es f = Inr g) \<longleftrightarrow> acceptable (uf_started f) (uf_highWater f) es"
proof (induction es arbitrary: f)
  case Nil
  then show ?case by (simp add: acceptable_def ordinals_def)
next
  case (Cons e es)
  then show ?case by (auto simp: acceptable_step)
qed

section \<open>Result\<close>

text \<open>C33: the coverage of a log. The fold accepts exactly the logs that set a basis at most once and whose
  pending invocations have increasing ordinals; then its counters, in all and for each model, are the numbers
  of invocations in flight and of invocations that ended with unknown usage when each invocation is followed
  on its own, although the fold forgets an invocation once it is closed. In particular no counter is ever negative.\<close>

theorem coverage_exact:
  "((\<exists>f. foldCoverage es freshCoverage = Inr f) \<longleftrightarrow>
      length (filter basisEvent es) \<le> 1 \<and> sorted_wrt (<) (0 # ordinals es)) \<and>
   (\<forall>f m. foldCoverage es freshCoverage = Inr f \<longrightarrow>
      mc_pendingInvocations (uf_total f) = tally inFlight (track es) \<and>
      mc_unknownCalls (uf_total f) = tally endedUnknown (track es) \<and>
      mc_pendingInvocations (modelCoverage m f) = tally (\<lambda>t. ofModel m t \<and> inFlight t) (track es) \<and>
      mc_unknownCalls (modelCoverage m f) = tally (\<lambda>t. ofModel m t \<and> endedUnknown t) (track es))"
  using foldCoverage_accepts[of es freshCoverage] foldCoverage_follows[OF fresh_covers, of es]
  by (auto simp: acceptable_def freshCoverage_def covers_def counted_def track_def)

definition sampleUsage :: "nat \<Rightarrow> UsageInvocation" where
  "sampleUsage n = \<lparr>ui_producerId = ''p'', ui_ordinal = n, ui_dispatchId = ''d'', ui_round = 0, ui_chainAttempt = 1\<rparr>"

text \<open>Three calls: the first ends unknown and is completed by its late receipt, the second ends unknown for
  good, the third is still in flight.\<close>

definition sampleCoverageLog :: "EventBody list" where
  "sampleCoverageLog =
     [EvCoverageStarted CompleteBasis, EvUsagePending ''a'' (sampleUsage 1), EvUsagePending ''b'' (sampleUsage 2),
      EvUsageDisposition ''a'' (sampleUsage 1) Incomplete True, EvUsageDisposition ''b'' (sampleUsage 2) Incomplete False,
      EvUsagePending ''a'' (sampleUsage 5), EvCostAttemptSettled ''a'' 7 None (Some (sampleUsage 1))]"

definition sampleCoverage :: UsageCoverageFold where
  "sampleCoverage = (case foldCoverage sampleCoverageLog freshCoverage of Inr f \<Rightarrow> f | Inl _ \<Rightarrow> freshCoverage)"

theorem coverage_exact_witness:
  "foldCoverage sampleCoverageLog freshCoverage = Inr sampleCoverage \<and>
   mc_pendingInvocations (uf_total sampleCoverage) = tally inFlight (track sampleCoverageLog) \<and>
   mc_unknownCalls (uf_total sampleCoverage) = tally endedUnknown (track sampleCoverageLog) \<and>
   tally inFlight (track sampleCoverageLog) = 1 \<and> tally endedUnknown (track sampleCoverageLog) = 1"
proof -
  have a: "foldCoverage sampleCoverageLog freshCoverage = Inr sampleCoverage" by code_simp
  have "tally inFlight (track sampleCoverageLog) = 1" "tally endedUnknown (track sampleCoverageLog) = 1" by code_simp+
  then show ?thesis using a coverage_exact[of sampleCoverageLog] by simp
qed

end
