(* ===== verification/Node_Life.thy ===== *)
theory Node_Life
  imports Run_Suspension
begin

text \<open>
  The life clock of an agent node, \<open>src/packages/core/src/engine/node-life-clock.ts\<close>: the instant from which the
  timeout of a node counts when a run is rebuilt from its log. An approval of a budget gate starts the node
  again without a new clock; a restart after a crash opens a new life; a history that does not fit leaves the
  clock invalid. A timestamp that does not parse is \<open>None\<close> (\<open>NaN\<close>).
\<close>

section \<open>State and operations\<close>

datatype NodeLifeClock = ValidClock "int option" | InvalidClock

record Life =
  lf_startedAtMs :: "int option"
  lf_attempt :: nat
  lf_nextRetry :: "nat option"
  lf_budgetContinuation :: bool
  lf_valid :: bool

type_synonym lives = "(string, Life) jsmap"

definition freshLife :: "int option \<Rightarrow> nat \<Rightarrow> bool \<Rightarrow> Life" where
  "freshLife timestamp attempt valid =
     \<lparr>lf_startedAtMs = timestamp, lf_attempt = attempt, lf_nextRetry = None, lf_budgetContinuation = False, lf_valid = valid\<rparr>"

definition lifeStarted :: "string \<Rightarrow> nat \<Rightarrow> int option \<Rightarrow> lives \<Rightarrow> lives" where
  "lifeStarted node attempt timestamp lives =
     (let prior = mget lives node in
      if attempt = 1 then
        (case prior of
           Some p \<Rightarrow>
             if lf_budgetContinuation p then
               mset_key node (p\<lparr>lf_valid := lf_valid p \<and> timestamp \<noteq> None \<and> lf_nextRetry p = None, lf_budgetContinuation := False,
                 lf_attempt := 1, lf_nextRetry := None\<rparr>) lives
             else mset_key node (freshLife timestamp attempt (timestamp \<noteq> None)) lives
         | None \<Rightarrow> mset_key node (freshLife timestamp attempt (timestamp \<noteq> None)) lives)
      else (case prior of
           Some p \<Rightarrow>
             mset_key node (p\<lparr>lf_valid := lf_valid p \<and> timestamp \<noteq> None \<and> lf_nextRetry p = Some attempt \<and>
                 Suc (lf_attempt p) = attempt \<and> \<not> lf_budgetContinuation p, lf_attempt := attempt, lf_nextRetry := None\<rparr>) lives
         | None \<Rightarrow> mset_key node (freshLife timestamp attempt False) lives))"

definition lifeRetrying :: "string \<Rightarrow> nat \<Rightarrow> int option \<Rightarrow> lives \<Rightarrow> lives" where
  "lifeRetrying node attempt timestamp lives =
     (case mget lives node of None \<Rightarrow> lives
      | Some p \<Rightarrow> mset_key node (p\<lparr>lf_valid := lf_valid p \<and> lf_attempt p = attempt \<and> lf_nextRetry p = None \<and>
          \<not> lf_budgetContinuation p \<and> timestamp \<noteq> None, lf_nextRetry := Some (attempt + 1)\<rparr>) lives)"

definition lifeEvent :: "LogEvent \<Rightarrow> lives \<Rightarrow> lives" where
  "lifeEvent ev lives =
     (case ev_body ev of
        EvNodeStarted node agent attempt \<Rightarrow>
          if agent then lifeStarted node (case attempt of None \<Rightarrow> 1 | Some a \<Rightarrow> a) (ev_timestamp ev) lives else lives
      | EvNodeRetrying node attempt \<Rightarrow> lifeRetrying node attempt (ev_timestamp ev) lives
      | body \<Rightarrow> (case terminalNode body of None \<Rightarrow> lives | Some node \<Rightarrow> mdelete node lives))"

definition lifeApproved :: "string \<Rightarrow> lives \<Rightarrow> lives" where
  "lifeApproved node lives =
     (case mget lives node of
        Some p \<Rightarrow> mset_key node (p\<lparr>lf_valid := lf_valid p \<and> \<not> lf_budgetContinuation p \<and> lf_nextRetry p = None, lf_budgetContinuation := True\<rparr>) lives
      | None \<Rightarrow> mset_key node ((freshLife None 1 False)\<lparr>lf_budgetContinuation := True\<rparr>) lives)"

fun lifeTransition :: "GateTransition option \<Rightarrow> lives \<Rightarrow> lives" where
  "lifeTransition (Some (BudgetDecided gate Approved)) lives = lifeApproved (pg_nodeId gate) lives"
| "lifeTransition (Some (HumanDecided gate _)) lives = mdelete (pg_nodeId gate) lives"
| "lifeTransition _ lives = lives"

definition applyLife :: "LogEvent \<Rightarrow> GateTransition option \<Rightarrow> lives \<Rightarrow> lives" where
  "applyLife ev transition lives = lifeTransition transition (lifeEvent ev lives)"

definition snapshotLife :: "lives \<Rightarrow> (string \<times> NodeLifeClock) list" where
  "snapshotLife lives = map (\<lambda>(node, l). (node, if lf_valid l then ValidClock (lf_startedAtMs l) else InvalidClock)) lives"

definition pendingBudgetContinuations :: "lives \<Rightarrow> string list" where
  "pendingBudgetContinuations lives = map fst (filter (\<lambda>(_, l). lf_budgetContinuation l) lives)"

section \<open>One node at a time\<close>

lemma mget_lifeStarted: "node' \<noteq> node \<Longrightarrow> mget (lifeStarted node a ts lives) node' = mget lives node'"
  by (simp add: lifeStarted_def Let_def split: option.split)

lemma mget_lifeRetrying: "node' \<noteq> node \<Longrightarrow> mget (lifeRetrying node a ts lives) node' = mget lives node'"
  by (simp add: lifeRetrying_def split: option.split)

lemma mget_lifeApproved: "node' \<noteq> node \<Longrightarrow> mget (lifeApproved node lives) node' = mget lives node'"
  by (simp add: lifeApproved_def split: option.split)

section \<open>Which starts a life contains\<close>

definition firstStart :: "string \<Rightarrow> LogEvent \<Rightarrow> bool" where
  "firstStart node ev \<longleftrightarrow> ev_body ev = EvNodeStarted node True None \<or> ev_body ev = EvNodeStarted node True (Some 1)"

fun approvedNode :: "GateTransition option \<Rightarrow> string option" where
  "approvedNode (Some (BudgetDecided gate Approved)) = Some (pg_nodeId gate)"
| "approvedNode _ = None"

fun humanNode :: "GateTransition option \<Rightarrow> string option" where
  "humanNode (Some (HumanDecided gate _)) = Some (pg_nodeId gate)"
| "humanNode _ = None"

definition ends :: "string \<Rightarrow> LogEvent \<times> GateTransition option \<Rightarrow> bool" where
  "ends node x \<longleftrightarrow> terminalNode (ev_body (fst x)) = Some node \<or> humanNode (snd x) = Some node"

definition foldLife :: "(LogEvent \<times> GateTransition option) list \<Rightarrow> lives" where
  "foldLife hist = fold (\<lambda>(ev, t). applyLife ev t) hist []"

definition starts :: "string \<Rightarrow> (LogEvent \<times> GateTransition option) list \<Rightarrow> nat" where
  "starts node hist = length (filter (\<lambda>x. firstStart node (fst x)) hist)"

definition approvals :: "string \<Rightarrow> (LogEvent \<times> GateTransition option) list \<Rightarrow> nat" where
  "approvals node hist = length (filter (\<lambda>x. approvedNode (snd x) = Some node) hist)"

text \<open>A stretch of the log that is one life of a node with its clock at \<open>t0\<close>.\<close>

definition lifeSpan :: "string \<Rightarrow> int \<Rightarrow> bool \<Rightarrow> (LogEvent \<times> GateTransition option) list \<Rightarrow> bool" where
  "lifeSpan node t0 continuation zs \<longleftrightarrow>
     (\<exists>ev t ys. zs = (ev, t) # ys \<and> firstStart node ev \<and> ev_timestamp ev = Some t0) \<and>
     (\<forall>x \<in> set zs. \<not> ends node x) \<and> starts node zs + (if continuation then 1 else 0) = 1 + approvals node zs"

definition spans :: "(LogEvent \<times> GateTransition option) list \<Rightarrow> string \<Rightarrow> Life \<Rightarrow> bool" where
  "spans hist node l \<longleftrightarrow> (\<exists>t0 xs zs. lf_startedAtMs l = Some t0 \<and> hist = xs @ zs \<and> lifeSpan node t0 (lf_budgetContinuation l) zs)"

lemma lifeSpan_extend:
  assumes "lifeSpan node t0 c zs" and "\<not> ends node (ev, None)" and "if firstStart node ev then c \<and> \<not> c' else c' = c"
  shows "lifeSpan node t0 c' (zs @ [(ev, None)])"
  using assms by (auto simp: lifeSpan_def starts_def approvals_def split: if_splits)

lemma spans_extend:
  assumes "spans hist node l" and "\<not> ends node (ev, None)" and "lf_startedAtMs l' = lf_startedAtMs l"
    and "if firstStart node ev then lf_budgetContinuation l \<and> \<not> lf_budgetContinuation l' else lf_budgetContinuation l' = lf_budgetContinuation l"
  shows "spans (hist @ [(ev, None)]) node l'"
proof -
  obtain t0 xs zs where h: "lf_startedAtMs l = Some t0" "hist = xs @ zs" "lifeSpan node t0 (lf_budgetContinuation l) zs"
    using assms(1) by (auto simp: spans_def)
  have "lifeSpan node t0 (lf_budgetContinuation l') (zs @ [(ev, None)])" using lifeSpan_extend[OF h(3) assms(2,4)] .
  then show ?thesis using h assms(3) unfolding spans_def by force
qed

lemma spans_fresh:
  assumes "firstStart node ev" and "ev_timestamp ev = Some t0" and "\<not> lf_budgetContinuation l" and "lf_startedAtMs l = Some t0"
  shows "spans (hist @ [(ev, None)]) node l"
proof -
  have "lifeSpan node t0 False [(ev, None)]"
    using assms by (auto simp: lifeSpan_def starts_def approvals_def ends_def firstStart_def)
  then show ?thesis using assms unfolding spans_def by (metis)
qed

text \<open>A gate transition on the last event of the history.\<close>

lemma spans_transition:
  assumes "spans (hist @ [(ev, None)]) node l" and "humanNode t \<noteq> Some node" and "lf_startedAtMs l' = lf_startedAtMs l"
    and "if approvedNode t = Some node then \<not> lf_budgetContinuation l \<and> lf_budgetContinuation l' else lf_budgetContinuation l' = lf_budgetContinuation l"
  shows "spans (hist @ [(ev, t)]) node l'"
proof -
  obtain t0 xs zs where h: "lf_startedAtMs l = Some t0" "hist @ [(ev, None)] = xs @ zs" "lifeSpan node t0 (lf_budgetContinuation l) zs"
    using assms(1) by (auto simp: spans_def)
  have "zs \<noteq> []" using h(3) by (auto simp: lifeSpan_def)
  then obtain ys where zs: "zs = ys @ [(ev, None)]" "hist = xs @ ys" using h(2) by (cases zs rule: rev_cases) auto
  have "lifeSpan node t0 (lf_budgetContinuation l') (ys @ [(ev, t)])"
    using h(3) assms(2,4) unfolding zs(1)
    by (cases ys) (auto simp: lifeSpan_def starts_def approvals_def ends_def split: if_splits)
  then show ?thesis using h(1) zs(2) assms(3) unfolding spans_def by force
qed

lemma event_spans:
  assumes ih: "\<And>l. mget lives node = Some l \<Longrightarrow> lf_valid l \<Longrightarrow> spans hist node l"
    and l: "mget (lifeEvent ev lives) node = Some l" "lf_valid l"
  shows "spans (hist @ [(ev, None)]) node l"
proof (cases "\<exists>a. ev_body ev = EvNodeStarted node True a")
  case True
  then obtain a where a: "ev_body ev = EvNodeStarted node True a" by blast
  let ?a = "case a of None \<Rightarrow> 1 | Some n \<Rightarrow> n"
  have fs: "firstStart node ev \<longleftrightarrow> ?a = 1" using a by (auto simp: firstStart_def split: option.splits)
  have ne: "\<not> ends node (ev, None)" using a by (simp add: ends_def)
  show ?thesis
  proof (cases "\<exists>p. mget lives node = Some p \<and> (?a = 1 \<longrightarrow> lf_budgetContinuation p)")
    case True
    then obtain p where p: "mget lives node = Some p" "?a = 1 \<longrightarrow> lf_budgetContinuation p" by blast
    then have "spans hist node p"
      "lf_startedAtMs l = lf_startedAtMs p" "if ?a = 1 then lf_budgetContinuation p \<and> \<not> lf_budgetContinuation l else lf_budgetContinuation l = lf_budgetContinuation p"
      using ih[of p] l a by (auto simp: lifeEvent_def lifeStarted_def Let_def split: if_splits)
    then show ?thesis using spans_extend[OF _ ne] fs by simp
  next
    case False
    then have "l = freshLife (ev_timestamp ev) ?a (ev_timestamp ev \<noteq> None)" "?a = 1"
      using l a by (auto simp: lifeEvent_def lifeStarted_def Let_def freshLife_def split: if_splits option.splits)
    then show ?thesis using spans_fresh fs l(2) by (auto simp: freshLife_def)
  qed
next
  case False
  then have nf: "\<not> firstStart node ev" by (auto simp: firstStart_def)
  obtain p where p: "mget lives node = Some p" "lf_startedAtMs l = lf_startedAtMs p" "lf_budgetContinuation l = lf_budgetContinuation p" "lf_valid p"
    and ne: "\<not> ends node (ev, None)"
  proof (cases "terminalNode (ev_body ev)")
    case (Some m)
    then show thesis using that[of l] l by (cases "ev_body ev") (auto simp: lifeEvent_def ends_def split: if_splits)
  next
    case None
    then show thesis using that l False
      by (cases "ev_body ev") (auto simp: lifeEvent_def ends_def lifeRetrying_def mget_lifeStarted split: if_splits option.splits)
  qed
  then show ?thesis using spans_extend[OF ih[OF p(1,4)] ne] nf by simp
qed

lemma transition_spans:
  assumes ih: "\<And>l. mget lives node = Some l \<Longrightarrow> lf_valid l \<Longrightarrow> spans (hist @ [(ev, None)]) node l"
    and l: "mget (lifeTransition t lives) node = Some l" "lf_valid l"
  shows "spans (hist @ [(ev, t)]) node l"
proof (cases "approvedNode t = Some node")
  case True
  then obtain p where p: "mget lives node = Some p" "lf_valid p" "\<not> lf_budgetContinuation p" "lf_budgetContinuation l" "lf_startedAtMs l = lf_startedAtMs p"
    using l by (cases t rule: approvedNode.cases) (auto simp: lifeApproved_def freshLife_def split: option.splits)
  moreover have "humanNode t \<noteq> Some node" using True by (cases t rule: approvedNode.cases) auto
  ultimately show ?thesis using spans_transition[OF ih[OF p(1,2)]] True by simp
next
  case False
  then have m: "mget lives node = Some l" "humanNode t \<noteq> Some node"
    using l by (cases "(t, lives)" rule: lifeTransition.cases; auto simp: mget_lifeApproved split: if_splits)+
  show ?thesis using spans_transition[OF ih[OF m(1) l(2)] m(2)] False by simp
qed

lemma foldLife_spans: "mget (foldLife hist) node = Some l \<Longrightarrow> lf_valid l \<Longrightarrow> spans hist node l"
proof (induction hist arbitrary: l rule: rev_induct)
  case Nil
  then show ?case by (simp add: foldLife_def)
next
  case (snoc x hist)
  obtain ev t where x: "x = (ev, t)" by fastforce
  have "mget (lifeTransition t (lifeEvent ev (foldLife hist))) node = Some l" using snoc.prems(1) by (simp add: x foldLife_def applyLife_def)
  then have s: "\<And>l. mget (lifeEvent ev (foldLife hist)) node = Some l \<Longrightarrow> lf_valid l \<Longrightarrow> spans (hist @ [(ev, None)]) node l"
    and l: "mget (lifeTransition t (lifeEvent ev (foldLife hist))) node = Some l" "lf_valid l"
    using event_spans[OF snoc.IH] snoc.prems(2) by blast+
  show ?case unfolding x by (rule transition_spans[OF s l])
qed

section \<open>Result\<close>

lemma map_invar_foldLife: "map_invar (foldLife hist)"
proof (induction hist rule: rev_induct)
  case (snoc x hist)
  have "map_invar (lifeEvent ev lives)" if "map_invar lives" for ev lives
    using that by (simp add: lifeEvent_def lifeStarted_def lifeRetrying_def Let_def split: option.split EventBody.split)
  moreover have "map_invar (lifeTransition t lives)" if "map_invar lives" for t lives
    using that by (cases "(t, lives)" rule: lifeTransition.cases) (simp_all add: lifeApproved_def split: option.split)
  ultimately show ?case using snoc by (simp add: foldLife_def applyLife_def case_prod_unfold)
qed (simp add: foldLife_def)

lemma snapshotLife_valid:
  assumes "map_invar lives" and "(node, ValidClock ts) \<in> set (snapshotLife lives)"
  obtains l where "mget lives node = Some l" "lf_valid l" "lf_startedAtMs l = ts"
proof -
  obtain l where "(node, l) \<in> set lives" "lf_valid l" "lf_startedAtMs l = ts"
    using assms(2) by (auto simp: snapshotLife_def split: if_splits)
  then show thesis using that in_set_mget[OF assms(1)] by blast
qed

lemma pendingBudgetContinuations_iff:
  assumes "map_invar lives" and "mget lives node = Some l"
  shows "node \<in> set (pendingBudgetContinuations lives) \<longleftrightarrow> lf_budgetContinuation l"
proof -
  have "(node, l') \<in> set lives \<longleftrightarrow> l' = l" for l'
    using in_set_mget[OF assms(1), of node l'] mget_in_set[OF assms(2)] assms(2) by auto
  then show ?thesis by (auto simp: pendingBudgetContinuations_def image_iff)
qed

text \<open>A valid clock of a node is the time of a first start of that node in the log, and nothing has reset
  it since: the node has neither ended nor been decided by a human after that start, and every later first
  start of the node is the continuation of one approved budget gate, a pending continuation being the one
  approval that has no start yet. So waiting at a gate never grants a node a new timeout.\<close>

theorem life_clock_never_resets:
  assumes "(node, ValidClock ts) \<in> set (snapshotLife (foldLife hist))"
  shows "\<exists>t0 xs ev t ys. ts = Some t0 \<and> hist = xs @ (ev, t) # ys \<and> firstStart node ev \<and> ev_timestamp ev = Some t0 \<and>
    (\<forall>x \<in> set ((ev, t) # ys). \<not> ends node x) \<and>
    starts node ((ev, t) # ys) + (if node \<in> set (pendingBudgetContinuations (foldLife hist)) then 1 else 0) = 1 + approvals node ((ev, t) # ys)"
proof -
  obtain l where l: "mget (foldLife hist) node = Some l" "lf_valid l" "lf_startedAtMs l = ts"
    using snapshotLife_valid[OF map_invar_foldLife assms] .
  note c = pendingBudgetContinuations_iff[OF map_invar_foldLife l(1)]
  obtain t0 xs zs where "ts = Some t0" "hist = xs @ zs" "lifeSpan node t0 (lf_budgetContinuation l) zs"
    using foldLife_spans[OF l(1,2)] l(3) by (auto simp: spans_def)
  then show ?thesis unfolding c lifeSpan_def by metis
qed

definition sampleLife :: "(LogEvent \<times> GateTransition option) list" where
  "sampleLife =
     (let stamped = (\<lambda>t body. \<lparr>ev_runId = ''r'', ev_sequenceNumber = 0, ev_timestamp = Some t, ev_cumulativeUnpricedCalls = None, ev_body = body\<rparr>);
          gate = \<lparr>pg_runId = ''r'', pg_nodeId = ''n'', pg_gateId = ''g'', pg_isBudgetGate = True, pg_deadline = noDeadline, pg_allowance = None\<rparr>
      in [(stamped 10 (EvNodeStarted ''n'' True None), None), (stamped 20 EvOther, Some (BudgetDecided gate Approved)),
          (stamped 30 (EvNodeStarted ''n'' True (Some 1)), None), (stamped 40 (EvNodeRetrying ''n'' 1), None), (stamped 50 (EvNodeStarted ''n'' True (Some 2)), None)])"

theorem life_clock_never_resets_witness:
  "(''n'', ValidClock (Some 10)) \<in> set (snapshotLife (foldLife sampleLife)) \<and>
   (\<exists>t0 xs ev t ys. Some 10 = Some t0 \<and> sampleLife = xs @ (ev, t) # ys \<and> firstStart ''n'' ev \<and> ev_timestamp ev = Some t0)"
proof -
  have a: "(''n'', ValidClock (Some 10)) \<in> set (snapshotLife (foldLife sampleLife))" by code_simp
  show ?thesis using a life_clock_never_resets[OF a] by blast
qed

end
