(* ===== verification/Checkpoint.thy ===== *)
theory Checkpoint
  imports Suspension_Laws Usage_Coverage Node_Life
begin

text \<open>
  The reconstruction of a run from its durable log, \<open>src/packages/core/src/engine/checkpoint.ts\<close>: one pass over
  the events that folds the status of the run, the state of its nodes, its money and counters, and carries the
  histories of gates and media jobs, the usage coverage and the life clocks along. The record of a pending
  media job is the event itself, of which the model keeps exactly the fields the checkpoint copies. Money and
  counters are natural numbers. A thrown corruption error is \<open>Inl\<close>.
\<close>

section \<open>Data\<close>

datatype RunStatus = RunIsPending | RunIsRunning | RunIsPaused | RunIsCompleted | RunIsFailed | RunIsCancelled

datatype CheckpointNodeState =
    NodeCompleted json "string list option"
  | NodeFailed EventError
  | NodeSkipped
  | NodePaused

datatype CheckpointError =
    CorruptRunEvent string int UsageCoverageInvariant
  | SuspensionCorruption RunSuspensionCorruption

record CheckpointPendingGate =
  cg_gateId :: string
  cg_nodeId :: string
  cg_isBudgetGate :: bool
  cg_allowance :: "BudgetAllowanceState option"
  cg_expiresAt :: "string option"
  cg_timeoutAction :: "TimeoutAction option"
  cg_timeoutMs :: "nat option"

record CheckpointState =
  cp_cumulativeUnpricedCalls :: nat
  cp_usageCoverage :: UsageCoverageSnapshot
  cp_schemaVersion :: nat
  cp_runStatus :: RunStatus
  cp_workflowId :: string
  cp_startedAtMs :: "int option"
  cp_admittedInputs :: json
  cp_executionMode :: string
  cp_nodeStates :: "(string, CheckpointNodeState) jsmap"
  cp_completedNodeIds :: "string list"
  cp_pendingGates :: "CheckpointPendingGate list"
  cp_budgetRejections :: "(string \<times> string) list"
  cp_pendingMediaJobs :: "MediaJobSubmittedEvent list"
  cp_nodeLifeClocks :: "(string \<times> NodeLifeClock) list"
  cp_pendingBudgetContinuationNodeIds :: "string list"
  cp_resolvedGateIds :: "string list"
  cp_resolvedBudgetGateIds :: "string list"
  cp_lastSequenceNumber :: int
  cp_totalInputTokens :: nat
  cp_totalOutputTokens :: nat
  cp_nodeDispatches :: nat
  cp_cumulativeCostMicrocents :: nat
  cp_conservativeCostMicrocents :: nat

definition CHECKPOINT_SCHEMA_VERSION :: nat where
  "CHECKPOINT_SCHEMA_VERSION = 3"

record ReconAccumulator =
  ra_runId :: string
  ra_started :: bool
  ra_workflowId :: string
  ra_startedAtMs :: "int option"
  ra_admittedInputs :: json
  ra_executionMode :: string
  ra_runStatus :: RunStatus
  ra_lastSequenceNumber :: int
  ra_totalInputTokens :: nat
  ra_totalOutputTokens :: nat
  ra_nodeDispatches :: nat
  ra_cumulativeCostMicrocents :: nat
  ra_conservativeCostMicrocents :: nat
  ra_nodeStates :: "(string, CheckpointNodeState) jsmap"
  ra_suspensions :: Reducer
  ra_nodeLife :: lives
  ra_coverage :: UsageCoverageFold
  ra_ledgerUnpricedCalls :: nat
  ra_snapshotUnpricedCalls :: nat

definition emptyAccumulator :: ReconAccumulator where
  "emptyAccumulator =
     \<lparr>ra_runId = '''', ra_started = False, ra_workflowId = '''', ra_startedAtMs = Some 0, ra_admittedInputs = JObj [],
      ra_executionMode = ''local'', ra_runStatus = RunIsRunning, ra_lastSequenceNumber = -1, ra_totalInputTokens = 0,
      ra_totalOutputTokens = 0, ra_nodeDispatches = 0, ra_cumulativeCostMicrocents = 0, ra_conservativeCostMicrocents = 0,
      ra_nodeStates = [], ra_suspensions = emptyReducer, ra_nodeLife = [], ra_coverage = freshCoverage,
      ra_ledgerUnpricedCalls = 0, ra_snapshotUnpricedCalls = 0\<rparr>"

section \<open>One event\<close>

fun RUN_STATUS_BY_EVENT :: "EventBody \<Rightarrow> RunStatus option" where
  "RUN_STATUS_BY_EVENT EvRunPaused = Some RunIsPaused"
| "RUN_STATUS_BY_EVENT EvRunCompleted = Some RunIsCompleted"
| "RUN_STATUS_BY_EVENT EvRunFailed = Some RunIsFailed"
| "RUN_STATUS_BY_EVENT EvRunCancelled = Some RunIsCancelled"
| "RUN_STATUS_BY_EVENT _ = None"

definition applyRunEvent :: "LogEvent \<Rightarrow> ReconAccumulator \<Rightarrow> ReconAccumulator" where
  "applyRunEvent ev acc =
     (case ev_body ev of
        EvRunStarted workflow inputs mode \<Rightarrow>
          acc\<lparr>ra_started := True, ra_runId := ev_runId ev, ra_workflowId := workflow, ra_startedAtMs := ev_timestamp ev,
              ra_admittedInputs := inputs, ra_executionMode := mode, ra_runStatus := RunIsRunning\<rparr>
      | body \<Rightarrow> (case RUN_STATUS_BY_EVENT body of None \<Rightarrow> acc | Some st \<Rightarrow> acc\<lparr>ra_runStatus := st\<rparr>))"

definition raiseCost :: "nat option \<Rightarrow> ReconAccumulator \<Rightarrow> ReconAccumulator" where
  "raiseCost c acc = (case c of None \<Rightarrow> acc | Some n \<Rightarrow> acc\<lparr>ra_cumulativeCostMicrocents := max (ra_cumulativeCostMicrocents acc) n\<rparr>)"

definition setNode :: "string \<Rightarrow> CheckpointNodeState \<Rightarrow> ReconAccumulator \<Rightarrow> ReconAccumulator" where
  "setNode node st acc = acc\<lparr>ra_nodeStates := mset_key node st (ra_nodeStates acc)\<rparr>"

fun applyNodeEvent :: "EventBody \<Rightarrow> ReconAccumulator \<Rightarrow> ReconAccumulator" where
  "applyNodeEvent (EvNodeCompleted node output inTokens outTokens cumulative selected) acc =
     (let acc1 = setNode node (NodeCompleted output selected) acc
      in raiseCost cumulative (acc1\<lparr>ra_totalInputTokens := ra_totalInputTokens acc1 + inTokens, ra_totalOutputTokens := ra_totalOutputTokens acc1 + outTokens\<rparr>))"
| "applyNodeEvent (EvNodeFailed node err cumulative) acc = raiseCost cumulative (setNode node (NodeFailed err) acc)"
| "applyNodeEvent (EvNodeSkipped node) acc = setNode node NodeSkipped acc"
| "applyNodeEvent (EvNodeStarted _ _ _) acc = acc\<lparr>ra_nodeDispatches := ra_nodeDispatches acc + 1\<rparr>"
| "applyNodeEvent _ acc = acc"

definition settledState :: "CheckpointNodeState option \<Rightarrow> bool" where
  "settledState st = (case st of None \<Rightarrow> False | Some s \<Rightarrow> s \<noteq> NodePaused)"

fun applyMediaJobEvent :: "EventBody \<Rightarrow> ReconAccumulator \<Rightarrow> ReconAccumulator" where
  "applyMediaJobEvent (EvMediaJobSubmitted job) acc =
     (if settledState (mget (ra_nodeStates acc) (mj_nodeId job)) then acc else setNode (mj_nodeId job) NodePaused acc)"
| "applyMediaJobEvent _ acc = acc"

fun decisionName :: "Decision \<Rightarrow> string" where
  "decisionName Approved = ''approved''"
| "decisionName Rejected = ''rejected''"
| "decisionName InputProvided = ''input_provided''"

definition decisionOutput :: "HumanGateResumedEvent \<Rightarrow> json" where
  "decisionOutput event = (case gr_payload event of None \<Rightarrow> JObj [(''decision'', JStr (decisionName (gr_decision event)))] | Some p \<Rightarrow> p)"

definition authorizationRejected :: EventError where
  "authorizationRejected = \<lparr>er_code = BudgetExceeded, er_message = ''budget authorization was rejected'', er_retryable = False\<rparr>"

fun gateOf :: "GateTransition \<Rightarrow> PendingGateProjection" where
  "gateOf (GatePaused g) = g"
| "gateOf (BudgetDecided g _) = g"
| "gateOf (HumanDecided g _) = g"

fun applyTransition :: "GateTransition \<Rightarrow> ReconAccumulator \<Rightarrow> ReconAccumulator" where
  "applyTransition (GatePaused g) acc = setNode (pg_nodeId g) NodePaused acc"
| "applyTransition (HumanDecided g event) acc = setNode (pg_nodeId g) (NodeCompleted (decisionOutput event) None) acc"
| "applyTransition (BudgetDecided g d) acc =
     (if d = Approved then acc\<lparr>ra_nodeStates := mdelete (pg_nodeId g) (ra_nodeStates acc)\<rparr>
      else setNode (pg_nodeId g) (NodeFailed authorizationRejected) acc)"

definition applyGateEvent :: "GateTransition option \<Rightarrow> ReconAccumulator \<Rightarrow> CheckpointError + ReconAccumulator" where
  "applyGateEvent transition acc =
     (case transition of
        None \<Rightarrow> Inr acc
      | Some t \<Rightarrow>
          if \<not> ra_started acc then Inr acc
          else if pg_runId (gateOf t) \<noteq> ra_runId acc then Inl (SuspensionCorruption GateIdentityConflict)
          else Inr (applyTransition t acc))"

definition onCoverage :: "LogEvent \<Rightarrow> ReconAccumulator \<Rightarrow> CheckpointError + ReconAccumulator" where
  "onCoverage ev acc =
     (case applyCoverage (ev_body ev) (ra_coverage acc) of
        Inl e \<Rightarrow> Inl (CorruptRunEvent (ev_runId ev) (ev_sequenceNumber ev) e)
      | Inr f \<Rightarrow> Inr (acc\<lparr>ra_coverage := f\<rparr>))"

definition onSuspensions :: "LogEvent \<Rightarrow> ReconAccumulator \<Rightarrow> CheckpointError + (GateTransition option \<times> ReconAccumulator)" where
  "onSuspensions ev acc =
     (case applySuspension ev (ra_suspensions acc) of
        Inl e \<Rightarrow> Inl (SuspensionCorruption e)
      | Inr (t, r) \<Rightarrow> Inr (t, acc\<lparr>ra_suspensions := r\<rparr>))"

definition countUnpriced :: "LogEvent \<Rightarrow> ReconAccumulator \<Rightarrow> ReconAccumulator" where
  "countUnpriced ev acc =
     acc\<lparr>ra_ledgerUnpricedCalls := ra_ledgerUnpricedCalls acc + (case ev_body ev of EvCostAttemptSettled _ _ (Some False) _ \<Rightarrow> 1 | _ \<Rightarrow> 0),
         ra_snapshotUnpricedCalls := max (ra_snapshotUnpricedCalls acc) (case ev_cumulativeUnpricedCalls ev of None \<Rightarrow> 0 | Some n \<Rightarrow> n)\<rparr>"

text \<open>The costs an event carries, read before and after the histories.\<close>

fun applyCosts :: "EventBody \<Rightarrow> ReconAccumulator \<Rightarrow> ReconAccumulator" where
  "applyCosts (EvCostUpdated _ cumulative _) acc = acc\<lparr>ra_cumulativeCostMicrocents := cumulative\<rparr>"
| "applyCosts (EvEstimateCommitted estimate) acc = acc\<lparr>ra_conservativeCostMicrocents := ra_conservativeCostMicrocents acc + estimate\<rparr>"
| "applyCosts (EvCostAttemptSettled _ cumulative _ _) acc = raiseCost (Some cumulative) acc"
| "applyCosts _ acc = acc"

fun applyPauseCosts :: "EventBody \<Rightarrow> ReconAccumulator \<Rightarrow> ReconAccumulator" where
  "applyPauseCosts (EvBudgetPaused _ _ spent _ _) acc = raiseCost (Some spent) acc"
| "applyPauseCosts (EvBudgetAuthorization _ _ (AuthPaused p)) acc = raiseCost (Some (pa_spentMicrocents p)) acc"
| "applyPauseCosts _ acc = acc"

definition applyCheckpoint :: "LogEvent \<Rightarrow> ReconAccumulator \<Rightarrow> CheckpointError + ReconAccumulator" where
  "applyCheckpoint ev acc =
     andThen (onCoverage ev (countUnpriced ev acc)) (\<lambda>acc1.
       let acc2 = applyCosts (ev_body ev) (acc1\<lparr>ra_lastSequenceNumber := max (ra_lastSequenceNumber acc1) (ev_sequenceNumber ev)\<rparr>);
           acc3 = applyMediaJobEvent (ev_body ev) (applyNodeEvent (ev_body ev) (applyRunEvent ev acc2))
       in andThen (onSuspensions ev acc3) (\<lambda>(t, acc4).
         andThen (applyGateEvent t (acc4\<lparr>ra_nodeLife := applyLife ev t (ra_nodeLife acc4)\<rparr>)) (\<lambda>acc5.
           Inr (applyPauseCosts (ev_body ev) acc5))))"

section \<open>The whole log\<close>

fun applyCheckpoints :: "LogEvent list \<Rightarrow> ReconAccumulator \<Rightarrow> CheckpointError + ReconAccumulator" where
  "applyCheckpoints [] acc = Inr acc"
| "applyCheckpoints (ev # evs) acc = andThen (applyCheckpoint ev acc) (applyCheckpoints evs)"

definition checkpointGate :: "PendingGateProjection \<Rightarrow> CheckpointPendingGate" where
  "checkpointGate g =
     \<lparr>cg_gateId = pg_gateId g, cg_nodeId = pg_nodeId g, cg_isBudgetGate = pg_isBudgetGate g, cg_allowance = pg_allowance g,
      cg_expiresAt = dl_expiresAt (pg_deadline g), cg_timeoutAction = dl_timeoutAction (pg_deadline g), cg_timeoutMs = dl_timeoutMs (pg_deadline g)\<rparr>"

fun completedNode :: "CheckpointNodeState \<Rightarrow> bool" where
  "completedNode (NodeCompleted _ _) = True"
| "completedNode _ = False"

definition finishCheckpoint :: "ReconAccumulator \<Rightarrow> CheckpointState option" where
  "finishCheckpoint acc =
     (if \<not> ra_started acc then None
      else Some \<lparr>cp_cumulativeUnpricedCalls = max (ra_ledgerUnpricedCalls acc) (ra_snapshotUnpricedCalls acc),
        cp_usageCoverage = snapshotCoverage (ra_coverage acc), cp_schemaVersion = CHECKPOINT_SCHEMA_VERSION,
        cp_runStatus = ra_runStatus acc, cp_workflowId = ra_workflowId acc, cp_startedAtMs = ra_startedAtMs acc,
        cp_admittedInputs = ra_admittedInputs acc, cp_executionMode = ra_executionMode acc, cp_nodeStates = ra_nodeStates acc,
        cp_completedNodeIds = map fst (filter (\<lambda>(_, s). completedNode s) (ra_nodeStates acc)),
        cp_pendingGates = map checkpointGate (pendingGates (ra_suspensions acc) (ra_runId acc)),
        cp_budgetRejections = budgetRejections (ra_suspensions acc) (ra_runId acc),
        cp_pendingMediaJobs = pendingMediaJobs (ra_suspensions acc) (ra_runId acc),
        cp_nodeLifeClocks = snapshotLife (ra_nodeLife acc),
        cp_pendingBudgetContinuationNodeIds = pendingBudgetContinuations (ra_nodeLife acc),
        cp_resolvedGateIds = resolvedGateIds (ra_suspensions acc) (ra_runId acc) False,
        cp_resolvedBudgetGateIds = resolvedGateIds (ra_suspensions acc) (ra_runId acc) True,
        cp_lastSequenceNumber = ra_lastSequenceNumber acc, cp_totalInputTokens = ra_totalInputTokens acc,
        cp_totalOutputTokens = ra_totalOutputTokens acc, cp_nodeDispatches = ra_nodeDispatches acc,
        cp_cumulativeCostMicrocents = ra_cumulativeCostMicrocents acc, cp_conservativeCostMicrocents = ra_conservativeCostMicrocents acc\<rparr>)"

definition reconstructCheckpointState :: "LogEvent list \<Rightarrow> CheckpointError + CheckpointState option" where
  "reconstructCheckpointState evs = andThen (applyCheckpoints evs emptyAccumulator) (\<lambda>acc. Inr (finishCheckpoint acc))"

end
