(* ===== verification/Checkpoint_Laws.thy ===== *)
theory Checkpoint_Laws
  imports Checkpoint
begin

text \<open>
  What a checkpoint says of the log it was folded from: which nodes are settled, which wait and for what, and
  what money and counters it restores.
\<close>

section \<open>What a transition says\<close>

text \<open>The gate of a transition was active when it was reported, and is stored.\<close>

definition reported :: "string \<Rightarrow> Reducer \<Rightarrow> GateTransition option \<Rightarrow> Reducer \<Rightarrow> bool" where
  "reported run r t r' \<longleftrightarrow>
     (\<forall>tr. t = Some tr \<longrightarrow> pg_runId (gateOf tr) = run \<and> (run, pg_gateId (gateOf tr), pg_nodeId (gateOf tr)) \<in> opened r' \<and>
        (run, pg_nodeId (gateOf tr)) \<notin> retiredNodes r \<and> (\<forall>g. tr = GatePaused g \<longrightarrow> (run, pg_gateId g) \<notin> decided r'))"

lemma stored_opened:
  "(gh_runId h, gh_gateId h, gh_nodeId h) \<in> opened (putGate h r)" "(gh_runId h, gh_gateId h, gh_nodeId h) \<in> opened (retireNode run node (putGate h r))"
  by (simp_all add: opened_def retire_sets)

lemma active_free: "gate_ok A r run gate h \<Longrightarrow> gh_active h \<Longrightarrow> (run, gh_nodeId h) \<notin> retiredNodes r"
  by (simp add: gate_ok_def)

lemma reported_snapshot:
  assumes "gate_ok {} r run gate h" and "gh_active h" and "gh_runId h' = run" and "gh_nodeId h' = gh_nodeId h"
    and "r' = putGate h' r \<or> r' = retireNode run node (putGate h' r)" and "gateOf tr = snapshotGate h'"
    and "\<And>g. tr = GatePaused g \<Longrightarrow> \<not> isResolved h'"
  shows "reported run r (Some tr) r'"
  using assms active_free[OF assms(1,2)] stored_opened[of h'] by (auto simp: reported_def snapshotGate_def decided_def split: if_splits)

lemma reported_paused:
  assumes "gate_ok {} r run gate h" and "alike h h'"
  shows "reported run r (pausedTransition h') (putGate h' r)"
proof (cases "pausedTransition h'")
  case (Some tr)
  then have "gh_active h" "gateOf tr = snapshotGate h'" "\<not> isResolved h'" using assms(2) by (auto simp: pausedTransition_def alike_def split: if_splits)
  then show ?thesis using reported_snapshot[OF assms(1), of h' "putGate h' r" run tr] assms Some by (simp add: alike_def gate_ok_def)
qed (simp add: reported_def)

lemma reported_None [simp]: "reported run r None r'"
  by (simp add: reported_def)

lemma pause_reported:
  assumes ok: "reducer_ok {} r"
  shows "humanPause run node gate deadline quote r = Inr (t, r') \<Longrightarrow> reported run r t r'"
    and "budgetPause run node gate spent limit quote r = Inr (t, r') \<Longrightarrow> reported run r t r'"
proof -
  assume "humanPause run node gate deadline quote r = Inr (t, r')"
  then obtain h h1 d where f: "findOrCreate r run node gate = Inr h" and m: "mergeQuote h quote = Inr h1"
    and t: "t = pausedTransition (h1\<lparr>gh_deadline := d\<rparr>)" "r' = putGate (h1\<lparr>gh_deadline := d\<rparr>) r"
    by (auto simp: humanPause_def Let_def)
  show "reported run r t r'" unfolding t
    using reported_paused[OF findOrCreate_ok(1)[OF ok f] alike_trans[OF merges_alike(2)[OF m] merges_alike(4)]] .
next
  assume "budgetPause run node gate spent limit quote r = Inr (t, r')"
  then obtain h h1 h2 where f: "findOrCreate r run node gate = Inr h" and m: "mergeQuote h quote = Inr h1" "asBudget h1 = Inr h2"
    and t: "t = pausedTransition (h2\<lparr>gh_allowance := orElse (gh_allowance h2) (Some LegacyNoAllowance), gh_budgetPause := Some (spent, limit)\<rparr>)"
      "r' = putGate (h2\<lparr>gh_allowance := orElse (gh_allowance h2) (Some LegacyNoAllowance), gh_budgetPause := Some (spent, limit)\<rparr>) r"
    by (auto simp: budgetPause_def Let_def)
  show "reported run r t r'" unfolding t
    using reported_paused[OF findOrCreate_ok(1)[OF ok f] alike_trans[OF alike_trans[OF merges_alike(2)[OF m(1)] merges_alike(3)[OF m(2)]] merges_alike(6)]] .
qed

lemma authority_reported:
  assumes ok: "reducer_ok {} r" and a: "authority run node gate state r = Inr (t, r')"
  shows "reported run r t r'"
proof -
  obtain h h1 h2 d where f: "findOrCreate r run node gate = Inr h" and m: "asBudget h = Inr h1" "mergeAllowance h1 (authAllowance state) = Inr h2"
    and s: "(case state of AuthPaused p \<Rightarrow> authorityPaused (h2\<lparr>gh_deadline := d\<rparr>) p r | AuthDecided x \<Rightarrow> authorityDecided (h2\<lparr>gh_deadline := d\<rparr>) x r) = Inr (t, r')"
    using a by (auto simp: authority_def Let_def)
  note fc = findOrCreate_ok[OF ok f]
  have al: "alike h (h2\<lparr>gh_deadline := d\<rparr>)" using merges_alike(3)[OF m(1)] merges_alike(1)[OF m(2)] merges_alike(4) alike_trans by blast
  define g where "g = h2\<lparr>gh_deadline := d\<rparr>"
  note al = al[folded g_def] and s = s[folded g_def]
  have ids: "gh_runId g = run" "gh_nodeId g = gh_nodeId h" "gh_active g = gh_active h" using al fc(1) by (simp_all add: alike_def gate_ok_def)
  show ?thesis
  proof (cases state)
    case (AuthPaused p)
    then show ?thesis using s reported_paused[OF fc(1) alike_trans[OF al merges_alike(5), of "Some p"]]
      by (auto simp: authorityPaused_def split: option.splits)
  next
    case (AuthDecided x)
    let ?h = "g\<lparr>gh_authorityDecision := Some x, gh_active := False\<rparr>"
    show ?thesis
    proof (cases t)
      case (Some tr)
      then have "gh_active h" "gateOf tr = snapshotGate ?h" "\<And>g. tr \<noteq> GatePaused g" "r' = putGate ?h r \<or> r' = retireNode run (gh_nodeId h) (putGate ?h r)"
        using s AuthDecided ids by (auto simp: authorityDecided_def Let_def split: option.splits if_splits)
      then show ?thesis unfolding Some using ids by (intro reported_snapshot[OF fc(1), where h' = ?h]) auto
    qed simp
  qed
qed

lemma resume_reported:
  assumes ok: "reducer_ok {} r" and a: "resume run event r = Inr (t, r')"
  shows "reported run r t r'"
proof (cases t)
  case (Some tr)
  obtain h0 h where j: "joinGate run event r = Inr h0" and m: "mergeQuote h0 (gr_allowanceQuote event) = Inr h"
    using a by (auto simp: resume_def)
  define e where "e = normalizeDecision h event"
  note kn = joinGate_known[OF ok j]
  have al: "alike h0 h" using merges_alike(2)[OF m] .
  let ?h = "h\<lparr>gh_humanDecision := Some e, gh_active := False\<rparr>"
  have act: "gh_active h" and d: "decideGate h e r = Inr (Some tr, r')"
    using a j m Some by (auto simp: resume_def Let_def e_def split: option.splits if_splits)
  have ids: "gh_runId h = run" "gh_nodeId h = gh_nodeId h0" "gh_active h0" using al kn(2) act by (simp_all add: alike_def gate_ok_def)
  have "gateOf tr = snapshotGate ?h" "\<And>g. tr \<noteq> GatePaused g" "r' = putGate ?h r \<or> r' = retireNode run (gh_nodeId h0) (putGate ?h r)"
    using d ids by (auto simp: decideGate_def Let_def split: if_splits)
  then show ?thesis unfolding Some using ids by (intro reported_snapshot[OF kn(2), where h' = ?h]) auto
qed simp

lemma applySuspension_reported:
  assumes ok: "reducer_ok {} r" and a: "applySuspension ev r = Inr (t, r')"
  shows "reported (ev_runId ev) r t r'" and "t \<noteq> None \<Longrightarrow> terminalNode (ev_body ev) = None"
proof -
  have "reported (ev_runId ev) r t r' \<and> (t \<noteq> None \<longrightarrow> terminalNode (ev_body ev) = None)"
    using a pause_reported[OF ok] authority_reported[OF ok] resume_reported[OF ok]
    by (cases "ev_body ev") (auto simp: applySuspension_def Let_def)
  then show "reported (ev_runId ev) r t r'" "t \<noteq> None \<Longrightarrow> terminalNode (ev_body ev) = None" by blast+
qed

text \<open>A media job leaves the list only when its node is retired.\<close>

lemma mediaOf_retireNode: "mediaOf (retireNode run node r) run' = (if run' = run then mdelete node (mediaOf r run) else mediaOf r run')"
  by (auto simp: mediaOf_def retireNode_def mdelete_def split: option.split)

lemma mediaOf_others [simp]: "mediaOf (putGate h r) run = mediaOf r run" "mediaOf (r\<lparr>rd_terminalRuns := ns\<rparr>) run = mediaOf r run"
  by (simp_all add: mediaOf_def putGate_def)

definition media_kept :: "Reducer \<Rightarrow> Reducer \<Rightarrow> bool" where
  "media_kept r r' \<longleftrightarrow>
     (\<forall>run node. mget (mediaOf r run) node \<noteq> None \<longrightarrow> mget (mediaOf r' run) node \<noteq> None \<or> (run, node) \<in> retiredNodes r') \<and>
     (\<forall>run node job. mget (mediaOf r' run) node = Some job \<longrightarrow> mget (mediaOf r run) node = Some job \<or> mj_nodeId job = node)"

lemma media_kept_self [simp]:
  "media_kept r r" "media_kept r (retireNode run node r)" "media_kept r (r1\<lparr>rd_terminalRuns := ns\<rparr>) = media_kept r r1"
  by (auto simp: media_kept_def mediaOf_retireNode retire_sets split: if_splits)

lemma media_kept_put [simp]: "media_kept r (putGate h r)" "media_kept r (retireNode run node (putGate h r))"
  by (auto simp: media_kept_def mediaOf_retireNode retire_sets)

lemma steps_keep_media:
  "authorityPaused h p r = Inr (t, r') \<Longrightarrow> media_kept r r'" "authorityDecided h x r = Inr (t, r') \<Longrightarrow> media_kept r r'"
  "decideGate h e r = Inr (t, r') \<Longrightarrow> media_kept r r'"
  by (auto simp: authorityPaused_def authorityDecided_def decideGate_def Let_def split: option.splits if_splits)

lemma gates_keep_media:
  "authority run node gate state r = Inr (t, r') \<Longrightarrow> media_kept r r'" "humanPause run node gate deadline quote r = Inr (t, r') \<Longrightarrow> media_kept r r'"
  "budgetPause run node gate spent limit quote r = Inr (t, r') \<Longrightarrow> media_kept r r'" "resume run event r = Inr (t, r') \<Longrightarrow> media_kept r r'"
proof -
  show "authority run node gate state r = Inr (t, r') \<Longrightarrow> media_kept r r'"
    using steps_keep_media(1,2) by (cases state) (auto simp: authority_def Let_def)
  show "humanPause run node gate deadline quote r = Inr (t, r') \<Longrightarrow> media_kept r r'"
    "budgetPause run node gate spent limit quote r = Inr (t, r') \<Longrightarrow> media_kept r r'" by (auto simp: humanPause_def budgetPause_def Let_def)
  show "resume run event r = Inr (t, r') \<Longrightarrow> media_kept r r'"
    using steps_keep_media(3) by (auto simp: resume_def Let_def split: option.splits if_splits)
qed

lemma applySuspension_media:
  assumes "applySuspension ev r = Inr (t, r')"
  shows "media_kept r r'"
proof (cases "ev_body ev")
  case (EvMediaJobSubmitted j)
  then have "r' = submitMedia (ev_runId ev) j r" using assms by (simp add: applySuspension_def Let_def)
  then show ?thesis by (auto simp: media_kept_def submitMedia_def mediaOf_def split: option.splits)
qed (use assms gates_keep_media in \<open>auto simp: applySuspension_def Let_def\<close>)

section \<open>Nodes\<close>

definition stateOf :: "ReconAccumulator \<Rightarrow> string \<Rightarrow> CheckpointNodeState option" where
  "stateOf acc node = mget (ra_nodeStates acc) node"

text \<open>A retired node is settled; a paused node waits for a gate or for a media job.\<close>

definition waits :: "Reducer \<Rightarrow> string \<Rightarrow> string \<Rightarrow> bool" where
  "waits r run node \<longleftrightarrow> mget (mediaOf r run) node \<noteq> None \<or>
     (\<exists>gate. (run, gate, node) \<in> opened r \<and> (run, gate) \<notin> decided r \<and> (run, node) \<notin> retiredNodes r)"

definition media_keyed :: "Reducer \<Rightarrow> bool" where
  "media_keyed r \<longleftrightarrow> (\<forall>run node job. mget (mediaOf r run) node = Some job \<longrightarrow> mj_nodeId job = node)"

definition nodes_ok :: "string \<Rightarrow> ReconAccumulator \<Rightarrow> bool" where
  "nodes_ok run acc \<longleftrightarrow> ra_started acc \<and> ra_runId acc = run \<and> reducer_ok {} (ra_suspensions acc) \<and> media_keyed (ra_suspensions acc) \<and>
     (\<forall>node. (run, node) \<in> retiredNodes (ra_suspensions acc) \<longrightarrow> settledState (stateOf acc node)) \<and>
     (\<forall>node. stateOf acc node = Some NodePaused \<longrightarrow> waits (ra_suspensions acc) run node)"

lemma started_fields [simp]:
  "ra_started (raiseCost c acc) = ra_started acc" "ra_runId (raiseCost c acc) = ra_runId acc" "ra_suspensions (raiseCost c acc) = ra_suspensions acc"
  "ra_nodeStates (raiseCost c acc) = ra_nodeStates acc"
  "ra_started (setNode n st acc) = ra_started acc" "ra_runId (setNode n st acc) = ra_runId acc" "ra_suspensions (setNode n st acc) = ra_suspensions acc"
  "ra_nodeStates (setNode n st acc) = mset_key n st (ra_nodeStates acc)"
  by (simp_all add: raiseCost_def setNode_def split: option.split)

lemma costs_fields [simp]:
  "ra_started (applyCosts b acc) = ra_started acc" "ra_runId (applyCosts b acc) = ra_runId acc"
  "ra_suspensions (applyCosts b acc) = ra_suspensions acc" "ra_nodeStates (applyCosts b acc) = ra_nodeStates acc"
  by (cases b; simp)+

lemma pauseCosts_fields [simp]:
  "ra_started (applyPauseCosts b acc) = ra_started acc" "ra_runId (applyPauseCosts b acc) = ra_runId acc"
  "ra_suspensions (applyPauseCosts b acc) = ra_suspensions acc" "ra_nodeStates (applyPauseCosts b acc) = ra_nodeStates acc"
  by (cases "(b, acc)" rule: applyPauseCosts.cases; simp)+

lemma node_fields [simp]:
  "ra_started (applyNodeEvent b acc) = ra_started acc" "ra_runId (applyNodeEvent b acc) = ra_runId acc" "ra_suspensions (applyNodeEvent b acc) = ra_suspensions acc"
  by (cases b; simp add: Let_def)+

lemma media_fields [simp]:
  "ra_started (applyMediaJobEvent b acc) = ra_started acc" "ra_runId (applyMediaJobEvent b acc) = ra_runId acc"
  "ra_suspensions (applyMediaJobEvent b acc) = ra_suspensions acc"
  by (cases b; simp)+

lemma run_fields [simp]:
  "ra_suspensions (applyRunEvent ev acc) = ra_suspensions acc" "ra_nodeStates (applyRunEvent ev acc) = ra_nodeStates acc"
  "ra_started (applyRunEvent ev acc) \<longleftrightarrow> ra_started acc \<or> (\<exists>w i m. ev_body ev = EvRunStarted w i m)"
  "ev_runId ev = ra_runId acc \<Longrightarrow> ra_runId (applyRunEvent ev acc) = ra_runId acc"
  by (auto simp: applyRunEvent_def split: EventBody.splits option.splits)

lemma unpriced_fields [simp]:
  "ra_started (countUnpriced ev acc) = ra_started acc" "ra_runId (countUnpriced ev acc) = ra_runId acc"
  "ra_suspensions (countUnpriced ev acc) = ra_suspensions acc" "ra_nodeStates (countUnpriced ev acc) = ra_nodeStates acc"
  by (simp_all add: countUnpriced_def)

text \<open>What an event does to the state of a node before its transition is applied.\<close>

definition nodeOn :: "EventBody \<Rightarrow> (string, CheckpointNodeState) jsmap \<Rightarrow> (string, CheckpointNodeState) jsmap" where
  "nodeOn b m = (case b of
      EvNodeCompleted node output _ _ _ selected \<Rightarrow> mset_key node (NodeCompleted output selected) m
    | EvNodeFailed node err _ \<Rightarrow> mset_key node (NodeFailed err) m
    | EvNodeSkipped node \<Rightarrow> mset_key node NodeSkipped m
    | EvMediaJobSubmitted job \<Rightarrow> if settledState (mget m (mj_nodeId job)) then m else mset_key (mj_nodeId job) NodePaused m
    | _ \<Rightarrow> m)"

fun transOn :: "GateTransition option \<Rightarrow> (string, CheckpointNodeState) jsmap \<Rightarrow> (string, CheckpointNodeState) jsmap" where
  "transOn None m = m"
| "transOn (Some (GatePaused g)) m = mset_key (pg_nodeId g) NodePaused m"
| "transOn (Some (HumanDecided g e)) m = mset_key (pg_nodeId g) (NodeCompleted (decisionOutput e) None) m"
| "transOn (Some (BudgetDecided g d)) m =
     (if d = Approved then mdelete (pg_nodeId g) m else mset_key (pg_nodeId g) (NodeFailed authorizationRejected) m)"

lemma applyCheckpoint_nodes:
  assumes "applyCheckpoint ev acc = Inr acc'" and "ra_started acc" and "ra_runId acc = ev_runId ev"
  obtains t where "applySuspension ev (ra_suspensions acc) = Inr (t, ra_suspensions acc')" "ra_started acc'" "ra_runId acc' = ra_runId acc"
    "ra_nodeStates acc' = transOn t (nodeOn (ev_body ev) (ra_nodeStates acc))"
proof -
  define b where "b = ev_body ev"
  obtain acc1 where c: "onCoverage ev (countUnpriced ev acc) = Inr acc1" using assms(1) by (auto simp: applyCheckpoint_def)
  define acc3 where "acc3 = applyMediaJobEvent b (applyNodeEvent b (applyRunEvent ev (applyCosts b (acc1\<lparr>ra_lastSequenceNumber := max (ra_lastSequenceNumber acc1) (ev_sequenceNumber ev)\<rparr>))))"
  obtain t acc4 acc5 where su: "onSuspensions ev acc3 = Inr (t, acc4)" and g: "applyGateEvent t (acc4\<lparr>ra_nodeLife := applyLife ev t (ra_nodeLife acc4)\<rparr>) = Inr acc5"
    and e: "acc' = applyPauseCosts b acc5"
    using assms(1) c by (auto simp: applyCheckpoint_def Let_def acc3_def b_def)
  have n: "ra_nodeStates (applyMediaJobEvent b (applyNodeEvent b a)) = nodeOn b (ra_nodeStates a)" for a
    by (cases b) (simp_all add: nodeOn_def Let_def)
  have t: "ra_nodeStates (applyTransition t a) = transOn (Some t) (ra_nodeStates a)" "ra_started (applyTransition t a) = ra_started a"
    "ra_runId (applyTransition t a) = ra_runId a" "ra_suspensions (applyTransition t a) = ra_suspensions a" for t a
    by (cases t; simp)+
  have 1: "ra_started acc1" "ra_runId acc1 = ev_runId ev" "ra_suspensions acc1 = ra_suspensions acc" "ra_nodeStates acc1 = ra_nodeStates acc"
    using c assms(2,3) by (auto simp: onCoverage_def split: sum.splits)
  then have 3: "ra_started acc3" "ra_runId acc3 = ev_runId ev" "ra_suspensions acc3 = ra_suspensions acc" "ra_nodeStates acc3 = nodeOn b (ra_nodeStates acc)"
    by (simp_all add: acc3_def n)
  then have 4: "ra_started acc4" "ra_runId acc4 = ev_runId ev" "applySuspension ev (ra_suspensions acc) = Inr (t, ra_suspensions acc4)" "ra_nodeStates acc4 = nodeOn b (ra_nodeStates acc)"
    using su by (auto simp: onSuspensions_def split: sum.splits prod.splits)
  then have "ra_started acc5" "ra_runId acc5 = ev_runId ev" "ra_suspensions acc5 = ra_suspensions acc4" "ra_nodeStates acc5 = transOn t (nodeOn b (ra_nodeStates acc))"
    using g by (auto simp: applyGateEvent_def t split: option.splits if_splits)
  then show thesis using that[of t] 4 assms(3) by (simp add: e b_def)
qed

lemma nodeOn_settled:
  "settledState (mget m node) \<Longrightarrow> settledState (mget (nodeOn b m) node)" "terminalNode b = Some node \<Longrightarrow> settledState (mget (nodeOn b m) node)"
  by (cases b; auto simp: nodeOn_def settledState_def)+

lemma nodeOn_paused:
  assumes "mget (nodeOn b m) node = Some NodePaused"
  shows "mget m node = Some NodePaused \<or> (\<exists>job. b = EvMediaJobSubmitted job \<and> mj_nodeId job = node \<and> \<not> settledState (mget m node))"
  using assms by (cases b) (auto simp: nodeOn_def split: if_splits)

lemma transOn_other: "(\<And>tr. t = Some tr \<Longrightarrow> pg_nodeId (gateOf tr) \<noteq> node) \<Longrightarrow> mget (transOn t m) node = mget m node"
  by (cases "(t, m)" rule: transOn.cases) auto

lemma transOn_own:
  "rejects (Some tr) = {(run, node)} \<Longrightarrow> settledState (mget (transOn (Some tr) m) node)"
  "mget (transOn (Some tr) m) (pg_nodeId (gateOf tr)) = Some NodePaused \<Longrightarrow> \<exists>g. tr = GatePaused g"
  by (cases tr; auto simp: settledState_def split: if_splits; cases "Some tr" rule: rejects.cases; auto simp: settledState_def)+

lemma rejects_own: "x \<in> rejects t \<Longrightarrow> \<exists>tr. t = Some tr \<and> rejects (Some tr) = {x} \<and> x = (pg_runId (gateOf tr), pg_nodeId (gateOf tr))"
  by (cases t rule: rejects.cases) auto

lemma decides_own: "x \<in> decides t \<Longrightarrow> \<exists>tr. t = Some tr \<and> x = (pg_runId (gateOf tr), pg_gateId (gateOf tr))"
  by (cases t rule: decides.cases) auto

lemma opened_functional: "(run, gate, node) \<in> opened r \<Longrightarrow> (run, gate, node') \<in> opened r \<Longrightarrow> node' = node"
  by (auto simp: opened_def)

lemma nodes_ok_step:
  assumes ok: "nodes_ok run acc" and a: "applyCheckpoint ev acc = Inr acc'" and run: "ev_runId ev = run"
  shows "nodes_ok run acc'"
proof -
  let ?r = "ra_suspensions acc" and ?r' = "ra_suspensions acc'" and ?b = "ev_body ev" and ?m = "ra_nodeStates acc"
  obtain t where su: "applySuspension ev ?r = Inr (t, ?r')" and st: "ra_started acc'" "ra_runId acc' = run"
    and ns: "ra_nodeStates acc' = transOn t (nodeOn ?b ?m)"
    using applyCheckpoint_nodes[OF a] ok run by (auto simp: nodes_ok_def)
  have okr: "reducer_ok {} ?r" and set: "\<And>node. (run, node) \<in> retiredNodes ?r \<Longrightarrow> settledState (mget ?m node)"
    and wt: "\<And>node. mget ?m node = Some NodePaused \<Longrightarrow> waits ?r run node"
    using ok by (simp_all add: nodes_ok_def stateOf_def)
  have acc: "reducer_ok {} ?r'" "opened ?r \<subseteq> opened ?r'" "decided ?r' = decided ?r \<union> decides t"
    "retiredNodes ?r' = retiredNodes ?r \<union> retires run ?b None \<union> rejects t"
    using applySuspension_accounted[OF okr su] run by (auto simp: accounted_def)
  have rep: "pg_runId (gateOf tr) = run \<and> (run, pg_gateId (gateOf tr), pg_nodeId (gateOf tr)) \<in> opened ?r' \<and> (run, pg_nodeId (gateOf tr)) \<notin> retiredNodes ?r \<and>
      (\<forall>g. tr = GatePaused g \<longrightarrow> (run, pg_gateId g) \<notin> decided ?r') \<and> terminalNode ?b = None" if "t = Some tr" for tr
    using applySuspension_reported[OF okr su] that run by (simp add: reported_def)
  have settled: "settledState (mget (transOn t (nodeOn ?b ?m)) node)" if "(run, node) \<in> retiredNodes ?r'" for node
  proof (cases "(run, node) \<in> rejects t")
    case True
    then show ?thesis using rejects_own transOn_own(1) by blast
  next
    case False
    then have old: "(run, node) \<in> retiredNodes ?r \<or> terminalNode ?b = Some node"
      using that acc(4) by (auto simp: retires_def split: option.splits)
    then have "settledState (mget (nodeOn ?b ?m) node)" using set nodeOn_settled by blast
    moreover have "pg_nodeId (gateOf tr) \<noteq> node" if "t = Some tr" for tr using rep[OF that] old by auto
    ultimately show ?thesis by (simp add: transOn_other)
  qed
  have waiting: "waits ?r' run node" if p: "mget (transOn t (nodeOn ?b ?m)) node = Some NodePaused" for node
  proof -
    have free: "(run, node) \<notin> retiredNodes ?r'" using settled[of node] p by (auto simp: settledState_def)
    show ?thesis
    proof (cases "\<exists>tr. t = Some tr \<and> pg_nodeId (gateOf tr) = node")
      case True
      then obtain tr where tr: "t = Some tr" "pg_nodeId (gateOf tr) = node" by blast
      then obtain g where "tr = GatePaused g" using transOn_own(2) p by blast
      then show ?thesis using rep[OF tr(1)] tr(2) free unfolding waits_def by auto
    next
      case False
      then have "mget (nodeOn ?b ?m) node = Some NodePaused" using p transOn_other[of t node] by metis
      then consider "mget ?m node = Some NodePaused" | job where "?b = EvMediaJobSubmitted job" "mj_nodeId job = node"
        using nodeOn_paused by blast
      then show ?thesis
      proof cases
        case 1
        have "(run, gate) \<notin> decides t" if "(run, gate, node) \<in> opened ?r" for gate
        proof
          assume "(run, gate) \<in> decides t"
          then obtain tr where tr: "t = Some tr" "gate = pg_gateId (gateOf tr)" using decides_own by blast
          then show False using rep[OF tr(1)] opened_functional[of run gate node ?r'] that acc(2) False by blast
        qed
        then show ?thesis using wt[OF 1] free acc(2,3) applySuspension_media[OF su] unfolding waits_def media_kept_def by blast
      next
        case 2
        then have "?r' = submitMedia run job ?r" using su run by (simp add: applySuspension_def)
        moreover have "(run, node) \<notin> retiredNodes ?r" using free acc(4) by blast
        ultimately show ?thesis using 2(2) by (auto simp: waits_def submitMedia_def mediaOf_def retiredNodes_def)
      qed
    qed
  qed
  have "media_keyed ?r'" using ok applySuspension_media[OF su] unfolding nodes_ok_def media_keyed_def media_kept_def by blast
  then show ?thesis using st acc(1) settled waiting by (simp add: nodes_ok_def stateOf_def ns)
qed

lemma nodes_ok_steps: "nodes_ok run acc \<Longrightarrow> \<forall>ev \<in> set evs. ev_runId ev = run \<Longrightarrow> applyCheckpoints evs acc = Inr acc' \<Longrightarrow> nodes_ok run acc'"
  by (induction evs arbitrary: acc) (auto intro: nodes_ok_step)

lemma nodes_ok_start:
  assumes "ev_body ev = EvRunStarted w i mo" and "applyCheckpoint ev emptyAccumulator = Inr acc"
  shows "nodes_ok (ev_runId ev) acc" and "ra_suspensions acc = emptyReducer"
proof -
  show s: "ra_suspensions acc = emptyReducer"
    using assms by (auto simp: applyCheckpoint_def onCoverage_def onSuspensions_def applyGateEvent_def applySuspension_def applyRunEvent_def
        countUnpriced_def emptyAccumulator_def Let_def)
  have "ra_started acc" "ra_runId acc = ev_runId ev" "ra_nodeStates acc = []"
    using assms by (auto simp: applyCheckpoint_def onCoverage_def onSuspensions_def applyGateEvent_def applySuspension_def applyRunEvent_def
        countUnpriced_def emptyAccumulator_def Let_def)
  then show "nodes_ok (ev_runId ev) acc"
    using empty_ok by (simp add: nodes_ok_def s stateOf_def) (simp add: media_keyed_def mediaOf_def emptyReducer_def)
qed

lemma applyCheckpoints_applyAll:
  "nodes_ok run acc \<Longrightarrow> \<forall>ev \<in> set evs. ev_runId ev = run \<Longrightarrow> applyCheckpoints evs acc = Inr acc' \<Longrightarrow>
    \<exists>ts. applyAll evs (ra_suspensions acc) = Inr (ts, ra_suspensions acc')"
proof (induction evs arbitrary: acc)
  case (Cons ev evs)
  then obtain acc1 where a: "applyCheckpoint ev acc = Inr acc1" "applyCheckpoints evs acc1 = Inr acc'" by auto
  have "ra_started acc" "ra_runId acc = ev_runId ev" using Cons.prems by (auto simp: nodes_ok_def)
  from applyCheckpoint_nodes[OF a(1) this] obtain t where "applySuspension ev (ra_suspensions acc) = Inr (t, ra_suspensions acc1)" by blast
  moreover obtain ts where "applyAll evs (ra_suspensions acc1) = Inr (ts, ra_suspensions acc')"
    using Cons.IH[OF nodes_ok_step[OF Cons.prems(1) a(1)]] Cons.prems a(2) by auto
  ultimately show ?case by auto
qed simp

text \<open>A log of one run that begins with its start.\<close>

definition logOf :: "string \<Rightarrow> LogEvent list \<Rightarrow> bool" where
  "logOf run evs \<longleftrightarrow> (\<forall>ev \<in> set evs. ev_runId ev = run) \<and> (\<exists>w i m. evs \<noteq> [] \<and> ev_body (hd evs) = EvRunStarted w i m)"

lemma reconstructed:
  assumes "reconstructCheckpointState evs = Inr (Some cp)" and "logOf run evs"
  obtains acc ts where "nodes_ok run acc" "applyAll (tl evs) emptyReducer = Inr (ts, ra_suspensions acc)" "finishCheckpoint acc = Some cp"
    "applyCheckpoints evs emptyAccumulator = Inr acc"
proof -
  obtain w i m ev es where e: "evs = ev # es" "ev_body ev = EvRunStarted w i m" "\<forall>ev \<in> set evs. ev_runId ev = run"
    using assms(2) by (cases evs) (auto simp: logOf_def)
  obtain acc where acc: "applyCheckpoints evs emptyAccumulator = Inr acc" "finishCheckpoint acc = Some cp"
    using assms(1) by (auto simp: reconstructCheckpointState_def)
  obtain acc1 where a1: "applyCheckpoint ev emptyAccumulator = Inr acc1" "applyCheckpoints es acc1 = Inr acc" using acc(1) e(1) by auto
  note ok1 = nodes_ok_start[OF e(2) a1(1)]
  have run: "ev_runId ev = run" "\<forall>ev \<in> set es. ev_runId ev = run" using e by auto
  show thesis
    using that[OF nodes_ok_steps[OF ok1(1)[unfolded run(1)] run(2) a1(2)] _ acc(2,1)] applyCheckpoints_applyAll[OF ok1(1)[unfolded run(1)] run(2) a1(2)]
    by (auto simp: ok1(2) e(1))
qed

lemma waiting_listed:
  assumes ok: "reducer_ok {} r" and k: "media_keyed r" and w: "waits r run node"
  shows "node \<in> pg_nodeId ` set (pendingGates r run) \<or> node \<in> mj_nodeId ` set (pendingMediaJobs r run)"
proof (cases "mget (mediaOf r run) node")
  case (Some job)
  then have "job \<in> set (pendingMediaJobs r run)" using mget_in_set[OF Some] by (force simp: pendingMediaJobs_def mvalues_def)
  moreover have "mj_nodeId job = node" using k Some by (simp add: media_keyed_def)
  ultimately show ?thesis by blast
next
  case None
  then obtain gate h where h: "gateAt r run gate = Some h" "gh_nodeId h = node" "\<not> isResolved h" "(run, node) \<notin> retiredNodes r"
    using w by (auto simp: waits_def opened_def decided_def)
  then have "gate_ok {} r run gate h" using reducer_okD[OF ok] by blast
  then have "gh_active h" "gateAt r run (gh_gateId h) = Some h" using h by (simp_all add: gate_ok_def)
  then have "snapshotGate h \<in> set (pendingGates r run)" using in_gatesOf_iff[OF ok] h by (auto simp: pendingGates_def)
  then show ?thesis using h(2) by (force simp: snapshotGate_def)
qed

lemma rejections_retired:
  assumes ok: "reducer_ok {} r" and n: "node \<in> fst ` set (budgetRejections r run)"
  shows "(run, node) \<in> retiredNodes r"
proof -
  obtain h where h: "h \<in> set (mvalues (gatesOf r run))" "rejectedGate h" "gh_nodeId h = node" using n by (auto simp: budgetRejections_def)
  then have "gate_ok {} r run (gh_gateId h) h" using in_gatesOf_iff[OF ok] reducer_okD[OF ok] by blast
  moreover have "rejection h" using h(2) by (auto simp: rejectedGate_def rejection_def orElse_def split: option.splits)
  ultimately show ?thesis using h(3) by (simp add: gate_ok_def)
qed

lemma nodes_of_log:
  assumes "reconstructCheckpointState evs = Inr (Some cp)" and "logOf run evs"
  shows "((\<exists>ev \<in> set evs. terminalNode (ev_body ev) = Some node) \<longrightarrow> settledState (mget (cp_nodeStates cp) node)) \<and>
    (node \<in> fst ` set (cp_budgetRejections cp) \<longrightarrow> settledState (mget (cp_nodeStates cp) node)) \<and>
    (mget (cp_nodeStates cp) node = Some NodePaused \<longrightarrow>
      node \<in> cg_nodeId ` set (cp_pendingGates cp) \<or> node \<in> mj_nodeId ` set (cp_pendingMediaJobs cp))"
proof -
  obtain acc ts where ok: "nodes_ok run acc" and all: "applyAll (tl evs) emptyReducer = Inr (ts, ra_suspensions acc)" and f: "finishCheckpoint acc = Some cp"
    using reconstructed[OF assms] .
  let ?r = "ra_suspensions acc"
  have nk: "reducer_ok {} ?r" "media_keyed ?r" "\<And>node. (run, node) \<in> retiredNodes ?r \<Longrightarrow> settledState (mget (ra_nodeStates acc) node)"
    "\<And>node. mget (ra_nodeStates acc) node = Some NodePaused \<Longrightarrow> waits ?r run node" "ra_runId acc = run"
    using ok by (simp_all add: nodes_ok_def stateOf_def)
  have cp: "cp_nodeStates cp = ra_nodeStates acc" "cp_pendingGates cp = map checkpointGate (pendingGates ?r run)"
    "cp_budgetRejections cp = budgetRejections ?r run" "cp_pendingMediaJobs cp = pendingMediaJobs ?r run"
    using f nk(5) by (auto simp: finishCheckpoint_def split: if_splits)
  have "retiredNodes ?r = retirements (tl evs) ts" using applyAll_accounts[OF empty_ok(1) all] by (simp add: empty_ok)
  moreover have "ev \<in> set (tl evs)" if "ev \<in> set evs" "terminalNode (ev_body ev) = Some node" for ev
    using that assms(2) by (cases evs) (auto simp: logOf_def)
  ultimately have "(run, node) \<in> retiredNodes ?r" if "ev \<in> set evs" "terminalNode (ev_body ev) = Some node" for ev
    using that assms(2) by (auto simp: retirements_def logOf_def)
  then show ?thesis
    using nk(3,4) rejections_retired[OF nk(1), of node run] waiting_listed[OF nk(1,2), of run node]
    by (auto simp: cp checkpointGate_def image_image)
qed

text \<open>C35: what a checkpoint says of the nodes of a run. A node that ended in the log, and a node whose budget
  was rejected, is settled in it whatever else the log holds, so a resumed run never starts it again; a node
  that is paused in it is the node of a pending gate or of a pending media job, so something can wake it.\<close>

theorem checkpoint_nodes:
  assumes "reconstructCheckpointState evs = Inr (Some cp)" and "logOf run evs"
  shows "((\<exists>ev \<in> set evs. terminalNode (ev_body ev) = Some node) \<longrightarrow> settledState (mget (cp_nodeStates cp) node)) \<and>
    (node \<in> fst ` set (cp_budgetRejections cp) \<longrightarrow> settledState (mget (cp_nodeStates cp) node)) \<and>
    (mget (cp_nodeStates cp) node = Some NodePaused \<longrightarrow>
      node \<in> cg_nodeId ` set (cp_pendingGates cp) \<or> node \<in> mj_nodeId ` set (cp_pendingMediaJobs cp))"
  using nodes_of_log[OF assms] .

definition sampleLog :: "LogEvent list" where
  "sampleLog = logEntry ''r'' (EvRunStarted ''w'' (JObj []) ''local'') # sampleHistory @ map (logEntry ''r'')
     [EvNodeStarted ''e'' True None,
      EvMediaJobSubmitted \<lparr>mj_nodeId = ''e'', mj_jobId = ''j'', mj_provider = ''p'', mj_model = ''v'', mj_modality = ''video'',
        mj_startedAt = ''t0'', mj_deadlineAt = ''t1'', mj_units = None, mj_acceptedCostMicrocents = Some 30\<rparr>,
      EvEstimateCommitted 12, EvCostAttemptSettled ''m'' 40 (Some True) None, EvEstimateCommitted 8,
      EvNodeCompleted ''f'' JNull 100 20 (Some 25) None]"

definition sampleCheckpoint :: CheckpointState where
  "sampleCheckpoint = (case reconstructCheckpointState sampleLog of Inr (Some cp) \<Rightarrow> cp | _ \<Rightarrow> the (finishCheckpoint (emptyAccumulator\<lparr>ra_started := True\<rparr>)))"

lemma sampleLog_reconstructed: "reconstructCheckpointState sampleLog = Inr (Some sampleCheckpoint)"
proof -
  have "case reconstructCheckpointState sampleLog of Inr (Some _) \<Rightarrow> True | _ \<Rightarrow> False" by code_simp
  then show ?thesis by (simp add: sampleCheckpoint_def split: sum.splits option.splits)
qed

lemma sampleLog_of: "logOf ''r'' sampleLog"
  by (auto simp: logOf_def sampleLog_def sampleHistory_def logEntry_def)

theorem checkpoint_nodes_witness:
  "logOf ''r'' sampleLog \<and> mget (cp_nodeStates sampleCheckpoint) ''e'' = Some NodePaused \<and>
   (''e'' \<in> cg_nodeId ` set (cp_pendingGates sampleCheckpoint) \<or> ''e'' \<in> mj_nodeId ` set (cp_pendingMediaJobs sampleCheckpoint)) \<and>
   ''b'' \<in> fst ` set (cp_budgetRejections sampleCheckpoint) \<and> settledState (mget (cp_nodeStates sampleCheckpoint) ''b'')"
proof -
  have "mget (cp_nodeStates sampleCheckpoint) ''e'' = Some NodePaused" "''b'' \<in> fst ` set (cp_budgetRejections sampleCheckpoint)" by code_simp+
  then show ?thesis using checkpoint_nodes[OF sampleLog_reconstructed sampleLog_of] sampleLog_of by blast
qed

end
