(* ===== verification/Checkpoint_Money.thy ===== *)
theory Checkpoint_Money
  imports Checkpoint_Laws
begin

text \<open>
  The money and the counters a checkpoint restores, as sums and maxima over the log: they do not depend on the
  order in which concurrent events were written.
\<close>

section \<open>Money and counters\<close>

text \<open>The run-wide totals that an event of the durable log records, and the amounts it adds.\<close>

fun durableTotals :: "EventBody \<Rightarrow> nat list" where
  "durableTotals (EvNodeCompleted _ _ _ _ (Some n) _) = [n]"
| "durableTotals (EvNodeFailed _ _ (Some n)) = [n]"
| "durableTotals (EvCostAttemptSettled _ n _ _) = [n]"
| "durableTotals (EvBudgetPaused _ _ spent _ _) = [spent]"
| "durableTotals (EvBudgetAuthorization _ _ (AuthPaused p)) = [pa_spentMicrocents p]"
| "durableTotals _ = []"

fun streamedTotal :: "EventBody \<Rightarrow> bool" where
  "streamedTotal (EvCostUpdated _ _ _) = True"
| "streamedTotal _ = False"

fun estimateOf :: "EventBody \<Rightarrow> nat" where
  "estimateOf (EvEstimateCommitted n) = n"
| "estimateOf _ = 0"

fun tokensOf :: "EventBody \<Rightarrow> nat \<times> nat" where
  "tokensOf (EvNodeCompleted _ _ i u _ _) = (i, u)"
| "tokensOf _ = (0, 0)"

fun startOf :: "EventBody \<Rightarrow> nat" where
  "startOf (EvNodeStarted _ _ _) = 1"
| "startOf _ = 0"

text \<open>The part of the accumulator that holds numbers, and what each stage of an event does to it.\<close>

definition added :: "ReconAccumulator \<Rightarrow> nat \<times> nat \<times> nat \<times> nat" where
  "added acc = (ra_conservativeCostMicrocents acc, ra_totalInputTokens acc, ra_totalOutputTokens acc, ra_nodeDispatches acc)"

definition peaks :: "ReconAccumulator \<Rightarrow> nat \<times> int" where
  "peaks acc = (ra_cumulativeCostMicrocents acc, ra_lastSequenceNumber acc)"

lemma stages_keep [simp]:
  "added (applyRunEvent ev acc) = added acc" "peaks (applyRunEvent ev acc) = peaks acc"
  "added (countUnpriced ev acc) = added acc" "peaks (countUnpriced ev acc) = peaks acc"
  "added (acc\<lparr>ra_nodeLife := l\<rparr>) = added acc" "peaks (acc\<lparr>ra_nodeLife := l\<rparr>) = peaks acc"
  "added (acc\<lparr>ra_lastSequenceNumber := n\<rparr>) = added acc" "added (raiseCost c acc) = added acc" "added (setNode m st acc) = added acc" "peaks (setNode m st acc) = peaks acc"
  by (simp_all add: added_def peaks_def applyRunEvent_def countUnpriced_def raiseCost_def setNode_def split: EventBody.split option.split)

lemma faults_keep:
  "onCoverage ev acc = Inr acc' \<Longrightarrow> added acc' = added acc \<and> peaks acc' = peaks acc"
  "onSuspensions ev acc = Inr (t, acc') \<Longrightarrow> added acc' = added acc \<and> peaks acc' = peaks acc"
  "applyGateEvent t acc = Inr acc' \<Longrightarrow> added acc' = added acc \<and> peaks acc' = peaks acc"
proof -
  show "onCoverage ev acc = Inr acc' \<Longrightarrow> added acc' = added acc \<and> peaks acc' = peaks acc"
    "onSuspensions ev acc = Inr (t, acc') \<Longrightarrow> added acc' = added acc \<and> peaks acc' = peaks acc"
    by (auto simp: onCoverage_def onSuspensions_def added_def peaks_def split: sum.splits prod.splits)
  have "added (applyTransition tr acc) = added acc" "peaks (applyTransition tr acc) = peaks acc" for tr
    by (cases tr; simp; simp add: added_def peaks_def)+
  then show "applyGateEvent t acc = Inr acc' \<Longrightarrow> added acc' = added acc \<and> peaks acc' = peaks acc"
    by (auto simp: applyGateEvent_def split: option.splits if_splits)
qed

definition plus4 :: "nat \<times> nat \<times> nat \<times> nat \<Rightarrow> EventBody \<Rightarrow> nat \<times> nat \<times> nat \<times> nat" where
  "plus4 x b = (fst x + estimateOf b, fst (snd x) + fst (tokensOf b), fst (snd (snd x)) + snd (tokensOf b), snd (snd (snd x)) + startOf b)"

lemma applyCheckpoint_numbers:
  assumes "applyCheckpoint ev acc = Inr acc'"
  shows "added acc' = plus4 (added acc) (ev_body ev)"
    and "\<not> streamedTotal (ev_body ev) \<Longrightarrow>
      peaks acc' = (fold max (durableTotals (ev_body ev)) (fst (peaks acc)), max (snd (peaks acc)) (ev_sequenceNumber ev))"
proof -
  define b where "b = ev_body ev"
  obtain acc1 where c: "onCoverage ev (countUnpriced ev acc) = Inr acc1" using assms(1) by (auto simp: applyCheckpoint_def)
  define acc2 where "acc2 = acc1\<lparr>ra_lastSequenceNumber := max (ra_lastSequenceNumber acc1) (ev_sequenceNumber ev)\<rparr>"
  define acc3 where "acc3 = applyMediaJobEvent b (applyNodeEvent b (applyRunEvent ev (applyCosts b acc2)))"
  obtain t acc4 acc5 where su: "onSuspensions ev acc3 = Inr (t, acc4)" and g: "applyGateEvent t (acc4\<lparr>ra_nodeLife := applyLife ev t (ra_nodeLife acc4)\<rparr>) = Inr acc5"
    and e: "acc' = applyPauseCosts b acc5"
    using assms(1) c by (auto simp: applyCheckpoint_def Let_def acc3_def acc2_def b_def)
  have 2: "added acc2 = added acc" "peaks acc2 = (fst (peaks acc), max (snd (peaks acc)) (ev_sequenceNumber ev))"
    using faults_keep(1)[OF c] by (simp_all add: acc2_def) (simp add: peaks_def prod_eq_iff)
  have 5: "added acc5 = added acc3" "peaks acc5 = peaks acc3" using faults_keep(2)[OF su] faults_keep(3)[OF g] by simp_all
  have "added (applyPauseCosts b a) = added a" for a by (cases "(b, a)" rule: applyPauseCosts.cases) simp_all
  moreover have "added (applyMediaJobEvent b a) = added a" for a by (cases b) simp_all
  moreover have "added (applyNodeEvent b a) = (fst (added a), fst (snd (added a)) + fst (tokensOf b), fst (snd (snd (added a))) + snd (tokensOf b), snd (snd (snd (added a))) + startOf b)" for a
    by (cases b) (simp_all add: Let_def added_def raiseCost_def setNode_def split: option.split)
  moreover have "added (applyCosts b a) = (fst (added a) + estimateOf b, snd (added a))" for a
    by (cases b) (simp_all add: added_def raiseCost_def)
  ultimately show "added acc' = plus4 (added acc) (ev_body ev)" using 2 5 by (simp add: e acc3_def b_def plus4_def)
  assume s: "\<not> streamedTotal (ev_body ev)"
  have n: "peaks (applyNodeEvent b a) = (case b of EvNodeCompleted _ _ _ _ (Some n) _ \<Rightarrow> max n (fst (peaks a)) | EvNodeFailed _ _ (Some n) \<Rightarrow> max n (fst (peaks a)) | _ \<Rightarrow> fst (peaks a), snd (peaks a))" for a
    by (cases b) (simp_all add: Let_def peaks_def raiseCost_def setNode_def max.commute split: option.split)
  have c: "peaks (applyCosts b a) = (case b of EvCostAttemptSettled _ n _ _ \<Rightarrow> max n (fst (peaks a)) | _ \<Rightarrow> fst (peaks a), snd (peaks a))" for a
    using s[folded b_def] by (cases b) (simp_all add: peaks_def raiseCost_def max.commute)
  have m: "peaks (applyMediaJobEvent b a) = peaks a" for a by (cases b) simp_all
  have q: "peaks (applyPauseCosts b a) = (case b of EvBudgetPaused _ _ n _ _ \<Rightarrow> max n (fst (peaks a)) | EvBudgetAuthorization _ _ (AuthPaused p) \<Rightarrow> max (pa_spentMicrocents p) (fst (peaks a)) | _ \<Rightarrow> fst (peaks a), snd (peaks a))" for a
    by (cases b) (simp_all add: peaks_def raiseCost_def max.commute split: BudgetAuthorizationState.split)
  have "peaks acc3 = peaks (applyNodeEvent b (applyRunEvent ev (applyCosts b acc2)))" by (simp only: acc3_def m)
  note three = this[unfolded n stages_keep(2) c fst_conv snd_conv] and five = q[of acc5, folded e, unfolded 5(2)]
  have "peaks acc' = (fold max (durableTotals b) (fst (peaks acc2)), snd (peaks acc2))"
    unfolding five unfolding three by (cases b) (simp_all split: option.split BudgetAuthorizationState.split)
  then show "peaks acc' = (fold max (durableTotals (ev_body ev)) (fst (peaks acc)), max (snd (peaks acc)) (ev_sequenceNumber ev))"
    by (simp add: 2 b_def)
qed

definition durable :: "LogEvent list \<Rightarrow> nat set" where
  "durable evs = (\<Union>ev \<in> set evs. set (durableTotals (ev_body ev)))"

lemma fold_max: "fold max xs n = Max (insert n (set xs))" for n :: "'a :: linorder"
proof (induction xs arbitrary: n)
  case (Cons x xs)
  then show ?case by (cases "xs = []") (simp_all add: max.assoc max.commute max.left_commute)
qed simp

lemma applyCheckpoints_added:
  "applyCheckpoints evs acc = Inr acc' \<Longrightarrow> added acc' = fold (\<lambda>ev x. plus4 x (ev_body ev)) evs (added acc)"
  by (induction evs arbitrary: acc) (auto simp: applyCheckpoint_numbers(1))

lemma fold_plus4:
  "fold (\<lambda>ev x. plus4 x (ev_body ev)) evs x =
    (fst x + (\<Sum>ev\<leftarrow>evs. estimateOf (ev_body ev)), fst (snd x) + (\<Sum>ev\<leftarrow>evs. fst (tokensOf (ev_body ev))),
     fst (snd (snd x)) + (\<Sum>ev\<leftarrow>evs. snd (tokensOf (ev_body ev))), snd (snd (snd x)) + (\<Sum>ev\<leftarrow>evs. startOf (ev_body ev)))"
  by (induction evs arbitrary: x) (simp_all add: plus4_def)

lemma finite_durable: "finite (durable evs)"
  by (simp add: durable_def)

lemma applyCheckpoints_peaks:
  "applyCheckpoints evs acc = Inr acc' \<Longrightarrow> \<forall>ev \<in> set evs. \<not> streamedTotal (ev_body ev) \<Longrightarrow>
    peaks acc' = (Max (insert (fst (peaks acc)) (durable evs)), Max (insert (snd (peaks acc)) (ev_sequenceNumber ` set evs)))"
proof (induction evs arbitrary: acc)
  case Nil
  then show ?case by (simp add: durable_def)
next
  case (Cons ev evs)
  then obtain acc1 where a: "applyCheckpoint ev acc = Inr acc1" "applyCheckpoints evs acc1 = Inr acc'" by auto
  have "fst (peaks acc1) = Max (insert (fst (peaks acc)) (set (durableTotals (ev_body ev))))" "snd (peaks acc1) = max (snd (peaks acc)) (ev_sequenceNumber ev)"
    using applyCheckpoint_numbers(2)[OF a(1)] Cons.prems(2) by (simp_all add: fold_max)
  moreover have "durable (ev # evs) = set (durableTotals (ev_body ev)) \<union> durable evs" by (simp add: durable_def)
  moreover have "Max (insert (Max (insert x A)) B) = Max (insert x (A \<union> B))" if "finite A" "finite B" for x and A B :: "nat set"
    using that by (cases "B = {}"; cases "A = {}") (simp_all add: Max_Un max.assoc)
  moreover have "Max (insert (max x y) B) = Max (insert x (insert y B))" if "finite B" for x y and B :: "int set"
    using that by (cases "B = {}") (simp_all add: max.assoc)
  ultimately show ?case using Cons.IH[OF a(2)] Cons.prems(2) finite_durable by simp
qed

lemma money_of_log:
  assumes "reconstructCheckpointState evs = Inr (Some cp)"
  shows "cp_conservativeCostMicrocents cp = (\<Sum>ev\<leftarrow>evs. estimateOf (ev_body ev)) \<and>
    cp_totalInputTokens cp = (\<Sum>ev\<leftarrow>evs. fst (tokensOf (ev_body ev))) \<and> cp_totalOutputTokens cp = (\<Sum>ev\<leftarrow>evs. snd (tokensOf (ev_body ev))) \<and>
    cp_nodeDispatches cp = (\<Sum>ev\<leftarrow>evs. startOf (ev_body ev)) \<and>
    ((\<forall>ev \<in> set evs. \<not> streamedTotal (ev_body ev)) \<longrightarrow>
      cp_cumulativeCostMicrocents cp = Max (insert 0 (durable evs)) \<and> cp_lastSequenceNumber cp = Max (insert (-1) (ev_sequenceNumber ` set evs)))"
proof -
  obtain acc where acc: "applyCheckpoints evs emptyAccumulator = Inr acc" "finishCheckpoint acc = Some cp"
    using assms by (auto simp: reconstructCheckpointState_def)
  have "added emptyAccumulator = (0, 0, 0, 0)" "peaks emptyAccumulator = (0, -1)" by (simp_all add: added_def peaks_def emptyAccumulator_def)
  then have n: "added acc = ((\<Sum>ev\<leftarrow>evs. estimateOf (ev_body ev)), (\<Sum>ev\<leftarrow>evs. fst (tokensOf (ev_body ev))),
      (\<Sum>ev\<leftarrow>evs. snd (tokensOf (ev_body ev))), (\<Sum>ev\<leftarrow>evs. startOf (ev_body ev)))"
    "(\<forall>ev \<in> set evs. \<not> streamedTotal (ev_body ev)) \<longrightarrow> peaks acc = (Max (insert 0 (durable evs)), Max (insert (-1) (ev_sequenceNumber ` set evs)))"
    using applyCheckpoints_added[OF acc(1)] applyCheckpoints_peaks[OF acc(1)] by (simp_all add: fold_plus4)
  have "cp_conservativeCostMicrocents cp = fst (added acc)" "cp_totalInputTokens cp = fst (snd (added acc))" "cp_totalOutputTokens cp = fst (snd (snd (added acc)))"
    "cp_nodeDispatches cp = snd (snd (snd (added acc)))" "cp_cumulativeCostMicrocents cp = fst (peaks acc)" "cp_lastSequenceNumber cp = snd (peaks acc)"
    using acc(2) by (auto simp: finishCheckpoint_def added_def peaks_def split: if_splits)
  then show ?thesis using n by simp
qed

text \<open>The money and the counters of a checkpoint. The conservative total is the sum of all committed
  estimates, the tokens and the dispatches are sums over the log, the last sequence number is the largest one;
  and when the log holds no streamed cost, as a stored log does not, the realized cost is the largest run-wide
  total any event of the log records. None of them depends on the order of the events.\<close>

theorem checkpoint_money:
  assumes "reconstructCheckpointState evs = Inr (Some cp)"
  shows "cp_conservativeCostMicrocents cp = (\<Sum>ev\<leftarrow>evs. estimateOf (ev_body ev)) \<and>
    cp_totalInputTokens cp = (\<Sum>ev\<leftarrow>evs. fst (tokensOf (ev_body ev))) \<and> cp_totalOutputTokens cp = (\<Sum>ev\<leftarrow>evs. snd (tokensOf (ev_body ev))) \<and>
    cp_nodeDispatches cp = (\<Sum>ev\<leftarrow>evs. startOf (ev_body ev)) \<and>
    ((\<forall>ev \<in> set evs. \<not> streamedTotal (ev_body ev)) \<longrightarrow>
      cp_cumulativeCostMicrocents cp = Max (insert 0 (durable evs)) \<and> cp_lastSequenceNumber cp = Max (insert (-1) (ev_sequenceNumber ` set evs)))"
  using money_of_log[OF assms] .

theorem checkpoint_money_witness:
  "cp_conservativeCostMicrocents sampleCheckpoint = (\<Sum>ev\<leftarrow>sampleLog. estimateOf (ev_body ev)) \<and>
   (\<Sum>ev\<leftarrow>sampleLog. estimateOf (ev_body ev)) = 20 \<and>
   cp_cumulativeCostMicrocents sampleCheckpoint = Max (insert 0 (durable sampleLog)) \<and> cp_cumulativeCostMicrocents sampleCheckpoint = 40"
proof -
  have "\<forall>ev \<in> set sampleLog. \<not> streamedTotal (ev_body ev)" "(\<Sum>ev\<leftarrow>sampleLog. estimateOf (ev_body ev)) = 20" "cp_cumulativeCostMicrocents sampleCheckpoint = 40"
    by code_simp+
  then show ?thesis using checkpoint_money[OF sampleLog_reconstructed] by simp
qed

end
