(* ===== verification/Budget_Accounts.thy ===== *)
theory Budget_Accounts
  imports Budget_Safety
begin

text \<open>
  The totals of the governor are the sums of what they stand for, whatever is charged and reported: the
  second law of the ledger. It is what a checkpoint relies on when it adds up the commitments of a run.
\<close>

section \<open>Balances without honesty\<close>

lemma bal_book:
  assumes "bal ld" and "debits_kept (ld_book ld) bk"
  shows "bal (ld\<lparr>ld_book := bk\<rparr>)"
proof -
  have "lease_ok (ld_admissions ld) bk l" if "lease_ok (ld_admissions ld) (ld_book ld) l" for l
    using assms(2) that by (fastforce simp: lease_ok_def debits_kept_def)
  then show ?thesis using assms(1) by (simp add: bal_def)
qed

lemma finishDebit_kept: "debits_kept bk (snd (finishDebit d actual released (\<lambda>b. (live, b)) bk))"
proof -
  have "bk_debits (snd (finishDebit d actual released (\<lambda>b. (live, b)) bk)) \<in> {bk_debits bk, bk_debits (markSettled d bk)}"
    by (simp add: finishDebit_def Let_def closeAllowance_def)
  then show ?thesis using markSettled_debits[of bk d] by (auto simp: debits_kept_def)
qed

lemma bal_simps [simp]:
  "bal (ld\<lparr>ld_finishing := fs\<rparr>) = bal ld" "bal (ld\<lparr>ld_cumulative := c\<rparr>) = bal ld" "bal (ld\<lparr>ld_conservative := c\<rparr>) = bal ld"
  "bal (ld\<lparr>ld_warningArmed := a\<rparr>) = bal ld" "bal (ld\<lparr>ld_failure := f\<rparr>) = bal ld" "bal (ld\<lparr>ld_broken := d\<rparr>) = bal ld"
  "bal (ld\<lparr>ld_commitments := cs\<rparr>) = bal ld" "bal (ld\<lparr>ld_pending := n\<rparr>) = bal ld"
  by (simp_all add: bal_def)

lemma finish_bal: "bal ld \<Longrightarrow> bal (startFinish debit actual released ld)" "bal ld \<Longrightarrow> bal (answerFinish k live ld)"
proof -
  have f: "bal (l\<lparr>ld_book := snd (finishDebit d actual released (\<lambda>b. (live, b)) (ld_book l))\<rparr>)" if "bal l" for l d actual released live
    using bal_book[OF that finishDebit_kept] .
  show "bal ld \<Longrightarrow> bal (startFinish debit actual released ld)" using f by (simp add: startFinish_def split: option.split)
  show "bal ld \<Longrightarrow> bal (answerFinish k live ld)"
    using f[of "ld\<lparr>ld_finishing := take k (ld_finishing ld) @ drop (Suc k) (ld_finishing ld)\<rparr>"]
    by (simp add: answerFinish_def split: prod.split)
qed

section \<open>The log of commitments\<close>

definition committed :: "Commitment list \<Rightarrow> int" where
  "committed cs = sum_list (map cm_estimateMicrocents cs)"

text \<open>Each commitment records the total it brought the run to, counted from what was restored.\<close>

definition logged :: "int \<Rightarrow> Commitment list \<Rightarrow> bool" where
  "logged restored cs \<longleftrightarrow>
     (\<forall>k < length cs. 0 < cm_estimateMicrocents (cs ! k) \<and>
        cm_cumulativeConservativeMicrocents (cs ! k) = restored + committed (take (Suc k) cs))"

definition unwritten :: "Commitment list \<Rightarrow> nat" where
  "unwritten cs = length (filter (\<lambda>c. cm_written c = None) cs)"

definition accounts :: "int \<Rightarrow> Ledger \<Rightarrow> bool" where
  "accounts restored ld \<longleftrightarrow>
     bal ld \<and> ld_conservative ld = restored + committed (ld_commitments ld) \<and> logged restored (ld_commitments ld) \<and>
     ld_pending ld = unwritten (ld_commitments ld)"

lemma logged_snoc:
  "logged restored cs \<Longrightarrow> 0 < cm_estimateMicrocents c \<Longrightarrow>
   cm_cumulativeConservativeMicrocents c = restored + committed cs + cm_estimateMicrocents c \<Longrightarrow> logged restored (cs @ [c])"
  by (auto simp: logged_def committed_def nth_append less_Suc_eq)

lemma writeFirst_log:
  assumes "writeFirst ok cs = Some (c, ds)"
  shows "map cm_estimateMicrocents ds = map cm_estimateMicrocents cs \<and>
    map cm_cumulativeConservativeMicrocents ds = map cm_cumulativeConservativeMicrocents cs \<and> Suc (unwritten ds) = unwritten cs"
  using assms by (induction ok cs arbitrary: ds rule: writeFirst.induct) (auto simp: unwritten_def split: if_splits)

lemma logged_cong:
  assumes "map cm_estimateMicrocents ds = map cm_estimateMicrocents cs"
    and "map cm_cumulativeConservativeMicrocents ds = map cm_cumulativeConservativeMicrocents cs"
  shows "logged restored ds = logged restored cs" "committed ds = committed cs"
proof -
  have l: "length ds = length cs" using assms(1) by (rule map_eq_imp_length_eq)
  have "cm_estimateMicrocents (ds ! k) = cm_estimateMicrocents (cs ! k)"
    "cm_cumulativeConservativeMicrocents (ds ! k) = cm_cumulativeConservativeMicrocents (cs ! k)" if "k < length cs" for k
    using assms that l by (metis nth_map)+
  moreover have "committed (take n ds) = committed (take n cs)" for n
    using assms(1) by (simp add: committed_def take_map[symmetric])
  ultimately show "logged restored ds = logged restored cs" by (auto simp: logged_def l)
  show "committed ds = committed cs" using assms(1) by (simp add: committed_def)
qed

section \<open>Every operation keeps the accounts\<close>

lemma accounts_other:
  assumes "accounts restored ld" and "bal ld'" and "ld_conservative ld' = ld_conservative ld"
    and "ld_commitments ld' = ld_commitments ld" and "ld_pending ld' = ld_pending ld"
  shows "accounts restored ld'"
  using assms by (simp add: accounts_def)

lemma finish_fields [simp]:
  "ld_conservative (startFinish debit actual released ld) = ld_conservative ld"
  "ld_commitments (startFinish debit actual released ld) = ld_commitments ld"
  "ld_pending (startFinish debit actual released ld) = ld_pending ld"
  "ld_conservative (answerFinish k live ld) = ld_conservative ld"
  "ld_commitments (answerFinish k live ld) = ld_commitments ld" "ld_pending (answerFinish k live ld) = ld_pending ld"
  by (auto simp: startFinish_def answerFinish_def split: option.split prod.split)

lemma finish_accounts:
  "accounts restored ld \<Longrightarrow> accounts restored (startFinish debit actual released ld)"
  "accounts restored ld \<Longrightarrow> accounts restored (answerFinish k live ld)"
  by (auto simp: accounts_def finish_bal)

lemma taken_accounts:
  assumes "accounts restored ld" and "i < length (ld_leases ld)" and "\<not> ls_settled (ld_leases ld ! i)"
    and "takeReservation (ls_id (ld_leases ld ! i)) (markLease i ld) = (r, ld1)"
  shows "accounts restored ld1"
proof -
  have "bal ld" using assms(1) by (simp add: accounts_def)
  note tk = taken_bal[OF this assms(2-4)]
  show ?thesis using accounts_other[OF assms(1)] tk by simp
qed

lemma settle_accounts:
  assumes ok: "accounts restored ld" and i: "i < length (ld_leases ld)"
  shows "accounts restored (snd (settle i realized ld))"
proof (cases "ls_settled (ld_leases ld ! i) \<or> \<not> isSafeInteger realized \<or> realized < 0")
  case True
  then show ?thesis using ok by (auto simp: settle_def Let_def)
next
  case False
  obtain r ld1 where t: "takeReservation (ls_id (ld_leases ld ! i)) (markLease i ld) = (r, ld1)" by fastforce
  have "accounts restored ld1" using taken_accounts[OF ok i _ t] False by blast
  then have "accounts restored (if 0 < realized then ld1\<lparr>ld_cumulative := ld_cumulative ld1 + realized, ld_warningArmed := True\<rparr> else ld1)"
    by (simp add: accounts_def)
  then show ?thesis using False t finish_accounts(1) by (simp add: settle_def Let_def)
qed

lemma release_accounts:
  assumes ok: "accounts restored ld" and i: "i < length (ld_leases ld)"
  shows "accounts restored (releaseLease i ld)"
proof (cases "ls_settled (ld_leases ld ! i)")
  case False
  obtain r ld1 where t: "takeReservation (ls_id (ld_leases ld ! i)) (markLease i ld) = (r, ld1)" by fastforce
  then show ?thesis using False finish_accounts(1)[OF taken_accounts[OF ok i False t]] by (simp add: releaseLease_def Let_def)
qed (use ok in \<open>simp add: releaseLease_def Let_def\<close>)

lemma commit_accounts:
  assumes ok: "accounts restored ld" and i: "i < length (ld_leases ld)"
  shows "accounts restored (settleAtReservedEstimate i nodeId attempt ld)"
proof (cases "ls_settled (ld_leases ld ! i)")
  case False
  obtain r ld1 where t: "takeReservation (ls_id (ld_leases ld ! i)) (markLease i ld) = (r, ld1)" by fastforce
  have "accounts restored ld1" using taken_accounts[OF ok i False t] .
  then have "accounts restored (case r of None \<Rightarrow> ld1
      | Some r \<Rightarrow> if 0 < r then
          persistCommitment \<lparr>cm_nodeId = nodeId, cm_attemptNumber = attempt, cm_model = ls_model (ld_leases ld ! i),
            cm_estimateMicrocents = r, cm_cumulativeConservativeMicrocents = ld_conservative ld1 + r, cm_written = None\<rparr>
            (ld1\<lparr>ld_conservative := ld_conservative ld1 + r, ld_warningArmed := True\<rparr>)
        else ld1)"
    by (auto simp: accounts_def persistCommitment_def committed_def unwritten_def intro!: logged_snoc split: option.split)
  then show ?thesis using False t finish_accounts(1) by (simp add: settleAtReservedEstimate_def Let_def)
qed (use ok in \<open>simp add: settleAtReservedEstimate_def Let_def\<close>)

lemma written_accounts:
  assumes "accounts restored ld"
  shows "accounts restored (commitmentWritten ok ld)"
proof (cases "writeFirst ok (ld_commitments ld)")
  case None
  then show ?thesis using assms by (simp add: commitmentWritten_def)
next
  case (Some p)
  obtain c cs where p: "p = (c, cs)" by (cases p)
  note w = writeFirst_log[OF Some[unfolded p]]
  have "Suc (unwritten cs) = unwritten (ld_commitments ld)" "logged restored cs = logged restored (ld_commitments ld)" "committed cs = committed (ld_commitments ld)"
    using w logged_cong by blast+
  then show ?thesis using assms Some p by (simp add: accounts_def commitmentWritten_def)
qed

lemma book_accounts: "accounts restored ld \<Longrightarrow> debits_kept (ld_book ld) bk \<Longrightarrow> accounts restored (ld\<lparr>ld_book := bk\<rparr>)"
  by (simp add: accounts_def bal_book)

lemma admit_accounts:
  assumes ok: "accounts restored ld" and a: "admit model estimate debit ld = (r, ld')"
    and d: "\<And>d. debit = Some d \<Longrightarrow> d < length (bk_debits (ld_book ld)) \<and> debitAmount (bk_debits (ld_book ld) ! d) = amount estimate"
  shows "accounts restored ld'"
proof (rule admit_cases[OF a])
  fix i assume r: "r = Inr (Some i)"
  have "bal ld" using ok by (simp add: accounts_def)
  then have "bal ld'" using admitted_bal(1)[OF _ a[unfolded r] d] by blast
  then show ?thesis
    using accounts_other[OF ok] a r by (auto simp: admit_def Let_def split: if_splits option.splits)
qed (use ok in simp)

lemma admitPermitted_accounts:
  assumes ok: "accounts restored ld" and a: "admitPermitted b model token estimate ld = (r, ld')"
  shows "accounts restored ld'"
proof (cases token)
  case None
  then show ?thesis using a admit_accounts[OF ok, of model estimate None r ld'] by (simp add: admitPermitted_def)
next
  case (Some t)
  obtain q bk where ac: "acquire t estimate (ld_book ld) = (q, bk)" by fastforce
  note m = acquire_money[OF ac]
  have ok1: "accounts restored (ld\<lparr>ld_book := bk\<rparr>)" using book_accounts[OF ok] m by blast
  show ?thesis
  proof (cases "\<exists>d. q = Inr (Admitted d)")
    case False
    then show ?thesis using a ac ok1 Some by (auto simp: admitPermitted_def split: sum.splits AllowanceAcquisition.splits)
  next
    case True
    then obtain d where q: "q = Inr (Admitted d)" by blast
    have d: "d < length (bk_debits bk)" "debitAmount (bk_debits bk ! d) = amount estimate"
      using m by (auto simp: q amount_def split: option.splits)
    obtain r1 ld1 where ad: "admit model estimate (Some d) (ld\<lparr>ld_book := bk\<rparr>) = (r1, ld1)" by fastforce
    have "accounts restored ld1" using admit_accounts[OF ok1 ad] d by simp
    then show ?thesis using a ac ad finish_accounts(1) by (auto simp: admitPermitted_def Some q split: sum.splits)
  qed
qed

lemma evaluate_accounts:
  assumes "accounts restored ld" and "evaluate b model token estimate ld = (ev, ld1)"
  shows "accounts restored ld1"
proof -
  have "accounts restored (ld\<lparr>ld_book := exhaust t (ld_book ld)\<rparr>)" for t
    using book_accounts[OF assms(1)] by (simp add: exhaust_def debits_kept_def)
  then show ?thesis using assms by (auto simp: evaluate_def Let_def split: EstimateResult.splits option.splits if_splits)
qed

lemma armed_accounts:
  "accounts restored ld \<Longrightarrow> accounts restored (ld\<lparr>ld_warningArmed := a\<rparr>)"
  "accounts restored ld \<Longrightarrow> accounts restored (ld\<lparr>ld_failure := f\<rparr>)"
  by (simp_all add: accounts_def)

interpretation acct: governor_law b "accounts restored"
proof unfold_locales
  fix ld t admitted live refused bk
  assume "accounts restored ld" and "validateLive t admitted (\<lambda>bk. (live, bk)) (ld_book ld) = (refused, bk)"
  then show "accounts restored (ld\<lparr>ld_book := bk\<rparr>)"
    using book_accounts validateLive_money(3)[of bk t admitted live "ld_book ld"] by simp
qed (blast intro: release_accounts evaluate_accounts admitPermitted_accounts armed_accounts)+

section \<open>The totals add up\<close>

fun resets :: "GovEvent \<Rightarrow> bool" where
  "resets (ConservativeRestored m) = True"
| "resets ConservativeReleased = True"
| "resets _ = False"

definition accountable :: "int \<Rightarrow> Governor \<Rightarrow> bool" where
  "accountable restored gv \<longleftrightarrow> accounts restored (gv_ledger gv) \<and> checks_ok gv"

lemma accountable_ledger:
  assumes "accountable restored gv" and "accounts restored ld" and "length (ld_leases (gv_ledger gv)) \<le> length (ld_leases ld)"
  shows "accountable restored (gv\<lparr>gv_ledger := ld\<rparr>)"
  using assms by (fastforce simp: accountable_def checks_ok_def issued_def)

lemma other_accounts:
  assumes ok: "accounts restored ld"
  shows "accounts restored (updateCost c ld)" "accounts restored (activateDispatchAllowance n i a live ld)"
    "accounts restored (closeDispatchAllowance t ld)" "accounts restored (snd (reserveAcceptedCost model m ld))"
    "accounts restored (snd (reserveCommittedEgress model e ld))"
proof -
  have r: "accounts restored (snd (admit model x None ld))" for x
    using admit_accounts[OF ok, of model x None] by (metis option.distinct(1) prod.collapse)
  show "accounts restored (updateCost c ld)" using ok by (simp add: updateCost_def accounts_def)
  show "accounts restored (activateDispatchAllowance n i a live ld)" unfolding activateDispatchAllowance_def
    using book_accounts[OF ok activate_money(2)[OF refl]] .
  show "accounts restored (closeDispatchAllowance t ld)"
    using book_accounts[OF ok] by (simp add: closeDispatchAllowance_def closeAllowance_def debits_kept_def)
  show "accounts restored (snd (reserveAcceptedCost model m ld))" "accounts restored (snd (reserveCommittedEgress model e ld))"
    using r ok by (simp_all add: reserveAcceptedCost_def reserveCommittedEgress_def split: EstimateResult.split)
qed

lemma govStep_accountable:
  assumes h: "accountable restored gv" and e: "\<not> resets ev" and s: "govStep b ev gv = Some gv'"
  shows "accountable restored gv'"
proof (cases "checkEvent ev")
  case True
  have "acct.holds restored gv" using h unfolding acct.holds_def accountable_def .
  then have "acct.holds restored gv'" by (rule acct.checkEvent_holds[OF _ True s])
  then show ?thesis unfolding acct.holds_def accountable_def .
next
  case False
  have ok: "accounts restored (gv_ledger gv)" using h by (simp add: accountable_def)
  note facts = settle_accounts[OF ok] commit_accounts[OF ok] release_accounts[OF ok] written_accounts[OF ok] finish_accounts(2)[OF ok] other_accounts[OF ok]
  show ?thesis using False e s h facts events_keep_leases
    by (cases ev) (auto simp: onLease_def onLedger_def intro!: accountable_ledger split: if_splits)
qed

lemma run_accountable:
  "accountable restored gv \<Longrightarrow> \<forall>ev \<in> set evs. \<not> resets ev \<Longrightarrow> run_from (govStep b) evs gv = Some gv' \<Longrightarrow> accountable restored gv'"
proof (induction evs arbitrary: gv)
  case (Cons ev evs)
  then obtain gv1 where "govStep b ev gv = Some gv1" "run_from (govStep b) evs gv1 = Some gv'" by (auto split: option.splits)
  then show ?case using Cons govStep_accountable by (meson list.set_intros)
qed simp

lemma restored_accountable:
  "accountable (if isSafeInteger m \<and> 0 < m then m else 0) (onLedger (restoreConservativeCost m) emptyGovernor)"
  by (auto simp: accountable_def accounts_def onLedger_def restoreConservativeCost_def emptyGovernor_def emptyLedger_def checks_ok_def bal_def
      committed_def logged_def unwritten_def map_invar_def mvalues_def)

text \<open>C28. In a run that restored the total \<open>m\<close> first and does not reset it later, whatever is charged: what
  is reserved is the sum of the estimates of the open leases, and of the reservations kept; the
  conservative total is what was restored plus all commitments; every commitment records the total it
  brought the run to, so a fold over the log restores it; the barrier counts exactly the commitments
  that are not written yet.\<close>

theorem ledger_adds_up:
  assumes "run_from (govStep b) evs (onLedger (restoreConservativeCost m) emptyGovernor) = Some gv"
    and "\<forall>ev \<in> set evs. \<not> resets ev"
  shows "let ld = gv_ledger gv; restored = (if isSafeInteger m \<and> 0 < m then m else 0) in
    ld_reserved ld = sum_list (map (\<lambda>l. if ls_settled l then 0 else amount (ls_estimate l)) (ld_leases ld)) \<and>
    ld_reserved ld = sum_list (mvalues (ld_admissions ld)) \<and>
    ld_conservative ld = restored + sum_list (map cm_estimateMicrocents (ld_commitments ld)) \<and>
    (\<forall>k < length (ld_commitments ld). cm_cumulativeConservativeMicrocents (ld_commitments ld ! k) =
       restored + sum_list (map cm_estimateMicrocents (take (Suc k) (ld_commitments ld)))) \<and>
    ld_pending ld = length (filter (\<lambda>c. cm_written c = None) (ld_commitments ld))"
proof -
  have "accountable (if isSafeInteger m \<and> 0 < m then m else 0) gv"
    using run_accountable[OF restored_accountable assms(2,1)] .
  then show ?thesis
    unfolding accountable_def accounts_def bal_def logged_def committed_def unwritten_def leaseHeld_def[abs_def] Let_def by blast
qed

definition someCap :: Budget where
  "someCap = \<lparr>bud_max_cost_microcents = 1000, bud_on_exceed = FailRun, bud_strict_cost_cap = None\<rparr>"

definition commitTwice :: "GovEvent list" where
  "commitTwice = [CheckStarted ''m'' None, PriceReturned 0 (Some (PricedAt 70 [])), CheckStarted ''m'' None,
     PriceReturned 1 (Some (PricedAt 30 [])), LeaseCommitted 1 (Some ''b'') None, LeaseCommitted 0 (Some ''a'') None,
     CommitmentEnded True, LeaseCommitted 0 None None, CheckStarted ''m'' None]"

theorem ledger_adds_up_witness:
  "\<exists>gv. run_from (govStep someCap) commitTwice (onLedger (restoreConservativeCost 5) emptyGovernor) = Some gv \<and>
     ld_conservative (gv_ledger gv) = 5 + sum_list (map cm_estimateMicrocents (ld_commitments (gv_ledger gv))) \<and>
     ld_conservative (gv_ledger gv) = 105 \<and> ld_pending (gv_ledger gv) = 1 \<and> ck_phase (gv_checks gv ! 2) = Flushing"
proof -
  let ?r = "run_from (govStep someCap) commitTwice (onLedger (restoreConservativeCost 5) emptyGovernor)"
  have e: "?r \<noteq> None \<and> ld_conservative (gv_ledger (the ?r)) = 105 \<and> ld_pending (gv_ledger (the ?r)) = 1 \<and> ck_phase (gv_checks (the ?r) ! 2) = Flushing"
    by code_simp
  then obtain gv where r: "?r = Some gv" by blast
  have "\<forall>ev \<in> set commitTwice. \<not> resets ev" by (simp add: commitTwice_def)
  from ledger_adds_up[OF r this] show ?thesis using e r by (simp add: Let_def isSafeInteger_def MAX_SAFE_INTEGER_def)
qed

section \<open>A hold that skips the barrier\<close>

text \<open>A resumed media job holds a new call; it ends without a price, so its reservation is committed, and
  its hold is released in the same stretch. The call is then priced and admitted.\<close>

definition heldCall :: "GovEvent list" where
  "heldCall = [LegacyRegistered ''media'', CommittedReserved ''video'' (PricedAt 40 []), CheckStarted ''text'' None, CheckResumed 0,
     LeaseCommitted 0 (Some ''media'') None, LegacyCleared ''media'', CheckResumed 0, PriceReturned 0 (Some (PricedAt 10 []))]"

text \<open>C29. The durability barrier stands before the hold of legacy media jobs and not after it: a call
  that waited for such a job is admitted while the commitment that ended the job is not written.\<close>

theorem hold_skips_durability_barrier:
  "\<exists>gv. run_from (govStep someCap) heldCall emptyGovernor = Some gv \<and> ck_phase (gv_checks gv ! 0) = Done (Inr (Some 1)) \<and>
     ld_pending (gv_ledger gv) = 1 \<and> ld_reserved (gv_ledger gv) = 10 \<and> ld_conservative (gv_ledger gv) = 40"
proof -
  let ?r = "run_from (govStep someCap) heldCall emptyGovernor"
  have "?r \<noteq> None \<and> ck_phase (gv_checks (the ?r) ! 0) = Done (Inr (Some 1)) \<and> ld_pending (gv_ledger (the ?r)) = 1 \<and>
      ld_reserved (gv_ledger (the ?r)) = 10 \<and> ld_conservative (gv_ledger (the ?r)) = 40"
    by code_simp
  then show ?thesis by fastforce
qed

end
