(* ===== verification/Run_Resume.thy ===== *)
theory Run_Resume
  imports Checkpoint_Money Budget_Accounts Sample_Runs
begin

text \<open>
  A run rebuilt from its checkpoint: \<open>restoredNodeClockBases\<close>, \<open>#reArmGateDeadline\<close>, \<open>#restoreParkedMediaJob\<close>,
  \<open>#seedFromCheckpoint\<close> and \<open>#activateCheckpoint\<close> of \<open>src/packages/core/src/engine/engine.ts\<close>. Seeding builds the
  state of the run loop and the ledger of the governor; activation is the part that follows the admission of
  the resume. \<open>Date.parse\<close> is a parameter, its \<open>NaN\<close> is \<open>None\<close>; so is the price of a job whose accepted cost was
  not recorded, since the catalog is a service of the host.
\<close>

section \<open>Clocks and deadlines\<close>

definition parkedNodes :: "CheckpointState \<Rightarrow> string list" where
  "parkedNodes cp =
     fold set_add (map cg_nodeId (filter cg_isBudgetGate (cp_pendingGates cp)) @ map mj_nodeId (cp_pendingMediaJobs cp) @
       cp_pendingBudgetContinuationNodeIds cp) []"

definition hasNodeTimeout :: "RunPlan \<Rightarrow> string \<Rightarrow> bool" where
  "hasNodeTimeout plan nodeId =
     (case map_option pv_config (mget (rp_vertices plan) nodeId) of Some (AgentConfig node _ _) \<Rightarrow> an_timeout_ms node \<noteq> None | _ \<Rightarrow> False)"

text \<open>The base of one node; \<open>None\<close> when it cannot be reconstructed.\<close>

definition clockBase :: "CheckpointState \<Rightarrow> string \<Rightarrow> int option" where
  "clockBase cp nodeId =
     (case (map_of (cp_nodeLifeClocks cp) nodeId, cp_startedAtMs cp) of
        (Some (ValidClock (Some t)), Some t0) \<Rightarrow> if t < t0 then None else Some (t - t0)
      | _ \<Rightarrow> None)"

fun clockBases :: "RunPlan \<Rightarrow> CheckpointState \<Rightarrow> string list \<Rightarrow> (string, int) jsmap \<Rightarrow> (string, int) jsmap option" where
  "clockBases plan cp [] result = Some result"
| "clockBases plan cp (nodeId # rest) result =
     (if \<not> hasNodeTimeout plan nodeId then clockBases plan cp rest result
      else case clockBase cp nodeId of
        None \<Rightarrow> None
      | Some b \<Rightarrow> clockBases plan cp rest (mset_key nodeId b result))"

definition restoredNodeClockBases :: "RunPlan \<Rightarrow> CheckpointState \<Rightarrow> (string, int) jsmap option" where
  "restoredNodeClockBases plan cp = clockBases plan cp (parkedNodes cp) []"

text \<open>The time a gate still has, when it has a deadline and an action; \<open>Some None\<close> is \<open>NaN\<close>.\<close>

definition reArmGateDeadline :: "(string \<Rightarrow> int option) \<Rightarrow> int option \<Rightarrow> CheckpointPendingGate \<Rightarrow> int option option" where
  "reArmGateDeadline parse now gate =
     (case (cg_expiresAt gate, cg_timeoutAction gate) of
        (Some expiresAt, Some _) \<Rightarrow>
          Some (case (parse expiresAt, now) of
                  (Some e, Some n) \<Rightarrow> Some (max 0 (case cg_timeoutMs gate of None \<Rightarrow> e - n | Some t \<Rightarrow> min (e - n) (int t)))
                | _ \<Rightarrow> None)
      | _ \<Rightarrow> None)"

lemma clockBases_sound:
  "clockBases plan cp nodes m = Some m' \<Longrightarrow> mget m' node = Some b \<Longrightarrow> mget m node = Some b \<or> clockBase cp node = Some b"
  by (induction plan cp nodes m rule: clockBases.induct) (auto split: if_splits option.splits)

text \<open>A restored base is the distance of a valid clock from the start of the run.\<close>

lemma restored_base_sound:
  assumes "restoredNodeClockBases plan cp = Some m" and "mget m node = Some b"
  obtains t t0 where "(node, ValidClock (Some t)) \<in> set (cp_nodeLifeClocks cp)" "cp_startedAtMs cp = Some t0" "b = t - t0" "0 \<le> b"
proof -
  have "clockBase cp node = Some b" using clockBases_sound[OF assms(1)[unfolded restoredNodeClockBases_def] assms(2)] by simp
  then obtain t t0 where "map_of (cp_nodeLifeClocks cp) node = Some (ValidClock (Some t))" "cp_startedAtMs cp = Some t0" "b = t - t0" "\<not> t < t0"
    by (auto simp: clockBase_def split: option.splits NodeLifeClock.splits if_splits)
  then show thesis using that[of t t0] map_of_SomeD by fastforce
qed

lemma reArm_bounded:
  "reArmGateDeadline parse now gate = Some (Some r) \<Longrightarrow> 0 \<le> r \<and> (\<forall>t. cg_timeoutMs gate = Some t \<longrightarrow> r \<le> int t)"
  by (auto simp: reArmGateDeadline_def split: option.splits)

section \<open>Seeding\<close>

fun vertexFrom :: "CheckpointNodeState option \<Rightarrow> VertexState" where
  "vertexFrom None = \<lparr>vs_status = Pending, vs_output = None, vs_selected = None\<rparr>"
| "vertexFrom (Some (NodeCompleted output selected)) = \<lparr>vs_status = Completed, vs_output = Some output, vs_selected = selected\<rparr>"
| "vertexFrom (Some (NodeFailed _)) = \<lparr>vs_status = Failed, vs_output = None, vs_selected = None\<rparr>"
| "vertexFrom (Some NodeSkipped) = \<lparr>vs_status = Skipped, vs_output = None, vs_selected = None\<rparr>"
| "vertexFrom (Some NodePaused) = \<lparr>vs_status = Paused, vs_output = None, vs_selected = None\<rparr>"

definition seedStates :: "RunPlan \<Rightarrow> CheckpointState \<Rightarrow> states" where
  "seedStates plan cp = map (\<lambda>v. (v, vertexFrom (mget (cp_nodeStates cp) v))) (mkeys (rp_vertices plan))"

definition seedBytes :: "RunPlan \<Rightarrow> (json \<Rightarrow> nat option) \<Rightarrow> CheckpointState \<Rightarrow> nat" where
  "seedBytes plan bytesOf cp =
     (\<Sum>v \<leftarrow> mkeys (rp_vertices plan). if mget (cp_nodeStates cp) v = None then 0
        else fst (measureNodeOutput bytesOf (vs_output (vertexFrom (mget (cp_nodeStates cp) v)))))"

definition seedGate :: "CheckpointPendingGate \<Rightarrow> PendingGate" where
  "seedGate gate = \<lparr>pg_vertex = cg_nodeId gate, pg_isBudgetGate = cg_isBudgetGate gate, pg_acknowledged = True\<rparr>"

definition seedRun :: "RunPlan \<Rightarrow> (json \<Rightarrow> nat option) \<Rightarrow> CheckpointState \<Rightarrow> RunState" where
  "seedRun plan bytesOf cp =
     (initialRun plan)\<lparr>rs_states := seedStates plan cp,
       rs_workflowStateBytes := seedBytes plan bytesOf cp,
       rs_pendingGates := fold (\<lambda>gate. mset_key (cg_gateId gate) (seedGate gate)) (cp_pendingGates cp) [],
       rs_nodeDispatches := cp_nodeDispatches cp,
       rs_resolvedGates := fold set_add (cp_resolvedGateIds cp) []\<rparr>"

definition seedLedger :: "CheckpointState \<Rightarrow> Ledger" where
  "seedLedger cp =
     restoreConservativeCost (int (cp_conservativeCostMicrocents cp)) (updateCost (int (cp_cumulativeCostMicrocents cp)) emptyLedger)"

text \<open>All that a rehydrated execution starts with: the state of the loop, the ledger, and the tallies and
  cursors beside them. The number of media handles in an output is a parameter.\<close>

record RehydratedRun =
  rh_run :: RunState
  rh_ledger :: Ledger
  rh_usageCoverage :: UsageCoverageFold
  rh_usageOrdinal :: nat
  rh_cumulativeUnpricedCalls :: nat
  rh_pinnedMediaParts :: nat
  rh_totalInputTokens :: nat
  rh_totalOutputTokens :: nat
  rh_cumulativeCostMicrocents :: nat
  rh_pauseEpisode :: bool
  rh_nextSequence :: int
  rh_lastAskedSequenceNumber :: int
  rh_startEpochMs :: "int option"

definition seedFromCheckpoint :: "RunPlan \<Rightarrow> (json \<Rightarrow> nat option) \<Rightarrow> (json option \<Rightarrow> nat) \<Rightarrow> CheckpointState \<Rightarrow> RehydratedRun" where
  "seedFromCheckpoint plan bytesOf handlesOf cp =
     (let coverage = restoreCoverage (cp_usageCoverage cp) in
      \<lparr>rh_run = seedRun plan bytesOf cp, rh_ledger = seedLedger cp, rh_usageCoverage = coverage, rh_usageOrdinal = uf_highWater coverage,
       rh_cumulativeUnpricedCalls = cp_cumulativeUnpricedCalls cp,
       rh_pinnedMediaParts = (\<Sum>v \<leftarrow> mkeys (rp_vertices plan). if mget (cp_nodeStates cp) v = None then 0
         else handlesOf (vs_output (vertexFrom (mget (cp_nodeStates cp) v)))),
       rh_totalInputTokens = cp_totalInputTokens cp, rh_totalOutputTokens = cp_totalOutputTokens cp,
       rh_cumulativeCostMicrocents = cp_cumulativeCostMicrocents cp,
       rh_pauseEpisode = (cp_pendingMediaJobs cp \<noteq> [] \<and> cp_runStatus cp = RunIsPaused),
       rh_nextSequence = cp_lastSequenceNumber cp + 1, rh_lastAskedSequenceNumber = cp_lastSequenceNumber cp,
       rh_startEpochMs = cp_startedAtMs cp\<rparr>)"

section \<open>Activation\<close>

definition restoreParkedMediaJob :: "(MediaJobSubmittedEvent \<Rightarrow> EstimateResult) \<Rightarrow> MediaJobSubmittedEvent \<Rightarrow> Governor \<Rightarrow> Governor" where
  "restoreParkedMediaJob reprice job gv =
     (case mj_acceptedCostMicrocents job of
        None \<Rightarrow> registerLegacyMediaJob (mj_nodeId job) (onLedger (\<lambda>ld. snd (reserveCommittedEgress (mj_model job) (reprice job) ld)) gv)
      | Some accepted \<Rightarrow> onLedger (\<lambda>ld. snd (reserveAcceptedCost (mj_model job) (int accepted) ld)) gv)"

definition activateGovernor :: "(MediaJobSubmittedEvent \<Rightarrow> EstimateResult) \<Rightarrow> CheckpointState \<Rightarrow> Governor" where
  "activateGovernor reprice cp = fold (restoreParkedMediaJob reprice) (cp_pendingMediaJobs cp) (emptyGovernor\<lparr>gv_ledger := seedLedger cp\<rparr>)"

definition recordedRejection :: NodeFailure where
  "recordedRejection = fatal ErrorCode.BudgetExceeded (Reported ''the recorded budget gate was rejected'')"

definition activateCheckpoint :: "CheckpointState \<Rightarrow> RunState \<Rightarrow> RunState" where
  "activateCheckpoint cp st =
     (let st1 = (case cp_budgetRejections cp of [] \<Rightarrow> st | (node, _) # _ \<Rightarrow> recordFailure (Some node) recordedRejection st)
      in st1\<lparr>rs_pendingMediaJobs := fold set_add (map mj_nodeId (cp_pendingMediaJobs cp)) (rs_pendingMediaJobs st1)\<rparr>)"

section \<open>What a resumed run starts from\<close>

lemma statusOf_seedStates:
  "statusOf (seedStates plan cp) v = (if v \<in> set (mkeys (rp_vertices plan)) then Some (vs_status (vertexFrom (mget (cp_nodeStates cp) v))) else None)"
proof -
  have "mget (map (\<lambda>v. (v, f v)) vs) v = (if v \<in> set vs then Some (f v) else None)" for vs and f :: "string \<Rightarrow> VertexState"
    by (induction vs) (auto simp: mget_def)
  then show ?thesis by (simp add: statusOf_def seedStates_def)
qed

lemma activate_fields [simp]:
  "rs_states (activateCheckpoint cp st) = rs_states st" "rs_pendingGates (activateCheckpoint cp st) = rs_pendingGates st"
  "rs_nodeDispatches (activateCheckpoint cp st) = rs_nodeDispatches st" "rs_resolvedGates (activateCheckpoint cp st) = rs_resolvedGates st"
  by (auto simp: activateCheckpoint_def recordFailure_def Let_def split: list.split prod.split)

lemma media_activated: "set (rs_pendingMediaJobs (activateCheckpoint cp (seedRun plan b cp))) = mj_nodeId ` set (cp_pendingMediaJobs cp)"
  by (auto simp: activateCheckpoint_def seedRun_def initialRun_def recordFailure_def Let_def set_fold_set_add split: list.splits prod.splits)

lemma mget_fold_gates:
  "g \<notin> cg_gateId ` set gates \<Longrightarrow> mget (fold (\<lambda>gate. mset_key (cg_gateId gate) (seedGate gate)) gates m) g = mget m g"
  by (induction gates arbitrary: m) auto

lemma settled_vertexFrom: "SETTLED (vs_status (vertexFrom x)) \<longleftrightarrow> settledState x" "vs_status (vertexFrom x) = Paused \<longleftrightarrow> x = Some NodePaused"
  "vs_status (vertexFrom x) \<noteq> Running" "vs_status (vertexFrom x) = Pending \<longleftrightarrow> x = None"
  by (cases x rule: vertexFrom.cases; simp add: settledState_def)+

lemma checkpoint_gates_distinct:
  assumes "reconstructCheckpointState evs = Inr (Some cp)" and "logOf run evs"
  shows "distinct (map cg_gateId (cp_pendingGates cp))"
proof -
  obtain acc ts where ok: "nodes_ok run acc" and f: "finishCheckpoint acc = Some cp" using reconstructed[OF assms] .
  have "cp_pendingGates cp = map checkpointGate (pendingGates (ra_suspensions acc) run)"
    using f ok by (auto simp: finishCheckpoint_def nodes_ok_def split: if_splits)
  moreover have "distinct (map pg_gateId (pendingGates (ra_suspensions acc) run))"
    unfolding pendingGates_ids using ok gateIds_distinct by (auto simp: nodes_ok_def)
  ultimately show ?thesis by (simp add: comp_def checkpointGate_def)
qed

lemma gates_seeded:
  assumes "distinct (map cg_gateId (cp_pendingGates cp))" and "gate \<in> set (cp_pendingGates cp)"
  shows "mget (rs_pendingGates (seedRun plan b cp)) (cg_gateId gate) = Some (seedGate gate)"
proof -
  obtain xs ys where gs: "cp_pendingGates cp = xs @ gate # ys" using split_list[OF assms(2)] by blast
  then have "cg_gateId gate \<notin> cg_gateId ` set ys" using assms(1) by auto
  then show ?thesis by (simp add: seedRun_def gs mget_fold_gates)
qed

section \<open>Results\<close>

text \<open>C37: a run resumed from its log. Every vertex that ended in the log or whose budget was rejected starts
  settled, so it is never dispatched again; none starts running; every vertex that starts paused has a pending
  gate or a parked media job; a vertex is pending exactly when the checkpoint says nothing of it; the gates
  decided in the log are resolved; the dispatches already made count against the limit of the run; and the
  numbers of new events follow those of a stored log.\<close>

theorem resumed_run:
  assumes log: "reconstructCheckpointState evs = Inr (Some cp)" "logOf run evs"
    and rh: "rh = seedFromCheckpoint plan bytesOf handlesOf cp" and st: "st = activateCheckpoint cp (rh_run rh)" and v: "v \<in> set (mkeys (rp_vertices plan))"
  shows "((\<exists>ev \<in> set evs. terminalNode (ev_body ev) = Some v) \<or> v \<in> fst ` set (cp_budgetRejections cp) \<longrightarrow> settledStatus st v) \<and>
    vstatus st v \<noteq> Some Running \<and> (vstatus st v = Some Pending \<longleftrightarrow> mget (cp_nodeStates cp) v = None) \<and>
    (vstatus st v = Some Paused \<longrightarrow> (\<exists>g gate. mget (rs_pendingGates st) g = Some gate \<and> pg_vertex gate = v) \<or> v \<in> set (rs_pendingMediaJobs st)) \<and>
    set (rs_resolvedGates st) = set (cp_resolvedGateIds cp) \<and> rs_nodeDispatches st = (\<Sum>ev\<leftarrow>evs. startOf (ev_body ev)) \<and>
    ((\<forall>ev \<in> set evs. \<not> streamedTotal (ev_body ev)) \<longrightarrow> rh_nextSequence rh = Max (insert (-1) (ev_sequenceNumber ` set evs)) + 1)"
proof -
  have st: "st = activateCheckpoint cp (seedRun plan bytesOf cp)" by (simp add: st rh seedFromCheckpoint_def Let_def)
  have sq: "rh_nextSequence rh = cp_lastSequenceNumber cp + 1" by (simp add: rh seedFromCheckpoint_def Let_def)
  have vs: "vstatus st v = Some (vs_status (vertexFrom (mget (cp_nodeStates cp) v)))"
    using v by (simp add: st seedRun_def statusOf_seedStates)
  have gate: "\<exists>g gt. mget (rs_pendingGates st) g = Some gt \<and> pg_vertex gt = v" if n: "v \<in> cg_nodeId ` set (cp_pendingGates cp)"
  proof -
    obtain gate where "gate \<in> set (cp_pendingGates cp)" "cg_nodeId gate = v" using n by blast
    then have "mget (rs_pendingGates st) (cg_gateId gate) = Some (seedGate gate)" "pg_vertex (seedGate gate) = v"
      using gates_seeded[OF checkpoint_gates_distinct[OF log]] by (simp_all add: st seedGate_def)
    then show ?thesis by blast
  qed
  have "rs_nodeDispatches st = cp_nodeDispatches cp" "set (rs_resolvedGates st) = set (cp_resolvedGateIds cp)"
    by (simp_all add: st seedRun_def set_fold_set_add)
  then show ?thesis
    using nodes_of_log[OF log, of v] money_of_log[OF log(1)] gate media_activated[of cp plan bytesOf] vs settled_vertexFrom[of "mget (cp_nodeStates cp) v"]
    by (auto simp: settledStatus_def st sq)
qed

section \<open>Money across a crash\<close>

definition committedIn :: "LogEvent list \<Rightarrow> int list" where
  "committedIn evs = map (\<lambda>ev. int (estimateOf (ev_body ev))) (filter (\<lambda>ev. \<exists>n. ev_body ev = EvEstimateCommitted n) evs)"

lemma sum_committedIn: "sum_list (committedIn evs) = int (\<Sum>ev\<leftarrow>evs. estimateOf (ev_body ev))"
proof (induction evs)
  case (Cons ev evs)
  then show ?case by (cases "ev_body ev") (simp_all add: committedIn_def)
qed (simp add: committedIn_def)

lemma restored_jobs:
  "ld_conservative (gv_ledger (fold (restoreParkedMediaJob reprice) jobs gv)) = ld_conservative (gv_ledger gv)"
  "ld_cumulative (gv_ledger (fold (restoreParkedMediaJob reprice) jobs gv)) = ld_cumulative (gv_ledger gv)"
proof -
  have "ld_conservative (snd (admit m e None ld)) = ld_conservative ld \<and> ld_cumulative (snd (admit m e None ld)) = ld_cumulative ld" for m e ld
    by (simp add: admit_def Let_def split: option.split)
  then have "ld_conservative (gv_ledger (restoreParkedMediaJob reprice job gv)) = ld_conservative (gv_ledger gv) \<and>
      ld_cumulative (gv_ledger (restoreParkedMediaJob reprice job gv)) = ld_cumulative (gv_ledger gv)" for job gv
    by (simp add: restoreParkedMediaJob_def onLedger_def registerLegacyMediaJob_def reserveAcceptedCost_def reserveCommittedEgress_def
        split: option.split EstimateResult.split)
  then show "ld_conservative (gv_ledger (fold (restoreParkedMediaJob reprice) jobs gv)) = ld_conservative (gv_ledger gv)"
    "ld_cumulative (gv_ledger (fold (restoreParkedMediaJob reprice) jobs gv)) = ld_cumulative (gv_ledger gv)"
    by (induction jobs arbitrary: gv) simp_all
qed

lemma restored_reservations:
  assumes "\<forall>job \<in> set jobs. \<exists>a. mj_acceptedCostMicrocents job = Some a \<and> 0 < a" and "0 \<le> ld_reserved (gv_ledger gv)"
    and "isSafeInteger (ld_reserved (gv_ledger gv) + (\<Sum>job\<leftarrow>jobs. int (the (mj_acceptedCostMicrocents job))))"
  shows "ld_reserved (gv_ledger (fold (restoreParkedMediaJob reprice) jobs gv)) =
    ld_reserved (gv_ledger gv) + (\<Sum>job\<leftarrow>jobs. int (the (mj_acceptedCostMicrocents job)))"
  using assms
proof (induction jobs arbitrary: gv)
  case (Cons job jobs)
  obtain a where a: "mj_acceptedCostMicrocents job = Some a" "0 < a" using Cons.prems(1) by auto
  have nn: "0 \<le> (\<Sum>job\<leftarrow>jobs. int (the (mj_acceptedCostMicrocents job)))" by (induction jobs) simp_all
  then have safe: "isSafeInteger (int a)" "isSafeInteger (ld_reserved (gv_ledger gv) + int a)"
    using Cons.prems(2,3) a by (simp_all add: isSafeInteger_def MAX_SAFE_INTEGER_def)
  let ?gv = "restoreParkedMediaJob reprice job gv"
  have r: "ld_reserved (gv_ledger ?gv) = ld_reserved (gv_ledger gv) + int a"
    using a safe by (simp add: restoreParkedMediaJob_def onLedger_def reserveAcceptedCost_def admit_def Let_def)
  then show ?case using Cons.IH[of ?gv] Cons.prems a by (simp add: add.assoc)
qed simp

text \<open>C38: money across a crash. When the log holds exactly the commitments the governor of the first process
  made, the governor of the process that resumes the run starts with the same conservative total; its realized
  cost is the largest total the log records; and what it has reserved is the accepted cost of the parked media
  jobs, so a crash gives no capacity back.\<close>

theorem crash_keeps_money:
  assumes first: "run_from (govStep b) gevs emptyGovernor = Some gv" "\<forall>ev \<in> set gevs. \<not> resets ev"
    and log: "reconstructCheckpointState evs = Inr (Some cp)" "mset (committedIn evs) = mset (map cm_estimateMicrocents (ld_commitments (gv_ledger gv)))"
    and safe: "isSafeInteger (ld_conservative (gv_ledger gv))"
  shows "ld_conservative (gv_ledger (activateGovernor reprice cp)) = ld_conservative (gv_ledger gv) \<and>
    ((\<forall>ev \<in> set evs. \<not> streamedTotal (ev_body ev)) \<and> isSafeInteger (int (Max (insert 0 (durable evs)))) \<longrightarrow>
      ld_cumulative (gv_ledger (activateGovernor reprice cp)) = int (Max (insert 0 (durable evs)))) \<and>
    ((\<forall>job \<in> set (cp_pendingMediaJobs cp). \<exists>a. mj_acceptedCostMicrocents job = Some a \<and> 0 < a) \<and>
      isSafeInteger (\<Sum>job\<leftarrow>cp_pendingMediaJobs cp. int (the (mj_acceptedCostMicrocents job))) \<longrightarrow>
      ld_reserved (gv_ledger (activateGovernor reprice cp)) = (\<Sum>job\<leftarrow>cp_pendingMediaJobs cp. int (the (mj_acceptedCostMicrocents job))))"
proof -
  have "onLedger (restoreConservativeCost 0) emptyGovernor = emptyGovernor" by (simp add: onLedger_def restoreConservativeCost_def emptyGovernor_def)
  then have "accountable 0 emptyGovernor" using restored_accountable[of 0] by simp
  then have "accountable 0 gv" using run_accountable[OF _ first(2,1)] by blast
  then have cons: "ld_conservative (gv_ledger gv) = sum_list (map cm_estimateMicrocents (ld_commitments (gv_ledger gv)))"
    by (simp add: accountable_def accounts_def committed_def)
  also have "\<dots> = sum_list (committedIn evs)" using log(2) by (metis sum_mset_sum_list)
  also have "\<dots> = int (cp_conservativeCostMicrocents cp)" using money_of_log[OF log(1)] by (simp add: sum_committedIn)
  finally have c: "ld_conservative (gv_ledger gv) = int (cp_conservativeCostMicrocents cp)" .
  have "ld_conservative (seedLedger cp) = ld_conservative (gv_ledger gv)" "ld_reserved (seedLedger cp) = 0"
    using safe by (simp_all add: c seedLedger_def restoreConservativeCost_def updateCost_def emptyLedger_def)
  moreover have "ld_cumulative (seedLedger cp) = int (Max (insert 0 (durable evs)))"
    if "\<forall>ev \<in> set evs. \<not> streamedTotal (ev_body ev)" "isSafeInteger (int (Max (insert 0 (durable evs))))"
    using that money_of_log[OF log(1)] by (simp add: seedLedger_def restoreConservativeCost_def updateCost_def emptyLedger_def)
  ultimately show ?thesis
    using restored_reservations[of "cp_pendingMediaJobs cp" "emptyGovernor\<lparr>gv_ledger := seedLedger cp\<rparr>" reprice]
    by (simp add: activateGovernor_def restored_jobs)
qed

definition crashLog :: "LogEvent list" where
  "crashLog = map (logEntry ''r'')
     [EvRunStarted ''w'' (JObj []) ''local'', EvNodeStarted ''c1'' False None, EvNodeCompleted ''c1'' JNull 10 5 (Some 7) (Some [''a'']),
      EvEstimateCommitted 30, EvEstimateCommitted 70, EvNodeStarted ''c2'' False None,
      EvMediaJobSubmitted \<lparr>mj_nodeId = ''c2'', mj_jobId = ''j'', mj_provider = ''p'', mj_model = ''v'', mj_modality = ''video'',
        mj_startedAt = ''t0'', mj_deadlineAt = ''t1'', mj_units = None, mj_acceptedCostMicrocents = Some 40\<rparr>]"

definition crashCheckpoint :: CheckpointState where
  "crashCheckpoint = (case reconstructCheckpointState crashLog of Inr (Some cp) \<Rightarrow> cp | _ \<Rightarrow> sampleCheckpoint)"

lemma crashLog_reconstructed: "reconstructCheckpointState crashLog = Inr (Some crashCheckpoint)"
proof -
  have "case reconstructCheckpointState crashLog of Inr (Some _) \<Rightarrow> True | _ \<Rightarrow> False" by code_simp
  then show ?thesis by (simp add: crashCheckpoint_def split: sum.splits option.splits)
qed

definition crashedRun :: RunState where
  "crashedRun = activateCheckpoint crashCheckpoint (rh_run (seedFromCheckpoint racePlan oneByte (\<lambda>_. 0) crashCheckpoint))"

theorem resumed_run_witness:
  "settledStatus crashedRun ''c1'' \<and> vstatus crashedRun ''c2'' = Some Paused \<and> ''c2'' \<in> set (rs_pendingMediaJobs crashedRun)"
proof -
  let ?st = crashedRun
  have l: "logOf ''r'' crashLog" by (auto simp: logOf_def crashLog_def logEntry_def)
  have "\<exists>ev \<in> set crashLog. terminalNode (ev_body ev) = Some ''c1''" by (simp add: crashLog_def logEntry_def)
  moreover have "''c1'' \<in> set (mkeys (rp_vertices racePlan))" "''c2'' \<in> set (mkeys (rp_vertices racePlan))" by code_simp+
  moreover have "vstatus ?st ''c2'' = Some Paused" "rs_pendingGates ?st = []" by code_simp+
  ultimately show ?thesis
    using resumed_run[OF crashLog_reconstructed l refl crashedRun_def, of "''c1''"] resumed_run[OF crashLog_reconstructed l refl crashedRun_def, of "''c2''"]
    by auto
qed

theorem crash_keeps_money_witness:
  "\<exists>gv. run_from (govStep someCap) commitTwice emptyGovernor = Some gv \<and>
     ld_conservative (gv_ledger (activateGovernor (\<lambda>_. PricedAt 0 []) crashCheckpoint)) = ld_conservative (gv_ledger gv) \<and>
     ld_conservative (gv_ledger gv) = 100"
proof -
  let ?r = "run_from (govStep someCap) commitTwice emptyGovernor"
  have e: "?r \<noteq> None \<and> map cm_estimateMicrocents (ld_commitments (gv_ledger (the ?r))) = [30, 70] \<and> ld_conservative (gv_ledger (the ?r)) = 100"
    by code_simp
  then obtain gv where r: "?r = Some gv" by blast
  have n: "\<forall>ev \<in> set commitTwice. \<not> resets ev" by (simp add: commitTwice_def)
  have "mset (committedIn crashLog) = mset (map cm_estimateMicrocents (ld_commitments (gv_ledger gv)))" "isSafeInteger (ld_conservative (gv_ledger gv))"
    using e r by (simp_all add: committedIn_def crashLog_def logEntry_def isSafeInteger_def MAX_SAFE_INTEGER_def)
  from crash_keeps_money[OF r n crashLog_reconstructed this] show ?thesis using e r by simp
qed

section \<open>A failure that a resume forgets\<close>

text \<open>An agent-free plan of one transform beside one human gate. The transform fails while the gate is open,
  and the process ends before it records the end of the run.\<close>

definition besideGate :: RunPlan where
  "besideGate =
     \<lparr>rp_workflowId = ''sample'', rp_order = [''a'', ''g''],
      rp_vertices = [transformVertex ''a'' [] [] [],
        (''g'', \<lparr>pv_id = ''g'', pv_type = EHumanInTheLoop, pv_dependencies = [], pv_dependents = [], pv_ancestors = [], pv_inputSites = [],
          pv_config = HumanGateConfig \<lparr>hg_id = ''g'', hg_gate_type = Approval, hg_assignee = None, hg_message_template = None,
            hg_timeout_ms = None, hg_timeout_action = None\<rparr>\<rparr>)],
      rp_maxParallel = None, rp_budget = None, rp_timeoutMs = None\<rparr>"

definition boom :: NodeFailure where
  "boom = fatal SandboxError (Reported ''boom'')"

definition beforeCrash :: "RunEvent list" where
  "beforeCrash = [Tick False, Decide, StartNext, EnterDispatch, StartNext, EnterDispatch,
     AttemptSettles ''g'' (OutPaused ''g1'' False), PauseSettles, AttemptSettles ''a'' (OutFailed boom)]"

definition failedLog :: "LogEvent list" where
  "failedLog = map (logEntry ''r'')
     [EvRunStarted ''w'' (JObj []) ''local'', EvNodeStarted ''a'' False None, EvNodeStarted ''g'' False None,
      EvHumanGatePaused ''g'' ''g1'' noDeadline None,
      EvNodeFailed ''a'' \<lparr>er_code = SandboxError, er_message = ''boom'', er_retryable = False\<rparr> None]"

definition afterResume :: "RunEvent list" where
  "afterResume = [GateDecided ''g1'' Approved, GateApplies ''g1'' JNull, Tick False, Decide]"

text \<open>C39: a resume forgets a failed node. A run of which one node has failed is bound to fail: it has a recorded
  failure. When the process ends before the terminal event is written and the run is resumed by its open
  gate, the failure is not restored from the log, only a rejected budget is; the run goes on and is reported as
  completed, with the node still failed.\<close>

theorem resume_forgets_failure:
  "\<exists>st cp st'. run_events besideGate oneByte beforeCrash (initialRun besideGate) = Some st \<and> reachable besideGate oneByte st \<and>
     vstatus st ''a'' = Some Failed \<and> rs_failure st = Some (Some ''a'', boom) \<and> rs_settled st = None \<and>
     reconstructCheckpointState failedLog = Inr (Some cp) \<and>
     run_events besideGate oneByte afterResume (activateCheckpoint cp (rh_run (seedFromCheckpoint besideGate oneByte (\<lambda>_. 0) cp))) = Some st' \<and>
     rs_settled st' = Some RunCompleted \<and> vstatus st' ''a'' = Some Failed"
proof -
  let ?s = "run_events besideGate oneByte beforeCrash (initialRun besideGate)"
  let ?c = "reconstructCheckpointState failedLog"
  let ?cp = "case ?c of Inr (Some cp) \<Rightarrow> cp | _ \<Rightarrow> sampleCheckpoint"
  let ?t = "run_events besideGate oneByte afterResume (activateCheckpoint ?cp (rh_run (seedFromCheckpoint besideGate oneByte (\<lambda>_. 0) ?cp)))"
  have s: "?s \<noteq> None \<and> vstatus (the ?s) ''a'' = Some Failed \<and> rs_failure (the ?s) = Some (Some ''a'', boom) \<and> rs_settled (the ?s) = None"
    by code_simp
  have t: "?t \<noteq> None \<and> rs_settled (the ?t) = Some RunCompleted \<and> vstatus (the ?t) ''a'' = Some Failed" by code_simp
  have "case ?c of Inr (Some _) \<Rightarrow> True | _ \<Rightarrow> False" by code_simp
  then have c: "?c = Inr (Some ?cp)" by (simp split: sum.splits option.splits)
  obtain st st' where "?s = Some st" "?t = Some st'" using s t by blast
  moreover from this have "reachable besideGate oneByte st" using reachable_run_events[OF reach_init] by blast
  ultimately show ?thesis using s t c by (intro exI[of _ st] exI[of _ ?cp] exI[of _ st']) simp
qed

end
