(* ===== verification/Llm_Stream.thy ===== *)
theory Llm_Stream
  imports Run_Suspension
begin

text \<open>
  The provider seam of \<open>packages/llm\<close>: usage evidence (\<open>shared/src/usage-evidence.ts\<close>), the
  classified errors (\<open>llm-error.ts\<close>), the chunks a provider streams (\<open>types.ts\<close>) and the grammar
  check every provider stream passes through (\<open>stream-grammar.ts\<close>).

  A provider stream is what a reader that drains it sees: the chunks it delivers, and how the read after
  the last one ends. It ends the stream, it throws, or it has not settled when the deadline of the attempt
  fires. A thrown value is one of the classes the chain tells apart. The fixed diagnostic texts are the
  constructors of \<open>LlmText\<close>; the fields \<open>code\<close>, \<open>status\<close> and \<open>cause\<close> of an error, which no decision
  reads, are left out.
\<close>

section \<open>Usage evidence\<close>

datatype MediaBilledModality = ImageUnits | AudioUnits | VideoUnits

datatype MediaDirection = InputMedia | OutputMedia

datatype MediaUnit = PerCount | PerSecond

record MediaUnitsEntry =
  mu_modality :: MediaBilledModality
  mu_direction :: MediaDirection
  mu_units :: int
  mu_unit :: MediaUnit

record Usage =
  us_inputTokens :: int
  us_outputTokens :: int
  us_cacheReadTokens :: "int option"
  us_cacheWriteTokens :: "int option"
  us_reasoningTokens :: "int option"
  us_mediaUnits :: "MediaUnitsEntry list option"
  us_costMicrocents :: "int option"

record KnownUsageQuantities =
  kq_inputTokens :: "int option"
  kq_outputTokens :: "int option"
  kq_cacheReadTokens :: "int option"
  kq_cacheWriteTokens :: "int option"
  kq_reasoningTokens :: "int option"
  kq_mediaUnits :: "MediaUnitsEntry list option"

datatype UsageEvidenceReason =
  NotReported | MissingFields | InvalidFields | ContradictoryFields | InterruptedRead

datatype UsageEvidence =
  CompleteEvidence Usage
| PartialEvidence KnownUsageQuantities UsageEvidenceReason
| MissingEvidence UsageEvidenceReason

definition safeCount :: "int \<Rightarrow> bool" where
  "safeCount n = (0 \<le> n \<and> n \<le> MAX_SAFE_INTEGER)"

definition safeOptional :: "int option \<Rightarrow> bool" where
  "safeOptional q = (case q of None \<Rightarrow> True | Some n \<Rightarrow> safeCount n)"

definition boundedMedia :: "MediaUnitsEntry list option \<Rightarrow> bool" where
  "boundedMedia q =
     (case q of
        None \<Rightarrow> True
      | Some es \<Rightarrow> list_all (\<lambda>e. safeCount (mu_units e)) es \<and> length es \<le> 6 \<and>
          distinct (map (\<lambda>e. (mu_modality e, mu_direction e)) es))"

definition reasoningIsSubset :: "int option \<Rightarrow> int option \<Rightarrow> bool" where
  "reasoningIsSubset outputTokens reasoningTokens =
     (case (reasoningTokens, outputTokens) of (Some r, Some n) \<Rightarrow> r \<le> n | _ \<Rightarrow> True)"

definition completeEvidenceUsage :: "Usage \<Rightarrow> bool" where
  "completeEvidenceUsage u =
     (safeCount (us_inputTokens u) \<and> safeCount (us_outputTokens u) \<and> safeOptional (us_cacheReadTokens u) \<and>
      safeOptional (us_cacheWriteTokens u) \<and> safeOptional (us_reasoningTokens u) \<and>
      boundedMedia (us_mediaUnits u) \<and> safeOptional (us_costMicrocents u) \<and>
      reasoningIsSubset (Some (us_outputTokens u)) (us_reasoningTokens u))"

definition knownQuantitiesValid :: "KnownUsageQuantities \<Rightarrow> bool" where
  "knownQuantitiesValid k =
     (safeOptional (kq_inputTokens k) \<and> safeOptional (kq_outputTokens k) \<and>
      safeOptional (kq_cacheReadTokens k) \<and> safeOptional (kq_cacheWriteTokens k) \<and>
      safeOptional (kq_reasoningTokens k) \<and> boundedMedia (kq_mediaUnits k) \<and>
      (list_ex (\<lambda>q. q \<noteq> None)
         [kq_inputTokens k, kq_outputTokens k, kq_cacheReadTokens k, kq_cacheWriteTokens k,
          kq_reasoningTokens k] \<or>
       (case kq_mediaUnits k of None \<Rightarrow> False | Some es \<Rightarrow> es \<noteq> [])) \<and>
      reasoningIsSubset (kq_outputTokens k) (kq_reasoningTokens k))"

text \<open>\<open>ownUsageEvidence\<close> takes a value over or throws \<open>InvalidUsageEvidenceError\<close> (\<open>None\<close>).\<close>

definition ownUsageEvidence :: "UsageEvidence \<Rightarrow> UsageEvidence option" where
  "ownUsageEvidence e =
     (case e of
        CompleteEvidence u \<Rightarrow> if completeEvidenceUsage u then Some e else None
      | PartialEvidence k r \<Rightarrow> if knownQuantitiesValid k then Some e else None
      | MissingEvidence r \<Rightarrow> Some e)"

lemma ownUsageEvidence_same: "ownUsageEvidence e = Some e' \<Longrightarrow> e' = e"
  by (auto simp: ownUsageEvidence_def split: UsageEvidence.splits if_splits)

lemma ownUsageEvidence_idem: "ownUsageEvidence e = Some e' \<Longrightarrow> ownUsageEvidence e' = Some e'"
  using ownUsageEvidence_same by blast

section \<open>Classified errors\<close>

datatype ProviderId = Anthropic | Openai | Gemini | Deepseek

datatype LlmErrorKind =
  RateLimit | Overloaded | TimeoutKind | Transport | Protocol | AuthKind | BadRequest | ContextOverflow
| ContentFilter | CancelledKind | UnknownKind

datatype LlmText =
  SecondTerminal | ChunkAfterTerminal | TruncatedAfterContent | NoChunkAtAll
| RequestAborted | DeadlinePassed | CredentialFailed | UnknownFailure | CapRefused
| MediaNotMaterialized | CleanupFailed
| AccountingFailedAfterFailure | AccountingFailedAfterStream | AccountingFailedAfterGenerate
| AccountingFailedAfterReceipt | ResultAccessFailed
| ChainExhausted "string list"
| ProviderText string

record LlmError =
  le_kind :: LlmErrorKind
  le_retryable :: bool
  le_provider :: ProviderId
  le_message :: LlmText
  le_retryAfterMs :: "nat option"
  le_contentCommitted :: bool
  le_usage :: "UsageEvidence option"

definition RETRYABLE_KINDS :: "LlmErrorKind list" where
  "RETRYABLE_KINDS = [RateLimit, Overloaded, TimeoutKind, Transport]"

definition isRetryable :: "LlmErrorKind \<Rightarrow> bool" where
  "isRetryable k = (k \<in> set RETRYABLE_KINDS)"

definition makeLlmError :: "ProviderId \<Rightarrow> LlmErrorKind \<Rightarrow> LlmText \<Rightarrow> LlmError" where
  "makeLlmError p k m =
     \<lparr>le_kind = k, le_retryable = isRetryable k, le_provider = p, le_message = m, le_retryAfterMs = None,
      le_contentCommitted = False, le_usage = None\<rparr>"

text \<open>\<open>snapshotLlmError\<close>: an error whose usage is not valid evidence is refused.\<close>

definition snapshotLlmError :: "LlmError \<Rightarrow> LlmError option" where
  "snapshotLlmError e =
     (case le_usage e of
        None \<Rightarrow> Some e
      | Some u \<Rightarrow> map_option (\<lambda>u'. e\<lparr>le_usage := Some u'\<rparr>) (ownUsageEvidence u))"

lemma snapshotLlmError_same: "snapshotLlmError e = Some e' \<Longrightarrow> e' = e"
  by (auto simp: snapshotLlmError_def dest!: ownUsageEvidence_same split: option.splits)

section \<open>Chunks\<close>

datatype StopReason = StopEnd | StopLength | StopToolUse | StopContentFilter | StopError

datatype StreamChunk =
  TextDelta string
| ToolCallStart string string
| ToolCallDelta string string
| ToolCallEnd string "string option"
| ReasoningStart string
| ReasoningDelta string string
| ReasoningEnd string "string option" "bool option"
| MediaStart string string
| MediaDelta string "rat option" "string option"
| MediaEnd string string
| ToolResultChunk string string json "bool option" "string list option"
| StopChunk StopReason UsageEvidence
| ErrorChunk LlmError

fun isTerminal :: "StreamChunk \<Rightarrow> bool" where
  "isTerminal (StopChunk r u) = True"
| "isTerminal (ErrorChunk e) = True"
| "isTerminal c = False"

datatype DeadlineCause = ByCaller | ByTimer

datatype Thrown = ThrownLlm LlmError | ThrownCap | ThrownOther

datatype SourceEnd = SourceEof | SourceThrows Thrown | SourceDeadline DeadlineCause

section \<open>The grammar check\<close>

definition violation :: "ProviderId \<Rightarrow> LlmText \<Rightarrow> LlmError" where
  "violation p m = makeLlmError p Protocol m"

definition truncated :: "ProviderId \<Rightarrow> LlmText \<Rightarrow> LlmError" where
  "truncated p m = makeLlmError p Transport m"

text \<open>The owned copy of a terminal chunk, and the usage it carries.\<close>

definition ownTerminal :: "StreamChunk \<Rightarrow> StreamChunk option" where
  "ownTerminal c =
     (case c of
        StopChunk r u \<Rightarrow> map_option (StopChunk r) (ownUsageEvidence u)
      | ErrorChunk e \<Rightarrow> map_option ErrorChunk (snapshotLlmError e)
      | _ \<Rightarrow> None)"

definition terminalUsage :: "StreamChunk \<Rightarrow> UsageEvidence option" where
  "terminalUsage c = (case c of StopChunk r u \<Rightarrow> Some u | ErrorChunk e \<Rightarrow> le_usage e | _ \<Rightarrow> None)"

definition tailViolation :: "ProviderId \<Rightarrow> StreamChunk \<Rightarrow> StreamChunk \<Rightarrow> StreamChunk" where
  "tailViolation p held chunk =
     ErrorChunk ((violation p (if isTerminal chunk then SecondTerminal else ChunkAfterTerminal))
       \<lparr>le_usage := terminalUsage held\<rparr>)"

text \<open>
  What the checked stream yields, how it ends, and the usage it reported through \<open>onTerminalUsage\<close>.
\<close>

record VerifiedStream =
  vs_yields :: "StreamChunk list"
  vs_end :: SourceEnd
  vs_usage :: "UsageEvidence option"

text \<open>
  The body of the generator: the terminal is held until one more read confirms it. A read that throws while
  a terminal is held confirms it too; without one the throw passes on.
\<close>

fun walk :: "ProviderId \<Rightarrow> StreamChunk option \<Rightarrow> bool \<Rightarrow> StreamChunk list \<Rightarrow> SourceEnd \<Rightarrow> VerifiedStream"
where
  "walk p (Some held) saw (chunk # rest) e =
     \<lparr>vs_yields = [tailViolation p held chunk], vs_end = SourceEof, vs_usage = terminalUsage held\<rparr>"
| "walk p None saw (chunk # rest) e =
     (if isTerminal chunk then
        (case ownTerminal chunk of
           None \<Rightarrow> \<lparr>vs_yields = [], vs_end = SourceThrows ThrownOther, vs_usage = None\<rparr>
         | Some held \<Rightarrow> walk p (Some held) True rest e)
      else (let v = walk p None True rest e in v\<lparr>vs_yields := chunk # vs_yields v\<rparr>))"
| "walk p (Some held) saw [] e =
     (case e of
        SourceDeadline d \<Rightarrow> \<lparr>vs_yields = [], vs_end = e, vs_usage = terminalUsage held\<rparr>
      | _ \<Rightarrow> \<lparr>vs_yields = [held], vs_end = SourceEof, vs_usage = terminalUsage held\<rparr>)"
| "walk p None saw [] e =
     (case e of
        SourceEof \<Rightarrow>
          \<lparr>vs_yields = [ErrorChunk (truncated p (if saw then TruncatedAfterContent else NoChunkAtAll))],
           vs_end = SourceEof, vs_usage = None\<rparr>
      | _ \<Rightarrow> \<lparr>vs_yields = [], vs_end = e, vs_usage = None\<rparr>)"

definition verifyStreamGrammar :: "ProviderId \<Rightarrow> StreamChunk list \<Rightarrow> SourceEnd \<Rightarrow> VerifiedStream" where
  "verifyStreamGrammar p chunks e = walk p None False chunks e"

section \<open>The table of observations\<close>

text \<open>
  The classification as a table over what the whole source delivered: the chunks before its first
  terminal, the terminal and what follows it.
\<close>

definition grammarTable :: "ProviderId \<Rightarrow> bool \<Rightarrow> StreamChunk list \<Rightarrow> SourceEnd \<Rightarrow> VerifiedStream" where
  "grammarTable p saw chunks e =
     (let content = takeWhile (\<lambda>c. \<not> isTerminal c) chunks
      in case dropWhile (\<lambda>c. \<not> isTerminal c) chunks of
           [] \<Rightarrow>
             (case e of
                SourceEof \<Rightarrow>
                  \<lparr>vs_yields = content @ [ErrorChunk (truncated p
                     (if saw \<or> content \<noteq> [] then TruncatedAfterContent else NoChunkAtAll))],
                   vs_end = SourceEof, vs_usage = None\<rparr>
              | _ \<Rightarrow> \<lparr>vs_yields = content, vs_end = e, vs_usage = None\<rparr>)
         | t # after \<Rightarrow>
             (case ownTerminal t of
                None \<Rightarrow> \<lparr>vs_yields = content, vs_end = SourceThrows ThrownOther, vs_usage = None\<rparr>
              | Some held \<Rightarrow>
                  (case (after, e) of
                     (c # _, _) \<Rightarrow>
                       \<lparr>vs_yields = content @ [tailViolation p held c], vs_end = SourceEof,
                        vs_usage = terminalUsage held\<rparr>
                   | ([], SourceDeadline d) \<Rightarrow>
                       \<lparr>vs_yields = content, vs_end = e, vs_usage = terminalUsage held\<rparr>
                   | ([], _) \<Rightarrow>
                       \<lparr>vs_yields = content @ [held], vs_end = SourceEof, vs_usage = terminalUsage held\<rparr>)))"

lemma walk_held:
  "walk p (Some held) saw rest e =
     (case (rest, e) of
        (c # _, _) \<Rightarrow> \<lparr>vs_yields = [tailViolation p held c], vs_end = SourceEof, vs_usage = terminalUsage held\<rparr>
      | ([], SourceDeadline d) \<Rightarrow> \<lparr>vs_yields = [], vs_end = e, vs_usage = terminalUsage held\<rparr>
      | ([], _) \<Rightarrow> \<lparr>vs_yields = [held], vs_end = SourceEof, vs_usage = terminalUsage held\<rparr>)"
  by (cases rest) (auto split: SourceEnd.splits)

lemma walk_table: "walk p None saw chunks e = grammarTable p saw chunks e"
proof (induction chunks arbitrary: saw)
  case Nil
  show ?case by (simp add: grammarTable_def split: SourceEnd.splits)
next
  case (Cons c cs)
  show ?case
    by (cases "isTerminal c")
      (auto simp: Cons.IH grammarTable_def walk_held Let_def simp del: dropWhile_eq_Nil_conv takeWhile_eq_Nil_iff
        split: option.splits list.splits SourceEnd.splits)
qed

lemmas verify_table = walk_table [where saw = False, folded verifyStreamGrammar_def]

text \<open>A checked stream is content, and a terminal exactly if it came to its end.\<close>

lemma verified_shape:
  obtains content where
    "list_all (\<lambda>c. \<not> isTerminal c) content"
    "vs_end (verifyStreamGrammar p chunks e) = SourceEof \<Longrightarrow>
       \<exists>t. isTerminal t \<and> vs_yields (verifyStreamGrammar p chunks e) = content @ [t]"
    "vs_end (verifyStreamGrammar p chunks e) \<noteq> SourceEof \<Longrightarrow>
       vs_yields (verifyStreamGrammar p chunks e) = content"
proof -
  let ?v = "verifyStreamGrammar p chunks e"
  define content where "content = takeWhile (\<lambda>c. \<not> isTerminal c) chunks"
  define rest where "rest = dropWhile (\<lambda>c. \<not> isTerminal c) chunks"
  note table = verify_table [of p chunks e, unfolded grammarTable_def, folded content_def rest_def, unfolded Let_def]
  have held: "ownTerminal t = Some h \<Longrightarrow> isTerminal h" for t h
    by (auto simp: ownTerminal_def split: StreamChunk.splits)
  have "list_all (\<lambda>c. \<not> isTerminal c) content"
    unfolding content_def list_all_iff by (auto dest: set_takeWhileD)
  moreover have "vs_end ?v = SourceEof \<Longrightarrow> \<exists>t. isTerminal t \<and> vs_yields ?v = content @ [t]"
    using held by (auto simp: table tailViolation_def split: list.splits option.splits SourceEnd.splits)
  moreover have "vs_end ?v \<noteq> SourceEof \<Longrightarrow> vs_yields ?v = content"
    by (auto simp: table split: list.splits option.splits SourceEnd.splits)
  ultimately show ?thesis using that by blast
qed

end
