(* ===== verification/Chain_Request.thy ===== *)
theory Chain_Request
  imports Llm_Stream
begin

text \<open>
  The requests of the fallback chain (\<open>packages/llm/src/fallback-chain.ts\<close>): messages and content parts,
  the removal of provider-signed parts when a call moves to another provider or model, the plan entries, and
  \<open>ChainRun\<close>, the state of one call.

  A request keeps the fields the chain changes: the model, the messages and the effort tier. The rest of it
  (system text, tools, limits) is passed on as it is. The string \<open>provider\0model\<close> of the strip latch is the
  pair. Two questions the chain asks of other modules are parameters: whether an output-cap plan exists for a
  candidate (\<open>output-cap.ts\<close>) and whether a model accepts an effort tier (\<open>reasoning-wire.ts\<close>).
\<close>

section \<open>Messages\<close>

datatype MediaSource = Base64Source string | UrlSource string | HandleSource string

datatype ContentPart =
  TextPart string
| ToolCallPart string string json "bool option" "string option"
| ToolResultPart string json "bool option" "bool option" "string list option"
| ReasoningPart string "string option" "bool option"
| MediaPart string MediaSource

datatype LlmRole = UserRole | AssistantRole | ToolRole

record LlmMessage =
  lm_role :: LlmRole
  lm_content :: "ContentPart list"

datatype ReasoningEffort = EffortOff | EffortLow | EffortMedium | EffortHigh | EffortMax

record LlmRequest =
  rq_model :: string
  rq_messages :: "LlmMessage list"
  rq_reasoningEffort :: "ReasoningEffort option"

fun isReasoning :: "ContentPart \<Rightarrow> bool" where
  "isReasoning (ReasoningPart t s r) = True"
| "isReasoning p = False"

fun stripToolCallSignature :: "ContentPart \<Rightarrow> ContentPart" where
  "stripToolCallSignature (ToolCallPart i n a x s) = ToolCallPart i n a x None"
| "stripToolCallSignature p = p"

fun hasSignature :: "ContentPart \<Rightarrow> bool" where
  "hasSignature (ToolCallPart i n a x s) = (s \<noteq> None)"
| "hasSignature p = False"

definition stripToolCallSignatures :: "LlmRequest \<Rightarrow> LlmRequest" where
  "stripToolCallSignatures req =
     req\<lparr>rq_messages := map (\<lambda>m. m\<lparr>lm_content :=
       map (\<lambda>p. if hasSignature p then stripToolCallSignature p else p) (lm_content m)\<rparr>) (rq_messages req)\<rparr>"

text \<open>One step of the loop that merges a message into a preceding one of the same role.\<close>

definition mergeMessage :: "LlmMessage list \<Rightarrow> LlmMessage \<Rightarrow> LlmMessage list" where
  "mergeMessage messages message =
     (if messages \<noteq> [] \<and> lm_role (last messages) = lm_role message
      then butlast messages @ [(last messages)\<lparr>lm_content := lm_content (last messages) @ lm_content message\<rparr>]
      else messages @ [message])"

definition stripReasoningParts :: "LlmRequest \<Rightarrow> LlmRequest" where
  "stripReasoningParts req =
     (let kept = filter (\<lambda>m. lm_content m \<noteq> [])
                   (map (\<lambda>m. m\<lparr>lm_content := filter (\<lambda>p. \<not> isReasoning p) (lm_content m)\<rparr>) (rq_messages req))
      in req\<lparr>rq_messages := foldl mergeMessage [] kept\<rparr>)"

definition parts :: "LlmRequest \<Rightarrow> ContentPart list" where
  "parts req = concat (map lm_content (rq_messages req))"

subsection \<open>What the removals keep\<close>

lemma concat_mergeMessage:
  "concat (map lm_content (mergeMessage ms m)) = concat (map lm_content ms) @ lm_content m"
proof (cases "ms = []")
  case False
  then obtain front prev where "ms = front @ [prev]" by (metis rev_exhaust)
  then show ?thesis by (simp add: mergeMessage_def)
qed (simp add: mergeMessage_def)

lemma concat_foldl_mergeMessage:
  "concat (map lm_content (foldl mergeMessage acc ms)) = concat (map lm_content acc) @ concat (map lm_content ms)"
  by (induction ms arbitrary: acc) (simp_all add: concat_mergeMessage)

lemma concat_drop_empty: "concat (map f (filter (\<lambda>m. f m \<noteq> []) ms)) = concat (map f ms)"
  by (induction ms) auto

lemma parts_stripReasoningParts: "parts (stripReasoningParts req) = filter (\<lambda>p. \<not> isReasoning p) (parts req)"
proof -
  let ?drop = "\<lambda>m. m\<lparr>lm_content := filter (\<lambda>p. \<not> isReasoning p) (lm_content m)\<rparr>"
  have "parts (stripReasoningParts req) = concat (map lm_content (map ?drop (rq_messages req)))"
    unfolding parts_def stripReasoningParts_def Let_def
    by (simp add: concat_foldl_mergeMessage concat_drop_empty)
  also have "\<dots> = filter (\<lambda>p. \<not> isReasoning p) (parts req)"
    by (simp add: parts_def filter_concat o_def)
  finally show ?thesis .
qed

lemma successively_mergeMessage:
  "successively (\<lambda>a b. lm_role a \<noteq> lm_role b) ms \<Longrightarrow>
   successively (\<lambda>a b. lm_role a \<noteq> lm_role b) (mergeMessage ms m)"
proof (cases "ms = []")
  case False
  then obtain front prev where "ms = front @ [prev]" by (metis rev_exhaust)
  moreover assume "successively (\<lambda>a b. lm_role a \<noteq> lm_role b) ms"
  ultimately show ?thesis by (auto simp: mergeMessage_def successively_append_iff)
qed (simp add: mergeMessage_def)

lemma stripReasoningParts_alternates:
  "successively (\<lambda>a b. lm_role a \<noteq> lm_role b) (rq_messages (stripReasoningParts req))"
proof -
  have "successively (\<lambda>a b. lm_role a \<noteq> lm_role b) acc \<Longrightarrow>
        successively (\<lambda>a b. lm_role a \<noteq> lm_role b) (foldl mergeMessage acc ms)" for acc ms
    by (induction ms arbitrary: acc) (simp_all add: successively_mergeMessage)
  then show ?thesis by (simp add: stripReasoningParts_def Let_def)
qed

lemma parts_stripToolCallSignatures: "parts (stripToolCallSignatures req) = map stripToolCallSignature (parts req)"
proof -
  have "(if hasSignature p then stripToolCallSignature p else p) = stripToolCallSignature p" for p
    by (cases p) auto
  then show ?thesis by (simp add: parts_def stripToolCallSignatures_def map_concat o_def)
qed

definition noReasoning :: "LlmRequest \<Rightarrow> bool" where
  "noReasoning req = list_all (\<lambda>p. \<not> isReasoning p) (parts req)"

definition noSignatures :: "LlmRequest \<Rightarrow> bool" where
  "noSignatures req = list_all (\<lambda>p. \<not> hasSignature p) (parts req)"

lemma isReasoning_strip [simp]: "isReasoning (stripToolCallSignature p) = isReasoning p"
  by (cases p) auto

lemma hasSignature_strip [simp]: "\<not> hasSignature (stripToolCallSignature p)"
  by (cases p) auto

lemma stripped_clean [simp]:
  "noReasoning (stripReasoningParts req)" "noSignatures (stripToolCallSignatures req)"
  by (simp_all add: noReasoning_def noSignatures_def parts_stripReasoningParts parts_stripToolCallSignatures
      list_all_iff)

lemma strip_keeps_clean [simp]:
  "noReasoning req \<Longrightarrow> noReasoning (stripToolCallSignatures req)"
  "noReasoning req \<Longrightarrow> noReasoning (stripReasoningParts req)"
  "noSignatures req \<Longrightarrow> noSignatures (stripReasoningParts req)"
  by (simp_all add: noReasoning_def noSignatures_def parts_stripReasoningParts parts_stripToolCallSignatures
      list_all_iff)

lemma clean_update [simp]:
  "noReasoning (req\<lparr>rq_model := m\<rparr>) = noReasoning req"
  "noSignatures (req\<lparr>rq_model := m\<rparr>) = noSignatures req"
  "noReasoning (req\<lparr>rq_reasoningEffort := x\<rparr>) = noReasoning req"
  "noSignatures (req\<lparr>rq_reasoningEffort := x\<rparr>) = noSignatures req"
  by (simp_all add: noReasoning_def noSignatures_def parts_def)

section \<open>Plan entries\<close>

record FallbackPlanEntry =
  pe_provider :: ProviderId
  pe_customEndpoint :: bool
  pe_streaming :: bool
  pe_model :: string
  pe_maxAttempts :: nat
  pe_backoff :: "BackoffStrategy option"

record RequestCandidate =
  rc_model :: string
  rc_provider :: ProviderId
  rc_custom :: bool

definition candidateFor :: "FallbackPlanEntry \<Rightarrow> RequestCandidate" where
  "candidateFor entry =
     \<lparr>rc_model = pe_model entry, rc_provider = pe_provider entry, rc_custom = pe_customEndpoint entry\<rparr>"

text \<open>The tier is removed if the model of the entry does not accept it.\<close>

definition withEntryModel :: "(string \<Rightarrow> ReasoningEffort \<Rightarrow> bool) \<Rightarrow> LlmRequest \<Rightarrow> string \<Rightarrow> LlmRequest" where
  "withEntryModel accepts req model =
     (let next = req\<lparr>rq_model := model\<rparr>
      in case rq_reasoningEffort next of
           None \<Rightarrow> next
         | Some tier \<Rightarrow> if accepts model tier then next else next\<lparr>rq_reasoningEffort := None\<rparr>)"

definition backoffDelayMs :: "BackoffStrategy \<Rightarrow> nat \<Rightarrow> nat \<Rightarrow> nat \<Rightarrow> nat" where
  "backoffDelayMs strategy retryIndex baseMs maxMs =
     min (case strategy of Exponential \<Rightarrow> baseMs * 2 ^ retryIndex | Linear \<Rightarrow> baseMs * (retryIndex + 1)) maxMs"

section \<open>Attempt records\<close>

record CostUpdate =
  cu_costMicrocents :: int
  cu_cumulativeCostMicrocents :: int
  cu_unpricedModalities :: "MediaBilledModality list"

datatype AttemptOutcome = Succeeded | FailedAttempt | SkippedEntry

record AttemptRecord =
  ar_attemptNumber :: nat
  ar_contentReceived :: bool
  ar_providerInvoked :: bool
  ar_customEndpoint :: bool
  ar_provider :: ProviderId
  ar_model :: string
  ar_outcome :: AttemptOutcome
  ar_usage :: "UsageEvidence option"
  ar_invocation :: "UsageInvocation option"
  ar_coverageOnly :: bool
  ar_receiptPending :: bool
  ar_receiptFinal :: bool
  ar_cost :: "CostUpdate option"
  ar_error :: "LlmError option"
  ar_skipReason :: "string option"
  ar_unpriced :: bool

section \<open>One call\<close>

record ChainRun =
  cr_req :: LlmRequest
  cr_lastProvider :: "ProviderId option"
  cr_lastIssuer :: "(ProviderId \<times> string) option"
  cr_attemptNumber :: nat
  cr_lastError :: "LlmError option"

definition newRun :: "LlmRequest \<Rightarrow> (ProviderId \<times> string) option \<Rightarrow> ChainRun" where
  "newRun req seed =
     \<lparr>cr_req = req, cr_lastProvider = map_option fst seed, cr_lastIssuer = seed, cr_attemptNumber = 0,
      cr_lastError = None\<rparr>"

text \<open>\<open>ChainRun.beginEntry\<close>; \<open>None\<close> if there is no output-cap plan for the entry, which throws.\<close>

definition beginEntry ::
  "(RequestCandidate \<Rightarrow> bool) \<Rightarrow> (string \<Rightarrow> ReasoningEffort \<Rightarrow> bool) \<Rightarrow> FallbackPlanEntry \<Rightarrow> ChainRun \<Rightarrow>
     (LlmRequest \<times> ChainRun) option"
where
  "beginEntry capPlan accepts entry run =
     (if \<not> capPlan (candidateFor entry) then None
      else
        let provider = pe_provider entry;
            issuer = (provider, pe_model entry);
            selected = (cr_req run)\<lparr>rq_model := pe_model entry\<rparr>;
            selected = (if cr_lastProvider run \<noteq> None \<and> cr_lastProvider run \<noteq> Some provider
                        then stripReasoningParts selected else selected);
            selected = (if cr_lastIssuer run \<noteq> None \<and> cr_lastIssuer run \<noteq> Some issuer
                        then stripToolCallSignatures selected else selected);
            run' = run\<lparr>cr_req := selected, cr_lastProvider := Some provider, cr_lastIssuer := Some issuer\<rparr>
        in if rq_reasoningEffort (withEntryModel accepts selected (pe_model entry)) = rq_reasoningEffort selected
           then Some (selected, run') else Some (selected\<lparr>rq_reasoningEffort := None\<rparr>, run'))"

text \<open>\<open>ChainRun.next\<close>: the skeleton of the next record.\<close>

definition nextRecord :: "FallbackPlanEntry \<Rightarrow> ChainRun \<Rightarrow> AttemptRecord \<times> ChainRun" where
  "nextRecord entry run =
     (let n = cr_attemptNumber run + 1
      in (\<lparr>ar_attemptNumber = n, ar_contentReceived = False, ar_providerInvoked = False,
           ar_customEndpoint = pe_customEndpoint entry, ar_provider = pe_provider entry,
           ar_model = pe_model entry, ar_outcome = FailedAttempt, ar_usage = None, ar_invocation = None,
           ar_coverageOnly = False, ar_receiptPending = False, ar_receiptFinal = False, ar_cost = None,
           ar_error = None, ar_skipReason = None, ar_unpriced = False\<rparr>,
          run\<lparr>cr_attemptNumber := n\<rparr>))"

text \<open>
  The latch of a call and its running request: once an entry of another provider has begun, nothing the
  call sends carries reasoning; once an entry of another provider or model has, nothing carries a token.
\<close>

lemma strip_fields [simp]:
  "rq_model (stripReasoningParts req) = rq_model req"
  "rq_model (stripToolCallSignatures req) = rq_model req"
  by (simp_all add: stripReasoningParts_def stripToolCallSignatures_def Let_def)

lemma beginEntry_sent:
  assumes begun: "beginEntry capPlan accepts entry run = Some (sent, run')"
  shows "rq_model sent = pe_model entry"
    and "cr_lastProvider run' = Some (pe_provider entry)"
    and "cr_lastIssuer run' = Some (pe_provider entry, pe_model entry)"
    and "cr_attemptNumber run' = cr_attemptNumber run" "cr_lastError run' = cr_lastError run"
    and "noReasoning sent = noReasoning (cr_req run')"
    and "noSignatures sent = noSignatures (cr_req run')"
  using begun by (simp_all add: beginEntry_def Let_def split: if_splits) (auto)

lemma beginEntry_clean:
  assumes begun: "beginEntry capPlan accepts entry run = Some (sent, run')"
  shows "noReasoning (cr_req run) \<or> cr_lastProvider run \<notin> {None, Some (pe_provider entry)} \<Longrightarrow>
         noReasoning (cr_req run')"
    and "noSignatures (cr_req run) \<or> cr_lastIssuer run \<notin> {None, Some (pe_provider entry, pe_model entry)} \<Longrightarrow>
         noSignatures (cr_req run')"
  using begun by (auto simp: beginEntry_def Let_def split: if_splits)

end
