(* ===== verification/Fallback_Chain.thy ===== *)
theory Fallback_Chain
  imports Chain_Request
begin

text \<open>
  The fallback chain (\<open>packages/llm/src/fallback-chain.ts\<close>): a streamed call walks the plan, tries each entry
  up to its budget, moves on or stops by the class of the failure, and reports every attempt.

  The host is a record of functions over a world \<open>'w\<close>: the abort flag, the clock, the timer, the hooks and
  the providers. A provider answers a call with what a reader that drains its stream sees
  (\<open>Llm_Stream\<close>). The price table is a function of the host; the running total of the \<open>CostTracker\<close>
  is part of the state. The observer \<open>onAttempt\<close> is the list of the records it was handed, and the calls over
  the seam are listed beside it. A host without timers has no source that ends in a deadline.

  The consumer reads the stream to its end, the host registers no work (\<open>retainWork\<close>), and an adapter does
  not repair a call on its own (\<open>beforeNativeRetry\<close>).
\<close>

section \<open>Host and state\<close>

datatype PriceResult = Priced int "MediaBilledModality list" | UnknownModel | PriceFault

datatype CaptureFault = RequestRefused | CaptureFaulted

record 'w ChainHost =
  ch_aborted :: "'w \<Rightarrow> bool"
  ch_now :: "'w \<Rightarrow> nat"
  ch_sleep :: "nat \<Rightarrow> 'w \<Rightarrow> 'w"
  ch_onAuthError :: "(ProviderId \<Rightarrow> 'w \<Rightarrow> bool option \<times> 'w) option"
  ch_resolveForEgress :: "(string \<Rightarrow> ProviderId \<Rightarrow> 'w \<Rightarrow> MediaSource option \<times> 'w) option"
  ch_preAttempt :: "(RequestCandidate \<Rightarrow> 'w \<Rightarrow> Thrown option \<times> 'w) option"
  ch_beginUsageInvocation :: "(RequestCandidate \<Rightarrow> 'w \<Rightarrow> (Thrown + UsageInvocation) \<times> 'w) option"
  ch_keyFor :: "ProviderId \<Rightarrow> 'w \<Rightarrow> string option \<times> 'w"
  ch_stream :: "FallbackPlanEntry \<Rightarrow> LlmRequest \<Rightarrow> string \<Rightarrow> 'w \<Rightarrow> (StreamChunk list \<times> SourceEnd) \<times> 'w"
  ch_disposeFails :: "'w \<Rightarrow> bool"
  ch_capture :: "LlmRequest \<Rightarrow> CaptureFault option"
  ch_capPlan :: "RequestCandidate \<Rightarrow> bool"
  ch_accepts :: "string \<Rightarrow> ReasoningEffort \<Rightarrow> bool"
  ch_supportReason :: "LlmRequest \<Rightarrow> RequestCandidate \<Rightarrow> string option"
  ch_price :: "(string \<Rightarrow> Usage \<Rightarrow> PriceResult) option"
  ch_backoffBaseMs :: nat
  ch_backoffMaxMs :: nat
  ch_cooldownMs :: nat

text \<open>A call over the seam: which entry, and the request it was sent.\<close>

record SeamCall =
  sc_provider :: ProviderId
  sc_model :: string
  sc_request :: LlmRequest

record 'w ChainState =
  cs_cooldownUntil :: "(ProviderId, nat) jsmap"
  cs_authRefreshed :: "ProviderId list"
  cs_sidecar :: "(ProviderId \<times> string, MediaSource) jsmap"
  cs_lastIssuer :: "(ProviderId \<times> string) option"
  cs_cumulative :: int
  cs_attempts :: "AttemptRecord list"
  cs_calls :: "SeamCall list"
  cs_world :: 'w

section \<open>Errors\<close>

definition cancelledError :: "ProviderId \<Rightarrow> LlmError" where
  "cancelledError p = makeLlmError p CancelledKind RequestAborted"

definition classifyDeadline :: "ProviderId \<Rightarrow> DeadlineCause \<Rightarrow> LlmError" where
  "classifyDeadline p d =
     (case d of ByCaller \<Rightarrow> cancelledError p | ByTimer \<Rightarrow> makeLlmError p TimeoutKind DeadlinePassed)"

definition disown :: "LlmError \<Rightarrow> LlmError" where
  "disown e = e\<lparr>le_contentCommitted := False\<rparr>"

definition committedError :: "LlmError \<Rightarrow> LlmError" where
  "committedError e = e\<lparr>le_contentCommitted := True\<rparr>"

definition errorOf :: "Thrown \<Rightarrow> ProviderId \<Rightarrow> LlmError" where
  "errorOf t p =
     (case t of
        ThrownLlm e \<Rightarrow> (case snapshotLlmError e of Some e' \<Rightarrow> e' | None \<Rightarrow> makeLlmError p UnknownKind UnknownFailure)
      | ThrownCap \<Rightarrow> makeLlmError p BadRequest CapRefused
      | ThrownOther \<Rightarrow> makeLlmError p UnknownKind UnknownFailure)"

definition abortAware :: "bool \<Rightarrow> LlmError \<Rightarrow> ProviderId \<Rightarrow> LlmError" where
  "abortAware aborted e p =
     (if aborted then (cancelledError p)\<lparr>le_usage := le_usage e\<rparr> else disown e)"

definition COOLDOWN_SKIP_REASON :: string where
  "COOLDOWN_SKIP_REASON = ''provider in rate-limit cooldown''"

definition exhaustedError :: "ProviderId \<Rightarrow> string list \<Rightarrow> LlmError" where
  "exhaustedError p reasons =
     makeLlmError p (if COOLDOWN_SKIP_REASON \<in> set reasons then RateLimit else BadRequest)
       (ChainExhausted (fold set_add reasons []))"

section \<open>Accounting and the observer\<close>

text \<open>\<open>CostTracker.record\<close>: the priced part is added to the total; an unknown model throws before that.\<close>

definition trackerRecord :: "int \<Rightarrow> MediaBilledModality list \<Rightarrow> int \<Rightarrow> CostUpdate \<times> int" where
  "trackerRecord microcents unpriced cumulative =
     (\<lparr>cu_costMicrocents = microcents, cu_cumulativeCostMicrocents = cumulative + microcents,
       cu_unpricedModalities = unpriced\<rparr>,
      cumulative + microcents)"

text \<open>\<open>#foldUsage\<close>: the cost and whether a price is missing; \<open>None\<close> for an accounting fault.\<close>

definition foldUsage ::
  "'w ChainHost \<Rightarrow> string \<Rightarrow> UsageEvidence \<Rightarrow> 'w ChainState \<Rightarrow> (CostUpdate option \<times> bool) option \<times> 'w ChainState"
where
  "foldUsage h model usage st =
     (case usage of
        CompleteEvidence u \<Rightarrow>
          (case ch_price h of
             None \<Rightarrow> (Some (None, False), st)
           | Some price \<Rightarrow>
               (case price model u of
                  PriceFault \<Rightarrow> (None, st)
                | UnknownModel \<Rightarrow> (Some (None, True), st)
                | Priced c un \<Rightarrow>
                    (let (update, total) = trackerRecord c un (cs_cumulative st)
                     in (Some (Some update, un \<noteq> []), st\<lparr>cs_cumulative := total\<rparr>))))
      | _ \<Rightarrow> (Some (None, False), st))"

text \<open>\<open>#emit\<close>: an invoked attempt always carries evidence, a local failure never.\<close>

definition observedRecord :: "AttemptRecord \<Rightarrow> AttemptRecord" where
  "observedRecord record =
     record\<lparr>ar_usage :=
       (if ar_providerInvoked record
        then Some (case ar_usage record of None \<Rightarrow> MissingEvidence NotReported | Some u \<Rightarrow> u) else None)\<rparr>"

definition emitAttempt :: "AttemptRecord \<Rightarrow> 'w ChainState \<Rightarrow> 'w ChainState" where
  "emitAttempt record st = st\<lparr>cs_attempts := cs_attempts st @ [observedRecord record]\<rparr>"

definition emitFailure ::
  "'w ChainHost \<Rightarrow> AttemptRecord \<Rightarrow> LlmError \<Rightarrow> 'w ChainState \<Rightarrow> LlmError \<times> 'w ChainState"
where
  "emitFailure h record diagnostic st =
     (let diagnostic = (if ar_providerInvoked record then diagnostic else diagnostic\<lparr>le_usage := None\<rparr>);
          error = (if ar_customEndpoint record \<and> le_kind diagnostic = ContextOverflow
                   then diagnostic\<lparr>le_kind := BadRequest, le_retryable := False\<rparr> else diagnostic);
          failed = record\<lparr>ar_outcome := FailedAttempt\<rparr>;
          fault = makeLlmError (ar_provider record) UnknownKind AccountingFailedAfterFailure
      in case le_usage error of
           None \<Rightarrow> (error, emitAttempt (failed\<lparr>ar_error := Some error\<rparr>) st)
         | Some raw \<Rightarrow>
             (case ownUsageEvidence raw of
                None \<Rightarrow> (fault, emitAttempt (failed\<lparr>ar_error := Some fault\<rparr>) st)
              | Some usage \<Rightarrow>
                  (case foldUsage h (ar_model record) usage st of
                     (None, st') \<Rightarrow>
                       (let error = fault\<lparr>le_usage := Some usage\<rparr>
                        in (error, emitAttempt (failed\<lparr>ar_error := Some error, ar_usage := Some usage,
                                                         ar_unpriced := True\<rparr>) st'))
                   | (Some (cost, unpriced), st') \<Rightarrow>
                       (error, emitAttempt (failed\<lparr>ar_error := Some error, ar_usage := Some usage,
                                                   ar_unpriced := unpriced, ar_cost := cost\<rparr>) st'))))"

section \<open>One streamed attempt\<close>

text \<open>How a failed attempt leaves: surfaced if content was forwarded, otherwise handed to the loop.\<close>

definition failAttempt ::
  "'w ChainHost \<Rightarrow> AttemptRecord \<Rightarrow> LlmError \<Rightarrow> bool \<Rightarrow> 'w ChainState \<Rightarrow>
     StreamChunk list \<times> LlmError option \<times> 'w ChainState"
where
  "failAttempt h record error committed st =
     (case emitFailure h (record\<lparr>ar_contentReceived := committed\<rparr>) error st of
        (error', st') \<Rightarrow>
          if committed then ([ErrorChunk (committedError error')], None, st') else ([], Some error', st'))"

definition settleUsage ::
  "'w ChainHost \<Rightarrow> FallbackPlanEntry \<Rightarrow> AttemptRecord \<Rightarrow> UsageEvidence option \<Rightarrow> bool \<Rightarrow> bool \<Rightarrow> 'w ChainState \<Rightarrow>
     StreamChunk list \<times> LlmError option \<times> 'w ChainState"
where
  "settleUsage h entry record0 usage committed cleanupFailed st =
     (let record = record0\<lparr>ar_contentReceived := committed\<rparr>;
          cleanup = makeLlmError (pe_provider entry) UnknownKind CleanupFailed;
          fault = makeLlmError (pe_provider entry) UnknownKind AccountingFailedAfterStream;
          surface = (\<lambda>e. [ErrorChunk (if committed then committedError e else e)])
      in case usage of
           None \<Rightarrow>
             if cleanupFailed
             then (surface cleanup, None, emitAttempt (record\<lparr>ar_outcome := FailedAttempt, ar_error := Some cleanup\<rparr>) st)
             else ([], None, emitAttempt (record\<lparr>ar_outcome := Succeeded\<rparr>) st)
         | Some u \<Rightarrow>
             (case foldUsage h (pe_model entry) u st of
                (None, st') \<Rightarrow>
                  (surface fault, None,
                   emitAttempt (record\<lparr>ar_outcome := FailedAttempt, ar_error := Some fault, ar_usage := Some u,
                                       ar_unpriced := True\<rparr>) st')
              | (Some (cost, unpriced), st') \<Rightarrow>
                  if cleanupFailed
                  then (surface cleanup, None,
                        emitAttempt (record\<lparr>ar_outcome := FailedAttempt, ar_error := Some cleanup, ar_usage := Some u,
                                            ar_unpriced := unpriced, ar_cost := cost\<rparr>) st')
                  else ([], None,
                        emitAttempt (record\<lparr>ar_outcome := Succeeded, ar_usage := Some u, ar_unpriced := unpriced,
                                            ar_cost := cost\<rparr>) st')))"

text \<open>
  What runs before the call over the seam: the plan of output caps, admission, the ledger entry of the
  invocation, the credential, and a last look at the abort flag.
\<close>

definition prologue ::
  "'w ChainHost \<Rightarrow> FallbackPlanEntry \<Rightarrow> AttemptRecord \<Rightarrow> 'w \<Rightarrow> (Thrown + string) \<times> AttemptRecord \<times> 'w"
where
  "prologue h entry record w =
     (let p = pe_provider entry; candidate = candidateFor entry
      in if \<not> ch_capPlan h candidate then (Inl ThrownCap, record, w)
         else case (case ch_preAttempt h of None \<Rightarrow> (None, w) | Some hook \<Rightarrow> hook candidate w) of
           (Some t, w1) \<Rightarrow> (Inl t, record, w1)
         | (None, w1) \<Rightarrow>
             (case (case ch_beginUsageInvocation h of
                      None \<Rightarrow> (Inr None, w1)
                    | Some hook \<Rightarrow>
                        (case hook candidate w1 of
                           (Inl t, w2) \<Rightarrow> (Inl t, w2) | (Inr i, w2) \<Rightarrow> (Inr (Some i), w2))) of
                (Inl t, w2) \<Rightarrow> (Inl t, record, w2)
              | (Inr coverage, w2) \<Rightarrow>
                  (let record' = record\<lparr>ar_invocation := coverage\<rparr>
                   in case ch_keyFor h p w2 of
                        (None, w3) \<Rightarrow> (Inl (ThrownLlm (makeLlmError p AuthKind CredentialFailed)), record', w3)
                      | (Some key, w3) \<Rightarrow>
                          if ch_aborted h w3 then (Inl (ThrownLlm (cancelledError p)), record', w3)
                          else (Inr key, record', w3))))"

fun isContentChunk :: "StreamChunk \<Rightarrow> bool" where
  "isContentChunk (StopChunk r u) = False"
| "isContentChunk (ErrorChunk e) = False"
| "isContentChunk c = True"

text \<open>The read loop: chunks are forwarded up to an \<open>error\<close>, which is thrown.\<close>

fun forward :: "StreamChunk list \<Rightarrow> StreamChunk list \<times> LlmError option" where
  "forward [] = ([], None)"
| "forward (ErrorChunk e # cs) = ([], Some e)"
| "forward (c # cs) = (case forward cs of (ys, t) \<Rightarrow> (c # ys, t))"

definition streamAttempt ::
  "'w ChainHost \<Rightarrow> FallbackPlanEntry \<Rightarrow> LlmRequest \<Rightarrow> AttemptRecord \<Rightarrow> 'w ChainState \<Rightarrow>
     StreamChunk list \<times> bool \<times> LlmError option \<times> 'w ChainState"
where
  "streamAttempt h entry req record0 st =
     (let p = pe_provider entry
      in case prologue h entry record0 (cs_world st) of
           (Inl t, record, w) \<Rightarrow>
             (case failAttempt h record (abortAware (ch_aborted h w) (errorOf t p) p) False (st\<lparr>cs_world := w\<rparr>) of
                (ys, failure, st') \<Rightarrow> (ys, False, failure, st'))
         | (Inr key, record1, w1) \<Rightarrow>
             (case ch_stream h entry req key w1 of
                ((chunks, e), w) \<Rightarrow>
                  let record = record1\<lparr>ar_providerInvoked := True\<rparr>;
                      st1 = st\<lparr>cs_world := w, cs_calls := cs_calls st @
                               [\<lparr>sc_provider = p, sc_model = pe_model entry, sc_request = req\<rparr>]\<rparr>;
                      v = verifyStreamGrammar p chunks e;
                      usage = vs_usage v;
                      (ys, raised) = forward (vs_yields v);
                      committed = list_ex isContentChunk ys;
                      thrown = (case raised of
                                  Some err \<Rightarrow> Some (ThrownLlm err)
                                | None \<Rightarrow> (case vs_end v of
                                             SourceEof \<Rightarrow> None
                                           | SourceThrows t \<Rightarrow> Some t
                                           | SourceDeadline d \<Rightarrow> Some (ThrownLlm (classifyDeadline p d))));
                      timedOut = (raised = None \<and> (case vs_end v of SourceDeadline d \<Rightarrow> True | _ \<Rightarrow> False));
                      complete = (case usage of Some (CompleteEvidence u) \<Rightarrow> True | _ \<Rightarrow> False);
                      record' = (if timedOut \<and> ar_invocation record \<noteq> None \<and> \<not> complete
                                 then record\<lparr>ar_receiptPending := True\<rparr> else record)
                  in case (case thrown of
                             Some t \<Rightarrow>
                               (let failure = abortAware (ch_aborted h w) (errorOf t p) p;
                                    failure = (case usage of None \<Rightarrow> failure | Some u \<Rightarrow> failure\<lparr>le_usage := Some u\<rparr>)
                                in failAttempt h record' failure committed st1)
                           | None \<Rightarrow> settleUsage h entry record' usage committed (ch_disposeFails h w) st1) of
                       (zs, failure, st') \<Rightarrow> (ys @ zs, committed, failure, st')))"

section \<open>After a failure\<close>

datatype Verdict = FatalVerdict | RetryableVerdict | AuthRefreshed | AdvanceVerdict

definition refreshCredential ::
  "(ProviderId \<Rightarrow> 'w \<Rightarrow> bool option \<times> 'w) \<Rightarrow> ProviderId \<Rightarrow> 'w \<Rightarrow> bool \<times> 'w"
where
  "refreshCredential hook p w = (case hook p w of (Some b, w') \<Rightarrow> (b, w') | (None, w') \<Rightarrow> (False, w'))"

definition afterFailure ::
  "'w ChainHost \<Rightarrow> FallbackPlanEntry \<Rightarrow> LlmError \<Rightarrow> 'w ChainState \<Rightarrow> Verdict \<times> 'w ChainState"
where
  "afterFailure h entry error st =
     (let p = pe_provider entry
      in if le_contentCommitted error then (FatalVerdict, st)
         else if le_kind error = AuthKind then
           (case ch_onAuthError h of
              None \<Rightarrow> (FatalVerdict, st)
            | Some hook \<Rightarrow>
                if p \<in> set (cs_authRefreshed st) then (FatalVerdict, st)
                else (case refreshCredential hook p (cs_world st) of
                        (granted, w) \<Rightarrow>
                          (if granted then AuthRefreshed else FatalVerdict,
                           st\<lparr>cs_authRefreshed := set_add p (cs_authRefreshed st), cs_world := w\<rparr>)))
         else if le_kind error = RateLimit then
           (RetryableVerdict,
            st\<lparr>cs_cooldownUntil := mset_key p (ch_now h (cs_world st) + ch_cooldownMs h) (cs_cooldownUntil st)\<rparr>)
         else if le_kind error = Protocol then (AdvanceVerdict, st)
         else if isRetryable (le_kind error) then (RetryableVerdict, st) else (FatalVerdict, st))"

text \<open>The wait the provider asked for wins over the curve of the entry.\<close>

definition chainBackoff ::
  "'w ChainHost \<Rightarrow> FallbackPlanEntry \<Rightarrow> nat \<Rightarrow> LlmError \<Rightarrow> 'w ChainState \<Rightarrow> 'w ChainState"
where
  "chainBackoff h entry retryIndex error st =
     (let delay = (case le_retryAfterMs error of
                     Some ms \<Rightarrow> ms
                   | None \<Rightarrow> backoffDelayMs (case pe_backoff entry of None \<Rightarrow> Exponential | Some s \<Rightarrow> s) retryIndex
                               (ch_backoffBaseMs h) (ch_backoffMaxMs h))
      in st\<lparr>cs_world := ch_sleep h delay (cs_world st)\<rparr>)"

section \<open>The attempts of an entry\<close>

datatype EntryAction = EntryDone | EntryAdvance

lemma emitAttempt_keeps [simp]:
  "cs_authRefreshed (emitAttempt r st) = cs_authRefreshed st"
  "cs_world (emitAttempt r st) = cs_world st" "cs_calls (emitAttempt r st) = cs_calls st"
  "cs_cooldownUntil (emitAttempt r st) = cs_cooldownUntil st" "cs_cumulative (emitAttempt r st) = cs_cumulative st"
  "cs_lastIssuer (emitAttempt r st) = cs_lastIssuer st" "cs_sidecar (emitAttempt r st) = cs_sidecar st"
  by (simp_all add: emitAttempt_def)

lemma foldUsage_keeps [simp]:
  "cs_authRefreshed (snd (foldUsage h m u st)) = cs_authRefreshed st"
  "cs_world (snd (foldUsage h m u st)) = cs_world st" "cs_calls (snd (foldUsage h m u st)) = cs_calls st"
  "cs_cooldownUntil (snd (foldUsage h m u st)) = cs_cooldownUntil st"
  "cs_lastIssuer (snd (foldUsage h m u st)) = cs_lastIssuer st" "cs_sidecar (snd (foldUsage h m u st)) = cs_sidecar st"
  "cs_attempts (snd (foldUsage h m u st)) = cs_attempts st"
  by (simp_all add: foldUsage_def Let_def split: UsageEvidence.splits option.splits PriceResult.splits prod.splits)

lemma foldUsage_keeps':
  assumes "foldUsage h m u st = (r, st')"
  shows "cs_authRefreshed st' = cs_authRefreshed st \<and> cs_calls st' = cs_calls st \<and>
    cs_lastIssuer st' = cs_lastIssuer st \<and> cs_attempts st' = cs_attempts st"
  using foldUsage_keeps [of h m u st] assms by simp

lemma emitFailure_keeps:
  assumes "emitFailure h r e st = (e', st')"
  shows "cs_authRefreshed st' = cs_authRefreshed st" "cs_calls st' = cs_calls st" "cs_lastIssuer st' = cs_lastIssuer st"
  using assms by (auto simp: emitFailure_def Let_def dest: foldUsage_keeps' split: option.splits prod.splits if_splits)

lemma failAttempt_keeps:
  assumes "failAttempt h r e c st = (ys, f, st')"
  shows "cs_authRefreshed st' = cs_authRefreshed st" "cs_calls st' = cs_calls st" "cs_lastIssuer st' = cs_lastIssuer st"
  using assms by (auto simp: failAttempt_def dest: emitFailure_keeps split: prod.splits if_splits)

lemma settleUsage_keeps:
  assumes "settleUsage h entry r u c cl st = (ys, f, st')"
  shows "cs_authRefreshed st' = cs_authRefreshed st" "cs_calls st' = cs_calls st" "cs_lastIssuer st' = cs_lastIssuer st"
  using assms by (auto simp: settleUsage_def Let_def dest: foldUsage_keeps' split: option.splits prod.splits if_splits)

lemma streamAttempt_authRefreshed:
  assumes "streamAttempt h entry req r st = (ys, c, f, st')"
  shows "cs_authRefreshed st' = cs_authRefreshed st \<and> cs_lastIssuer st' = cs_lastIssuer st"
  using assms
  by (auto simp: streamAttempt_def Let_def dest: failAttempt_keeps settleUsage_keeps
      split: prod.splits sum.splits option.splits)

lemma afterFailure_auth:
  assumes "afterFailure h entry e st = (v, st')"
  shows "(v = AuthRefreshed \<longrightarrow> pe_provider entry \<notin> set (cs_authRefreshed st) \<and>
      set (cs_authRefreshed st') = insert (pe_provider entry) (set (cs_authRefreshed st))) \<and>
    (v = RetryableVerdict \<longrightarrow> cs_authRefreshed st' = cs_authRefreshed st)"
  using assms
  by (auto simp: afterFailure_def Let_def split: if_splits option.splits prod.splits)

lemma chainBackoff_keeps [simp]:
  "cs_authRefreshed (chainBackoff h entry n e st) = cs_authRefreshed st"
  "cs_calls (chainBackoff h entry n e st) = cs_calls st" "cs_attempts (chainBackoff h entry n e st) = cs_attempts st"
  "cs_cumulative (chainBackoff h entry n e st) = cs_cumulative st"
  "cs_lastIssuer (chainBackoff h entry n e st) = cs_lastIssuer st"
  by (simp_all add: chainBackoff_def Let_def)

text \<open>
  The loop \<open>for (attempt = 1; attempt \<le> budget + bonus; \<dots>)\<close>. A refreshed credential adds one attempt to the
  bound, which each provider does once for a chain; that is why the loop ends.
\<close>

function runEntryStream ::
  "'w ChainHost \<Rightarrow> FallbackPlanEntry \<Rightarrow> LlmRequest \<Rightarrow> nat \<Rightarrow> nat \<Rightarrow> ChainRun \<Rightarrow> 'w ChainState \<Rightarrow>
     StreamChunk list \<times> EntryAction \<times> ChainRun \<times> 'w ChainState"
where
  "runEntryStream h entry req attempt bonus run st =
     (let limit = pe_maxAttempts entry + bonus
      in if limit < attempt then ([], EntryAdvance, run, st)
         else if ch_aborted h (cs_world st)
         then ([ErrorChunk (cancelledError (pe_provider entry))], EntryDone, run, st)
         else
           case nextRecord entry run of
             (record, run1) \<Rightarrow>
               (case streamAttempt h entry req record st of
                  (ys, committed, failure, st1) \<Rightarrow>
                    if committed then (ys, EntryDone, run1, st1)
                    else case failure of
                      None \<Rightarrow> (ys, EntryDone, run1, st1)
                    | Some e \<Rightarrow>
                        (let run2 = run1\<lparr>cr_lastError := Some e\<rparr>
                         in case afterFailure h entry e st1 of
                              (FatalVerdict, st2) \<Rightarrow> (ys @ [ErrorChunk e], EntryDone, run2, st2)
                            | (AdvanceVerdict, st2) \<Rightarrow> (ys, EntryAdvance, run2, st2)
                            | (AuthRefreshed, st2) \<Rightarrow>
                                (case runEntryStream h entry req (attempt + 1) (bonus + 1) run2 st2 of
                                   (zs, r) \<Rightarrow> (ys @ zs, r))
                            | (RetryableVerdict, st2) \<Rightarrow>
                                (case runEntryStream h entry req (attempt + 1) bonus run2
                                        (if attempt < limit then chainBackoff h entry (attempt - 1) e st2 else st2) of
                                   (zs, r) \<Rightarrow> (ys @ zs, r)))))"
  by pat_completeness auto
termination
  by (relation "measures [\<lambda>(h, entry, req, attempt, bonus, run, st).
            if pe_provider entry \<in> set (cs_authRefreshed st) then 0 else 1,
          \<lambda>(h, entry, req, attempt, bonus, run, st). pe_maxAttempts entry + bonus + 1 - attempt]")
    (auto dest!: sym [where t = "streamAttempt h entry req r st" for h entry req r st]
       sym [where t = "afterFailure h entry e st" for h entry e st] streamAttempt_authRefreshed afterFailure_auth)

declare runEntryStream.simps [simp del]

lemma runEntryStream_exhausted:
  "pe_maxAttempts entry + bonus < attempt \<Longrightarrow>
   runEntryStream h entry req attempt bonus run st = ([], EntryAdvance, run, st)"
  by (simp add: runEntryStream.simps)

section \<open>The walk over the plan\<close>

text \<open>\<open>#resolveHandle\<close> with the sidecar of the sources that are no bytes; \<open>None\<close> if the host threw.\<close>

definition resolveHandle ::
  "(string \<Rightarrow> ProviderId \<Rightarrow> 'w \<Rightarrow> MediaSource option \<times> 'w) \<Rightarrow> ProviderId \<Rightarrow> string \<Rightarrow> 'w ChainState \<Rightarrow>
     MediaSource option \<times> 'w ChainState"
where
  "resolveHandle resolve p handle st =
     (case mget (cs_sidecar st) (p, handle) of
        Some src \<Rightarrow> (Some src, st)
      | None \<Rightarrow>
          (case resolve handle p (cs_world st) of
             (None, w) \<Rightarrow> (None, st\<lparr>cs_world := w\<rparr>)
           | (Some src, w) \<Rightarrow>
               (Some src,
                case src of
                  Base64Source d \<Rightarrow> st\<lparr>cs_world := w\<rparr>
                | _ \<Rightarrow> st\<lparr>cs_world := w, cs_sidecar := mset_key (p, handle) src (cs_sidecar st)\<rparr>)))"

fun materializeParts ::
  "(string \<Rightarrow> ProviderId \<Rightarrow> 'w \<Rightarrow> MediaSource option \<times> 'w) \<Rightarrow> ProviderId \<Rightarrow> ContentPart list \<Rightarrow>
     'w ChainState \<Rightarrow> ContentPart list option \<times> 'w ChainState"
where
  "materializeParts resolve p [] st = (Some [], st)"
| "materializeParts resolve p (MediaPart mime (HandleSource handle) # cs) st =
     (case resolveHandle resolve p handle st of
        (None, st') \<Rightarrow> (None, st')
      | (Some src, st') \<Rightarrow>
          (case materializeParts resolve p cs st' of
             (done, st'') \<Rightarrow> (map_option ((#) (MediaPart mime src)) done, st'')))"
| "materializeParts resolve p (c # cs) st =
     (case materializeParts resolve p cs st of (done, st') \<Rightarrow> (map_option ((#) c) done, st'))"

fun materializeMessages ::
  "(string \<Rightarrow> ProviderId \<Rightarrow> 'w \<Rightarrow> MediaSource option \<times> 'w) \<Rightarrow> ProviderId \<Rightarrow> LlmMessage list \<Rightarrow>
     'w ChainState \<Rightarrow> LlmMessage list option \<times> 'w ChainState"
where
  "materializeMessages resolve p [] st = (Some [], st)"
| "materializeMessages resolve p (m # ms) st =
     (case materializeParts resolve p (lm_content m) st of
        (None, st') \<Rightarrow> (None, st')
      | (Some content, st') \<Rightarrow>
          (case materializeMessages resolve p ms st' of
             (done, st'') \<Rightarrow> (map_option ((#) (m\<lparr>lm_content := content\<rparr>)) done, st'')))"

fun isHandleMedia :: "ContentPart \<Rightarrow> bool" where
  "isHandleMedia (MediaPart mime (HandleSource handle)) = True"
| "isHandleMedia c = False"

definition hasHandleMedia :: "LlmRequest \<Rightarrow> bool" where
  "hasHandleMedia req = list_ex (\<lambda>m. list_ex isHandleMedia (lm_content m)) (rq_messages req)"

definition materializeMedia ::
  "'w ChainHost \<Rightarrow> LlmRequest \<Rightarrow> ProviderId \<Rightarrow> 'w ChainState \<Rightarrow> LlmRequest option \<times> 'w ChainState"
where
  "materializeMedia h req p st =
     (case ch_resolveForEgress h of
        None \<Rightarrow> (Some req, st)
      | Some resolve \<Rightarrow>
          if \<not> hasHandleMedia req then (Some req, st)
          else (case materializeMessages resolve p (rq_messages req) st of
                  (done, st') \<Rightarrow> (map_option (\<lambda>ms. req\<lparr>rq_messages := ms\<rparr>) done, st')))"

text \<open>\<open>#materializeForEntry\<close>: a failure is a reported attempt, and the chain moves on.\<close>

definition materializeForEntry ::
  "'w ChainHost \<Rightarrow> FallbackPlanEntry \<Rightarrow> LlmRequest \<Rightarrow> ChainRun \<Rightarrow> 'w ChainState \<Rightarrow>
     LlmRequest option \<times> ChainRun \<times> 'w ChainState"
where
  "materializeForEntry h entry req run st =
     (case materializeMedia h req (pe_provider entry) st of
        (Some req', st') \<Rightarrow> (Some req', run, st')
      | (None, st') \<Rightarrow>
          (let e = makeLlmError (pe_provider entry) UnknownKind MediaNotMaterialized
           in case nextRecord entry (run\<lparr>cr_lastError := Some e\<rparr>) of
                (record, run') \<Rightarrow> (None, run', emitAttempt (record\<lparr>ar_error := Some e\<rparr>) st')))"

definition skipReason ::
  "'w ChainHost \<Rightarrow> FallbackPlanEntry \<Rightarrow> LlmRequest \<Rightarrow> bool \<Rightarrow> 'w ChainState \<Rightarrow> string option"
where
  "skipReason h entry req streaming st =
     (if (case mget (cs_cooldownUntil st) (pe_provider entry) of
            None \<Rightarrow> False | Some until \<Rightarrow> ch_now h (cs_world st) < until)
      then Some COOLDOWN_SKIP_REASON
      else if streaming \<and> \<not> pe_streaming entry then Some ''provider does not support streaming''
      else map_option (\<lambda>r. ''provider cannot serve the request: '' @ r) (ch_supportReason h req (candidateFor entry)))"

fun streamEntries ::
  "'w ChainHost \<Rightarrow> ProviderId \<Rightarrow> FallbackPlanEntry list \<Rightarrow> string list \<Rightarrow> ChainRun \<Rightarrow> 'w ChainState \<Rightarrow>
     StreamChunk list \<times> ChainRun \<times> 'w ChainState"
where
  "streamEntries h exhausted [] skipped run st =
     ([ErrorChunk (case cr_lastError run of Some e \<Rightarrow> e | None \<Rightarrow> exhaustedError exhausted skipped)], run, st)"
| "streamEntries h exhausted (entry # plan) skipped run st =
     (if ch_aborted h (cs_world st) then ([ErrorChunk (cancelledError (pe_provider entry))], run, st)
      else case skipReason h entry (cr_req run) True st of
        Some skip \<Rightarrow>
          (case nextRecord entry run of
             (record, run') \<Rightarrow>
               streamEntries h exhausted plan (skipped @ [skip]) run'
                 (emitAttempt (record\<lparr>ar_outcome := SkippedEntry, ar_skipReason := Some skip\<rparr>) st))
      | None \<Rightarrow>
          (case beginEntry (ch_capPlan h) (ch_accepts h) entry run of
             None \<Rightarrow>
               (case nextRecord entry run of
                  (record, run') \<Rightarrow>
                    (case emitFailure h record (errorOf ThrownCap (pe_provider entry)) st of
                       (e, st') \<Rightarrow> ([ErrorChunk e], run', st')))
           | Some (selected, run1) \<Rightarrow>
               (case materializeForEntry h entry selected run1 st of
                  (None, run2, st2) \<Rightarrow> streamEntries h exhausted plan skipped run2 st2
                | (Some req, run2, st2) \<Rightarrow>
                    (case runEntryStream h entry req 1 0 run2 st2 of
                       (ys, EntryDone, run3, st3) \<Rightarrow> (ys, run3, st3)
                     | (ys, EntryAdvance, run3, st3) \<Rightarrow>
                         (case streamEntries h exhausted plan skipped run3 st3 of (zs, r) \<Rightarrow> (ys @ zs, r))))))"

text \<open>
  \<open>stream(request)\<close> on a chain with a non-empty plan. A request that cannot be taken over is a failure of
  the first entry; otherwise the latch of the call is folded back when it ends.
\<close>

definition captureFailureRecord :: "FallbackPlanEntry \<Rightarrow> AttemptRecord" where
  "captureFailureRecord entry =
     \<lparr>ar_attemptNumber = 1, ar_contentReceived = False, ar_providerInvoked = False,
      ar_customEndpoint = pe_customEndpoint entry, ar_provider = pe_provider entry,
      ar_model = pe_model entry, ar_outcome = FailedAttempt, ar_usage = None, ar_invocation = None,
      ar_coverageOnly = False, ar_receiptPending = False, ar_receiptFinal = False, ar_cost = None,
      ar_error = None, ar_skipReason = None, ar_unpriced = False\<rparr>"

definition streamCall ::
  "'w ChainHost \<Rightarrow> FallbackPlanEntry list \<Rightarrow> LlmRequest \<Rightarrow> 'w ChainState \<Rightarrow> StreamChunk list \<times> 'w ChainState"
where
  "streamCall h plan request st =
     (case ch_capture h request of
        Some fault \<Rightarrow>
          (let t = (case fault of RequestRefused \<Rightarrow> ThrownCap | CaptureFaulted \<Rightarrow> ThrownOther)
           in case emitFailure h (captureFailureRecord (hd plan)) (errorOf t (pe_provider (hd plan))) st of
                (e, st') \<Rightarrow> ([ErrorChunk e], st'))
      | None \<Rightarrow>
          (case streamEntries h (pe_provider (last plan)) plan [] (newRun request (cs_lastIssuer st)) st of
             (ys, run, st') \<Rightarrow> (ys, st'\<lparr>cs_lastIssuer := cr_lastIssuer run\<rparr>)))"

text \<open>A chain as it is constructed: the plan is not empty and every budget is positive.\<close>

definition chainPlan :: "FallbackPlanEntry list \<Rightarrow> bool" where
  "chainPlan plan = (plan \<noteq> [] \<and> list_all (\<lambda>entry. 1 \<le> pe_maxAttempts entry) plan)"

definition newChain :: "'w \<Rightarrow> 'w ChainState" where
  "newChain w =
     \<lparr>cs_cooldownUntil = [], cs_authRefreshed = [], cs_sidecar = [], cs_lastIssuer = None, cs_cumulative = 0,
      cs_attempts = [], cs_calls = [], cs_world = w\<rparr>"

end
