(* ===== verification/Chain_Laws.thy ===== *)
theory Chain_Laws
  imports Fallback_Chain
begin

text \<open>
  What the fallback chain keeps: the report of a call (records, calls over the seam, the running total), the
  shape of what it yields, and the removal of provider-signed parts.
\<close>

section \<open>Reports\<close>

definition recordCost :: "AttemptRecord \<Rightarrow> int" where
  "recordCost r = (case ar_cost r of None \<Rightarrow> 0 | Some c \<Rightarrow> cu_costMicrocents c)"

definition recordIssuer :: "AttemptRecord \<Rightarrow> ProviderId \<times> string" where
  "recordIssuer r = (ar_provider r, ar_model r)"

definition callIssuer :: "SeamCall \<Rightarrow> ProviderId \<times> string" where
  "callIssuer c = (sc_provider c, sc_model c)"

text \<open>
  From one state to another the observer got the records \<open>rs\<close>, numbered on from \<open>n\<close>, the providers got the
  calls \<open>cs\<close>, one for every record of an invoked attempt, and the total grew by the costs in the records.
\<close>

definition reports ::
  "nat \<Rightarrow> 'w ChainState \<Rightarrow> 'w ChainState \<Rightarrow> AttemptRecord list \<Rightarrow> SeamCall list \<Rightarrow> bool"
where
  "reports n st st' rs cs =
     (cs_attempts st' = cs_attempts st @ rs \<and> cs_calls st' = cs_calls st @ cs \<and>
      cs_cumulative st' = cs_cumulative st + sum_list (map recordCost rs) \<and>
      map ar_attemptNumber rs = [n + 1 ..< n + 1 + length rs] \<and>
      map recordIssuer (filter ar_providerInvoked rs) = map callIssuer cs)"

lemma reports_none [simp, intro]: "reports n st st [] []"
  by (simp add: reports_def)

lemma reports_trans:
  assumes "reports n st st1 rs cs" and "reports (n + length rs) st1 st2 rs' cs'"
  shows "reports n st st2 (rs @ rs') (cs @ cs')"
proof -
  have "[n + 1 ..< n + 1 + length rs] @ [n + length rs + 1 ..< n + length rs + 1 + length rs'] =
        [n + 1 ..< n + 1 + length (rs @ rs')]"
    using upt_add_eq_append [of "n + 1" "n + 1 + length rs" "length rs'"]
    by (simp add: ac_simps del: upt_Suc)
  then show ?thesis using assms unfolding reports_def by (simp del: upt_Suc)
qed

lemma observedRecord_fields [simp]:
  "recordCost (observedRecord r) = recordCost r" "ar_attemptNumber (observedRecord r) = ar_attemptNumber r"
  "ar_providerInvoked (observedRecord r) = ar_providerInvoked r" "recordIssuer (observedRecord r) = recordIssuer r"
  "ar_contentReceived (observedRecord r) = ar_contentReceived r" "ar_cost (observedRecord r) = ar_cost r"
  by (simp_all add: observedRecord_def recordCost_def recordIssuer_def)

text \<open>Accounting leaves everything but the total alone, and the total grows by the cost it returns.\<close>

lemma foldUsage_total:
  "foldUsage h m u st = (None, st') \<Longrightarrow> cs_cumulative st' = cs_cumulative st \<and> cs_calls st' = cs_calls st \<and>
     cs_attempts st' = cs_attempts st"
  "foldUsage h m u st = (Some (c, b), st') \<Longrightarrow>
     cs_cumulative st' = cs_cumulative st + (case c of None \<Rightarrow> 0 | Some x \<Rightarrow> cu_costMicrocents x) \<and>
     cs_calls st' = cs_calls st \<and> cs_attempts st' = cs_attempts st"
  by (auto simp: foldUsage_def trackerRecord_def Let_def split: UsageEvidence.splits option.splits PriceResult.splits)

text \<open>One more record, which costs what the total grew by.\<close>

definition oneRecord :: "'w ChainState \<Rightarrow> 'w ChainState \<Rightarrow> AttemptRecord \<Rightarrow> bool \<Rightarrow> bool" where
  "oneRecord st st' r c =
     (\<exists>r'. cs_attempts st' = cs_attempts st @ [r'] \<and> cs_cumulative st' = cs_cumulative st + recordCost r' \<and>
        cs_calls st' = cs_calls st \<and> ar_attemptNumber r' = ar_attemptNumber r \<and>
        ar_providerInvoked r' = ar_providerInvoked r \<and> recordIssuer r' = recordIssuer r \<and>
        ar_contentReceived r' = c)"

lemma oneRecord_emit:
  assumes "cs_attempts st1 = cs_attempts st" "cs_cumulative st1 = cs_cumulative st + recordCost r1"
    "cs_calls st1 = cs_calls st" "ar_attemptNumber r1 = ar_attemptNumber r"
    "ar_providerInvoked r1 = ar_providerInvoked r" "recordIssuer r1 = recordIssuer r" "ar_contentReceived r1 = c"
  shows "oneRecord st (emitAttempt r1 st1) r c"
  using assms unfolding oneRecord_def
  by (intro exI [of _ "observedRecord r1"]) (simp add: emitAttempt_def)

lemma emitFailure_reports:
  assumes "emitFailure h r e st = (e', st')" "ar_cost r = None"
  shows "oneRecord st st' r (ar_contentReceived r)"
  using assms
  by (auto simp: emitFailure_def Let_def recordCost_def recordIssuer_def intro!: oneRecord_emit
      dest!: foldUsage_total split: option.splits prod.splits if_splits)

lemma emitFailure_uncommitted:
  assumes "emitFailure h r e st = (e', st')" "\<not> le_contentCommitted e"
  shows "\<not> le_contentCommitted e'"
  using assms
  by (auto simp: emitFailure_def makeLlmError_def Let_def split: option.splits prod.splits if_splits)

lemma settleUsage_reports:
  assumes "settleUsage h entry r u c cl st = (ys, f, st')" "ar_cost r = None"
  shows "oneRecord st st' r c"
  using assms
  by (auto simp: settleUsage_def Let_def recordCost_def recordIssuer_def intro!: oneRecord_emit
      dest!: foldUsage_total split: option.splits prod.splits if_splits)

lemma settleUsage_tail:
  "case settleUsage h entry r u c cl st of (ys, f, st') \<Rightarrow>
     f = None \<and> (ys = [] \<or> (\<exists>e. ys = [ErrorChunk e] \<and> le_kind e = UnknownKind \<and> le_contentCommitted e = c))"
  unfolding settleUsage_def Let_def
  by (cases c) (simp_all add: committedError_def makeLlmError_def split: option.split prod.split)

section \<open>One attempt\<close>

lemma isContentChunk_iff: "isContentChunk c = (\<not> isTerminal c)"
  by (cases c) auto

lemma forward_content: "list_all (\<lambda>c. \<not> isTerminal c) content \<Longrightarrow> forward content = (content, None)"
proof (induction content)
  case (Cons c cs)
  then show ?case by (cases c) auto
qed simp

lemma forward_stop:
  "list_all (\<lambda>c. \<not> isTerminal c) content \<Longrightarrow>
   forward (content @ [StopChunk r u]) = (content @ [StopChunk r u], None)"
proof (induction content)
  case (Cons c cs)
  then show ?case by (cases c) auto
qed simp

lemma forward_error:
  "list_all (\<lambda>c. \<not> isTerminal c) content \<Longrightarrow> forward (content @ [ErrorChunk e]) = (content, Some e)"
proof (induction content)
  case (Cons c cs)
  then show ?case by (cases c) auto
qed simp

text \<open>What the read loop does with a checked stream.\<close>

lemma forward_verified:
  obtains (stopped) content r u where
      "list_all (\<lambda>c. \<not> isTerminal c) content"
      "forward (vs_yields (verifyStreamGrammar p chunks e)) = (content @ [StopChunk r u], None)"
      "vs_end (verifyStreamGrammar p chunks e) = SourceEof"
    | (raised) content err where
      "list_all (\<lambda>c. \<not> isTerminal c) content"
      "forward (vs_yields (verifyStreamGrammar p chunks e)) = (content, Some err)"
      "vs_end (verifyStreamGrammar p chunks e) = SourceEof"
    | (broken) content where
      "list_all (\<lambda>c. \<not> isTerminal c) content"
      "forward (vs_yields (verifyStreamGrammar p chunks e)) = (content, None)"
      "vs_end (verifyStreamGrammar p chunks e) \<noteq> SourceEof"
proof -
  let ?v = "verifyStreamGrammar p chunks e"
  obtain content where content: "list_all (\<lambda>c. \<not> isTerminal c) content"
    and eof: "vs_end ?v = SourceEof \<Longrightarrow> \<exists>t. isTerminal t \<and> vs_yields ?v = content @ [t]"
    and other: "vs_end ?v \<noteq> SourceEof \<Longrightarrow> vs_yields ?v = content"
    by (rule verified_shape [of p chunks e]) blast
  show thesis
  proof (cases "vs_end ?v = SourceEof")
    case True
    then obtain t where t: "isTerminal t" "vs_yields ?v = content @ [t]" using eof by blast
    show thesis
    proof (cases t)
      case (StopChunk r u)
      then show thesis using stopped [of content r u] content t True forward_stop [OF content] by simp
    next
      case (ErrorChunk err)
      then show thesis using raised [of content err] content t True forward_error [OF content] by simp
    qed (use t in simp_all)
  next
    case False
    then show thesis using broken [of content] content other forward_content [OF content] by simp
  qed
qed

text \<open>
  What an attempt yields: content, and unless it hands a failure to the loop, a tail with the terminal.
\<close>

definition terminalTail :: "bool \<Rightarrow> StreamChunk list \<Rightarrow> bool" where
  "terminalTail committed tail =
     ((\<exists>r u. tail = [StopChunk r u]) \<or>
      (\<exists>e. tail = [ErrorChunk e] \<and> le_contentCommitted e = committed) \<or>
      (\<exists>r u e. tail = [StopChunk r u, ErrorChunk e] \<and> le_kind e = UnknownKind \<and> le_contentCommitted e = committed))"

definition streamShape :: "StreamChunk list \<Rightarrow> bool \<Rightarrow> bool" where
  "streamShape ys committed =
     (\<exists>content tail. ys = content @ tail \<and> list_all isContentChunk content \<and> committed = (content \<noteq> []) \<and>
        terminalTail committed tail)"

lemma failAttempt_tail:
  assumes "failAttempt h r x c s = (zs, f, s')" "\<not> le_contentCommitted x"
  shows "if c then f = None \<and> (\<exists>e. zs = [ErrorChunk e] \<and> le_contentCommitted e)
         else zs = [] \<and> (\<exists>e. f = Some e \<and> \<not> le_contentCommitted e)"
  using assms
  by (auto simp: failAttempt_def committedError_def dest!: emitFailure_uncommitted split: prod.splits if_splits)

lemma abortAware_own: "\<not> le_contentCommitted (abortAware b x p)"
  by (simp add: abortAware_def disown_def cancelledError_def makeLlmError_def)

lemma own_usage: "le_contentCommitted (x\<lparr>le_usage := u\<rparr>) = le_contentCommitted x"
  by simp

text \<open>The attempt from its call on: how the read loop ended, and which of the two ways out it takes.\<close>

lemma streamAttempt_cases:
  assumes "streamAttempt h entry req r st = (ys, committed, failure, st')"
  obtains (refused) t r1 w where "prologue h entry r (cs_world st) = (Inl t, r1, w)"
      "failAttempt h r1 (abortAware (ch_aborted h w) (errorOf t (pe_provider entry)) (pe_provider entry)) False
         (st\<lparr>cs_world := w\<rparr>) = (ys, failure, st')" "\<not> committed"
    | (failed) key r1 w1 w content b x tail where "prologue h entry r (cs_world st) = (Inr key, r1, w1)"
      "list_all isContentChunk content" "committed = (content \<noteq> [])" "ys = content @ tail"
      "\<not> le_contentCommitted x"
      "failAttempt h (r1\<lparr>ar_providerInvoked := True, ar_receiptPending := b\<rparr>) x committed (st\<lparr>cs_world := w, cs_calls := cs_calls st @
         [\<lparr>sc_provider = pe_provider entry, sc_model = pe_model entry, sc_request = req\<rparr>]\<rparr>) = (tail, failure, st')"
    | (ended) key r1 w1 w content s u usage cl tail where "prologue h entry r (cs_world st) = (Inr key, r1, w1)"
      "list_all isContentChunk content" "committed = (content \<noteq> [])" "ys = content @ StopChunk s u # tail"
      "settleUsage h entry (r1\<lparr>ar_providerInvoked := True\<rparr>) usage committed cl
         (st\<lparr>cs_world := w, cs_calls := cs_calls st @
         [\<lparr>sc_provider = pe_provider entry, sc_model = pe_model entry, sc_request = req\<rparr>]\<rparr>) = (tail, failure, st')"
proof (cases "prologue h entry r (cs_world st)")
  case (fields k r1 w1)
  let ?p = "pe_provider entry"
  have content: "list_all (\<lambda>c. \<not> isTerminal c) content \<Longrightarrow>
      list_all isContentChunk content \<and> list_ex isContentChunk content = (content \<noteq> [])" for content
    by (cases content) (auto simp: isContentChunk_iff list_all_iff)
  show thesis
  proof (cases k)
    case (Inl t)
    then show thesis
      using assms fields by (intro refused) (auto simp: streamAttempt_def Let_def split: prod.splits)
  next
    case (Inr key)
    obtain chunks e w where source: "ch_stream h entry req key w1 = ((chunks, e), w)"
      by (metis prod.exhaust)
    let ?v = "verifyStreamGrammar ?p chunks e"
    let ?st = "st\<lparr>cs_world := w, cs_calls := cs_calls st @
         [\<lparr>sc_provider = ?p, sc_model = pe_model entry, sc_request = req\<rparr>]\<rparr>"
    note unfolds = streamAttempt_def Let_def fields Inr prod.case sum.case source
    show thesis
    proof (cases rule: forward_verified [of ?p chunks e])
      case (stopped content s u)
      then have "list_ex isContentChunk (content @ [StopChunk s u]) = (content \<noteq> [])" using content by simp
      then obtain tail where "settleUsage h entry (r1\<lparr>ar_providerInvoked := True\<rparr>) (vs_usage ?v) (content \<noteq> [])
            (ch_disposeFails h w) ?st = (tail, failure, st')"
          "ys = (content @ [StopChunk s u]) @ tail" "committed = (content \<noteq> [])"
        using assms unfolding unfolds stopped(2) by (simp add: stopped(3) split: prod.splits)
      then show thesis using content [OF stopped(1)] fields Inr by (intro ended) auto
    next
      case (raised content err)
      then have ex: "list_ex isContentChunk content = (content \<noteq> [])" using content by simp
      have same: "r1\<lparr>ar_providerInvoked := True, ar_receiptPending := ar_receiptPending r1\<rparr>
          = r1\<lparr>ar_providerInvoked := True\<rparr>" by simp
      have "\<exists>x tail. \<not> le_contentCommitted x \<and>
          failAttempt h (r1\<lparr>ar_providerInvoked := True\<rparr>) x (content \<noteq> []) ?st = (tail, failure, st') \<and>
          ys = content @ tail \<and> committed = (content \<noteq> [])"
        using assms unfolding unfolds raised(2)
        by (cases "vs_usage ?v")
          (simp_all add: ex raised(3) split: prod.splits, (metis abortAware_own own_usage)+)
      then obtain x tail where way: "\<not> le_contentCommitted x"
          "failAttempt h (r1\<lparr>ar_providerInvoked := True, ar_receiptPending := ar_receiptPending r1\<rparr>) x
             (content \<noteq> []) ?st = (tail, failure, st')"
          "ys = content @ tail" "committed = (content \<noteq> [])"
        unfolding same by blast
      show thesis
        by (rule failed [OF fields [unfolded Inr] _ way(4,3,1) way(2) [folded way(4)]])
          (simp add: content [OF raised(1)])
    next
      case (broken content)
      then have ex: "list_ex isContentChunk content = (content \<noteq> [])" using content by simp
      have same: "r1\<lparr>ar_providerInvoked := True, ar_receiptPending := ar_receiptPending r1\<rparr>
          = r1\<lparr>ar_providerInvoked := True\<rparr>" by simp
      have "\<exists>b x tail. \<not> le_contentCommitted x \<and>
          failAttempt h (r1\<lparr>ar_providerInvoked := True, ar_receiptPending := b\<rparr>) x (content \<noteq> []) ?st
            = (tail, failure, st') \<and>
          ys = content @ tail \<and> committed = (content \<noteq> [])"
        using assms unfolding unfolds broken(2)
        by (cases "vs_usage ?v"; cases "vs_end ?v")
          (simp_all add: ex broken(3) split: prod.splits if_splits, (metis abortAware_own own_usage same)+)
      then obtain b x tail where way: "\<not> le_contentCommitted x"
          "failAttempt h (r1\<lparr>ar_providerInvoked := True, ar_receiptPending := b\<rparr>) x
             (content \<noteq> []) ?st = (tail, failure, st')"
          "ys = content @ tail" "committed = (content \<noteq> [])"
        by blast
      show thesis
        by (rule failed [OF fields [unfolded Inr] _ way(4,3,1) way(2) [folded way(4)]])
          (simp add: content [OF broken(1)])
    qed
  qed
qed

lemma streamShapeI:
  "list_all isContentChunk content \<Longrightarrow> committed = (content \<noteq> []) \<Longrightarrow> terminalTail committed tail \<Longrightarrow>
   ys = content @ tail \<Longrightarrow> streamShape ys committed"
  unfolding streamShape_def by blast

lemma streamAttempt_shape:
  assumes "streamAttempt h entry req r st = (ys, committed, failure, st')"
  shows "(case failure of None \<Rightarrow> streamShape ys committed
          | Some e \<Rightarrow> ys = [] \<and> \<not> committed \<and> \<not> le_contentCommitted e)"
  using assms
proof (cases rule: streamAttempt_cases)
  case refused
  then show ?thesis using failAttempt_tail abortAware_own by fastforce
next
  case (failed key r1 w1 w content b x tail)
  then show ?thesis
    using failAttempt_tail [OF failed(6,5)]
    by (auto simp: terminalTail_def intro!: streamShapeI split: if_splits)
next
  case (ended key r1 w1 w content s u usage cl tail)
  have "failure = None \<and> (tail = [] \<or>
      (\<exists>e. tail = [ErrorChunk e] \<and> le_kind e = UnknownKind \<and> le_contentCommitted e = committed))"
    using settleUsage_tail [where h = h and entry = entry and r = "r1\<lparr>ar_providerInvoked := True\<rparr>" and u = usage
        and c = committed and cl = cl and st = "st\<lparr>cs_world := w, cs_calls := cs_calls st @
         [\<lparr>sc_provider = pe_provider entry, sc_model = pe_model entry, sc_request = req\<rparr>]\<rparr>"]
    by (simp add: ended(5))
  then show ?thesis
    using ended(2-4) streamShapeI [of content committed "StopChunk s u # tail" ys]
    by (auto simp: terminalTail_def)
qed

text \<open>The report of one attempt.\<close>

lemma prologue_record:
  assumes "prologue h entry r w = (k, r1, w1)"
  shows "\<exists>i. r1 = r\<lparr>ar_invocation := i\<rparr>"
proof -
  have same: "\<exists>i. x = x\<lparr>ar_invocation := i\<rparr>" for x :: AttemptRecord
    by (rule exI [of _ "ar_invocation x"]) simp
  show ?thesis
    using assms
    by (auto simp: prologue_def Let_def intro: same split: prod.splits if_splits option.splits sum.splits)
qed

lemma nextRecord_fields:
  assumes "nextRecord entry run = (r, run1)"
  shows "ar_attemptNumber r = cr_attemptNumber run + 1" "recordIssuer r = (pe_provider entry, pe_model entry)"
    "\<not> ar_providerInvoked r" "\<not> ar_contentReceived r" "ar_cost r = None"
    "run1 = run\<lparr>cr_attemptNumber := cr_attemptNumber run + 1\<rparr>"
  using assms by (auto simp: nextRecord_def recordIssuer_def Let_def)

lemma oneRecord_reports:
  assumes "oneRecord st1 st' r c" "cs_attempts st1 = cs_attempts st" "cs_cumulative st1 = cs_cumulative st"
    "cs_calls st1 = cs_calls st @ cs" "ar_attemptNumber r = n + 1"
    "map callIssuer cs = (if ar_providerInvoked r then [recordIssuer r] else [])"
  obtains r' where "reports n st st' [r'] cs" "ar_contentReceived r' = c" "ar_providerInvoked r' = ar_providerInvoked r"
  using assms unfolding oneRecord_def reports_def by fastforce

lemma streamAttempt_reports:
  assumes "nextRecord entry run = (r, run1)" "streamAttempt h entry req r st = (ys, committed, failure, st')"
  obtains r' cs where "reports (cr_attemptNumber run) st st' [r'] cs" "ar_contentReceived r' = committed"
    "\<And>c. c \<in> set cs \<Longrightarrow> sc_request c = req \<and> callIssuer c = (pe_provider entry, pe_model entry)"
proof -
  note r = nextRecord_fields [OF assms(1)]
  let ?call = "\<lparr>sc_provider = pe_provider entry, sc_model = pe_model entry, sc_request = req\<rparr>"
  from assms(2) show thesis
  proof (cases rule: streamAttempt_cases)
    case (refused t r1 w)
    obtain i where r1: "r1 = r\<lparr>ar_invocation := i\<rparr>" using prologue_record [OF refused(1)] by blast
    have "oneRecord (st\<lparr>cs_world := w\<rparr>) st' (r1\<lparr>ar_contentReceived := False\<rparr>) False"
      using refused(2) r(5) by (auto simp: failAttempt_def r1 dest!: emitFailure_reports split: prod.splits if_splits)
    then obtain r' where "reports (cr_attemptNumber run) st st' [r'] []" "ar_contentReceived r' = False"
      by (rule oneRecord_reports [where st = st and cs = "[]"]) (use r r1 in \<open>auto simp: recordIssuer_def\<close>)
    then show thesis using that refused(3) by force
  next
    case (failed key r1 w1 w content b x tail)
    obtain i where r1: "r1 = r\<lparr>ar_invocation := i\<rparr>" using prologue_record [OF failed(1)] by blast
    let ?r2 = "r1\<lparr>ar_providerInvoked := True, ar_receiptPending := b\<rparr>"
    have "oneRecord (st\<lparr>cs_world := w, cs_calls := cs_calls st @ [?call]\<rparr>) st'
        (?r2\<lparr>ar_contentReceived := committed\<rparr>) committed"
      using failed(6) r(5) by (auto simp: failAttempt_def r1 dest!: emitFailure_reports split: prod.splits if_splits)
    then obtain r' where "reports (cr_attemptNumber run) st st' [r'] [?call]" "ar_contentReceived r' = committed"
      by (rule oneRecord_reports [where st = st and cs = "[?call]"])
        (use r r1 in \<open>auto simp: recordIssuer_def callIssuer_def\<close>)
    then show thesis using that by (force simp: callIssuer_def)
  next
    case (ended key r1 w1 w content s u usage cl tail)
    obtain i where r1: "r1 = r\<lparr>ar_invocation := i\<rparr>" using prologue_record [OF ended(1)] by blast
    have "oneRecord (st\<lparr>cs_world := w, cs_calls := cs_calls st @ [?call]\<rparr>) st'
        (r1\<lparr>ar_providerInvoked := True\<rparr>) committed"
      using settleUsage_reports [OF ended(5)] r(5) by (simp add: r1)
    then obtain r' where "reports (cr_attemptNumber run) st st' [r'] [?call]" "ar_contentReceived r' = committed"
      by (rule oneRecord_reports [where st = st and cs = "[?call]"])
        (use r r1 in \<open>auto simp: recordIssuer_def callIssuer_def\<close>)
    then show thesis using that by (force simp: callIssuer_def)
  qed
qed

section \<open>The attempts of an entry\<close>

text \<open>The loop as a relation, one rule for each way it ends or goes on.\<close>

inductive entryRuns ::
  "'w ChainHost \<Rightarrow> FallbackPlanEntry \<Rightarrow> LlmRequest \<Rightarrow> nat \<Rightarrow> nat \<Rightarrow> ChainRun \<Rightarrow> 'w ChainState \<Rightarrow>
     StreamChunk list \<Rightarrow> EntryAction \<Rightarrow> ChainRun \<Rightarrow> 'w ChainState \<Rightarrow> bool"
  for h entry req
where
  exhausted: "pe_maxAttempts entry + bonus < attempt \<Longrightarrow>
    entryRuns h entry req attempt bonus run st [] EntryAdvance run st"
| aborted: "attempt \<le> pe_maxAttempts entry + bonus \<Longrightarrow>
    entryRuns h entry req attempt bonus run st [ErrorChunk (cancelledError (pe_provider entry))] EntryDone run st"
| settled: "attempt \<le> pe_maxAttempts entry + bonus \<Longrightarrow> nextRecord entry run = (r, run1) \<Longrightarrow>
    streamAttempt h entry req r st = (ys, c, None, st1) \<Longrightarrow>
    entryRuns h entry req attempt bonus run st ys EntryDone run1 st1"
| fatal: "attempt \<le> pe_maxAttempts entry + bonus \<Longrightarrow> nextRecord entry run = (r, run1) \<Longrightarrow>
    streamAttempt h entry req r st = ([], False, Some e, st1) \<Longrightarrow>
    afterFailure h entry e st1 = (FatalVerdict, st2) \<Longrightarrow>
    entryRuns h entry req attempt bonus run st [ErrorChunk e] EntryDone (run1\<lparr>cr_lastError := Some e\<rparr>) st2"
| advanced: "attempt \<le> pe_maxAttempts entry + bonus \<Longrightarrow> nextRecord entry run = (r, run1) \<Longrightarrow>
    streamAttempt h entry req r st = ([], False, Some e, st1) \<Longrightarrow>
    afterFailure h entry e st1 = (AdvanceVerdict, st2) \<Longrightarrow>
    entryRuns h entry req attempt bonus run st [] EntryAdvance (run1\<lparr>cr_lastError := Some e\<rparr>) st2"
| refreshed: "attempt \<le> pe_maxAttempts entry + bonus \<Longrightarrow> nextRecord entry run = (r, run1) \<Longrightarrow>
    streamAttempt h entry req r st = ([], False, Some e, st1) \<Longrightarrow>
    afterFailure h entry e st1 = (AuthRefreshed, st2) \<Longrightarrow>
    entryRuns h entry req (attempt + 1) (bonus + 1) (run1\<lparr>cr_lastError := Some e\<rparr>) st2 zs act run' st' \<Longrightarrow>
    entryRuns h entry req attempt bonus run st zs act run' st'"
| retried: "attempt \<le> pe_maxAttempts entry + bonus \<Longrightarrow> nextRecord entry run = (r, run1) \<Longrightarrow>
    streamAttempt h entry req r st = ([], False, Some e, st1) \<Longrightarrow>
    afterFailure h entry e st1 = (RetryableVerdict, st2) \<Longrightarrow>
    st3 = (if attempt < pe_maxAttempts entry + bonus then chainBackoff h entry (attempt - 1) e st2 else st2) \<Longrightarrow>
    entryRuns h entry req (attempt + 1) bonus (run1\<lparr>cr_lastError := Some e\<rparr>) st3 zs act run' st' \<Longrightarrow>
    entryRuns h entry req attempt bonus run st zs act run' st'"

lemma runEntryStream_runs:
  "runEntryStream h entry req attempt bonus run st = (ys, act, run', st') \<Longrightarrow>
   entryRuns h entry req attempt bonus run st ys act run' st'"
proof (induction h entry req attempt bonus run st arbitrary: ys act run' st' rule: runEntryStream.induct)
  case (1 h entry req attempt bonus run st)
  obtain r run1 where next_eq: "nextRecord entry run = (r, run1)" by (metis prod.exhaust)
  obtain zs c f st1 where attempt_eq: "streamAttempt h entry req r st = (zs, c, f, st1)" by (metis prod.exhaust)
  note shape = streamAttempt_shape [OF attempt_eq]
  note eq = "1.prems" [unfolded runEntryStream.simps [of h entry req attempt bonus run st] Let_def next_eq prod.case
      attempt_eq]
  consider "pe_maxAttempts entry + bonus < attempt"
    | "attempt \<le> pe_maxAttempts entry + bonus" "ch_aborted h (cs_world st)"
    | "attempt \<le> pe_maxAttempts entry + bonus" "\<not> ch_aborted h (cs_world st)" "f = None"
    | e where "attempt \<le> pe_maxAttempts entry + bonus" "\<not> ch_aborted h (cs_world st)" "f = Some e"
    using leI by (cases f) blast+
  then show ?case
  proof cases
    case 1
    then show ?thesis using eq by (auto intro: exhausted)
  next
    case 2
    then show ?thesis using eq by (auto intro: aborted)
  next
    case 3
    then have "ys = zs" "act = EntryDone" "run' = run1" "st' = st1" using eq by (auto split: if_splits)
    then show ?thesis using settled [OF 3(1) next_eq] attempt_eq 3(3) by simp
  next
    case (4 e)
    then have fail: "zs = []" "\<not> c" using shape by auto
    have out: "streamAttempt h entry req r st = ([], False, Some e, st1)" using attempt_eq fail 4(3) by simp
    obtain v st2 where verdict: "afterFailure h entry e st1 = (v, st2)" by (metis prod.exhaust)
    note eq4 = eq [unfolded fail 4(3) option.case verdict prod.case]
    show ?thesis
    proof (cases v)
      case FatalVerdict
      then show ?thesis
        using eq4 4 fail(2) fatal [OF 4(1) next_eq out, of st2] verdict by auto
    next
      case AdvanceVerdict
      then show ?thesis
        using eq4 4 fail(2) advanced [OF 4(1) next_eq out, of st2] verdict by auto
    next
      case AuthRefreshed
      then obtain xs where rec: "runEntryStream h entry req (attempt + 1) (bonus + 1)
          (run1\<lparr>cr_lastError := Some e\<rparr>) st2 = (xs, act, run', st')" "ys = xs"
        using eq4 4 fail(2) by (auto split: prod.splits)
      have "entryRuns h entry req (attempt + 1) (bonus + 1) (run1\<lparr>cr_lastError := Some e\<rparr>) st2 xs act run' st'"
        by (rule "1.IH"(2)) (use 4 next_eq out verdict AuthRefreshed rec in auto)
      then show ?thesis using refreshed [OF 4(1) next_eq out] verdict AuthRefreshed rec(2) by simp
    next
      case RetryableVerdict
      then obtain xs where rec: "runEntryStream h entry req (attempt + 1) bonus (run1\<lparr>cr_lastError := Some e\<rparr>)
          (if attempt < pe_maxAttempts entry + bonus then chainBackoff h entry (attempt - 1) e st2 else st2)
            = (xs, act, run', st')" "ys = xs"
        using eq4 4 fail(2) by (auto split: prod.splits)
      have "entryRuns h entry req (attempt + 1) bonus (run1\<lparr>cr_lastError := Some e\<rparr>)
          (if attempt < pe_maxAttempts entry + bonus then chainBackoff h entry (attempt - 1) e st2 else st2)
          xs act run' st'"
        by (rule "1.IH"(1)) (use 4 next_eq out verdict RetryableVerdict rec in auto)
      then show ?thesis using retried [OF 4(1) next_eq out _ refl] verdict RetryableVerdict rec(2) by simp
    qed
  qed
qed

text \<open>
  What a stretch of a call does: its report, its bound, and that content is received by at most one attempt,
  the last. \<open>k\<close> is the budget of the stretch; a refreshed credential adds one call.
\<close>

definition grants :: "'w ChainState \<Rightarrow> 'w ChainState \<Rightarrow> nat" where
  "grants st st' = card (set (cs_authRefreshed st') - set (cs_authRefreshed st))"

definition stretch ::
  "nat \<Rightarrow> ChainRun \<Rightarrow> 'w ChainState \<Rightarrow> ChainRun \<Rightarrow> 'w ChainState \<Rightarrow> AttemptRecord list \<Rightarrow> SeamCall list \<Rightarrow> bool \<Rightarrow> bool"
where
  "stretch k run st run' st' rs cs committed =
     (reports (cr_attemptNumber run) st st' rs cs \<and> cr_attemptNumber run' = cr_attemptNumber run + length rs \<and>
      set (cs_authRefreshed st) \<subseteq> set (cs_authRefreshed st') \<and> length cs \<le> k + grants st st' \<and>
      filter ar_contentReceived rs = (if committed then [last rs] else []) \<and>
      ((\<forall>e. cr_lastError run = Some e \<longrightarrow> \<not> le_contentCommitted e) \<longrightarrow>
       (\<forall>e. cr_lastError run' = Some e \<longrightarrow> \<not> le_contentCommitted e)))"

lemma stretch_none [intro]: "stretch k run st run st [] [] False"
  by (simp add: stretch_def)

lemma grants_trans:
  assumes "set (cs_authRefreshed st) \<subseteq> set (cs_authRefreshed st1)"
    "set (cs_authRefreshed st1) \<subseteq> set (cs_authRefreshed st')"
  shows "grants st st1 + grants st1 st' = grants st st'"
proof -
  have "set (cs_authRefreshed st') - set (cs_authRefreshed st) =
      (set (cs_authRefreshed st1) - set (cs_authRefreshed st)) \<union> (set (cs_authRefreshed st') - set (cs_authRefreshed st1))"
    using assms by blast
  moreover have "(set (cs_authRefreshed st1) - set (cs_authRefreshed st)) \<inter>
      (set (cs_authRefreshed st') - set (cs_authRefreshed st1)) = {}" by blast
  ultimately show ?thesis unfolding grants_def by (simp add: card_Un_disjoint)
qed

lemma stretch_trans:
  assumes first: "stretch k run st run1 st1 rs cs False" and rest: "stretch k' run1 st1 run' st' rs' cs' committed"
  shows "stretch (k + k') run st run' st' (rs @ rs') (cs @ cs') committed"
proof -
  note f = first [unfolded stretch_def] and r = rest [unfolded stretch_def]
  have "reports (cr_attemptNumber run) st st' (rs @ rs') (cs @ cs')"
    using f r by (metis reports_trans)
  moreover have "length (cs @ cs') \<le> k + k' + grants st st'"
  proof -
    have "length cs \<le> k + grants st st1" "length cs' \<le> k' + grants st1 st'"
      "grants st st1 + grants st1 st' = grants st st'"
      using f r grants_trans [of st st1 st'] by blast+
    then show ?thesis by simp
  qed
  moreover have "filter ar_contentReceived (rs @ rs') = (if committed then [last (rs @ rs')] else [])"
  proof -
    have "filter ar_contentReceived rs = (if False then [last rs] else [])" using f by blast
    moreover have rest_only: "filter ar_contentReceived rs' = (if committed then [last rs'] else [])" using r by blast
    moreover have "committed \<Longrightarrow> rs' \<noteq> []" using rest_only by auto
    ultimately show ?thesis by simp
  qed
  moreover have "cr_attemptNumber run' = cr_attemptNumber run + length (rs @ rs')"
    using conjunct1 [OF conjunct2 [OF f]] conjunct1 [OF conjunct2 [OF r]] by simp
  moreover have "set (cs_authRefreshed st) \<subseteq> set (cs_authRefreshed st')" using f r by (meson subset_trans)
  moreover have "(\<forall>e. cr_lastError run = Some e \<longrightarrow> \<not> le_contentCommitted e) \<longrightarrow>
      (\<forall>e. cr_lastError run' = Some e \<longrightarrow> \<not> le_contentCommitted e)" using f r by (meson)
  ultimately show ?thesis unfolding stretch_def by (intro conjI)
qed

text \<open>A stretch that only changes what no report speaks of.\<close>

definition quiet :: "'w ChainState \<Rightarrow> 'w ChainState \<Rightarrow> bool" where
  "quiet st st' =
     (cs_attempts st' = cs_attempts st \<and> cs_calls st' = cs_calls st \<and> cs_cumulative st' = cs_cumulative st \<and>
      set (cs_authRefreshed st) \<subseteq> set (cs_authRefreshed st'))"

lemma quiet_stretch:
  "quiet st st' \<Longrightarrow> grants st st' \<le> n \<Longrightarrow> stretch 0 run st run st' [] [] False"
  by (simp add: quiet_def stretch_def reports_def)

lemma quiet_trans: "quiet st st1 \<Longrightarrow> quiet st1 st' \<Longrightarrow> quiet st st'"
  by (auto simp: quiet_def)

lemma quiet_simps [simp]: "quiet st st" "quiet st (chainBackoff h entry n e st)"
  by (simp_all add: quiet_def)

lemma afterFailure_quiet: "afterFailure h entry e st = (v, st') \<Longrightarrow> quiet st st'"
  by (auto simp: afterFailure_def quiet_def Let_def split: if_splits option.splits prod.splits)

text \<open>One attempt of a loop, with the quiet steps after it.\<close>

lemma attempt_stretch:
  assumes "nextRecord entry run = (r, run1)" "streamAttempt h entry req r st = (ys, c, f, st1)" "quiet st1 st2"
    "run2 = run1 \<or> (\<exists>e. run2 = run1\<lparr>cr_lastError := Some e\<rparr> \<and> \<not> le_contentCommitted e)"
  obtains r' cs where "stretch 1 run st run2 st2 [r'] cs c" "length cs \<le> 1"
    "\<And>s. s \<in> set cs \<Longrightarrow> sc_request s = req \<and> callIssuer s = (pe_provider entry, pe_model entry)"
proof -
  obtain r' cs where rep: "reports (cr_attemptNumber run) st st1 [r'] cs" "ar_contentReceived r' = c"
    and calls: "\<And>s. s \<in> set cs \<Longrightarrow> sc_request s = req \<and> callIssuer s = (pe_provider entry, pe_model entry)"
    using streamAttempt_reports [OF assms(1,2)] by blast
  have "length (map callIssuer cs) \<le> 1" using rep(1) unfolding reports_def by (metis length_filter_le length_map list.size(3,4) One_nat_def add.left_neutral Suc_eq_plus1)
  then have one: "length cs \<le> 1" by simp
  have auth: "cs_authRefreshed st1 = cs_authRefreshed st" using streamAttempt_authRefreshed [OF assms(2)] by simp
  have "stretch 1 run st run2 st2 [r'] cs c"
    using rep assms(3,4) one auth nextRecord_fields(6) [OF assms(1)]
    unfolding stretch_def reports_def quiet_def by auto
  then show thesis using that one calls by blast
qed

lemma stretch_granted:
  "stretch 1 run st run' st' rs cs c \<Longrightarrow> length cs \<le> 1 \<Longrightarrow> 1 \<le> grants st st' \<Longrightarrow> stretch 0 run st run' st' rs cs c"
  unfolding stretch_def by (elim conjE, intro conjI; (assumption | linarith))

lemma stretch_budget:
  "stretch k run st run' st' rs cs c \<Longrightarrow> k \<le> k' \<Longrightarrow> stretch k' run st run' st' rs cs c"
  unfolding stretch_def by (elim conjE, intro conjI; (assumption | linarith))

lemma error_shape [intro]: "\<not> le_contentCommitted e \<Longrightarrow> streamShape [ErrorChunk e] False"
  by (rule streamShapeI [of "[]"]) (auto simp: terminalTail_def)

lemma cancelled_uncommitted [simp]: "\<not> le_contentCommitted (cancelledError p)"
  by (simp add: cancelledError_def makeLlmError_def)

definition sameLatch :: "ChainRun \<Rightarrow> ChainRun \<Rightarrow> bool" where
  "sameLatch run run' =
     (cr_req run' = cr_req run \<and> cr_lastProvider run' = cr_lastProvider run \<and> cr_lastIssuer run' = cr_lastIssuer run)"

lemma sameLatch_next: "nextRecord entry run = (r, run1) \<Longrightarrow> sameLatch run run1"
  "nextRecord entry run = (r, run1) \<Longrightarrow> sameLatch (run1\<lparr>cr_lastError := x\<rparr>) run' \<Longrightarrow> sameLatch run run'"
  "nextRecord entry run = (r, run1) \<Longrightarrow> sameLatch run (run1\<lparr>cr_lastError := x\<rparr>)"
  by (auto simp: nextRecord_def sameLatch_def Let_def)

definition sentBy :: "FallbackPlanEntry \<Rightarrow> LlmRequest \<Rightarrow> SeamCall list \<Rightarrow> bool" where
  "sentBy entry req cs =
     list_all (\<lambda>s. sc_request s = req \<and> callIssuer s = (pe_provider entry, pe_model entry)) cs"

lemma sentBy_simps [simp]: "sentBy entry req []" "sentBy entry req (cs @ cs') = (sentBy entry req cs \<and> sentBy entry req cs')"
  by (simp_all add: sentBy_def)

lemma failedAttempt_stretch:
  assumes "nextRecord entry run = (r, run1)" "streamAttempt h entry req r st = ([], False, Some e, st1)" "quiet st1 st2"
  obtains r' cs where "stretch 1 run st (run1\<lparr>cr_lastError := Some e\<rparr>) st2 [r'] cs False" "length cs \<le> 1"
    "sentBy entry req cs" "\<not> le_contentCommitted e"
proof -
  have e: "\<not> le_contentCommitted e" using streamAttempt_shape [OF assms(2)] by simp
  then have "run1\<lparr>cr_lastError := Some e\<rparr> = run1 \<or>
      (\<exists>x. run1\<lparr>cr_lastError := Some e\<rparr> = run1\<lparr>cr_lastError := Some x\<rparr> \<and> \<not> le_contentCommitted x)" by blast
  from attempt_stretch [OF assms this] obtain r' cs where
    "stretch 1 run st (run1\<lparr>cr_lastError := Some e\<rparr>) st2 [r'] cs False" "length cs \<le> 1"
    "\<And>s. s \<in> set cs \<Longrightarrow> sc_request s = req \<and> callIssuer s = (pe_provider entry, pe_model entry)"
    by blast
  then show thesis using that e by (simp add: sentBy_def list_all_iff)
qed

text \<open>What the attempts of an entry do: with an advance nothing was yielded, otherwise a whole answer was.\<close>

definition actionShape :: "EntryAction \<Rightarrow> StreamChunk list \<Rightarrow> bool \<Rightarrow> bool" where
  "actionShape act ys committed =
     (case act of EntryAdvance \<Rightarrow> ys = [] \<and> \<not> committed | EntryDone \<Rightarrow> streamShape ys committed)"

lemma entryRuns_stretch:
  assumes "entryRuns h entry req attempt bonus run st ys act run' st'"
  shows "sameLatch run run' \<and> (\<exists>rs cs committed.
      stretch (pe_maxAttempts entry + bonus + 1 - attempt) run st run' st' rs cs committed \<and> sentBy entry req cs \<and>
      actionShape act ys committed)"
  using assms
proof induction
  case (exhausted bonus attempt run st)
  show ?case using stretch_none by (fastforce simp: sameLatch_def actionShape_def)
next
  case (aborted attempt bonus run st)
  have "actionShape EntryDone [ErrorChunk (cancelledError (pe_provider entry))] False"
    by (auto simp: actionShape_def)
  then show ?case using stretch_none sentBy_simps(1) by (fastforce simp: sameLatch_def)
next
  case (settled attempt bonus run r run1 st ys c st1)
  obtain r' cs where one: "stretch 1 run st run1 st1 [r'] cs c" "length cs \<le> 1"
    "\<And>s. s \<in> set cs \<Longrightarrow> sc_request s = req \<and> callIssuer s = (pe_provider entry, pe_model entry)"
    using attempt_stretch [OF settled(2,3), of st1 run1] by auto
  have "actionShape EntryDone ys c" using streamAttempt_shape [OF settled(3)] by (simp add: actionShape_def)
  moreover have "sentBy entry req cs" using one(3) by (auto simp: sentBy_def list_all_iff)
  moreover have "1 \<le> pe_maxAttempts entry + bonus + 1 - attempt" using settled(1) by simp
  ultimately show ?case using stretch_budget [OF one(1)] sameLatch_next(1) [OF settled(2)] by blast
next
  case (fatal attempt bonus run r run1 st e st1 st2)
  obtain r' cs where one: "stretch 1 run st (run1\<lparr>cr_lastError := Some e\<rparr>) st2 [r'] cs False" "length cs \<le> 1"
    and sent: "sentBy entry req cs" and e: "\<not> le_contentCommitted e"
    using failedAttempt_stretch [OF fatal(2,3) afterFailure_quiet [OF fatal(4)]] by blast
  have "actionShape EntryDone [ErrorChunk e] False" using e by (auto simp: actionShape_def)
  moreover have "1 \<le> pe_maxAttempts entry + bonus + 1 - attempt" using fatal(1) by simp
  ultimately show ?case using stretch_budget [OF one(1)] sent sameLatch_next(3) [OF fatal(2)] by blast
next
  case (advanced attempt bonus run r run1 st e st1 st2)
  obtain r' cs where one: "stretch 1 run st (run1\<lparr>cr_lastError := Some e\<rparr>) st2 [r'] cs False" "length cs \<le> 1"
    and sent: "sentBy entry req cs" and e: "\<not> le_contentCommitted e"
    using failedAttempt_stretch [OF advanced(2,3) afterFailure_quiet [OF advanced(4)]] by blast
  have "actionShape EntryAdvance [] False" by (simp add: actionShape_def)
  moreover have "1 \<le> pe_maxAttempts entry + bonus + 1 - attempt" using advanced(1) by simp
  ultimately show ?case using stretch_budget [OF one(1)] sent sameLatch_next(3) [OF advanced(2)] by blast
next
  case (refreshed attempt bonus run r run1 st e st1 st2 zs act run' st')
  obtain r' cs where one: "stretch 1 run st (run1\<lparr>cr_lastError := Some e\<rparr>) st2 [r'] cs False" "length cs \<le> 1"
    and sent: "sentBy entry req cs" and e: "\<not> le_contentCommitted e"
    using failedAttempt_stretch [OF refreshed(2,3) afterFailure_quiet [OF refreshed(4)]] by blast
  have "grants st st2 = 1"
    using afterFailure_auth [OF refreshed(4)] streamAttempt_authRefreshed [OF refreshed(3)] by (simp add: grants_def insert_Diff_if)
  then have zero: "stretch 0 run st (run1\<lparr>cr_lastError := Some e\<rparr>) st2 [r'] cs False"
    using stretch_granted [OF one(1,2)] by simp
  obtain rs cs' committed where rest: "stretch (pe_maxAttempts entry + (bonus + 1) + 1 - (attempt + 1))
      (run1\<lparr>cr_lastError := Some e\<rparr>) st2 run' st' rs cs' committed" "sentBy entry req cs'" "actionShape act zs committed"
    using refreshed.IH by blast
  have "stretch (pe_maxAttempts entry + bonus + 1 - attempt) run st run' st' ([r'] @ rs) (cs @ cs') committed"
    using stretch_budget [OF stretch_trans [OF zero rest(1)]] by simp
  moreover have "sentBy entry req (cs @ cs')" using sent rest(2) by simp
  ultimately show ?case using rest(3) sameLatch_next(2) [OF refreshed(2)] refreshed.IH by blast
next
  case (retried attempt bonus run r run1 st e st1 st2 st3 zs act run' st')
  have "quiet st1 st3" using quiet_trans [OF afterFailure_quiet [OF retried(4)]] retried(5) by simp
  then obtain r' cs where one: "stretch 1 run st (run1\<lparr>cr_lastError := Some e\<rparr>) st3 [r'] cs False"
    and sent: "sentBy entry req cs"
    using failedAttempt_stretch [OF retried(2,3)] by blast
  obtain rs cs' committed where rest: "stretch (pe_maxAttempts entry + bonus + 1 - (attempt + 1))
      (run1\<lparr>cr_lastError := Some e\<rparr>) st3 run' st' rs cs' committed" "sentBy entry req cs'" "actionShape act zs committed"
    using retried.IH by blast
  have "stretch (pe_maxAttempts entry + bonus + 1 - attempt) run st run' st' ([r'] @ rs) (cs @ cs') committed"
    using stretch_budget [OF stretch_trans [OF one rest(1)]] retried(1) by simp
  moreover have "sentBy entry req (cs @ cs')" using sent rest(2) by simp
  ultimately show ?case using rest(3) sameLatch_next(2) [OF retried(2)] retried.IH by blast
qed

section \<open>The walk over the plan\<close>

text \<open>
  The calls of one call, after the issuers in \<open>seen\<close>: a request carries no reasoning once another provider
  was called, and no continuation token once another provider or model was.
\<close>

definition cleanCall :: "(ProviderId \<times> string) list \<Rightarrow> SeamCall \<Rightarrow> bool" where
  "cleanCall seen c =
     ((list_ex (\<lambda>i. fst i \<noteq> sc_provider c) seen \<longrightarrow> noReasoning (sc_request c)) \<and>
      (list_ex (\<lambda>i. i \<noteq> callIssuer c) seen \<longrightarrow> noSignatures (sc_request c)))"

primrec cleanCalls :: "(ProviderId \<times> string) list \<Rightarrow> SeamCall list \<Rightarrow> bool" where
  "cleanCalls seen [] = True"
| "cleanCalls seen (c # cs) = (cleanCall seen c \<and> cleanCalls (seen @ [callIssuer c]) cs)"

lemma cleanCalls_append [simp]:
  "cleanCalls seen (cs @ cs') = (cleanCalls seen cs \<and> cleanCalls (seen @ map callIssuer cs) cs')"
  by (induction cs arbitrary: seen) auto

lemma cleanCalls_same:
  "sentBy entry req cs \<Longrightarrow> (list_ex (\<lambda>i. fst i \<noteq> pe_provider entry) seen \<longrightarrow> noReasoning req) \<Longrightarrow>
   (list_ex (\<lambda>i. i \<noteq> (pe_provider entry, pe_model entry)) seen \<longrightarrow> noSignatures req) \<Longrightarrow> cleanCalls seen cs"
proof (induction cs arbitrary: seen)
  case (Cons c cs)
  then have c: "callIssuer c = (pe_provider entry, pe_model entry)" "sc_request c = req" "sentBy entry req cs"
    "sc_provider c = pe_provider entry"
    by (auto simp: sentBy_def callIssuer_def)
  have "cleanCalls (seen @ [callIssuer c]) cs"
    by (rule Cons.IH) (use Cons.prems c in auto)
  then show ?case using Cons.prems c by (simp add: cleanCall_def)
qed simp

text \<open>The latch covers the issuers that were called.\<close>

definition latched :: "(ProviderId \<times> string) list \<Rightarrow> ChainRun \<Rightarrow> bool" where
  "latched seen run =
     ((noReasoning (cr_req run) \<or> list_all (\<lambda>i. cr_lastProvider run = Some (fst i)) seen) \<and>
      (noSignatures (cr_req run) \<or> list_all (\<lambda>i. cr_lastIssuer run = Some i) seen))"

lemma latched_sameLatch: "sameLatch run run' \<Longrightarrow> latched seen run' = latched seen run"
  by (simp add: sameLatch_def latched_def)

lemma latched_begin:
  assumes latch: "latched seen run" and begun: "beginEntry capPlan accepts entry run = Some (sent, run')"
  shows "list_ex (\<lambda>i. fst i \<noteq> pe_provider entry) seen \<longrightarrow> noReasoning sent"
    and "list_ex (\<lambda>i. i \<noteq> (pe_provider entry, pe_model entry)) seen \<longrightarrow> noSignatures sent"
    and "latched seen run'"
proof -
  note sent = beginEntry_sent [OF begun] and clean = beginEntry_clean [OF begun]
  show reasoning: "list_ex (\<lambda>i. fst i \<noteq> pe_provider entry) seen \<longrightarrow> noReasoning sent"
    unfolding sent(6) using clean(1) latch by (fastforce simp: latched_def list_ex_iff list_all_iff)
  show tokens: "list_ex (\<lambda>i. i \<noteq> (pe_provider entry, pe_model entry)) seen \<longrightarrow> noSignatures sent"
    unfolding sent(7) using clean(2) latch by (fastforce simp: latched_def list_ex_iff list_all_iff)
  show "latched seen run'"
    using reasoning tokens sent by (fastforce simp: latched_def list_ex_iff list_all_iff)
qed

lemma latched_more:
  assumes "latched seen run" "cr_lastProvider run = Some (pe_provider entry)"
    "cr_lastIssuer run = Some (pe_provider entry, pe_model entry)" "sentBy entry req cs"
  shows "latched (seen @ map callIssuer cs) run"
  using assms by (auto simp: latched_def sentBy_def list_all_iff)

subsection \<open>Media\<close>

lemma resolveHandle_quiet: "resolveHandle resolve p x st = (r, st') \<Longrightarrow> quiet st st'"
  by (auto simp: resolveHandle_def quiet_def split: option.splits prod.splits MediaSource.splits)

lemma materializeParts_keeps:
  "materializeParts resolve p cs st = (r, st') \<Longrightarrow>
   quiet st st' \<and> (\<forall>cs'. r = Some cs' \<longrightarrow> map isReasoning cs' = map isReasoning cs \<and> map hasSignature cs' = map hasSignature cs)"
proof (induction resolve p cs st arbitrary: r st' rule: materializeParts.induct)
  case (2 resolve p mime x cs st)
  then show ?case
    by (auto split: prod.splits option.splits dest: resolveHandle_quiet quiet_trans) (meson quiet_trans resolveHandle_quiet)+
qed (auto split: prod.splits)

lemma materializeMessages_keeps:
  "materializeMessages resolve p ms st = (r, st') \<Longrightarrow>
   quiet st st' \<and> (\<forall>ms'. r = Some ms' \<longrightarrow>
     map isReasoning (concat (map lm_content ms')) = map isReasoning (concat (map lm_content ms)) \<and>
     map hasSignature (concat (map lm_content ms')) = map hasSignature (concat (map lm_content ms)))"
proof (induction resolve p ms st arbitrary: r st' rule: materializeMessages.induct)
  case (2 resolve p m ms st)
  then show ?case
    by (auto split: prod.splits option.splits dest!: materializeParts_keeps intro: quiet_trans)
qed simp

lemma clean_cong:
  "map isReasoning (parts req') = map isReasoning (parts req) \<Longrightarrow> noReasoning req' = noReasoning req"
  "map hasSignature (parts req') = map hasSignature (parts req) \<Longrightarrow> noSignatures req' = noSignatures req"
proof -
  have "noReasoning r = (True \<notin> set (map isReasoning (parts r)))" "noSignatures r = (True \<notin> set (map hasSignature (parts r)))"
    for r by (auto simp: noReasoning_def noSignatures_def list_all_iff)
  then show "map isReasoning (parts req') = map isReasoning (parts req) \<Longrightarrow> noReasoning req' = noReasoning req"
    "map hasSignature (parts req') = map hasSignature (parts req) \<Longrightarrow> noSignatures req' = noSignatures req"
    by metis+
qed

lemma materializeMedia_keeps:
  assumes "materializeMedia h req p st = (r, st')"
  shows "quiet st st' \<and> (\<forall>req'. r = Some req' \<longrightarrow> noReasoning req' = noReasoning req \<and> noSignatures req' = noSignatures req)"
proof -
  have same: "noReasoning (req\<lparr>rq_messages := ms\<rparr>) = noReasoning req \<and> noSignatures (req\<lparr>rq_messages := ms\<rparr>) = noSignatures req"
    if "map isReasoning (concat (map lm_content ms)) = map isReasoning (concat (map lm_content (rq_messages req)))"
      "map hasSignature (concat (map lm_content ms)) = map hasSignature (concat (map lm_content (rq_messages req)))" for ms
    using clean_cong [of "req\<lparr>rq_messages := ms\<rparr>" req] that by (simp add: parts_def)
  show ?thesis
    using assms
    by (auto simp: materializeMedia_def dest!: materializeMessages_keeps same split: option.splits if_splits prod.splits)
qed

text \<open>A record of its own without a call: an entry that is skipped, or that fails before the seam.\<close>

lemma local_stretch:
  assumes "quiet st st1" "oneRecord st1 st' r False" "cs_authRefreshed st' = cs_authRefreshed st1"
    "ar_attemptNumber r = cr_attemptNumber run + 1" "\<not> ar_providerInvoked r"
    "cr_attemptNumber run' = cr_attemptNumber run + 1"
    "cr_lastError run' = cr_lastError run \<or> (\<exists>e. cr_lastError run' = Some e \<and> \<not> le_contentCommitted e)"
  obtains rs where "stretch 0 run st run' st' rs [] False"
proof -
  have quiet: "cs_attempts st1 = cs_attempts st" "cs_calls st1 = cs_calls st" "cs_cumulative st1 = cs_cumulative st"
    "set (cs_authRefreshed st) \<subseteq> set (cs_authRefreshed st1)" using assms(1) by (simp_all add: quiet_def)
  obtain r' where rep: "reports (cr_attemptNumber run) st st' [r'] []" "ar_contentReceived r' = False"
    by (rule oneRecord_reports [OF assms(2), where st = st and cs = "[]" and n = "cr_attemptNumber run"])
      (use quiet assms(4,5) in auto)
  have "stretch 0 run st run' st' [r'] [] False"
    using rep quiet(4) assms(3,6,7) unfolding stretch_def by auto
  then show thesis using that by blast
qed

lemma oneRecord_skip: "\<not> ar_contentReceived r \<Longrightarrow> ar_cost r = None \<Longrightarrow> oneRecord st (emitAttempt r st) r False"
  by (rule oneRecord_emit) (simp_all add: recordCost_def)

lemma exhausted_uncommitted [simp]: "\<not> le_contentCommitted (exhaustedError p rs)"
  by (simp add: exhaustedError_def makeLlmError_def)

text \<open>An entry that cannot begin fails on the spot.\<close>

lemma beginFailure_stretch:
  assumes "nextRecord entry run = (r, run1)" "emitFailure h r (errorOf ThrownCap (pe_provider entry)) st = (e, st')"
  obtains rs where "stretch 0 run st run1 st' rs [] False" "\<not> le_contentCommitted e"
proof -
  note r = nextRecord_fields [OF assms(1)]
  have "oneRecord st st' r False" using emitFailure_reports [OF assms(2) r(5)] r(4) by simp
  moreover have "cs_authRefreshed st' = cs_authRefreshed st" using emitFailure_keeps [OF assms(2)] by simp
  ultimately obtain rs where "stretch 0 run st run1 st' rs [] False"
    using local_stretch [of st st st' r run run1] r(1,3,6) by auto
  moreover have "\<not> le_contentCommitted e"
    by (rule emitFailure_uncommitted [OF assms(2)]) (simp add: errorOf_def makeLlmError_def)
  ultimately show thesis using that by blast
qed

lemma skip_stretch:
  assumes "nextRecord entry run = (r, run1)"
  obtains rs where "stretch 0 run st run1
    (emitAttempt (r\<lparr>ar_outcome := SkippedEntry, ar_skipReason := Some skip\<rparr>) st) rs [] False"
proof -
  note r = nextRecord_fields [OF assms]
  let ?r = "r\<lparr>ar_outcome := SkippedEntry, ar_skipReason := Some skip\<rparr>"
  show thesis
    by (rule local_stretch [of st st "emitAttempt ?r st" ?r run run1]) (use that r oneRecord_skip [of ?r st] in auto)
qed

lemma materializeForEntry_stretch:
  assumes "materializeForEntry h entry req run st = (out, run2, st2)"
  obtains rs where "stretch 0 run st run2 st2 rs [] False" "sameLatch run run2"
    "\<And>req'. out = Some req' \<Longrightarrow> noReasoning req' = noReasoning req \<and> noSignatures req' = noSignatures req"
proof (cases "materializeMedia h req (pe_provider entry) st")
  case (Pair out1 st1)
  note media = materializeMedia_keeps [OF Pair]
  show thesis
  proof (cases out1)
    case (Some req')
    then have eq: "out = Some req'" "run2 = run" "st2 = st1"
      using assms Pair by (simp_all add: materializeForEntry_def)
    have "stretch 0 run st run2 st2 [] [] False"
      using quiet_stretch [of st st1] media eq by blast
    then show thesis using that media Some eq by (auto simp: sameLatch_def)
  next
    case None
    let ?e = "makeLlmError (pe_provider entry) UnknownKind MediaNotMaterialized"
    obtain r run1 where next_eq: "nextRecord entry (run\<lparr>cr_lastError := Some ?e\<rparr>) = (r, run1)" by (metis prod.exhaust)
    note r = nextRecord_fields [OF next_eq]
    have eq: "out = None" "run2 = run1" "st2 = emitAttempt (r\<lparr>ar_error := Some ?e\<rparr>) st1"
      using assms Pair None next_eq by (simp_all add: materializeForEntry_def Let_def)
    have "oneRecord st1 st2 (r\<lparr>ar_error := Some ?e\<rparr>) False"
      unfolding eq(3) by (rule oneRecord_skip) (use r in auto)
    then obtain rs where "stretch 0 run st run2 st2 rs [] False"
      using local_stretch [of st st1 st2 "r\<lparr>ar_error := Some ?e\<rparr>" run run2] media r eq
      by (auto simp: makeLlmError_def)
    moreover have "sameLatch run run2" using r(6) eq by (simp add: sameLatch_def)
    ultimately show thesis using that eq(1) by blast
  qed
qed

lemma streamEntries_stretch:
  assumes "streamEntries h x plan skipped run st = (ys, run', st')" "latched seen run"
    "\<forall>e. cr_lastError run = Some e \<longrightarrow> \<not> le_contentCommitted e"
  shows "\<exists>rs cs c. stretch (sum_list (map pe_maxAttempts plan)) run st run' st' rs cs c \<and> streamShape ys c \<and>
    cleanCalls seen cs"
  using assms
proof (induction plan arbitrary: skipped run st ys run' st' seen)
  case Nil
  then have "run' = run" "st' = st" "streamShape ys False" by (auto split: option.splits)
  then show ?case using stretch_none by (metis cleanCalls.simps(1))
next
  case (Cons entry plan)
  let ?k = "pe_maxAttempts entry + sum_list (map pe_maxAttempts plan)"
  have go_on: "\<exists>rs cs c. stretch ?k run st run' st' rs cs c \<and> streamShape ys c \<and> cleanCalls seen cs"
    if first: "stretch k run st run1 st1 rs1 cs1 False" "k \<le> pe_maxAttempts entry" "cleanCalls seen cs1"
      "latched (seen @ map callIssuer cs1) run1" and rest: "streamEntries h x plan skipped1 run1 st1 = (ys, run', st')"
    for k run1 st1 rs1 cs1 skipped1
  proof -
    have "\<forall>e. cr_lastError run1 = Some e \<longrightarrow> \<not> le_contentCommitted e"
      using first(1) Cons.prems(3) by (simp add: stretch_def)
    from Cons.IH [OF rest first(4) this] obtain rs cs c where
      "stretch (sum_list (map pe_maxAttempts plan)) run1 st1 run' st' rs cs c" "streamShape ys c"
      "cleanCalls (seen @ map callIssuer cs1) cs" by blast
    then show ?thesis
      using stretch_budget [OF stretch_trans [OF first(1)], of _ run' st' rs cs c ?k] first(2,3)
      by (metis add_le_mono cleanCalls_append order_refl)
  qed
  show ?case
  proof (cases "ch_aborted h (cs_world st)")
    case True
    then have "run' = run" "st' = st" "streamShape ys False" using Cons.prems(1) by auto
    then show ?thesis using stretch_none by (metis cleanCalls.simps(1))
  next
    case live: False
    obtain r run1 where next_eq: "nextRecord entry run = (r, run1)" by (metis prod.exhaust)
    have latch1: "latched seen run1" using sameLatch_next(1) [OF next_eq] latched_sameLatch Cons.prems(2) by blast
    show ?thesis
    proof (cases "skipReason h entry (cr_req run) True st")
      case (Some skip)
      obtain rs where "stretch 0 run st run1
          (emitAttempt (r\<lparr>ar_outcome := SkippedEntry, ar_skipReason := Some skip\<rparr>) st) rs [] False"
        using skip_stretch [OF next_eq] by blast
      then show ?thesis using go_on latch1 Cons.prems(1) live Some next_eq by fastforce
    next
      case None
      show ?thesis
      proof (cases "beginEntry (ch_capPlan h) (ch_accepts h) entry run")
        case refused: None
        obtain e st1 where fail: "emitFailure h r (errorOf ThrownCap (pe_provider entry)) st = (e, st1)"
          by (metis prod.exhaust)
        obtain rs where rs: "stretch 0 run st run1 st1 rs [] False" "\<not> le_contentCommitted e"
          using beginFailure_stretch [OF next_eq fail] by blast
        have "ys = [ErrorChunk e]" "run' = run1" "st' = st1"
          using Cons.prems(1) live None refused next_eq fail by simp_all
        then show ?thesis using stretch_budget [OF rs(1), of ?k] error_shape [OF rs(2)] by fastforce
      next
        case (Some begun)
        obtain sent runb where begun: "begun = (sent, runb)" by (metis prod.exhaust)
        note begun_eq = Some [unfolded begun]
        note latch = latched_begin [OF Cons.prems(2) begun_eq] and fields = beginEntry_sent [OF begun_eq]
        have begin_stretch: "stretch 0 run st runb st [] [] False" using fields by (simp add: stretch_def)
        obtain out run2 st2 where media: "materializeForEntry h entry sent runb st = (out, run2, st2)"
          by (metis prod.exhaust)
        obtain rs2 where rs2: "stretch 0 runb st run2 st2 rs2 [] False" "sameLatch runb run2"
          "\<And>req'. out = Some req' \<Longrightarrow> noReasoning req' = noReasoning sent \<and> noSignatures req' = noSignatures sent"
          using materializeForEntry_stretch [OF media] by blast
        have upto: "stretch 0 run st run2 st2 rs2 [] False" using stretch_trans [OF begin_stretch rs2(1)] by simp
        have latch2: "latched seen run2" using latched_sameLatch [OF rs2(2)] latch(3) by simp
        show ?thesis
        proof (cases out)
          case none: None
          then show ?thesis using go_on upto latch2 Cons.prems(1) live None begun_eq media by fastforce
        next
          case (Some req)
          obtain zs act run3 st3 where runs: "runEntryStream h entry req 1 0 run2 st2 = (zs, act, run3, st3)"
            by (metis prod.exhaust)
          obtain rs cs c where entry: "sameLatch run2 run3"
              "stretch (pe_maxAttempts entry) run2 st2 run3 st3 rs cs c" "sentBy entry req cs" "actionShape act zs c"
            using entryRuns_stretch [OF runEntryStream_runs [OF runs]] by auto
          have sofar: "stretch (pe_maxAttempts entry) run st run3 st3 (rs2 @ rs) cs c"
            using stretch_trans [OF upto entry(2)] by simp
          have clean: "cleanCalls seen cs"
            using cleanCalls_same [OF entry(3)] latch(1,2) rs2(3) [OF Some] by simp
          have "latched (seen @ map callIssuer cs) run3"
            using latched_more [OF _ _ _ entry(3)] latch2 fields(2,3) rs2(2) entry(1) latched_sameLatch
            by (metis sameLatch_def)
          then show ?thesis
            using go_on sofar clean entry(4) Cons.prems(1) live None begun_eq media Some runs
              stretch_budget [OF sofar, of ?k]
            by (cases act) (fastforce simp: actionShape_def split: prod.splits)+
        qed
      qed
    qed
  qed
qed

end
