(* ===== verification/Js_String.thy ===== *)
theory Js_String
  imports Js_Number
begin

text \<open>
  String operations of JavaScript that several components use: \<open>split\<close>, \<open>startsWith\<close>,
  \<open>endsWith\<close>, \<open>toLowerCase\<close>, \<open>Number.prototype.toString\<close>, \<open>encodeURIComponent\<close> and its inverse, on
  strings of 8-bit characters. The laws are the ones their users need: what \<open>split\<close> does to joined parts, that
  printed numbers read back, and that an encoded component decodes to itself and has no separator.
\<close>

section \<open>Parts of a string\<close>

definition startsWith :: "string \<Rightarrow> string \<Rightarrow> bool" where
  "startsWith p s = (take (length p) s = p)"

definition endsWith :: "string \<Rightarrow> string \<Rightarrow> bool" where
  "endsWith p s = (length p \<le> length s \<and> drop (length s - length p) s = p)"

fun splitOn :: "char \<Rightarrow> string \<Rightarrow> string list" where
  "splitOn c [] = [[]]"
| "splitOn c (x # xs) =
     (if x = c then [] # splitOn c xs
      else case splitOn c xs of [] \<Rightarrow> [[x]] | p # ps \<Rightarrow> (x # p) # ps)"

lemma splitOn_not_Nil [simp]: "splitOn c s \<noteq> []"
  by (induction s) (auto split: list.splits)

lemma splitOn_alone: "c \<notin> set a \<Longrightarrow> splitOn c a = [a]"
  by (induction a) auto

lemma splitOn_append: "c \<notin> set a \<Longrightarrow> splitOn c (a @ c # b) = a # splitOn c b"
  by (induction a) auto

lemma startsWith_append [simp]: "startsWith (a @ b) (a @ c) = startsWith b c"
  by (simp add: startsWith_def)

lemma startsWith_iff: "startsWith p s \<longleftrightarrow> (\<exists>r. s = p @ r)"
  by (metis append_eq_conv_conj append_take_drop_id startsWith_def)

section \<open>Lower case\<close>

definition lowerChar :: "char \<Rightarrow> char" where
  "lowerChar c =
     (let n = (of_char c :: nat)
      in if (65 \<le> n \<and> n \<le> 90) \<or> (192 \<le> n \<and> n \<le> 222 \<and> n \<noteq> 215) then char_of (n + 32) else c)"

definition toLowerCase :: "string \<Rightarrow> string" where
  "toLowerCase s = map lowerChar s"

lemma of_char_lowerChar:
  "(of_char (lowerChar c) :: nat) =
     (let n = of_char c in if (65 \<le> n \<and> n \<le> 90) \<or> (192 \<le> n \<and> n \<le> 222 \<and> n \<noteq> 215) then n + 32 else n)"
  by (auto simp: lowerChar_def Let_def)

lemma lowerChar_same: "(of_char c :: nat) < 65 \<or> (91 \<le> (of_char c :: nat) \<and> (of_char c :: nat) < 192) \<Longrightarrow> lowerChar c = c"
  by (auto simp: lowerChar_def Let_def)

lemma lowerChar_idem [simp]: "lowerChar (lowerChar c) = lowerChar c"
  by (simp add: lowerChar_def of_char_lowerChar Let_def)

lemma toLowerCase_idem [simp]: "toLowerCase (toLowerCase s) = toLowerCase s"
  by (simp add: toLowerCase_def)

section \<open>Printed numbers\<close>

definition digitChar :: "nat \<Rightarrow> char" where
  "digitChar d = char_of (if d < 10 then 48 + d else 87 + d)"

fun radixString :: "nat \<Rightarrow> nat \<Rightarrow> string" where
  "radixString r n = (if r < 2 \<or> n < r then [digitChar n] else radixString r (n div r) @ [digitChar (n mod r)])"

declare radixString.simps [simp del]

abbreviation decimal :: "nat \<Rightarrow> string" where
  "decimal \<equiv> radixString 10"

lemma digitValue_digitChar: "d < 16 \<Longrightarrow> digitValue (digitChar d) = Some d"
  by (auto simp: digitValue_def digitChar_def Let_def)

lemma isDigit_digitChar: "d < 10 \<Longrightarrow> isDigit (digitChar d)"
  by (simp add: isDigit_def digitChar_def Let_def)

lemma radixValue_append:
  "radixValue r a (s @ t) = (case radixValue r a s of None \<Rightarrow> None | Some b \<Rightarrow> radixValue r b t)"
  by (induction s arbitrary: a) (auto split: option.splits)

lemma radixString_not_Nil [simp]: "radixString r n \<noteq> []"
  by (subst radixString.simps) simp

lemma radixValue_radixString:
  assumes "2 \<le> r" "r \<le> 16"
  shows "radixValue r 0 (radixString r n) = Some n"
proof (induction n rule: less_induct)
  case (less n)
  show ?case
  proof (cases "n < r")
    case True
    then show ?thesis using assms by (subst radixString.simps) (simp add: digitValue_digitChar)
  next
    case False
    then have "n div r < n" "n mod r < r" "n mod r < 16" using assms by (auto simp: div_less_dividend intro: less_le_trans [of _ r])
    with less False show ?thesis
      using assms by (subst radixString.simps) (simp add: radixValue_append digitValue_digitChar)
  qed
qed

lemma digitsValue_radixString: "2 \<le> r \<Longrightarrow> r \<le> 16 \<Longrightarrow> digitsValue r (radixString r n) = Some n"
  by (simp add: digitsValue_def radixValue_radixString)

lemma digits_decimal: "list_all isDigit (decimal n)"
proof (induction n rule: less_induct)
  case (less n)
  show ?case
  proof (cases "n < 10")
    case True
    then show ?thesis by (subst radixString.simps) (simp add: isDigit_digitChar)
  next
    case False
    then have "list_all isDigit (decimal (n div 10))" by (intro less) simp
    with False show ?thesis by (subst radixString.simps) (simp add: isDigit_digitChar)
  qed
qed

lemma decimal_inj: "decimal m = decimal n \<longleftrightarrow> m = n"
proof
  assume "decimal m = decimal n"
  then have "digitsValue 10 (decimal m) = digitsValue 10 (decimal n)" by simp
  then show "m = n" by (simp add: digitsValue_radixString)
qed simp

section \<open>Encoded components\<close>

text \<open>
  \<open>encodeURIComponent\<close> keeps the unreserved characters and writes the bytes of the UTF-8 form of the others;
  an 8-bit character has one or two of them. The inverse is undefined on what no such character encodes to.
\<close>

definition isUnreserved :: "char \<Rightarrow> bool" where
  "isUnreserved c = (isWord c \<or> c \<in> set [CHR ''-'', CHR ''.'', CHR ''!'', CHR ''~'', CHR ''*'', quote_s, CHR ''('', CHR '')''])"

definition upperHex :: "nat \<Rightarrow> char" where
  "upperHex d = char_of (if d < 10 then 48 + d else 55 + d)"

definition percentByte :: "nat \<Rightarrow> string" where
  "percentByte n = [CHR ''%'', upperHex (n div 16), upperHex (n mod 16)]"

definition encodeChar :: "char \<Rightarrow> string" where
  "encodeChar c =
     (let n = (of_char c :: nat)
      in if isUnreserved c then [c]
         else if n < 128 then percentByte n
         else percentByte (192 + n div 64) @ percentByte (128 + n mod 64))"

definition encodeURIComponent :: "string \<Rightarrow> string" where
  "encodeURIComponent s = concat (map encodeChar s)"

definition hexByte :: "char \<Rightarrow> char \<Rightarrow> nat option" where
  "hexByte h l =
     (case (digitValue h, digitValue l) of (Some a, Some b) \<Rightarrow> Some (16 * a + b) | _ \<Rightarrow> None)"

fun decodeURIComponent :: "string \<Rightarrow> string option" where
  "decodeURIComponent [] = Some []"
| "decodeURIComponent (c # cs) =
     (if c \<noteq> CHR ''%'' then map_option ((#) c) (decodeURIComponent cs)
      else case cs of
        h # l # r \<Rightarrow>
          (case hexByte h l of
             None \<Rightarrow> None
           | Some n \<Rightarrow>
               if n < 128 then map_option ((#) (char_of n)) (decodeURIComponent r)
               else if n = 194 \<or> n = 195 then
                 (case r of
                    p # h' # l' # r' \<Rightarrow>
                      (case hexByte h' l' of
                         None \<Rightarrow> None
                       | Some m \<Rightarrow>
                           if p = CHR ''%'' \<and> 128 \<le> m \<and> m < 192
                           then map_option ((#) (char_of ((n - 192) * 64 + (m - 128)))) (decodeURIComponent r')
                           else None)
                  | _ \<Rightarrow> None)
               else None)
      | _ \<Rightarrow> None)"

lemma hexByte_upperHex: "n < 256 \<Longrightarrow> hexByte (upperHex (n div 16)) (upperHex (n mod 16)) = Some n"
proof -
  have d: "digitValue (upperHex k) = Some k" if "k < 16" for k
    using that by (auto simp: digitValue_def upperHex_def Let_def)
  assume "n < 256"
  then have "n div 16 < 16" by simp
  then show ?thesis by (simp add: hexByte_def d)
qed

lemma decode_two_bytes:
  "hexByte h l = Some n \<Longrightarrow> n = 194 \<or> n = 195 \<Longrightarrow> hexByte h' l' = Some m \<Longrightarrow> 128 \<le> m \<Longrightarrow> m < 192 \<Longrightarrow>
   decodeURIComponent (CHR ''%'' # h # l # CHR ''%'' # h' # l' # s) =
     map_option ((#) (char_of ((n - 192) * 64 + (m - 128)))) (decodeURIComponent s)"
  by (elim disjE) simp_all

lemma decode_encodeChar:
  "decodeURIComponent (encodeChar c @ s) = map_option ((#) c) (decodeURIComponent s)"
proof -
  have c: "(of_char c :: nat) < 256" by (rule nat_of_char_less_256)
  have percent: "\<not> isUnreserved (CHR ''%'')" by code_simp
  consider "isUnreserved c" | "\<not> isUnreserved c" "(of_char c :: nat) < 128" | "\<not> isUnreserved c" "128 \<le> (of_char c :: nat)"
    by linarith
  then show ?thesis
  proof cases
    case 1
    with percent show ?thesis by (auto simp: encodeChar_def)
  next
    case 2
    then show ?thesis by (simp add: encodeChar_def percentByte_def hexByte_upperHex Let_def)
  next
    case 3
    define n where "n = (of_char c :: nat)"
    have n: "128 \<le> n" "n < 256" "char_of n = c" using 3 c by (simp_all add: n_def)
    then have q: "2 \<le> n div 64" "n div 64 < 4"
      by (simp_all add: less_eq_div_iff_mult_less_eq less_mult_imp_div_less)
    then have "192 + n div 64 = 194 \<or> 192 + n div 64 = 195" by linarith
    moreover have "hexByte (upperHex ((192 + n div 64) div 16)) (upperHex ((192 + n div 64) mod 16)) = Some (192 + n div 64)"
      "hexByte (upperHex ((128 + n mod 64) div 16)) (upperHex ((128 + n mod 64) mod 16)) = Some (128 + n mod 64)"
      using q by (intro hexByte_upperHex; simp add: less_imp_le_nat trans_less_add1)+
    moreover have "encodeChar c = percentByte (192 + n div 64) @ percentByte (128 + n mod 64)"
      using 3 by (simp add: encodeChar_def Let_def n_def)
    moreover have "char_of ((192 + n div 64 - 192) * 64 + (128 + n mod 64 - 128)) = c"
    proof -
      have "(192 + n div 64 - 192) * 64 + (128 + n mod 64 - 128) = n" by simp
      with n show ?thesis by metis
    qed
    ultimately show ?thesis
      using decode_two_bytes [of _ _ "192 + n div 64" _ _ "128 + n mod 64" s]
      by (simp only: percentByte_def append_Cons append_Nil)
  qed
qed

lemma decode_encodeURIComponent: "decodeURIComponent (encodeURIComponent s) = Some s"
  by (induction s) (simp_all add: encodeURIComponent_def decode_encodeChar)

lemma encodeURIComponent_inj: "encodeURIComponent s = encodeURIComponent t \<longleftrightarrow> s = t"
  by (metis decode_encodeURIComponent option.inject)

lemma percentByte_no_separator:
  assumes "n < 256"
  shows "CHR '':'' \<notin> set (percentByte n) \<and> CHR ''|'' \<notin> set (percentByte n)"
proof -
  have hex: "upperHex k \<noteq> CHR '':'' \<and> upperHex k \<noteq> CHR ''|''" if "k < 16" for k
  proof -
    have "(of_char (upperHex k) :: nat) \<noteq> 58 \<and> (of_char (upperHex k) :: nat) \<noteq> 124"
      using that by (simp add: upperHex_def)
    then show ?thesis by auto
  qed
  from assms have "n div 16 < 16" by simp
  with hex [of "n div 16"] hex [of "n mod 16"] show ?thesis by (simp add: percentByte_def eq_commute)
qed

lemma encodeChar_no_separator: "CHR '':'' \<notin> set (encodeChar c) \<and> CHR ''|'' \<notin> set (encodeChar c)"
proof (cases "isUnreserved c")
  case True
  moreover have "\<not> isUnreserved (CHR '':'')" "\<not> isUnreserved (CHR ''|'')" by code_simp+
  ultimately show ?thesis by (auto simp: encodeChar_def)
next
  case False
  have "n div 64 < 4 \<and> n mod 64 < 64" if "n < 256" for n :: nat
    using that by (simp add: less_mult_imp_div_less)
  then have "192 + n div 64 < 256 \<and> 128 + n mod 64 < 256" if "n < 256" for n :: nat
    using that by fastforce
  then have "192 + (of_char c :: nat) div 64 < 256" "128 + (of_char c :: nat) mod 64 < 256"
    using nat_of_char_less_256 [of c] by blast+
  with False show ?thesis by (simp add: encodeChar_def Let_def percentByte_no_separator)
qed

lemma no_separator: "CHR '':'' \<notin> set (encodeURIComponent s)" "CHR ''|'' \<notin> set (encodeURIComponent s)"
  by (simp_all add: encodeURIComponent_def encodeChar_no_separator)

end
