(* ===== verification/Egress_Laws.thy ===== *)
theory Egress_Laws
  imports Egress_Host
begin

unbundle bit_operations_syntax

text \<open>
  Which addresses the egress block of \<open>Egress_Host\<close> covers. The specification is a list of address ranges over
  the 32-bit number of an IPv4 address. Every numeric spelling of an address, and every IPv6 form that embeds
  one, is answered by its number.
\<close>

section \<open>The specification\<close>

definition address :: "nat \<Rightarrow> nat \<Rightarrow> nat \<Rightarrow> nat \<Rightarrow> nat" where
  "address a b c d = ((a * 256 + b) * 256 + c) * 256 + d"

definition inRange :: "nat \<Rightarrow> nat \<times> nat \<Rightarrow> bool" where
  "inRange n r = (case r of (base, len) \<Rightarrow> n div 2 ^ (32 - len) = base div 2 ^ (32 - len))"

definition PRIVATE_RANGES :: "(nat \<times> nat) list" where
  "PRIVATE_RANGES =
     [(address 0 0 0 0, 8), (address 10 0 0 0, 8), (address 127 0 0 0, 8), (address 172 16 0 0, 12),
      (address 192 168 0 0, 16), (address 100 64 0 0, 10), (address 169 254 0 0, 16)]"

definition METADATA_RANGES :: "(nat \<times> nat) list" where
  "METADATA_RANGES = [(address 169 254 0 0, 16), (address 0 0 0 0, 8), (address 100 100 100 0, 24)]"

definition inPrivate4 :: "nat \<Rightarrow> bool" where
  "inPrivate4 n = list_ex (inRange n) PRIVATE_RANGES"

definition inMetadata4 :: "nat \<Rightarrow> bool" where
  "inMetadata4 n = list_ex (inRange n) METADATA_RANGES"

text \<open>The IPv4 address an IPv6 address carries, if it is of a tunnelling form.\<close>

definition embedded4 :: "nat list \<Rightarrow> nat option" where
  "embedded4 g =
     (if take 5 g = replicate 5 0 \<and> (g ! 5 = 0xffff \<or> g ! 5 = 0) then Some (g ! 6 * 65536 + g ! 7)
      else if take 6 g = [0x64, 0xff9b, 0, 0, 0, 0] then Some (g ! 6 * 65536 + g ! 7)
      else if g ! 0 = 0x2002 then Some (g ! 1 * 65536 + g ! 2)
      else None)"

definition inPrivate6 :: "nat list \<Rightarrow> bool" where
  "inPrivate6 g =
     (g = replicate 8 0 \<or> g = replicate 7 0 @ [1] \<or> (0xfe80 \<le> g ! 0 \<and> g ! 0 \<le> 0xfebf) \<or>
      (0xfc00 \<le> g ! 0 \<and> g ! 0 \<le> 0xfdff) \<or>
      (case embedded4 g of None \<Rightarrow> False | Some n \<Rightarrow> inPrivate4 n))"

section \<open>Dotted addresses\<close>

lemma div_eq_range: "0 < k \<Longrightarrow> (x::nat) div k = q \<longleftrightarrow> k * q \<le> x \<and> x < k * Suc q"
  using dividend_less_times_div [of k x] by (auto intro: div_nat_eqI simp: ac_simps)

lemma digit_eq:
  assumes "c < k" "r < k"
  shows "x * k + c = q * k + r \<longleftrightarrow> x = q \<and> c = (r :: nat)"
proof
  assume eq: "x * k + c = q * k + r"
  have "x = (x * k + c) div k" "c = (x * k + c) mod k" using assms by simp_all
  moreover have "q = (q * k + r) div k" "r = (q * k + r) mod k" using assms by simp_all
  ultimately show "x = q \<and> c = r" using eq by metis
qed simp

lemma inPrivate4_bytes:
  assumes "a < 256" "b < 256" "c < 256" "d < 256"
  shows "inPrivate4 (address a b c d) \<longleftrightarrow>
    a = 0 \<or> a = 10 \<or> a = 127 \<or> (a = 172 \<and> 16 \<le> b \<and> b \<le> 31) \<or> (a = 192 \<and> b = 168) \<or>
    (a = 100 \<and> 64 \<le> b \<and> b \<le> 127) \<or> (a = 169 \<and> b = 254)"
proof -
  have q: "address a b c d div 16777216 = a" "address a b c d div 65536 = a * 256 + b"
    "address a b c d div 1048576 = (a * 256 + b) div 16" "address a b c d div 4194304 = (a * 256 + b) div 64"
    using assms by (simp_all add: address_def)
  have "(a * 256 + b) div 16 = a * 16 + b div 16" "(a * 256 + b) div 64 = a * 4 + b div 64" by simp_all
  moreover have "b div 16 < 16" "b div 64 < 4" using assms by (simp_all add: less_mult_imp_div_less)
  moreover have "b div 16 = 1 \<longleftrightarrow> 16 \<le> b \<and> b \<le> 31" "b div 64 = 1 \<longleftrightarrow> 64 \<le> b \<and> b \<le> 127"
    by (simp_all add: div_eq_range) (auto simp: less_Suc_eq_le [of b 31, simplified] less_Suc_eq_le [of b 127, simplified])
  ultimately have "(a * 256 + b) div 16 = 2753 \<longleftrightarrow> a = 172 \<and> 16 \<le> b \<and> b \<le> 31"
    "(a * 256 + b) div 64 = 401 \<longleftrightarrow> a = 100 \<and> 64 \<le> b \<and> b \<le> 127"
    using digit_eq [of "b div 16" 16 1 a 172] digit_eq [of "b div 64" 4 1 a 100] by simp_all
  moreover have "a * 256 + b = 49320 \<longleftrightarrow> a = 192 \<and> b = 168" "a * 256 + b = 43518 \<longleftrightarrow> a = 169 \<and> b = 254"
    using assms digit_eq [of b 256 168 a 192] digit_eq [of b 256 254 a 169] by simp_all
  ultimately show ?thesis
    by (simp add: inPrivate4_def PRIVATE_RANGES_def inRange_def q) (simp add: address_def; blast)
qed

lemma inMetadata4_bytes:
  assumes "a < 256" "b < 256" "c < 256" "d < 256"
  shows "inMetadata4 (address a b c d) \<longleftrightarrow>
    a = 0 \<or> (a = 169 \<and> b = 254) \<or> (a = 100 \<and> b = 100 \<and> c = 100)"
proof -
  have q: "address a b c d div 16777216 = a" "address a b c d div 65536 = a * 256 + b"
    "address a b c d div 256 = (a * 256 + b) * 256 + c"
    using assms by (simp_all add: address_def)
  have "a * 256 + b = 43518 \<longleftrightarrow> a = 169 \<and> b = 254"
    "(a * 256 + b) * 256 + c = 6579300 \<longleftrightarrow> a = 100 \<and> b = 100 \<and> c = 100"
  proof -
    have "x * 256 + c = 6579300 \<longleftrightarrow> x = 25700 \<and> c = 100" for x
      using assms digit_eq [of c 256 100 x 25700] by simp
    moreover have "a * 256 + b = 25700 \<longleftrightarrow> a = 100 \<and> b = 100"
      using assms digit_eq [of b 256 100 a 100] by simp
    ultimately show "(a * 256 + b) * 256 + c = 6579300 \<longleftrightarrow> a = 100 \<and> b = 100 \<and> c = 100" by blast
    show "a * 256 + b = 43518 \<longleftrightarrow> a = 169 \<and> b = 254"
      using assms digit_eq [of b 256 254 a 169] by simp
  qed
  then show ?thesis
    by (simp add: inMetadata4_def METADATA_RANGES_def inRange_def q) (simp add: address_def; blast)
qed

lemma metadata_private4:
  "a < 256 \<Longrightarrow> b < 256 \<Longrightarrow> c < 256 \<Longrightarrow> d < 256 \<Longrightarrow> inMetadata4 (address a b c d) \<Longrightarrow> inPrivate4 (address a b c d)"
  by (auto simp: inMetadata4_bytes inPrivate4_bytes)

lemma bytes_of:
  assumes "n < 2 ^ 32"
  obtains a b c d where "a < 256" "b < 256" "c < 256" "d < 256" "n = address a b c d"
    "n div 2 ^ 24 mod 256 = a" "n div 2 ^ 16 mod 256 = b" "n div 2 ^ 8 mod 256 = c" "n mod 256 = d"
proof -
  let ?d = "n mod 256" and ?c = "n div 256 mod 256" and ?b = "n div 65536 mod 256" and ?a = "n div 16777216"
  have "n div 256 div 256 = n div 65536" "n div 65536 div 256 = n div 16777216" by (simp_all add: div_mult2_eq [symmetric])
  then have "n = address ?a ?b ?c ?d"
    unfolding address_def by (metis div_mult_mod_eq)
  moreover have "?a < 256" using assms by (simp add: less_mult_imp_div_less)
  ultimately show ?thesis by (intro that [of ?a ?b ?c ?d]) simp_all
qed

text \<open>The printed form of four bytes.\<close>

definition quad :: "nat \<Rightarrow> nat \<Rightarrow> nat \<Rightarrow> nat \<Rightarrow> string" where
  "quad a b c d = decimal a @ ''.'' @ decimal b @ ''.'' @ decimal c @ ''.'' @ decimal d"

lemma dottedDecimal_address:
  assumes "a < 256" "b < 256" "c < 256" "d < 256"
  shows "dottedDecimal (address a b c d) = quad a b c d"
proof -
  have m: "(x * 256 + y) mod 256 = y" if "y < 256" for x y :: nat using that by simp
  have "address a b c d div 16777216 = a" "address a b c d div 65536 = a * 256 + b"
    "address a b c d div 256 = (a * 256 + b) * 256 + c"
    using assms by (simp_all add: address_def)
  then have "address a b c d div 2 ^ 24 mod 256 = a" "address a b c d div 2 ^ 16 mod 256 = b"
    "address a b c d div 2 ^ 8 mod 256 = c" "address a b c d mod 256 = d"
    using assms m [of b a] m [of c "a * 256 + b"] m [of d "(a * 256 + b) * 256 + c"] by (simp_all add: address_def)
  then show ?thesis by (simp only: dottedDecimal_def quad_def)
qed

text \<open>A printed number followed by a dot is the prefix of another one only if the numbers agree.\<close>

lemma takeWhile_decimal [simp]:
  "takeWhile isDigit (decimal n @ CHR ''.'' # r) = decimal n" "dropWhile isDigit (decimal n @ CHR ''.'' # r) = CHR ''.'' # r"
  using digits_decimal [of n] by (simp_all add: list_all_iff)

lemma decimal_dot_eq: "decimal m @ CHR ''.'' # r = decimal n @ CHR ''.'' # s \<longleftrightarrow> m = n \<and> r = s"
  by (metis takeWhile_decimal decimal_inj list.inject)

lemma startsWith_decimal: "startsWith (decimal m @ CHR ''.'' # p) (decimal n @ CHR ''.'' # s) \<longleftrightarrow> m = n \<and> startsWith p s"
  by (auto simp: startsWith_iff decimal_dot_eq)

lemma small_decimals:
  "''0.'' = decimal 0 @ CHR ''.'' # []" "''127.'' = decimal 127 @ CHR ''.'' # []" "''10.'' = decimal 10 @ CHR ''.'' # []"
  "''172.'' = decimal 172 @ CHR ''.'' # []" "''100.'' = decimal 100 @ CHR ''.'' # []"
  "''192.168.'' = decimal 192 @ CHR ''.'' # decimal 168 @ CHR ''.'' # []"
  "''169.254.'' = decimal 169 @ CHR ''.'' # decimal 254 @ CHR ''.'' # []"
  "''100.100.100.'' = decimal 100 @ CHR ''.'' # decimal 100 @ CHR ''.'' # decimal 100 @ CHR ''.'' # []"
  by code_simp+

lemma zero_decimal: "decimal 0 = ''0''"
  by code_simp

lemma startsWith_Nil [simp]: "startsWith [] s"
  by (simp add: startsWith_def)

lemma takes_prefix: "stripPrefix p s = Some r \<longleftrightarrow> s = p @ r"
  by (induction p s rule: stripPrefix.induct) auto

lemma stripPrefix_decimal:
  "stripPrefix (decimal m @ CHR ''.'' # []) (decimal n @ CHR ''.'' # s) = (if m = n then Some s else None)"
  by (cases "stripPrefix (decimal m @ CHR ''.'' # []) (decimal n @ CHR ''.'' # s)")
    (auto simp: takes_prefix decimal_dot_eq takes_prefix [THEN iffD2])

lemma length_decimal: "n < 1000 \<Longrightarrow> length (decimal n) \<le> 3"
proof -
  have "length (decimal k) \<le> 1" if "k < 10" for k using that by (simp add: radixString.simps)
  moreover have "k div 10 < 10" if "k < 100" for k :: nat using that by (simp add: less_mult_imp_div_less)
  ultimately have "length (decimal k) \<le> 2" if "k < 100" for k
    using that by (cases "k < 10") (fastforce simp: radixString.simps [of 10 k])+
  moreover assume "n < 1000"
  then have "n div 10 < 100" by (simp add: less_mult_imp_div_less)
  ultimately show ?thesis by (cases "n < 10") (fastforce simp: radixString.simps [of 10 n])+
qed

lemma secondOctetIn_quad:
  assumes "b < 256"
  shows "secondOctetIn (decimal m @ CHR ''.'' # []) lo hi (quad a b c d) \<longleftrightarrow> a = m \<and> lo \<le> b \<and> b \<le> hi"
  using length_decimal [of b] assms
  by (auto simp: secondOctetIn_def quad_def stripPrefix_decimal Let_def startsWith_def digitsValue_radixString)

lemma quad_prefixes:
  "startsWith ''0.'' (quad a b c d) \<longleftrightarrow> a = 0"
  "startsWith ''127.'' (quad a b c d) \<longleftrightarrow> a = 127"
  "startsWith ''10.'' (quad a b c d) \<longleftrightarrow> a = 10"
  "startsWith ''192.168.'' (quad a b c d) \<longleftrightarrow> a = 192 \<and> b = 168"
  "startsWith ''169.254.'' (quad a b c d) \<longleftrightarrow> a = 169 \<and> b = 254"
  "startsWith ''100.100.100.'' (quad a b c d) \<longleftrightarrow> a = 100 \<and> b = 100 \<and> c = 100"
  unfolding quad_def
  by (simp only: small_decimals(1) startsWith_decimal append_Cons append_Nil startsWith_Nil, blast,
      simp only: small_decimals(2) startsWith_decimal append_Cons append_Nil startsWith_Nil, blast,
      simp only: small_decimals(3) startsWith_decimal append_Cons append_Nil startsWith_Nil, blast,
      simp only: small_decimals(6) startsWith_decimal append_Cons append_Nil startsWith_Nil, blast,
      simp only: small_decimals(7) startsWith_decimal append_Cons append_Nil startsWith_Nil, blast,
      simp only: small_decimals(8) startsWith_decimal append_Cons append_Nil startsWith_Nil, blast)

lemma private_octets:
  assumes "b < 256"
  shows "isPrivate172 (quad a b c d) \<longleftrightarrow> a = 172 \<and> 16 \<le> b \<and> b \<le> 31"
    "isCgnat100 (quad a b c d) \<longleftrightarrow> a = 100 \<and> 64 \<le> b \<and> b \<le> 127"
  using secondOctetIn_quad [OF assms, of 172 16 31 a c d] secondOctetIn_quad [OF assms, of 100 64 127 a c d]
  by (simp_all only: isPrivate172_def isCgnat100_def small_decimals(4,5))

lemma privateDotted_quad:
  assumes "a < 256" "b < 256" "c < 256" "d < 256"
  shows "privateDotted (quad a b c d) = inPrivate4 (address a b c d)"
  unfolding privateDotted_def quad_prefixes private_octets [OF assms(2)] inPrivate4_bytes [OF assms] by blast

lemma ipv4IsMetadata_quad:
  assumes "a < 256" "b < 256" "c < 256" "d < 256"
  shows "ipv4IsMetadata (quad a b c d) = inMetadata4 (address a b c d)"
  unfolding ipv4IsMetadata_def quad_prefixes inMetadata4_bytes [OF assms] by blast

section \<open>Spellings\<close>

text \<open>A part of a numeric host is a number written in decimal, in \<open>0x\<close> hexadecimal or in \<open>0\<close> octal.\<close>

definition spells :: "nat \<Rightarrow> string \<Rightarrow> bool" where
  "spells v p = (p = decimal v \<or> p = ''0x'' @ radixString 16 v \<or> p = ''0'' @ radixString 8 v)"

lemma hd_radixString: "2 \<le> r \<Longrightarrow> r \<le> 16 \<Longrightarrow> 0 < n \<Longrightarrow> hd (radixString r n) \<noteq> CHR ''0''"
proof (induction n rule: less_induct)
  case (less n)
  show ?case
  proof (cases "n < r")
    case True
    then have "digitValue (hd (radixString r n)) = Some n"
      using less by (simp add: radixString.simps [of r n] digitValue_digitChar)
    moreover have "digitValue (CHR ''0'') = Some 0" by code_simp
    ultimately show ?thesis using less by auto
  next
    case False
    with less have "0 < n div r" "n div r < n" by (simp_all add: div_greater_zero_iff div_less_dividend)
    with less False show ?thesis by (simp add: radixString.simps [of r n])
  qed
qed

lemma hex_digit_chars: "c \<in> set (radixString r n) \<Longrightarrow> 2 \<le> r \<Longrightarrow> r \<le> 16 \<Longrightarrow> \<exists>d < r. c = digitChar d"
proof (induction n rule: less_induct)
  case (less n)
  show ?case
  proof (cases "n < r")
    case True
    with less show ?thesis by (auto simp: radixString.simps [of r n])
  next
    case False
    with less have "c \<in> set (radixString r (n div r)) \<or> c = digitChar (n mod r)" "n div r < n"
      by (auto simp: radixString.simps [of r n] div_less_dividend)
    moreover have "n mod r < r" using less by simp
    ultimately show ?thesis using less by blast
  qed
qed

lemma isLowerHex_digitChar: "d < 16 \<Longrightarrow> isLowerHex (digitChar d)"
  by (auto simp: isLowerHex_def isDigit_def digitChar_def Let_def)

lemma isOctal_digitChar: "d < 8 \<Longrightarrow> isOctal (digitChar d)"
  by (simp add: isOctal_def digitChar_def Let_def)

lemma hex_chars: "list_all isLowerHex (radixString 16 n)" "list_all isOctal (radixString 8 n)"
  using hex_digit_chars [of _ 16 n] hex_digit_chars [of _ 8 n]
  by (force simp: list_all_iff isLowerHex_digitChar isOctal_digitChar)+

lemma no_prefix:
  "\<not> startsWith ''0x'' (decimal v)" "\<not> startsWith ''0x'' (CHR ''0'' # radixString 8 v)"
proof -
  show "\<not> startsWith ''0x'' (decimal v)"
    using decimal_digits [of "CHR ''x''" v] by (auto simp: startsWith_iff)
  have "\<not> isOctal (CHR ''x'')" by code_simp
  then show "\<not> startsWith ''0x'' (CHR ''0'' # radixString 8 v)"
    using hex_chars(2) [of v] by (auto simp: startsWith_iff)
qed

lemma parseIpv4Octet_spells:
  assumes "spells v p" "int v \<le> MAX_SAFE_INTEGER"
  shows "parseIpv4Octet p = Some v"
proof -
  consider "p = decimal v" | "p = ''0x'' @ radixString 16 v" | "p = ''0'' @ radixString 8 v"
    using assms by (auto simp: spells_def)
  then show ?thesis
  proof cases
    case 1
    show ?thesis
    proof (cases "v = 0")
      case True
      with 1 have "p = ''0''" by (simp add: small_decimals(1) [symmetric] zero_decimal)
      moreover have "parseIpv4Octet ''0'' = Some 0" by code_simp
      ultimately show ?thesis using True by simp
    next
      case False
      with hd_radixString [of 10 v] have "hd (decimal v) \<noteq> CHR ''0''" by simp
      then have "\<not> startsWith ''0'' (decimal v)" by (auto simp: startsWith_iff)
      with 1 False show ?thesis
        using assms hd_radixString [of 10 v] no_prefix(1) [of v] digits_decimal [of v]
        by (simp add: parseIpv4Octet_def digitsValue_radixString)
    qed
  next
    case 2
    then show ?thesis using assms hex_chars(1) [of v]
      by (simp add: parseIpv4Octet_def startsWith_def digitsValue_radixString)
  next
    case 3
    then show ?thesis using assms hex_chars(2) [of v] no_prefix(2) [of v]
      by (simp add: parseIpv4Octet_def startsWith_def [of "''0''"] digitsValue_radixString)
  qed
qed

text \<open>A numeric host: parts of hexadecimal digits and \<open>x\<close>, joined by dots, the last one not empty.\<close>

definition numericText :: "string \<Rightarrow> bool" where
  "numericText s = (s \<noteq> [] \<and> isLowerHex (last s) \<and> list_all (\<lambda>c. isLowerHex c \<or> c = CHR ''x'' \<or> c = CHR ''.'') s)"

lemma endsWith_last: "endsWith p s \<Longrightarrow> p \<noteq> [] \<Longrightarrow> last s = last p"
  by (metis append_Nil2 append_take_drop_id drop_eq_Nil endsWith_def last_appendR)

lemma isLowerHex_code: "isLowerHex c \<Longrightarrow> (of_char c :: nat) < 65 \<or> (91 \<le> (of_char c :: nat) \<and> (of_char c :: nat) < 192)"
  by (auto simp: isLowerHex_def isDigit_def Let_def)

lemma numericText_plain: "numericText s \<Longrightarrow> stripTrailingDots (toLowerCase s) = s \<and> \<not> startsWith ''['' s"
proof -
  assume s: "numericText s"
  then have "lowerChar c = c" if "c \<in> set s" for c
  proof -
    from s that consider "isLowerHex c" | "c = CHR ''x''" | "c = CHR ''.''" by (auto simp: numericText_def list_all_iff)
    then show ?thesis
    proof cases
      case 1
      then show ?thesis by (rule lowerChar_same [OF isLowerHex_code])
    qed (simp_all add: lowerChar_def)
  qed
  then have "toLowerCase s = s" by (simp add: toLowerCase_def map_idI)
  moreover have "\<not> isLowerHex (CHR ''.'')" "\<not> isLowerHex (CHR ''['')" by code_simp+
  with s have "stripTrailingDots s = s"
    by (cases s rule: rev_cases) (auto simp: numericText_def stripTrailingDots_def)
  moreover have "\<not> startsWith ''['' s"
    using s \<open>\<not> isLowerHex (CHR ''['')\<close> by (auto simp: numericText_def startsWith_iff)
  ultimately show ?thesis by simp
qed

lemma normalizeHost_numeric: "numericText s \<Longrightarrow> normalizeHost s = s"
  by (simp add: normalizeHost_def numericText_plain)

lemma numeric_host:
  assumes "numericText s"
  shows "isPrivateOrLocalHost s = (case canonicalizeNumericIpv4 s of None \<Rightarrow> False | Some dotted \<Rightarrow> privateDotted dotted)"
    and "isMetadataOrLinkLocal s = (case canonicalizeNumericIpv4 s of None \<Rightarrow> False | Some dotted \<Rightarrow> ipv4IsMetadata dotted)"
proof -
  have none: "\<not> isLowerHex (CHR ''t'')" "\<not> isLowerHex (CHR ''l'')" "\<not> isLowerHex (CHR '':'')" by code_simp+
  then have "CHR '':'' \<notin> set s" using assms by (auto simp: numericText_def list_all_iff)
  moreover have "s \<noteq> ''localhost''" "\<not> endsWith ''.localhost'' s" "\<not> endsWith ''.local'' s" "\<not> endsWith ''.internal'' s"
    using assms none by (auto simp: numericText_def dest: endsWith_last)
  ultimately show "isPrivateOrLocalHost s =
      (case canonicalizeNumericIpv4 s of None \<Rightarrow> False | Some dotted \<Rightarrow> privateDotted dotted)"
    "isMetadataOrLinkLocal s = (case canonicalizeNumericIpv4 s of None \<Rightarrow> False | Some dotted \<Rightarrow> ipv4IsMetadata dotted)"
    by (simp_all add: isPrivateOrLocalHost.simps isMetadataOrLinkLocal.simps normalizeHost_numeric [OF assms])
qed

lemma splitOn_joinWith: "ps \<noteq> [] \<Longrightarrow> \<forall>p \<in> set ps. c \<notin> set p \<Longrightarrow> splitOn c (joinWith c ps) = ps"
  by (induction c ps rule: joinWith.induct) (auto simp: splitOn_alone splitOn_append)

lemma isLowerHex_weaker: "isOctal c \<Longrightarrow> isLowerHex c" "isDigit c \<Longrightarrow> isLowerHex c"
  by (simp_all add: isLowerHex_def isOctal_def isDigit_def Let_def)

lemma spells_chars: "spells v p \<Longrightarrow> c \<in> set p \<Longrightarrow> isLowerHex c \<or> c = CHR ''x''"
proof -
  have "isLowerHex (CHR ''0'')" by code_simp
  moreover assume "spells v p" "c \<in> set p"
  ultimately show ?thesis
    using hex_chars [of v] decimal_digits [of c v] isLowerHex_weaker [of c]
    by (auto simp: spells_def list_all_iff)
qed

lemma last_radixString: "2 \<le> r \<Longrightarrow> r \<le> 16 \<Longrightarrow> isLowerHex (last (radixString r v))"
  by (subst radixString.simps) (auto intro!: isLowerHex_digitChar intro: less_le_trans [of "v mod r" r 16])

lemma spells_last: "spells v p \<Longrightarrow> p \<noteq> [] \<and> isLowerHex (last p)"
  by (auto simp: spells_def last_radixString)

lemma joinWith_Nil: "last ps \<noteq> [] \<Longrightarrow> ps \<noteq> [] \<Longrightarrow> joinWith c ps \<noteq> []"
  by (cases "(c, ps)" rule: joinWith.cases) auto

lemma last_joinWith: "ps \<noteq> [] \<Longrightarrow> last ps \<noteq> [] \<Longrightarrow> last (joinWith c ps) = last (last ps)"
  by (induction c ps rule: joinWith.induct) (auto simp: joinWith_Nil)

lemma set_joinWith: "x \<in> set (joinWith c ps) \<Longrightarrow> x = c \<or> (\<exists>p \<in> set ps. x \<in> set p)"
  by (induction c ps rule: joinWith.induct) auto

lemma spelled_text:
  assumes "list_all2 spells values ps" "ps \<noteq> []"
  shows "numericText (joinWith (CHR ''.'') ps)"
proof -
  have p: "\<exists>v. spells v p" if "p \<in> set ps" for p using that assms(1) by (auto simp: list_all2_conv_all_nth in_set_conv_nth)
  have "last ps \<in> set ps" using assms(2) by simp
  from p [OF this] have "last ps \<noteq> [] \<and> isLowerHex (last (last ps))" using spells_last by blast
  then have l: "isLowerHex (last (joinWith (CHR ''.'') ps))" by (simp add: last_joinWith assms)
  have "joinWith (CHR ''.'') ps \<noteq> []"
    using assms(2) \<open>last ps \<noteq> [] \<and> isLowerHex (last (last ps))\<close> by (intro joinWith_Nil) blast+
  moreover have "isLowerHex c \<or> c = CHR ''x'' \<or> c = CHR ''.''" if "c \<in> set (joinWith (CHR ''.'') ps)" for c
    using set_joinWith [OF that] p spells_chars by blast
  ultimately show ?thesis using l by (simp add: numericText_def list_all_iff)
qed

text \<open>The numbers of an \<open>inet_aton\<close> form: up to three bytes and a last number that fills the other bytes.\<close>

definition atonForm :: "nat list \<Rightarrow> bool" where
  "atonForm values =
     (values \<noteq> [] \<and> length values \<le> 4 \<and> list_all (\<lambda>v. v < 256) (butlast values) \<and>
      last values < 2 ^ (8 * (5 - length values)))"

lemma butlast_take: "take (length xs - Suc 0) xs = butlast xs"
  by (simp add: butlast_conv_take)

lemma packIpv4_aton: "atonForm values \<Longrightarrow> packIpv4 values = Some (dottedDecimal (packedNumber values))"
proof -
  assume f: "atonForm values"
  then have "\<not> list_ex (\<lambda>v. 255 < v) (butlast values)"
    by (auto simp: atonForm_def list_all_iff list_ex_iff not_less)
  moreover have "4 - (length values - Suc 0) = 5 - length values" using f by (cases "values") (simp_all add: atonForm_def)
  moreover have "values ! (length values - Suc 0) = last values" using f by (simp add: atonForm_def last_conv_nth)
  ultimately show ?thesis using f by (simp add: packIpv4_def butlast_take Let_def atonForm_def)
qed

lemma packedNumber_bound: "atonForm values \<Longrightarrow> packedNumber values < 2 ^ 32"
proof -
  assume f: "atonForm values"
  then have "length values \<noteq> 0 \<and> length values \<le> 4" by (simp add: atonForm_def)
  then consider w where "values = [w]" | v w where "values = [v, w]" | u v w where "values = [u, v, w]"
    | t u v w where "values = [t, u, v, w]"
    by (cases "values"; cases "tl values"; cases "tl (tl values)"; cases "tl (tl (tl values))") auto
  then show ?thesis using f by cases (simp_all add: packedNumber_def atonForm_def)
qed

lemma those_spells:
  "list_all2 spells values ps \<Longrightarrow> list_all (\<lambda>v. int v \<le> MAX_SAFE_INTEGER) values \<Longrightarrow>
   those (map parseIpv4Octet ps) = Some values"
  by (induction rule: list_all2_induct) (simp_all add: parseIpv4Octet_spells)

lemma aton_safe: "atonForm values \<Longrightarrow> list_all (\<lambda>v. int v \<le> MAX_SAFE_INTEGER) values"
proof -
  assume f: "atonForm values"
  then have "(2::nat) ^ (8 * (5 - length values)) \<le> 2 ^ 32"
    by (intro power_increasing) (cases "values"; simp add: atonForm_def)+
  then have l: "last values < 2 ^ 32" using f by (simp add: atonForm_def)
  have "v < 2 ^ 32" if "v \<in> set values" for v
  proof (cases "v = last values")
    case False
    then have "v \<in> set (butlast values)" using that by (cases "values" rule: rev_cases) auto
    then show ?thesis using f by (fastforce simp: atonForm_def list_all_iff)
  qed (use l in simp)
  then show ?thesis by (fastforce simp: list_all_iff MAX_SAFE_INTEGER_def)
qed

lemma spelled_canonical:
  assumes "list_all2 spells values ps" "atonForm values"
  shows "canonicalizeNumericIpv4 (joinWith (CHR ''.'') ps) = Some (dottedDecimal (packedNumber values))"
proof -
  have "\<not> isLowerHex (CHR ''.'')" by code_simp
  then have "CHR ''.'' \<notin> set p" if "p \<in> set ps" for p
    using that assms(1) spells_chars by (fastforce simp: list_all2_conv_all_nth in_set_conv_nth)
  moreover have l: "length ps = length values" "ps \<noteq> []" "length values \<le> 4"
    using assms by (auto simp: list_all2_lengthD atonForm_def)
  ultimately have "splitOn (CHR ''.'') (joinWith (CHR ''.'') ps) = ps" by (simp add: splitOn_joinWith)
  with l show ?thesis using assms
    by (simp add: canonicalizeNumericIpv4_def those_spells aton_safe packIpv4_aton)
qed

section \<open>What is blocked\<close>

lemma spelled_addresses:
  assumes "list_all2 spells values ps" "atonForm values"
  shows "isPrivateOrLocalHost (joinWith (CHR ''.'') ps) = inPrivate4 (packedNumber values)"
    and "isMetadataOrLinkLocal (joinWith (CHR ''.'') ps) = inMetadata4 (packedNumber values)"
proof -
  have "ps \<noteq> []" using assms by (auto simp: atonForm_def)
  then have t: "numericText (joinWith (CHR ''.'') ps)" using spelled_text assms by blast
  obtain a b c d where "a < 256" "b < 256" "c < 256" "d < 256" "packedNumber values = address a b c d"
    by (rule bytes_of [OF packedNumber_bound [OF assms(2)]])
  then show "isPrivateOrLocalHost (joinWith (CHR ''.'') ps) = inPrivate4 (packedNumber values)"
    "isMetadataOrLinkLocal (joinWith (CHR ''.'') ps) = inMetadata4 (packedNumber values)"
    by (simp_all add: numeric_host [OF t] spelled_canonical [OF assms] dottedDecimal_address privateDotted_quad
        ipv4IsMetadata_quad)
qed

lemma quad_host:
  assumes "a < 256" "b < 256" "c < 256" "d < 256"
  shows "isPrivateOrLocalHost (quad a b c d) = inPrivate4 (address a b c d)"
    and "isMetadataOrLinkLocal (quad a b c d) = inMetadata4 (address a b c d)"
proof -
  have "list_all2 spells [a, b, c, d] [decimal a, decimal b, decimal c, decimal d]" by (simp add: spells_def)
  moreover have "atonForm [a, b, c, d]" using assms by (simp add: atonForm_def)
  moreover have "joinWith (CHR ''.'') [decimal a, decimal b, decimal c, decimal d] = quad a b c d" by (simp add: quad_def)
  moreover have "packedNumber [a, b, c, d] = address a b c d" by (simp add: packedNumber_def address_def algebra_simps)
  ultimately show "isPrivateOrLocalHost (quad a b c d) = inPrivate4 (address a b c d)"
    "isMetadataOrLinkLocal (quad a b c d) = inMetadata4 (address a b c d)"
    using spelled_addresses by metis+
qed

lemma groups_host:
  assumes "hi < 65536" "lo < 65536"
  shows "isPrivateOrLocalHost (ipv4FromGroups hi lo) = inPrivate4 (hi * 65536 + lo)"
    and "isMetadataOrLinkLocal (ipv4FromGroups hi lo) = inMetadata4 (hi * 65536 + lo)"
    and "inMetadata4 (hi * 65536 + lo) \<Longrightarrow> inPrivate4 (hi * 65536 + lo)"
proof -
  have m: "x AND 255 = x mod 256" "drop_bit 8 x = x div 256" for x :: nat
    using take_bit_eq_mask [of 8 x] by (simp_all add: take_bit_eq_mod mask_eq_exp_minus_1 drop_bit_eq_div)
  have f: "ipv4FromGroups hi lo = quad (hi div 256) (hi mod 256) (lo div 256) (lo mod 256)"
    by (simp add: ipv4FromGroups_def quad_def m)
  have b: "hi div 256 < 256" "hi mod 256 < 256" "lo div 256 < 256" "lo mod 256 < 256"
    using assms by (simp_all add: less_mult_imp_div_less)
  have "address (hi div 256) (hi mod 256) (lo div 256) (lo mod 256) = hi * 65536 + lo"
  proof -
    have "hi div 256 * 256 + hi mod 256 = hi" "lo div 256 * 256 + lo mod 256 = lo" by simp_all
    then show ?thesis by (simp only: address_def) (simp add: algebra_simps)
  qed
  then show "isPrivateOrLocalHost (ipv4FromGroups hi lo) = inPrivate4 (hi * 65536 + lo)"
    "isMetadataOrLinkLocal (ipv4FromGroups hi lo) = inMetadata4 (hi * 65536 + lo)"
    "inMetadata4 (hi * 65536 + lo) \<Longrightarrow> inPrivate4 (hi * 65536 + lo)"
    using quad_host [OF b] metadata_private4 [OF b] f by metis+
qed

text \<open>The masks of the two IPv6 ranges keep the leading bits.\<close>

lemma and_high_mask:
  assumes "x < 2 ^ (k + m)"
  shows "x AND push_bit k (mask m) = push_bit k (drop_bit k (x :: nat))"
proof (rule bit_eqI)
  fix i
  have "\<not> bit x i" if "k + m \<le> i"
  proof -
    have "x < 2 ^ i" using assms that by (meson less_le_trans power_increasing_iff one_less_numeral_iff semiring_norm(76))
    then show ?thesis by (simp add: bit_iff_odd)
  qed
  then show "bit (x AND push_bit k (mask m)) i = bit (push_bit k (drop_bit k x)) i"
    by (cases "k + m \<le> i") (auto simp: bit_and_iff bit_push_bit_iff bit_mask_iff bit_drop_bit_eq)
qed

lemma high_masks:
  assumes "x < 65536"
  shows "(x AND 0xffc0) = 0xfe80 \<longleftrightarrow> 0xfe80 \<le> x \<and> x \<le> (0xfebf :: nat)"
    and "(x AND 0xfe00) = 0xfc00 \<longleftrightarrow> 0xfc00 \<le> x \<and> x \<le> (0xfdff :: nat)"
proof -
  have "x AND 0xffc0 = 64 * (x div 64)" "x AND 0xfe00 = 512 * (x div 512)"
    using and_high_mask [of x 6 10] and_high_mask [of x 9 7] assms
    by (simp_all add: push_bit_eq_mult drop_bit_eq_div mask_eq_exp_minus_1)
  then show "(x AND 0xffc0) = 0xfe80 \<longleftrightarrow> 0xfe80 \<le> x \<and> x \<le> 0xfebf" "(x AND 0xfe00) = 0xfc00 \<longleftrightarrow> 0xfc00 \<le> x \<and> x \<le> 0xfdff"
    using div_eq_range [of 64 x 1018] div_eq_range [of 512 x 126] by auto
qed

lemma eight:
  assumes "length g = 8"
  obtains a b c d e f h i where "g = [a, b, c, d, e, f, h, i]"
proof -
  have "\<exists>a b c d e f h i. g = [a, b, c, d, e, f, h, i]"
    using assms by (auto simp: length_Suc_conv eval_nat_numeral)
  then show ?thesis using that by blast
qed

definition groups8 :: "nat list \<Rightarrow> bool" where
  "groups8 g = (length g = 8 \<and> list_all (\<lambda>x. x < 65536) g)"

lemma those_Some: "those xs = Some ys \<Longrightarrow> xs = map Some ys"
  by (induction xs arbitrary: ys) (auto split: option.splits)

lemma parsed_groups: "parseIpv6Groups host = Some g \<Longrightarrow> groups8 g"
proof -
  assume "parseIpv6Groups host = Some g"
  then obtain gs where "those (map validGroup gs) = Some g" "length gs = 8"
    by (auto simp: parseIpv6Groups_def split: option.splits if_splits)
  then have m: "map validGroup gs = map Some g" and l: "length g = 8"
    by (auto dest!: those_Some) (metis length_map)
  have "x < 65536" if "x \<in> set g" for x
  proof -
    have "Some x \<in> set (map validGroup gs)" using that m by auto
    then show ?thesis by (auto simp: validGroup_def split: option.splits if_splits)
  qed
  then show ?thesis using l by (simp add: groups8_def list_all_iff)
qed

lemma zeros:
  "replicate 5 0 = [0, 0, 0, 0, 0 :: nat]" "replicate 7 0 = [0, 0, 0, 0, 0, 0, 0 :: nat]"
  "replicate 8 0 = [0, 0, 0, 0, 0, 0, 0, 0 :: nat]"
  by (simp_all add: eval_nat_numeral)

lemma private_groups: "groups8 g \<Longrightarrow> isPrivateIpv6Groups g = inPrivate6 g"
proof -
  assume g8: "groups8 g"
  then obtain a b c d e f h i where g: "g = [a, b, c, d, e, f, h, i]" by (auto simp: groups8_def elim: eight)
  have lt: "a < 65536" "b < 65536" "c < 65536" "h < 65536" "i < 65536" using g8 g by (simp_all add: groups8_def)
  show ?thesis
    unfolding isPrivateIpv6Groups.simps inPrivate6_def embedded4_def g
    by (simp add: high_masks [OF lt(1)] groups_host(1) lt zeros Let_def)
qed

lemma metadata_groups: "groups8 g \<Longrightarrow> ipv6IsMetadataOrLinkLocal g \<Longrightarrow> inPrivate6 g"
proof -
  assume g8: "groups8 g" and m: "ipv6IsMetadataOrLinkLocal g"
  then obtain a b c d e f h i where g: "g = [a, b, c, d, e, f, h, i]" by (auto simp: groups8_def elim: eight)
  have lt: "a < 65536" "b < 65536" "c < 65536" "h < 65536" "i < 65536" using g8 g by (simp_all add: groups8_def)
  consider "0xfe80 \<le> a" "a \<le> 0xfebf" | "a = 0xfd00"
    | "\<not> isUnspecifiedOrLoopbackV6 g" "\<exists>s. tunnelledIpv4 g = Some s \<and> isMetadataOrLinkLocal s"
    using m unfolding ipv6IsMetadataOrLinkLocal.simps [of g]
    by (auto simp: isAwsImdsV6_def g split: if_splits option.splits)
  then show ?thesis
  proof cases
    case 3
    then obtain hi lo where t: "hi < 65536" "lo < 65536" "embedded4 g = Some (hi * 65536 + lo)"
      "isMetadataOrLinkLocal (ipv4FromGroups hi lo)"
      using lt by (auto simp: tunnelledIpv4_def embedded4_def g zeros split: if_splits)
    then have "inPrivate4 (hi * 65536 + lo)" by (simp add: groups_host)
    with t show ?thesis by (simp add: inPrivate6_def)
  qed (simp_all add: inPrivate6_def g)
qed

lemma packIpv4_Some:
  "packIpv4 values = Some d \<Longrightarrow> values \<noteq> [] \<Longrightarrow> length values \<le> 4 \<Longrightarrow>
   atonForm values \<and> d = dottedDecimal (packedNumber values)"
proof -
  assume p: "packIpv4 values = Some d" and n: "values \<noteq> []" "length values \<le> 4"
  then have "values ! (length values - Suc 0) = last values" "4 - (length values - Suc 0) = 5 - length values"
    by (simp add: last_conv_nth, cases "values", simp_all)
  with p n show ?thesis
    by (auto simp: packIpv4_def butlast_take Let_def atonForm_def list_ex_iff list_all_iff not_less not_le split: if_splits)
qed

lemma canonical_Some:
  assumes "canonicalizeNumericIpv4 h = Some dotted"
  obtains a b c d where "a < 256" "b < 256" "c < 256" "d < 256" "dotted = quad a b c d"
proof -
  let ?parts = "splitOn (CHR ''.'') h"
  from assms obtain vs where vs: "length ?parts \<le> 4" "those (map parseIpv4Octet ?parts) = Some vs" "packIpv4 vs = Some dotted"
    by (auto simp: canonicalizeNumericIpv4_def Let_def bind_eq_Some_conv split: if_splits)
  then have "length vs = length ?parts" by (auto dest!: those_Some) (metis length_map)
  with vs have "atonForm vs" and "dotted = dottedDecimal (packedNumber vs)"
    using packIpv4_Some [of vs dotted] splitOn_not_Nil [of "CHR ''.''" h] by (metis length_0_conv)+
  obtain a b c d where "a < 256" "b < 256" "c < 256" "d < 256" "packedNumber vs = address a b c d"
    by (rule bytes_of [OF packedNumber_bound [OF \<open>atonForm vs\<close>]])
  then show ?thesis using that \<open>dotted = _\<close> by (simp add: dottedDecimal_address)
qed

text \<open>Nothing the stronger block refuses is let through by the weaker one.\<close>

lemma metadata_private: "isMetadataOrLinkLocal host \<Longrightarrow> isPrivateOrLocalHost host"
proof -
  let ?h = "normalizeHost host"
  assume m: "isMetadataOrLinkLocal host"
  show ?thesis
  proof (cases "CHR '':'' \<in> set ?h")
    case True
    then obtain g where g: "parseIpv6Groups ?h = Some g" "ipv6IsMetadataOrLinkLocal g"
      using m by (auto simp: isMetadataOrLinkLocal.simps [of host] Let_def split: option.splits)
    then have "isPrivateIpv6Groups g" using parsed_groups private_groups metadata_groups by blast
    then show ?thesis using True g(1) by (simp add: isPrivateOrLocalHost.simps [of host] Let_def)
  next
    case False
    then obtain dotted where d: "canonicalizeNumericIpv4 ?h = Some dotted" "ipv4IsMetadata dotted"
      using m by (auto simp: isMetadataOrLinkLocal.simps [of host] Let_def split: option.splits)
    obtain a b c e where q: "a < 256" "b < 256" "c < 256" "e < 256" "dotted = quad a b c e"
      using d(1) by (rule canonical_Some)
    then have "privateDotted dotted"
      using d(2) metadata_private4 by (simp add: privateDotted_quad ipv4IsMetadata_quad)
    then show ?thesis using False d(1) by (simp add: isPrivateOrLocalHost.simps [of host] Let_def)
  qed
qed

section \<open>Properties\<close>




text \<open>
  C30. The permissive block of a local endpoint is contained in the strict one: a host that is a cloud metadata or
  link-local address, in whatever literal, is private or local too.
\<close>

theorem metadata_hosts_private:
  assumes "isMetadataOrLinkLocal host"
  shows "isPrivateOrLocalHost host"
  using assms by (rule metadata_private)

theorem metadata_hosts_private_witness: "isPrivateOrLocalHost ''0xa9.254.1.012''"
proof -
  have s: "list_all2 spells [169, 254, 1, 10] [''0xa9'', ''254'', ''1'', ''012'']"
    unfolding spells_def by code_simp
  have v: "atonForm [169, 254, 1, 10]" by (simp add: atonForm_def)
  have "packedNumber [169, 254, 1, 10] = 2851995914" by (simp add: packedNumber_def)
  then have "inMetadata4 (packedNumber [169, 254, 1, 10])"
    by (simp add: inMetadata4_def METADATA_RANGES_def inRange_def address_def)
  then have "isMetadataOrLinkLocal (joinWith (CHR ''.'') [''0xa9'', ''254'', ''1'', ''012''])"
    by (simp only: spelled_addresses(2) [OF s v])
  then have "isMetadataOrLinkLocal ''0xa9.254.1.012''" by simp
  then show ?thesis by (rule metadata_hosts_private)
qed

end
