(* ===== verification/Effect_Journal.thy ===== *)
theory Effect_Journal
  imports Workflow_Model Js_String
begin

text \<open>
  The durable effect journal: its vocabulary (\<open>packages/shared/src/run.ts\<close>), the reference journal of the
  engine (\<open>packages/core/src/engine/execution-host.ts\<close>) and the store of \<open>packages/db\<close>
  (\<open>effect-journal-store.ts\<close>). A tool call that changes something outside the process is bracketed by
  \<open>prepare\<close> and \<open>settle\<close>; a second \<open>prepare\<close> of the same identity is refused, or answered from the journal.

  The two stores differ in how they compare arguments (their JSON text, or a digest of its canonical form), so
  a row is polymorphic in the fingerprint it keeps. The map key \<open>scope|slot|tool\<close> of the reference
  journal is the triple. The contract both keep is the locale \<open>effect_journal\<close>.
\<close>

section \<open>Vocabulary\<close>

datatype EffectCorrelation = RunEffect string string nat | SessionEffect string nat

datatype EffectTier = Tier1 | Tier2 | Tier3

datatype EffectState = PreparedEffect | DispatchedEffect | CommittedEffect | AmbiguousEffect | NeedsAttention

text \<open>The states a settle may ask for.\<close>

datatype SettleState = SettleCommitted | SettleAmbiguous

fun settledState :: "SettleState \<Rightarrow> EffectState" where
  "settledState SettleCommitted = CommittedEffect"
| "settledState SettleAmbiguous = AmbiguousEffect"

lemma settledState_not_prepared [simp]: "settledState st \<noteq> PreparedEffect"
  by (cases st) simp_all

fun effectScope :: "EffectCorrelation \<Rightarrow> string" where
  "effectScope (RunEffect runId nodeId attempt) =
     ''run:'' @ encodeURIComponent runId @ '':'' @ encodeURIComponent nodeId"
| "effectScope (SessionEffect sessionId turn) =
     ''session:'' @ encodeURIComponent sessionId @ '':'' @ decimal turn"

definition nodeIdFromRunScope :: "string \<Rightarrow> string option" where
  "nodeIdFromRunScope scope =
     (let parts = splitOn (CHR '':'') scope
      in if length parts \<noteq> 3 \<or> parts ! 0 \<noteq> ''run'' then None else decodeURIComponent (parts ! 2))"

type_synonym EffectIdentity = "string \<times> int \<times> string"

definition blocksResume :: "EffectState \<Rightarrow> json option \<Rightarrow> bool" where
  "blocksResume state result = (state \<noteq> CommittedEffect \<or> result = None)"

datatype EffectPrepareVerdict = Proceed | Replay json

datatype EffectFault = EffectConflict EffectIdentity | EffectTransition EffectIdentity EffectState

section \<open>Rows\<close>

record 'a EffectRow =
  er_tier :: EffectTier
  er_state :: EffectState
  er_attempt :: "(nat \<times> string) option"
  er_args :: 'a
  er_result :: "json option"

type_synonym 'a EffectRows = "(EffectIdentity, 'a EffectRow) jsmap"

definition isRun :: "EffectCorrelation \<Rightarrow> bool" where
  "isRun correlation = (case correlation of RunEffect r n a \<Rightarrow> True | SessionEffect s t \<Rightarrow> False)"

section \<open>The reference journal\<close>

text \<open>The fingerprint is the JSON text of the arguments; an ordered JSON value and its text determine each other.\<close>

definition prepareRef ::
  "EffectCorrelation \<Rightarrow> int \<Rightarrow> string \<Rightarrow> EffectTier \<Rightarrow> json \<Rightarrow> (nat \<times> string) option \<Rightarrow> json EffectRows \<Rightarrow>
     (EffectFault + EffectPrepareVerdict) \<times> json EffectRows"
where
  "prepareRef correlation slot toolId tier redactedArgs callAttempt rows =
     (let key = (effectScope correlation, slot, toolId)
      in case mget rows key of
           Some held \<Rightarrow>
             (case er_result held of
                Some result \<Rightarrow>
                  if isRun correlation \<and> er_state held = CommittedEffect \<and> er_args held = redactedArgs
                  then (Inr (Replay result), rows) else (Inl (EffectConflict key), rows)
              | None \<Rightarrow> (Inl (EffectConflict key), rows))
         | None \<Rightarrow>
             (Inr Proceed,
              mset_key key \<lparr>er_tier = tier, er_state = PreparedEffect, er_attempt = callAttempt,
                            er_args = redactedArgs, er_result = None\<rparr> rows))"

definition settleRef ::
  "EffectCorrelation \<Rightarrow> int \<Rightarrow> string \<Rightarrow> SettleState \<Rightarrow> json option \<Rightarrow> json EffectRows \<Rightarrow>
     EffectFault option \<times> json EffectRows"
where
  "settleRef correlation slot toolId state result rows =
     (let key = (effectScope correlation, slot, toolId)
      in case mget rows key of
           None \<Rightarrow> (Some (EffectTransition key (settledState state)), rows)
         | Some row \<Rightarrow>
             if er_state row \<noteq> PreparedEffect then (Some (EffectTransition key (settledState state)), rows)
             else
               (let kept = (if isRun correlation then result else None)
                in (None,
                    mset_key key (row\<lparr>er_state := settledState state,
                                      er_result := (case kept of None \<Rightarrow> er_result row | Some r \<Rightarrow> Some r)\<rparr>) rows)))"

definition discardRef :: "EffectCorrelation \<Rightarrow> int \<Rightarrow> string \<Rightarrow> json EffectRows \<Rightarrow> json EffectRows" where
  "discardRef correlation slot toolId rows =
     (let key = (effectScope correlation, slot, toolId)
      in case mget rows key of
           None \<Rightarrow> rows
         | Some held \<Rightarrow> if er_state held = PreparedEffect then mdelete key rows else rows)"

text \<open>The read half: the unresolved effects of one run, over all its nodes.\<close>

definition runPrefix :: "string \<Rightarrow> string" where
  "runPrefix runId = ''run:'' @ encodeURIComponent runId @ '':''"

definition unresolvedForRun :: "string \<Rightarrow> 'a EffectRows \<Rightarrow> (EffectIdentity \<times> EffectState \<times> EffectTier \<times> string) list"
where
  "unresolvedForRun runId rows =
     map (\<lambda>((scope, slot, toolId), row).
            ((scope, slot, toolId), er_state row, er_tier row,
             case nodeIdFromRunScope scope of None \<Rightarrow> ''(unknown node)'' | Some n \<Rightarrow> n))
       (filter (\<lambda>((scope, slot, toolId), row).
            startsWith (runPrefix runId) scope \<and> blocksResume (er_state row) (er_result row)) rows)"

section \<open>The store of the database\<close>

text \<open>
  The table as a map from its unique index. The digest is SHA-256 over canonical JSON, a parameter. A stored
  result is kept as the value its text parses to; text that does not parse is not a value the store writes.
\<close>

definition prepareStore ::
  "(json \<Rightarrow> string) \<Rightarrow> EffectIdentity \<Rightarrow> (nat \<times> string) option \<Rightarrow> EffectTier \<Rightarrow> json \<Rightarrow> string EffectRows \<Rightarrow>
     (EffectFault + EffectPrepareVerdict) \<times> string EffectRows"
where
  "prepareStore digest identity attempt tier redactedArgs rows =
     (case mget rows identity of
        Some held \<Rightarrow>
          (case er_result held of
             Some result \<Rightarrow>
               if \<not> startsWith ''session:'' (fst identity) \<and> er_state held = CommittedEffect \<and>
                  er_args held = digest redactedArgs
               then (Inr (Replay result), rows) else (Inl (EffectConflict identity), rows)
           | None \<Rightarrow> (Inl (EffectConflict identity), rows))
      | None \<Rightarrow>
          (Inr Proceed,
           mset_key identity \<lparr>er_tier = tier, er_state = PreparedEffect, er_attempt = attempt,
                              er_args = digest redactedArgs, er_result = None\<rparr> rows))"

definition settleStore ::
  "EffectIdentity \<Rightarrow> SettleState \<Rightarrow> json option \<Rightarrow> string EffectRows \<Rightarrow> EffectFault option \<times> string EffectRows"
where
  "settleStore identity state result rows =
     (case mget rows identity of
        None \<Rightarrow> (Some (EffectTransition identity (settledState state)), rows)
      | Some row \<Rightarrow>
          if er_state row \<noteq> PreparedEffect then (Some (EffectTransition identity (settledState state)), rows)
          else
            (None,
             mset_key identity (row\<lparr>er_state := settledState state,
               er_result := (if startsWith ''session:'' (fst identity) then None
                             else case result of None \<Rightarrow> er_result row | Some r \<Rightarrow> Some r)\<rparr>) rows))"

definition discardStore :: "EffectIdentity \<Rightarrow> string EffectRows \<Rightarrow> string EffectRows" where
  "discardStore identity rows =
     (case mget rows identity of
        None \<Rightarrow> rows
      | Some held \<Rightarrow> if er_state held = PreparedEffect then mdelete identity rows else rows)"

definition flagForAttention :: "EffectIdentity \<Rightarrow> string EffectRows \<Rightarrow> string EffectRows" where
  "flagForAttention identity rows =
     (case mget rows identity of
        None \<Rightarrow> rows | Some row \<Rightarrow> mset_key identity (row\<lparr>er_state := NeedsAttention\<rparr>) rows)"

text \<open>The half-open range of a prefix whose last character \<open>:\<close> is replaced by its successor \<open>;\<close>.\<close>

definition scopeRange :: "string \<Rightarrow> string \<times> string" where
  "scopeRange prefix = (prefix, butlast prefix @ '';'')"

definition inScopeRange :: "string \<Rightarrow> string \<Rightarrow> bool" where
  "inScopeRange prefix scope = (case scopeRange prefix of (from, to) \<Rightarrow> from \<le> scope \<and> scope < to)"

definition sweepCommittedForRun :: "string \<Rightarrow> string EffectRows \<Rightarrow> nat \<times> string EffectRows" where
  "sweepCommittedForRun runId rows =
     (let swept = (\<lambda>((scope, slot, toolId), row).
                     inScopeRange (runPrefix runId) scope \<and> er_state row = CommittedEffect)
      in (length (filter swept rows), filter (\<lambda>r. \<not> swept r) rows))"

definition unresolvedInStore :: "string \<Rightarrow> bool \<Rightarrow> string EffectRows \<Rightarrow> string EffectRows" where
  "unresolvedInStore prefix session rows =
     filter (\<lambda>((scope, slot, toolId), row).
       inScopeRange prefix scope \<and>
       (if session then er_state row \<noteq> CommittedEffect
        else blocksResume (er_state row) (if startsWith ''session:'' scope then None else er_result row))) rows"

section \<open>Calls and the contract\<close>

datatype 'i JournalCall =
  PrepareCall 'i EffectTier json "(nat \<times> string) option"
| SettleCall 'i SettleState "json option"
| DiscardCall 'i

datatype JournalReply = Verdict EffectPrepareVerdict | Accepted | RefusedCall EffectFault

definition settleReply :: "EffectFault option \<Rightarrow> JournalReply" where
  "settleReply f = (case f of None \<Rightarrow> Accepted | Some e \<Rightarrow> RefusedCall e)"

definition prepareReply :: "EffectFault + EffectPrepareVerdict \<Rightarrow> JournalReply" where
  "prepareReply v = (case v of Inl e \<Rightarrow> RefusedCall e | Inr r \<Rightarrow> Verdict r)"

fun callRef ::
  "(EffectCorrelation \<times> int \<times> string) JournalCall \<Rightarrow> json EffectRows \<Rightarrow> JournalReply \<times> json EffectRows"
where
  "callRef (PrepareCall (c, slot, toolId) tier a attempt) rows =
     (case prepareRef c slot toolId tier a attempt rows of (v, rows') \<Rightarrow> (prepareReply v, rows'))"
| "callRef (SettleCall (c, slot, toolId) state result) rows =
     (case settleRef c slot toolId state result rows of (f, rows') \<Rightarrow> (settleReply f, rows'))"
| "callRef (DiscardCall (c, slot, toolId)) rows = (Accepted, discardRef c slot toolId rows)"

fun callStore ::
  "(json \<Rightarrow> string) \<Rightarrow> EffectIdentity JournalCall \<Rightarrow> string EffectRows \<Rightarrow> JournalReply \<times> string EffectRows"
where
  "callStore digest (PrepareCall identity tier a attempt) rows =
     (case prepareStore digest identity attempt tier a rows of (v, rows') \<Rightarrow> (prepareReply v, rows'))"
| "callStore digest (SettleCall identity state result) rows =
     (case settleStore identity state result rows of (f, rows') \<Rightarrow> (settleReply f, rows'))"
| "callStore digest (DiscardCall identity) rows = (Accepted, discardStore identity rows)"

text \<open>The rows after a list of calls.\<close>

definition journalAfter :: "('i JournalCall \<Rightarrow> 's \<Rightarrow> JournalReply \<times> 's) \<Rightarrow> 'i JournalCall list \<Rightarrow> 's \<Rightarrow> 's" where
  "journalAfter call calls s = fold (\<lambda>c s. snd (call c s)) calls s"

text \<open>
  What a client sees of a row: its state, the fingerprint of its arguments and the result it kept. The
  contract says how each call reads and changes the cell of its key and that it leaves the others alone.
\<close>

locale effect_journal =
  fixes call :: "'i JournalCall \<Rightarrow> 's \<Rightarrow> JournalReply \<times> 's"
    and cell :: "'s \<Rightarrow> 'k \<Rightarrow> (EffectState \<times> 'f \<times> json option) option"
    and key :: "'i \<Rightarrow> 'k"
    and fingerprint :: "json \<Rightarrow> 'f"
    and replayable :: "'i \<Rightarrow> bool"
  assumes prepare_fresh: "cell s (key i) = None \<Longrightarrow>
      fst (call (PrepareCall i tier a att) s) = Verdict Proceed \<and>
      cell (snd (call (PrepareCall i tier a att) s)) = (cell s)(key i \<mapsto> (PreparedEffect, fingerprint a, None))"
    and prepare_held: "cell s (key i) = Some (st, f, r) \<Longrightarrow>
      cell (snd (call (PrepareCall i tier a att) s)) = cell s \<and>
      fst (call (PrepareCall i tier a att) s) \<noteq> Verdict Proceed \<and>
      (\<forall>v. fst (call (PrepareCall i tier a att) s) = Verdict (Replay v) \<longleftrightarrow>
         replayable i \<and> st = CommittedEffect \<and> f = fingerprint a \<and> r = Some v)"
    and settle_held: "cell s (key i) = Some (PreparedEffect, f, r) \<Longrightarrow>
      fst (call (SettleCall i st' res) s) = Accepted \<and>
      (\<exists>r'. cell (snd (call (SettleCall i st' res) s)) = (cell s)(key i \<mapsto> (settledState st', f, r')) \<and>
         (r' = None \<or> r' = r \<or> r' = res))"
    and settle_refused: "(\<And>f r. cell s (key i) \<noteq> Some (PreparedEffect, f, r)) \<Longrightarrow>
      cell (snd (call (SettleCall i st' res) s)) = cell s \<and> (\<exists>e. fst (call (SettleCall i st' res) s) = RefusedCall e)"
    and discard_cell: "cell (snd (call (DiscardCall i) s)) =
      (case cell s (key i) of Some (PreparedEffect, f, r) \<Rightarrow> (cell s)(key i := None) | _ \<Rightarrow> cell s)"
begin

text \<open>A held identity is not admitted again unless it is discarded.\<close>

lemma held_stays:
  "cell s k \<noteq> None \<Longrightarrow> \<forall>i. DiscardCall i \<in> set calls \<longrightarrow> key i \<noteq> k \<Longrightarrow> cell (journalAfter call calls s) k \<noteq> None"
proof (induction calls arbitrary: s)
  case (Cons c calls)
  have "cell (snd (call c s)) k \<noteq> None"
  proof (cases c)
    case (PrepareCall i tier a att)
    then show ?thesis
      using Cons.prems prepare_fresh [of s i tier a att] prepare_held [of s i _ _ _ tier a att]
      by (cases "cell s (key i)") auto
  next
    case (SettleCall i st res)
    show ?thesis
    proof (cases "\<exists>f r. cell s (key i) = Some (PreparedEffect, f, r)")
      case True
      then show ?thesis using Cons.prems SettleCall settle_held [of s i _ _ st res] by auto
    next
      case False
      then show ?thesis using Cons.prems SettleCall settle_refused [of s i st res] by auto
    qed
  next
    case (DiscardCall i)
    then show ?thesis
      using Cons.prems discard_cell [of i s] by (auto split: option.splits EffectState.splits prod.splits)
  qed
  then show ?case using Cons by (simp add: journalAfter_def)
qed (simp add: journalAfter_def)

lemma admitted_once:
  assumes "fst (call (PrepareCall i tier a att) s) = Verdict Proceed"
    and "\<forall>d. DiscardCall d \<in> set calls \<longrightarrow> key d \<noteq> key i" and "key j = key i"
  shows "fst (call (PrepareCall j tier' a' att') (journalAfter call (PrepareCall i tier a att # calls) s)) \<noteq> Verdict Proceed"
proof -
  have "cell s (key i) = None"
    using assms(1) prepare_held [of s i _ _ _ tier a att] by (cases "cell s (key i)") auto
  then have "cell (snd (call (PrepareCall i tier a att) s)) (key i) \<noteq> None" using prepare_fresh by fastforce
  then have "cell (journalAfter call calls (snd (call (PrepareCall i tier a att) s))) (key i) \<noteq> None"
    using assms(2) by (intro held_stays)
  then show ?thesis
    using prepare_held [of _ j _ _ _ tier' a' att'] assms(3) by (fastforce simp: journalAfter_def)
qed

text \<open>A row is there because a call was admitted, and keeps a result only because a call settled it.\<close>

definition settledIn :: "'i JournalCall list \<Rightarrow> 's \<Rightarrow> 'k \<Rightarrow> EffectState \<Rightarrow> json option \<Rightarrow> 'i JournalCall list \<Rightarrow> bool" where
  "settledIn us s k st r vs =
     (r = None \<or> (\<exists>ws i st' zs. vs = ws @ SettleCall i st' r # zs \<and> key i = k \<and> st = settledState st' \<and>
        fst (call (SettleCall i st' r) (journalAfter call (us @ ws) s)) = Accepted))"

definition recorded :: "'i JournalCall list \<Rightarrow> 's \<Rightarrow> 'k \<Rightarrow> EffectState \<times> 'f \<times> json option \<Rightarrow> bool" where
  "recorded xs s k c =
     (\<exists>us i tier a att vs. xs = us @ PrepareCall i tier a att # vs \<and> key i = k \<and> fst (snd c) = fingerprint a \<and>
        fst (call (PrepareCall i tier a att) (journalAfter call us s)) = Verdict Proceed \<and>
        settledIn (us @ [PrepareCall i tier a att]) s k (fst c) (snd (snd c)) vs \<and>
        (fst c = PreparedEffect \<longrightarrow> snd (snd c) = None))"

lemma settledIn_more: "settledIn us s k st r vs \<Longrightarrow> settledIn us s k st r (vs @ [c])"
  unfolding settledIn_def by (elim disjE exE conjE) (simp, metis append_Cons append_assoc)

lemma recorded_more: "recorded xs s k c \<Longrightarrow> recorded (xs @ [d]) s k c"
  unfolding recorded_def by (elim exE conjE) (metis append_Cons append_assoc settledIn_more)

lemma journalAfter_snoc: "journalAfter call (xs @ [c]) s = snd (call c (journalAfter call xs s))"
  by (simp add: journalAfter_def)

lemma rows_recorded:
  assumes "\<forall>k. cell s k = None"
  shows "cell (journalAfter call xs s) k = Some c \<Longrightarrow> recorded xs s k c"
proof (induction xs arbitrary: k c rule: rev_induct)
  case Nil
  then show ?case using assms by (simp add: journalAfter_def)
next
  case (snoc d xs)
  let ?t = "journalAfter call xs s"
  have old: "recorded (xs @ [d]) s k c" if "cell ?t k = Some c" using recorded_more [OF snoc.IH [OF that]] .
  show ?case
  proof (cases d)
    case (PrepareCall i tier a att)
    show ?thesis
    proof (cases "cell ?t (key i)")
      case None
      note p = prepare_fresh [OF this, of tier a att]
      show ?thesis
      proof (cases "k = key i")
        case True
        then have "c = (PreparedEffect, fingerprint a, None)"
          using snoc.prems p PrepareCall by (simp add: journalAfter_snoc)
        then show ?thesis using p True PrepareCall unfolding recorded_def
          by (intro exI [of _ xs] exI [of _ i] exI [of _ tier] exI [of _ a] exI [of _ att] exI [of _ "[]"])
            (simp add: settledIn_def)
      qed (use snoc.prems p PrepareCall old in \<open>simp add: journalAfter_snoc\<close>)
    next
      case (Some h)
      then show ?thesis
        using snoc.prems old PrepareCall prepare_held [of ?t i "fst h" "fst (snd h)" "snd (snd h)" tier a att]
        by (simp add: journalAfter_snoc)
    qed
  next
    case (SettleCall i st res)
    show ?thesis
    proof (cases "\<exists>f r. cell ?t (key i) = Some (PreparedEffect, f, r)")
      case True
      then obtain f r where h: "cell ?t (key i) = Some (PreparedEffect, f, r)" by blast
      from settle_held [OF h, of st res] obtain r' where a: "fst (call d ?t) = Accepted"
        and n: "cell (snd (call d ?t)) = (cell ?t)(key i \<mapsto> (settledState st, f, r'))" "r' = None \<or> r' = r \<or> r' = res"
        using SettleCall by blast
      show ?thesis
      proof (cases "k = key i")
        case True
        then have c: "c = (settledState st, f, r')" using snoc.prems n by (simp add: journalAfter_snoc)
        from snoc.IH [OF h] obtain us j tier b att vs where r: "xs = us @ PrepareCall j tier b att # vs" "key j = key i"
          "f = fingerprint b" "fst (call (PrepareCall j tier b att) (journalAfter call us s)) = Verdict Proceed" "r = None"
          unfolding recorded_def by auto
        have "settledIn (us @ [PrepareCall j tier b att]) s k (settledState st) r' (vs @ [d])"
          using n(2) a r True SettleCall unfolding settledIn_def by auto
        then show ?thesis using r True c unfolding recorded_def
          by (intro exI [of _ us] exI [of _ j] exI [of _ tier] exI [of _ b] exI [of _ att] exI [of _ "vs @ [d]"]) simp
      qed (use snoc.prems n old in \<open>simp add: journalAfter_snoc\<close>)
    next
      case False
      then show ?thesis
        using snoc.prems old SettleCall settle_refused [of ?t i st res] by (simp add: journalAfter_snoc)
    qed
  next
    case (DiscardCall i)
    then show ?thesis using snoc.prems old discard_cell [of i ?t]
      by (auto simp: journalAfter_snoc split: option.splits EffectState.splits prod.splits if_splits)
  qed
qed

end

text \<open>The cell of an identity, and the two stores as instances of the contract.\<close>

definition effectCell :: "'a EffectRows \<Rightarrow> EffectIdentity \<Rightarrow> (EffectState \<times> 'a \<times> json option) option" where
  "effectCell rows k = map_option (\<lambda>r. (er_state r, er_args r, er_result r)) (mget rows k)"

definition refKey :: "EffectCorrelation \<times> int \<times> string \<Rightarrow> EffectIdentity" where
  "refKey i = (case i of (c, slot, toolId) \<Rightarrow> (effectScope c, slot, toolId))"

lemma effectCell_put [simp]:
  "effectCell (mset_key k row rows) = (effectCell rows)(k \<mapsto> (er_state row, er_args row, er_result row))"
  by (rule ext) (simp add: effectCell_def)

lemma effectCell_delete [simp]: "effectCell (mdelete k rows) = (effectCell rows)(k := None)"
  by (rule ext) (simp add: effectCell_def)

lemma effectCell_None: "effectCell rows k = None \<longleftrightarrow> mget rows k = None"
  by (simp add: effectCell_def)

lemma effectCell_Some:
  "effectCell rows k = Some (st, f, r) \<longleftrightarrow> (\<exists>row. mget rows k = Some row \<and> er_state row = st \<and> er_args row = f \<and> er_result row = r)"
  by (auto simp: effectCell_def)

lemma effectCellE:
  assumes "effectCell rows k = Some (st, f, r)"
  obtains row where "mget rows k = Some row" "st = er_state row" "f = er_args row" "r = er_result row"
  using assms by (auto simp: effectCell_Some)

interpretation refj: effect_journal callRef effectCell refKey id "\<lambda>i. isRun (fst i)"
proof
  fix s :: "json EffectRows" and i :: "EffectCorrelation \<times> int \<times> string" and tier a att st f r st' res
  obtain c slot tool where i: "i = (c, slot, tool)" by (cases i) auto
  show "effectCell s (refKey i) = None \<Longrightarrow>
      fst (callRef (PrepareCall i tier a att) s) = Verdict Proceed \<and>
      effectCell (snd (callRef (PrepareCall i tier a att) s)) = (effectCell s)(refKey i \<mapsto> (PreparedEffect, id a, None))"
    by (simp add: i refKey_def effectCell_None prepareRef_def prepareReply_def)
  show "effectCell s (refKey i) = Some (st, f, r) \<Longrightarrow>
      effectCell (snd (callRef (PrepareCall i tier a att) s)) = effectCell s \<and>
      fst (callRef (PrepareCall i tier a att) s) \<noteq> Verdict Proceed \<and>
      (\<forall>v. fst (callRef (PrepareCall i tier a att) s) = Verdict (Replay v) \<longleftrightarrow>
         isRun (fst i) \<and> st = CommittedEffect \<and> f = id a \<and> r = Some v)"
    by (elim effectCellE, cases "er_result (the (mget s (refKey i)))") (auto simp: i refKey_def prepareRef_def prepareReply_def Let_def)
  show "effectCell s (refKey i) = Some (PreparedEffect, f, r) \<Longrightarrow>
      fst (callRef (SettleCall i st' res) s) = Accepted \<and>
      (\<exists>r'. effectCell (snd (callRef (SettleCall i st' res) s)) = (effectCell s)(refKey i \<mapsto> (settledState st', f, r')) \<and>
         (r' = None \<or> r' = r \<or> r' = res))"
    by (auto simp: i refKey_def effectCell_Some settleRef_def settleReply_def Let_def split: option.splits)
  show "(\<And>f r. effectCell s (refKey i) \<noteq> Some (PreparedEffect, f, r)) \<Longrightarrow>
      effectCell (snd (callRef (SettleCall i st' res) s)) = effectCell s \<and> (\<exists>e. fst (callRef (SettleCall i st' res) s) = RefusedCall e)"
    by (auto simp: i refKey_def effectCell_Some settleRef_def settleReply_def Let_def split: option.splits)
  show "effectCell (snd (callRef (DiscardCall i) s)) =
      (case effectCell s (refKey i) of Some (PreparedEffect, f, r) \<Rightarrow> (effectCell s)(refKey i := None) | _ \<Rightarrow> effectCell s)"
    by (auto simp: i refKey_def discardRef_def effectCell_def split: option.splits EffectState.splits)
qed

interpretation storej: effect_journal "callStore digest" effectCell id digest "\<lambda>i. \<not> startsWith ''session:'' (fst i)"
  for digest :: "json \<Rightarrow> string"
proof
  fix s :: "string EffectRows" and i :: EffectIdentity and tier a att st f r st' res
  show "effectCell s (id i) = None \<Longrightarrow>
      fst (callStore digest (PrepareCall i tier a att) s) = Verdict Proceed \<and>
      effectCell (snd (callStore digest (PrepareCall i tier a att) s)) = (effectCell s)(id i \<mapsto> (PreparedEffect, digest a, None))"
    by (simp add: effectCell_None prepareStore_def prepareReply_def)
  show "effectCell s (id i) = Some (st, f, r) \<Longrightarrow>
      effectCell (snd (callStore digest (PrepareCall i tier a att) s)) = effectCell s \<and>
      fst (callStore digest (PrepareCall i tier a att) s) \<noteq> Verdict Proceed \<and>
      (\<forall>v. fst (callStore digest (PrepareCall i tier a att) s) = Verdict (Replay v) \<longleftrightarrow>
         \<not> startsWith ''session:'' (fst i) \<and> st = CommittedEffect \<and> f = digest a \<and> r = Some v)"
    by (elim effectCellE, cases "er_result (the (mget s i))") (auto simp: prepareStore_def prepareReply_def)
  show "effectCell s (id i) = Some (PreparedEffect, f, r) \<Longrightarrow>
      fst (callStore digest (SettleCall i st' res) s) = Accepted \<and>
      (\<exists>r'. effectCell (snd (callStore digest (SettleCall i st' res) s)) = (effectCell s)(id i \<mapsto> (settledState st', f, r')) \<and>
         (r' = None \<or> r' = r \<or> r' = res))"
    by (auto simp: effectCell_Some settleStore_def settleReply_def split: option.splits)
  show "(\<And>f r. effectCell s (id i) \<noteq> Some (PreparedEffect, f, r)) \<Longrightarrow>
      effectCell (snd (callStore digest (SettleCall i st' res) s)) = effectCell s \<and>
      (\<exists>e. fst (callStore digest (SettleCall i st' res) s) = RefusedCall e)"
    by (auto simp: effectCell_Some settleStore_def settleReply_def split: option.splits)
  show "effectCell (snd (callStore digest (DiscardCall i) s)) =
      (case effectCell s (id i) of Some (PreparedEffect, f, r) \<Rightarrow> (effectCell s)(id i := None) | _ \<Rightarrow> effectCell s)"
    by (auto simp: discardStore_def effectCell_def split: option.splits EffectState.splits)
qed

section \<open>Scopes\<close>

lemma scope_parts:
  "splitOn (CHR '':'') (effectScope (RunEffect r n k)) = [''run'', encodeURIComponent r, encodeURIComponent n]"
  using splitOn_append [of "CHR '':''" "''run''" "encodeURIComponent r @ CHR '':'' # encodeURIComponent n"]
  by (simp add: splitOn_append no_separator splitOn_alone)

lemma node_of_scope: "nodeIdFromRunScope (effectScope (RunEffect r n k)) = Some n"
  by (simp only: nodeIdFromRunScope_def scope_parts) (simp add: decode_encodeURIComponent numeral_2_eq_2)

lemma take_to_colon: "CHR '':'' \<notin> set a \<Longrightarrow> CHR '':'' \<notin> set b \<Longrightarrow> a @ CHR '':'' # x = b @ CHR '':'' # y \<longleftrightarrow> a = b \<and> x = y"
  by (metis list.inject splitOn_append takeWhile_eq_all_conv append_same_eq same_append_eq list.distinct(1))

lemma scope_of_run: "startsWith (runPrefix r) (effectScope c) \<longleftrightarrow> (\<exists>n k. c = RunEffect r n k)"
  by (cases c) (auto simp: runPrefix_def startsWith_iff take_to_colon no_separator encodeURIComponent_inj)

lemma scope_inj: "effectScope (RunEffect r n k) = effectScope (RunEffect r' n' k') \<longleftrightarrow> r = r' \<and> n = n'"
  by (auto simp: take_to_colon no_separator encodeURIComponent_inj)

lemma colon_range: "q @ '':'' \<le> s \<and> s < q @ '';'' \<longleftrightarrow> (\<exists>r. s = q @ '':'' @ r)"
proof (induction q arbitrary: s)
  case Nil
  show ?case
  proof (cases s)
    case (Cons c r)
    have "CHR '':'' < c \<Longrightarrow> \<not> c < CHR '';''" by (simp add: less_char_def)
    then show ?thesis using Cons by (auto simp: less_char_def)
  qed simp
next
  case (Cons x q)
  show ?case
  proof (cases s)
    case (Cons c r)
    then show ?thesis using Cons.IH [of r] by auto
  qed simp
qed

lemma inScopeRange_prefix: "inScopeRange (q @ '':'') s \<longleftrightarrow> startsWith (q @ '':'') s"
  using colon_range [of q s] by (simp add: inScopeRange_def scopeRange_def startsWith_iff)

lemma inScopeRange_run: "inScopeRange (runPrefix r) s \<longleftrightarrow> startsWith (runPrefix r) s"
  using inScopeRange_prefix [of "''run:'' @ encodeURIComponent r" s] by (simp add: runPrefix_def)

section \<open>Properties\<close>

text \<open>The identity of a call made by some attempt of a node.\<close>

definition nodeCall :: "string \<Rightarrow> string \<Rightarrow> int \<Rightarrow> string \<Rightarrow> nat \<Rightarrow> EffectCorrelation \<times> int \<times> string" where
  "nodeCall runId nodeId slot toolId attempt = (RunEffect runId nodeId attempt, slot, toolId)"

lemma refKey_nodeCall:
  "refKey d = refKey (nodeCall r n slot tool k) \<longleftrightarrow> (\<exists>k'. d = nodeCall r n slot tool k')"
proof -
  obtain c sl t where d: "d = (c, sl, t)" by (cases d) auto
  show ?thesis by (cases c) (auto simp: d refKey_def nodeCall_def take_to_colon no_separator encodeURIComponent_inj)
qed

text \<open>
  C34. Once the journal let a tool call of a node go ahead, it lets no later call with the same node, slot and tool
  go ahead, in whatever attempt of the node and whatever calls come between, unless the call was discarded.
\<close>

theorem effects_admitted_once:
  assumes "fst (callRef (PrepareCall (nodeCall r n slot tool k) tier a att) rows) = Verdict Proceed"
    and "\<forall>k'. DiscardCall (nodeCall r n slot tool k') \<notin> set calls"
  shows "fst (callRef (PrepareCall (nodeCall r n slot tool k'') tier' a' att')
      (journalAfter callRef (PrepareCall (nodeCall r n slot tool k) tier a att # calls) rows)) \<noteq> Verdict Proceed"
proof (rule refj.admitted_once [OF assms(1)])
  show "\<forall>d. DiscardCall d \<in> set calls \<longrightarrow> refKey d \<noteq> refKey (nodeCall r n slot tool k)"
    using assms(2) refKey_nodeCall by fastforce
  show "refKey (nodeCall r n slot tool k'') = refKey (nodeCall r n slot tool k)" using refKey_nodeCall by blast
qed

theorem effects_admitted_once_witness:
  "fst (callRef (PrepareCall (nodeCall ''r'' ''n'' 0 ''post'' 1) Tier3 JNull None)
     (journalAfter callRef
       [PrepareCall (nodeCall ''r'' ''n'' 0 ''post'' 0) Tier3 JNull None,
        SettleCall (nodeCall ''r'' ''n'' 0 ''post'' 0) SettleAmbiguous None] [])) \<noteq> Verdict Proceed"
proof (rule effects_admitted_once)
  show "fst (callRef (PrepareCall (nodeCall ''r'' ''n'' 0 ''post'' 0) Tier3 JNull None) []) = Verdict Proceed"
    by code_simp
qed simp

text \<open>
  A call that is answered from the journal instead of being made gets the result with which an earlier call of the
  same node, slot, tool and arguments, which the journal had let go ahead, was settled as committed.
\<close>

theorem replayed_result_was_committed:
  assumes "fst (callRef (PrepareCall (nodeCall r n slot tool k) tier a att) (journalAfter callRef calls [])) = Verdict (Replay v)"
  shows "\<exists>us k1 tier1 att1 ws k2 zs.
    calls = us @ PrepareCall (nodeCall r n slot tool k1) tier1 a att1 # ws @
              SettleCall (nodeCall r n slot tool k2) SettleCommitted (Some v) # zs \<and>
    fst (callRef (PrepareCall (nodeCall r n slot tool k1) tier1 a att1) (journalAfter callRef us [])) = Verdict Proceed \<and>
    fst (callRef (SettleCall (nodeCall r n slot tool k2) SettleCommitted (Some v))
      (journalAfter callRef (us @ PrepareCall (nodeCall r n slot tool k1) tier1 a att1 # ws) [])) = Accepted"
proof -
  let ?i = "nodeCall r n slot tool k"
  let ?t = "journalAfter callRef calls []"
  have empty: "\<forall>k. effectCell ([] :: json EffectRows) k = None" by (simp add: effectCell_def)
  have "effectCell ?t (refKey ?i) \<noteq> None" using assms refj.prepare_fresh [of ?t ?i tier a att] by fastforce
  then obtain st f res where c: "effectCell ?t (refKey ?i) = Some (st, f, res)" by (auto elim: option.exhaust)
  then have "st = CommittedEffect" "f = a" "res = Some v"
    using refj.prepare_held [OF c, of tier a att] assms by auto
  then have "refj.recorded calls [] (refKey ?i) (CommittedEffect, a, Some v)"
    using refj.rows_recorded [OF empty] c by simp
  then obtain us j tier1 b att1 vs where 1: "calls = us @ PrepareCall j tier1 b att1 # vs" "refKey j = refKey ?i" "a = b"
      "fst (callRef (PrepareCall j tier1 b att1) (journalAfter callRef us [])) = Verdict Proceed"
      "refj.settledIn (us @ [PrepareCall j tier1 b att1]) [] (refKey ?i) CommittedEffect (Some v) vs"
    unfolding refj.recorded_def by auto
  then obtain ws d st' zs where 2: "vs = ws @ SettleCall d st' (Some v) # zs" "refKey d = refKey ?i"
      "CommittedEffect = settledState st'"
      "fst (callRef (SettleCall d st' (Some v)) (journalAfter callRef ((us @ [PrepareCall j tier1 b att1]) @ ws) [])) = Accepted"
    unfolding refj.settledIn_def by blast
  have "st' = SettleCommitted" using 2(3) by (cases st') auto
  moreover obtain k1 k2 where "j = nodeCall r n slot tool k1" "d = nodeCall r n slot tool k2"
    using 1(2) 2(2) refKey_nodeCall by blast
  ultimately show ?thesis using 1 2
    by (intro exI [of _ us] exI [of _ k1] exI [of _ tier1] exI [of _ att1] exI [of _ ws] exI [of _ k2] exI [of _ zs]) simp
qed

theorem replayed_result_was_committed_witness:
  "\<exists>us k1 tier1 att1 ws k2 zs.
    [PrepareCall (nodeCall ''r'' ''n'' 0 ''post'' 0) Tier3 JNull None,
     SettleCall (nodeCall ''r'' ''n'' 0 ''post'' 0) SettleCommitted (Some (JStr ''ok''))] =
      us @ PrepareCall (nodeCall ''r'' ''n'' 0 ''post'' k1) tier1 JNull att1 # ws @
        SettleCall (nodeCall ''r'' ''n'' 0 ''post'' k2) SettleCommitted (Some (JStr ''ok'')) # zs"
proof -
  have "fst (callRef (PrepareCall (nodeCall ''r'' ''n'' 0 ''post'' 1) Tier3 JNull None) (journalAfter callRef
     [PrepareCall (nodeCall ''r'' ''n'' 0 ''post'' 0) Tier3 JNull None,
      SettleCall (nodeCall ''r'' ''n'' 0 ''post'' 0) SettleCommitted (Some (JStr ''ok''))] []))
    = Verdict (Replay (JStr ''ok''))"
    by code_simp
  from replayed_result_was_committed [OF this] show ?thesis by blast
qed

end
