(* ===== verification/Tool_Policy.thy ===== *)
theory Tool_Policy
  imports Effect_Journal Egress_Host
begin

text \<open>
  What the tool registry decides before a tool is called (\<open>packages/core/src/tools/registry.ts\<close>, \<open>types.ts\<close>,
  \<open>errors.ts\<close>, \<open>effect-predicate.ts\<close>): its errors, the definition of a tool, the arguments a call runs with, the
  policy on its target, and the projection of the arguments that the effect journal keeps.

  Arguments and results are JSON values and \<open>undefined\<close> is \<open>None\<close>; a member of an object whose value is
  \<open>undefined\<close> is left out, as \<open>JSON.stringify\<close> does. What a value thrown by a validator names is the list
  of the paths of its issues, if it has such a list.
\<close>

section \<open>Errors\<close>

datatype ToolErrorCode =
  UnknownTool | DeniedTool | InvalidArgs | CapabilityUnavailable | EffectConflicted | EffectUnrecorded
| ExecutionFailed | DispatchCancelled

datatype ToolPolicyDenyReason =
  NotGranted | ProviderExecuted | CommandNotAllowed | DomainNotAllowed | InsecureUrl | GateRequired | MediaScopeDenied

datatype ToolApprovalDenyReason = UserRejected | NoApprovalHook | ApprovalError

datatype ToolErrorDetail =
  NoDetail | PolicyReason ToolPolicyDenyReason | ApprovalReason ToolApprovalDenyReason
| InvalidFields "string list" | MissingCapability string

record ToolDispatchError =
  te_code :: ToolErrorCode
  te_toolId :: "string option"
  te_retryable :: bool
  te_recoverable :: bool
  te_detail :: ToolErrorDetail

definition UnknownToolError :: "string \<Rightarrow> ToolDispatchError" where
  "UnknownToolError toolId =
     \<lparr>te_code = UnknownTool, te_toolId = Some toolId, te_retryable = False, te_recoverable = False, te_detail = NoDetail\<rparr>"

definition ToolPolicyError :: "string \<Rightarrow> ToolPolicyDenyReason \<Rightarrow> ToolDispatchError" where
  "ToolPolicyError toolId reason =
     \<lparr>te_code = DeniedTool, te_toolId = Some toolId, te_retryable = False,
      te_recoverable = (reason = MediaScopeDenied), te_detail = PolicyReason reason\<rparr>"

definition ToolDeniedByUserError :: "string \<Rightarrow> ToolApprovalDenyReason \<Rightarrow> ToolDispatchError" where
  "ToolDeniedByUserError toolId reason =
     \<lparr>te_code = DeniedTool, te_toolId = Some toolId, te_retryable = False, te_recoverable = False,
      te_detail = ApprovalReason reason\<rparr>"

definition ToolArgsInvalidError :: "string \<Rightarrow> string list \<Rightarrow> ToolDispatchError" where
  "ToolArgsInvalidError toolId names =
     \<lparr>te_code = InvalidArgs, te_toolId = Some toolId, te_retryable = False, te_recoverable = False,
      te_detail = InvalidFields names\<rparr>"

definition ToolUnavailableError :: "string \<Rightarrow> string \<Rightarrow> ToolDispatchError" where
  "ToolUnavailableError toolId capability =
     \<lparr>te_code = CapabilityUnavailable, te_toolId = Some toolId, te_retryable = False, te_recoverable = False,
      te_detail = MissingCapability capability\<rparr>"

definition ToolEffectConflictError :: "string \<Rightarrow> ToolDispatchError" where
  "ToolEffectConflictError toolId =
     \<lparr>te_code = EffectConflicted, te_toolId = Some toolId, te_retryable = False, te_recoverable = False,
      te_detail = NoDetail\<rparr>"

definition ToolEffectNeedsAttentionError :: "string \<Rightarrow> ToolDispatchError" where
  "ToolEffectNeedsAttentionError toolId =
     \<lparr>te_code = EffectUnrecorded, te_toolId = Some toolId, te_retryable = False, te_recoverable = False,
      te_detail = NoDetail\<rparr>"

text \<open>The options of the constructor default to not recoverable and retryable.\<close>

definition ToolExecutionError :: "string \<Rightarrow> bool option \<Rightarrow> bool option \<Rightarrow> ToolDispatchError" where
  "ToolExecutionError toolId recoverable retryable =
     \<lparr>te_code = ExecutionFailed, te_toolId = Some toolId,
      te_retryable = (case retryable of None \<Rightarrow> True | Some b \<Rightarrow> b),
      te_recoverable = (case recoverable of None \<Rightarrow> False | Some b \<Rightarrow> b), te_detail = NoDetail\<rparr>"

definition ToolCancelledError :: "string option \<Rightarrow> ToolDispatchError" where
  "ToolCancelledError toolId =
     \<lparr>te_code = DispatchCancelled, te_toolId = toolId, te_retryable = False, te_recoverable = False,
      te_detail = NoDetail\<rparr>"

lemmas tool_errors =
  UnknownToolError_def ToolPolicyError_def ToolDeniedByUserError_def ToolArgsInvalidError_def ToolUnavailableError_def
  ToolEffectConflictError_def ToolEffectNeedsAttentionError_def ToolExecutionError_def ToolCancelledError_def

text \<open>Whatever may be thrown: an error of a dispatch, a conflict of the journal, an error named \<open>AbortError\<close>.\<close>

datatype Fault = ToolFault ToolDispatchError | ConflictFault | AbortFault | OtherFault

section \<open>Tools\<close>

datatype ToolSource = Builtin | Mcp | Plugin

datatype EgressKind = HttpEgress | SearchEgress | McpEgress

record ToolPolicyClass =
  pc_fsScoped :: bool
  pc_fsWrite :: bool
  pc_spawnsProcess :: bool
  pc_egress :: "EgressKind option"
  pc_os :: bool
  pc_requiresGateApproval :: bool

record PolicyTarget =
  pt_command :: "string option"
  pt_url :: "string option"
  pt_path :: "string option"

definition noTarget :: PolicyTarget where
  "noTarget = \<lparr>pt_command = None, pt_url = None, pt_path = None\<rparr>"

type_synonym object = "(string, json) jsmap"

datatype PathPart = KeyPart string | IndexPart nat

type_synonym ParseFault = "PathPart list list option"

text \<open>A call of the host may read and change the state of the world, \<open>'s\<close>.\<close>

record ('a, 's) ToolDef =
  td_id :: string
  td_source :: ToolSource
  td_parseArgs :: "object \<Rightarrow> ParseFault + 'a"
  td_configOnlyParams :: "string list"
  td_policy :: ToolPolicyClass
  td_policyTarget :: "('a \<Rightarrow> PolicyTarget) option"
  td_effect :: "('a \<Rightarrow> EffectTier option) option"
  td_duplicationBenign :: bool
  td_dispatch :: "'a \<Rightarrow> 's \<Rightarrow> (Fault + json option \<times> string list) \<times> 's"

definition journaledTier :: "('a, 's) ToolDef \<Rightarrow> 'a \<Rightarrow> EffectTier option" where
  "journaledTier def args =
     (case td_effect def of
        None \<Rightarrow> None
      | Some effect \<Rightarrow> if td_duplicationBenign def \<and> td_source def = Builtin then None else effect args)"

record ToolCall =
  tc_id :: string
  tc_name :: string
  tc_args :: json
  tc_providerExecuted :: bool

section \<open>Effective arguments\<close>

definition UNSAFE_ARG_KEYS :: "string list" where
  "UNSAFE_ARG_KEYS = [''__proto__'', ''constructor'', ''prototype'']"

definition copyArgs :: "json option \<Rightarrow> string list \<Rightarrow> object \<Rightarrow> object" where
  "copyArgs source exclude target =
     (case source of
        Some (JObj members) \<Rightarrow>
          fold (\<lambda>(key, v) t. if key \<in> set UNSAFE_ARG_KEYS \<or> key \<in> set exclude then t else mset_key key v t) members target
      | _ \<Rightarrow> target)"

definition assembleArgs :: "string list \<Rightarrow> json \<Rightarrow> object option \<Rightarrow> object option \<Rightarrow> object" where
  "assembleArgs configOnly modelArgs inputMapping params =
     (let base = copyArgs (map_option JObj inputMapping) configOnly (copyArgs (Some modelArgs) configOnly [])
      in case params of
           None \<Rightarrow> base
         | Some p \<Rightarrow>
             fold (\<lambda>key t. if key \<in> set UNSAFE_ARG_KEYS then t
                           else case mget p key of None \<Rightarrow> t | Some v \<Rightarrow> mset_key key v t) (remdups configOnly) base)"

definition assertNoTaintedArgs :: "string \<Rightarrow> object \<Rightarrow> string list option \<Rightarrow> ToolDispatchError option" where
  "assertNoTaintedArgs toolId effective secretArgKeys =
     (case secretArgKeys of
        None \<Rightarrow> None
      | Some secrets \<Rightarrow>
          (let tainted = filter (\<lambda>key. key \<in> set secrets) (mkeys effective)
           in if tainted = [] then None else Some (ToolArgsInvalidError toolId (sort tainted))))"

definition partText :: "PathPart \<Rightarrow> string" where
  "partText p = (case p of KeyPart k \<Rightarrow> k | IndexPart i \<Rightarrow> decimal i)"

definition zodIssuePaths :: "ParseFault \<Rightarrow> string list" where
  "zodIssuePaths cause =
     (case cause of
        None \<Rightarrow> []
      | Some paths \<Rightarrow>
          sort (remdups (map (\<lambda>path. let t = joinWith (CHR ''.'') (map partText path)
                                     in if t = [] then ''(root)'' else t) paths)))"

definition toArgsInvalid :: "string \<Rightarrow> ParseFault \<Rightarrow> ToolDispatchError" where
  "toArgsInvalid toolId cause = ToolArgsInvalidError toolId (zodIssuePaths cause)"

section \<open>Globs\<close>

text \<open>The loop of \<open>globMatch\<close>; \<open>None\<close> is its \<open>return false\<close>, otherwise it ends with the index into the glob.\<close>

function globLoop :: "string \<Rightarrow> string \<Rightarrow> nat \<Rightarrow> nat \<Rightarrow> nat option \<Rightarrow> nat \<Rightarrow> nat option" where
  "globLoop glob subject g v star mark =
     (if v < length subject then
        (if g < length glob \<and> (glob ! g = CHR ''?'' \<or> (glob ! g \<noteq> CHR ''*'' \<and> glob ! g = subject ! v))
         then globLoop glob subject (g + 1) (v + 1) star mark
         else if g < length glob \<and> glob ! g = CHR ''*'' then globLoop glob subject (g + 1) v (Some (g + 1)) v
         else case star of
                Some s \<Rightarrow> globLoop glob subject s (mark + 1) star (mark + 1)
              | None \<Rightarrow> None)
      else Some g)"
  by pat_completeness auto
termination
  by (relation "measures [\<lambda>(glob, subject, g, v, star, mark). if mark \<le> v then 0 else 1,
      \<lambda>(glob, subject, g, v, star, mark). length subject - mark,
      \<lambda>(glob, subject, g, v, star, mark). length subject - v,
      \<lambda>(glob, subject, g, v, star, mark). length glob - g]") auto

declare globLoop.simps [simp del]

definition globMatch :: "string \<Rightarrow> string \<Rightarrow> bool" where
  "globMatch glob subject =
     (case globLoop glob subject 0 0 None 0 of
        None \<Rightarrow> False
      | Some g \<Rightarrow> dropWhile (\<lambda>c. c = CHR ''*'') (drop g glob) = [])"

section \<open>Policy\<close>

record ToolPolicy =
  tp_allowedCommands :: "string list"
  tp_allowedCommandGlobs :: "string list"
  tp_allowedDomains :: "string list"

definition commandAllowed :: "string \<Rightarrow> ToolPolicy \<Rightarrow> bool" where
  "commandAllowed command policy =
     (command \<in> set (tp_allowedCommands policy) \<or> list_ex (\<lambda>glob. globMatch glob command) (tp_allowedCommandGlobs policy))"

definition enforceHttpEgress :: "string \<Rightarrow> string \<Rightarrow> ToolPolicy \<Rightarrow> ToolDispatchError option" where
  "enforceHttpEgress toolId url policy =
     (case extractHttpsHost url of
        None \<Rightarrow> Some (ToolPolicyError toolId InsecureUrl)
      | Some (host, hasCredentials) \<Rightarrow>
          if hasCredentials then Some (ToolPolicyError toolId InsecureUrl)
          else if host \<notin> set (tp_allowedDomains policy) then Some (ToolPolicyError toolId DomainNotAllowed) else None)"

definition enforcePolicy :: "('a, 's) ToolDef \<Rightarrow> PolicyTarget \<Rightarrow> bool \<Rightarrow> ToolPolicy \<Rightarrow> ToolDispatchError option" where
  "enforcePolicy def target gateApproved policy =
     (if pc_requiresGateApproval (td_policy def) \<and> \<not> gateApproved then Some (ToolPolicyError (td_id def) GateRequired)
      else if pc_spawnsProcess (td_policy def) \<and>
              (case pt_command target of None \<Rightarrow> False | Some command \<Rightarrow> \<not> commandAllowed command policy)
      then Some (ToolPolicyError (td_id def) CommandNotAllowed)
      else case pt_url target of
             None \<Rightarrow> None
           | Some url \<Rightarrow>
               if pc_egress (td_policy def) = Some HttpEgress then enforceHttpEgress (td_id def) url policy else None)"

datatype ToolActionClass = ActFsWrite | ActEgress | ActProcess | ActOs

definition governedAction :: "('a, 's) ToolDef \<Rightarrow> PolicyTarget \<Rightarrow> ToolActionClass option" where
  "governedAction def target =
     (if pc_fsWrite (td_policy def) then Some ActFsWrite
      else if pc_egress (td_policy def) \<noteq> None then Some ActEgress
      else if pc_spawnsProcess (td_policy def) \<and> pt_command target \<noteq> None then Some ActProcess
      else if pc_os (td_policy def) then Some ActOs else None)"

record ToolActionPreview =
  pv_path :: "string option"
  pv_command :: "string option"
  pv_host :: "string option"

definition rawPreviewFor :: "ToolActionClass \<Rightarrow> PolicyTarget \<Rightarrow> ToolActionPreview" where
  "rawPreviewFor action target =
     (let empty = \<lparr>pv_path = None, pv_command = None, pv_host = None\<rparr>
      in case action of
           ActFsWrite \<Rightarrow> empty\<lparr>pv_path := pt_path target\<rparr>
         | ActProcess \<Rightarrow> empty\<lparr>pv_command := pt_command target\<rparr>
         | ActEgress \<Rightarrow>
             (case pt_url target of
                None \<Rightarrow> empty
              | Some url \<Rightarrow> (case extractHttpsHost url of None \<Rightarrow> empty | Some (host, _) \<Rightarrow> empty\<lparr>pv_host := Some host\<rparr>))
         | ActOs \<Rightarrow> empty)"

definition previewFor :: "(string \<Rightarrow> string) \<Rightarrow> ToolActionClass \<Rightarrow> PolicyTarget \<Rightarrow> ToolActionPreview" where
  "previewFor redactText action target =
     (let raw = rawPreviewFor action target
      in \<lparr>pv_path = map_option redactText (pv_path raw), pv_command = map_option redactText (pv_command raw),
          pv_host = map_option redactText (pv_host raw)\<rparr>)"

section \<open>Projections\<close>

text \<open>\<open>readPath\<close> walks own members of objects that are not arrays.\<close>

fun readSegments :: "json \<Rightarrow> string list \<Rightarrow> json option" where
  "readSegments cursor [] = Some cursor"
| "readSegments (JObj members) (segment # rest) =
     (case mget members segment of None \<Rightarrow> None | Some next \<Rightarrow> readSegments next rest)"
| "readSegments _ (segment # rest) = None"

definition readPath :: "json option \<Rightarrow> string \<Rightarrow> json option" where
  "readPath subject path =
     (if path = [] then subject
      else case subject of None \<Rightarrow> None | Some j \<Rightarrow> readSegments j (splitOn (CHR ''.'') path))"

definition applyOutputMapping :: "json option \<Rightarrow> (string, string) jsmap option \<Rightarrow> json option" where
  "applyOutputMapping full mapping =
     (case mapping of
        None \<Rightarrow> full
      | Some entries \<Rightarrow>
          Some (JObj (fold (\<lambda>(stateKey, path) out.
            if stateKey \<in> set UNSAFE_ARG_KEYS then out
            else case readPath full path of None \<Rightarrow> out | Some v \<Rightarrow> mset_key stateKey v out) entries [])))"

fun dropSecretKeysDeep :: "string list \<Rightarrow> json \<Rightarrow> json"
  and dropSecretItems :: "string list \<Rightarrow> json list \<Rightarrow> json list"
  and dropSecretMembers :: "string list \<Rightarrow> object \<Rightarrow> object"
where
  "dropSecretKeysDeep secrets (JArr items) = JArr (dropSecretItems secrets items)"
| "dropSecretKeysDeep secrets (JObj members) = JObj (dropSecretMembers secrets members)"
| "dropSecretKeysDeep secrets v = v"
| "dropSecretItems secrets [] = []"
| "dropSecretItems secrets (x # xs) = dropSecretKeysDeep secrets x # dropSecretItems secrets xs"
| "dropSecretMembers secrets [] = []"
| "dropSecretMembers secrets ((key, v) # members) =
     (if key \<in> set secrets then dropSecretMembers secrets members
      else (key, dropSecretKeysDeep secrets v) # dropSecretMembers secrets members)"

text \<open>
  The recognition of inline media and of secrets by their shape (\<open>bounding.ts\<close>): \<open>redactInlineMedia\<close>,
  \<open>projectSecretShapedValue\<close> with its \<open>settled\<close>, and \<open>redactSecretShapedText\<close>.
\<close>

record Redaction =
  rd_media :: "json \<Rightarrow> json"
  rd_project :: "json \<Rightarrow> json \<times> bool"
  rd_text :: "string \<Rightarrow> string"

definition withoutSecrets :: "string list \<Rightarrow> object \<Rightarrow> string list option \<Rightarrow> object" where
  "withoutSecrets configOnly effective secretArgKeys =
     (let out = filter (\<lambda>(key, _). key \<notin> set configOnly) effective
      in case secretArgKeys of None \<Rightarrow> out | Some secrets \<Rightarrow> dropSecretMembers secrets out)"

text \<open>\<open>projectInput\<close> for the journal: the projected arguments and the names whose projection did not settle.\<close>

definition projectInput :: "Redaction \<Rightarrow> string list \<Rightarrow> object \<Rightarrow> string list option \<Rightarrow> json \<times> string list" where
  "projectInput rd configOnly effective secretArgKeys =
     (let out = withoutSecrets configOnly effective secretArgKeys;
          media = rd_media rd (JObj out);
          (projected, settled) = rd_project rd media;
          unsettled = (case media of
             JObj members \<Rightarrow>
               if settled then []
               else sort (map fst (filter (\<lambda>(key, v). \<not> snd (rd_project rd (JObj [(key, v)]))) members))
           | _ \<Rightarrow> []);
          input = (case projected of JObj members \<Rightarrow> projected | _ \<Rightarrow> JObj out)
      in (input, if \<not> settled \<and> unsettled = [] then sort (mkeys out) else unsettled))"

end
