(* ===== verification/Tool_Registry.thy ===== *)
theory Tool_Registry
  imports Tool_Policy
begin

text \<open>
  The dispatch of a tool call (\<open>dispatch\<close> of \<open>packages/core/src/tools/registry.ts\<close>): the grant, the admission of the
  arguments, the approval, the bracket of the effect journal around the one call that leaves the process, the
  projections of its result, and the ladder that classifies what was thrown.

  The host, the journal and the signal live in a state of the world \<open>'s\<close>. \<open>ds_log\<close> is an auxiliary variable:
  the list of what the dispatch did to the outside, in order, less the writes of the journal that failed. Bounding a result for the model
  (\<open>boundForModel\<close>) and the redaction of secrets (\<open>bounding.ts\<close>) are parameters, and so are the tools.
\<close>

section \<open>The context of a dispatch\<close>

record 's EffectPort =
  ep_prepare :: "int \<Rightarrow> string \<Rightarrow> EffectTier \<Rightarrow> json \<Rightarrow> (nat \<times> string) option \<Rightarrow> 's \<Rightarrow> (Fault + EffectPrepareVerdict) \<times> 's"
  ep_settle :: "int \<Rightarrow> string \<Rightarrow> SettleState \<Rightarrow> json option \<Rightarrow> 's \<Rightarrow> Fault option \<times> 's"
  ep_discard :: "int \<Rightarrow> string \<Rightarrow> 's \<Rightarrow> Fault option \<times> 's"

record ToolApprovalRequest =
  rq_toolId :: string
  rq_action :: ToolActionClass
  rq_preview :: ToolActionPreview
  rq_unredactedPreview :: ToolActionPreview

datatype ToolApprovalDecision = ApproveCall | RejectCall

text \<open>An observer that throws is ignored, so it is only what it does to the world.\<close>

record 's ToolApprovalContext =
  ap_confirm :: "(ToolApprovalRequest \<Rightarrow> 's \<Rightarrow> (Fault + ToolApprovalDecision) \<times> 's) option"
  ap_emitApprovalRequested :: "ToolApprovalRequest \<Rightarrow> 's \<Rightarrow> 's"

record Bounded =
  bd_value :: "json option"
  bd_truncated :: bool
  bd_summary :: string

record 's ToolDispatchContext =
  tx_granted :: "string list"
  tx_parameters :: "object option"
  tx_inputMapping :: "object option"
  tx_outputMapping :: "(string, string) jsmap option"
  tx_toolPolicy :: ToolPolicy
  tx_gateApproved :: bool
  tx_approval :: "'s ToolApprovalContext option"
  tx_secretArgKeys :: "string list option"
  tx_effects :: "'s EffectPort"
  tx_effectSlot :: int
  tx_effectAttempt :: "(nat \<times> string) option"
  tx_beforeDispatch :: "string \<Rightarrow> 's \<Rightarrow> Fault option \<times> 's"
  tx_aborted :: "'s \<Rightarrow> bool"
  tx_bound :: "json option \<Rightarrow> 's \<Rightarrow> (Fault + Bounded) \<times> 's"
  tx_redaction :: Redaction

datatype DispatchAction =
  AskedApproval ToolActionClass bool | PreparedEntry EffectPrepareVerdict | CalledHost | SettledEntry SettleState "json option"
| DiscardedEntry

record 's Dispatching =
  ds_world :: 's
  ds_effectDispatched :: bool
  ds_log :: "DispatchAction list"

definition ran :: "'s \<Rightarrow> DispatchAction list \<Rightarrow> 's Dispatching \<Rightarrow> 's Dispatching" where
  "ran w actions s = s\<lparr>ds_world := w, ds_log := ds_log s @ actions\<rparr>"

text \<open>An \<open>await\<close> that throws ends the stretch of code it is in.\<close>

definition andThen :: "('e + 'a) \<times> 's \<Rightarrow> ('a \<Rightarrow> 's \<Rightarrow> ('e + 'b) \<times> 's) \<Rightarrow> ('e + 'b) \<times> 's" where
  "andThen m f = (case m of (Inl e, s) \<Rightarrow> (Inl e, s) | (Inr x, s) \<Rightarrow> f x s)"

definition throwIfAborted :: "'s ToolDispatchContext \<Rightarrow> string option \<Rightarrow> 's Dispatching \<Rightarrow> (Fault + unit) \<times> 's Dispatching" where
  "throwIfAborted ctx toolId s =
     (if tx_aborted ctx (ds_world s) then (Inl (ToolFault (ToolCancelledError toolId)), s) else (Inr (), s))"

definition isAbort :: "Fault \<Rightarrow> 's ToolDispatchContext \<Rightarrow> 's Dispatching \<Rightarrow> bool" where
  "isAbort cause ctx s = (tx_aborted ctx (ds_world s) \<or> cause = AbortFault)"

section \<open>What a row retains\<close>

record ReplayEnvelope =
  re_value :: "json option"
  re_truncated :: bool
  re_summary :: string
  re_mapped :: "json option"
  re_hadMapping :: bool

text \<open>The members of a stored envelope; the ones that are \<open>undefined\<close> are left out.\<close>

definition toStoredEnvelope :: "ReplayEnvelope \<Rightarrow> json" where
  "toStoredEnvelope e =
     JObj ([(''v'', JNum 1), (''hasValue'', JBool (re_value e \<noteq> None))] @
       (case re_value e of None \<Rightarrow> [] | Some v \<Rightarrow> [(''value'', v)]) @
       [(''truncated'', JBool (re_truncated e)), (''summary'', JStr (re_summary e))] @
       (case re_mapped e of None \<Rightarrow> [] | Some m \<Rightarrow> [(''mapped'', m)]) @
       [(''hadMapping'', JBool (re_hadMapping e))])"

definition memberBool :: "object \<Rightarrow> string \<Rightarrow> bool option" where
  "memberBool members key = (case mget members key of Some (JBool b) \<Rightarrow> Some b | _ \<Rightarrow> None)"

definition memberText :: "object \<Rightarrow> string \<Rightarrow> string option" where
  "memberText members key = (case mget members key of Some (JStr t) \<Rightarrow> Some t | _ \<Rightarrow> None)"

definition bareEnvelope :: "json option \<Rightarrow> ReplayEnvelope" where
  "bareEnvelope v = \<lparr>re_value = v, re_truncated = False, re_summary = [], re_mapped = None, re_hadMapping = False\<rparr>"

definition versionedEnvelope :: "object \<Rightarrow> ReplayEnvelope" where
  "versionedEnvelope members =
     (case (memberBool members ''hasValue'', memberBool members ''truncated'', memberText members ''summary'',
            memberBool members ''hadMapping'') of
        (Some hasValue, Some truncated, Some summary, Some hadMapping) \<Rightarrow>
          if mget members ''v'' = Some (JNum 1)
          then \<lparr>re_value = (if hasValue then mget members ''value'' else None), re_truncated = truncated,
                re_summary = summary, re_mapped = mget members ''mapped'', re_hadMapping = hadMapping\<rparr>
          else bareEnvelope None
      | _ \<Rightarrow> bareEnvelope None)"

definition legacyEnvelope :: "object \<Rightarrow> ReplayEnvelope" where
  "legacyEnvelope members =
     (case (mget members ''value'', memberBool members ''truncated'', memberText members ''summary'') of
        (Some v, Some truncated, Some summary) \<Rightarrow>
          \<lparr>re_value = Some v, re_truncated = truncated, re_summary = summary, re_mapped = mget members ''mapped'',
           re_hadMapping = (case memberBool members ''hadMapping'' of
              Some b \<Rightarrow> b | None \<Rightarrow> mget members ''mapped'' \<noteq> None)\<rparr>
      | _ \<Rightarrow> bareEnvelope (Some (JObj members)))"

definition asReplayEnvelope :: "json \<Rightarrow> ReplayEnvelope" where
  "asReplayEnvelope stored =
     (case stored of
        JObj members \<Rightarrow> if mget members ''v'' \<noteq> None then versionedEnvelope members else legacyEnvelope members
      | _ \<Rightarrow> bareEnvelope (Some stored))"

section \<open>Admission\<close>

definition resolveGrantedTool ::
  "(string, ('a, 's) ToolDef) jsmap \<Rightarrow> ToolCall \<Rightarrow> 's ToolDispatchContext \<Rightarrow> ToolDispatchError + ('a, 's) ToolDef"
where
  "resolveGrantedTool tools toolCall ctx =
     (if tc_providerExecuted toolCall then Inl (ToolPolicyError (tc_name toolCall) ProviderExecuted)
      else case mget tools (tc_name toolCall) of
             None \<Rightarrow> Inl (UnknownToolError (tc_name toolCall))
           | Some def \<Rightarrow>
               if td_id def \<notin> set (tx_granted ctx) then Inl (ToolPolicyError (td_id def) NotGranted) else Inr def)"

definition targetOf :: "('a, 's) ToolDef \<Rightarrow> 'a \<Rightarrow> PolicyTarget" where
  "targetOf def args = (case td_policyTarget def of None \<Rightarrow> noTarget | Some f \<Rightarrow> f args)"

definition effectiveArgs :: "('a, 's) ToolDef \<Rightarrow> ToolCall \<Rightarrow> 's ToolDispatchContext \<Rightarrow> object" where
  "effectiveArgs def toolCall ctx =
     assembleArgs (td_configOnlyParams def) (tc_args toolCall) (tx_inputMapping ctx) (tx_parameters ctx)"

definition admitArgs ::
  "('a, 's) ToolDef \<Rightarrow> ToolCall \<Rightarrow> 's ToolDispatchContext \<Rightarrow> ToolDispatchError + object \<times> 'a \<times> PolicyTarget"
where
  "admitArgs def toolCall ctx =
     (let effective = effectiveArgs def toolCall ctx
      in case assertNoTaintedArgs (td_id def) effective (tx_secretArgKeys ctx) of
           Some e \<Rightarrow> Inl e
         | None \<Rightarrow>
             (case td_parseArgs def effective of
                Inl cause \<Rightarrow> Inl (toArgsInvalid (td_id def) cause)
              | Inr args \<Rightarrow>
                  (case enforcePolicy def (targetOf def args) (tx_gateApproved ctx) (tx_toolPolicy ctx) of
                     Some e \<Rightarrow> Inl e
                   | None \<Rightarrow> Inr (effective, args, targetOf def args))))"

section \<open>Approval\<close>

definition confirmDispatch ::
  "('a, 's) ToolDef \<Rightarrow> PolicyTarget \<Rightarrow> 's ToolDispatchContext \<Rightarrow> 's Dispatching \<Rightarrow> (Fault + unit) \<times> 's Dispatching"
where
  "confirmDispatch def target ctx s =
     (case tx_approval ctx of
        None \<Rightarrow> (Inr (), s)
      | Some approval \<Rightarrow>
          (case governedAction def target of
             None \<Rightarrow> (Inr (), s)
           | Some action \<Rightarrow>
               (case ap_confirm approval of
                  None \<Rightarrow> (Inl (ToolFault (ToolDeniedByUserError (td_id def) NoApprovalHook)), s)
                | Some confirm \<Rightarrow>
                    andThen (throwIfAborted ctx (Some (td_id def)) s) (\<lambda>_ s.
                      let request = \<lparr>rq_toolId = td_id def, rq_action = action,
                            rq_preview = previewFor (rd_text (tx_redaction ctx)) action target,
                            rq_unredactedPreview = rawPreviewFor action target\<rparr>;
                          w = ap_emitApprovalRequested approval request (ds_world s)
                      in case confirm request w of
                           (Inl cause, w') \<Rightarrow>
                             (let s' = ran w' [AskedApproval action False] s
                              in if isAbort cause ctx s' then (Inl cause, s')
                                 else (Inl (ToolFault (ToolDeniedByUserError (td_id def) ApprovalError)), s'))
                         | (Inr RejectCall, w') \<Rightarrow>
                             (Inl (ToolFault (ToolDeniedByUserError (td_id def) UserRejected)),
                              ran w' [AskedApproval action False] s)
                         | (Inr ApproveCall, w') \<Rightarrow>
                             throwIfAborted ctx (Some (td_id def)) (ran w' [AskedApproval action True] s)))))"

section \<open>The journal around the call\<close>

definition prepareEffect ::
  "('a, 's) ToolDef \<Rightarrow> EffectTier \<Rightarrow> object \<Rightarrow> 's ToolDispatchContext \<Rightarrow> 's Dispatching \<Rightarrow>
     (Fault + EffectPrepareVerdict) \<times> 's Dispatching"
where
  "prepareEffect def tier effective ctx s =
     (case projectInput (tx_redaction ctx) (td_configOnlyParams def) effective (tx_secretArgKeys ctx) of
        (journal, unsettled) \<Rightarrow>
          if unsettled \<noteq> [] then
            (Inl (ToolFault (ToolArgsInvalidError (td_id def) (remdups (map (rd_text (tx_redaction ctx)) unsettled)))), s)
          else
            (case ep_prepare (tx_effects ctx) (tx_effectSlot ctx) (td_id def) tier journal (tx_effectAttempt ctx) (ds_world s) of
               (Inl cause, w) \<Rightarrow>
                 (Inl (if cause = ConflictFault then ToolFault (ToolEffectConflictError (td_id def)) else cause), ran w [] s)
             | (Inr verdict, w) \<Rightarrow> (Inr verdict, ran w [PreparedEntry verdict] s)))"

definition discardQuietly :: "'s ToolDispatchContext \<Rightarrow> string \<Rightarrow> 's Dispatching \<Rightarrow> 's Dispatching" where
  "discardQuietly ctx toolId s =
     (case ep_discard (tx_effects ctx) (tx_effectSlot ctx) toolId (ds_world s) of
        (failed, w) \<Rightarrow> ran w (if failed = None then [DiscardedEntry] else []) s)"

definition settleQuietly :: "'s ToolDispatchContext \<Rightarrow> string \<Rightarrow> SettleState \<Rightarrow> 's Dispatching \<Rightarrow> 's Dispatching" where
  "settleQuietly ctx toolId state s =
     (case ep_settle (tx_effects ctx) (tx_effectSlot ctx) toolId state None (ds_world s) of
        (failed, w) \<Rightarrow> ran w (if failed = None then [SettledEntry state None] else []) s)"

definition neverLeftTheProcess :: "Fault \<Rightarrow> bool" where
  "neverLeftTheProcess cause = (case cause of ToolFault e \<Rightarrow> te_code e = CapabilityUnavailable | _ \<Rightarrow> False)"

definition journalDispatchFailure ::
  "'s ToolDispatchContext \<Rightarrow> string \<Rightarrow> EffectTier option \<Rightarrow> Fault \<Rightarrow> 's Dispatching \<Rightarrow> 's Dispatching"
where
  "journalDispatchFailure ctx toolId tier cause s =
     (if tier = None then s
      else if neverLeftTheProcess cause then discardQuietly ctx toolId s
      else settleQuietly ctx toolId SettleAmbiguous s)"

text \<open>Step 4c: the claim, and the flag that everything after it may follow an effect.\<close>

definition claimEffect ::
  "('a, 's) ToolDef \<Rightarrow> EffectTier option \<Rightarrow> object \<Rightarrow> 's ToolDispatchContext \<Rightarrow> 's Dispatching \<Rightarrow>
     (Fault + ReplayEnvelope option) \<times> 's Dispatching"
where
  "claimEffect def tier effective ctx s =
     (case tier of
        None \<Rightarrow> (Inr None, s)
      | Some t \<Rightarrow>
          andThen (prepareEffect def t effective ctx s) (\<lambda>verdict s.
            (Inr (case verdict of Proceed \<Rightarrow> None | Replay result \<Rightarrow> Some (asReplayEnvelope result)),
             s\<lparr>ds_effectDispatched := True\<rparr>)))"

text \<open>Step 4d: the last admission of the host; a refusal releases the claim.\<close>

definition admitDispatch ::
  "('a, 's) ToolDef \<Rightarrow> EffectTier option \<Rightarrow> 's ToolDispatchContext \<Rightarrow> 's Dispatching \<Rightarrow> (Fault + unit) \<times> 's Dispatching"
where
  "admitDispatch def tier ctx s =
     (case tx_beforeDispatch ctx (td_id def) (ds_world s) of
        (None, w) \<Rightarrow> (Inr (), ran w [] s)
      | (Some cause, w) \<Rightarrow>
          (Inl cause, if tier = None then ran w [] s else discardQuietly ctx (td_id def) (ran w [] s)))"

text \<open>Step 5: the one call that leaves the process.\<close>

definition callTool ::
  "('a, 's) ToolDef \<Rightarrow> EffectTier option \<Rightarrow> 'a \<Rightarrow> 's ToolDispatchContext \<Rightarrow> 's Dispatching \<Rightarrow>
     (Fault + json option \<times> string list) \<times> 's Dispatching"
where
  "callTool def tier args ctx s =
     (case td_dispatch def args (ds_world s) of
        (Inl cause, w) \<Rightarrow> (Inl cause, journalDispatchFailure ctx (td_id def) tier cause (ran w [CalledHost] s))
      | (Inr (v, media), w) \<Rightarrow>
          if tier \<noteq> None \<and> media \<noteq> [] then
            (let cause = ToolFault (ToolExecutionError (td_id def) (Some False) (Some False))
             in (Inl cause, journalDispatchFailure ctx (td_id def) tier cause (ran w [CalledHost] s)))
          else (Inr (v, media), ran w [CalledHost] s))"

definition settleCommitted ::
  "'s ToolDispatchContext \<Rightarrow> string \<Rightarrow> Bounded \<Rightarrow> json option \<Rightarrow> 's Dispatching \<Rightarrow> (Fault + unit) \<times> 's Dispatching"
where
  "settleCommitted ctx toolId bounded outputMapped s =
     (let hadMapping = (tx_outputMapping ctx \<noteq> None);
          envelope = \<lparr>re_value = bd_value bounded, re_truncated = bd_truncated bounded, re_summary = bd_summary bounded,
                      re_mapped = (if hadMapping then outputMapped else None), re_hadMapping = hadMapping\<rparr>
      in case ep_settle (tx_effects ctx) (tx_effectSlot ctx) toolId SettleCommitted (Some (toStoredEnvelope envelope)) (ds_world s) of
           (None, w) \<Rightarrow> (Inr (), ran w [SettledEntry SettleCommitted (Some (toStoredEnvelope envelope))] s)
         | (Some cause, w) \<Rightarrow> (Inl (ToolFault (ToolEffectNeedsAttentionError toolId)), ran w [] s))"

section \<open>The dispatch\<close>

record ToolDispatchOutcome =
  to_output :: "json option"
  to_result :: "json option"
  to_media :: "string list"
  to_truncated :: bool
  to_toolId :: string
  to_summary :: string

definition outcomeOf :: "string \<Rightarrow> json option \<Rightarrow> Bounded \<Rightarrow> string list \<Rightarrow> ToolDispatchOutcome" where
  "outcomeOf toolId outputMapped bounded media =
     \<lparr>to_output = outputMapped, to_result = bd_value bounded, to_media = media, to_truncated = bd_truncated bounded,
      to_toolId = toolId, to_summary = bd_summary bounded\<rparr>"

text \<open>A first dispatch: steps 4d to 8.\<close>

definition firstDispatch ::
  "('a, 's) ToolDef \<Rightarrow> EffectTier option \<Rightarrow> 'a \<Rightarrow> 's ToolDispatchContext \<Rightarrow> 's Dispatching \<Rightarrow>
     (Fault + ToolDispatchOutcome) \<times> 's Dispatching"
where
  "firstDispatch def tier args ctx s =
     andThen (admitDispatch def tier ctx s) (\<lambda>_ s.
     andThen (callTool def tier args ctx s) (\<lambda>(output, media) s.
     andThen (throwIfAborted ctx (Some (td_id def)) s) (\<lambda>_ s.
       let outputMapped = applyOutputMapping output (tx_outputMapping ctx)
       in case tx_bound ctx output (ds_world s) of
            (Inl cause, w) \<Rightarrow> (Inl cause, ran w [] s)
          | (Inr bounded, w) \<Rightarrow>
              andThen (if tier = None then (Inr (), ran w [] s)
                       else settleCommitted ctx (td_id def) bounded outputMapped (ran w [] s)) (\<lambda>_ s.
              andThen (throwIfAborted ctx (Some (td_id def)) s) (\<lambda>_ s.
                (Inr (outcomeOf (td_id def) outputMapped bounded media), s))))))"

text \<open>A replay restores what the row retained.\<close>

definition replayDispatch ::
  "('a, 's) ToolDef \<Rightarrow> ReplayEnvelope \<Rightarrow> 's ToolDispatchContext \<Rightarrow> 's Dispatching \<Rightarrow>
     (Fault + ToolDispatchOutcome) \<times> 's Dispatching"
where
  "replayDispatch def replayed ctx s =
     andThen (throwIfAborted ctx (Some (td_id def)) s) (\<lambda>_ s.
       if re_hadMapping replayed \<noteq> (tx_outputMapping ctx \<noteq> None)
       then (Inl (ToolFault (ToolEffectConflictError (td_id def))), s)
       else
         andThen (throwIfAborted ctx (Some (td_id def)) s) (\<lambda>_ s.
           (Inr (outcomeOf (td_id def)
              (case re_mapped replayed of Some m \<Rightarrow> Some m | None \<Rightarrow> re_value replayed)
              \<lparr>bd_value = re_value replayed, bd_truncated = re_truncated replayed, bd_summary = re_summary replayed\<rparr>
              []), s)))"

definition guardedDispatch ::
  "('a, 's) ToolDef \<Rightarrow> EffectTier option \<Rightarrow> object \<Rightarrow> 'a \<Rightarrow> PolicyTarget \<Rightarrow> 's ToolDispatchContext \<Rightarrow> 's Dispatching \<Rightarrow>
     (Fault + ToolDispatchOutcome) \<times> 's Dispatching"
where
  "guardedDispatch def tier effective args target ctx s =
     andThen (throwIfAborted ctx (Some (td_id def)) s) (\<lambda>_ s.
     andThen (confirmDispatch def target ctx s) (\<lambda>_ s.
     andThen (claimEffect def tier effective ctx s) (\<lambda>replayed s.
       case replayed of
         None \<Rightarrow> firstDispatch def tier args ctx s
       | Some envelope \<Rightarrow> replayDispatch def envelope ctx s)))"

text \<open>The classification of what the guarded part threw.\<close>

definition classifyFault ::
  "('a, 's) ToolDef \<Rightarrow> PolicyTarget \<Rightarrow> 's ToolDispatchContext \<Rightarrow> Fault \<Rightarrow> 's Dispatching \<Rightarrow> ToolDispatchError"
where
  "classifyFault def target ctx cause s =
     (let execution = ToolExecutionError (td_id def) (Some (governedAction def target = None))
            (if ds_effectDispatched s then Some False else None)
      in case cause of
           ToolFault e \<Rightarrow>
             if te_code e \<noteq> DispatchCancelled \<and> isAbort cause ctx s then ToolCancelledError (Some (td_id def)) else e
         | _ \<Rightarrow> if isAbort cause ctx s then ToolCancelledError (Some (td_id def)) else execution)"

definition dispatchTool ::
  "(string, ('a, 's) ToolDef) jsmap \<Rightarrow> ToolCall \<Rightarrow> 's ToolDispatchContext \<Rightarrow> 's Dispatching \<Rightarrow>
     (ToolDispatchError + ToolDispatchOutcome) \<times> 's Dispatching"
where
  "dispatchTool tools toolCall ctx s =
     (if tx_aborted ctx (ds_world s) then (Inl (ToolCancelledError None), s)
      else case resolveGrantedTool tools toolCall ctx of
             Inl e \<Rightarrow> (Inl e, s)
           | Inr def \<Rightarrow>
               (case admitArgs def toolCall ctx of
                  Inl e \<Rightarrow> (Inl e, s)
                | Inr (effective, args, target) \<Rightarrow>
                    (case guardedDispatch def (journaledTier def args) effective args target ctx s of
                       (Inr outcome, s') \<Rightarrow> (Inr outcome, s')
                     | (Inl cause, s') \<Rightarrow> (Inl (classifyFault def target ctx cause s'), s'))))"

text \<open>A dispatch starts with its local flag down and an empty log.\<close>

definition dispatch ::
  "(string, ('a, 's) ToolDef) jsmap \<Rightarrow> ToolCall \<Rightarrow> 's ToolDispatchContext \<Rightarrow> 's \<Rightarrow>
     (ToolDispatchError + ToolDispatchOutcome) \<times> 's Dispatching"
where
  "dispatch tools toolCall ctx w =
     dispatchTool tools toolCall ctx \<lparr>ds_world = w, ds_effectDispatched = False, ds_log = []\<rparr>"

definition createToolRegistry :: "('a, 's) ToolDef list \<Rightarrow> (string, ('a, 's) ToolDef) jsmap option" where
  "createToolRegistry tools =
     (if distinct (map td_id tools) then Some (map (\<lambda>def. (td_id def, def)) tools) else None)"

section \<open>The port of the reference journal\<close>

text \<open>
  \<open>for\<close> of \<open>createInMemoryEffectJournalStore\<close> (\<open>engine/execution-host.ts\<close>): the journal of one correlation over the
  shared rows, which are the second part of the world.
\<close>

definition journalPort :: "EffectCorrelation \<Rightarrow> ('h \<times> json EffectRows) EffectPort" where
  "journalPort correlation =
     \<lparr>ep_prepare = (\<lambda>slot toolId tier redactedArgs attempt (h, rows).
        case prepareRef correlation slot toolId tier redactedArgs attempt rows of
          (Inl _, rows') \<Rightarrow> (Inl ConflictFault, h, rows') | (Inr verdict, rows') \<Rightarrow> (Inr verdict, h, rows')),
      ep_settle = (\<lambda>slot toolId state result (h, rows).
        case settleRef correlation slot toolId state result rows of
          (f, rows') \<Rightarrow> (map_option (\<lambda>_. OtherFault) f, h, rows')),
      ep_discard = (\<lambda>slot toolId (h, rows). (None, h, discardRef correlation slot toolId rows))\<rparr>"

end
