(* ===== verification/Tool_Laws.thy ===== *)
theory Tool_Laws
  imports Tool_Registry
begin

text \<open>
  What the tool registry guarantees: a glob matches exactly the texts it denotes; the host is called only for a call
  that is granted, permitted and approved, and after its claim in the journal; no failure behind a claim asks for a
  retry; and a call repeated after a crash is answered with what the first one delivered.
\<close>

section \<open>Globs\<close>

text \<open>What a glob denotes: a star is any text, a question mark any character.\<close>

fun globSpec :: "string \<Rightarrow> string \<Rightarrow> bool" where
  "globSpec [] s = (s = [])"
| "globSpec (c # g) [] = (c = CHR ''*'' \<and> globSpec g [])"
| "globSpec (c # g) (x # s) =
     (if c = CHR ''*'' then globSpec g (x # s) \<or> globSpec (c # g) s
      else (c = CHR ''?'' \<or> c = x) \<and> globSpec g s)"

abbreviation literalMatch :: "char \<Rightarrow> char \<Rightarrow> bool" where
  "literalMatch c x \<equiv> c = CHR ''?'' \<or> c = x"

lemma globSpec_literal:
  "CHR ''*'' \<notin> set p \<Longrightarrow>
   globSpec (p @ q) s \<longleftrightarrow> length p \<le> length s \<and> list_all2 literalMatch p (take (length p) s) \<and> globSpec q (drop (length p) s)"
proof (induction p arbitrary: s)
  case (Cons c p)
  then show ?case by (cases s) auto
qed simp

lemma globSpec_star: "globSpec (CHR ''*'' # g) s \<longleftrightarrow> (\<exists>k \<le> length s. globSpec g (drop k s))"
proof (induction s)
  case (Cons x s)
  have "(\<exists>k \<le> length (x # s). globSpec g (drop k (x # s))) \<longleftrightarrow> globSpec g (x # s) \<or> (\<exists>k \<le> length s. globSpec g (drop k s))"
    by (metis Suc_le_mono drop0 drop_Suc_Cons le0 length_Cons not0_implies_Suc)
  then show ?case using Cons by simp
qed simp

lemma globSpec_end: "globSpec g [] \<longleftrightarrow> dropWhile (\<lambda>c. c = CHR ''*'') g = []"
  by (induction g) auto

text \<open>What the loop has established: it matched the text since its last star from the mark on.\<close>

definition globInv :: "string \<Rightarrow> string \<Rightarrow> nat \<Rightarrow> nat \<Rightarrow> nat option \<Rightarrow> nat \<Rightarrow> bool" where
  "globInv glob s g v star mark =
     (g \<le> length glob \<and> v \<le> length s \<and>
      (case star of
         None \<Rightarrow> True
       | Some t \<Rightarrow> t \<le> g \<and> mark \<le> v \<and> v - mark = g - t \<and>
           (\<exists>p. drop t glob = p @ drop g glob \<and> length p = g - t \<and> CHR ''*'' \<notin> set p \<and>
                list_all2 literalMatch p (take (length p) (drop mark s)))))"

definition globGoal :: "string \<Rightarrow> string \<Rightarrow> nat \<Rightarrow> nat \<Rightarrow> nat option \<Rightarrow> nat \<Rightarrow> bool" where
  "globGoal glob s g v star mark =
     (case star of
        None \<Rightarrow> globSpec (drop g glob) (drop v s)
      | Some t \<Rightarrow> \<exists>k. mark \<le> k \<and> k \<le> length s \<and> globSpec (drop t glob) (drop k s))"

lemma globInv_mark:
  assumes "globInv glob s g v (Some t) mark"
  shows "globSpec (drop t glob) (drop mark s) \<longleftrightarrow> globSpec (drop g glob) (drop v s)"
proof -
  obtain p where p: "drop t glob = p @ drop g glob" "length p = g - t" "CHR ''*'' \<notin> set p"
    "list_all2 literalMatch p (take (length p) (drop mark s))" "v - mark = g - t" "mark \<le> v" "v \<le> length s"
    using assms by (auto simp: globInv_def)
  then have "length p + mark = v" by linarith
  then have "drop (length p) (drop mark s) = drop v s" "length p \<le> length (drop mark s)" using p(7) by auto
  with p(4) show ?thesis by (simp add: p(1) globSpec_literal [OF p(3)])
qed

lemma globInv_later:
  assumes "globInv glob s g v (Some t) mark" "mark \<le> k" "globSpec (drop t glob) (drop k s)" "k \<le> length s"
  shows "\<exists>k'. v \<le> k' \<and> k' \<le> length s \<and> k' - k = v - mark \<and> globSpec (drop g glob) (drop k' s)"
proof -
  obtain p where p: "drop t glob = p @ drop g glob" "length p = v - mark" "CHR ''*'' \<notin> set p" "mark \<le> v"
    using assms(1) by (auto simp: globInv_def)
  from assms(3) have "length p \<le> length s - k" "globSpec (drop g glob) (drop (k + length p) s)"
    by (auto simp: p(1) globSpec_literal [OF p(3)] add.commute)
  then show ?thesis using p(2,4) assms(2,4) by (intro exI [of _ "k + length p"]) auto
qed

lemma glob_literal_step:
  assumes "globInv glob s g v star mark" "v < length s" "g < length glob" "glob ! g \<noteq> CHR ''*''" "literalMatch (glob ! g) (s ! v)"
  shows "globInv glob s (g + 1) (v + 1) star mark \<and> globGoal glob s (g + 1) (v + 1) star mark = globGoal glob s g v star mark"
proof (cases star)
  case None
  have "drop g glob = glob ! g # drop (g + 1) glob" "drop v s = s ! v # drop (v + 1) s"
    using assms by (simp_all add: Cons_nth_drop_Suc)
  then show ?thesis using assms None by (auto simp: globInv_def globGoal_def)
next
  case (Some t)
  then obtain p where p: "drop t glob = p @ drop g glob" "length p = g - t" "CHR ''*'' \<notin> set p"
    "list_all2 literalMatch p (take (length p) (drop mark s))" "v - mark = g - t" "mark \<le> v" "t \<le> g"
    using assms(1) by (auto simp: globInv_def)
  have d: "drop g glob = glob ! g # drop (Suc g) glob" using assms(3) by (simp add: Cons_nth_drop_Suc)
  have "take (Suc (length p)) (drop mark s) = take (length p) (drop mark s) @ [s ! v]"
  proof -
    have "mark + length p = v" using p(2,5,6,7) by linarith
    then show ?thesis using assms(2) by (subst take_Suc_conv_app_nth) auto
  qed
  then have "list_all2 literalMatch (p @ [glob ! g]) (take (Suc (length p)) (drop mark s))"
    using p(4) assms(5) by (simp add: list_all2_appendI)
  then have "globInv glob s (g + 1) (v + 1) star mark"
    using p assms Some d unfolding globInv_def by (auto intro!: exI [of _ "p @ [glob ! g]"])
  then show ?thesis by (simp add: globGoal_def Some)
qed

lemma glob_star_step:
  assumes "globInv glob s g v star mark" "g < length glob" "glob ! g = CHR ''*''"
  shows "globInv glob s (g + 1) v (Some (g + 1)) v \<and>
    globGoal glob s (g + 1) v (Some (g + 1)) v = globGoal glob s g v star mark"
proof -
  let ?r = "drop (g + 1) glob"
  have d: "drop g glob = CHR ''*'' # ?r" using assms(2,3) Cons_nth_drop_Suc [of g glob] by simp
  have v: "v \<le> length s" using assms(1) by (simp add: globInv_def)
  have shift: "globSpec (drop g glob) (drop k s) \<longleftrightarrow> (\<exists>k'. k \<le> k' \<and> k' \<le> length s \<and> globSpec ?r (drop k' s))"
    if "k \<le> length s" for k
  proof
    assume "globSpec (drop g glob) (drop k s)"
    then obtain i where "i \<le> length s - k" "globSpec ?r (drop (k + i) s)"
      unfolding d globSpec_star by (auto simp: add.commute)
    then show "\<exists>k'. k \<le> k' \<and> k' \<le> length s \<and> globSpec ?r (drop k' s)" using that by (intro exI [of _ "k + i"]) auto
  next
    assume "\<exists>k'. k \<le> k' \<and> k' \<le> length s \<and> globSpec ?r (drop k' s)"
    then obtain k' where "k \<le> k'" "k' \<le> length s" "globSpec ?r (drop k' s)" by blast
    then show "globSpec (drop g glob) (drop k s)"
      unfolding d globSpec_star by (auto intro!: exI [of _ "k' - k"])
  qed
  have "globGoal glob s (g + 1) v (Some (g + 1)) v = globGoal glob s g v star mark"
  proof (cases star)
    case None
    then show ?thesis using shift [OF v] by (simp add: globGoal_def)
  next
    case (Some t)
    have m: "mark \<le> v" using assms(1) Some by (simp add: globInv_def)
    have "(\<exists>k. mark \<le> k \<and> k \<le> length s \<and> globSpec (drop t glob) (drop k s)) \<longleftrightarrow> globSpec (drop g glob) (drop v s)"
    proof
      assume "\<exists>k. mark \<le> k \<and> k \<le> length s \<and> globSpec (drop t glob) (drop k s)"
      then obtain k where "mark \<le> k" "k \<le> length s" "globSpec (drop t glob) (drop k s)" by blast
      then obtain k' where "v \<le> k'" "k' \<le> length s" "globSpec (drop g glob) (drop k' s)"
        using globInv_later assms(1) Some by blast
      then show "globSpec (drop g glob) (drop v s)" using shift v by (meson order_trans)
    next
      assume "globSpec (drop g glob) (drop v s)"
      then have "globSpec (drop t glob) (drop mark s)" using globInv_mark assms(1) Some by blast
      then show "\<exists>k. mark \<le> k \<and> k \<le> length s \<and> globSpec (drop t glob) (drop k s)" using m v by auto
    qed
    then show ?thesis using shift [OF v] Some by (simp add: globGoal_def)
  qed
  then show ?thesis using assms v by (simp add: globInv_def)
qed

lemma glob_back_step:
  assumes "globInv glob s g v (Some t) mark" "v < length s"
    and "g < length glob \<Longrightarrow> glob ! g \<noteq> CHR ''*'' \<and> \<not> literalMatch (glob ! g) (s ! v)"
  shows "globInv glob s t (mark + 1) (Some t) (mark + 1) \<and>
    globGoal glob s t (mark + 1) (Some t) (mark + 1) = globGoal glob s g v (Some t) mark"
proof -
  have "\<not> globSpec (drop g glob) (drop v s)"
  proof (cases "g < length glob")
    case True
    then have "drop g glob = glob ! g # drop (g + 1) glob" "drop v s = s ! v # drop (v + 1) s"
      using assms by (simp_all add: Cons_nth_drop_Suc)
    then show ?thesis using assms(3) True by simp
  qed (use assms(2) in auto)
  then have "\<not> globSpec (drop t glob) (drop mark s)" using globInv_mark [OF assms(1)] by blast
  then have "(\<exists>k. mark + 1 \<le> k \<and> k \<le> length s \<and> globSpec (drop t glob) (drop k s)) \<longleftrightarrow>
      (\<exists>k. mark \<le> k \<and> k \<le> length s \<and> globSpec (drop t glob) (drop k s))"
    by (metis Suc_eq_plus1 le_antisym not_less_eq_eq Suc_leD)
  then show ?thesis using assms(1,2) by (auto simp: globInv_def globGoal_def)
qed

lemma glob_end:
  assumes "globInv glob s g v star mark" "v = length s"
  shows "globSpec (drop g glob) [] = globGoal glob s g v star mark"
proof (cases star)
  case (Some t)
  have "globSpec (drop g glob) []" if "mark \<le> k" "k \<le> length s" "globSpec (drop t glob) (drop k s)" for k
    using globInv_later [of glob s g v t mark k] assms that Some by auto
  moreover have "globSpec (drop t glob) (drop mark s) = globSpec (drop g glob) []" "mark \<le> length s"
    using globInv_mark [of glob s g v t mark] assms Some by (auto simp: globInv_def)
  ultimately show ?thesis by (auto simp: globGoal_def Some)
qed (use assms in \<open>simp add: globGoal_def\<close>)

lemma globLoop_goal:
  "globInv glob s g v star mark \<Longrightarrow>
   (case globLoop glob s g v star mark of None \<Rightarrow> False | Some g' \<Rightarrow> globSpec (drop g' glob) []) =
   globGoal glob s g v star mark"
proof (induction glob s g v star mark rule: globLoop.induct)
  case (1 glob s g v star mark)
  note unfold = globLoop.simps [of glob s g v star mark]
  show ?case
  proof (cases "v < length s")
    case False
    then have "v = length s" using "1.prems" by (simp add: globInv_def)
    then show ?thesis using glob_end [OF "1.prems"] by (subst unfold) simp
  next
    case v: True
    consider (lit) "g < length glob" "glob ! g = CHR ''?'' \<or> (glob ! g \<noteq> CHR ''*'' \<and> glob ! g = s ! v)"
      | (st) "g < length glob" "glob ! g = CHR ''*''"
      | (apart) "g < length glob \<Longrightarrow> glob ! g \<noteq> CHR ''*'' \<and> \<not> literalMatch (glob ! g) (s ! v)"
      by auto
    then show ?thesis
    proof cases
      case lit
      then have "globInv glob s (g + 1) (v + 1) star mark \<and>
          globGoal glob s (g + 1) (v + 1) star mark = globGoal glob s g v star mark"
        using glob_literal_step "1.prems" v by auto
      then show ?thesis using "1.IH"(1) v lit by (subst unfold) simp
    next
      case st
      then show ?thesis using "1.IH"(2) v glob_star_step [OF "1.prems" st] by (subst unfold) simp
    next
      case apart
      show ?thesis
      proof (cases star)
        case None
        have "\<not> globSpec (drop g glob) (drop v s)"
          using apart v by (cases "g < length glob") (auto simp: Cons_nth_drop_Suc [symmetric])
        then show ?thesis using v apart None by (subst unfold) (auto simp: globGoal_def)
      next
        case (Some t)
        then show ?thesis using "1.IH"(3) v apart glob_back_step [of glob s g v t mark] "1.prems"
          by (subst unfold) auto
      qed
    qed
  qed
qed

lemma globMatch_spec: "globMatch glob s = globSpec glob s"
  using globLoop_goal [of glob s 0 0 None 0]
  by (simp add: globMatch_def globInv_def globGoal_def globSpec_end split: option.splits)

section \<open>What a dispatch does to the outside\<close>

text \<open>The part of the log a step adds, and whether it moved the flag.\<close>

definition adds :: "'s Dispatching \<Rightarrow> DispatchAction list \<Rightarrow> 's Dispatching \<Rightarrow> bool" where
  "adds s actions s' = (ds_log s' = ds_log s @ actions \<and> ds_effectDispatched s' = ds_effectDispatched s)"

lemma adds_simps [simp]:
  "adds s acts (ran w new s) = (acts = new)"
  "adds s [] s"
  by (auto simp: adds_def ran_def)

lemma adds_trans: "adds s a t \<Longrightarrow> adds t b u \<Longrightarrow> adds s (a @ b) u"
  by (simp add: adds_def)

lemma adds_ran: "adds s a t \<Longrightarrow> adds s (a @ b) (ran w b t)"
  by (simp add: adds_def ran_def)

lemma andThen_cases:
  assumes "andThen m f = (r, s')"
  obtains e where "m = (Inl e, s')" "r = Inl e" | x t where "m = (Inr x, t)" "f x t = (r, s')"
  using assms by (auto simp: andThen_def split: prod.splits sum.splits)

lemma throwIfAborted_state: "throwIfAborted ctx toolId s = (r, s') \<Longrightarrow> s' = s"
  by (auto simp: throwIfAborted_def split: if_splits)

text \<open>The approval a call needs.\<close>

definition approvals :: "('a, 's) ToolDef \<Rightarrow> PolicyTarget \<Rightarrow> 's ToolDispatchContext \<Rightarrow> DispatchAction list" where
  "approvals def target ctx =
     (if tx_approval ctx = None then []
      else case governedAction def target of None \<Rightarrow> [] | Some action \<Rightarrow> [AskedApproval action True])"

definition isAsked :: "DispatchAction \<Rightarrow> bool" where
  "isAsked a = (case a of AskedApproval _ _ \<Rightarrow> True | _ \<Rightarrow> False)"

lemma confirm_adds:
  assumes "confirmDispatch def target ctx s = (r, s')"
  shows "\<exists>acts. adds s acts s' \<and> list_all isAsked acts \<and> (r = Inr () \<longrightarrow> acts = approvals def target ctx)"
proof (cases "tx_approval ctx")
  case None
  then show ?thesis using assms by (auto simp: confirmDispatch_def approvals_def)
next
  case a: (Some approval)
  show ?thesis
  proof (cases "governedAction def target")
    case None
    then show ?thesis using assms a by (auto simp: confirmDispatch_def approvals_def)
  next
    case (Some action)
    show ?thesis
    proof (cases "ap_confirm approval")
      case None
      then show ?thesis using assms a Some by (intro exI [of _ "[]"]) (auto simp: confirmDispatch_def)
    next
      case c: (Some confirm)
      have ap: "approvals def target ctx = [AskedApproval action True]" by (simp add: approvals_def a Some)
      from assms show ?thesis
        unfolding confirmDispatch_def a Some c option.case
      proof (cases rule: andThen_cases)
        case (1 e)
        then have "s' = s" using throwIfAborted_state by blast
        then show ?thesis using 1 by (intro exI [of _ "[]"]) simp
      next
        case (2 x t)
        then have t: "t = s" using throwIfAborted_state by blast
        from 2(2) show ?thesis
          by (auto simp: t ap Let_def isAsked_def throwIfAborted_def split: prod.splits sum.splits
              ToolApprovalDecision.splits if_splits)
      qed
    qed
  qed
qed

lemma claim_adds:
  assumes "claimEffect def tier effective ctx s = (r, s')"
  shows "case r of
      Inl _ \<Rightarrow> adds s [] s'
    | Inr None \<Rightarrow> (tier = None \<and> s' = s) \<or>
        (tier \<noteq> None \<and> ds_log s' = ds_log s @ [PreparedEntry Proceed] \<and> ds_effectDispatched s')
    | Inr (Some e) \<Rightarrow> tier \<noteq> None \<and> ds_effectDispatched s' \<and>
        (\<exists>res. ds_log s' = ds_log s @ [PreparedEntry (Replay res)] \<and> e = asReplayEnvelope res)"
proof (cases tier)
  case None
  then show ?thesis using assms by (auto simp: claimEffect_def)
next
  case (Some t)
  have prep: "case q of Inl _ \<Rightarrow> adds s [] u | Inr v \<Rightarrow> adds s [PreparedEntry v] u"
    if "prepareEffect def t effective ctx s = (q, u)" for q u
    using that by (auto simp: prepareEffect_def split: prod.splits if_splits sum.splits)
  from assms [unfolded claimEffect_def Some option.case] show ?thesis
  proof (cases rule: andThen_cases)
    case (1 e)
    then show ?thesis using prep [OF 1(1)] by simp
  next
    case (2 v u)
    have "adds s [PreparedEntry v] u" using prep [OF 2(1)] by simp
    then show ?thesis using 2(2) Some by (cases v) (auto simp: adds_def)
  qed
qed

text \<open>What may follow the call: at most one write of the journal.\<close>

definition isClosing :: "DispatchAction \<Rightarrow> bool" where
  "isClosing a = (case a of SettledEntry _ _ \<Rightarrow> True | DiscardedEntry \<Rightarrow> True | _ \<Rightarrow> False)"

lemma quiet_adds:
  "\<exists>acts. adds s acts (discardQuietly ctx toolId s) \<and> list_all isClosing acts"
  "\<exists>acts. adds s acts (settleQuietly ctx toolId st s) \<and> list_all isClosing acts"
  by (auto simp: discardQuietly_def settleQuietly_def isClosing_def split: prod.splits)

lemma failure_adds: "\<exists>acts. adds s acts (journalDispatchFailure ctx toolId tier cause s) \<and> list_all isClosing acts"
  using quiet_adds by (auto simp: journalDispatchFailure_def intro: exI [of _ "[]"])

lemma admit_adds:
  assumes "admitDispatch def tier ctx s = (r, s')"
  shows "\<exists>acts. adds s acts s' \<and> list_all isClosing acts \<and> (r = Inr () \<longrightarrow> acts = [])"
proof -
  obtain f w where b: "tx_beforeDispatch ctx (td_id def) (ds_world s) = (f, w)" by (cases "tx_beforeDispatch ctx (td_id def) (ds_world s)")
  obtain acts where acts: "adds (ran w [] s) acts (discardQuietly ctx (td_id def) (ran w [] s))" "list_all isClosing acts"
    using quiet_adds(1) by blast
  have "adds s [] (ran w [] s)" by simp
  then have "adds s acts (discardQuietly ctx (td_id def) (ran w [] s))" using adds_trans acts(1) by fastforce
  then show ?thesis using assms acts(2)
    by (cases f) (auto simp: admitDispatch_def b split: if_splits intro: exI [of _ "[]"])
qed

lemma call_adds:
  assumes "callTool def tier args ctx s = (r, s')"
  shows "\<exists>acts. adds s (CalledHost # acts) s' \<and> list_all isClosing acts \<and> (\<forall>x. r = Inr x \<longrightarrow> acts = [])"
proof -
  obtain q w where q: "td_dispatch def args (ds_world s) = (q, w)" by (cases "td_dispatch def args (ds_world s)")
  have fail: "\<exists>acts. adds s (CalledHost # acts) (journalDispatchFailure ctx (td_id def) tier cause (ran w [CalledHost] s)) \<and>
      list_all isClosing acts" for cause
  proof -
    obtain acts where "adds (ran w [CalledHost] s) acts (journalDispatchFailure ctx (td_id def) tier cause (ran w [CalledHost] s))"
      "list_all isClosing acts" using failure_adds by blast
    moreover have "adds s [CalledHost] (ran w [CalledHost] s)" by simp
    ultimately show ?thesis using adds_trans by fastforce
  qed
  show ?thesis
  proof (cases q)
    case (Inl c)
    then show ?thesis using assms fail [of c] by (auto simp: callTool_def q)
  next
    case (Inr vm)
    then show ?thesis using assms fail
      by (cases vm) (auto simp: callTool_def q Let_def split: if_splits)
  qed
qed

lemma settle_adds:
  assumes "settleCommitted ctx toolId bounded mapped s = (r, s')"
  shows "\<exists>acts. adds s acts s' \<and> list_all isClosing acts"
  using assms by (auto simp: settleCommitted_def Let_def isClosing_def split: prod.splits option.splits)

lemma first_adds:
  assumes "firstDispatch def tier args ctx s = (r, s')"
  shows "\<exists>acts. list_all isClosing acts \<and> (adds s acts s' \<or> adds s (CalledHost # acts) s')"
  using assms unfolding firstDispatch_def
proof (cases rule: andThen_cases)
  case (1 e)
  then show ?thesis using admit_adds by blast
next
  case (2 u1 s1)
  then have a1: "adds s [] s1" using admit_adds [OF 2(1)] by (cases u1) auto
  from 2(2) show ?thesis
  proof (cases rule: andThen_cases)
    case (1 e)
    then show ?thesis using call_adds [OF 1(1)] adds_trans [OF a1] by fastforce
  next
    case (2 om s2)
    then have a2: "adds s [CalledHost] s2" using call_adds [OF 2(1)] adds_trans [OF a1] by fastforce
    obtain out media where om: "om = (out, media)" by (cases om)
    from 2(2) [unfolded om prod.case] show ?thesis
    proof (cases rule: andThen_cases)
      case (1 e)
      then show ?thesis using a2 throwIfAborted_state [OF 1(1)] by (intro exI [of _ "[]"]) auto
    next
      case (2 u3 s3)
      then have s3: "s3 = s2" using throwIfAborted_state by blast
      obtain b w where b: "tx_bound ctx out (ds_world s2) = (b, w)" by (cases "tx_bound ctx out (ds_world s2)")
      have a4: "adds s [CalledHost] (ran w [] s2)" using adds_ran [OF a2, of "[]"] by simp
      show ?thesis
      proof (cases b)
        case (Inl cause)
        then show ?thesis using 2(2) a4 by (intro exI [of _ "[]"]) (simp add: s3 b Let_def)
      next
        case (Inr bounded)
        let ?m = "if tier = None then (Inr (), ran w [] s2)
          else settleCommitted ctx (td_id def) bounded (applyOutputMapping out (tx_outputMapping ctx)) (ran w [] s2)"
        have m: "\<exists>acts. adds s (CalledHost # acts) t \<and> list_all isClosing acts" if q: "?m = (q, t)" for q t
        proof (cases "tier = None")
          case True
          then show ?thesis using q a4 by (intro exI [of _ "[]"]) auto
        next
          case False
          then have "settleCommitted ctx (td_id def) bounded (applyOutputMapping out (tx_outputMapping ctx)) (ran w [] s2) = (q, t)"
            using q by (simp only: if_False)
          from settle_adds [OF this] obtain acts where "adds (ran w [] s2) acts t" "list_all isClosing acts" by blast
          then show ?thesis using adds_trans [OF a4] by auto
        qed
        from 2(2) [unfolded s3 b Inr prod.case sum.case Let_def] show ?thesis
        proof (cases rule: andThen_cases)
          case (1 e)
          then show ?thesis using m by blast
        next
          case (2 u5 s5)
          obtain acts where acts: "adds s (CalledHost # acts) s5" "list_all isClosing acts" using m [OF 2(1)] by blast
          from 2(2) have "s' = s5"
            by (cases rule: andThen_cases) (auto dest: throwIfAborted_state)
          then show ?thesis using acts by blast
        qed
      qed
    qed
  qed
qed

lemma replay_adds: "replayDispatch def e ctx s = (r, s') \<Longrightarrow> s' = s"
  by (auto simp: replayDispatch_def throwIfAborted_def andThen_def split: if_splits)

text \<open>The whole of a dispatch: its log is that of its approval, of its claim, and of its call.\<close>

definition claims :: "EffectTier option \<Rightarrow> DispatchAction list" where
  "claims tier = (if tier = None then [] else [PreparedEntry Proceed])"

lemma guarded_log:
  assumes "guardedDispatch def tier effective args target ctx s = (r, s')" "ds_log s = []"
  shows "(\<exists>asked. list_all isAsked asked \<and> ds_log s' = asked \<and> ds_effectDispatched s' = ds_effectDispatched s) \<or>
    (\<exists>res. ds_log s' = approvals def target ctx @ [PreparedEntry (Replay res)] \<and> ds_effectDispatched s') \<or>
    (\<exists>call closing. ds_log s' = approvals def target ctx @ claims tier @ call @ closing \<and> call \<in> {[], [CalledHost]} \<and>
       list_all isClosing closing \<and> (tier \<noteq> None \<longrightarrow> ds_effectDispatched s'))"
  using assms(1) unfolding guardedDispatch_def
proof (cases rule: andThen_cases)
  case (1 e)
  then show ?thesis using throwIfAborted_state [OF 1(1)] assms(2) by auto
next
  case (2 u1 s1)
  then have s1: "s1 = s" using throwIfAborted_state by blast
  from 2(2) [unfolded s1] show ?thesis
  proof (cases rule: andThen_cases)
    case (1 e)
    then show ?thesis using confirm_adds [OF 1(1)] assms(2) by (auto simp: adds_def)
  next
    case (2 u2 s2)
    then have a2: "adds s (approvals def target ctx) s2" using confirm_adds [OF 2(1)] by (cases u2) auto
    have asked: "list_all isAsked (approvals def target ctx)" by (simp add: approvals_def isAsked_def split: option.splits)
    from 2(2) show ?thesis
    proof (cases rule: andThen_cases)
      case (1 e)
      then show ?thesis using claim_adds [OF 1(1)] a2 assms(2) asked by (auto simp: adds_def)
    next
      case (2 replayed s3)
      show ?thesis
      proof (cases replayed)
        case (Some e)
        then have "s' = s3" using 2(2) replay_adds by simp
        then show ?thesis using claim_adds [OF 2(1)] a2 assms(2) Some by (auto simp: adds_def)
      next
        case None
        then have log3: "ds_log s3 = approvals def target ctx @ claims tier" "tier \<noteq> None \<longrightarrow> ds_effectDispatched s3"
          using claim_adds [OF 2(1)] a2 assms(2) by (auto simp: adds_def claims_def)
        have f: "firstDispatch def tier args ctx s3 = (r, s')" using 2(2) None by simp
        obtain acts where acts: "list_all isClosing acts" "adds s3 acts s' \<or> adds s3 (CalledHost # acts) s'"
          using first_adds [OF f] by blast
        from acts(2) obtain call where "call \<in> {[], [CalledHost]}" "adds s3 (call @ acts) s'"
          by (metis append_Cons append_Nil insertCI)
        then have "ds_log s' = approvals def target ctx @ claims tier @ call @ acts \<and> call \<in> {[], [CalledHost]} \<and>
            (tier \<noteq> None \<longrightarrow> ds_effectDispatched s')"
          using log3 by (simp add: adds_def)
        then show ?thesis using acts(1) by blast
      qed
    qed
  qed
qed

section \<open>Policy and faults\<close>

text \<open>The policy on the target of a call, said without the order of its checks.\<close>

definition permitted :: "('a, 's) ToolDef \<Rightarrow> PolicyTarget \<Rightarrow> 's ToolDispatchContext \<Rightarrow> bool" where
  "permitted def target ctx \<longleftrightarrow>
     (pc_requiresGateApproval (td_policy def) \<longrightarrow> tx_gateApproved ctx) \<and>
     (\<forall>command. pc_spawnsProcess (td_policy def) \<and> pt_command target = Some command \<longrightarrow>
        command \<in> set (tp_allowedCommands (tx_toolPolicy ctx)) \<or>
        (\<exists>glob \<in> set (tp_allowedCommandGlobs (tx_toolPolicy ctx)). globSpec glob command)) \<and>
     (\<forall>url. pc_egress (td_policy def) = Some HttpEgress \<and> pt_url target = Some url \<longrightarrow>
        (\<exists>host \<in> set (tp_allowedDomains (tx_toolPolicy ctx)). extractHttpsHost url = Some (host, False)))"

lemma enforcePolicy_permitted:
  "enforcePolicy def target (tx_gateApproved ctx) (tx_toolPolicy ctx) = None \<longleftrightarrow> permitted def target ctx"
proof -
  have egress: "enforceHttpEgress (td_id def) url (tx_toolPolicy ctx) = None \<longleftrightarrow>
      (\<exists>host \<in> set (tp_allowedDomains (tx_toolPolicy ctx)). extractHttpsHost url = Some (host, False))" for url
    by (auto simp: enforceHttpEgress_def split: option.splits)
  show ?thesis
    by (cases "pt_command target"; cases "pt_url target")
      (auto simp: enforcePolicy_def permitted_def commandAllowed_def globMatch_spec list_ex_iff egress)
qed

lemma admitted_args:
  assumes "admitArgs def toolCall ctx = Inr (effective, args, target)"
  shows "effective = effectiveArgs def toolCall ctx" "td_parseArgs def effective = Inr args" "target = targetOf def args"
    "permitted def target ctx"
    "tx_secretArgKeys ctx = Some secrets \<Longrightarrow> set (mkeys effective) \<inter> set secrets = {}"
  using assms enforcePolicy_permitted [of def "targetOf def args" ctx]
  by (auto simp: admitArgs_def Let_def assertNoTaintedArgs_def filter_empty_conv split: option.splits sum.splits if_splits)

lemma resolved_tool:
  assumes "resolveGrantedTool tools toolCall ctx = Inr def"
  shows "mget tools (tc_name toolCall) = Some def" "\<not> tc_providerExecuted toolCall" "td_id def \<in> set (tx_granted ctx)"
  using assms by (auto simp: resolveGrantedTool_def split: option.splits if_splits)

lemma dispatch_cases:
  assumes "dispatch tools toolCall ctx w = (r, s)"
  obtains (refused) "ds_log s = []" "\<exists>e. r = Inl e \<and> \<not> te_retryable e"
  | (guarded) def args q s0 where "resolveGrantedTool tools toolCall ctx = Inr def"
      "admitArgs def toolCall ctx = Inr (effectiveArgs def toolCall ctx, args, targetOf def args)"
      "s0 = \<lparr>ds_world = w, ds_effectDispatched = False, ds_log = []\<rparr>"
      "guardedDispatch def (journaledTier def args) (effectiveArgs def toolCall ctx) args (targetOf def args) ctx s0 = (q, s)"
      "r = (case q of Inl cause \<Rightarrow> Inl (classifyFault def (targetOf def args) ctx cause s) | Inr outcome \<Rightarrow> Inr outcome)"
proof -
  let ?s0 = "\<lparr>ds_world = w, ds_effectDispatched = False, ds_log = []\<rparr>"
  show ?thesis
  proof (cases "tx_aborted ctx w")
    case True
    then show ?thesis using assms refused by (auto simp: dispatch_def dispatchTool_def tool_errors)
  next
    case na: False
    show ?thesis
    proof (cases "resolveGrantedTool tools toolCall ctx")
      case (Inl e)
      then have "\<not> te_retryable e" by (auto simp: resolveGrantedTool_def tool_errors split: option.splits if_splits)
      then show ?thesis using assms refused na Inl by (auto simp: dispatch_def dispatchTool_def)
    next
      case (Inr def)
      show ?thesis
      proof (cases "admitArgs def toolCall ctx")
        case (Inl e)
        then have "\<not> te_retryable e"
          by (auto simp: admitArgs_def Let_def assertNoTaintedArgs_def toArgsInvalid_def enforcePolicy_def enforceHttpEgress_def
              tool_errors split: option.splits sum.splits if_splits)
        then show ?thesis using assms refused na Inl Inr by (auto simp: dispatch_def dispatchTool_def)
      next
        case a: (Inr eat)
        obtain effective args target where eat: "eat = (effective, args, target)" by (cases eat) auto
        note ad = admitted_args [OF a [unfolded eat]]
        obtain q s' where g: "guardedDispatch def (journaledTier def args) effective args target ctx ?s0 = (q, s')"
          by (cases "guardedDispatch def (journaledTier def args) effective args target ctx ?s0")
        have "s' = s" and r: "r = (case q of Inl cause \<Rightarrow> Inl (classifyFault def target ctx cause s) | Inr outcome \<Rightarrow> Inr outcome)"
          using assms na Inr a eat g by (auto simp: dispatch_def dispatchTool_def split: sum.splits)
        show ?thesis
        proof (rule guarded [OF Inr _ refl])
          show "r = (case q of Inl cause \<Rightarrow> Inl (classifyFault def (targetOf def args) ctx cause s) | Inr outcome \<Rightarrow> Inr outcome)"
            using r unfolding ad(3) .
        qed (use a eat g ad(1,3) \<open>s' = s\<close> in simp_all)
      qed
    qed
  qed
qed

text \<open>Code of the host that throws no error of a dispatch it calls retryable.\<close>

definition calmFault :: "Fault \<Rightarrow> bool" where
  "calmFault f = (case f of ToolFault e \<Rightarrow> \<not> te_retryable e | _ \<Rightarrow> True)"

definition calmHost :: "('a, 's) ToolDef \<Rightarrow> 's ToolDispatchContext \<Rightarrow> bool" where
  "calmHost def ctx \<longleftrightarrow>
     (\<forall>args w f w'. td_dispatch def args w = (Inl f, w') \<longrightarrow> calmFault f) \<and>
     (\<forall>w f w'. tx_beforeDispatch ctx (td_id def) w = (Some f, w') \<longrightarrow> calmFault f) \<and>
     (\<forall>v w f w'. tx_bound ctx v w = (Inl f, w') \<longrightarrow> calmFault f)"

lemma calm_errors [simp]:
  "calmFault (ToolFault (ToolCancelledError i))" "calmFault (ToolFault (ToolEffectConflictError i'))"
  "calmFault (ToolFault (ToolEffectNeedsAttentionError i'))" "calmFault (ToolFault (ToolExecutionError i' b (Some False)))"
  by (simp_all add: calmFault_def tool_errors)

lemma first_calm:
  assumes "calmHost def ctx" "firstDispatch def tier args ctx s = (Inl f, s')"
  shows "calmFault f"
proof -
  have host: "td_dispatch def args w = (Inl f, w') \<Longrightarrow> calmFault f"
    "tx_beforeDispatch ctx (td_id def) w = (Some f, w') \<Longrightarrow> calmFault f" "tx_bound ctx v w = (Inl f, w') \<Longrightarrow> calmFault f"
    for w w' v using assms(1) unfolding calmHost_def by blast+
  show ?thesis using assms(2)
  by (auto dest: host simp: firstDispatch_def andThen_def admitDispatch_def callTool_def throwIfAborted_def settleCommitted_def Let_def
      split: prod.splits sum.splits option.splits if_splits)
qed

lemma replay_calm: "replayDispatch def e ctx s = (Inl f, s') \<Longrightarrow> calmFault f"
  by (auto simp: replayDispatch_def andThen_def throwIfAborted_def split: if_splits)

section \<open>A call answered from its row\<close>

lemma asReplayEnvelope_stored [simp]: "asReplayEnvelope (toStoredEnvelope e) = e"
  by (cases "re_value e"; cases "re_mapped e")
    (simp_all add: asReplayEnvelope_def toStoredEnvelope_def versionedEnvelope_def memberBool_def memberText_def mget_def)

text \<open>Code of the host that leaves the rows of the journal, the second part of the world, alone.\<close>

definition keepsRows :: "('a, 'h \<times> 'j) ToolDef \<Rightarrow> ('h \<times> 'j) ToolDispatchContext \<Rightarrow> bool" where
  "keepsRows def ctx \<longleftrightarrow>
     (\<forall>args w. snd (snd (td_dispatch def args w)) = snd w) \<and>
     (\<forall>w. snd (snd (tx_beforeDispatch ctx (td_id def) w)) = snd w) \<and>
     (\<forall>v w. snd (snd (tx_bound ctx v w)) = snd w) \<and>
     (\<forall>approval. tx_approval ctx = Some approval \<longrightarrow>
        (\<forall>request w. snd (ap_emitApprovalRequested approval request w) = snd w) \<and>
        (\<forall>confirm request w. ap_confirm approval = Some confirm \<longrightarrow> snd (snd (confirm request w)) = snd w))"

lemma keepsRows_step:
  assumes "keepsRows def ctx"
  shows "td_dispatch def args w = (q, w') \<Longrightarrow> snd w' = snd w"
    and "tx_beforeDispatch ctx (td_id def) w = (f, w') \<Longrightarrow> snd w' = snd w"
    and "tx_bound ctx v w = (b, w') \<Longrightarrow> snd w' = snd w"
    and "tx_approval ctx = Some approval \<Longrightarrow> snd (ap_emitApprovalRequested approval request w) = snd w"
    and "tx_approval ctx = Some approval \<Longrightarrow> ap_confirm approval = Some confirm \<Longrightarrow>
      confirm request w = (d, w') \<Longrightarrow> snd w' = snd w"
  using assms unfolding keepsRows_def by (metis snd_conv)+

lemma ds_world_ran [simp]: "ds_world (ran w acts s) = w"
  by (simp add: ran_def)

lemma confirm_rows:
  assumes "keepsRows def ctx" "confirmDispatch def target ctx s = (r, s')"
  shows "snd (ds_world s') = snd (ds_world s)"
proof (cases "tx_approval ctx")
  case None
  then show ?thesis using assms(2) by (simp add: confirmDispatch_def)
next
  case (Some approval)
  note kept = keepsRows_step(4,5) [OF assms(1) Some]
  show ?thesis using assms(2)
    by (auto dest!: kept(2) simp: kept(1) confirmDispatch_def Some andThen_def throwIfAborted_def Let_def
        split: option.splits if_splits prod.splits sum.splits ToolApprovalDecision.splits)
qed

text \<open>The envelope of an outcome.\<close>

definition envelopeOf :: "'s ToolDispatchContext \<Rightarrow> ToolDispatchOutcome \<Rightarrow> ReplayEnvelope" where
  "envelopeOf ctx outcome =
     \<lparr>re_value = to_result outcome, re_truncated = to_truncated outcome, re_summary = to_summary outcome,
      re_mapped = (if tx_outputMapping ctx \<noteq> None then to_output outcome else None),
      re_hadMapping = (tx_outputMapping ctx \<noteq> None)\<rparr>"

lemma settleCommitted_success:
  assumes "settleCommitted ctx toolId bounded mapped s = (Inr u, s')"
  shows "ep_settle (tx_effects ctx) (tx_effectSlot ctx) toolId SettleCommitted
    (Some (toStoredEnvelope (envelopeOf ctx (outcomeOf toolId mapped bounded media)))) (ds_world s) = (None, ds_world s')"
  using assms by (auto simp: settleCommitted_def envelopeOf_def outcomeOf_def Let_def split: prod.splits option.splits)

lemma admit_rows:
  assumes "keepsRows def ctx" "admitDispatch def tier ctx s = (Inr u, s')"
  shows "snd (ds_world s') = snd (ds_world s)"
  using assms(2) by (auto dest!: keepsRows_step(2) [OF assms(1)] simp: admitDispatch_def split: prod.splits option.splits)

lemma call_rows:
  assumes "keepsRows def ctx" "callTool def tier args ctx s = (Inr u, s')"
  shows "snd (ds_world s') = snd (ds_world s)"
  using assms(2)
  by (auto dest!: keepsRows_step(1) [OF assms(1)] simp: callTool_def Let_def split: prod.splits sum.splits if_splits)

lemma first_success:
  assumes "keepsRows def ctx" "firstDispatch def (Some t) args ctx s = (Inr outcome, s')"
  shows "\<exists>w. snd w = snd (ds_world s) \<and>
    ep_settle (tx_effects ctx) (tx_effectSlot ctx) (td_id def) SettleCommitted
      (Some (toStoredEnvelope (envelopeOf ctx outcome))) w = (None, ds_world s')"
  using assms(2) unfolding firstDispatch_def
proof (cases rule: andThen_cases)
  case (2 u1 s1)
  then have r1: "snd (ds_world s1) = snd (ds_world s)" using admit_rows assms(1) by blast
  from 2(2) show ?thesis
  proof (cases rule: andThen_cases)
    case (2 om s2)
    then have r2: "snd (ds_world s2) = snd (ds_world s)" using call_rows assms(1) r1 by metis
    obtain out media where om: "om = (out, media)" by (cases om)
    from 2(2) [unfolded om prod.case] show ?thesis
    proof (cases rule: andThen_cases)
      case (2 u3 s3)
      then have s3: "s3 = s2" using throwIfAborted_state by blast
      obtain b w where b: "tx_bound ctx out (ds_world s2) = (b, w)" by (cases "tx_bound ctx out (ds_world s2)")
      have w: "snd w = snd (ds_world s)" using keepsRows_step(3) [OF assms(1) b] r2 by simp
      show ?thesis
      proof (cases b)
        case (Inl cause)
        then show ?thesis using 2(2) by (simp add: s3 b Let_def)
      next
        case (Inr bounded)
        from 2(2) [unfolded s3 b Inr prod.case sum.case Let_def] show ?thesis
        proof (cases rule: andThen_cases)
          case (2 u5 s5)
          from 2(1) have settled: "settleCommitted ctx (td_id def) bounded (applyOutputMapping out (tx_outputMapping ctx)) (ran w [] s2) = (Inr u5, s5)"
            by simp
          from 2(2) have "s' = s5"
            "outcome = outcomeOf (td_id def) (applyOutputMapping out (tx_outputMapping ctx)) bounded media"
            by (cases rule: andThen_cases, auto dest: throwIfAborted_state)+
          then show ?thesis using settleCommitted_success [OF settled, of media] w by (intro exI [of _ w]) simp
        qed simp
      qed
    qed simp
  qed simp
qed simp

lemma first_output:
  assumes "firstDispatch def tier args ctx s = (Inr outcome, s')"
  shows "\<exists>out. to_output outcome = applyOutputMapping out (tx_outputMapping ctx)"
  using assms
  by (auto simp: firstDispatch_def andThen_def throwIfAborted_def Let_def outcomeOf_def
      split: prod.splits sum.splits if_splits)

lemma port_simps [simp]:
  "ep_prepare (journalPort c) slot tool tier journal att (h, rows) =
     (case prepareRef c slot tool tier journal att rows of
        (Inl _, rows') \<Rightarrow> (Inl ConflictFault, h, rows') | (Inr verdict, rows') \<Rightarrow> (Inr verdict, h, rows'))"
  "ep_settle (journalPort c) slot tool st res (h, rows) =
     (case settleRef c slot tool st res rows of (f, rows') \<Rightarrow> (map_option (\<lambda>_. OtherFault) f, h, rows'))"
  by (simp_all add: journalPort_def)

text \<open>A row that answers the same call with an envelope.\<close>

definition answers :: "json EffectRows \<Rightarrow> EffectIdentity \<Rightarrow> json \<Rightarrow> ReplayEnvelope \<Rightarrow> bool" where
  "answers rows key journal envelope =
     (\<exists>row. mget rows key = Some row \<and> er_state row = CommittedEffect \<and> er_args row = journal \<and>
        er_result row = Some (toStoredEnvelope envelope))"

lemma settled_answers:
  assumes "ep_settle (journalPort (RunEffect r n k)) slot tool SettleCommitted (Some (toStoredEnvelope envelope)) w = (None, w')"
    and "mget (snd w) (effectScope (RunEffect r n k), slot, tool) = Some row" "er_args row = journal"
  shows "answers (snd w') (effectScope (RunEffect r n k), slot, tool) journal envelope"
proof -
  obtain h rows where w: "w = (h, rows)" by (cases w)
  show ?thesis using assms
    by (auto simp: w settleRef_def Let_def isRun_def answers_def split: if_splits)
qed

lemma prepared_row:
  assumes "prepareEffect def t effective ctx s = (Inr Proceed, s')"
    and "tx_effects ctx = journalPort c" "projectInput (tx_redaction ctx) (td_configOnlyParams def) effective (tx_secretArgKeys ctx) = (journal, names)"
  shows "names = [] \<and> (\<exists>row. mget (snd (ds_world s')) (effectScope c, tx_effectSlot ctx, td_id def) = Some row \<and> er_args row = journal)"
proof -
  obtain h rows where w: "ds_world s = (h, rows)" by (cases "ds_world s")
  show ?thesis using assms
    by (auto simp: prepareEffect_def w prepareRef_def Let_def split: if_splits option.splits)
qed

lemma first_row:
  assumes "guardedDispatch def tier effective args target ctx s = (Inr outcome, s')"
    and "tx_effects ctx = journalPort (RunEffect r n k)" "keepsRows def ctx"
    and "projectInput (tx_redaction ctx) (td_configOnlyParams def) effective (tx_secretArgKeys ctx) = (journal, names)"
    and "ds_log s = []" "PreparedEntry Proceed \<in> set (ds_log s')"
  shows "names = [] \<and> tier \<noteq> None \<and> (tx_outputMapping ctx \<noteq> None \<longrightarrow> to_output outcome \<noteq> None) \<and>
    answers (snd (ds_world s')) (effectScope (RunEffect r n k), tx_effectSlot ctx, td_id def) journal (envelopeOf ctx outcome)"
  using assms(1) unfolding guardedDispatch_def
proof (cases rule: andThen_cases)
  case (2 u1 s1)
  from 2(2) show ?thesis
  proof (cases rule: andThen_cases)
    case (2 u2 s2)
    from 2(2) show ?thesis
    proof (cases rule: andThen_cases)
      case (2 replayed s3)
      have none: "PreparedEntry Proceed \<notin> set acts" if "list_all isAsked acts \<or> list_all isClosing acts" for acts
        using that by (auto simp: list_all_iff isAsked_def isClosing_def split: DispatchAction.splits)
      have l1: "ds_log s1 = []" using throwIfAborted_state \<open>throwIfAborted ctx (Some (td_id def)) s = (Inr u1, s1)\<close> assms(5) by metis
      obtain asked where asked: "list_all isAsked asked" "ds_log s2 = asked"
        using confirm_adds [OF \<open>confirmDispatch def target ctx s1 = (Inr u2, s2)\<close>] l1 by (auto simp: adds_def)
      show ?thesis
      proof (cases replayed)
        case (Some envelope)
        then have "s' = s3" using 2(2) replay_adds by simp
        then show ?thesis using claim_adds [OF 2(1)] Some asked none assms(6) by auto
      next
        case None
        then have f: "firstDispatch def tier args ctx s3 = (Inr outcome, s')" using 2(2) by simp
        obtain new where new: "list_all isClosing new" "adds s3 new s' \<or> adds s3 (CalledHost # new) s'"
          using first_adds [OF f] by blast
        have "PreparedEntry Proceed \<in> set (ds_log s3)" using new assms(6) none by (auto simp: adds_def)
        then obtain t where t: "tier = Some t" using claim_adds [OF 2(1)] None asked none by (cases tier) auto
        obtain s4 where p: "prepareEffect def t effective ctx s2 = (Inr Proceed, s4)" "ds_world s3 = ds_world s4"
          using 2(1) unfolding t claimEffect_def option.case None
          by (cases rule: andThen_cases) (auto split: EffectPrepareVerdict.splits)
        obtain row where row: "names = []" "mget (snd (ds_world s4)) (effectScope (RunEffect r n k), tx_effectSlot ctx, td_id def) = Some row"
          "er_args row = journal" using prepared_row [OF p(1) assms(2,4)] by blast
        obtain w where w: "snd w = snd (ds_world s3)"
          "ep_settle (tx_effects ctx) (tx_effectSlot ctx) (td_id def) SettleCommitted
             (Some (toStoredEnvelope (envelopeOf ctx outcome))) w = (None, ds_world s')"
          using first_success [OF assms(3) f [unfolded t]] by blast
        have "tx_outputMapping ctx \<noteq> None \<longrightarrow> to_output outcome \<noteq> None"
          using first_output [OF f] by (auto simp: applyOutputMapping_def)
        then show ?thesis using settled_answers [OF w(2) [unfolded assms(2)], of row journal] w(1) row t p(2) by simp
      qed
    qed simp
  qed simp
qed simp

lemma replayed_claim:
  assumes "claimEffect def (Some t) effective ctx s = (q, s')" "tx_effects ctx = journalPort (RunEffect r n k)"
    and "projectInput (tx_redaction ctx) (td_configOnlyParams def) effective (tx_secretArgKeys ctx) = (journal, [])"
    and "answers (snd (ds_world s)) (effectScope (RunEffect r n k), tx_effectSlot ctx, td_id def) journal envelope"
  shows "q = Inr (Some envelope) \<and> ds_log s' = ds_log s @ [PreparedEntry (Replay (toStoredEnvelope envelope))]"
proof -
  obtain h rows where w: "ds_world s = (h, rows)" by (cases "ds_world s")
  show ?thesis using assms
    by (auto simp: claimEffect_def andThen_def prepareEffect_def w prepareRef_def isRun_def answers_def ran_def)
qed

lemma replayed_call:
  assumes "guardedDispatch def (Some t) effective args target ctx s = (q, s')" "tx_effects ctx = journalPort (RunEffect r n k)"
    and "keepsRows def ctx" "ds_log s = []" "\<forall>w. \<not> tx_aborted ctx w"
    and "projectInput (tx_redaction ctx) (td_configOnlyParams def) effective (tx_secretArgKeys ctx) = (journal, [])"
    and "answers (snd (ds_world s)) (effectScope (RunEffect r n k), tx_effectSlot ctx, td_id def) journal envelope"
    and "re_hadMapping envelope = (tx_outputMapping ctx \<noteq> None)"
  shows "CalledHost \<notin> set (ds_log s') \<and>
    (case q of
       Inl cause \<Rightarrow> tx_approval ctx \<noteq> None
     | Inr outcome \<Rightarrow> outcome = outcomeOf (td_id def) (case re_mapped envelope of Some m \<Rightarrow> Some m | None \<Rightarrow> re_value envelope)
         \<lparr>bd_value = re_value envelope, bd_truncated = re_truncated envelope, bd_summary = re_summary envelope\<rparr> [])"
proof -
  have go: "throwIfAborted ctx i u = (Inr (), u)" for i u
    using assms(5) [THEN spec, of "ds_world u"] by (simp add: throwIfAborted_def)
  obtain c s2 where c: "confirmDispatch def target ctx s = (c, s2)" by (cases "confirmDispatch def target ctx s")
  obtain asked where asked: "list_all isAsked asked" "ds_log s2 = asked"
    using confirm_adds [OF c] assms(4) by (auto simp: adds_def)
  have none: "CalledHost \<notin> set asked" using asked(1) by (auto simp: list_all_iff isAsked_def)
  show ?thesis
  proof (cases c)
    case (Inl cause)
    then have "tx_approval ctx \<noteq> None"
      using c by (cases "tx_approval ctx") (simp_all add: confirmDispatch_def)
    moreover have "q = Inl cause" "s' = s2"
      using assms(1) c Inl by (auto simp: guardedDispatch_def go andThen_def)
    ultimately show ?thesis using none asked(2) by simp
  next
    case (Inr u)
    obtain p s3 where p: "claimEffect def (Some t) effective ctx s2 = (p, s3)"
      by (cases "claimEffect def (Some t) effective ctx s2")
    have "answers (snd (ds_world s2)) (effectScope (RunEffect r n k), tx_effectSlot ctx, td_id def) journal envelope"
      using assms(7) confirm_rows [OF assms(3) c] by simp
    from replayed_claim [OF p assms(2,6) this]
    have p': "p = Inr (Some envelope)" "ds_log s3 = asked @ [PreparedEntry (Replay (toStoredEnvelope envelope))]"
      using asked(2) by auto
    have "replayDispatch def envelope ctx s3 = (q, s')"
      using assms(1) c Inr p p'(1) by (simp add: guardedDispatch_def go andThen_def)
    then show ?thesis using none p'(2) assms(8) by (auto simp: replayDispatch_def go andThen_def)
  qed
qed

end
