(* ===== verification/Tool_Results.thy ===== *)
theory Tool_Results
  imports Tool_Laws
begin

text \<open>The properties of the tool registry, with a small registry on which their witnesses are evaluated.\<close>

section \<open>A registry\<close>

text \<open>A tool that posts its argument to a host: it is governed, journaled, and answers with the argument.\<close>

definition postTool :: "(string, 's) ToolDef" where
  "postTool =
     \<lparr>td_id = ''post'', td_source = Builtin,
      td_parseArgs = (\<lambda>args. case mget args ''url'' of Some (JStr u) \<Rightarrow> Inr u | _ \<Rightarrow> Inl (Some [[KeyPart ''url'']])),
      td_configOnlyParams = [],
      td_policy = \<lparr>pc_fsScoped = False, pc_fsWrite = False, pc_spawnsProcess = False, pc_egress = Some HttpEgress,
                   pc_os = False, pc_requiresGateApproval = False\<rparr>,
      td_policyTarget = Some (\<lambda>u. noTarget\<lparr>pt_url := Some u\<rparr>), td_effect = Some (\<lambda>_. Some Tier3),
      td_duplicationBenign = False, td_dispatch = (\<lambda>u w. (Inr (Some (JStr u), []), w))\<rparr>"

text \<open>The same tool when its host fails.\<close>

definition brokenTool :: "(string, 's) ToolDef" where
  "brokenTool = postTool\<lparr>td_dispatch := (\<lambda>u w. (Inl OtherFault, w))\<rparr>"

definition sampleContext :: "'s EffectPort \<Rightarrow> 's ToolDispatchContext" where
  "sampleContext port =
     \<lparr>tx_granted = [''post''], tx_parameters = None, tx_inputMapping = None, tx_outputMapping = None,
      tx_toolPolicy = \<lparr>tp_allowedCommands = [], tp_allowedCommandGlobs = [], tp_allowedDomains = [''a.io'']\<rparr>,
      tx_gateApproved = False, tx_approval = None, tx_secretArgKeys = None, tx_effects = port, tx_effectSlot = 0,
      tx_effectAttempt = None, tx_beforeDispatch = (\<lambda>_ w. (None, w)), tx_aborted = (\<lambda>_. False),
      tx_bound = (\<lambda>v w. (Inr \<lparr>bd_value = v, bd_truncated = False, bd_summary = []\<rparr>, w)),
      tx_redaction = \<lparr>rd_media = id, rd_project = (\<lambda>j. (j, True)), rd_text = id\<rparr>\<rparr>"

definition sampleCall :: ToolCall where
  "sampleCall =
     \<lparr>tc_id = ''c1'', tc_name = ''post'', tc_args = JObj [(''url'', JStr ''https://a.io/x'')], tc_providerExecuted = False\<rparr>"

definition samplePort :: "(nat \<times> json EffectRows) EffectPort" where
  "samplePort = journalPort (RunEffect ''r'' ''n'' 1)"

definition sampleTools :: "(string, (string, nat \<times> json EffectRows) ToolDef) jsmap" where
  "sampleTools = [(''post'', postTool)]"

definition sampleRun :: "(ToolDispatchError + ToolDispatchOutcome) \<times> (nat \<times> json EffectRows) Dispatching" where
  "sampleRun = dispatch sampleTools sampleCall (sampleContext samplePort) (0, [])"

lemma sampleRun_log:
  "PreparedEntry Proceed \<in> set (ds_log (snd sampleRun)) \<and> CalledHost \<in> set (ds_log (snd sampleRun))"
  by code_simp

definition failingRun :: "(ToolDispatchError + ToolDispatchOutcome) \<times> (nat \<times> json EffectRows) Dispatching" where
  "failingRun = dispatch [(''post'', brokenTool)] sampleCall (sampleContext samplePort) (0, [])"

lemma failingRun_result:
  "failingRun =
     (Inl (ToolExecutionError ''post'' (Some False) (Some False)),
      \<lparr>ds_world = ds_world (snd failingRun), ds_effectDispatched = True,
       ds_log = [PreparedEntry Proceed, CalledHost, SettledEntry SettleAmbiguous None]\<rparr>)"
  by code_simp

section \<open>Properties\<close>

text \<open>The matcher of command globs with its single point of return matches exactly the texts the glob denotes.\<close>

theorem globMatch_exact: "globMatch glob command = globSpec glob command"
  by (rule globMatch_spec)

text \<open>
  C14. The host is called at most once, and only for a registered tool that the node was granted, with arguments that
  passed its validator and hold no secret, on a target the policy permits, after the approval it needs and after
  its claim in the effect journal; nothing but one kind of write, that closes the claim, follows.
\<close>

theorem host_called_only_if_allowed:
  assumes "dispatch tools toolCall ctx w = (r, s)" "CalledHost \<in> set (ds_log s)"
  shows "\<exists>def args closing. mget tools (tc_name toolCall) = Some def \<and> \<not> tc_providerExecuted toolCall \<and>
    td_id def \<in> set (tx_granted ctx) \<and> td_parseArgs def (effectiveArgs def toolCall ctx) = Inr args \<and>
    (\<forall>secrets. tx_secretArgKeys ctx = Some secrets \<longrightarrow> set (mkeys (effectiveArgs def toolCall ctx)) \<inter> set secrets = {}) \<and>
    permitted def (targetOf def args) ctx \<and> list_all isClosing closing \<and>
    ds_log s = approvals def (targetOf def args) ctx @ claims (journaledTier def args) @ CalledHost # closing"
  using assms(1)
proof (cases rule: dispatch_cases)
  case refused
  then show ?thesis using assms(2) by simp
next
  case (guarded def args q s0)
  have none: "CalledHost \<notin> set acts" if "list_all isAsked acts \<or> list_all isClosing acts" for acts
    using that by (auto simp: list_all_iff isAsked_def isClosing_def split: DispatchAction.splits)
  have "CalledHost \<notin> set (approvals def (targetOf def args) ctx)" "CalledHost \<notin> set (claims (journaledTier def args))"
    by (auto simp: approvals_def claims_def split: option.splits)
  moreover have "ds_log s0 = []" using guarded(3) by simp
  ultimately obtain closing where closing: "list_all isClosing closing"
    "ds_log s = approvals def (targetOf def args) ctx @ claims (journaledTier def args) @ CalledHost # closing"
    using guarded_log [OF guarded(4)] assms(2) none by auto
  show ?thesis
    using resolved_tool [OF guarded(1)] admitted_args [OF guarded(2)] closing
    by (intro exI [of _ def] exI [of _ args] exI [of _ closing]) auto
qed

theorem host_called_only_if_allowed_witness:
  "td_id (postTool :: (string, nat \<times> json EffectRows) ToolDef) \<in> set (tx_granted (sampleContext samplePort)) \<and>
   (\<exists>closing. ds_log (snd sampleRun) = [PreparedEntry Proceed, CalledHost] @ closing)"
proof -
  have run: "dispatch sampleTools sampleCall (sampleContext samplePort) (0, []) = (fst sampleRun, snd sampleRun)"
    by (simp add: sampleRun_def)
  have tool: "mget sampleTools (tc_name sampleCall) = Some postTool"
    by (simp add: sampleTools_def sampleCall_def mget_def)
  from host_called_only_if_allowed [OF run conjunct2 [OF sampleRun_log]]
  obtain def args closing where d: "mget sampleTools (tc_name sampleCall) = Some def"
    "td_id def \<in> set (tx_granted (sampleContext samplePort))"
    "ds_log (snd sampleRun) = approvals def (targetOf def args) (sampleContext samplePort) @
       claims (journaledTier def args) @ CalledHost # closing"
    by blast
  have "def = postTool" using d(1) tool by simp
  then show ?thesis using d(2,3) by (simp add: approvals_def claims_def sampleContext_def journaledTier_def postTool_def)
qed

text \<open>
  C17. Once a call was claimed in the effect journal, no failure of its dispatch asks for a new attempt of the node,
  if the host throws no error of its own that does.
\<close>

theorem no_retry_after_claim:
  assumes "dispatch tools toolCall ctx w = (Inl e, s)" "PreparedEntry v \<in> set (ds_log s)"
    and "\<forall>def. mget tools (tc_name toolCall) = Some def \<longrightarrow> calmHost def ctx"
  shows "\<not> te_retryable e"
  using assms(1)
proof (cases rule: dispatch_cases)
  case refused
  then show ?thesis by auto
next
  case (guarded def args q s0)
  obtain cause where q: "q = Inl cause" and e: "e = classifyFault def (targetOf def args) ctx cause s"
    using guarded(5) by (cases q) auto
  have calm: "calmHost def ctx" using assms(3) resolved_tool(1) [OF guarded(1)] by blast
  have asked: "PreparedEntry v \<notin> set acts" if "list_all isAsked acts \<or> list_all isClosing acts" for acts
    using that by (auto simp: list_all_iff isAsked_def isClosing_def split: DispatchAction.splits)
  have s0: "ds_log s0 = []" "\<not> ds_effectDispatched s0" using guarded(3) by simp_all
  have "calmFault cause \<and> ds_effectDispatched s"
    using guarded(4) [unfolded q guardedDispatch_def]
  proof (cases rule: andThen_cases)
    case (1 f)
    then show ?thesis using throwIfAborted_state [OF 1(1)] s0 assms(2) by auto
  next
    case (2 u1 s1)
    then have s1: "s1 = s0" using throwIfAborted_state by blast
    from 2(2) [unfolded s1] show ?thesis
    proof (cases rule: andThen_cases)
      case (1 f)
      then show ?thesis using confirm_adds [OF 1(1)] s0 assms(2) asked by (auto simp: adds_def)
    next
      case (2 u2 s2)
      then obtain acts where a2: "adds s0 acts s2" "list_all isAsked acts" using confirm_adds [OF 2(1)] by blast
      from 2(2) show ?thesis
      proof (cases rule: andThen_cases)
        case (1 f)
        then show ?thesis using claim_adds [OF 1(1)] a2 s0 assms(2) asked by (auto simp: adds_def)
      next
        case (2 replayed s3)
        show ?thesis
        proof (cases replayed)
          case (Some envelope)
          then have r: "replayDispatch def envelope ctx s3 = (Inl cause, s)" using 2(2) by simp
          then show ?thesis using replay_calm [OF r] replay_adds [OF r] claim_adds [OF 2(1)] Some by simp
        next
          case None
          then have f: "firstDispatch def (journaledTier def args) args ctx s3 = (Inl cause, s)" using 2(2) by simp
          obtain new where new: "list_all isClosing new" "adds s3 new s \<or> adds s3 (CalledHost # new) s"
            using first_adds [OF f] by blast
          have "ds_effectDispatched s3"
          proof (rule ccontr)
            assume "\<not> ds_effectDispatched s3"
            then have "s3 = s2" using claim_adds [OF 2(1)] None by auto
            then show False using new a2 s0 assms(2) asked by (auto simp: adds_def)
          qed
          then show ?thesis using first_calm [OF calm f] new(2) by (auto simp: adds_def)
        qed
      qed
    qed
  qed
  then show ?thesis unfolding e
    by (auto simp: classifyFault_def Let_def calmFault_def tool_errors split: Fault.splits)
qed

theorem no_retry_after_claim_witness: "\<not> te_retryable (ToolExecutionError ''post'' (Some False) (Some False))"
proof (rule no_retry_after_claim)
  show "dispatch [(''post'', brokenTool)] sampleCall (sampleContext samplePort) (0, []) =
      (Inl (ToolExecutionError ''post'' (Some False) (Some False)), snd failingRun)"
    using failingRun_result by (metis failingRun_def fst_conv prod.collapse)
  show "PreparedEntry Proceed \<in> set (ds_log (snd failingRun))" by (subst failingRun_result) simp
  show "\<forall>def. mget [(''post'', brokenTool)] (tc_name sampleCall) = Some def \<longrightarrow> calmHost def (sampleContext samplePort)"
    by (auto simp: mget_def sampleCall_def calmHost_def brokenTool_def calmFault_def sampleContext_def)
qed

text \<open>
  C36. A journaled call that ended, and that a later attempt of its node makes again, after a crash say, is not made: it is
  answered with the result of the first call for the model, and with its mapped output if the node maps outputs.
  Without a mapping the output is the bounded result that the journal kept. Only an approval can refuse it.
\<close>

theorem crash_redelivers:
  assumes "dispatch tools toolCall (ctx\<lparr>tx_effects := journalPort (RunEffect r n k)\<rparr>) w = (Inr first, s1)"
    and "PreparedEntry Proceed \<in> set (ds_log s1)"
    and "dispatch tools toolCall (ctx\<lparr>tx_effects := journalPort (RunEffect r n k')\<rparr>) (h', snd (ds_world s1)) = (again, s2)"
    and "\<forall>def. mget tools (tc_name toolCall) = Some def \<longrightarrow> keepsRows def ctx"
    and "\<forall>w. \<not> tx_aborted ctx w"
  shows "CalledHost \<notin> set (ds_log s2) \<and>
    (case again of
       Inl e \<Rightarrow> tx_approval ctx \<noteq> None
     | Inr second \<Rightarrow> to_result second = to_result first \<and> to_truncated second = to_truncated first \<and>
         to_summary second = to_summary first \<and>
         to_output second = (if tx_outputMapping ctx = None then to_result first else to_output first))"
proof -
  let ?ctx1 = "ctx\<lparr>tx_effects := journalPort (RunEffect r n k)\<rparr>" and ?ctx2 = "ctx\<lparr>tx_effects := journalPort (RunEffect r n k')\<rparr>"
  show ?thesis using assms(1)
  proof (cases rule: dispatch_cases)
    case refused
    then show ?thesis by auto
  next
    case (guarded def args q s0)
    let ?eff = "effectiveArgs def toolCall ctx" and ?t = "targetOf def args"
    have q: "q = Inr first" using guarded(5) by (cases q) auto
    have keeps: "keepsRows def ?ctx1" "keepsRows def ?ctx2"
      using assms(4) resolved_tool(1) [OF guarded(1)] by (simp_all add: keepsRows_def)
    obtain journal names where pr: "projectInput (tx_redaction ctx) (td_configOnlyParams def) ?eff (tx_secretArgKeys ctx) = (journal, names)"
      by (cases "projectInput (tx_redaction ctx) (td_configOnlyParams def) ?eff (tx_secretArgKeys ctx)")
    have e1: "effectiveArgs def toolCall ?ctx1 = ?eff" "effectiveArgs def toolCall ?ctx2 = ?eff"
      by (simp_all add: effectiveArgs_def)
    have "names = [] \<and> journaledTier def args \<noteq> None \<and> (tx_outputMapping ctx \<noteq> None \<longrightarrow> to_output first \<noteq> None) \<and>
        answers (snd (ds_world s1)) (effectScope (RunEffect r n k), tx_effectSlot ctx, td_id def) journal (envelopeOf ?ctx1 first)"
      using first_row [OF guarded(4) [unfolded q e1] _ keeps(1)] pr guarded(3) assms(2) by simp
    then obtain t where row: "names = []" "journaledTier def args = Some t" "tx_outputMapping ctx \<noteq> None \<longrightarrow> to_output first \<noteq> None"
      "answers (snd (ds_world s1)) (effectScope (RunEffect r n k), tx_effectSlot ctx, td_id def) journal (envelopeOf ?ctx1 first)"
      by blast
    let ?s = "\<lparr>ds_world = (h', snd (ds_world s1)), ds_effectDispatched = False, ds_log = []\<rparr>"
    have same: "resolveGrantedTool tools toolCall ?ctx2 = Inr def" "admitArgs def toolCall ?ctx2 = Inr (?eff, args, ?t)"
      using guarded(1,2) by (auto simp: resolveGrantedTool_def admitArgs_def effectiveArgs_def Let_def
          split: option.splits sum.splits if_splits)
    obtain q2 s' where g: "guardedDispatch def (Some t) ?eff args ?t ?ctx2 ?s = (q2, s')"
      by (cases "guardedDispatch def (Some t) ?eff args ?t ?ctx2 ?s")
    have "s' = s2" and again: "again = (case q2 of Inl cause \<Rightarrow> Inl (classifyFault def ?t ?ctx2 cause s2) | Inr x \<Rightarrow> Inr x)"
      using assms(3) assms(5) [THEN spec, of "(h', snd (ds_world s1))"] same g row(2)
      by (auto simp: dispatch_def dispatchTool_def split: sum.splits)
    have "CalledHost \<notin> set (ds_log s') \<and>
      (case q2 of Inl cause \<Rightarrow> tx_approval ?ctx2 \<noteq> None | Inr outcome \<Rightarrow> outcome = outcomeOf (td_id def)
         (case re_mapped (envelopeOf ?ctx1 first) of Some m \<Rightarrow> Some m | None \<Rightarrow> re_value (envelopeOf ?ctx1 first))
         \<lparr>bd_value = re_value (envelopeOf ?ctx1 first), bd_truncated = re_truncated (envelopeOf ?ctx1 first),
          bd_summary = re_summary (envelopeOf ?ctx1 first)\<rparr> [])"
      by (rule replayed_call [OF g _ keeps(2)]) (use assms(5) pr row in \<open>simp_all add: envelopeOf_def\<close>)
    then show ?thesis using row(3) unfolding \<open>s' = s2\<close> again
      by (cases q2) (auto simp: envelopeOf_def outcomeOf_def)
  qed
qed

theorem crash_redelivers_witness:
  "CalledHost \<notin> set (ds_log (snd (dispatch sampleTools sampleCall
     ((sampleContext samplePort)\<lparr>tx_effects := journalPort (RunEffect ''r'' ''n'' 2)\<rparr>) (7, snd (ds_world (snd sampleRun))))))"
proof -
  let ?ctx = "sampleContext samplePort" and ?port = "\<lambda>k. journalPort (RunEffect ''r'' ''n'' k)"
  let ?second = "dispatch sampleTools sampleCall (?ctx\<lparr>tx_effects := ?port 2\<rparr>) (7, snd (ds_world (snd sampleRun)))"
  have same: "?ctx\<lparr>tx_effects := ?port 1\<rparr> = ?ctx" by (simp add: sampleContext_def samplePort_def)
  have "isl (fst sampleRun) = False" by code_simp
  then have first: "dispatch sampleTools sampleCall (?ctx\<lparr>tx_effects := ?port 1\<rparr>) (0, []) = (Inr (projr (fst sampleRun)), snd sampleRun)"
    unfolding same sampleRun_def [symmetric] by (simp add: sum.collapse(2))
  have keeps: "\<forall>def. mget sampleTools (tc_name sampleCall) = Some def \<longrightarrow> keepsRows def ?ctx"
    by (auto simp: mget_def sampleCall_def sampleTools_def keepsRows_def postTool_def sampleContext_def)
  have quiet: "\<forall>w. \<not> tx_aborted ?ctx w" by (simp add: sampleContext_def)
  have "?second = (fst ?second, snd ?second)" by simp
  from crash_redelivers [OF first conjunct1 [OF sampleRun_log] this keeps quiet] show ?thesis by blast
qed

end
