(* ===== verification/Spec2Isabelle.thy ===== *)
theory Spec2Isabelle
  imports Run_Results Budget_Results Run_Resume Chain_Results Egress_Laws Tool_Results
begin

text \<open>
  Relavium runs agent workflows: a YAML document declares nodes, edges, agents and a budget; the core
  turns it into a run plan and executes the plan against model providers. This development models the
  core (\<open>src/packages/core\<close> and the shared types of \<open>src/packages/shared\<close>) along the path of a workflow.

  \<^bold>\<open>Parts and theories.\<close>

  \<^item> \<^emph>\<open>Documents and templates.\<close> \<open>Workflow_Model\<close> has the document types (\<open>shared/src/workflow.ts\<close>, \<open>node.ts\<close>,
    \<open>agent.ts\<close>, \<open>edge.ts\<close>), the whole-document check \<open>validateWorkflow\<close> and the collection of reference sites
    (\<open>interpolation/collect.ts\<close>). \<open>Template_Refs\<close> is the template lexer (\<open>interpolation/references.ts\<close>),
    \<open>Js_Number\<close> the numbers it prints and reads. \<open>Secret_Taint\<close> is the taint analysis (\<open>interpolation/analyze.ts\<close>).
  \<^item> \<^emph>\<open>Plan.\<close> \<open>Ready_Heap\<close> and \<open>Topo_Order\<close> are the heap, the Kahn order, the cycle extraction and the ancestors of
    \<open>dag.ts\<close>; \<open>Admission_Limits\<close> the ceilings of \<open>limits.ts\<close>; \<open>Dag_Builder\<close> is \<open>buildRunPlan\<close> with all its checks.
    \<open>Dag_Wiring\<close> and \<open>Plan_Correctness\<close> prove what the builder computes.
  \<^item> \<^emph>\<open>Run loop.\<close> \<open>Run_Core\<close> has the scheduling functions of \<open>RunExecution\<close> (\<open>engine/engine.ts\<close>): readiness, skip
    propagation, claims, retries, size bounds. \<open>Run_Loop\<close> is the loop itself as a system of events: a step of
    the loop in its two halves, the dispatch of a node, outcomes, gates, media jobs, timers, cancellation
    and faults. One event is one stretch of code between two awaits, so an interleaving of the
    asynchronous code is a sequence of events. \<open>Run_Readiness\<close>, \<open>Run_Invariant\<close>, \<open>Run_Safety\<close>, \<open>Run_Verdict\<close>,
    \<open>Run_Progress\<close>, \<open>Run_Dispatches\<close> and \<open>Run_Finality\<close> prove the invariants; \<open>Run_Results\<close> states the properties.
  \<^item> \<^emph>\<open>Money.\<close> \<open>Dispatch_Allowance\<close> is the book of approved allowances (\<open>engine/dispatch-allowance.ts\<close>), \<open>Budget_Governor\<close>
    the pre-egress governor (\<open>engine/budget-governor.ts\<close>) that calls it. \<open>Budget_Safety\<close> has the balance of its
    ledger and the law of its checks, \<open>Budget_Results\<close> and \<open>Budget_Accounts\<close> the properties.
  \<^item> \<^emph>\<open>The durable log.\<close> \<open>Run_Suspension\<close> has the events of the log and the reducer of gate and media-job histories
    (\<open>shared/src/run-suspension.ts\<close>, \<open>run-event.ts\<close>, \<open>budget-authorization.ts\<close>), which compares quotes by the
    bounded equality of \<open>Deep_Equal\<close> (\<open>shared/src/deep-equal.ts\<close>); \<open>Suspension_Laws\<close> says what a history opens,
    decides and retires. \<open>Usage_Coverage\<close> is the fold of usage evidence (\<open>shared/src/usage-coverage-fold.ts\<close>),
    \<open>Node_Life\<close> the life clock of agent nodes (\<open>engine/node-life-clock.ts\<close>). \<open>Checkpoint\<close> folds a whole log with the
    three of them (\<open>engine/checkpoint.ts\<close>); \<open>Checkpoint_Laws\<close> and \<open>Checkpoint_Money\<close> prove what it restores.
    \<open>Run_Resume\<close> seeds the state of the run loop and the ledger of the governor from a checkpoint
    (\<open>#seedFromCheckpoint\<close> and \<open>#activateCheckpoint\<close> of \<open>engine.ts\<close>) and joins the three parts.
  \<^item> \<^emph>\<open>Providers.\<close> \<open>Llm_Stream\<close> has usage evidence, classified errors and chunks of the provider seam and the
    grammar check of a stream (\<open>packages/llm/src/stream-grammar.ts\<close>), \<open>Chain_Request\<close> the requests, the removal
    of provider-signed parts and the state of a call, \<open>Fallback_Chain\<close> the walk of a call over its plan
    (\<open>packages/llm/src/fallback-chain.ts\<close>). \<open>Chain_Laws\<close> proves what a call reports, yields and sends,
    \<open>Chain_Results\<close> states the properties.
  \<^item> \<^emph>\<open>Tools and effects.\<close> \<open>Js_String\<close> has the string functions of JavaScript the code uses. \<open>Egress_Host\<close> is the
    policy for addresses and URLs a tool may reach (\<open>shared/src/content.ts\<close>), \<open>Egress_Laws\<close> says which addresses it
    blocks. \<open>Effect_Journal\<close> is the journal of effects, its reference (\<open>engine/execution-host.ts\<close>) and its store
    (\<open>packages/db/src/effect-journal-store.ts\<close>). \<open>Tool_Policy\<close> has the errors, the definition and the policy of a tool,
    the arguments it runs with and their projections, \<open>Tool_Registry\<close> the dispatch of a call from its grant to its
    outcome, with the journal around it (\<open>core/src/tools/registry.ts\<close>, \<open>types.ts\<close>, \<open>errors.ts\<close>, \<open>effect-predicate.ts\<close>).
    \<open>Tool_Laws\<close> says what a dispatch may do, in which order, and what a replay gives back, \<open>Tool_Results\<close> states the
    properties.
  \<^item> \<open>Relavium_Prelude\<close> has JavaScript maps and sets, safe integers and event systems, \<open>Sample_Documents\<close> and
    \<open>Sample_Runs\<close> the concrete documents and runs of the witnesses.

  The plan is built once and never changes; the run loop reads it. The run loop asks the governor before a
  node calls a provider; here the two are separate systems, joined by the events the loop causes. Both write
  events to the durable log; after a crash the log is all that is left of them, and a new process rebuilds
  both from it. An agent node calls its providers through a fallback chain, whose hooks ask the governor; the
  chain is a system of its own, with the hooks as functions of its host. The tools a model asks for go through the
  registry, which claims a call in the journal before it leaves the process; one dispatch is a function of the
  state of the world, in which the journal lives.

  \<^bold>\<open>Interfaces.\<close> \<open>js_map\<close> (maps in insertion order), \<open>ready_queue\<close> (the queue Kahn's algorithm needs),
  \<open>event_system\<close> (invariants of runs), \<open>governor_law\<close> (a property of the ledger that all checks keep),
  \<open>effect_journal\<close> (the contract of a journal, kept by the reference and by the store) and \<open>metered_system\<close> (an invariant whose bound grows with the events) are locales, each interpreted on the
  definitions of the model.

  \<^bold>\<open>What is shown.\<close> C1 to C13 (less C8, C9 and C11), below: the builder accepts exactly the well-formed documents, its
  order and vertices are those of the declared graph, cycles are named, ceilings hold, joins aggregate what they
  should, templates lose nothing, the secret gate is exact. C15 to C25 (less C17 and C21), in
  \<open>Run_Results\<close>: skips, readiness of what was started, verdicts, finality, attempt and dispatch bounds, progress, and
  two interleavings that make the loop fail a live run. C26 in \<open>Dispatch_Allowance\<close>: an allowance is never
  overspent, with re-entrant host predicates. C27 in \<open>Budget_Results\<close>: the exposure of a run stays within its
  cap and what was granted around it. C28 and C29 in \<open>Budget_Accounts\<close>: the totals add up, and a hold that
  skips the durability barrier. C31 and
  C32 in \<open>Suspension_Laws\<close>: gates are decided once, and the pending gates are exactly the outstanding ones. C33 in
  \<open>Usage_Coverage\<close>: the forgetful fold counts what following every call counts. C35 in \<open>Checkpoint_Laws\<close>: the
  nodes of a checkpoint. C37 to C39 in \<open>Run_Resume\<close>: what a resumed run starts from, that a crash gives no money back, and
  a failure that a resume forgets. C9, C11, C21 and C40 in \<open>Chain_Results\<close>: what a streamed call yields, that it
  sends no provider another's signed parts, that calls and costs are those it reports, and three calls after
  which signed parts reach another provider all the same. C8 and C30 in \<open>Egress_Laws\<close>: which addresses are blocked
  however they are spelled, and that the weaker block is contained in the stronger. C34 in
  \<open>Effect_Journal\<close>: an effect is let go ahead once. C14, C17 and C36 in \<open>Tool_Results\<close>: what precedes a call of the host,
  that no failure after a claim asks for a retry, and that a call made again after a crash is answered, not made.
  Further theorems without a number (the claim of ready vertices, the slots of a run, replayed results, the
  grants of tools, structural equality, the life clock, command globs) stand beside them.

  \<^bold>\<open>Parameters.\<close> Code that is not part of the repository, or that runs untrusted text, is an argument: the
  expression reader and the schema compiler of the builder, the byte length of a value, the outcomes of
  node executors, the price of a call, the answers of host predicates and of durable writes, what a provider
  streams, and the hooks, clock and timers of the host of a chain. The chain also takes the applicability of
  output caps, the tiers a model accepts and the capability check as functions (\<open>output-cap.ts\<close>,
  \<open>reasoning-wire.ts\<close>, \<open>capabilities.ts\<close>, not modelled). The registry takes its tools, the approval hook, the admission of
  the host and the signal as functions of the world, and the bounding and redaction of values (\<open>bounding.ts\<close>) as functions.

  \<^bold>\<open>Numbers and fuel.\<close> Money and counters are \<open>int\<close> or \<open>nat\<close>, with the guards \<open>Number.isSafeInteger\<close> written out.
  The folds over the log keep plain numbers, as the code does. Loops are recursion with a measure, also the
  propagation of skips and the attempts of a plan entry, whose bound a refreshed credential raises once for a
  provider; the propagation of taint runs with a fuel that is proved to reach the fixed point.

  \<^bold>\<open>Not modelled.\<close> Field-level constraints of Zod schemas. Of the engine: leases and departure of a run, the
  admission of a resume, stamping and delivery of events. Of the fallback chain: the
  registration of host work, repairs an adapter makes on its own, a consumer that stops reading, and calls
  that are not streamed. Agent turns and sessions, the built-in tools, the adapters, persistence (\<open>packages/db\<close>, SQL), the MCP
  client, the expression sandbox (QuickJS) and the command line, which are mostly input and output around
  third-party code; the identity check of a resume, the bounding and redaction of tool results and the display events of a
  dispatch are pure and not done.
\<close>

section \<open>The plan builder\<close>

text \<open>C1. The builder returns a plan for exactly the documents that obey every authoring rule: no
  registry prompt that reaches a model carries a secret, all numbers are within the admission
  ceilings, every edge, branch, member and agent reference resolves, the dependency graph has no
  cycle, expressions read only outputs their node is ordered after, and every output schema
  compiles.\<close>

theorem buildRunPlan_accepts_iff:
  assumes "distinct (nodeIds spec)"
  shows "(\<exists>plan. buildRunPlan reads compile spec opts = Inr plan) \<longleftrightarrow> wellformedDocument reads compile spec opts"
  using buildRunPlan_Inr_iff[OF assms] admissible_iff_wellformed[OF assms] by blast

theorem buildRunPlan_accepts_iff_witness:
  "distinct (nodeIds sampleSpec) \<and> wellformedDocument noReads compileAll sampleSpec sampleOpts"
  using buildRunPlan_accepts_iff[OF sample_distinct, of noReads compileAll sampleOpts] sample_builds sample_distinct
  by blast

text \<open>C2. The order of a returned plan is a permutation of the node ids in which every vertex comes
  after all of its dependencies.\<close>

theorem plan_order_topological:
  assumes d: "distinct (nodeIds spec)" and plan: "buildRunPlan reads compile spec opts = Inr plan"
  shows "distinct (rp_order plan) \<and> set (rp_order plan) = set (nodeIds spec) \<and>
    (\<forall>i < length (rp_order plan). \<exists>vtx. mget (rp_vertices plan) (rp_order plan ! i) = Some vtx \<and>
       set (pv_dependencies vtx) \<subseteq> set (take i (rp_order plan)))"
  using plan_order_facts[OF assms] .

theorem plan_order_topological_witness:
  "distinct (rp_order samplePlan) \<and> set (rp_order samplePlan) = set (nodeIds sampleSpec)"
  using plan_order_topological[OF sample_distinct sample_builds] by blast

text \<open>C3. Every node has a vertex in a returned plan, and no other id has one; its dependencies and
  dependents are exactly the edges the document declares, in authored order, and its ancestors are
  the transitive closure of the dependencies, in code-unit order.\<close>

theorem plan_vertices_exact:
  assumes d: "distinct (nodeIds spec)" and plan: "buildRunPlan reads compile spec opts = Inr plan"
  shows "(\<forall>v. mget (rp_vertices plan) v = None \<longleftrightarrow> v \<notin> set (nodeIds spec)) \<and>
    (\<forall>node \<in> set (ws_nodes spec). \<exists>vtx. mget (rp_vertices plan) (node_id_of node) = Some vtx \<and>
       pv_id vtx = node_id_of node \<and> pv_type vtx = engineType node \<and>
       set (pv_dependencies vtx) = {p. (p, node_id_of node) \<in> depEdges spec opts} \<and>
       set (pv_dependents vtx) = {c. (node_id_of node, c) \<in> depEdges spec opts} \<and>
       sorted (map (authoredKey (authoredIndexOf spec)) (pv_dependencies vtx)) \<and>
       distinct (pv_dependencies vtx) \<and> distinct (pv_dependents vtx) \<and>
       set (pv_ancestors vtx) = {u. (u, node_id_of node) \<in> (depEdges spec opts)\<^sup>+} \<and>
       sorted (pv_ancestors vtx) \<and> distinct (pv_ancestors vtx))"
proof -
  note p = buildRunPlan_InrD[OF d plan]
  note w = wiredState_effect[OF d, of opts]
  let ?st = "wiredState spec opts" and ?ags = "fst (resolveAgents spec (opt_agents opts))"
  have ac: "acyclic (depEdges spec opts)" using p(1) by (simp add: admissible_def)
  have deps: "set (adj (bs_dependencies ?st) v) = {p. (p, v) \<in> depEdges spec opts}" for v
    unfolding w(2)[symmetric] by (simp add: edges_def)
  have outs: "set (adj (bs_dependents ?st) v) = {c. (v, c) \<in> depEdges spec opts}" for v
    unfolding w(2)[symmetric] using w(1) by (auto simp: edges_def wf_graph_def)
  have vtx: "\<exists>vtx. mget (rp_vertices plan) (node_id_of node) = Some vtx \<and>
       pv_id vtx = node_id_of node \<and> pv_type vtx = engineType node \<and>
       set (pv_dependencies vtx) = {p. (p, node_id_of node) \<in> depEdges spec opts} \<and>
       set (pv_dependents vtx) = {c. (node_id_of node, c) \<in> depEdges spec opts} \<and>
       sorted (map (authoredKey (authoredIndexOf spec)) (pv_dependencies vtx)) \<and>
       distinct (pv_dependencies vtx) \<and> distinct (pv_dependents vtx) \<and>
       set (pv_ancestors vtx) = {u. (u, node_id_of node) \<in> (depEdges spec opts)\<^sup>+} \<and>
       sorted (pv_ancestors vtx) \<and> distinct (pv_ancestors vtx)"
    if n: "node \<in> set (ws_nodes spec)" for node
  proof -
    have v: "node_id_of node \<in> set (nodeIds spec)" using n by simp
    then have "distinct (adj (bs_dependencies ?st) (node_id_of node))" "distinct (adj (bs_dependents ?st) (node_id_of node))"
      using w(1) by (auto simp: wf_graph_def)
    moreover note closureMap_closure[OF d ac v]
    moreover obtain vtx where "mget (rp_vertices plan) (node_id_of node) = Some vtx"
      "pv_id vtx = node_id_of node" "pv_type vtx = engineType node"
      "pv_dependencies vtx = sort_key (authoredKey (authoredIndexOf spec)) (adj (bs_dependencies ?st) (node_id_of node))"
      "pv_dependents vtx = sort_key (authoredKey (authoredIndexOf spec)) (adj (bs_dependents ?st) (node_id_of node))"
      "pv_ancestors vtx = adj (closureMap spec opts) (node_id_of node)"
      using assemblePlan_vertex[OF d n, of ?ags ?st "builtOrder spec opts" "closureMap spec opts"]
      unfolding p(2)[symmetric] by blast
    ultimately show ?thesis
      by (intro exI[of _ vtx] conjI) (simp_all only: set_sort distinct_sort deps outs sorted_sort_key)
  qed
  have "mget (rp_vertices plan) v = None \<longleftrightarrow> v \<notin> set (nodeIds spec)" for v
  proof (cases "v \<in> set (nodeIds spec)")
    case True
    then obtain node where "node \<in> set (ws_nodes spec)" "v = node_id_of node" by auto
    with vtx[of node] True show ?thesis by force
  next
    case False
    then show ?thesis using assemblePlan_no_other_vertex[OF False] by (simp add: p(2))
  qed
  with vtx show ?thesis by blast
qed

theorem plan_vertices_exact_witness:
  "\<exists>vtx. mget (rp_vertices samplePlan) (node_id_of (NAgent sampleAgentNode)) = Some vtx \<and> pv_id vtx = ''draft''"
  using plan_vertices_exact[OF sample_distinct sample_builds] by (force simp: sampleSpec_def sampleAgentNode_def)

text \<open>C4. The order is reproducible: on a graph whose two adjacency maps agree, Kahn's algorithm over
  the heap returns the order that repeatedly emits the first node in authored order whose
  dependencies were all emitted.\<close>

theorem kahnOrder_refines_authored_first:
  assumes "wf_graph ids outs ins" and "authored ids (authoredKey idx)"
  shows "kahnOrder ids outs ins idx = Some (topoSpec (length ids) ids ins [])"
  using assms by (rule kahnOrder_is_topoSpec)

theorem kahnOrder_refines_authored_first_witness:
  "kahnOrder [''b'', ''a''] [''a'' \<mapsto> [''b''], ''b'' \<mapsto> []] [''a'' \<mapsto> [], ''b'' \<mapsto> [''a'']] [''b'' \<mapsto> 0, ''a'' \<mapsto> 1] =
     Some [''a'', ''b'']"
proof -
  have "wf_graph [''b'', ''a''] [''a'' \<mapsto> [''b''], ''b'' \<mapsto> []] [''a'' \<mapsto> [], ''b'' \<mapsto> [''a'']]"
    by (auto simp: wf_graph_def adj_def dom_def)
  moreover have "authored [''b'', ''a''] (authoredKey [''b'' \<mapsto> 0, ''a'' \<mapsto> 1])"
    by (auto simp: authored_def authoredKey_def less_Suc_eq)
  ultimately show ?thesis using kahnOrder_refines_authored_first by (force simp: releasable_def adj_def)
qed

text \<open>C5. A document with a dependency cycle is rejected, and the report names one: a closed walk
  over declared edges through distinct nodes of the document.\<close>

theorem cyclic_document_names_cycle:
  assumes d: "distinct (nodeIds spec)" and l: "agentLeaks spec opts = Some []"
    and cyc: "\<not> acyclic (depEdges spec opts)"
  shows "\<exists>issues ring. buildRunPlan reads compile spec opts = Inl (GraphError issues) \<and>
     cycleIssue (ring @ [hd ring]) \<in> set issues \<and> ring \<noteq> [] \<and> distinct ring \<and> set ring \<subseteq> set (nodeIds spec) \<and>
     successively (\<lambda>u v. (u, v) \<in> depEdges spec opts) (ring @ [hd ring])"
proof -
  note w = wiredState_effect[OF d, of opts]
  note b = builtOrder_facts[OF d, of opts]
  have "\<not> set (nodeIds spec) \<subseteq> set (builtOrder spec opts)"
  proof
    assume "set (nodeIds spec) \<subseteq> set (builtOrder spec opts)"
    then have "length (builtOrder spec opts) = length (nodeIds spec)"
      using distinct_card[OF b(2)] distinct_card[OF d] b(3) by (metis subset_antisym)
    then show False using b(6) cyc by simp
  qed
  from extractCycle_ring[OF w(1) b(5) this, of "authoredIndexOf spec"] obtain ring where
    "extractCycle (nodeIds spec) (builtOrder spec opts) (bs_dependencies (wiredState spec opts)) (authoredIndexOf spec)
      = ring @ [hd ring]" "ring \<noteq> []" "distinct ring" "set ring \<subseteq> set (nodeIds spec)"
    "successively (\<lambda>u v. (u, v) \<in> depEdges spec opts) (ring @ [hd ring])"
    unfolding w(2) by blast
  then show ?thesis using buildRunPlan_cyclic[OF d l cyc, of reads compile] by fastforce
qed

theorem cyclic_document_names_cycle_witness:
  "\<exists>issues. buildRunPlan noReads compileAll loopSpec sampleOpts = Inl (GraphError issues)"
proof -
  have ab: "(''a'', ''b'') \<in> depEdges loopSpec sampleOpts" "(''b'', ''a'') \<in> depEdges loopSpec sampleOpts"
    by code_simp+
  then have "\<not> acyclic (depEdges loopSpec sampleOpts)"
    unfolding acyclic_def by (meson trancl.intros)
  moreover have "distinct (nodeIds loopSpec)" "agentLeaks loopSpec sampleOpts = Some []" by code_simp+
  ultimately show ?thesis using cyclic_document_names_cycle by blast
qed

text \<open>C6. In every accepted document the wired dependency graph has at most 500 nodes and 2000
  edges: the ceilings count every edge the builder materialises, whatever form it was authored in.\<close>

theorem accepted_graph_within_ceilings:
  assumes d: "distinct (nodeIds spec)" and plan: "buildRunPlan reads compile spec opts = Inr plan"
  shows "length (rp_order plan) \<le> 500 \<and> card (edges (bs_dependencies (wiredState spec opts))) \<le> 2000"
proof -
  note p = buildRunPlan_InrD[OF d plan]
  have within: "withinCeilings spec (fst (resolveAgents spec (opt_agents opts)))"
    using p(1) by (simp add: admissible_def collectCeilingIssues_Nil_iff)
  have "rp_order plan = builtOrder spec opts" by (simp add: p(2) assemblePlan_def Let_def)
  then have "length (rp_order plan) \<le> 500"
    using builtOrder_facts(7)[OF d, of opts] within by (simp add: withinCeilings_def ceil_nodes_def)
  moreover have "card (edges (bs_dependencies (wiredState spec opts))) \<le> 2000"
    unfolding wiredState_effect(2)[OF d, of opts]
    using depEdges_le_totalEdges[of spec opts] within by (simp add: withinCeilings_def ceil_edges_def)
  ultimately show ?thesis by blast
qed

theorem accepted_graph_within_ceilings_witness:
  "card (edges (bs_dependencies (wiredState sampleSpec sampleOpts))) \<le> 2000"
  using accepted_graph_within_ceilings[OF sample_distinct sample_builds] by blast

text \<open>C7. A join of a returned plan aggregates each of its value-producing dependencies exactly once
  and nothing else, and where it is paired with a split, the branches of the split come first in the
  order the split declares them.\<close>

theorem join_branches_exact:
  assumes d: "distinct (nodeIds spec)" and plan: "buildRunPlan reads compile spec opts = Inr plan"
    and members: "\<forall>p \<in> set (parallelNodes spec). distinct (pn_parallel_of p)"
    and m: "NMerge m \<in> set (ws_nodes spec)"
  shows "\<exists>vtx branches. mget (rp_vertices plan) (mn_id m) = Some vtx \<and>
     pv_config vtx = FanInConfig m (if mn_merge_strategy m = First then WaitFirst else WaitAll)
       (mn_merge_strategy m) branches (mn_merge_fn m) \<and>
     distinct branches \<and> set branches = {b \<in> set (pv_dependencies vtx). producing spec b} \<and>
     (\<forall>p. pairedParallel spec (adj (bs_dependencies (wiredState spec opts)) (mn_id m)) (mn_id m) = Some p \<longrightarrow>
        (\<exists>rest. branches = filter (\<lambda>b. b \<noteq> mn_id m \<and> producing spec b) (pn_parallel_of p) @ rest))"
proof -
  note p = buildRunPlan_InrD[OF d plan]
  note w = wiredState_effect[OF d, of opts]
  let ?deps = "bs_dependencies (wiredState spec opts)" and ?key = "authoredKey (authoredIndexOf spec)"
  let ?bs = "mergeBranches spec ?deps ?key (mn_id m)"
  have "mn_id m \<in> set (nodeIds spec)" using m by (force simp: image_iff)
  then have "distinct (adj ?deps (mn_id m))" using w(1) unfolding wf_graph_def by blast
  moreover have "mn_id m \<notin> set (adj ?deps (mn_id m))"
    using p(1) acyclic_no_self[of "edges ?deps" "mn_id m"] w(2) by (simp add: admissible_def edges_def)
  ultimately have bs: "distinct ?bs" "set ?bs = {b \<in> set (adj ?deps (mn_id m)). producing spec b}"
    using mergeBranches_exact[OF _ _ members] by blast+
  from assemblePlan_vertex[OF d m, of "fst (resolveAgents spec (opt_agents opts))" "wiredState spec opts"
      "builtOrder spec opts" "closureMap spec opts"] obtain vtx where
    "mget (rp_vertices plan) (mn_id m) = Some vtx" "set (pv_dependencies vtx) = set (adj ?deps (mn_id m))"
    "pv_config vtx = FanInConfig m (if mn_merge_strategy m = First then WaitFirst else WaitAll)
       (mn_merge_strategy m) ?bs (mn_merge_fn m)"
    unfolding p(2)[symmetric] by (auto simp: mget_computeMergeBranchOrder[OF d m])
  with bs mergeBranches_prefix show ?thesis by blast
qed

theorem join_branches_exact_witness:
  "\<exists>vtx. mget (rp_vertices joinPlan) ''join'' = Some vtx \<and>
     (\<exists>s branches. pv_config vtx = FanInConfig \<lparr>mn_id = ''join'', mn_merge_strategy = Concat, mn_merge_fn = None,
        mn_retry = None\<rparr> s Concat branches None \<and> distinct branches)"
proof -
  have "distinct (nodeIds joinSpec)" "\<forall>p \<in> set (parallelNodes joinSpec). distinct (pn_parallel_of p)"
    by code_simp+
  moreover have "NMerge \<lparr>mn_id = ''join'', mn_merge_strategy = Concat, mn_merge_fn = None, mn_retry = None\<rparr>
      \<in> set (ws_nodes joinSpec)" by (simp add: joinSpec_def)
  ultimately show ?thesis using join_branches_exact[OF _ join_builds] by fastforce
qed

text \<open>A node may only narrow the tool grant of its agent: the check adds no issue exactly if every
  tool the node names was granted (or the grant is not final yet), and it never adds more than
  eleven issues, however many tools are named.\<close>

theorem tool_grant_only_narrows:
  "\<exists>I. collectToolGrantIssues n ag final st = st\<lparr>bs_issues := bs_issues st @ I\<rparr> \<and>
       (I = [] \<longleftrightarrow> grantNarrows n ag final) \<and> length I \<le> 11"
  using collectToolGrantIssues_effect[of n ag final] by (auto simp: applyAll_def MAX_REPORTED_WIDENINGS_def)

text \<open>The ready heap: popping a non-empty heap removes one occurrence of an element of least
  authored index and leaves a heap with the other elements.\<close>

theorem popReady_removes_minimum:
  assumes "heap key q" and "q \<noteq> []"
  shows "\<exists>x q'. popReady key q = (Some x, q') \<and> mset q = add_mset x (mset q') \<and> heap key q' \<and>
     (\<forall>y \<in> set q. key x \<le> key y)"
  using heap_queue.pop_ex[of key q] assms by auto

theorem popReady_removes_minimum_witness:
  "heap (\<lambda>n. n) [1, 2, 5::nat] \<and> (\<exists>q'. popReady (\<lambda>n. n) [1, 2, 5::nat] = (Some 1, q'))"
proof -
  have "heap (\<lambda>n. n) [1, 2, 5::nat]" by (auto simp: heap_def parent_def less_Suc_eq numeral_3_eq_3)
  with popReady_removes_minimum[of "\<lambda>n. n" "[1, 2, 5::nat]"] show ?thesis by (auto simp: popReady_def)
qed

section \<open>Templates and secrets\<close>

text \<open>C10. The template lexer loses nothing: literal text and the raw text of the references, put
  together in order, are the authored field.\<close>

theorem parseTemplate_lossless: "unparse (parseTemplate tpl) = tpl"
  by (rule unparse_parseTemplate)

text \<open>Every string can be passed to a filter: written between quotes with the delimiter and the
  backslash escaped, the argument parser returns exactly that string.\<close>

theorem parseArg_roundtrip:
  assumes "isQuoteChar q"
  shows "parseArg (q # encodeQuotedArg q s @ [q]) = Some (ArgString s)"
  using assms by (rule parseArg_quoted)

theorem parseArg_roundtrip_witness:
  "parseArg (CHR 0x22 # encodeQuotedArg CHR 0x22 ''a|b'' @ [CHR 0x22]) = Some (ArgString ''a|b'')"
  by (rule parseArg_roundtrip) (simp add: isQuoteChar_def)

text \<open>C12. The secret-taint gate is exact: it finds no leak in a document if and only if no reference in
  agent or human text reads a secret, directly or through any chain of inputs and context entries,
  and no context value reads the secret store.\<close>

theorem secret_taint_gate_exact:
  "analyzeSecretTaint spec = Some [] \<longleftrightarrow>
     (\<forall>r \<in> text_refs spec. \<not> carries_secret spec r) \<and>
     (\<forall>entry \<in> set (ws_context spec). \<forall>r \<in> set (templateReferences (ctx_value entry)). ref_kind r \<noteq> RSecrets)"
  by (rule analyzeSecretTaint_clean_iff)

theorem secret_taint_gate_exact_witness:
  "\<exists>r. r \<in> text_refs leakySpec \<and> carries_secret leakySpec r"
proof -
  have "analyzeSecretTaint leakySpec \<noteq> Some []" by code_simp
  moreover have "\<forall>entry \<in> set (ws_context leakySpec). \<forall>r \<in> set (templateReferences (ctx_value entry)).
      ref_kind r \<noteq> RSecrets" by code_simp
  ultimately show ?thesis using secret_taint_gate_exact[of leakySpec] by blast
qed



end
